(* ===== verification/Prelude.thy ===== *)
theory Prelude
  imports Main "HOL-Library.Word" "HOL-Library.List_Lexorder" "HOL-Library.Char_ord"
    "HOL-Library.Option_ord"
begin

text \<open>
  The vocabulary every component of the development shares: the collections of rewrite
  rules (one per layer of the program), the error type of the Go functions that return
  \<open>(value, error)\<close>, and facts on lists that more than one component needs.
\<close>

named_theorems go_string_simps \<open>equations of the string routines of the Go library\<close>
named_theorems hash_simps \<open>what the operations of xml.Hash return after one another\<close>
named_theorems accept_simps \<open>which items a hash filter accepts\<close>
named_theorems db_simps \<open>effect of the xml.DB operations on the stored items\<close>
named_theorems job_simps \<open>effect of the job database operations on its state\<close>

text \<open>
  A Go function that returns a value and an \<open>error\<close> is modelled as a sum: \<open>Inl msg\<close> for
  the non-nil error with its message, \<open>Inr v\<close> for the value. Go strings are byte strings,
  and so are the \<open>char list\<close>s of Isabelle (a \<open>char\<close> is eight bits).
\<close>

type_synonym 'a result = "string + 'a"

section \<open>Lists\<close>

lemma filter_eq_self_iff: "filter P xs = xs \<longleftrightarrow> list_all P xs"
  by (auto simp: filter_id_conv list_all_iff)

lemma distinct_map_filterI: "distinct (map f xs) \<Longrightarrow> distinct (map f (filter P xs))"
  by (rule distinct_map_filter)

lemma filter_True_conj: "filter P (filter Q xs) = filter (\<lambda>x. Q x \<and> P x) xs"
  by simp

lemma map_filter_neg_partition:
  "set (filter P xs) \<union> set (filter (\<lambda>x. \<not> P x) xs) = set xs"
  by auto

lemma length_filter_partition:
  "length (filter P xs) + length (filter (\<lambda>x. \<not> P x) xs) = length xs"
  by (rule sum_length_filter_compl)

lemma length_dropWhile_less_Suc [termination_simp]:
  "length (dropWhile P xs) < Suc (length xs)"
  by (simp add: length_dropWhile_le less_Suc_eq_le)

lemma find_append:
  "find P (xs @ ys) = (case find P xs of None \<Rightarrow> find P ys | Some x \<Rightarrow> Some x)"
  by (induction xs) auto

lemma find_filter_hd: "find P xs = (case filter P xs of [] \<Rightarrow> None | x # _ \<Rightarrow> Some x)"
  by (induction xs) auto

lemma find_None_iff_filter: "find P xs = None \<longleftrightarrow> filter P xs = []"
  by (induction xs) auto

lemma find_SomeD: "find P xs = Some x \<Longrightarrow> x \<in> set xs \<and> P x"
  by (auto simp: find_Some_iff)

end
