(* ===== verification/GoStrings.thy ===== *)
theory GoStrings
  imports Prelude
begin

text \<open>
  The part of Go's standard library (packages \<open>strings\<close>, \<open>strconv\<close>, \<open>bytes\<close>) the program
  uses on text, as functions on byte strings. Case folding is that of ASCII: a byte of 128
  or more is left alone, which is what Go does for text without letters outside ASCII.
\<close>

section \<open>Bytes\<close>

definition byte :: "char \<Rightarrow> nat" where
  "byte c = of_char c"

definition is_digit :: "char \<Rightarrow> bool" where
  "is_digit c \<longleftrightarrow> 48 \<le> byte c \<and> byte c \<le> 57"

definition digit_of :: "nat \<Rightarrow> char" where
  "digit_of d = char_of (48 + d)"

definition lower_char :: "char \<Rightarrow> char" where
  "lower_char c = (if 65 \<le> byte c \<and> byte c \<le> 90 then char_of (byte c + 32) else c)"

text \<open>White space as \<open>strings.Fields\<close> and \<open>strings.TrimSpace\<close> see it in ASCII text.\<close>

definition is_space :: "char \<Rightarrow> bool" where
  "is_space c \<longleftrightarrow> byte c \<in> {9, 10, 11, 12, 13, 32}"

lemma byte_less [simp]: "byte c < 256"
proof -
  have "(of_char c :: nat) < 256" using nat_of_char_less_256 by simp
  then show ?thesis by (simp add: byte_def)
qed

lemma byte_char_of [simp]: "n < 256 \<Longrightarrow> byte (char_of n) = n"
  by (simp add: byte_def)

lemma byte_inject [simp]: "byte c = byte d \<longleftrightarrow> c = d"
  by (simp add: byte_def)

lemma byte_digit_of [simp]: "d < 10 \<Longrightarrow> byte (digit_of d) = 48 + d"
  by (simp add: digit_of_def)

lemma is_digit_digit_of [simp]: "d < 10 \<Longrightarrow> is_digit (digit_of d)"
  by (simp add: is_digit_def)

lemma lower_digit [simp]: "is_digit c \<Longrightarrow> lower_char c = c"
  by (simp add: lower_char_def is_digit_def)

lemma byte_lower_char:
  "byte (lower_char c) = (if 65 \<le> byte c \<and> byte c \<le> 90 then byte c + 32 else byte c)"
  by (simp add: lower_char_def)

lemma lower_char_idem [simp]: "lower_char (lower_char c) = lower_char c"
  by (simp add: lower_char_def)

section \<open>Package strings\<close>

definition ToLower :: "string \<Rightarrow> string" where
  "ToLower s = map lower_char s"

definition HasPrefix :: "string \<Rightarrow> string \<Rightarrow> bool" where
  "HasPrefix s p \<longleftrightarrow> take (length p) s = p"

definition HasSuffix :: "string \<Rightarrow> string \<Rightarrow> bool" where
  "HasSuffix s p \<longleftrightarrow> length p \<le> length s \<and> drop (length s - length p) s = p"

text \<open>\<open>strings.Join(parts, sep)\<close>.\<close>

fun Join :: "string list \<Rightarrow> string \<Rightarrow> string" where
  "Join [] sep = []"
| "Join [s] sep = s"
| "Join (s # t # ss) sep = s @ sep @ Join (t # ss) sep"

text \<open>\<open>strings.Split(s, c)\<close> for a separator of one byte: always at least one part.\<close>

fun Split :: "string \<Rightarrow> char \<Rightarrow> string list" where
  "Split [] c = [[]]"
| "Split (x # xs) c =
     (if x = c then [] # Split xs c
      else (case Split xs c of [] \<Rightarrow> [[x]] | p # ps \<Rightarrow> (x # p) # ps))"

text \<open>\<open>strings.Index(s, c)\<close> for one byte; None stands for -1.\<close>

fun Index :: "string \<Rightarrow> char \<Rightarrow> nat option" where
  "Index [] c = None"
| "Index (x # xs) c = (if x = c then Some 0 else map_option Suc (Index xs c))"

text \<open>\<open>strings.Fields\<close>: the maximal runs of bytes that are not white space.\<close>

fun Fields :: "string \<Rightarrow> string list" where
  "Fields [] = []"
| "Fields (x # xs) =
     (if is_space x then Fields xs
      else (x # takeWhile (\<lambda>c. \<not> is_space c) xs) #
           Fields (dropWhile (\<lambda>c. \<not> is_space c) xs))"

definition TrimSpace :: "string \<Rightarrow> string" where
  "TrimSpace s = rev (dropWhile is_space (rev (dropWhile is_space s)))"

lemma ToLower_Nil [simp]: "ToLower [] = []"
  by (simp add: ToLower_def)

lemma ToLower_idem [simp]: "ToLower (ToLower s) = ToLower s"
  by (simp add: ToLower_def)

lemma length_ToLower [simp]: "length (ToLower s) = length s"
  by (simp add: ToLower_def)

lemma ToLower_eq_Nil [simp]: "ToLower s = [] \<longleftrightarrow> s = []"
  by (simp add: ToLower_def)

lemma ToLower_append [simp]: "ToLower (s @ t) = ToLower s @ ToLower t"
  by (simp add: ToLower_def)

lemma HasPrefix_append [simp]: "HasPrefix (p @ s) p"
  by (simp add: HasPrefix_def)

lemma HasPrefix_iff: "HasPrefix s p \<longleftrightarrow> (\<exists>r. s = p @ r)"
  by (metis HasPrefix_append HasPrefix_def append_take_drop_id)

lemma Split_nonempty [simp]: "Split s c \<noteq> []"
  by (induction s) (auto split: list.splits)

lemma Join_Split: "Join (Split s c) [c] = s"
proof (induction s)
  case Nil
  show ?case by simp
next
  case (Cons x xs)
  obtain p ps where sp: "Split xs c = p # ps"
    using Split_nonempty [of xs c] by (cases "Split xs c") simp_all
  with Cons have j: "Join (p # ps) [c] = xs" by simp
  show ?case
  proof (cases "x = c")
    case True
    with sp j show ?thesis by simp
  next
    case False
    with sp j show ?thesis by (cases ps) auto
  qed
qed

lemma Split_no_sep: "c \<notin> set s \<Longrightarrow> Split s c = [s]"
  by (induction s) auto

lemma Split_parts_no_sep: "p \<in> set (Split s c) \<Longrightarrow> c \<notin> set p"
proof (induction s arbitrary: p)
  case Nil
  then show ?case by simp
next
  case (Cons x xs)
  obtain q qs where sp: "Split xs c = q # qs"
    using Split_nonempty [of xs c] by (cases "Split xs c") simp_all
  with Cons.IH have "c \<notin> set q" and "\<And>r. r \<in> set qs \<Longrightarrow> c \<notin> set r"
    by simp_all
  with Cons.prems sp show ?case by (cases "x = c") auto
qed

lemma Fields_no_space: "w \<in> set (Fields s) \<Longrightarrow> w \<noteq> [] \<and> (\<forall>c \<in> set w. \<not> is_space c)"
proof (induction s rule: Fields.induct)
  case 1
  then show ?case by simp
next
  case (2 x xs)
  show ?case
  proof (cases "is_space x")
    case True
    with 2 show ?thesis by simp
  next
    case False
    with "2.prems" consider "w = x # takeWhile (\<lambda>c. \<not> is_space c) xs"
      | "w \<in> set (Fields (dropWhile (\<lambda>c. \<not> is_space c) xs))" by auto
    then show ?thesis
    proof cases
      case 1
      with False show ?thesis by (metis list.distinct(1) set_ConsD set_takeWhileD)
    next
      case 2
      with "2.IH"(2) [OF False] show ?thesis by simp
    qed
  qed
qed

section \<open>Package strconv: decimal numbers\<close>

text \<open>\<open>strconv.FormatUint(n, 10)\<close>.\<close>

fun itoa :: "nat \<Rightarrow> string" where
  "itoa n = (if n < 10 then [digit_of n] else itoa (n div 10) @ [digit_of (n mod 10)])"

declare itoa.simps [simp del]

definition digits_value :: "string \<Rightarrow> nat" where
  "digits_value s = foldl (\<lambda>v c. 10 * v + (byte c - 48)) 0 s"

text \<open>
  \<open>strconv.ParseUint(s, 10, 64)\<close>: an error for an empty string, for a byte that is not a
  digit and for a value that does not fit in 64 bits.
\<close>

definition ParseUint :: "string \<Rightarrow> nat option" where
  "ParseUint s =
     (if s \<noteq> [] \<and> list_all is_digit s \<and> digits_value s < 2 ^ 64
      then Some (digits_value s) else None)"

text \<open>\<open>strconv.ParseInt(s, 10, 64)\<close>: as above with an optional sign, in the range of int64.\<close>

definition ParseInt :: "string \<Rightarrow> int option" where
  "ParseInt s =
     (let (neg, ds) = (case s of [] \<Rightarrow> (False, [])
                       | c # cs \<Rightarrow> if c = CHR ''-'' then (True, cs)
                                   else if c = CHR ''+'' then (False, cs) else (False, s));
          v = int (digits_value ds); n = (if neg then - v else v)
      in if ds \<noteq> [] \<and> list_all is_digit ds \<and> - (2 ^ 63) \<le> n \<and> n < 2 ^ 63
         then Some n else None)"

lemma digits_value_snoc [simp]: "digits_value (s @ [c]) = 10 * digits_value s + (byte c - 48)"
  by (simp add: digits_value_def)

lemma itoa_nonempty [simp]: "itoa n \<noteq> []"
  by (subst itoa.simps) simp

lemma itoa_digits: "list_all is_digit (itoa n)"
proof (induction n rule: itoa.induct)
  case (1 n)
  then show ?case by (subst itoa.simps) auto
qed

lemma digits_value_itoa [simp]: "digits_value (itoa n) = n"
proof (induction n rule: itoa.induct)
  case (1 n)
  show ?case
  proof (cases "n < 10")
    case True
    then show ?thesis by (subst itoa.simps) (simp add: digits_value_def)
  next
    case False
    with 1 have "digits_value (itoa (n div 10)) = n div 10" by simp
    with False show ?thesis by (subst itoa.simps) simp
  qed
qed

lemma itoa_inject [simp]: "itoa m = itoa n \<longleftrightarrow> m = n"
  by (metis digits_value_itoa)

lemma ParseUint_itoa [simp]: "n < 2 ^ 64 \<Longrightarrow> ParseUint (itoa n) = Some n"
  by (simp add: ParseUint_def itoa_digits)

lemma ParseUint_bound: "ParseUint s = Some n \<Longrightarrow> n < 2 ^ 64"
  by (auto simp: ParseUint_def split: if_splits)

lemma ToLower_digits: "list_all is_digit s \<Longrightarrow> ToLower s = s"
  by (induction s) (auto simp: ToLower_def)

lemma ToLower_itoa [simp]: "ToLower (itoa n) = itoa n"
  by (rule ToLower_digits) (rule itoa_digits)

section \<open>Searching and replacing\<close>

definition Contains :: "string \<Rightarrow> string \<Rightarrow> bool" where
  "Contains s sub \<longleftrightarrow> list_ex (\<lambda>i. HasPrefix (drop i s) sub) [0..<length s + 1]"

lemma Contains_middle: "Contains (a @ sub @ b) sub"
  unfolding Contains_def list_ex_iff
  by (rule bexI [of _ "length a"]) (simp_all add: HasPrefix_append)

text \<open>\<open>strings.Index\<close> and \<open>strings.LastIndex\<close> for a text; None stands for -1.\<close>

fun IndexText :: "string \<Rightarrow> string \<Rightarrow> nat option" where
  "IndexText [] sub = (if sub = [] then Some 0 else None)"
| "IndexText (c # s) sub = (if HasPrefix (c # s) sub then Some 0 else map_option Suc (IndexText s sub))"

fun LastIndexText :: "string \<Rightarrow> string \<Rightarrow> nat option" where
  "LastIndexText [] sub = (if sub = [] then Some 0 else None)"
| "LastIndexText (c # s) sub =
     (case LastIndexText s sub of Some i \<Rightarrow> Some (Suc i)
      | None \<Rightarrow> if HasPrefix (c # s) sub then Some 0 else None)"

text \<open>\<open>strings.LastIndex(s, c)\<close> for one byte.\<close>

definition LastIndex :: "string \<Rightarrow> char \<Rightarrow> nat option" where
  "LastIndex s c = map_option (\<lambda>k. length s - 1 - k) (Index (rev s) c)"

text \<open>\<open>strings.Replace(s, old, new, -1)\<close> for a text \<open>old\<close> that is not empty.\<close>

function ReplaceAll :: "string \<Rightarrow> string \<Rightarrow> string \<Rightarrow> string" where
  "ReplaceAll old new [] = []"
| "ReplaceAll old new (c # s) =
     (if old \<noteq> [] \<and> HasPrefix (c # s) old then new @ ReplaceAll old new (drop (length old) (c # s))
      else c # ReplaceAll old new s)"
  by pat_completeness auto
termination ReplaceAll by (relation "measure (\<lambda>(old, new, s). length s)") auto

text \<open>\<open>strings.SplitN(s, c, 2)\<close>.\<close>

definition SplitN2 :: "string \<Rightarrow> char \<Rightarrow> string list" where
  "SplitN2 s c = (case Index s c of None \<Rightarrow> [s] | Some k \<Rightarrow> [take k s, drop (Suc k) s])"

lemma Index_None_iff: "Index s c = None \<longleftrightarrow> c \<notin> set s"
  by (induction s) auto

lemma Index_append: "c \<notin> set p \<Longrightarrow> Index (p @ c # s) c = Some (length p)"
  by (induction p) auto

lemma LastIndex_append: "c \<notin> set s \<Longrightarrow> LastIndex (p @ c # s) c = Some (length p)"
  by (simp add: LastIndex_def Index_append)

lemma LastIndex_None_iff: "LastIndex s c = None \<longleftrightarrow> c \<notin> set s"
  by (simp add: LastIndex_def Index_None_iff)

lemma LastIndexText_None: "LastIndexText s sub = None \<Longrightarrow> HasPrefix s sub \<Longrightarrow> False"
  by (cases s) (auto simp: HasPrefix_def split: option.splits if_splits)

section \<open>Package bytes: lexicographic comparison\<close>

text \<open>\<open>bytes.Compare(a, b)\<close>: -1, 0 or 1.\<close>

fun Compare :: "string \<Rightarrow> string \<Rightarrow> int" where
  "Compare [] [] = 0"
| "Compare [] (b # bs) = -1"
| "Compare (a # as) [] = 1"
| "Compare (a # as) (b # bs) =
     (if byte a < byte b then -1 else if byte b < byte a then 1 else Compare as bs)"

lemma byte_less_iff: "byte c < byte d \<longleftrightarrow> c < d"
  by (simp add: byte_def less_char_def)

lemma Compare_less: "Compare a b = -1 \<longleftrightarrow> a < b"
  by (induction a b rule: Compare.induct) (auto simp: byte_less_iff dest: less_asym)

lemma Compare_eq_0: "Compare a b = 0 \<longleftrightarrow> a = b"
  by (induction a b rule: Compare.induct) (auto simp: byte_less_iff dest: less_asym)

lemma Compare_greater: "Compare a b = 1 \<longleftrightarrow> b < a"
  by (induction a b rule: Compare.induct) (auto simp: byte_less_iff dest: less_asym)

lemma Compare_cases: "Compare a b = (if a < b then -1 else if b < a then 1 else 0)"
  using Compare_less [of a b] Compare_eq_0 [of a b] Compare_greater [of a b] by fastforce

end
