(* ===== verification/HashTree.thy ===== *)
theory HashTree
  imports GoStrings
begin

text \<open>
  \<^verbatim>\<open>xml.Hash\<close> (go-susi/xml/xml_hash.go) as a tree: an element has a name and, in the order
  of the linked list of the code, its children, each a text fragment or an element. A
  \<open>*Hash\<close> that points at a start tag is the subtree of that tag. A method that changes its
  receiver in place is a function from the tree to the changed tree; a method that returns
  a pointer into the tree which its caller then changes (\<open>h.FirstOrAdd(t).SetText(v)\<close>) takes
  the change as an argument. The layout of one node in memory is not modelled.
\<close>

section \<open>Elements and their children\<close>

datatype hash = Hash (Name: string) (kids: "kid list")
  and kid = Txt string | Sub hash

text \<open>The element children, in order: what an iteration with FirstChild and Next visits.\<close>

fun elems :: "kid list \<Rightarrow> hash list" where
  "elems [] = []"
| "elems (Txt s # ks) = elems ks"
| "elems (Sub h # ks) = h # elems ks"

fun frags :: "kid list \<Rightarrow> string list" where
  "frags [] = []"
| "frags (Txt s # ks) = s # frags ks"
| "frags (Sub h # ks) = frags ks"

abbreviation children :: "hash \<Rightarrow> hash list" where
  "children h \<equiv> elems (kids h)"

lemma elems_append [simp]: "elems (xs @ ys) = elems xs @ elems ys"
  by (induction xs rule: elems.induct) auto

lemma frags_append [simp]: "frags (xs @ ys) = frags xs @ frags ys"
  by (induction xs rule: frags.induct) auto

lemma elems_map_Txt [simp]: "elems (map Txt ss) = []"
  by (induction ss) auto

lemma frags_map_Txt [simp]: "frags (map Txt ss) = ss"
  by (induction ss) auto

lemma elems_map_Sub [simp]: "elems (map Sub hs) = hs"
  by (induction hs) auto

lemma frags_map_Sub [simp]: "frags (map Sub hs) = []"
  by (induction hs) auto

lemma set_elems [simp]: "h \<in> set (elems ks) \<longleftrightarrow> Sub h \<in> set ks"
  by (induction ks rule: elems.induct) auto

section \<open>Reading\<close>

text \<open>\<open>TextFragments\<close>: the text fragments that are children of the element itself.\<close>

definition TextFragments :: "hash \<Rightarrow> string list" where
  "TextFragments h = frags (kids h)"

text \<open>\<open>Text()\<close> without an argument.\<close>

definition own_text :: "hash \<Rightarrow> string" where
  "own_text h = concat (TextFragments h)"

text \<open>
  The scan that \<open>First\<close> does from the first child and \<open>Next\<close> from behind the current one:
  over text and over elements with another name, to the next element with this name. It
  returns that element and what follows it.
\<close>

fun scan_named :: "string \<Rightarrow> kid list \<Rightarrow> (hash \<times> kid list) option" where
  "scan_named t [] = None"
| "scan_named t (Txt s # ks) = scan_named t ks"
| "scan_named t (Sub h # ks) = (if Name h = t then Some (h, ks) else scan_named t ks)"

definition First :: "string \<Rightarrow> hash \<Rightarrow> hash option" where
  "First t h = map_option fst (scan_named t (kids h))"

lemma scan_named_shorter [termination_simp]:
  "scan_named t ks = Some (h, rest) \<Longrightarrow> length rest < length ks"
  by (induction t ks rule: scan_named.induct) (auto split: if_splits)

text \<open>The loop \<open>for c := h.First(t); c != nil; c = c.Next()\<close>: the elements it visits.\<close>

fun iter_named :: "string \<Rightarrow> kid list \<Rightarrow> hash list" where
  "iter_named t ks =
     (case scan_named t ks of None \<Rightarrow> [] | Some (h, rest) \<Rightarrow> h # iter_named t rest)"

declare iter_named.simps [simp del]

text \<open>\<open>Get(t1, t2, ...)\<close>: the texts of all children with these names, name by name.\<close>

definition Get :: "string list \<Rightarrow> hash \<Rightarrow> string list" where
  "Get ts h = concat (map (\<lambda>t. map own_text (iter_named t (kids h))) ts)"

text \<open>U+241E, the record separator of \<open>Text(t1, ...)\<close>, in UTF-8.\<close>

definition record_sep :: string where
  "record_sep = [char_of (226::nat), char_of (144::nat), char_of (158::nat)]"

definition Text :: "string list \<Rightarrow> hash \<Rightarrow> string" where
  "Text ts h = (if ts = [] then concat (TextFragments h) else Join (Get ts h) record_sep)"

text \<open>
  \<open>Subtags\<close>: each name once. The code takes them out of a Go map, whose order is not
  specified; the model lists them by last occurrence.
\<close>

definition Subtags :: "hash \<Rightarrow> string list" where
  "Subtags h = remdups (map Name (children h))"

abbreviation text_of :: "string \<Rightarrow> hash \<Rightarrow> string" where
  "text_of t h \<equiv> Text [t] h"

abbreviation get1 :: "string \<Rightarrow> hash \<Rightarrow> string list" where
  "get1 t h \<equiv> Get [t] h"

lemma iter_named_eq: "iter_named t ks = filter (\<lambda>c. Name c = t) (elems ks)"
proof (induction ks rule: elems.induct)
  case 1
  then show ?case by (subst iter_named.simps) simp
next
  case (2 s ks)
  then show ?case by (subst iter_named.simps, subst (asm) iter_named.simps) simp
next
  case (3 h ks)
  show ?case
  proof (cases "Name h = t")
    case True
    with 3 show ?thesis by (subst iter_named.simps) simp
  next
    case False
    with 3 show ?thesis by (subst iter_named.simps, subst (asm) iter_named.simps) simp
  qed
qed

lemma First_eq_find: "First t h = find (\<lambda>c. Name c = t) (children h)"
proof -
  have "map_option fst (scan_named t ks) = find (\<lambda>c. Name c = t) (elems ks)" for ks
    by (induction t ks rule: scan_named.induct) auto
  then show ?thesis by (simp add: First_def)
qed

lemma get1_eq: "get1 t h = map own_text (filter (\<lambda>c. Name c = t) (children h))"
  by (simp add: Get_def iter_named_eq)

lemma First_None_iff: "First t h = None \<longleftrightarrow> get1 t h = []"
  by (simp add: First_eq_find get1_eq find_None_iff_filter)

lemma First_SomeD: "First t h = Some c \<Longrightarrow> c \<in> set (children h) \<and> Name c = t"
  by (auto simp: First_eq_find dest: find_SomeD)

lemma text_of_eq: "text_of t h = Join (get1 t h) record_sep"
  by (simp add: Text_def)

section \<open>Building and changing\<close>

definition Rename :: "string \<Rightarrow> hash \<Rightarrow> hash" where
  "Rename name h = Hash name (kids h)"

definition AppendString :: "string \<Rightarrow> hash \<Rightarrow> hash" where
  "AppendString s h = (if s = [] then h else Hash (Name h) (kids h @ [Txt s]))"

text \<open>
  \<open>SetText\<close>: delete the text children, then append the given pieces (none, one string, or
  the elements of a \<open>[]string\<close>). The forms that format their arguments are calls with the
  formatted string.
\<close>

definition SetText :: "string list \<Rightarrow> hash \<Rightarrow> hash" where
  "SetText args h = fold AppendString args (Hash (Name h) (map Sub (elems (kids h))))"

definition AddWithOwnership :: "hash \<Rightarrow> hash \<Rightarrow> hash" where
  "AddWithOwnership x h = Hash (Name h) (kids h @ [Sub x])"

text \<open>
  \<open>NewHash(name, c0, ..., cN)\<close>: the result of Add(c0)...Add(c(N-1)).SetText(cN) starting at
  a new element, as the outermost element.
\<close>

fun NewHash :: "string \<Rightarrow> string list \<Rightarrow> hash" where
  "NewHash name [] = Hash name []"
| "NewHash name [text] = SetText [text] (Hash name [])"
| "NewHash name (sub # c # cs) = AddWithOwnership (NewHash sub (c # cs)) (Hash name [])"

definition Add :: "string \<Rightarrow> string list \<Rightarrow> hash \<Rightarrow> hash" where
  "Add subtag setText h = AddWithOwnership (SetText setText (NewHash subtag [])) h"

text \<open>
  \<open>Clone\<close>: a new element of the same name to which the text fragments are appended and the
  elements are added as clones, in order.
\<close>

fun Clone :: "hash \<Rightarrow> hash" and clone_onto :: "hash \<Rightarrow> kid list \<Rightarrow> hash" where
  "Clone (Hash n ks) = clone_onto (NewHash n []) ks"
| "clone_onto h [] = h"
| "clone_onto h (Txt s # ks) = clone_onto (AppendString s h) ks"
| "clone_onto h (Sub x # ks) = clone_onto (AddWithOwnership (Clone x) h) ks"

definition AddClone :: "hash \<Rightarrow> hash \<Rightarrow> hash" where
  "AddClone x h = AddWithOwnership (Clone x) h"

text \<open>\<open>remove\<close> of the first child named t, as \<open>RemoveFirst\<close> performs it.\<close>

fun remove_first :: "string \<Rightarrow> kid list \<Rightarrow> kid list" where
  "remove_first t [] = []"
| "remove_first t (Txt s # ks) = Txt s # remove_first t ks"
| "remove_first t (Sub h # ks) = (if Name h = t then ks else Sub h # remove_first t ks)"

definition RemoveFirst :: "string \<Rightarrow> hash \<Rightarrow> hash option \<times> hash" where
  "RemoveFirst t h = (First t h, Hash (Name h) (remove_first t (kids h)))"

abbreviation drop_first :: "string \<Rightarrow> hash \<Rightarrow> hash" where
  "drop_first t h \<equiv> snd (RemoveFirst t h)"

fun update_first :: "string \<Rightarrow> (hash \<Rightarrow> hash) \<Rightarrow> kid list \<Rightarrow> kid list" where
  "update_first t f [] = []"
| "update_first t f (Txt s # ks) = Txt s # update_first t f ks"
| "update_first t f (Sub h # ks) =
     (if Name h = t then Sub (f h) # ks else Sub h # update_first t f ks)"

text \<open>
  \<open>h.FirstOrAdd(t)\<close> followed by the change f of the element it returns: the first child
  named t if there is one, otherwise a new child at the end.
\<close>

definition FirstOrAdd :: "string \<Rightarrow> (hash \<Rightarrow> hash) \<Rightarrow> hash \<Rightarrow> hash" where
  "FirstOrAdd t f h =
     (case First t h of
        None \<Rightarrow> AddWithOwnership (f (NewHash t [])) h
      | Some _ \<Rightarrow> Hash (Name h) (update_first t f (kids h)))"

text \<open>\<open>h.FirstOrAdd(t).SetText(v)\<close>, the way every field of an entry is written.\<close>

definition set_field :: "string \<Rightarrow> string \<Rightarrow> hash \<Rightarrow> hash" where
  "set_field t v h = FirstOrAdd t (SetText [v]) h"

section \<open>Query and Remove\<close>

definition Query :: "(hash \<Rightarrow> bool) \<Rightarrow> hash \<Rightarrow> hash" where
  "Query accepts h =
     fold (\<lambda>item result. if accepts item then AddClone item result else result)
       (children h) (NewHash (Name h) [])"

text \<open>
  \<open>Remove\<close>: every accepted child moves, in order, from the receiver to the result. The
  model returns the result and the receiver that is left.
\<close>

fun remove_accepted :: "(hash \<Rightarrow> bool) \<Rightarrow> kid list \<Rightarrow> kid list" where
  "remove_accepted accepts [] = []"
| "remove_accepted accepts (Txt s # ks) = Txt s # remove_accepted accepts ks"
| "remove_accepted accepts (Sub x # ks) =
     (if accepts x then remove_accepted accepts ks
      else Sub x # remove_accepted accepts ks)"

definition Remove :: "(hash \<Rightarrow> bool) \<Rightarrow> hash \<Rightarrow> hash \<times> hash" where
  "Remove accepts h =
     (fold (\<lambda>item result. if accepts item then AddWithOwnership item result else result)
        (children h) (NewHash (Name h) []),
      Hash (Name h) (remove_accepted accepts (kids h)))"

section \<open>What each operation leaves in the element\<close>

lemma Name_ops [simp, hash_simps]:
  "Name (Rename n h) = n"
  "Name (AppendString s h) = Name h"
  "Name (SetText args h) = Name h"
  "Name (AddWithOwnership x h) = Name h"
  "Name (Add t args h) = Name h"
  "Name (AddClone x h) = Name h"
  "Name (drop_first t h) = Name h"
  "Name (FirstOrAdd t f h) = Name h"
  "Name (set_field t v h) = Name h"
proof -
  show app: "Name (AppendString s h) = Name h" for s h
    by (simp add: AppendString_def)
  then show "Name (SetText args h) = Name h"
    by (induction args rule: rev_induct) (auto simp: SetText_def)
  show "Name (FirstOrAdd t f h) = Name h" for t f h
    by (simp add: FirstOrAdd_def AddWithOwnership_def split: option.splits)
  then show "Name (set_field t v h) = Name h"
    by (simp add: set_field_def)
qed (simp_all add: Rename_def AddWithOwnership_def Add_def AddClone_def RemoveFirst_def)

lemma NewHash_children [simp]: "kids (NewHash n []) = []"
  by simp

lemma kids_SetText: "kids (SetText args h) =
    map Sub (children h) @ map Txt (filter (\<lambda>s. s \<noteq> []) args)"
  by (induction args rule: rev_induct) (auto simp: SetText_def AppendString_def)

lemma children_ops [simp, hash_simps]:
  "children (Rename n h) = children h"
  "children (AppendString s h) = children h"
  "children (SetText args h) = children h"
  "children (AddWithOwnership x h) = children h @ [x]"
  "children (Add t args h) = children h @ [SetText args (NewHash t [])]"
  "children (AddClone x h) = children h @ [Clone x]"
  by (simp_all add: Rename_def AppendString_def kids_SetText AddWithOwnership_def Add_def
      AddClone_def)

lemma concat_nonempty: "concat (filter (\<lambda>s. s \<noteq> []) ss) = concat ss"
  by (induction ss) auto

lemma own_text_SetText [simp, hash_simps]: "own_text (SetText args h) = concat args"
  by (simp add: own_text_def TextFragments_def kids_SetText concat_nonempty)

lemma own_text_ops [simp, hash_simps]:
  "own_text (Rename n h) = own_text h"
  "own_text (AppendString s h) = own_text h @ s"
  "own_text (AddWithOwnership x h) = own_text h"
  "own_text (Add t args h) = own_text h"
  "own_text (AddClone x h) = own_text h"
  "own_text (NewHash t []) = []"
  by (simp_all add: own_text_def TextFragments_def Rename_def AppendString_def
      AddWithOwnership_def Add_def AddClone_def)

lemma NewHash_field: "NewHash t [v] = SetText [v] (NewHash t [])"
  by simp

subsection \<open>Clones\<close>

text \<open>
  \<open>AppendString\<close> never stores an empty fragment, so the elements the program builds have
  none anywhere: they are tidy, and a clone of a tidy element is equal to it.
\<close>

fun tidy :: "hash \<Rightarrow> bool" and tidy_kids :: "kid list \<Rightarrow> bool" where
  "tidy (Hash n ks) = tidy_kids ks"
| "tidy_kids [] = True"
| "tidy_kids (Txt s # ks) = (s \<noteq> [] \<and> tidy_kids ks)"
| "tidy_kids (Sub x # ks) = (tidy x \<and> tidy_kids ks)"

lemma tidy_iff: "tidy h = tidy_kids (kids h)"
  by (cases h) simp

lemma tidy_kids_append [simp]: "tidy_kids (xs @ ys) = (tidy_kids xs \<and> tidy_kids ys)"
  by (induction xs rule: elems.induct) auto

lemma tidy_kids_Sub: "tidy_kids (map Sub hs) = list_all tidy hs"
  by (induction hs) auto

lemma tidy_kids_children: "tidy_kids ks \<Longrightarrow> list_all tidy (elems ks)"
  by (induction ks rule: elems.induct) auto

lemma tidy_kids_Txt: "tidy_kids (map Txt ss) = list_all (\<lambda>s. s \<noteq> []) ss"
  by (induction ss) auto

lemma tidy_child: "tidy h \<Longrightarrow> c \<in> set (children h) \<Longrightarrow> tidy c"
  using tidy_kids_children [of "kids h"] by (auto simp: tidy_iff [of h] list_all_iff)

lemma clone_onto_tidy:
  "tidy h \<Longrightarrow> Clone h = h"
  "tidy_kids ks \<Longrightarrow> clone_onto r ks = Hash (Name r) (kids r @ ks)"
  by (induction h and r ks rule: Clone_clone_onto.induct)
    (auto simp: AppendString_def AddWithOwnership_def)

lemma Clone_id [simp]: "tidy h \<Longrightarrow> Clone h = h"
  by (rule clone_onto_tidy(1))

lemma tidy_Clone_onto:
  "tidy (Clone h)"
  "tidy r \<Longrightarrow> tidy (clone_onto r ks)"
  by (induction h and r ks rule: Clone_clone_onto.induct)
    (auto simp: AppendString_def AddWithOwnership_def tidy_iff)

lemma tidy_Clone [simp]: "tidy (Clone h)"
  by (rule tidy_Clone_onto(1))

lemma Clone_Clone [simp]: "Clone (Clone h) = Clone h"
  by simp

lemma Name_clone_onto: "Name (clone_onto r ks) = Name r"
  by (induction ks arbitrary: r rule: elems.induct) auto

lemma Name_Clone [simp, hash_simps]: "Name (Clone h) = Name h"
  by (cases h) (simp add: Name_clone_onto)

lemma kids_clone_onto:
  "elems (kids (clone_onto r ks)) = elems (kids r) @ map Clone (elems ks)"
  "concat (frags (kids (clone_onto r ks))) = concat (frags (kids r)) @ concat (frags ks)"
  by (induction ks arbitrary: r rule: elems.induct)
    (auto simp: AppendString_def AddWithOwnership_def)

lemma children_Clone [simp, hash_simps]: "children (Clone h) = map Clone (children h)"
  by (cases h) (simp add: kids_clone_onto)

lemma own_text_Clone [simp, hash_simps]: "own_text (Clone h) = own_text h"
  by (cases h) (simp add: kids_clone_onto own_text_def TextFragments_def)

lemma get1_Clone [simp, hash_simps]: "get1 t (Clone h) = get1 t h"
  by (simp add: get1_eq filter_map o_def)

lemma text_of_Clone [simp, hash_simps]: "text_of t (Clone h) = text_of t h"
  by (simp add: text_of_eq)

lemma tidy_ops [simp]:
  "tidy (NewHash n [])"
  "tidy h \<Longrightarrow> tidy (Rename n h)"
  "tidy h \<Longrightarrow> tidy (AppendString s h)"
  "tidy h \<Longrightarrow> tidy (SetText args h)"
  "tidy h \<Longrightarrow> tidy x \<Longrightarrow> tidy (AddWithOwnership x h)"
  "tidy h \<Longrightarrow> tidy (Add t args h)"
  "tidy h \<Longrightarrow> tidy (AddClone x h)"
proof -
  show st: "tidy h \<Longrightarrow> tidy (SetText args h)" for args h
    by (auto simp: tidy_iff kids_SetText tidy_kids_Sub tidy_kids_Txt list_all_iff
        dest: tidy_kids_children)
  have "tidy (NewHash t [])" for t by simp
  then show "tidy h \<Longrightarrow> tidy (Add t args h)"
    using st by (simp add: Add_def AddWithOwnership_def tidy_iff del: NewHash.simps)
qed (simp_all add: tidy_iff Rename_def AppendString_def AddWithOwnership_def AddClone_def
    tidy_Clone [unfolded tidy_iff])

subsection \<open>Fields: FirstOrAdd and RemoveFirst\<close>

lemma elems_update_first:
  "(\<And>c. Name (f c) = Name c) \<Longrightarrow> u \<noteq> t \<Longrightarrow>
    filter (\<lambda>c. Name c = u) (elems (update_first t f ks)) =
    filter (\<lambda>c. Name c = u) (elems ks)"
  by (induction t f ks rule: update_first.induct) auto

lemma elems_update_first_same:
  assumes nm: "\<And>c. Name (f c) = Name c"
  shows "filter (\<lambda>c. Name c = t) (elems (update_first t f ks)) =
    (case filter (\<lambda>c. Name c = t) (elems ks) of [] \<Rightarrow> [] | c # cs \<Rightarrow> f c # cs)"
  using nm by (induction t f ks rule: update_first.induct) (auto split: list.splits)

lemma frags_update_first [simp]: "frags (update_first t f ks) = frags ks"
  by (induction t f ks rule: update_first.induct) auto

lemma own_text_FirstOrAdd [simp, hash_simps]: "own_text (FirstOrAdd t f h) = own_text h"
  by (simp add: own_text_def TextFragments_def FirstOrAdd_def AddWithOwnership_def
      split: option.splits)

lemma own_text_set_field [simp, hash_simps]: "own_text (set_field t v h) = own_text h"
  by (simp add: set_field_def)

lemma get1_FirstOrAdd_other:
  "(\<And>c. Name (f c) = Name c) \<Longrightarrow> u \<noteq> t \<Longrightarrow> get1 u (FirstOrAdd t f h) = get1 u h"
  by (auto simp: FirstOrAdd_def get1_eq elems_update_first AddWithOwnership_def
      split: option.splits)

lemma get1_set_field_other [simp, hash_simps]:
  "u \<noteq> t \<Longrightarrow> get1 u (set_field t v h) = get1 u h"
  by (simp add: set_field_def get1_FirstOrAdd_other)

lemma get1_set_field_same [simp, hash_simps]:
  "get1 t (set_field t v h) = v # tl (get1 t h)"
proof (cases "First t h")
  case None
  then have "filter (\<lambda>c. Name c = t) (children h) = []"
    by (simp add: First_eq_find find_None_iff_filter)
  with None show ?thesis
    by (simp add: set_field_def FirstOrAdd_def get1_eq AddWithOwnership_def)
next
  case (Some c)
  then obtain cs where "filter (\<lambda>c. Name c = t) (children h) = c # cs"
    by (auto simp: First_eq_find find_filter_hd split: list.splits)
  with Some show ?thesis
    by (simp add: set_field_def FirstOrAdd_def get1_eq elems_update_first_same)
qed

lemma get1_Add: "get1 t (Add u vs h) = get1 t h @ (if t = u then [concat vs] else [])"
proof -
  have "own_text (SetText vs (NewHash u [])) = concat vs" by simp
  then show ?thesis by (simp add: Add_def AddWithOwnership_def get1_eq)
qed

lemma get1_New: "get1 t (Hash n []) = []"
  by (simp add: get1_eq)

lemma text_of_set_field_other [simp, hash_simps]:
  "u \<noteq> t \<Longrightarrow> text_of u (set_field t v h) = text_of u h"
  by (simp add: text_of_eq)

text \<open>
  A field is single in an entry that has at most one child of that name, the form of all
  fields but \<open>key\<close>, \<open>periodic\<close> and the like. There \<open>Text\<close> reads back what was written.
\<close>

definition single :: "string \<Rightarrow> hash \<Rightarrow> bool" where
  "single t h \<longleftrightarrow> length (get1 t h) \<le> 1"

lemma single_set_field_same [simp]: "single t h \<Longrightarrow> single t (set_field t v h)"
  by (simp add: single_def)

lemma single_set_field_other [simp]: "u \<noteq> t \<Longrightarrow> single u (set_field t v h) = single u h"
  by (simp add: single_def)

lemma single_set_field: "single u h \<Longrightarrow> single u (set_field t v h)"
  by (cases "u = t") auto

lemma single_Clone [simp]: "single t (Clone h) = single t h"
  by (simp add: single_def)

lemma single_Rename [simp]: "single t (Rename n h) = single t h"
  by (simp add: single_def get1_eq)

lemma get1_Rename [simp, hash_simps]: "get1 t (Rename n h) = get1 t h"
  by (simp add: get1_eq)

lemma text_of_Rename [simp, hash_simps]: "text_of t (Rename n h) = text_of t h"
  by (simp add: text_of_eq)

lemma text_of_set_field_same [simp, hash_simps]:
  "single t h \<Longrightarrow> text_of t (set_field t v h) = v"
proof -
  assume "single t h"
  then have "tl (get1 t h) = []"
    by (cases "get1 t h") (auto simp: single_def)
  then show ?thesis by (simp add: text_of_eq)
qed

lemma single_text_of: "single t h \<Longrightarrow> get1 t h \<noteq> [] \<Longrightarrow> get1 t h = [text_of t h]"
  by (cases "get1 t h") (auto simp: single_def text_of_eq)

lemma First_text: "First t h = Some c \<Longrightarrow> single t h \<Longrightarrow> text_of t h = own_text c"
proof -
  assume f: "First t h = Some c" and s: "single t h"
  from f obtain cs where "filter (\<lambda>c. Name c = t) (children h) = c # cs"
    by (auto simp: First_eq_find find_filter_hd split: list.splits)
  with s show ?thesis by (auto simp: text_of_eq get1_eq single_def)
qed

lemma elems_remove_first:
  "u \<noteq> t \<Longrightarrow> filter (\<lambda>c. Name c = u) (elems (remove_first t ks)) =
    filter (\<lambda>c. Name c = u) (elems ks)"
  "filter (\<lambda>c. Name c = t) (elems (remove_first t ks)) =
    tl (filter (\<lambda>c. Name c = t) (elems ks))"
  by (induction t ks rule: remove_first.induct) auto

lemma get1_drop_first [simp, hash_simps]:
  "u \<noteq> t \<Longrightarrow> get1 u (drop_first t h) = get1 u h"
  "get1 t (drop_first t h) = tl (get1 t h)"
  by (simp_all add: get1_eq RemoveFirst_def elems_remove_first map_tl)

lemma text_of_drop_first [simp, hash_simps]:
  "u \<noteq> t \<Longrightarrow> text_of u (drop_first t h) = text_of u h"
  by (simp add: text_of_eq)

lemma single_drop_first: "single u h \<Longrightarrow> single u (drop_first t h)"
  by (cases "u = t") (auto simp: single_def)

lemma drop_first_single: "single t h \<Longrightarrow> get1 t (drop_first t h) = []"
  by (cases "get1 t h") (auto simp: single_def)

lemma tidy_update_first:
  "tidy_kids ks \<Longrightarrow> (\<And>c. tidy c \<Longrightarrow> tidy (f c)) \<Longrightarrow> tidy_kids (update_first t f ks)"
  by (induction t f ks rule: update_first.induct) auto

lemma tidy_remove_first: "tidy_kids ks \<Longrightarrow> tidy_kids (remove_first t ks)"
  by (induction t ks rule: remove_first.induct) auto

lemma tidy_set_field [simp]: "tidy h \<Longrightarrow> tidy (set_field t v h)"
  by (cases "First t h")
    (simp_all add: set_field_def FirstOrAdd_def tidy_iff [of h] tidy_update_first)

lemma tidy_drop_first [simp]: "tidy h \<Longrightarrow> tidy (drop_first t h)"
  by (simp add: RemoveFirst_def tidy_remove_first tidy_iff [of h])

subsection \<open>Query and Remove\<close>

lemma children_Query [simp, hash_simps]:
  "children (Query accepts h) = map Clone (filter accepts (children h))"
proof -
  have "children (fold (\<lambda>i r. if accepts i then AddClone i r else r) xs r)
      = children r @ map Clone (filter accepts xs)" for xs r
    by (induction xs arbitrary: r) auto
  then show ?thesis by (simp add: Query_def)
qed

lemma Name_Query [simp, hash_simps]: "Name (Query accepts h) = Name h"
proof -
  have "Name (fold (\<lambda>i r. if accepts i then AddClone i r else r) xs r) = Name r" for xs r
    by (induction xs arbitrary: r) auto
  then show ?thesis by (simp add: Query_def)
qed

lemma children_Remove [simp, hash_simps]:
  "children (fst (Remove accepts h)) = filter accepts (children h)"
  "children (snd (Remove accepts h)) = filter (\<lambda>c. \<not> accepts c) (children h)"
proof -
  have "children (fold (\<lambda>i r. if accepts i then AddWithOwnership i r else r) xs r)
      = children r @ filter accepts xs" for xs r
    by (induction xs arbitrary: r) auto
  then show "children (fst (Remove accepts h)) = filter accepts (children h)"
    by (simp add: Remove_def)
  have "elems (remove_accepted accepts ks) = filter (\<lambda>c. \<not> accepts c) (elems ks)" for ks
    by (induction accepts ks rule: remove_accepted.induct) auto
  then show "children (snd (Remove accepts h)) = filter (\<lambda>c. \<not> accepts c) (children h)"
    by (simp add: Remove_def)
qed

lemma Name_Remove [simp, hash_simps]: "Name (snd (Remove accepts h)) = Name h"
  by (simp add: Remove_def)

lemma tidy_Remove [simp]: "tidy h \<Longrightarrow> tidy (snd (Remove accepts h))"
proof -
  have "tidy_kids ks \<Longrightarrow> tidy_kids (remove_accepted accepts ks)" for ks
    by (induction accepts ks rule: remove_accepted.induct) auto
  then show "tidy h \<Longrightarrow> tidy (snd (Remove accepts h))"
    by (simp add: Remove_def tidy_iff [of h])
qed

end
