(* ===== verification/HashText.thy ===== *)
theory HashText
  imports HashTree
begin

text \<open>
  Text and elements: the entity encoding (\<open>escape\<close>), the writer (\<open>WriteTo\<close>) and the reader
  (\<open>StringToHash\<close>) of go-susi/xml/xml_hash.go. The databases are saved with the one and
  loaded with the other, and all messages pass through both.
\<close>

section \<open>Entity encoding\<close>

definition entity :: "char \<Rightarrow> string option" where
  "entity c =
     (if c = CHR 0x22 then Some ''&quot;''
      else if c = CHR 0x27 then Some ''&apos;''
      else if c = CHR ''&'' then Some ''&amp;''
      else if c = CHR ''<'' then Some ''&lt;''
      else if c = CHR ''>'' then Some ''&gt;''
      else None)"

text \<open>
  The loop of \<open>escape\<close> runs from the last byte to the first; \<open>s\<close> is the part not yet cut
  off and always the last piece. The pieces are collected back to front.
\<close>

fun escape_loop :: "nat \<Rightarrow> string \<Rightarrow> string list \<Rightarrow> string list" where
  "escape_loop 0 s sl = sl"
| "escape_loop (Suc i) s sl =
     (case entity (s ! i) of
        None \<Rightarrow> escape_loop i s sl
      | Some replace \<Rightarrow>
          escape_loop i (take i s) (butlast sl @ [drop (Suc i) s] @ [replace, take i s]))"

definition escape :: "string \<Rightarrow> string list" where
  "escape s = rev (escape_loop (length s) s [s])"

definition escape_char :: "char \<Rightarrow> string" where
  "escape_char c = (case entity c of None \<Rightarrow> [c] | Some r \<Rightarrow> r)"

lemma escape_loop_concat:
  "i \<le> length s \<Longrightarrow> concat (rev (escape_loop i s (sl @ [s]))) =
    concat (map escape_char (take i s)) @ drop i s @ concat (rev sl)"
proof (induction i arbitrary: s sl)
  case 0
  then show ?case by simp
next
  case (Suc i)
  then have i: "i < length s" by simp
  then have split: "take (Suc i) s = take i s @ [s ! i]" "drop i s = s ! i # drop (Suc i) s"
    by (simp_all add: take_Suc_conv_app_nth Cons_nth_drop_Suc)
  show ?case
  proof (cases "entity (s ! i)")
    case None
    then have "escape_char (s ! i) = [s ! i]" by (simp add: escape_char_def)
    with None Suc i split show ?thesis by simp
  next
    case (Some r)
    have "concat (rev (escape_loop i (take i s) ((sl @ [drop (Suc i) s, r]) @ [take i s]))) =
      concat (map escape_char (take i (take i s))) @ drop i (take i s) @
        concat (rev (sl @ [drop (Suc i) s, r]))"
      using i by (intro Suc.IH) simp
    moreover have "escape_char (s ! i) = r" using Some by (simp add: escape_char_def)
    ultimately show ?thesis using Some split by simp
  qed
qed

text \<open>Joined, the pieces are the text with every special byte replaced by its entity.\<close>

lemma concat_escape: "concat (escape s) = concat (map escape_char s)"
  using escape_loop_concat [of "length s" s "[]"] by (simp add: escape_def)

text \<open>
  The reader's side (package \<open>encoding/xml\<close>): the five predefined entities are decoded, any
  other use of an ampersand is a syntax error, a carriage return (with a line feed after
  it or not) is read as a line feed, and control characters are not allowed.
\<close>

definition valid_text_char :: "char \<Rightarrow> bool" where
  "valid_text_char c \<longleftrightarrow> byte c = 9 \<or> byte c = 10 \<or> byte c = 13 \<or> 32 \<le> byte c"

fun decode_text :: "string \<Rightarrow> string option" where
  "decode_text [] = Some []"
| "decode_text (c # s) =
     (if c = CHR ''&'' then
        (if HasPrefix s ''quot;'' then map_option ((#) (CHR 0x22)) (decode_text (drop 5 s))
         else if HasPrefix s ''apos;'' then map_option ((#) (CHR 0x27)) (decode_text (drop 5 s))
         else if HasPrefix s ''amp;'' then map_option ((#) (CHR ''&'')) (decode_text (drop 4 s))
         else if HasPrefix s ''lt;'' then map_option ((#) (CHR ''<'')) (decode_text (drop 3 s))
         else if HasPrefix s ''gt;'' then map_option ((#) (CHR ''>'')) (decode_text (drop 3 s))
         else None)
      else if c = CHR ''<'' \<or> \<not> valid_text_char c then None
      else if byte c = 13 then
        map_option ((#) (char_of (10::nat)))
          (decode_text (if HasPrefix s [char_of (10::nat)] then drop 1 s else s))
      else map_option ((#) c) (decode_text s))"

definition plain_char :: "char \<Rightarrow> bool" where
  "plain_char c \<longleftrightarrow> valid_text_char c \<and> byte c \<noteq> 13"

lemma decode_escape_char:
  "plain_char c \<Longrightarrow> decode_text (escape_char c @ s) = map_option ((#) c) (decode_text s)"
  by (auto simp: escape_char_def entity_def HasPrefix_def plain_char_def)

text \<open>Decoding undoes encoding, for any text without control characters.\<close>

lemma decode_escape:
  "list_all plain_char s \<Longrightarrow> decode_text (concat (escape s)) = Some s"
  unfolding concat_escape by (induction s) (simp_all add: decode_escape_char)

lemma escape_no_lt: "CHR ''<'' \<notin> set (concat (escape s))"
  unfolding concat_escape
  by (induction s) (auto simp: escape_char_def entity_def)

section \<open>Writing\<close>

text \<open>
  \<open>write_via_buffer\<close> copies a string through a buffer of 1024 bytes and writes each filling
  of the buffer; \<open>WriteTo\<close> sends its pieces through it one after the other.
\<close>

definition bufsize :: nat where
  "bufsize = 1024"

function buffered :: "string \<Rightarrow> string list" where
  "buffered s = (if s = [] then [] else take bufsize s # buffered (drop bufsize s))"
  by pat_completeness auto
termination by (relation "measure length") (auto simp: bufsize_def)

declare buffered.simps [simp del]

fun write_pieces :: "hash \<Rightarrow> string list" and write_kids :: "kid list \<Rightarrow> string list" where
  "write_pieces (Hash n ks) = [''<'', n, ''>''] @ write_kids ks @ [''</'', n, ''>'']"
| "write_kids [] = []"
| "write_kids (Txt s # ks) = escape s @ write_kids ks"
| "write_kids (Sub h # ks) = write_pieces h @ write_kids ks"

text \<open>
  The writer w is given by what \<open>util.WriteAll\<close> does with it: the new writer, the number of
  bytes written and whether there was an error. The first error ends the output.
\<close>

fun write_all :: "('w \<Rightarrow> string \<Rightarrow> 'w \<times> nat \<times> bool) \<Rightarrow> 'w \<Rightarrow> nat \<Rightarrow> string list \<Rightarrow> 'w \<times> nat \<times> bool" where
  "write_all wr w n [] = (w, n, False)"
| "write_all wr w n (s # ss) =
     (case wr w s of (w', nn, err) \<Rightarrow>
        if err then (w', n + nn, True) else write_all wr w' (n + nn) ss)"

definition WriteTo :: "('w \<Rightarrow> string \<Rightarrow> 'w \<times> nat \<times> bool) \<Rightarrow> hash \<Rightarrow> 'w \<Rightarrow> 'w \<times> nat \<times> bool" where
  "WriteTo wr h w = write_all wr w 0 (concat (map buffered (write_pieces h)))"

definition serialize :: "hash \<Rightarrow> string" where
  "serialize h = concat (write_pieces h)"

lemma concat_buffered [simp]: "concat (buffered s) = s"
proof (induction s rule: buffered.induct)
  case (1 s)
  then show ?case by (subst buffered.simps) simp
qed

lemma buffered_chunks: "c \<in> set (buffered s) \<Longrightarrow> c \<noteq> [] \<and> length c \<le> bufsize"
proof (induction s rule: buffered.induct)
  case (1 s)
  then show ?case
    by (subst (asm) (2) buffered.simps) (auto split: if_splits simp: bufsize_def)
qed

text \<open>A writer that appends to a string and never fails receives the whole element.\<close>

definition string_writer :: "string \<Rightarrow> string \<Rightarrow> string \<times> nat \<times> bool" where
  "string_writer w s = (w @ s, length s, False)"

lemma write_all_string: "write_all string_writer w n ss =
    (w @ concat ss, n + length (concat ss), False)"
  by (induction ss arbitrary: w n) (simp_all add: string_writer_def)

lemma concat_map_buffered: "concat (concat (map buffered ss)) = concat ss"
  by (induction ss) auto

lemma WriteTo_string:
  "WriteTo string_writer h w = (w @ serialize h, length (serialize h), False)"
  by (simp add: WriteTo_def write_all_string concat_map_buffered serialize_def)

text \<open>
  A writer that may fail: whatever it does, what WriteTo has sent when it stops is a
  prefix of the element's text, and without an error all of it.
\<close>

lemma write_all_prefix:
  assumes "write_all wr w n ss = (w', m, err)"
    and "\<And>w s w' k e. wr w s = (w', k, e) \<Longrightarrow> out w' = out w @ take k s \<and> k \<le> length s \<and>
      (\<not> e \<longrightarrow> k = length s)"
  shows "\<exists>k. out w' = out w @ take k (concat ss) \<and> k \<le> length (concat ss) \<and> m = n + k \<and>
    (\<not> err \<longrightarrow> k = length (concat ss))"
  using assms(1)
proof (induction ss arbitrary: w n)
  case Nil
  then show ?case by simp
next
  case (Cons s ss)
  obtain w1 k1 e1 where wr: "wr w s = (w1, k1, e1)" by (cases "wr w s")
  note one = assms(2) [OF wr]
  show ?case
  proof (cases e1)
    case True
    with Cons.prems wr one show ?thesis by (auto intro!: exI [of _ k1])
  next
    case False
    with Cons.prems wr have "write_all wr w1 (n + k1) ss = (w', m, err)" by simp
    from Cons.IH [OF this] obtain k where
      "out w' = out w1 @ take k (concat ss)" "k \<le> length (concat ss)" "m = n + k1 + k"
      "\<not> err \<longrightarrow> k = length (concat ss)" by auto
    with one False show ?thesis by (auto intro!: exI [of _ "k1 + k"])
  qed
qed

section \<open>Reading\<close>

datatype token = StartElement string "(string \<times> string) list" | EndElement | CharData string
  | OtherToken

datatype parse_error = MultipleTopLevel | StrayText | UnsupportedToken | DecoderError

text \<open>
  The state of the loop of \<open>StringToHash\<close>. The code keeps in \<open>path[0..depth]\<close> pointers to the
  open elements, each of which is already the last child of the one before; only the
  innermost one changes. The model keeps the open elements innermost first and adds each to
  its parent when it is closed. \<open>top\<close> is the finished top-level element.
\<close>

record parse_state =
  top :: "hash option"
  path :: "hash list"
  xmlerr :: "parse_error option"

definition add_attrs :: "(string \<times> string) list \<Rightarrow> hash \<Rightarrow> hash" where
  "add_attrs attrs h = fold (\<lambda>(n, v). Add n [v]) attrs h"

fun parse_token :: "token \<Rightarrow> parse_state \<Rightarrow> parse_state" where
  "parse_token (StartElement n attrs) st =
     (if path st = []
      then st\<lparr>xmlerr := (if top st \<noteq> None then Some MultipleTopLevel else xmlerr st),
              top := None, path := [add_attrs attrs (NewHash n [])]\<rparr>
      else st\<lparr>path := add_attrs attrs (NewHash n []) # path st\<rparr>)"
| "parse_token EndElement st =
     (case path st of
        [] \<Rightarrow> st
      | [x] \<Rightarrow> st\<lparr>top := Some x, path := []\<rparr>
      | x # p # ps \<Rightarrow> st\<lparr>path := AddWithOwnership x p # ps\<rparr>)"
| "parse_token (CharData s) st =
     (case path st of
        [] \<Rightarrow> st\<lparr>xmlerr := Some StrayText\<rparr>
      | x # ps \<Rightarrow> st\<lparr>path := SetText [Text [] x @ s] x # ps\<rparr>)"
| "parse_token OtherToken st = st\<lparr>xmlerr := Some UnsupportedToken\<rparr>"

fun close_path :: "hash list \<Rightarrow> hash option \<Rightarrow> hash option" where
  "close_path [] t = t"
| "close_path [x] t = Some x"
| "close_path (x # p # ps) t = close_path (AddWithOwnership x p # ps) t"

text \<open>
  The whole function, given the tokens the decoder delivers and whether it ends with
  \<open>io.EOF\<close> (True) or another error.
\<close>

definition StringToHash :: "token list \<times> bool \<Rightarrow> hash \<times> parse_error option" where
  "StringToHash toks =
     (let st = fold parse_token (fst toks) \<lparr>top = None, path = [], xmlerr = None\<rparr>
      in (case close_path (path st) (top st) of None \<Rightarrow> NewHash ''xml'' [] | Some x \<Rightarrow> x,
          if snd toks then xmlerr st else Some DecoderError))"

text \<open>
  The decoder for documents without attributes, comments and processing instructions, as
  the program writes them: tags must match, names are restricted to letters, digits, and
  the characters \<open>_ . -\<close>.
\<close>

definition name_char :: "char \<Rightarrow> bool" where
  "name_char c \<longleftrightarrow> is_digit c \<or> 65 \<le> byte c \<and> byte c \<le> 90 \<or> 97 \<le> byte c \<and> byte c \<le> 122 \<or>
     c = CHR ''_'' \<or> c = CHR ''.'' \<or> c = CHR ''-''"

definition valid_name :: "string \<Rightarrow> bool" where
  "valid_name n \<longleftrightarrow> n \<noteq> [] \<and> list_all name_char n"

abbreviation upto :: "char \<Rightarrow> string \<Rightarrow> string" where
  "upto c s \<equiv> takeWhile (\<lambda>x. x \<noteq> c) s"

abbreviation beyond :: "char \<Rightarrow> string \<Rightarrow> string" where
  "beyond c s \<equiv> dropWhile (\<lambda>x. x \<noteq> c) s"

definition emit :: "token \<Rightarrow> token list \<times> bool \<Rightarrow> token list \<times> bool" where
  "emit t r = (t # fst r, snd r)"

function decoder :: "string list \<Rightarrow> string \<Rightarrow> token list \<times> bool" where
  "decoder opened [] = ([], opened = [])"
| "decoder opened (c # s) =
     (if c = CHR ''<'' then
        (if HasPrefix s ''/'' then
           (let n = upto (CHR ''>'') (tl s) in
            if opened \<noteq> [] \<and> hd opened = n \<and> beyond (CHR ''>'') (tl s) \<noteq> []
            then emit EndElement (decoder (tl opened) (tl (beyond (CHR ''>'') (tl s))))
            else ([], False))
         else
           (let n = upto (CHR ''>'') s in
            if valid_name n \<and> beyond (CHR ''>'') s \<noteq> []
            then emit (StartElement n []) (decoder (n # opened) (tl (beyond (CHR ''>'') s)))
            else ([], False)))
      else
        (case decode_text (c # upto (CHR ''<'') s) of
           None \<Rightarrow> ([], False)
         | Some t \<Rightarrow> emit (CharData t) (decoder opened (beyond (CHR ''<'') s))))"
  by pat_completeness auto
termination
proof (relation "measure (\<lambda>(opened, s). length s)", goal_cases)
  case 1
  show ?case by simp
next
  case (2 opened c s n)
  have "length (tl (beyond (CHR ''>'') (tl s))) \<le> length s"
    using length_dropWhile_le [of "\<lambda>x. x \<noteq> CHR ''>''" "tl s"] by (simp add: le_diff_conv)
  then show ?case by simp
next
  case (3 opened c s n)
  have "length (tl (beyond (CHR ''>'') s)) \<le> length s"
    using length_dropWhile_le [of "\<lambda>x. x \<noteq> CHR ''>''" s] by (simp add: le_diff_conv)
  then show ?case by simp
next
  case (4 opened c s t)
  show ?case by (simp add: length_dropWhile_less_Suc)
qed

section \<open>What is read back\<close>

text \<open>
  The information an element carries: its name, its text as a whole and its child elements
  in order. How the text is cut into fragments and where it stands between the children is
  left open by the documentation of the type; the canonical form forgets it.
\<close>

fun canon :: "hash \<Rightarrow> hash" and canon_elems :: "kid list \<Rightarrow> hash list" where
  "canon (Hash n ks) =
     Hash n (map Sub (canon_elems ks) @
       (if concat (frags ks) = [] then [] else [Txt (concat (frags ks))]))"
| "canon_elems [] = []"
| "canon_elems (Txt s # ks) = canon_elems ks"
| "canon_elems (Sub h # ks) = canon h # canon_elems ks"

lemma canon_elems_eq: "canon_elems ks = map canon (elems ks)"
  by (induction ks rule: elems.induct) auto

lemma canon_eq: "canon h = Hash (Name h) (map Sub (map canon (children h)) @
    (if own_text h = [] then [] else [Txt (own_text h)]))"
  by (cases h) (simp add: canon_elems_eq own_text_def TextFragments_def)

lemma canon_reads:
  assumes "canon h = canon h'"
  shows "Name h = Name h'" "own_text h = own_text h'" "get1 t h = get1 t h'"
proof -
  have "elems (kids (canon h)) = elems (kids (canon h'))" using assms by simp
  then have ch: "map canon (children h) = map canon (children h')"
    by (simp only: canon_eq hash.sel elems_append elems_map_Sub) (simp split: if_splits)
  have nm: "Name (canon x) = Name x" and tx: "own_text (canon x) = own_text x" for x
    by (simp_all add: canon_eq own_text_def TextFragments_def frags_map_Sub del: map_map)
  from assms nm tx show "Name h = Name h'" "own_text h = own_text h'" by metis+
  have "get1 t x = map own_text (filter (\<lambda>c. Name c = t) (map canon (children x)))" for x
    by (simp add: get1_eq filter_map o_def nm tx)
  with ch show "get1 t h = get1 t h'" by simp
qed

text \<open>The tokens of a written element: adjacent fragments arrive as one piece of text.\<close>

definition flush :: "string \<Rightarrow> token list" where
  "flush acc = (if acc = [] then [] else [CharData acc])"

fun tokens :: "hash \<Rightarrow> token list" and tokens_kids :: "string \<Rightarrow> kid list \<Rightarrow> token list" where
  "tokens (Hash n ks) = StartElement n [] # tokens_kids [] ks @ [EndElement]"
| "tokens_kids acc [] = flush acc"
| "tokens_kids acc (Txt s # ks) = tokens_kids (acc @ s) ks"
| "tokens_kids acc (Sub h # ks) = flush acc @ tokens h @ tokens_kids [] ks"

fun writable :: "hash \<Rightarrow> bool" and writable_kids :: "kid list \<Rightarrow> bool" where
  "writable (Hash n ks) = (valid_name n \<and> writable_kids ks)"
| "writable_kids [] = True"
| "writable_kids (Txt s # ks) = (list_all plain_char s \<and> writable_kids ks)"
| "writable_kids (Sub h # ks) = (writable h \<and> writable_kids ks)"

abbreviation escaped :: "string \<Rightarrow> string" where
  "escaped s \<equiv> concat (map escape_char s)"

definition emits :: "token list \<Rightarrow> token list \<times> bool \<Rightarrow> token list \<times> bool" where
  "emits ts r = (ts @ fst r, snd r)"

lemma emits_simps [simp]:
  "emits [] r = r" "emits (t # ts) r = emit t (emits ts r)"
  "emits (ts @ us) r = emits ts (emits us r)"
  by (simp_all add: emits_def emit_def)

lemma upto_beyond:
  "c \<notin> set xs \<Longrightarrow> upto c (xs @ c # r) = xs"
  "c \<notin> set xs \<Longrightarrow> beyond c (xs @ c # r) = c # r"
  by (induction xs) auto

lemma valid_name_upto:
  "valid_name n \<Longrightarrow> upto (CHR ''>'') (n @ CHR ''>'' # r) = n"
  "valid_name n \<Longrightarrow> beyond (CHR ''>'') (n @ CHR ''>'' # r) = CHR ''>'' # r"
proof -
  assume "valid_name n"
  then have "x \<noteq> CHR ''>''" if "x \<in> set n" for x
    using that by (auto simp: valid_name_def list_all_iff name_char_def is_digit_def byte_def)
  then show "upto (CHR ''>'') (n @ CHR ''>'' # r) = n"
    "beyond (CHR ''>'') (n @ CHR ''>'' # r) = CHR ''>'' # r"
    by (simp_all add: takeWhile_append2 dropWhile_append2)
qed

lemma valid_name_no_slash: "valid_name n \<Longrightarrow> \<not> HasPrefix (n @ r) ''/''"
  by (cases n) (auto simp: valid_name_def HasPrefix_def name_char_def is_digit_def byte_def)

lemma decoder_start:
  "valid_name n \<Longrightarrow> decoder opened (CHR ''<'' # n @ CHR ''>'' # r) =
    emit (StartElement n []) (decoder (n # opened) r)"
  by (simp add: valid_name_upto valid_name_no_slash)

lemma decoder_end:
  "valid_name n \<Longrightarrow> decoder (n # opened) (CHR ''<'' # CHR ''/'' # n @ CHR ''>'' # r) =
    emit EndElement (decoder opened r)"
  by (simp add: valid_name_upto HasPrefix_def)

lemma decoder_text:
  assumes "list_all plain_char acc"
  shows "decoder opened (escaped acc @ CHR ''<'' # r) =
    emits (flush acc) (decoder opened (CHR ''<'' # r))"
proof (cases acc)
  case Nil
  then show ?thesis by (simp add: flush_def)
next
  case (Cons c cs)
  have nolt: "CHR ''<'' \<notin> set (escaped acc)" using escape_no_lt [of acc] by (simp add: concat_escape)
  have ne: "escaped acc \<noteq> []" using Cons by (auto simp: escape_char_def entity_def)
  then obtain x xs where x: "escaped acc = x # xs" by (cases "escaped acc") auto
  with nolt have xlt: "x \<noteq> CHR ''<''" by auto
  have up: "upto (CHR ''<'') (xs @ CHR ''<'' # r) = xs"
    "beyond (CHR ''<'') (xs @ CHR ''<'' # r) = CHR ''<'' # r"
    using nolt x by (simp_all add: upto_beyond)
  have "decode_text (x # xs) = Some acc"
    using decode_escape [OF assms] x by (simp add: concat_escape)
  then have "decoder opened (x # xs @ CHR ''<'' # r) =
      emit (CharData acc) (decoder opened (CHR ''<'' # r))"
    using xlt up by (subst decoder.simps(2)) simp
  with x Cons show ?thesis by (simp add: flush_def)
qed

text \<open>The tokens of a written element are read from the start of any longer input.\<close>

lemma decoder_written:
  "writable h \<Longrightarrow> decoder opened (concat (write_pieces h) @ r) =
    emits (tokens h) (decoder opened r)"
  "writable_kids ks \<Longrightarrow> list_all plain_char acc \<Longrightarrow>
    decoder opened (escaped acc @ concat (write_kids ks) @ CHR ''<'' # r) =
    emits (tokens_kids acc ks) (decoder opened (CHR ''<'' # r))"
proof (induction h and acc ks arbitrary: opened r and opened r rule: tokens_tokens_kids.induct)
  case (1 n ks)
  then have v: "valid_name n" by simp
  have "decoder opened (concat (write_pieces (Hash n ks)) @ r) =
    emit (StartElement n []) (decoder (n # opened)
      (escaped [] @ concat (write_kids ks) @ CHR ''<'' # (CHR ''/'' # n @ CHR ''>'' # r)))"
    using v by (simp add: decoder_start del: decoder.simps)
  also have "\<dots> = emit (StartElement n []) (emits (tokens_kids [] ks)
      (decoder (n # opened) (CHR ''<'' # (CHR ''/'' # n @ CHR ''>'' # r))))"
    using 1 by (subst "1.IH") simp_all
  also have "\<dots> = emits (tokens (Hash n ks)) (decoder opened r)"
    using v by (simp add: decoder_end del: decoder.simps)
  finally show ?case .
next
  case (2 acc)
  then show ?case by (simp add: decoder_text del: decoder.simps)
next
  case (3 acc s ks)
  have "decoder opened (escaped (acc @ s) @ concat (write_kids ks) @ CHR ''<'' # r) =
    emits (tokens_kids (acc @ s) ks) (decoder opened (CHR ''<'' # r))"
    using 3 by (intro "3.IH") simp_all
  then show ?case by (simp add: concat_escape del: decoder.simps)
next
  case (4 acc h ks)
  obtain n ks' where h: "h = Hash n ks'" by (cases h)
  define rest where "rest = n @ ''>'' @ concat (write_kids ks') @ ''</'' @ n @ ''>''"
  have w: "concat (write_pieces h) = CHR ''<'' # rest" by (simp add: h rest_def)
  have "decoder opened (escaped acc @ concat (write_kids (Sub h # ks)) @ CHR ''<'' # r) =
    emits (flush acc) (decoder opened
      (concat (write_pieces h) @ concat (write_kids ks) @ CHR ''<'' # r))"
    using 4 decoder_text [of acc opened "rest @ concat (write_kids ks) @ CHR ''<'' # r"]
    by (simp add: w del: decoder.simps)
  also have "\<dots> = emits (flush acc @ tokens h) (decoder opened
      (escaped [] @ concat (write_kids ks) @ CHR ''<'' # r))"
    using 4 by (simp del: decoder.simps)
  also have "\<dots> = emits (flush acc @ tokens h)
      (emits (tokens_kids [] ks) (decoder opened (CHR ''<'' # r)))"
    using 4 by (subst "4.IH"(2)) simp_all
  finally show ?case by (simp del: decoder.simps)
qed

text \<open>What the loop of StringToHash builds from these tokens.\<close>

definition flush_text :: "string \<Rightarrow> hash \<Rightarrow> hash" where
  "flush_text acc x = (if acc = [] then x else SetText [Text [] x @ acc] x)"

fun reread :: "hash \<Rightarrow> hash" and reread_kids :: "string \<Rightarrow> kid list \<Rightarrow> hash \<Rightarrow> hash" where
  "reread (Hash n ks) = reread_kids [] ks (NewHash n [])"
| "reread_kids acc [] x = flush_text acc x"
| "reread_kids acc (Txt s # ks) x = reread_kids (acc @ s) ks x"
| "reread_kids acc (Sub h # ks) x =
     reread_kids [] ks (AddWithOwnership (reread h) (flush_text acc x))"

lemma parse_flush:
  "path st = x # ps \<Longrightarrow>
    fold parse_token (flush acc) st = st\<lparr>path := flush_text acc x # ps\<rparr>"
  by (auto simp: flush_def flush_text_def)

lemma parse_tokens:
  "path st = p # ps \<Longrightarrow>
    fold parse_token (tokens h) st = st\<lparr>path := AddWithOwnership (reread h) p # ps\<rparr>"
  "path st' = x # ps \<Longrightarrow>
    fold parse_token (tokens_kids acc ks) st' = st'\<lparr>path := reread_kids acc ks x # ps\<rparr>"
proof (induction h and acc ks arbitrary: st p ps and st' x ps rule: tokens_tokens_kids.induct)
  case (1 n ks)
  then show ?case by (simp add: add_attrs_def)
next
  case (2 acc)
  then show ?case by (simp add: parse_flush)
next
  case (3 acc s ks)
  then show ?case by simp
next
  case (4 acc h ks)
  then show ?case by (simp add: parse_flush)
qed

lemma reread_parts:
  "children (reread_kids acc ks x) = children x @ map reread (elems ks)"
  "own_text (reread_kids acc ks x) = own_text x @ acc @ concat (frags ks)"
  "Name (reread_kids acc ks x) = Name x"
  by (induction ks arbitrary: acc x rule: elems.induct)
    (auto simp: flush_text_def Text_def own_text_def [symmetric])

lemma size_elems: "c \<in> set (elems ks) \<Longrightarrow> size c < Suc (size_list size ks)"
  by (induction ks rule: elems.induct) auto

lemma canon_reread: "canon (reread h) = canon h"
proof (induction h rule: measure_induct_rule [of size])
  case (less h)
  obtain n ks where h: "h = Hash n ks" by (cases h)
  have sz: "size c < size h" if "c \<in> set (elems ks)" for c
    using size_elems [OF that] h by simp
  have "map canon (children (reread h)) = map canon (children h)"
    using h less sz by (simp add: reread_parts del: set_elems)
  then show ?case
    by (simp add: canon_eq [of "reread h"] canon_eq [of h])
      (simp add: h reread_parts own_text_def TextFragments_def
        reread_parts(2) [unfolded own_text_def TextFragments_def])
qed

text \<open>Writing and reading back: no error, and the same element up to canonical form.\<close>

lemma StringToHash_tokens: "StringToHash (tokens h, True) = (reread h, None)"
proof (cases h)
  case (Hash n ks)
  have "fold parse_token (tokens_kids [] ks)
      \<lparr>top = None, path = [NewHash n []], xmlerr = None\<rparr> =
      \<lparr>top = None, path = [reread_kids [] ks (NewHash n [])], xmlerr = None\<rparr>"
    by (subst parse_tokens(2)) simp_all
  with Hash show ?thesis by (simp add: StringToHash_def add_attrs_def Let_def)
qed

lemma write_read:
  assumes "writable h"
  shows "StringToHash (decoder [] (serialize h)) = (reread h, None)"
proof -
  have "decoder [] (serialize h) = (tokens h, True)"
    using decoder_written(1) [OF assms, of "[]" "[]"]
    by (simp add: serialize_def emits_def)
  then show ?thesis by (simp add: StringToHash_tokens)
qed

section \<open>Properties\<close>



text \<open>The entity encoding of text without control characters is undone by the reader's
  decoding, and leaves no character that would start a tag.\<close>

theorem escaped_text_is_decoded:
  assumes "list_all plain_char s"
  shows "decode_text (concat (escape s)) = Some s \<and> CHR ''<'' \<notin> set (concat (escape s))"
  using decode_escape [OF assms] escape_no_lt by blast

theorem escaped_text_is_decoded_witness:
  "decode_text (concat (escape ''x < \"y\" & z'')) = Some ''x < \"y\" & z'' \<and>
    CHR ''<'' \<notin> set (concat (escape ''x < \"y\" & z''))"
  by (rule escaped_text_is_decoded) code_simp

end
