(* ===== verification/GoRegexp.thy ===== *)
theory GoRegexp
  imports GoStrings
begin

text \<open>
  The fragment of Go's \<open>regexp\<close> package that the filters use: the patterns are made of
  quoted text (\<open>regexp.QuoteMeta\<close>), \<open>.\<close>, \<open>.*\<close>, \<open>[0-9]+\<close>, the anchors and the flag \<open>(?i)\<close>.
  A pattern is a byte string, as in the program, so that what quoting guarantees can be
  proved; \<open>MustCompile\<close> panics outside the syntax, which is None here.
\<close>

section \<open>Syntax\<close>

datatype atom = ALit char | AAny | ADigit

datatype re_item = One atom | Star atom | Plus atom | ReBegin | ReEnd | ReFold

definition meta_chars :: string where
  "meta_chars = [CHR 0x5C, CHR ''.'', CHR ''+'', CHR ''*'', CHR ''?'', CHR ''('', CHR '')'',
     CHR ''|'', CHR ''['', CHR '']'', CHR ''{'', CHR ''}'', CHR ''^'', CHR ''$'']"

text \<open>\<open>regexp.QuoteMeta\<close>: a backslash before every byte that means something in a pattern.\<close>

definition QuoteMeta :: "string \<Rightarrow> string" where
  "QuoteMeta s = concat (map (\<lambda>c. if c \<in> set meta_chars then [CHR 0x5C, c] else [c]) s)"

text \<open>The repetition operator that may follow an atom.\<close>

fun repeated :: "atom \<Rightarrow> string \<Rightarrow> re_item \<times> string" where
  "repeated a (c # r) =
     (if c = CHR ''*'' then (Star a, r) else if c = CHR ''+'' then (Plus a, r)
      else (One a, c # r))"
| "repeated a [] = (One a, [])"

lemma repeated_shorter [termination_simp]:
  "(it, r) = repeated a s \<Longrightarrow> length r \<le> length s"
  by (cases s) (auto split: if_splits)

function parse_re :: "string \<Rightarrow> re_item list option" where
  "parse_re [] = Some []"
| "parse_re (c # s) =
     (if c = CHR 0x5C then
        (case s of [] \<Rightarrow> None
         | d # s' \<Rightarrow> (case repeated (ALit d) s' of (it, r) \<Rightarrow> map_option ((#) it) (parse_re r)))
      else if c = CHR ''.'' then
        (case repeated AAny s of (it, r) \<Rightarrow> map_option ((#) it) (parse_re r))
      else if c = CHR ''^'' then map_option ((#) ReBegin) (parse_re s)
      else if c = CHR ''$'' then map_option ((#) ReEnd) (parse_re s)
      else if c = CHR ''('' then
        (if HasPrefix s ''?i)'' then map_option ((#) ReFold) (parse_re (drop 3 s)) else None)
      else if c = CHR ''['' then
        (if HasPrefix s ''0-9]'' then
           (case repeated ADigit (drop 4 s) of (it, r) \<Rightarrow> map_option ((#) it) (parse_re r))
         else None)
      else if c \<in> set meta_chars then None
      else (case repeated (ALit c) s of (it, r) \<Rightarrow> map_option ((#) it) (parse_re r)))"
  by pat_completeness auto
termination
  by (relation "measure length") (auto dest!: repeated_shorter simp: less_Suc_eq_le)

section \<open>Matching\<close>

fun atom_matches :: "bool \<Rightarrow> atom \<Rightarrow> char \<Rightarrow> bool" where
  "atom_matches ci (ALit d) c = (if ci then lower_char d = lower_char c else d = c)"
| "atom_matches ci AAny c = (byte c \<noteq> 10)"
| "atom_matches ci ADigit c = is_digit c"

fun item_weight :: "re_item \<Rightarrow> nat" where
  "item_weight (Plus a) = 3"
| "item_weight it = 1"

text \<open>
  Whether the items match a prefix of the text. The flags say whether letters are folded
  and whether the text starts at the beginning of the subject.
\<close>

function prefix_match :: "bool \<Rightarrow> bool \<Rightarrow> re_item list \<Rightarrow> string \<Rightarrow> bool" where
  "prefix_match ci st [] s = True"
| "prefix_match ci st (ReBegin # r) s = (st \<and> prefix_match ci st r s)"
| "prefix_match ci st (ReEnd # r) s = (s = [] \<and> prefix_match ci st r s)"
| "prefix_match ci st (ReFold # r) s = prefix_match True st r s"
| "prefix_match ci st (One a # r) s =
     (case s of [] \<Rightarrow> False | c # cs \<Rightarrow> atom_matches ci a c \<and> prefix_match ci False r cs)"
| "prefix_match ci st (Star a # r) s =
     (prefix_match ci st r s \<or>
      (case s of [] \<Rightarrow> False
       | c # cs \<Rightarrow> atom_matches ci a c \<and> prefix_match ci False (Star a # r) cs))"
| "prefix_match ci st (Plus a # r) s = prefix_match ci st (One a # Star a # r) s"
  by pat_completeness auto
termination
  by (relation "measures [\<lambda>(ci, st, r, s). sum_list (map item_weight r),
                          \<lambda>(ci, st, r, s). length s]") auto

text \<open>\<open>re.MatchString\<close>: the pattern matches somewhere in the text.\<close>

fun match_tails :: "bool \<Rightarrow> re_item list \<Rightarrow> string \<Rightarrow> bool" where
  "match_tails st r [] = prefix_match False st r []"
| "match_tails st r (c # cs) =
     (prefix_match False st r (c # cs) \<or> match_tails False r cs)"

definition MatchString :: "string \<Rightarrow> string \<Rightarrow> bool" where
  "MatchString re s = (case parse_re re of None \<Rightarrow> False | Some r \<Rightarrow> match_tails True r s)"

section \<open>Quoted text\<close>

lemma prefix_match_Begin_False [simp]: "\<not> prefix_match ci False (ReBegin # r) s"
  by simp

lemma match_tails_anchored: "match_tails st (ReBegin # r) s = (st \<and> prefix_match False st r s)"
proof -
  have "\<not> match_tails False (ReBegin # r) s" for s
    by (induction s) auto
  then show ?thesis by (cases s) auto
qed

text \<open>What a quoted byte parses to, when no repetition operator follows.\<close>

definition no_rep :: "string \<Rightarrow> bool" where
  "no_rep s \<longleftrightarrow> (case s of [] \<Rightarrow> True | c # _ \<Rightarrow> c \<noteq> CHR ''*'' \<and> c \<noteq> CHR ''+'')"

lemma repeated_no_rep [simp]: "no_rep s \<Longrightarrow> repeated a s = (One a, s)"
  by (cases s) (auto simp: no_rep_def)

lemma QuoteMeta_Cons: "QuoteMeta (c # s) =
    (if c \<in> set meta_chars then [CHR 0x5C, c] else [c]) @ QuoteMeta s"
  by (simp add: QuoteMeta_def)

lemma QuoteMeta_Nil [simp]: "QuoteMeta [] = []"
  by (simp add: QuoteMeta_def)

lemma no_rep_quoted: "no_rep t \<Longrightarrow> no_rep (QuoteMeta s @ t)"
  by (cases s) (auto simp: QuoteMeta_Cons no_rep_def meta_chars_def)

lemma parse_quoted:
  assumes "no_rep t"
  shows "parse_re (QuoteMeta s @ t) = map_option ((@) (map (One \<circ> ALit) s)) (parse_re t)"
proof (induction s)
  case Nil
  show ?case by (simp add: option.map_ident)
next
  case (Cons c s)
  have nr: "no_rep (QuoteMeta s @ t)" using assms by (rule no_rep_quoted)
  show ?case
  proof (cases "c \<in> set meta_chars")
    case True
    with nr Cons show ?thesis
      by (simp add: QuoteMeta_Cons option.map_comp o_def)
  next
    case False
    then have "c \<noteq> CHR 0x5C" "c \<noteq> CHR ''.''" "c \<noteq> CHR ''^''" "c \<noteq> CHR ''$''" "c \<noteq> CHR ''(''"
      "c \<noteq> CHR ''[''" by (auto simp: meta_chars_def)
    with False nr Cons show ?thesis
      by (simp add: QuoteMeta_Cons option.map_comp o_def)
  qed
qed

lemma prefix_match_literal:
  "prefix_match True st (map (One \<circ> ALit) s @ [ReEnd]) v \<longleftrightarrow> ToLower v = ToLower s"
proof (induction s arbitrary: v st)
  case Nil
  show ?case by simp
next
  case (Cons c s)
  then show ?case by (cases v) (auto simp: ToLower_def)
qed

text \<open>
  Quoting is exact: the pattern the equality filters build matches the compare value and
  its variants in letter case, and nothing else, whatever bytes the value holds.
\<close>

lemma MatchString_equal:
  "MatchString (''^(?i)'' @ QuoteMeta v @ ''$'') s \<longleftrightarrow> ToLower s = ToLower v"
proof -
  have "parse_re (QuoteMeta v @ ''$'') = Some (map (One \<circ> ALit) v @ [ReEnd])"
    by (subst parse_quoted) (auto simp: no_rep_def)
  then have "parse_re (''^(?i)'' @ QuoteMeta v @ ''$'') =
      Some (ReBegin # ReFold # map (One \<circ> ALit) v @ [ReEnd])"
    by (simp add: HasPrefix_def)
  then show ?thesis
    by (simp add: MatchString_def match_tails_anchored prefix_match_literal)
qed

section \<open>Patterns of the like operator\<close>

text \<open>\<open>strings.NewReplacer("%", ".*", "_", ".")\<close>.\<close>

definition replace_like :: "string \<Rightarrow> string" where
  "replace_like s = concat (map (\<lambda>c. if c = CHR ''%'' then ''.*''
                                     else if c = CHR ''_'' then ''.'' else [c]) s)"

text \<open>
  What \<open>like\<close> is documented to mean: \<open>%\<close> stands for any sequence, \<open>_\<close> for any one
  character (a line break excepted, as everywhere in Go patterns), every other
  character for itself in either case.
\<close>

fun like :: "string \<Rightarrow> string \<Rightarrow> bool" where
  "like [] s = (s = [])"
| "like (p # ps) s =
     (if p = CHR ''%'' then
        like ps s \<or> (case s of [] \<Rightarrow> False | c # cs \<Rightarrow> byte c \<noteq> 10 \<and> like (p # ps) cs)
      else (case s of [] \<Rightarrow> False
            | c # cs \<Rightarrow> (if p = CHR ''_'' then byte c \<noteq> 10 else lower_char p = lower_char c)
                \<and> like ps cs))"

definition like_item :: "char \<Rightarrow> re_item" where
  "like_item c = (if c = CHR ''%'' then Star AAny else if c = CHR ''_'' then One AAny
                  else One (ALit c))"

lemma replace_like_Cons: "replace_like (QuoteMeta (c # s)) =
    (if c = CHR ''%'' then ''.*'' else if c = CHR ''_'' then ''.''
     else if c \<in> set meta_chars then [CHR 0x5C, c] else [c]) @ replace_like (QuoteMeta s)"
  by (auto simp: replace_like_def QuoteMeta_Cons meta_chars_def)

lemma no_rep_like: "no_rep t \<Longrightarrow> no_rep (replace_like (QuoteMeta s) @ t)"
proof (cases s)
  case Nil
  then show "no_rep t \<Longrightarrow> ?thesis" by (simp add: replace_like_def)
next
  case (Cons c cs)
  then show ?thesis
    by (auto simp: replace_like_Cons no_rep_def meta_chars_def)
qed

lemma parse_like:
  assumes "no_rep t"
  shows "parse_re (replace_like (QuoteMeta s) @ t) =
    map_option ((@) (map like_item s)) (parse_re t)"
proof (induction s)
  case Nil
  show ?case by (simp add: option.map_ident replace_like_def)
next
  case (Cons c s)
  have nr: "no_rep (replace_like (QuoteMeta s) @ t)" using assms by (rule no_rep_like)
  consider "c = CHR ''%''" | "c = CHR ''_''" | "c \<noteq> CHR ''%''" "c \<noteq> CHR ''_''" "c \<in> set meta_chars"
    | "c \<noteq> CHR ''%''" "c \<noteq> CHR ''_''" "c \<notin> set meta_chars" by blast
  then show ?case
  proof cases
    case 4
    then have "c \<noteq> CHR 0x5C" "c \<noteq> CHR ''.''" "c \<noteq> CHR ''^''" "c \<noteq> CHR ''$''" "c \<noteq> CHR ''(''"
      "c \<noteq> CHR ''[''" by (auto simp: meta_chars_def)
    with 4 nr Cons show ?thesis
      by (simp add: replace_like_Cons like_item_def option.map_comp o_def)
  qed (use nr Cons in \<open>simp_all add: replace_like_Cons like_item_def option.map_comp o_def\<close>)
qed

lemma prefix_match_like:
  "prefix_match True st (map like_item p @ [ReEnd]) s = like p s"
proof (induction p s arbitrary: st rule: like.induct)
  case (1 s)
  show ?case by simp
next
  case (2 p ps s)
  show ?case
  proof (cases "p = CHR ''%''")
    case True
    with 2 show ?thesis by (cases s) (simp_all add: like_item_def)
  next
    case False
    with 2 show ?thesis by (cases s) (auto simp: like_item_def)
  qed
qed

lemma MatchString_like:
  "MatchString (''^(?i)'' @ replace_like (QuoteMeta p) @ ''$'') s = like p s"
proof -
  have "parse_re (replace_like (QuoteMeta p) @ ''$'') = Some (map like_item p @ [ReEnd])"
    by (subst parse_like) (auto simp: no_rep_def)
  then have "parse_re (''^(?i)'' @ replace_like (QuoteMeta p) @ ''$'') =
      Some (ReBegin # ReFold # map like_item p @ [ReEnd])"
    by (simp add: HasPrefix_def)
  then show ?thesis by (simp add: MatchString_def match_tails_anchored prefix_match_like)
qed

section \<open>Address with an arbitrary port\<close>

lemma prefix_match_star_digits:
  "prefix_match ci st [Star ADigit, ReEnd] s = list_all is_digit s"
proof (induction s arbitrary: st)
  case Nil
  show ?case by simp
next
  case (Cons c s)
  then show ?case by simp
qed

lemma prefix_match_port:
  "prefix_match False st (map (One \<circ> ALit) a @ [Plus ADigit, ReEnd]) s \<longleftrightarrow>
    (\<exists>ds. s = a @ ds \<and> ds \<noteq> [] \<and> list_all is_digit ds)"
proof (induction a arbitrary: s st)
  case Nil
  then show ?case
    by (cases s) (simp_all add: prefix_match_star_digits del: prefix_match.simps(6))
next
  case (Cons c a)
  then show ?case by (cases s) auto
qed

lemma MatchString_port:
  "MatchString (''^'' @ QuoteMeta a @ ''[0-9]+$'') s \<longleftrightarrow>
    (\<exists>ds. s = a @ ds \<and> ds \<noteq> [] \<and> list_all is_digit ds)"
proof -
  have "parse_re ''[0-9]+$'' = Some [Plus ADigit, ReEnd]"
    by (simp add: HasPrefix_def)
  then have "parse_re (QuoteMeta a @ ''[0-9]+$'') =
      Some (map (One \<circ> ALit) a @ [Plus ADigit, ReEnd])"
    by (subst parse_quoted) (auto simp: no_rep_def)
  then have "parse_re (''^'' @ QuoteMeta a @ ''[0-9]+$'') =
      Some (ReBegin # map (One \<circ> ALit) a @ [Plus ADigit, ReEnd])"
    by simp
  then show ?thesis by (simp add: MatchString_def match_tails_anchored prefix_match_port)
qed

lemmas MatchString_forms =
  MatchString_equal [simplified] MatchString_like [simplified] MatchString_port [simplified]

end
