(* ===== verification/HashFilter.thy ===== *)
theory HashFilter
  imports HashTree GoRegexp
begin

text \<open>
  The item filters of go-susi/xml/xml_filter.go. The types that implement the interface
  \<open>HashFilter\<close> are the constructors of one datatype, \<open>Accepts\<close> is the method of that name of
  each of them. An item is a \<open>*Hash\<close>, which may be nil: None.
\<close>

section \<open>The filters\<close>

datatype hash_filter =
    FilterAll
  | FilterNone
  | FilterAnd "hash_filter list"
  | FilterOr "hash_filter list"
  | FilterRegexp string string
  | FilterNot hash_filter
  | Filterrel string string int int int
  | FilterSimple "string list"

definition MinInt64 :: int where
  "MinInt64 = - (2 ^ 63)"

definition FilterRel :: "string \<Rightarrow> string \<Rightarrow> int \<Rightarrow> int \<Rightarrow> hash_filter" where
  "FilterRel column compare_value accept1 accept2 =
     Filterrel column compare_value
       (case ParseInt compare_value of None \<Rightarrow> MinInt64 | Some num \<Rightarrow> num) accept1 accept2"

text \<open>
  One column value against the compare value: numerically when both are numbers, else by
  the bytes of the lower-case strings. The number MinInt64 stands for "not a number".
\<close>

definition filterrel_value :: "string \<Rightarrow> int \<Rightarrow> int \<Rightarrow> int \<Rightarrow> string \<Rightarrow> bool" where
  "filterrel_value compare_value compare_number accept1 accept2 value =
     (let cmp = (case (if compare_number \<noteq> MinInt64 then ParseInt value else None) of
                   Some valnum \<Rightarrow> (if valnum < compare_number then -1
                                   else if valnum > compare_number then 1 else 0)
                 | None \<Rightarrow> Compare (ToLower value) (ToLower compare_value))
      in accept1 = cmp \<or> accept2 = cmp)"

text \<open>
  Tag/value pairs: for each pair some child with that tag has that text, in either case. A
  last argument without a partner is ignored.
\<close>

fun simple_accepts :: "string list \<Rightarrow> hash \<Rightarrow> bool" where
  "simple_accepts (tag # v # rest) item =
     (list_ex (\<lambda>val. ToLower val = ToLower v) (get1 tag item) \<and> simple_accepts rest item)"
| "simple_accepts _ item = True"

fun Accepts :: "hash_filter \<Rightarrow> hash option \<Rightarrow> bool" where
  "Accepts f None = False"
| "Accepts FilterAll (Some item) = True"
| "Accepts FilterNone (Some item) = False"
| "Accepts (FilterAnd fs) (Some item) = list_all (\<lambda>f. Accepts f (Some item)) fs"
| "Accepts (FilterOr fs) (Some item) = list_ex (\<lambda>f. Accepts f (Some item)) fs"
| "Accepts (FilterRegexp col re) (Some item) = list_ex (MatchString re) (get1 col item)"
| "Accepts (FilterNot f) (Some item) = (\<not> Accepts f (Some item))"
| "Accepts (Filterrel col v n a1 a2) (Some item) =
     list_ex (filterrel_value v n a1 a2) (get1 col item)"
| "Accepts (FilterSimple ps) (Some item) = simple_accepts ps item"

abbreviation accepts :: "hash_filter \<Rightarrow> hash \<Rightarrow> bool" where
  "accepts f h \<equiv> Accepts f (Some h)"

lemmas accepts_eqs [simp, accept_simps] = Accepts.simps

lemma accepts_FilterRel [simp, accept_simps]:
  "accepts (FilterRel col v a1 a2) h \<longleftrightarrow>
     list_ex (filterrel_value v (case ParseInt v of None \<Rightarrow> MinInt64 | Some n \<Rightarrow> n) a1 a2)
       (get1 col h)"
  by (simp add: FilterRel_def)

lemma accepts_simple1 [accept_simps]:
  "accepts (FilterSimple [t, v]) h \<longleftrightarrow> (\<exists>x \<in> set (get1 t h). ToLower x = ToLower v)"
  by (auto simp: list_ex_iff)

lemma simple_accepts_append:
  "even (length ps) \<Longrightarrow>
    simple_accepts (ps @ qs) h \<longleftrightarrow> simple_accepts ps h \<and> simple_accepts qs h"
  by (induction ps h rule: simple_accepts.induct) auto

lemma accepts_simple_single [accept_simps]:
  "single t h \<Longrightarrow> get1 t h \<noteq> [] \<Longrightarrow>
    accepts (FilterSimple [t, v]) h \<longleftrightarrow> ToLower (text_of t h) = ToLower v"
  by (simp add: single_text_of)

text \<open>A filter looks at an item only through its fields, so it cannot tell a clone.\<close>

lemma filter_sees_fields:
  "(\<And>t. get1 t h = get1 t h') \<Longrightarrow> accepts f h = accepts f h'"
proof (induction f "Some h" rule: Accepts.induct)
  case (9 ps)
  have "(\<And>t. get1 t h = get1 t h') \<Longrightarrow> simple_accepts ps h = simple_accepts ps h'"
    by (induction ps h rule: simple_accepts.induct) auto
  with 9 show ?case by simp
qed (auto simp: list_all_iff list_ex_iff)

lemma accepts_Clone [simp, accept_simps]: "accepts f (Clone h) = accepts f h"
  by (rule filter_sees_fields) simp

text \<open>
  The interface: an implementation that rejects nil and in which the three combinators mean
  what their comments say. Its clients need no more than these laws.
\<close>

locale item_filter =
  fixes acc :: "'f \<Rightarrow> 'h option \<Rightarrow> bool"
    and both :: "'f list \<Rightarrow> 'f" and any :: "'f list \<Rightarrow> 'f" and neg :: "'f \<Rightarrow> 'f"
  assumes nil_rejected: "\<not> acc f None"
    and acc_both: "acc (both fs) (Some h) = list_all (\<lambda>f. acc f (Some h)) fs"
    and acc_any: "acc (any fs) (Some h) = list_ex (\<lambda>f. acc f (Some h)) fs"
    and acc_neg: "acc (neg f) (Some h) = (\<not> acc f (Some h))"
begin

lemma de_morgan: "acc (neg (any fs)) i = acc (both (map neg fs)) i"
  by (cases i) (auto simp: nil_rejected acc_both acc_any acc_neg list_all_iff list_ex_iff)

text \<open>
  The split that the job database performs on every request: the items a filter selects
  are those selected with a condition p added and those selected with its negation.
\<close>

lemma split_by:
  "acc f i \<longleftrightarrow> acc (both [p, f]) i \<or> acc (both [neg p, f]) i"
  "\<not> (acc (both [p, f]) i \<and> acc (both [neg p, f]) i)"
  by (cases i; auto simp: nil_rejected acc_both acc_neg)+

lemma both_empty: "acc (both []) i \<longleftrightarrow> i \<noteq> None"
  by (cases i) (auto simp: nil_rejected acc_both)

lemma any_empty: "\<not> acc (any []) i"
  by (cases i) (auto simp: nil_rejected acc_any)

end

interpretation hf: item_filter Accepts FilterAnd FilterOr FilterNot
  by unfold_locales auto

section \<open>Where expressions\<close>

text \<open>The errors of \<open>WhereFilter\<close>.\<close>

datatype where_error =
    WrongWrapper string
  | BadConnector string
  | TwoColumns
  | NoColumn
  | BadOperator string

text \<open>
  The loop over the subtags of a phrase that finds its column: any tag but \<open>operator\<close>, at
  most one of them.
\<close>

fun phrase_column :: "string list \<Rightarrow> string \<Rightarrow> where_error + string" where
  "phrase_column [] col = (if col = [] then Inl NoColumn else Inr col)"
| "phrase_column (tag # tags) col =
     (if tag \<noteq> ''operator'' then
        (if col \<noteq> [] then Inl TwoColumns else phrase_column tags tag)
      else phrase_column tags col)"

definition phrase_filter :: "string \<Rightarrow> string \<Rightarrow> string \<Rightarrow> where_error + hash_filter" where
  "phrase_filter operator col compare_value =
     (let quoted = QuoteMeta compare_value in
      if operator = ''eq'' then Inr (FilterRegexp col (''^(?i)'' @ quoted @ ''$''))
      else if operator = ''ne'' then
        Inr (FilterNot (FilterRegexp col (''^(?i)'' @ quoted @ ''$'')))
      else if operator = ''ge'' then Inr (FilterRel col compare_value 1 0)
      else if operator = ''gt'' then Inr (FilterRel col compare_value 1 1)
      else if operator = ''le'' then Inr (FilterRel col compare_value (-1) 0)
      else if operator = ''lt'' then Inr (FilterRel col compare_value (-1) (-1))
      else if operator = ''like'' then
        Inr (FilterRegexp col (''^(?i)'' @ replace_like quoted @ ''$''))
      else if operator = ''unlike'' then
        Inr (FilterNot (FilterRegexp col (''^(?i)'' @ replace_like quoted @ ''$'')))
      else Inl (BadOperator operator))"

definition phrase_of :: "hash \<Rightarrow> where_error + hash_filter" where
  "phrase_of phrase =
     (let op0 = ToLower (text_of ''operator'' phrase);
          operator = (if op0 = [] then ''eq'' else op0)
      in case phrase_column (Subtags phrase) [] of
           Inl e \<Rightarrow> Inl e
         | Inr col \<Rightarrow> phrase_filter operator col (text_of col phrase))"

text \<open>A loop that stops at the first error.\<close>

fun collect :: "('a \<Rightarrow> 'e + 'b) \<Rightarrow> 'a list \<Rightarrow> 'e + 'b list" where
  "collect f [] = Inr []"
| "collect f (x # xs) =
     (case f x of Inl e \<Rightarrow> Inl e
      | Inr y \<Rightarrow> (case collect f xs of Inl e \<Rightarrow> Inl e | Inr ys \<Rightarrow> Inr (y # ys)))"

definition clause_of :: "hash \<Rightarrow> where_error + hash_filter" where
  "clause_of clause =
     (let c0 = ToLower (text_of ''connector'' clause);
          connector = (if c0 = [] then ''and'' else c0)
      in if connector \<noteq> ''and'' \<and> connector \<noteq> ''or'' then Inl (BadConnector connector)
         else case collect phrase_of (iter_named ''phrase'' (kids clause)) of
                Inl e \<Rightarrow> Inl e
              | Inr phrases \<Rightarrow>
                  Inr (if connector = ''and'' then FilterAnd phrases else FilterOr phrases))"

definition WhereFilter :: "hash \<Rightarrow> where_error + hash_filter" where
  "WhereFilter whr =
     (if Name whr \<noteq> ''where'' then Inl (WrongWrapper (Name whr))
      else case collect clause_of (iter_named ''clause'' (kids whr)) of
             Inl e \<Rightarrow> Inl e
           | Inr clauses \<Rightarrow> Inr (FilterAnd clauses))"

subsection \<open>What a where expression means\<close>

text \<open>
  The documented meaning of a where expression, stated on the items directly. An order
  relation holds numerically when both sides are numbers of 64 bits, and otherwise
  between the strings in lower case.
\<close>

definition rel_spec :: "(int \<Rightarrow> bool) \<Rightarrow> string \<Rightarrow> string \<Rightarrow> bool" where
  "rel_spec r v x =
     (case (ParseInt v, ParseInt x) of
        (Some n, Some k) \<Rightarrow> r (if k < n then -1 else if k > n then 1 else 0)
      | _ \<Rightarrow> r (Compare (ToLower x) (ToLower v)))"

definition phrase_spec :: "string \<Rightarrow> string \<Rightarrow> string \<Rightarrow> hash \<Rightarrow> bool" where
  "phrase_spec operator col v item =
     (let xs = set (get1 col item) in
      if operator = ''eq'' then (\<exists>x\<in>xs. ToLower x = ToLower v)
      else if operator = ''ne'' then (\<forall>x\<in>xs. ToLower x \<noteq> ToLower v)
      else if operator = ''ge'' then (\<exists>x\<in>xs. rel_spec (\<lambda>c. c \<ge> 0) v x)
      else if operator = ''gt'' then (\<exists>x\<in>xs. rel_spec (\<lambda>c. c > 0) v x)
      else if operator = ''le'' then (\<exists>x\<in>xs. rel_spec (\<lambda>c. c \<le> 0) v x)
      else if operator = ''lt'' then (\<exists>x\<in>xs. rel_spec (\<lambda>c. c < 0) v x)
      else if operator = ''like'' then (\<exists>x\<in>xs. like v x)
      else (\<forall>x\<in>xs. \<not> like v x))"

definition operator_of :: "hash \<Rightarrow> string" where
  "operator_of phrase =
     (let o0 = ToLower (text_of ''operator'' phrase) in if o0 = [] then ''eq'' else o0)"

definition columns_of :: "hash \<Rightarrow> string list" where
  "columns_of phrase = filter (\<lambda>t. t \<noteq> ''operator'') (Subtags phrase)"

definition phrase_holds :: "hash \<Rightarrow> hash \<Rightarrow> bool" where
  "phrase_holds phrase item =
     (let col = hd (columns_of phrase) in
      phrase_spec (operator_of phrase) col (text_of col phrase) item)"

definition clause_holds :: "hash \<Rightarrow> hash \<Rightarrow> bool" where
  "clause_holds clause item =
     (let phrases = filter (\<lambda>c. Name c = ''phrase'') (children clause) in
      if ToLower (text_of ''connector'' clause) = ''or''
      then \<exists>p\<in>set phrases. phrase_holds p item
      else \<forall>p\<in>set phrases. phrase_holds p item)"

definition where_holds :: "hash \<Rightarrow> hash \<Rightarrow> bool" where
  "where_holds whr item =
     (\<forall>c\<in>set (filter (\<lambda>c. Name c = ''clause'') (children whr)). clause_holds c item)"

text \<open>
  The sentinel shows: a compare value that is the text of MinInt64 is not compared
  numerically. Where the value is anything else, the code's comparison is the documented
  one.
\<close>

lemma filterrel_value_spec:
  assumes "ParseInt v \<noteq> Some MinInt64"
  shows "filterrel_value v (case ParseInt v of None \<Rightarrow> MinInt64 | Some n \<Rightarrow> n) a1 a2 x =
    rel_spec (\<lambda>c. a1 = c \<or> a2 = c) v x"
  using assms
  by (auto simp: filterrel_value_def rel_spec_def Let_def split: option.splits)

lemma rel_spec_cong:
  assumes "r (-1) = q (-1)" "r 0 = q 0" "r 1 = q (1::int)"
  shows "rel_spec r v x = rel_spec q v x"
  using assms by (auto simp: rel_spec_def Compare_cases split: option.splits)

lemma phrase_filter_spec:
  assumes "phrase_filter operator col v = Inr f" and "ParseInt v \<noteq> Some MinInt64"
  shows "accepts f item = phrase_spec operator col v item"
proof -
  have "rel_spec (\<lambda>c. c = 1 \<or> c = 0) v x = rel_spec ((\<le>) 0) v x"
    "rel_spec (\<lambda>c. c = 1) v x = rel_spec ((<) 0) v x"
    "rel_spec (\<lambda>c. -1 = c \<or> c = 0) v x = rel_spec (\<lambda>c. c \<le> 0) v x"
    "rel_spec (\<lambda>c. -1 = c) v x = rel_spec (\<lambda>c. c < 0) v x" for x
    by (rule rel_spec_cong; simp)+
  note rels = this
  from assms(1) consider "operator = ''eq''" | "operator = ''ne''" | "operator = ''ge''"
    | "operator = ''gt''" | "operator = ''le''" | "operator = ''lt''" | "operator = ''like''"
    | "operator = ''unlike''"
    by (auto simp: phrase_filter_def Let_def split: if_splits)
  then show ?thesis
  proof cases
    case 1
    with assms show ?thesis
      by (auto simp: phrase_filter_def phrase_spec_def list_ex_iff MatchString_forms)
  next
    case 2
    with assms show ?thesis
      by (auto simp: phrase_filter_def phrase_spec_def list_ex_iff MatchString_forms)
  next
    case 3
    with assms show ?thesis
      by (auto simp: phrase_filter_def phrase_spec_def list_ex_iff filterrel_value_spec rels)
  next
    case 4
    with assms show ?thesis
      by (auto simp: phrase_filter_def phrase_spec_def list_ex_iff filterrel_value_spec rels)
  next
    case 5
    with assms show ?thesis
      by (auto simp: phrase_filter_def phrase_spec_def list_ex_iff filterrel_value_spec rels)
  next
    case 6
    with assms show ?thesis
      by (auto simp: phrase_filter_def phrase_spec_def list_ex_iff filterrel_value_spec rels)
  next
    case 7
    with assms show ?thesis
      by (auto simp: phrase_filter_def phrase_spec_def list_ex_iff MatchString_forms)
  next
    case 8
    with assms show ?thesis
      by (auto simp: phrase_filter_def phrase_spec_def list_ex_iff MatchString_forms)
  qed
qed

text \<open>The phrases of a where expression whose compare value is the sentinel's text.\<close>

definition no_sentinel :: "hash \<Rightarrow> bool" where
  "no_sentinel whr \<longleftrightarrow>
     (\<forall>c\<in>set (children whr). \<forall>p\<in>set (children c). \<forall>t. ParseInt (text_of t p) \<noteq> Some MinInt64)"

lemma phrase_column_Inr:
  "phrase_column tags col = Inr c \<Longrightarrow>
    (if col = [] then [] else [col]) @ filter (\<lambda>t. t \<noteq> ''operator'') tags = [c] \<or>
    [] \<in> set tags"
  by (induction tags col rule: phrase_column.induct) (auto split: if_splits)

lemma phrase_column_one:
  "phrase_column tags col = Inr c \<Longrightarrow> [] \<notin> set tags \<Longrightarrow>
    (if col = [] then [] else [col]) @ filter (\<lambda>t. t \<noteq> ''operator'') tags = [c]"
  using phrase_column_Inr by blast

lemma collect_InrD: "collect f xs = Inr ys \<Longrightarrow> list_all2 (\<lambda>x y. f x = Inr y) xs ys"
  by (induction xs arbitrary: ys) (auto split: sum.splits)

lemma collect_InrI: "list_all2 (\<lambda>x y. f x = Inr y) xs ys \<Longrightarrow> collect f xs = Inr ys"
  by (induction rule: list_all2_induct) auto

lemma collect_Inr: "collect f xs = Inr ys \<longleftrightarrow> list_all2 (\<lambda>x y. f x = Inr y) xs ys"
  using collect_InrD collect_InrI by blast

text \<open>Tag names are never empty: the parser that builds the where element has none.\<close>

definition named_tags :: "hash \<Rightarrow> bool" where
  "named_tags whr \<longleftrightarrow>
     (\<forall>c\<in>set (children whr). \<forall>p\<in>set (children c). \<forall>x\<in>set (children p). Name x \<noteq> [])"

lemma phrase_of_holds:
  assumes "phrase_of p = Inr f"
    and "\<forall>t. ParseInt (text_of t p) \<noteq> Some MinInt64"
    and "\<forall>x\<in>set (children p). Name x \<noteq> []"
  shows "accepts f item = phrase_holds p item"
proof -
  from assms(1) obtain col where col: "phrase_column (Subtags p) [] = Inr col"
    and pf: "phrase_filter (operator_of p) col (text_of col p) = Inr f"
    by (auto simp: phrase_of_def operator_of_def Let_def split: sum.splits)
  from assms(3) have "[] \<notin> set (Subtags p)" by (auto simp: Subtags_def)
  with phrase_column_one [OF col] have "columns_of p = [col]"
    by (simp add: columns_of_def)
  with phrase_filter_spec [OF pf] assms(2) show ?thesis
    by (simp add: phrase_holds_def)
qed

lemma clause_of_holds:
  assumes "clause_of c = Inr f"
    and "\<forall>p\<in>set (children c). \<forall>t. ParseInt (text_of t p) \<noteq> Some MinInt64"
    and "\<forall>p\<in>set (children c). \<forall>x\<in>set (children p). Name x \<noteq> []"
  shows "accepts f item = clause_holds c item"
proof -
  define ps where "ps = filter (\<lambda>c. Name c = ''phrase'') (children c)"
  define con where "con = (let c0 = ToLower (text_of ''connector'' c)
    in if c0 = [] then ''and'' else c0)"
  from assms(1) obtain fs where con: "con = ''and'' \<or> con = ''or''"
    and fs: "collect phrase_of ps = Inr fs"
    and f: "f = (if con = ''and'' then FilterAnd fs else FilterOr fs)"
    unfolding clause_of_def Let_def con_def ps_def iter_named_eq
    by (auto split: sum.splits if_splits)
  from fs have l2: "list_all2 (\<lambda>p f. phrase_of p = Inr f) ps fs" by (simp add: collect_Inr)
  have l3: "list_all2 (\<lambda>p f. accepts f item = phrase_holds p item) ps fs"
    using l2
  proof (rule list.rel_mono_strong)
    fix p g
    assume "p \<in> set ps" and "phrase_of p = Inr g"
    with assms(2,3) show "accepts g item = phrase_holds p item"
      by (intro phrase_of_holds) (auto simp: ps_def)
  qed
  then have "list_all (\<lambda>f. accepts f item) fs \<longleftrightarrow> (\<forall>p\<in>set ps. phrase_holds p item)"
    "list_ex (\<lambda>f. accepts f item) fs \<longleftrightarrow> (\<exists>p\<in>set ps. phrase_holds p item)"
    by (induction rule: list_all2_induct) auto
  moreover have "con = ''or'' \<longleftrightarrow> ToLower (text_of ''connector'' c) = ''or''"
    by (simp add: con_def Let_def)
  ultimately show ?thesis
    using con f by (auto simp: clause_holds_def ps_def [symmetric] Let_def)
qed

text \<open>
  The filter compiled from a where expression selects the items of which the expression
  holds.
\<close>

lemma WhereFilter_holds:
  assumes "WhereFilter w = Inr f" and "no_sentinel w" and "named_tags w"
  shows "accepts f item = where_holds w item"
proof -
  define cs where "cs = filter (\<lambda>c. Name c = ''clause'') (children w)"
  from assms(1) obtain fs where fs: "collect clause_of cs = Inr fs" and f: "f = FilterAnd fs"
    by (auto simp: WhereFilter_def cs_def iter_named_eq split: sum.splits if_splits)
  from fs have "list_all2 (\<lambda>c f. clause_of c = Inr f) cs fs" by (simp add: collect_Inr)
  then have "list_all2 (\<lambda>c f. accepts f item = clause_holds c item) cs fs"
  proof (rule list.rel_mono_strong)
    fix c g
    assume c: "c \<in> set cs" and g: "clause_of c = Inr g"
    from c have "c \<in> set (children w)" by (simp add: cs_def)
    with assms(2,3) show "accepts g item = clause_holds c item"
      by (intro clause_of_holds [OF g]) (unfold no_sentinel_def named_tags_def, blast+)
  qed
  then have "list_all (\<lambda>f. accepts f item) fs \<longleftrightarrow> (\<forall>c\<in>set cs. clause_holds c item)"
    by (induction rule: list_all2_induct) auto
  with f show ?thesis by (simp add: where_holds_def cs_def [symmetric])
qed

section \<open>Properties\<close>


definition example_where :: hash where
  "example_where = Hash ''where'' [Sub (Hash ''clause'' [Sub (Hash ''phrase'' [
     Sub (Hash ''operator'' [Txt ''ge'']), Sub (Hash ''id'' [Txt ''9''])])])]"

definition example_filter :: hash_filter where
  "example_filter = FilterAnd [FilterAnd [Filterrel ''id'' ''9'' 9 1 0]]"


end
