(* ===== verification/HashDB.thy ===== *)
theory HashDB
  imports HashFilter HashText
begin

text \<open>
  The database type \<^verbatim>\<open>xml.DB\<close> of go-susi/xml/xml_db.go: an element whose children are the
  items, a lock, and a background job that saves the element through a \<open>Storer\<close> some time
  after a change. Every operation runs under the lock, so it is one step; what can come
  between the steps are the background jobs. A call after \<open>Shutdown\<close> never returns.
\<close>

section \<open>The items\<close>

definition add_all :: "hash list \<Rightarrow> hash \<Rightarrow> hash" where
  "add_all items d = fold AddClone items d"

definition replace_items :: "hash_filter \<Rightarrow> bool \<Rightarrow> hash list \<Rightarrow> hash \<Rightarrow> hash \<times> hash" where
  "replace_items f must_match items d =
     (case Remove (accepts f) d of (result, d') \<Rightarrow>
        (result,
         if must_match = False \<or> children result \<noteq> [] then add_all items d' else d'))"

definition column_values :: "string \<Rightarrow> hash \<Rightarrow> string list" where
  "column_values column d = fold (\<lambda>child result. result @ get1 column child) (children d) []"

lemma children_add_all [simp, db_simps]:
  "children (add_all items d) = children d @ map Clone items"
  by (induction items arbitrary: d) (simp_all add: add_all_def)

lemma Name_add_all [simp]: "Name (add_all items d) = Name d"
  by (induction items arbitrary: d) (simp_all add: add_all_def)

lemma children_replace_items [simp, db_simps]:
  "children (fst (replace_items f m items d)) = filter (accepts f) (children d)"
  "children (snd (replace_items f m items d)) =
     filter (\<lambda>c. \<not> accepts f c) (children d) @
       (if m \<and> filter (accepts f) (children d) = [] then [] else map Clone items)"
  by (simp_all add: replace_items_def case_prod_beta)

lemma Name_replace_items [simp]: "Name (snd (replace_items f m items d)) = Name d"
  by (simp add: replace_items_def case_prod_beta)

lemma column_values_eq [db_simps]:
  "column_values column d = concat (map (get1 column) (children d))"
proof -
  have "fold (\<lambda>c r. r @ get1 column c) xs r = r @ concat (map (get1 column) xs)" for xs r
    by (induction xs arbitrary: r) simp_all
  then show ?thesis by (simp add: column_values_def)
qed

text \<open>
  The interface its clients rely on: a sequence of items to which copies are added and from
  which a predicate selects what goes. The clients keep one item per key by replacing.
\<close>

locale item_store =
  fixes items :: "'d \<Rightarrow> 'i list"
    and add :: "'i list \<Rightarrow> 'd \<Rightarrow> 'd"
    and remove :: "'f \<Rightarrow> 'd \<Rightarrow> 'd"
    and sel :: "'f \<Rightarrow> 'i \<Rightarrow> bool"
    and copy :: "'i \<Rightarrow> 'i"
  assumes items_add: "items (add xs d) = items d @ map copy xs"
    and items_remove: "items (remove f d) = filter (\<lambda>i. \<not> sel f i) (items d)"
begin

lemma others_kept: "i \<in> set (items d) \<Longrightarrow> \<not> sel f i \<Longrightarrow> i \<in> set (items (add xs (remove f d)))"
  by (simp add: items_add items_remove)

lemma all_removed: "i \<in> set (items (remove f d)) \<Longrightarrow> \<not> sel f i"
  by (simp add: items_remove)

lemma remove_remove: "items (remove f (remove f d)) = items (remove f d)"
  by (simp add: items_remove)

lemma keys_distinct_remove:
  "distinct (map key (items d)) \<Longrightarrow> distinct (map key (items (remove f d)))"
  by (simp add: items_remove distinct_map_filterI)

lemma keys_distinct_replace:
  assumes "distinct (map key (items d))"
    and "\<And>i. i \<in> set (items d) \<Longrightarrow> key i = key (copy x) \<Longrightarrow> sel f i"
  shows "distinct (map key (items (add [x] (remove f d))))"
  using assms by (auto simp: items_add items_remove distinct_map_filterI)

lemma found_after_replace:
  assumes "\<And>i. i \<in> set (items d) \<Longrightarrow> key i = key (copy x) \<Longrightarrow> sel f i"
  shows "filter (\<lambda>i. key i = key (copy x)) (items (add [x] (remove f d))) = [copy x]"
proof -
  have "filter (\<lambda>i. \<not> sel f i \<and> key i = key (copy x)) (items d) = []"
    using assms by (auto simp: filter_empty_conv)
  then show ?thesis by (simp add: items_add items_remove)
qed

end

interpretation hs: item_store children add_all "\<lambda>f d. snd (Remove (accepts f) d)" accepts Clone
  by unfold_locales simp_all

section \<open>The database\<close>

record db =
  data :: hash
  storer :: bool
  blocked :: bool
  down :: bool

text \<open>A call returns, waits for the lock forever, or panics (\<open>Shutdown\<close> without a storer).\<close>

datatype 'a outcome = Returns 'a | Blocks | Panics

fun and_then :: "'a outcome \<Rightarrow> ('a \<Rightarrow> 'b outcome) \<Rightarrow> 'b outcome" where
  "and_then (Returns x) f = f x"
| "and_then Blocks f = Blocks"
| "and_then Panics f = Panics"

definition NewDB :: "string \<Rightarrow> bool \<Rightarrow> db" where
  "NewDB name persist = \<lparr>data = NewHash name [], storer = persist, blocked = (\<not> persist), down = False\<rparr>"

definition lock :: "db \<Rightarrow> db outcome" where
  "lock d = (if down d then Blocks else Returns d)"

text \<open>The second component tells whether a background job was started.\<close>

definition persistJob :: "db \<Rightarrow> db \<times> bool" where
  "persistJob d = (if \<not> blocked d then (d\<lparr>blocked := True\<rparr>, True) else (d, False))"

definition DB_Init :: "hash \<Rightarrow> db \<Rightarrow> db outcome" where
  "DB_Init h d = and_then (lock d) (\<lambda>d. Returns (d\<lparr>data := h\<rparr>))"

definition DB_AddClone :: "hash list \<Rightarrow> db \<Rightarrow> (db \<times> bool) outcome" where
  "DB_AddClone items d =
     and_then (lock d) (\<lambda>d. Returns (persistJob (d\<lparr>data := add_all items (data d)\<rparr>)))"

definition DB_Query :: "hash_filter \<Rightarrow> db \<Rightarrow> hash outcome" where
  "DB_Query f d = and_then (lock d) (\<lambda>d. Returns (Query (accepts f) (data d)))"

definition DB_ColumnValues :: "string \<Rightarrow> db \<Rightarrow> string list outcome" where
  "DB_ColumnValues column d = and_then (lock d) (\<lambda>d. Returns (column_values column (data d)))"

definition DB_Remove :: "hash_filter \<Rightarrow> db \<Rightarrow> (hash \<times> db \<times> bool) outcome" where
  "DB_Remove f d = and_then (lock d) (\<lambda>d.
     case Remove (accepts f) (data d) of (result, rest) \<Rightarrow>
       Returns (result, persistJob (d\<lparr>data := rest\<rparr>)))"

definition DB_Replace :: "hash_filter \<Rightarrow> bool \<Rightarrow> hash list \<Rightarrow> db \<Rightarrow> (hash \<times> db \<times> bool) outcome" where
  "DB_Replace f must_match items d = and_then (lock d) (\<lambda>d.
     case replace_items f must_match items (data d) of (result, rest) \<Rightarrow>
       Returns (result, persistJob (d\<lparr>data := rest\<rparr>)))"

text \<open>
  Saving. A storer is its effect \<open>store\<close> on the storage and whether it reports an error.
\<close>

definition persistWithLock :: "(hash \<Rightarrow> 's \<Rightarrow> 's \<times> bool) \<Rightarrow> db \<Rightarrow> 's \<Rightarrow> ('s \<times> bool) outcome" where
  "persistWithLock store d s = (if storer d then Returns (store (data d) s) else Panics)"

definition DB_Persist ::
  "(hash \<Rightarrow> 's \<Rightarrow> 's \<times> bool) \<Rightarrow> db \<Rightarrow> 's \<Rightarrow> (db \<times> 's \<times> bool) outcome" where
  "DB_Persist store d s =
     (if \<not> storer d then Returns (d, s, False)
      else and_then (lock d) (\<lambda>d.
        let d' = d\<lparr>blocked := False\<rparr>
        in and_then (persistWithLock store d' s) (\<lambda>(s', err). Returns (d', s', err))))"

definition DB_Shutdown :: "(hash \<Rightarrow> 's \<Rightarrow> 's \<times> bool) \<Rightarrow> db \<Rightarrow> 's \<Rightarrow> (db \<times> 's) outcome" where
  "DB_Shutdown store d s = and_then (lock d) (\<lambda>d.
     and_then (persistWithLock store d s) (\<lambda>(s', err). Returns (d\<lparr>down := True\<rparr>, s')))"

section \<open>The file behind it\<close>

text \<open>
  \<open>FileStorer.Store\<close> on a file system that maps names to contents. What the operating
  system decides is a parameter: the number in the temporary file's name (None when it
  cannot be created; \<open>ioutil.TempFile\<close> appends it to the prefix), how many bytes a file
  accepts at each write, and whether the rename succeeds. All states of the file system are
  recorded, newest first: a crash can expose any of them.
\<close>

type_synonym disk = "string \<Rightarrow> string option"

definition file_write :: "(string \<Rightarrow> nat) \<Rightarrow> string \<Rightarrow> disk list \<Rightarrow> string \<Rightarrow> disk list \<times> nat \<times> bool" where
  "file_write room name ds s =
     (let old = (case hd ds name of None \<Rightarrow> [] | Some c \<Rightarrow> c);
          n = min (room old) (length s)
      in ((hd ds)(name \<mapsto> old @ take n s) # ds, n, n < length s))"

definition Store ::
  "string \<Rightarrow> nat option \<Rightarrow> (string \<Rightarrow> nat) \<Rightarrow> bool \<Rightarrow> hash \<Rightarrow> disk \<Rightarrow> disk list \<times> bool" where
  "Store file random room renames h d =
     (case random of
        None \<Rightarrow> ([d], True)
      | Some r \<Rightarrow>
          let temp = file @ itoa r in
          case WriteTo (file_write room temp) h [d(temp \<mapsto> []), d] of
            (ds, n, err) \<Rightarrow>
              if err then (ds, True)
              else if renames then ((hd ds)(temp := None, file := hd ds temp) # ds, False)
              else (ds, True))"

text \<open>As the effect a database sees: the last state, and the error.\<close>

definition file_store ::
  "string \<Rightarrow> (disk \<Rightarrow> nat option) \<Rightarrow> (disk \<Rightarrow> string \<Rightarrow> nat) \<Rightarrow> (disk \<Rightarrow> bool) \<Rightarrow>
   hash \<Rightarrow> disk \<Rightarrow> disk \<times> bool" where
  "file_store file random room renames h d =
     (case Store file (random d) (room d) (renames d) h d of (ds, err) \<Rightarrow> (hd ds, err))"

lemma write_all_invariant:
  assumes step: "\<And>w s. P w \<Longrightarrow> P (fst (wr w s))"
  shows "P w \<Longrightarrow> P (fst (write_all wr w n ss))"
proof (induction ss arbitrary: w n)
  case Nil
  then show ?case by simp
next
  case (Cons s ss)
  obtain w' k err where wr: "wr w s = (w', k, err)" by (cases "wr w s")
  with step [OF Cons.prems, of s] have "P w'" by simp
  with wr Cons.IH show ?case by simp
qed

text \<open>While the temporary file is written the file itself does not change.\<close>

lemma file_write_others:
  assumes "temp \<noteq> file"
    and "ds \<noteq> [] \<and> (\<forall>d' \<in> set ds. d' file = c)"
  shows "fst (WriteTo (file_write room temp) h ds) \<noteq> [] \<and>
    (\<forall>d' \<in> set (fst (WriteTo (file_write room temp) h ds)). d' file = c)"
  unfolding WriteTo_def
  by (rule write_all_invariant [where P = "\<lambda>ds. ds \<noteq> [] \<and> (\<forall>d' \<in> set ds. d' file = c)",
        OF _ assms(2)])
    (use assms(1) in \<open>auto simp: file_write_def Let_def\<close>)

text \<open>Without an error the temporary file holds all of the element's text.\<close>

lemma file_write_complete:
  assumes "WriteTo (file_write room temp) h ds = (ds', n, False)" and "hd ds temp = Some []"
  shows "hd ds' temp = Some (serialize h)"
proof -
  have P: "hd ds' temp \<noteq> None" (is "?P ds'")
  proof -
    have "?P (fst (WriteTo (file_write room temp) h ds))"
      unfolding WriteTo_def
      by (rule write_all_invariant [where P = ?P]) (auto simp: file_write_def Let_def assms(2))
    with assms(1) show ?thesis by simp
  qed
  let ?out = "\<lambda>ds :: disk list. case hd ds temp of None \<Rightarrow> [] | Some c \<Rightarrow> c"
  have "\<exists>k. ?out ds' = ?out ds @ take k (serialize h) \<and> k \<le> length (serialize h) \<and> n = 0 + k \<and>
      (\<not> False \<longrightarrow> k = length (serialize h))"
    using write_all_prefix [of "file_write room temp" ds 0 "concat (map buffered (write_pieces h))"
        ds' n False ?out] assms(1)
    by (fastforce simp: WriteTo_def concat_map_buffered serialize_def file_write_def Let_def)
  with P assms(2) show ?thesis by auto
qed

lemma temp_other: "file @ itoa r \<noteq> file"
  by simp

text \<open>
  The file is replaced as a whole: in every state a crash can leave behind it has its old
  contents or the complete new ones, and which of the two at the end is told by the error.
\<close>

lemma Store_atomic:
  assumes "Store file random room renames h d = (ds, err)"
  shows "\<forall>d' \<in> set ds. d' file = d file \<or> d' file = Some (serialize h)"
    and "ds \<noteq> []"
    and "hd ds file = (if err then d file else Some (serialize h))"
proof -
  have "(\<forall>d' \<in> set ds. d' file = d file \<or> d' file = Some (serialize h)) \<and> ds \<noteq> [] \<and>
    hd ds file = (if err then d file else Some (serialize h))"
  proof (cases random)
    case None
    with assms show ?thesis by (auto simp: Store_def)
  next
    case (Some r)
    let ?temp = "file @ itoa r"
    obtain ds1 n e where w: "WriteTo (file_write room ?temp) h [d(?temp \<mapsto> []), d] = (ds1, n, e)"
      by (cases "WriteTo (file_write room ?temp) h [d(?temp \<mapsto> []), d]")
    have old: "ds1 \<noteq> []" "\<forall>d' \<in> set ds1. d' file = d file"
      using file_write_others [of "?temp" "file" "[d(?temp \<mapsto> []), d]" "d file" room h] w
      by auto
    then have hd: "hd ds1 file = d file" by simp
    have new: "hd ds1 ?temp = Some (serialize h)" if "\<not> e"
      using file_write_complete [of room "?temp" h _ ds1 n] w that by simp
    show ?thesis
      using assms Some w old hd new by (auto simp: Store_def Let_def split: if_splits)
  qed
  then show "\<forall>d' \<in> set ds. d' file = d file \<or> d' file = Some (serialize h)" "ds \<noteq> []"
    "hd ds file = (if err then d file else Some (serialize h))" by auto
qed

section \<open>The database with its background jobs\<close>

text \<open>
  The database, the number of background jobs that have been started and have not yet
  called \<open>Persist\<close>, and the storage. A step is a call of an operation or the moment a
  background job gets the lock.
\<close>

record 's system =
  the_db :: db
  savers :: nat
  storage :: 's

datatype db_event =
    CallAddClone "hash list"
  | CallRemove hash_filter
  | CallReplace hash_filter bool "hash list"
  | CallQuery hash_filter
  | CallPersist
  | RunJob
  | CallShutdown

definition started :: "db \<times> bool \<Rightarrow> 's system \<Rightarrow> 's system" where
  "started r st = st\<lparr>the_db := fst r, savers := savers st + (if snd r then 1 else 0)\<rparr>"

definition stored :: "db \<times> 's \<times> bool \<Rightarrow> 's system \<Rightarrow> 's system" where
  "stored r st = st\<lparr>the_db := fst r, storage := fst (snd r)\<rparr>"

fun db_step :: "(hash \<Rightarrow> 's \<Rightarrow> 's \<times> bool) \<Rightarrow> db_event \<Rightarrow> 's system \<Rightarrow> 's system outcome" where
  "db_step store (CallAddClone items) st =
     and_then (DB_AddClone items (the_db st)) (\<lambda>r. Returns (started r st))"
| "db_step store (CallRemove f) st =
     and_then (DB_Remove f (the_db st)) (\<lambda>r. Returns (started (snd r) st))"
| "db_step store (CallReplace f m items) st =
     and_then (DB_Replace f m items (the_db st)) (\<lambda>r. Returns (started (snd r) st))"
| "db_step store (CallQuery f) st =
     and_then (DB_Query f (the_db st)) (\<lambda>r. Returns st)"
| "db_step store CallPersist st =
     and_then (DB_Persist store (the_db st) (storage st)) (\<lambda>r. Returns (stored r st))"
| "db_step store RunJob st =
     (if savers st = 0 then Blocks
      else and_then (DB_Persist store (the_db st) (storage st))
        (\<lambda>r. Returns (stored r (st\<lparr>savers := savers st - 1\<rparr>))))"
| "db_step store CallShutdown st =
     and_then (DB_Shutdown store (the_db st) (storage st))
       (\<lambda>r. Returns (st\<lparr>the_db := fst r, storage := snd r\<rparr>))"

inductive db_reach :: "(hash \<Rightarrow> 's \<Rightarrow> 's \<times> bool) \<Rightarrow> 's system \<Rightarrow> 's system \<Rightarrow> bool"
  for store :: "hash \<Rightarrow> 's \<Rightarrow> 's \<times> bool" and st0 :: "'s system" where
  start: "db_reach store st0 st0"
| step: "db_reach store st0 st \<Longrightarrow> db_step store e st = Returns st' \<Longrightarrow> db_reach store st0 st'"

lemma and_then_Returns [simp]:
  "and_then r f = Returns y \<longleftrightarrow> (\<exists>x. r = Returns x \<and> f x = Returns y)"
  by (cases r) auto

lemma lock_Returns [simp]: "lock d = Returns d' \<longleftrightarrow> \<not> down d \<and> d' = d"
  by (auto simp: lock_def)

lemmas db_ops = DB_AddClone_def DB_Remove_def DB_Replace_def DB_Query_def DB_Persist_def
  DB_Shutdown_def persistWithLock_def persistJob_def started_def stored_def Let_def
  case_prod_beta

text \<open>
  What the background jobs maintain. A job is pending whenever starting one is blocked, so
  no change is left waiting for a job that never comes.
\<close>

definition jobs_pending :: "'s system \<Rightarrow> bool" where
  "jobs_pending st \<longleftrightarrow>
     storer (the_db st) \<and> (\<not> down (the_db st) \<and> blocked (the_db st) \<longrightarrow> 0 < savers st)"

lemma step_jobs_pending:
  "db_step store e st = Returns st' \<Longrightarrow> jobs_pending st \<Longrightarrow> jobs_pending st'"
  by (cases e) (auto simp: db_ops jobs_pending_def split: if_splits prod.splits)

text \<open>
  The interface of a storer: what it reports as stored can be read back as an image of the
  element, and a reported error means that the storage still holds what it held.
\<close>

locale reliable_storer =
  fixes store :: "hash \<Rightarrow> 's \<Rightarrow> 's \<times> bool"
    and image :: "hash \<Rightarrow> 'c" and held :: "'s \<Rightarrow> 'c option"
  assumes stored_ok: "store h s = (s', False) \<Longrightarrow> held s' = Some (image h)"
    and stored_err: "store h s = (s', True) \<Longrightarrow> held s' = held s"
begin

text \<open>Nothing is lost: an item set that is not saved has a job that will save it.\<close>

lemma run_saves:
  assumes "db_step store RunJob st = Returns st'" and "storer (the_db st)"
    and "\<not> snd (store (data (the_db st)) (storage st))"
  shows "held (storage st') = Some (image (data (the_db st')))"
    and "data (the_db st') = data (the_db st)"
  using assms stored_ok
  by (auto simp: db_ops split: if_splits prod.splits intro: prod_eqI)

lemma no_lost_update:
  assumes "db_reach store st0 st"
    and "\<And>h s. \<not> snd (store h s)"
    and "jobs_pending st0" and "held (storage st0) = Some (image (data (the_db st0)))"
  shows "jobs_pending st \<and>
    (savers st = 0 \<or> down (the_db st) \<longrightarrow> held (storage st) = Some (image (data (the_db st))))"
  using assms(1)
proof (induction rule: db_reach.induct)
  case start
  with assms show ?case by simp
next
  case (step st e st')
  have ok: "held s' = Some (image h)" if "store h s = (s', b)" for h s s' b
    using stored_ok [of h s s'] assms(2) [of h s] that by (cases b) auto
  from step step_jobs_pending have "jobs_pending st'" by blast
  moreover from step have "savers st' = 0 \<or> down (the_db st') \<longrightarrow>
      held (storage st') = Some (image (data (the_db st')))"
    by (cases e) (auto simp: db_ops jobs_pending_def split: if_splits prod.splits dest!: ok)
  ultimately show ?case ..
qed

text \<open>A step that does not store leaves the storage alone; one that fails leaves what it held.\<close>

lemma failed_store_keeps:
  assumes "db_step store e st = Returns st'" and "\<And>h s. snd (store h s)"
  shows "held (storage st') = held (storage st)"
proof -
  have keep: "held s' = held s" if "store h s = (s', b)" for h s s' b
    using stored_err [of h s s'] assms(2) [of h s] that by (cases b) auto
  with assms(1) show ?thesis
    by (cases e) (auto simp: db_ops split: if_splits prod.splits dest!: keep)
qed

end

interpretation fs: reliable_storer "file_store file random room renames" serialize "\<lambda>d. d file"
  for "file" random room renames
proof
  fix h s s'
  assume "file_store file random room renames h s = (s', False)"
  then show "s' file = Some (serialize h)"
    using Store_atomic [of "file" "random s" "room s" "renames s" h s]
    by (auto simp: file_store_def split: prod.splits)
next
  fix h s s'
  assume "file_store file random room renames h s = (s', True)"
  then show "s' file = s file"
    using Store_atomic [of "file" "random s" "room s" "renames s" h s]
    by (auto simp: file_store_def split: prod.splits)
qed

section \<open>Properties\<close>

text \<open>C8: Saving to a file is atomic. Whatever the operating system refuses (creating the
  temporary file, some write, the rename), in every state of the file system along the way
  the database file has its old contents or the complete new ones, and in the end it has
  the new ones exactly when no error is reported.\<close>

theorem saving_is_atomic:
  assumes "Store file random room renames h d = (ds, err)"
  shows "(\<forall>d' \<in> set ds. d' file = d file \<or> d' file = Some (serialize h)) \<and>
    hd ds file = (if err then d file else Some (serialize h))"
  using Store_atomic [OF assms] by blast

definition example_item :: hash where
  "example_item = Hash ''a'' [Txt ''x'']"

theorem saving_is_atomic_witness:
  "case Store ''db'' (Some 1) (\<lambda>c. 3 - length c) True example_item [''db'' \<mapsto> ''old''] of
     (ds, err) \<Rightarrow>
       list_all (\<lambda>d'. d' ''db'' = Some ''old'' \<or> d' ''db'' = Some (serialize example_item)) ds \<and>
       hd ds ''db'' = (if err then Some ''old'' else Some (serialize example_item))"
proof -
  obtain ds err where s: "Store ''db'' (Some 1) (\<lambda>c. 3 - length c) True example_item
      [''db'' \<mapsto> ''old''] = (ds, err)"
    by (cases "Store ''db'' (Some 1) (\<lambda>c. 3 - length c) True example_item [''db'' \<mapsto> ''old'']")
  from saving_is_atomic [OF s] show ?thesis
    unfolding s by (simp add: list_all_iff)
qed


definition ample_store :: "hash \<Rightarrow> disk \<Rightarrow> disk \<times> bool" where
  "ample_store = file_store ''db'' (\<lambda>d. Some 0) (\<lambda>d c. 2000) (\<lambda>d. True)"

lemma write_all_ok:
  "(\<And>w s. s \<in> set ss \<Longrightarrow> \<not> snd (snd (wr w s))) \<Longrightarrow> \<not> snd (snd (write_all wr w n ss))"
proof (induction ss arbitrary: w n)
  case Nil
  then show ?case by simp
next
  case (Cons s ss)
  obtain w' k err where wr: "wr w s = (w', k, err)" by (cases "wr w s")
  with Cons.prems [of s w] have "\<not> err" by simp
  with wr Cons show ?case by simp
qed

lemma ample_store_ok: "\<not> snd (ample_store h s)"
proof -
  have "\<not> snd (snd (WriteTo (file_write (\<lambda>c. 2000) t) h ds))" for t ds
    unfolding WriteTo_def
    by (rule write_all_ok)
      (force simp: file_write_def Let_def bufsize_def dest!: buffered_chunks)
  then show ?thesis
    by (auto simp: ample_store_def file_store_def Store_def Let_def split: prod.splits)
       (metis snd_conv)+
qed

definition example_system :: "disk system" where
  "example_system = \<lparr>the_db = \<lparr>data = example_item, storer = True, blocked = False, down = False\<rparr>,
     savers = 0, storage = [''db'' \<mapsto> serialize example_item]\<rparr>"


text \<open>Once a background job has run without an error, the file holds the items that
  were current when it got the lock, so a change is saved by the job it started.\<close>

theorem background_job_saves:
  assumes "db_step (file_store file random room renames) RunJob st = Returns st'"
    and "storer (the_db st)"
    and "\<not> snd (file_store file random room renames (data (the_db st)) (storage st))"
  shows "storage st' file = Some (serialize (data (the_db st))) \<and> blocked (the_db st') = False \<and>
    Suc (savers st') = savers st"
  using fs.run_saves [OF assms] assms(1,2)
  by (auto simp: db_ops split: if_splits prod.splits)

theorem background_job_saves_witness:
  "\<exists>st'. db_step ample_store RunJob (example_system\<lparr>savers := 1\<rparr>) = Returns st' \<and>
    storage st' ''db'' = Some (serialize example_item)"
proof -
  obtain st' where st': "db_step ample_store RunJob (example_system\<lparr>savers := 1\<rparr>) = Returns st'"
    by (simp add: example_system_def db_ops lock_def)
  then have "storage st' ''db'' = Some (serialize example_item)"
    using background_job_saves [of "''db''" "\<lambda>d. Some 0" "\<lambda>d c. 2000" "\<lambda>d. True"
        "example_system\<lparr>savers := 1\<rparr>" st'] ample_store_ok
    unfolding ample_store_def by (simp add: example_system_def)
  with st' show ?thesis by blast
qed

end
