(* ===== verification/Base64.thy ===== *)
theory Base64
  imports GoStrings
begin

text \<open>
  \<^verbatim>\<open>base64.StdEncoding\<close> of Go's library, with which the job database encodes the message a
  job stands for (\<open>JobUpdateXMLMessage\<close> in go-susi/db/jobdb.go). Three bytes are four digits
  of six bits; a rest of one or two bytes is padded with \<open>=\<close>.
\<close>

definition b64_char :: "nat \<Rightarrow> char" where
  "b64_char n = char_of
     (if n < 26 then 65 + n else if n < 52 then 71 + n else if n < 62 then n - 4
      else if n = 62 then 43 else (47::nat))"

definition b64_value :: "char \<Rightarrow> nat option" where
  "b64_value c =
     (let n = byte c in
      if 65 \<le> n \<and> n \<le> 90 then Some (n - 65)
      else if 97 \<le> n \<and> n \<le> 122 then Some (n - 71)
      else if 48 \<le> n \<and> n \<le> 57 then Some (n + 4)
      else if n = 43 then Some 62
      else if n = 47 then Some 63
      else None)"

fun EncodeToString :: "string \<Rightarrow> string" where
  "EncodeToString [] = []"
| "EncodeToString [a] =
     [b64_char (byte a div 4), b64_char (byte a mod 4 * 16), CHR ''='', CHR ''='']"
| "EncodeToString [a, b] =
     [b64_char (byte a div 4), b64_char (byte a mod 4 * 16 + byte b div 16),
      b64_char (byte b mod 16 * 4), CHR ''='']"
| "EncodeToString (a # b # c # s) =
     b64_char (byte a div 4) # b64_char (byte a mod 4 * 16 + byte b div 16) #
     b64_char (byte b mod 16 * 4 + byte c div 64) # b64_char (byte c mod 64) #
     EncodeToString s"

text \<open>The decoder of the readers of these messages; None is a corrupt input.\<close>

fun DecodeString :: "string \<Rightarrow> string option" where
  "DecodeString [] = Some []"
| "DecodeString (p # q # r # t # s) =
     (case (b64_value p, b64_value q, b64_value r, b64_value t) of
        (Some i, Some j, Some k, Some l) \<Rightarrow>
          map_option (\<lambda>u. char_of (i * 4 + j div 16) # char_of (j mod 16 * 16 + k div 4) #
            char_of (k mod 4 * 64 + l) # u) (DecodeString s)
      | (Some i, Some j, Some k, None) \<Rightarrow>
          if t = CHR ''='' \<and> s = []
          then Some [char_of (i * 4 + j div 16), char_of (j mod 16 * 16 + k div 4)] else None
      | (Some i, Some j, None, _) \<Rightarrow>
          if r = CHR ''='' \<and> t = CHR ''='' \<and> s = [] then Some [char_of (i * 4 + j div 16)]
          else None
      | _ \<Rightarrow> None)"
| "DecodeString _ = None"

lemma b64_value_char [simp]: "n < 64 \<Longrightarrow> b64_value (b64_char n) = Some n"
  by (auto simp: b64_value_def b64_char_def Let_def)

lemma b64_value_pad [simp]: "b64_value (CHR ''='') = None"
  by (simp add: b64_value_def byte_def)

lemma byte_div [simp]: "byte c div 4 < 64" "byte c div 16 < 16" "byte c div 64 < 4"
  using byte_less [of c] by (simp_all add: less_mult_imp_div_less)

lemma byte_parts [simp]:
  "byte c mod 4 * 16 < 64" "byte c mod 16 * 4 < 64"
  "byte a mod 4 * 16 + byte c div 16 < 64" "byte a mod 16 * 4 + byte c div 64 < 64"
proof -
  have "byte c mod 4 \<le> 3" "byte a mod 4 \<le> 3" "byte c mod 16 \<le> 15" "byte a mod 16 \<le> 15"
    by (simp_all add: mod_less_divisor less_Suc_eq_le [symmetric])
  with byte_div [of c] show "byte c mod 4 * 16 < 64" "byte c mod 16 * 4 < 64"
    "byte a mod 4 * 16 + byte c div 16 < 64" "byte a mod 16 * 4 + byte c div 64 < 64"
    by linarith+
qed

lemma char_of_byte [simp]: "char_of (byte c) = c"
  by (simp add: byte_def)

lemma split_byte [simp]:
  "byte c div 16 div 16 = 0" "byte c div 64 div 4 = 0"
  "byte c div 16 mod 16 = byte c div 16" "byte c div 64 mod 4 = byte c div 64"
  "byte c div 16 * 16 + byte c mod 16 = byte c" "byte c div 64 * 64 + byte c mod 64 = byte c"
  by simp_all

lemma Decode_Encode: "DecodeString (EncodeToString s) = Some s"
  by (induction s rule: EncodeToString.induct) simp_all

end
