(* ===== verification/ClientDB.thy ===== *)
theory ClientDB
  imports HashDB
begin

text \<open>
  The client database of go-susi/db/clientdb.go: the clients known to this server, its own
  and those of its peers, one entry per client, and the throttling of clients that register
  too often. \<open>server\<close> is config.ServerSourceAddress; times are in seconds.
\<close>

section \<open>The database\<close>

text \<open>
  \<open>may_have\<close> is ClientsWeMayHave; \<open>checks\<close> are the addresses of clients that were taken over
  by another server and will be asked to confirm that, some time later.
\<close>

record clientdb =
  clientDB :: hash
  may_have :: hash
  checks :: "string list"

definition by_address :: "string \<Rightarrow> string \<Rightarrow> hash_filter" where
  "by_address column addr =
     (if Index addr (CHR '':'') \<noteq> None then FilterSimple [column, addr]
      else FilterRegexp column (''^'' @ QuoteMeta (addr @ '':'') @ ''[0-9]+$''))"

text \<open>
  \<open>ClientsInit\<close> on the contents of the saved database (None if there is none): our own
  clients are taken out until they have answered a ping.
\<close>

definition ClientsInit :: "string \<Rightarrow> hash option \<Rightarrow> clientdb" where
  "ClientsInit server saved =
     (case saved of
        None \<Rightarrow> \<lparr>clientDB = NewHash ''clientdb'' [], may_have = NewHash ''clientdb'' [], checks = []\<rparr>
      | Some h \<Rightarrow>
          case Remove (accepts (FilterSimple [''source'', server])) h of
            (own, rest) \<Rightarrow> \<lparr>clientDB = rest, may_have = own, checks = []\<rparr>)"

definition ClientWithMAC :: "string \<Rightarrow> clientdb \<Rightarrow> hash option" where
  "ClientWithMAC macaddress st =
     First ''xml'' (Query (accepts (FilterSimple [''macaddress'', macaddress])) (clientDB st))"

definition ClientWithAddress :: "string \<Rightarrow> clientdb \<Rightarrow> hash option" where
  "ClientWithAddress addr st =
     First ''xml'' (Query (accepts (by_address ''client'' addr)) (clientDB st))"

definition ClientsRegisteredAtThisServer :: "string \<Rightarrow> clientdb \<Rightarrow> hash" where
  "ClientsRegisteredAtThisServer server st =
     Query (accepts (FilterSimple [''source'', server])) (clientDB st)"

definition ClientsQuery :: "hash_filter \<Rightarrow> clientdb \<Rightarrow> hash" where
  "ClientsQuery f st = Query (accepts f) (clientDB st)"

definition ClientKeys :: "string \<Rightarrow> clientdb \<Rightarrow> string list" where
  "ClientKeys addr st =
     concat (map (get1 ''key'')
       (iter_named ''xml'' (kids (Query (accepts (by_address ''client'' addr)) (clientDB st)))))"

definition ClientKeysForAllClients :: "clientdb \<Rightarrow> string list" where
  "ClientKeysForAllClients st = column_values ''key'' (clientDB st)"

definition same_client :: "string \<Rightarrow> string \<Rightarrow> hash_filter" where
  "same_client macaddress caddr =
     FilterOr [FilterSimple [''macaddress'', macaddress], FilterSimple [''client'', caddr]]"

definition with_previous_key :: "string list \<Rightarrow> hash \<Rightarrow> hash" where
  "with_previous_key keys entry =
     (case keys of [] \<Rightarrow> entry | k # _ \<Rightarrow> Add ''key'' [k] entry)"

text \<open>The addresses of our own clients among the replaced entries.\<close>

definition taken_away :: "string \<Rightarrow> hash \<Rightarrow> hash \<Rightarrow> string list" where
  "taken_away server client old =
     (if text_of ''source'' client \<noteq> server
      then map (text_of ''client'')
             (filter (\<lambda>e. text_of ''source'' e = server) (children old))
      else [])"

definition ClientUpdate :: "string \<Rightarrow> hash \<Rightarrow> clientdb \<Rightarrow> clientdb result" where
  "ClientUpdate server client st =
     (let macaddress = text_of ''macaddress'' client; caddr = text_of ''client'' client in
      if macaddress = [] then Inl ''ClientUpdate() called without <macaddress>''
      else if caddr = [] then Inl ''ClientUpdate() called without <client>''
      else
        (let client = with_previous_key (ClientKeys caddr st) client
         in case replace_items (same_client macaddress caddr) False [client] (clientDB st) of
              (old, db) \<Rightarrow>
                Inr (st\<lparr>clientDB := db, checks := checks st @ taken_away server client old\<rparr>)))"

text \<open>
  What happens when the delay after which a lost client is checked is over: the message
  that is sent to it, if it has not come back.
\<close>

definition check_lost :: "string \<Rightarrow> string \<Rightarrow> clientdb \<Rightarrow> (string \<times> string) option" where
  "check_lost server addr st =
     (case ClientWithAddress addr st of
        Some c \<Rightarrow> (if text_of ''source'' c = server then None
                   else Some (addr, ''<xml><header>deregistered</header><source>'' @ server @
                     ''</source><target>'' @ addr @ ''</target></xml>''))
      | None \<Rightarrow> Some (addr, ''<xml><header>deregistered</header><source>'' @ server @
                     ''</source><target>'' @ addr @ ''</target></xml>''))"

section \<open>Throttling\<close>

record hia_entry =
  last_seen :: int
  strikes :: int

type_synonym hia_db = "string \<Rightarrow> hia_entry option"

definition ClientThrottle :: "int \<Rightarrow> string \<Rightarrow> hia_db \<Rightarrow> hia_db \<times> int" where
  "ClientThrottle now macaddress db =
     (let hia = (case db macaddress of None \<Rightarrow> \<lparr>last_seen = now, strikes = -1\<rparr> | Some h \<Rightarrow> h);
          n = (if now - last_seen hia > 120 then 0 else strikes hia + 1)
      in (db(macaddress \<mapsto> \<lparr>last_seen = now, strikes = n\<rparr>), n))"

definition ClientUnthrottle :: "int \<Rightarrow> string \<Rightarrow> hia_db \<Rightarrow> hia_db" where
  "ClientUnthrottle now macaddress db =
     (case db macaddress of
        None \<Rightarrow> db
      | Some h \<Rightarrow> db(macaddress \<mapsto> \<lparr>last_seen = now, strikes = 0\<rparr>))"

text \<open>The calls of one client at the given times, and the strikes of the last of them.\<close>

fun throttle_all :: "string \<Rightarrow> int list \<Rightarrow> hia_db \<Rightarrow> hia_db \<times> int list" where
  "throttle_all mac [] db = (db, [])"
| "throttle_all mac (t # ts) db =
     (case ClientThrottle t mac db of
        (db', n) \<Rightarrow> case throttle_all mac ts db' of (db'', ns) \<Rightarrow> (db'', n # ns))"

section \<open>Uniqueness\<close>

text \<open>
  Values are compared without regard to case, so this is what unique means here: no two
  entries have the same MAC address or the same client address up to case.
\<close>

definition entry_ok :: "hash \<Rightarrow> bool" where
  "entry_ok e \<longleftrightarrow> tidy e \<and> Name e = ''xml'' \<and>
     single ''macaddress'' e \<and> get1 ''macaddress'' e \<noteq> [] \<and>
     single ''client'' e \<and> get1 ''client'' e \<noteq> []"

definition mac_key :: "hash \<Rightarrow> string" where
  "mac_key e = ToLower (text_of ''macaddress'' e)"

definition client_key :: "hash \<Rightarrow> string" where
  "client_key e = ToLower (text_of ''client'' e)"

definition clients_ok :: "hash \<Rightarrow> bool" where
  "clients_ok d \<longleftrightarrow> list_all entry_ok (children d) \<and>
     distinct (map mac_key (children d)) \<and> distinct (map client_key (children d))"

lemma get1_Add_other [simp]: "t \<noteq> u \<Longrightarrow> get1 t (Add u vs h) = get1 t h"
  by (simp add: get1_eq)

lemma get1_Add_same [simp]: "get1 t (Add t vs h) = get1 t h @ [concat vs]"
  by (simp add: get1_eq)

lemma with_previous_key_other:
  "t \<noteq> ''key'' \<Longrightarrow> get1 t (with_previous_key ks e) = get1 t e"
  by (simp add: with_previous_key_def split: list.split)

lemma with_previous_key_other_text:
  "t \<noteq> ''key'' \<Longrightarrow> text_of t (with_previous_key ks e) = text_of t e"
  by (simp add: text_of_eq with_previous_key_other)

lemma with_previous_key_keys:
  "get1 ''key'' (with_previous_key ks e) = get1 ''key'' e @ take 1 ks"
  by (simp add: with_previous_key_def split: list.split)

lemma with_previous_key_Name [simp]: "Name (with_previous_key ks e) = Name e"
  by (simp add: with_previous_key_def split: list.split)

lemma same_client_accepts:
  "entry_ok e \<Longrightarrow> accepts (same_client mac addr) e \<longleftrightarrow>
    mac_key e = ToLower mac \<or> client_key e = ToLower addr"
  by (simp add: entry_ok_def same_client_def mac_key_def client_key_def single_text_of)

lemma ClientUpdate_db:
  assumes "ClientUpdate server client st = Inr st'"
  obtains c where "c = with_previous_key (ClientKeys (text_of ''client'' client) st) client"
    and "children (clientDB st') = filter (\<lambda>e. \<not> accepts (same_client
        (text_of ''macaddress'' client) (text_of ''client'' client)) e) (children (clientDB st)) @
      [Clone c]"
    and "checks st' = checks st @ taken_away server c (fst (replace_items (same_client
        (text_of ''macaddress'' client) (text_of ''client'' client)) False [c] (clientDB st)))"
  using assms by (auto simp: ClientUpdate_def Let_def case_prod_beta split: if_splits)

lemma ClientUpdate_ok:
  assumes upd: "ClientUpdate server client st = Inr st'" and ok: "clients_ok (clientDB st)"
    and "Name client = ''xml''" and "single ''macaddress'' client" and "single ''client'' client"
  shows "clients_ok (clientDB st')"
proof -
  let ?mac = "text_of ''macaddress'' client" and ?addr = "text_of ''client'' client"
  obtain c where c: "c = with_previous_key (ClientKeys ?addr st) client"
    and ch: "children (clientDB st') =
      filter (\<lambda>e. \<not> accepts (same_client ?mac ?addr) e) (children (clientDB st)) @ [Clone c]"
    using upd by (rule ClientUpdate_db)
  have ne: "?mac \<noteq> []" "?addr \<noteq> []"
    using upd by (auto simp: ClientUpdate_def Let_def split: if_splits)
  have cok: "entry_ok (Clone c)"
    using assms(3-5) ne
    by (auto simp: entry_ok_def c single_def with_previous_key_other text_of_eq)
  have keys: "mac_key (Clone c) = ToLower ?mac" "client_key (Clone c) = ToLower ?addr"
    by (simp_all add: mac_key_def client_key_def c with_previous_key_other_text)
  have sel: "accepts (same_client ?mac ?addr) e \<longleftrightarrow>
      mac_key e = mac_key (Clone c) \<or> client_key e = client_key (Clone c)"
    if "e \<in> set (children (clientDB st))" for e
    using same_client_accepts [of e ?mac ?addr] ok that keys
    by (simp add: clients_ok_def list_all_iff del: set_elems)
  have db: "children (clientDB st') = children (add_all [c]
      (snd (Remove (accepts (same_client ?mac ?addr)) (clientDB st))))"
    by (simp add: ch)
  have "distinct (map mac_key (children (clientDB st')))"
    "distinct (map client_key (children (clientDB st')))"
    unfolding db using ok sel
    by (intro hs.keys_distinct_replace; simp add: clients_ok_def del: set_elems)+
  moreover have "list_all entry_ok (children (clientDB st'))"
    using ok cok by (auto simp: ch clients_ok_def list_all_iff)
  ultimately show ?thesis by (simp add: clients_ok_def)
qed

lemma First_Query_hd:
  assumes "list_all (\<lambda>e. tidy e \<and> Name e = n) (children d)"
  shows "First n (Query p d) = find p (children d)"
proof -
  have "list_all (\<lambda>e. tidy e \<and> Name e = n) xs \<Longrightarrow>
      find (\<lambda>e. Name e = n) (map Clone (filter p xs)) = find p xs" for xs
    by (induction xs) auto
  with assms show ?thesis by (simp add: First_eq_find)
qed

lemma find_unique:
  "x \<in> set xs \<Longrightarrow> p x \<Longrightarrow> (\<And>y. y \<in> set xs \<Longrightarrow> p y \<Longrightarrow> y = x) \<Longrightarrow> find p xs = Some x"
proof (induction xs)
  case (Cons a xs)
  show ?case
  proof (cases "p a")
    case True
    with Cons.prems(3) [of a] show ?thesis by simp
  next
    case False
    with Cons.prems(1,2) have "x \<in> set xs" by auto
    then have "find p xs = Some x" using Cons.prems(2,3) by (intro Cons.IH) simp_all
    with False show ?thesis by simp
  qed
qed simp

lemma distinct_map_eq: "distinct (map f xs) \<Longrightarrow> x \<in> set xs \<Longrightarrow> y \<in> set xs \<Longrightarrow> f x = f y \<Longrightarrow> x = y"
  by (auto simp: distinct_map dest: inj_onD)

lemma entry_by_mac:
  assumes "clients_ok (clientDB st)" and "e \<in> set (children (clientDB st))"
    and "mac_key e = ToLower mac"
  shows "ClientWithMAC mac st = Some e"
proof -
  have "list_all (\<lambda>e. tidy e \<and> Name e = ''xml'') (children (clientDB st))"
    using assms(1) by (auto simp: clients_ok_def entry_ok_def list_all_iff)
  then have "ClientWithMAC mac st = find (accepts (FilterSimple [''macaddress'', mac])) (children (clientDB st))"
    by (simp only: ClientWithMAC_def First_Query_hd)
  also have "\<dots> = Some e"
  proof (rule find_unique [OF assms(2)])
    have acc: "accepts (FilterSimple [''macaddress'', mac]) x \<longleftrightarrow> mac_key x = ToLower mac"
      if "x \<in> set (children (clientDB st))" for x
      using assms(1) that
      by (simp add: clients_ok_def list_all_iff entry_ok_def mac_key_def single_text_of)
    then show "accepts (FilterSimple [''macaddress'', mac]) e" using assms by blast
    show "y = e" if "y \<in> set (children (clientDB st))"
      "accepts (FilterSimple [''macaddress'', mac]) y" for y
      using that acc assms distinct_map_eq [of mac_key "children (clientDB st)" y e]
      by (simp add: clients_ok_def del: set_elems)
  qed
  finally show ?thesis .
qed

section \<open>Properties\<close>

text \<open>The client database keeps one entry per client. An update with a MAC address and a
  client address (one each) removes every entry with either of them and stores the new one,
  so afterwards no two entries share a MAC address or a client address up to case; the new
  entry is found under its MAC address, all entries of other clients are untouched, and its
  keys are those of the update followed by the current key of the replaced client.\<close>

theorem client_update_keeps_unique:
  assumes "ClientUpdate server client st = Inr st'" and "clients_ok (clientDB st)"
    and "Name client = ''xml''" and "single ''macaddress'' client" and "single ''client'' client"
  shows "clients_ok (clientDB st') \<and>
    (\<exists>e. ClientWithMAC (text_of ''macaddress'' client) st' = Some e \<and>
      text_of ''client'' e = text_of ''client'' client \<and>
      text_of ''source'' e = text_of ''source'' client \<and>
      get1 ''key'' e = get1 ''key'' client @ take 1 (ClientKeys (text_of ''client'' client) st) \<and>
      set (children (clientDB st')) = insert e
        {x \<in> set (children (clientDB st)).
          mac_key x \<noteq> ToLower (text_of ''macaddress'' client) \<and>
          client_key x \<noteq> ToLower (text_of ''client'' client)})"
proof -
  let ?mac = "text_of ''macaddress'' client" and ?addr = "text_of ''client'' client"
  obtain c where c: "c = with_previous_key (ClientKeys ?addr st) client"
    and ch: "children (clientDB st') =
      filter (\<lambda>e. \<not> accepts (same_client ?mac ?addr) e) (children (clientDB st)) @ [Clone c]"
    using assms(1) by (rule ClientUpdate_db)
  have ok: "clients_ok (clientDB st')" by (rule ClientUpdate_ok [OF assms])
  have "mac_key (Clone c) = ToLower ?mac" by (simp add: mac_key_def c with_previous_key_other_text)
  then have found: "ClientWithMAC ?mac st' = Some (Clone c)"
    using ch by (intro entry_by_mac [OF ok]) (simp_all del: set_elems)
  have "set (children (clientDB st')) = insert (Clone c)
      {x \<in> set (children (clientDB st)). mac_key x \<noteq> ToLower ?mac \<and> client_key x \<noteq> ToLower ?addr}"
    using assms(2) same_client_accepts [of _ ?mac ?addr]
    unfolding ch by (auto simp: clients_ok_def list_all_iff)
  with ok found show ?thesis
    by (intro conjI exI [of _ "Clone c"])
      (simp_all add: c with_previous_key_other_text with_previous_key_keys del: set_elems)
qed

definition example_client :: "string \<Rightarrow> string \<Rightarrow> string \<Rightarrow> hash" where
  "example_client mac addr key = Hash ''xml'' [Sub (Hash ''source'' [Txt ''me'']),
     Sub (Hash ''macaddress'' [Txt mac]), Sub (Hash ''client'' [Txt addr]),
     Sub (Hash ''key'' [Txt key])]"

definition example_clients :: clientdb where
  "example_clients = \<lparr>clientDB = Hash ''clientdb'' [Sub (example_client ''aa'' ''h:1'' ''k1''),
     Sub (example_client ''bb'' ''h:2'' ''k2'')], may_have = Hash ''clientdb'' [], checks = []\<rparr>"

lemma example_client_fields:
  "get1 t (example_client m a k) = (if t = ''source'' then [''me''] else if t = ''macaddress''
     then [m] else if t = ''client'' then [a] else if t = ''key'' then [k] else [])"
  by (simp add: example_client_def get1_eq own_text_def TextFragments_def)

lemma example_clients_ok: "clients_ok (clientDB example_clients)"
proof -
  have "entry_ok (example_client m a k)" if "m \<noteq> []" "a \<noteq> []" "k \<noteq> []" for m a k
    using that by (simp add: entry_ok_def single_def example_client_fields)
      (simp add: example_client_def)
  moreover have "ToLower ''aa'' \<noteq> ToLower ''bb''" "ToLower ''h:1'' \<noteq> ToLower ''h:2''" by code_simp+
  ultimately show ?thesis
    by (simp add: clients_ok_def example_clients_def mac_key_def client_key_def text_of_eq
        example_client_fields)
qed

theorem client_update_keeps_unique_witness:
  "\<exists>st'. ClientUpdate ''me'' (example_client ''bb'' ''h:1'' ''k3'') example_clients = Inr st' \<and>
    clients_ok (clientDB st') \<and>
    (\<exists>e. ClientWithMAC ''bb'' st' = Some e \<and> get1 ''key'' e = ''k3'' #
      take 1 (ClientKeys ''h:1'' example_clients))"
proof -
  let ?c = "example_client ''bb'' ''h:1'' ''k3''"
  obtain st' where st': "ClientUpdate ''me'' ?c example_clients = Inr st'"
    by (simp add: ClientUpdate_def Let_def case_prod_beta text_of_eq example_client_fields)
  have t: "text_of ''macaddress'' ?c = ''bb''" "text_of ''client'' ?c = ''h:1''" "get1 ''key'' ?c = [''k3'']"
    by (simp_all add: text_of_eq example_client_fields)
  have "Name ?c = ''xml''" "single ''macaddress'' ?c" "single ''client'' ?c"
    by (simp_all add: single_def example_client_fields) (simp add: example_client_def)
  from client_update_keeps_unique [OF st' example_clients_ok this] st' show ?thesis
    unfolding t by auto
qed

text \<open>Throttling counts. A client that is not known yet and then sends here_i_am messages
  with at most two minutes between one and the next gets 0, 1, 2, ... strikes; after a
  longer pause the count starts again at 0, whatever it was.\<close>

theorem strikes_count_up:
  assumes "db mac = None" and "\<forall>i. Suc i < length ts \<longrightarrow> ts ! Suc i - ts ! i \<le> 120"
  shows "snd (throttle_all mac ts db) = map int [0..<length ts] \<and>
    (\<forall>now e db'. db' mac = Some e \<longrightarrow> now - last_seen e > 120 \<longrightarrow> snd (ClientThrottle now mac db') = 0)"
proof -
  have step: "db' mac = Some \<lparr>last_seen = t, strikes = int n\<rparr> \<Longrightarrow>
      \<forall>i. Suc i < length (t # ts) \<longrightarrow> (t # ts) ! Suc i - (t # ts) ! i \<le> 120 \<Longrightarrow>
      snd (throttle_all mac ts db') = map int [Suc n..<Suc n + length ts]" for ts t n db'
  proof (induction ts arbitrary: t n db')
    case Nil
    then show ?case by simp
  next
    case (Cons u us)
    from Cons.prems(2) have u: "u - t \<le> 120" by (metis Suc_less_eq length_Cons nth_Cons_0 nth_Cons_Suc zero_less_Suc)
    have rest: "\<forall>i. Suc i < length (u # us) \<longrightarrow> (u # us) ! Suc i - (u # us) ! i \<le> 120"
      using Cons.prems(2) by (metis Suc_less_eq length_Cons nth_Cons_Suc)
    have "snd (throttle_all mac us (db'(mac \<mapsto> \<lparr>last_seen = u, strikes = int (Suc n)\<rparr>))) =
        map int [Suc (Suc n)..<Suc (Suc n) + length us]"
      by (rule Cons.IH [OF _ rest]) simp
    moreover have "ClientThrottle u mac db' =
        (db'(mac \<mapsto> \<lparr>last_seen = u, strikes = int (Suc n)\<rparr>), int (Suc n))"
      using Cons.prems(1) u by (simp add: ClientThrottle_def Let_def add.commute)
    ultimately show ?case by (simp add: case_prod_beta upt_conv_Cons del: upt_Suc)
  qed
  have "snd (throttle_all mac ts db) = map int [0..<length ts]"
  proof (cases ts)
    case (Cons t us)
    have "ClientThrottle t mac db = (db(mac \<mapsto> \<lparr>last_seen = t, strikes = int 0\<rparr>), 0)"
      using assms(1) by (simp add: ClientThrottle_def Let_def)
    moreover have "snd (throttle_all mac us (db(mac \<mapsto> \<lparr>last_seen = t, strikes = int 0\<rparr>))) =
        map int [Suc 0..<Suc 0 + length us]"
      by (rule step) (use assms(2) Cons in auto)
    ultimately show ?thesis by (simp add: Cons case_prod_beta upt_conv_Cons del: upt_Suc)
  qed simp
  then show ?thesis by (simp add: ClientThrottle_def Let_def)
qed

theorem strikes_count_up_witness:
  "snd (throttle_all ''aa'' [100, 220, 340] Map.empty) = [0, 1, 2]"
proof -
  have "\<forall>i. Suc i < length [100, 220, 340::int] \<longrightarrow>
      [100, 220, 340::int] ! Suc i - [100, 220, 340] ! i \<le> 120"
    by (auto simp: less_Suc_eq)
  from strikes_count_up [of Map.empty "''aa''", OF _ this] show ?thesis by (simp add: upt_rec)
qed

end
