(* ===== verification/ServerDB.thy ===== *)
theory ServerDB
  imports ClientDB
begin

text \<open>
  The server database of go-susi/db/serverdb.go: the peers of this server with their
  encryption keys, one entry per address.
\<close>

section \<open>Addresses\<close>

text \<open>
  \<open>net.SplitHostPort\<close> of Go's library: the port is behind the last colon, a host that
  contains colons stands in brackets.
\<close>

definition last_index :: "string \<Rightarrow> char \<Rightarrow> nat option" where
  "last_index s c = (case Index (rev s) c of None \<Rightarrow> None | Some i \<Rightarrow> Some (length s - Suc i))"

definition SplitHostPort :: "string \<Rightarrow> (string \<times> string) result" where
  "SplitHostPort hostport =
     (case last_index hostport (CHR '':'') of
        None \<Rightarrow> Inl ''missing port in address''
      | Some i \<Rightarrow>
          let port = drop (Suc i) hostport;
              bad = (\<lambda>s c. c \<in> set s)
          in if HasPrefix hostport ''['' then
               (case Index hostport (CHR '']'') of
                  None \<Rightarrow> Inl ''missing ']' in address''
                | Some e \<Rightarrow>
                    if Suc e = i then
                      (let host = take (e - 1) (drop 1 hostport) in
                       if bad (drop 1 hostport) (CHR ''['') then Inl ''unexpected '[' in address''
                       else if bad (drop (Suc e) hostport) (CHR '']'')
                       then Inl ''unexpected ']' in address''
                       else Inr (host, port))
                    else if Suc e = length hostport then Inl ''missing port in address''
                    else Inl ''too many colons in address'')
             else
               (let host = take i hostport in
                if bad host (CHR '':'') then Inl ''too many colons in address''
                else if bad hostport (CHR ''['') then Inl ''unexpected '[' in address''
                else if bad hostport (CHR '']'') then Inl ''unexpected ']' in address''
                else Inr (host, port)))"

section \<open>The database\<close>

text \<open>
  What the configuration contributes (package config): the address of this server, its IP
  address, the key of the section ServerPackages and whether TLS is used.
\<close>

record server_config =
  ServerSourceAddress :: string
  IP :: string
  server_key :: string
  tls :: bool

definition ServerKeys :: "string \<Rightarrow> hash \<Rightarrow> string list" where
  "ServerKeys addr db =
     concat (map (get1 ''key'')
       (iter_named ''xml'' (kids (Query (accepts (by_address ''source'' addr)) db))))"

definition same_server :: "hash \<Rightarrow> hash_filter" where
  "same_server server =
     (let f = FilterSimple [''source'', text_of ''source'' server];
          macaddress = text_of ''macaddress'' server
      in if macaddress \<noteq> [] then FilterOr [FilterSimple [''macaddress'', macaddress], f] else f)"

definition ServerUpdate :: "hash \<Rightarrow> hash \<Rightarrow> hash" where
  "ServerUpdate server db =
     (let server = with_previous_key (ServerKeys (text_of ''source'' server) db) server
      in snd (replace_items (same_server server) False [server] db))"

definition ServerRemove :: "string \<Rightarrow> hash \<Rightarrow> hash option \<times> hash" where
  "ServerRemove addr db =
     (case Remove (accepts (FilterSimple [''source'', addr])) db of
        (removed, rest) \<Rightarrow> (First ''xml'' removed, rest))"

definition ServerKeysForAllServers :: "hash \<Rightarrow> string list" where
  "ServerKeysForAllServers db = column_values ''key'' db"

definition Servers :: "hash \<Rightarrow> hash" where
  "Servers db = Query (accepts FilterAll) db"

definition ServerAddresses :: "hash \<Rightarrow> string list" where
  "ServerAddresses db = column_values ''source'' db"

definition ServerWithMAC :: "string \<Rightarrow> hash \<Rightarrow> hash option" where
  "ServerWithMAC macaddress db =
     First ''xml'' (Query (accepts (FilterSimple [''macaddress'', macaddress])) db)"

text \<open>
  \<open>addServer\<close>: \<open>resolve\<close> is util.Resolve for a host and port. A peer that is not known yet
  gets an entry with a key that both sides can derive, or the empty key that stands for TLS.
\<close>

definition derived_key :: "server_config \<Rightarrow> string \<Rightarrow> string" where
  "derived_key cfg ip =
     server_key cfg @ filter (\<lambda>c. c \<noteq> CHR ''.'') (if ip < IP cfg then ip @ IP cfg else IP cfg @ ip)"

definition addServer ::
  "server_config \<Rightarrow> (string \<Rightarrow> string result) \<Rightarrow> string \<Rightarrow> hash \<Rightarrow> hash" where
  "addServer cfg resolve server db =
     (case resolve server of
        Inl _ \<Rightarrow> db
      | Inr addr \<Rightarrow>
          (case SplitHostPort addr of
             Inl _ \<Rightarrow> db
           | Inr (ip, port) \<Rightarrow>
               let source = ip @ '':'' @ port in
               if source = ServerSourceAddress cfg then db
               else if length (ServerKeys source db) = 0 then
                 ServerUpdate
                   (Add ''key'' [if tls cfg then [] else derived_key cfg ip]
                     (NewHash ''xml'' [''source'', source])) db
               else db))"

definition add_servers ::
  "server_config \<Rightarrow> (string \<Rightarrow> string result) \<Rightarrow> string list \<Rightarrow> hash \<Rightarrow> hash" where
  "add_servers cfg resolve servers db = fold (addServer cfg resolve) servers db"

text \<open>
  \<open>ServersInit\<close>: the saved database, then the servers found in DNS (if that is wanted), then
  those of the configuration file.
\<close>

definition ServersInit ::
  "server_config \<Rightarrow> (string \<Rightarrow> string result) \<Rightarrow> hash option \<Rightarrow> string list option \<Rightarrow>
   string list \<Rightarrow> hash" where
  "ServersInit cfg resolve saved dns peers =
     (let db = (case saved of None \<Rightarrow> NewHash ''serverdb'' [] | Some h \<Rightarrow> h);
          db = (case dns of None \<Rightarrow> db | Some servers \<Rightarrow> add_servers cfg resolve servers db)
      in add_servers cfg resolve peers db)"

section \<open>One entry per server\<close>

definition source_key :: "hash \<Rightarrow> string" where
  "source_key e = ToLower (text_of ''source'' e)"

definition server_ok :: "hash \<Rightarrow> bool" where
  "server_ok e \<longleftrightarrow> tidy e \<and> Name e = ''xml'' \<and> single ''source'' e \<and> get1 ''source'' e \<noteq> []"

definition servers_ok :: "hash \<Rightarrow> bool" where
  "servers_ok d \<longleftrightarrow> list_all server_ok (children d) \<and> distinct (map source_key (children d))"

lemma same_server_accepts:
  "server_ok e \<Longrightarrow> source_key e = ToLower (text_of ''source'' server) \<Longrightarrow>
    accepts (same_server server) e"
  by (auto simp: server_ok_def same_server_def source_key_def single_text_of Let_def)

lemma same_server_no_mac:
  "text_of ''macaddress'' server = [] \<Longrightarrow> server_ok e \<Longrightarrow>
    accepts (same_server server) e \<longleftrightarrow> source_key e = ToLower (text_of ''source'' server)"
  by (simp add: server_ok_def same_server_def source_key_def single_text_of Let_def)

lemma same_server_previous_key [simp]: "same_server (with_previous_key ks e) = same_server e"
  by (simp add: same_server_def with_previous_key_other_text)

lemma children_ServerUpdate:
  "children (ServerUpdate server db) =
     filter (\<lambda>e. \<not> accepts (same_server server) e) (children db) @
     [Clone (with_previous_key (ServerKeys (text_of ''source'' server) db) server)]"
  by (simp add: ServerUpdate_def Let_def)

lemma ServerUpdate_ok:
  assumes ok: "servers_ok db"
    and "Name server = ''xml''" "single ''source'' server" "get1 ''source'' server \<noteq> []"
  shows "servers_ok (ServerUpdate server db)"
proof -
  let ?c = "with_previous_key (ServerKeys (text_of ''source'' server) db) server"
  have cok: "server_ok (Clone ?c)"
    using assms(2-4) by (simp add: server_ok_def single_def with_previous_key_other)
  have key: "source_key (Clone ?c) = ToLower (text_of ''source'' server)"
    by (simp add: source_key_def with_previous_key_other_text)
  have db: "children (ServerUpdate server db) =
      children (add_all [?c] (snd (Remove (accepts (same_server server)) db)))"
    by (simp add: children_ServerUpdate)
  have "distinct (map source_key (children (ServerUpdate server db)))"
    unfolding db using ok same_server_accepts key
    by (intro hs.keys_distinct_replace)
      (simp_all add: servers_ok_def list_all_iff del: set_elems)
  moreover have "list_all server_ok (children (ServerUpdate server db))"
    using ok cok by (auto simp: children_ServerUpdate servers_ok_def list_all_iff)
  ultimately show ?thesis by (simp add: servers_ok_def)
qed

lemma new_server_entry:
  "Name (Add ''key'' vs (NewHash ''xml'' [''source'', source])) = ''xml''"
  "single ''source'' (Add ''key'' vs (NewHash ''xml'' [''source'', source]))"
  "get1 ''source'' (Add ''key'' vs (NewHash ''xml'' [''source'', source])) = [source]"
  by (simp_all add: single_def get1_eq)

lemma new_server_ok: "servers_ok db \<Longrightarrow>
    servers_ok (ServerUpdate (Add ''key'' vs (NewHash ''xml'' [''source'', source])) db)"
  by (rule ServerUpdate_ok; (rule new_server_entry)?) (simp_all add: new_server_entry(3) del: NewHash.simps)

lemma addServer_ok: "servers_ok db \<Longrightarrow> servers_ok (addServer cfg resolve server db)"
  by (auto simp: addServer_def Let_def new_server_ok split: sum.split
      simp del: NewHash.simps)

lemma add_servers_ok: "servers_ok db \<Longrightarrow> servers_ok (add_servers cfg resolve servers db)"
  by (induction servers arbitrary: db) (simp_all add: add_servers_def addServer_ok)

text \<open>Keys found under an address with a port are those of the one entry with that address.\<close>

lemma ServerKeys_entry:
  assumes "servers_ok db" and "e \<in> set (children db)" and "source_key e = ToLower addr"
    and "Index addr (CHR '':'') \<noteq> None"
  shows "ServerKeys addr db = get1 ''key'' e"
proof -
  have acc: "accepts (by_address ''source'' addr) x \<longleftrightarrow> x = e" if "x \<in> set (children db)" for x
  proof -
    have "accepts (by_address ''source'' addr) x \<longleftrightarrow> source_key x = source_key e"
      using assms that
      by (simp add: servers_ok_def list_all_iff server_ok_def by_address_def source_key_def
          single_text_of)
    with that assms(1,2) distinct_map_eq [of source_key "children db" x e] show ?thesis
      by (auto simp: servers_ok_def simp del: set_elems)
  qed
  have e: "Name e = ''xml''" "tidy e"
    using assms(1,2) by (auto simp: servers_ok_def list_all_iff server_ok_def)
  have "distinct xs \<Longrightarrow> e \<in> set xs \<Longrightarrow> filter (\<lambda>x. x = e) xs = [e]" for xs
    by (induction xs) (auto simp: filter_empty_conv)
  then have "filter (\<lambda>x. x = e) (children db) = [e]"
    using assms(1,2) by (simp add: servers_ok_def distinct_map del: set_elems)
  moreover have "filter (accepts (by_address ''source'' addr)) (children db) =
      filter (\<lambda>x. x = e) (children db)"
    using acc by (intro filter_cong) (simp_all del: set_elems)
  ultimately show ?thesis using e by (simp add: ServerKeys_def iter_named_eq)
qed

section \<open>Properties\<close>

text \<open>The server database keeps one entry per peer. An update stores the new entry, removes
  every entry with the same address (or MAC address, if it has one) and leaves the others;
  the keys then known for the address are those of the update followed by the current key
  of the old entry, so messages encrypted with that one can still be read.\<close>

theorem server_update_keeps_unique:
  assumes "servers_ok db" and "Name server = ''xml''" and "get1 ''source'' server = [source]"
    and "Index source (CHR '':'') \<noteq> None"
  shows "servers_ok (ServerUpdate server db) \<and>
    ServerKeys source (ServerUpdate server db) =
      get1 ''key'' server @ take 1 (ServerKeys source db) \<and>
    (\<forall>e \<in> set (children db). \<not> accepts (same_server server) e \<longrightarrow>
      e \<in> set (children (ServerUpdate server db)))"
proof -
  have src: "text_of ''source'' server = source" using assms(3) by (simp add: text_of_eq)
  have ok: "servers_ok (ServerUpdate server db)"
    using assms by (intro ServerUpdate_ok) (simp_all add: single_def)
  let ?c = "Clone (with_previous_key (ServerKeys source db) server)"
  have "?c \<in> set (children (ServerUpdate server db))"
    by (simp add: children_ServerUpdate src del: set_elems)
  moreover have "source_key ?c = ToLower source"
    by (simp add: source_key_def with_previous_key_other_text src)
  ultimately have "ServerKeys source (ServerUpdate server db) = get1 ''key'' ?c"
    using ok assms(4) by (intro ServerKeys_entry)
  with ok show ?thesis
    by (simp add: with_previous_key_keys children_ServerUpdate del: set_elems)
qed

definition example_server :: "string \<Rightarrow> string \<Rightarrow> hash" where
  "example_server addr key =
     Hash ''xml'' [Sub (Hash ''source'' [Txt addr]), Sub (Hash ''key'' [Txt key])]"

lemma example_server_fields: "get1 t (example_server a k) =
    (if t = ''source'' then [a] else if t = ''key'' then [k] else [])"
  by (simp add: example_server_def get1_eq own_text_def TextFragments_def)

lemma example_servers_ok:
  "a \<noteq> [] \<Longrightarrow> k \<noteq> [] \<Longrightarrow> servers_ok (Hash ''serverdb'' [Sub (example_server a k)])"
  by (simp add: servers_ok_def server_ok_def single_def example_server_fields)
    (simp add: example_server_def)

theorem server_update_keeps_unique_witness:
  "ServerKeys ''h:1'' (ServerUpdate (example_server ''h:1'' ''k2'')
      (Hash ''serverdb'' [Sub (example_server ''h:1'' ''k1'')])) = [''k2'', ''k1'']"
proof -
  let ?db = "Hash ''serverdb'' [Sub (example_server ''h:1'' ''k1'')]"
  have db: "servers_ok ?db" by (rule example_servers_ok) simp_all
  have i: "Index ''h:1'' (CHR '':'') \<noteq> None" by code_simp
  have "Name (example_server ''h:1'' ''k2'') = ''xml''" by (simp add: example_server_def)
  moreover have "get1 ''source'' (example_server ''h:1'' ''k2'') = [''h:1'']"
    by (simp add: example_server_fields)
  ultimately have "ServerKeys ''h:1'' (ServerUpdate (example_server ''h:1'' ''k2'') ?db) =
      [''k2''] @ take 1 (ServerKeys ''h:1'' ?db)"
    using server_update_keeps_unique [OF db _ _ i, of "example_server ''h:1'' ''k2''"]
    by (simp add: example_server_fields)
  moreover have "ServerKeys ''h:1'' ?db = get1 ''key'' (example_server ''h:1'' ''k1'')"
    by (rule ServerKeys_entry [OF db _ _ i])
      (simp_all add: source_key_def text_of_eq example_server_fields)
  ultimately show ?thesis by (simp add: example_server_fields)
qed

text \<open>Starting up keeps one entry per peer and never enters this server itself: from a
  saved database with unique addresses and without its own, whatever DNS and the
  configuration list and however the names resolve.\<close>

theorem servers_init_unique:
  assumes "\<And>h. saved = Some h \<Longrightarrow> servers_ok h \<and>
    (\<forall>e \<in> set (children h). text_of ''source'' e \<noteq> ServerSourceAddress cfg)"
  shows "servers_ok (ServersInit cfg resolve saved dns peers) \<and>
    (\<forall>e \<in> set (children (ServersInit cfg resolve saved dns peers)).
      text_of ''source'' e \<noteq> ServerSourceAddress cfg)"
proof -
  let ?P = "\<lambda>db. servers_ok db \<and>
    (\<forall>e \<in> set (children db). text_of ''source'' e \<noteq> ServerSourceAddress cfg)"
  have new: "text_of ''source'' (Add ''key'' vs (NewHash ''xml'' [''source'', source])) = source" for vs source
    by (simp add: text_of_eq new_server_entry del: NewHash.simps)
  have one: "?P (addServer cfg resolve s db)" if "?P db" for s db
    using that
    by (auto simp: addServer_def Let_def new_server_ok children_ServerUpdate
        with_previous_key_other_text new split: sum.split simp del: NewHash.simps)
  have all: "?P (add_servers cfg resolve ss db)" if "?P db" for ss db
    using that
  proof (induction ss arbitrary: db)
    case Nil
    then show ?case unfolding add_servers_def fold_simps .
  next
    case (Cons s ss)
    from Cons.IH [OF one [OF Cons.prems]] show ?case
      unfolding add_servers_def fold_simps .
  qed
  have base: "?P (case saved of None \<Rightarrow> NewHash ''serverdb'' [] | Some h \<Rightarrow> h)"
    using assms by (cases saved) (simp_all add: servers_ok_def)
  show ?thesis
  proof (cases dns)
    case None
    show ?thesis unfolding ServersInit_def Let_def None option.case by (rule all [OF base])
  next
    case (Some ss)
    show ?thesis
      unfolding ServersInit_def Let_def Some option.case by (rule all [OF all [OF base]])
  qed
qed

definition example_config :: server_config where
  "example_config = \<lparr>ServerSourceAddress = ''m:1'', IP = ''m'', server_key = ''s'', tls = False\<rparr>"

theorem servers_init_unique_witness:
  "servers_ok (ServersInit example_config (\<lambda>s. Inr (s @ '':1'')) None (Some [''m'', ''a'']) [''a''])"
  using servers_init_unique [of None example_config "\<lambda>s. Inr (s @ '':1'')" "Some [''m'', ''a'']" "[''a'']"]
  by simp

end
