(* ===== verification/JobDB.thy ===== *)
theory JobDB
  imports HashDB Base64 "HOL-Library.AList"
begin

text \<open>
  The job database of go-susi/db/jobdb.go. One goroutine (\<open>handleJobDBRequests\<close>) performs the
  requests that the \<open>Jobs...\<close> functions put into a channel; performing one changes the
  database and appends to the queues of other components: the messages to the peers
  (ForeignJobUpdates), the jobs to be acted upon (PendingActions) and the timers. Each
  closure of the code is one constructor of the type of requests.

  Parameters: \<open>server\<close> is config.ServerSourceAddress and \<open>ids k\<close> the k-th number received
  from the channel nextID (\<open>util.Counter\<close>, a submodule). Log output is left out.
\<close>

section \<open>Requests and the state\<close>

datatype request =
    RQuery hash_filter
  | RForward hash_filter hash
  | RAddLocal hash
  | RRemoveLocal hash_filter bool
  | RModifyLocal hash_filter hash
  | RRemoveForeign hash_filter
  | RAddModifyForeign hash_filter hash
  | RUpdateName hash_filter hash
  | RSyncAll hash

text \<open>
  \<open>timers\<close> are the calls of \<open>scheduleProcessPendingActions\<close>, \<open>name_lookups\<close> the background
  queries started by \<open>JobsUpdateNameForMAC\<close>, \<open>unthrottled\<close> the calls of \<open>ClientUnthrottle\<close>;
  \<open>forwards\<close> counts the writes of MostRecentForwardModifyRequestTime.
\<close>

record jobdb =
  jobDB :: hash
  requests :: "request list"
  replies :: "hash list"
  ForeignJobUpdates :: "hash list"
  PendingActions :: "hash list"
  issued :: nat
  timers :: "(string \<times> string) list"
  name_lookups :: "string list"
  unthrottled :: "string list"
  forwards :: nat

definition updatableFields :: "string list" where
  "updatableFields =
     [''progress'', ''status'', ''periodic'', ''timestamp'', ''tminus'', ''result'']"

definition enqueue :: "request \<Rightarrow> jobdb \<Rightarrow> jobdb" where
  "enqueue r st = st\<lparr>requests := requests st @ [r]\<rparr>"

definition scheduleProcessPendingActions :: "string \<Rightarrow> string \<Rightarrow> jobdb \<Rightarrow> jobdb" where
  "scheduleProcessPendingActions timestamp tminus st =
     st\<lparr>timers := timers st @ [(timestamp, tminus)]\<rparr>"

definition JobsUpdateNameForMAC :: "string \<Rightarrow> jobdb \<Rightarrow> jobdb" where
  "JobsUpdateNameForMAC macaddress st = st\<lparr>name_lookups := name_lookups st @ [macaddress]\<rparr>"

definition ClientUnthrottle_call :: "string \<Rightarrow> jobdb \<Rightarrow> jobdb" where
  "ClientUnthrottle_call macaddress st = st\<lparr>unthrottled := unthrottled st @ [macaddress]\<rparr>"

definition send_update :: "hash \<Rightarrow> jobdb \<Rightarrow> jobdb" where
  "send_update fju st = st\<lparr>ForeignJobUpdates := ForeignJobUpdates st @ [fju]\<rparr>"

definition push_action :: "hash \<Rightarrow> jobdb \<Rightarrow> jobdb" where
  "push_action job st = st\<lparr>PendingActions := PendingActions st @ [Clone job]\<rparr>"

text \<open>The message a job stands for, as the content of its field xmlmessage.\<close>

definition xml_message :: "hash \<Rightarrow> string" where
  "xml_message job =
     (let peri = (if text_of ''periodic'' job = [] then ''none'' else text_of ''periodic'' job)
      in ''<xml><source>GOSA</source><header>job_'' @ text_of ''headertag'' job @
         ''</header><target>'' @ text_of ''targettag'' job @
         ''</target><macaddress>'' @ text_of ''macaddress'' job @
         ''</macaddress><timestamp>'' @ text_of ''timestamp'' job @
         ''</timestamp>'' @ ''<periodic>'' @ peri @ ''</periodic>'' @ ''</xml>'')"

definition JobUpdateXMLMessage :: "hash \<Rightarrow> hash" where
  "JobUpdateXMLMessage job = set_field ''xmlmessage'' (EncodeToString (xml_message job)) job"

definition new_fju :: hash where
  "new_fju = NewHash ''xml'' [''header'', ''foreign_job_updates'']"

definition address_fju :: "string \<Rightarrow> string list \<Rightarrow> hash \<Rightarrow> hash" where
  "address_fju server target fju =
     Add ''sync'' [''ordered''] (Add ''target'' target (Add ''source'' [server] fju))"

definition answer_name :: "nat \<Rightarrow> string" where
  "answer_name count = ''answer'' @ itoa count"

definition with_id :: "hash \<Rightarrow> hash_filter" where
  "with_id job = FilterSimple [''id'', text_of ''id'' job]"

definition replace_job :: "hash \<Rightarrow> jobdb \<Rightarrow> jobdb" where
  "replace_job job st =
     st\<lparr>jobDB := snd (replace_items (with_id job) True [job] (jobDB st))\<rparr>"

section \<open>The requests that other components make\<close>

definition JobsQuery :: "hash_filter \<Rightarrow> jobdb \<Rightarrow> jobdb" where
  "JobsQuery f = enqueue (RQuery f)"

definition JobsRemoveLocal :: "hash_filter \<Rightarrow> bool \<Rightarrow> jobdb \<Rightarrow> jobdb" where
  "JobsRemoveLocal f stop_periodic = enqueue (RRemoveLocal f stop_periodic)"

definition JobsModifyLocal :: "hash_filter \<Rightarrow> hash \<Rightarrow> jobdb \<Rightarrow> jobdb" where
  "JobsModifyLocal f update =
     (if text_of ''status'' update = ''done'' then
        JobsRemoveLocal f
          (length (get1 ''periodic'' update) \<noteq> 0 \<and>
           (text_of ''periodic'' update = [] \<or> text_of ''periodic'' update = ''none''))
      else enqueue (RModifyLocal f (Clone update)))"

definition JobsForwardModifyRequest :: "hash_filter \<Rightarrow> hash \<Rightarrow> jobdb \<Rightarrow> jobdb" where
  "JobsForwardModifyRequest f update = enqueue (RForward f (Clone update))"

definition local_jobs :: "string \<Rightarrow> hash_filter" where
  "local_jobs server = FilterSimple [''siserver'', server]"

definition JobsModify :: "string \<Rightarrow> hash_filter \<Rightarrow> hash \<Rightarrow> jobdb \<Rightarrow> jobdb" where
  "JobsModify server f update st =
     JobsForwardModifyRequest (FilterAnd [FilterNot (local_jobs server), f]) update
       (JobsModifyLocal (FilterAnd [local_jobs server, f]) update st)"

definition JobsRemove :: "string \<Rightarrow> hash_filter \<Rightarrow> jobdb \<Rightarrow> jobdb" where
  "JobsRemove server f =
     JobsModify server f (Add ''periodic'' [''none''] (NewHash ''job'' [''status'', ''done'']))"

definition JobsRemoveForeign :: "hash_filter \<Rightarrow> jobdb \<Rightarrow> jobdb" where
  "JobsRemoveForeign f = enqueue (RRemoveForeign f)"

definition JobsAddOrModifyForeign :: "hash_filter \<Rightarrow> hash \<Rightarrow> jobdb \<Rightarrow> jobdb" where
  "JobsAddOrModifyForeign f job =
     (if text_of ''status'' job = ''done'' then JobsRemoveForeign f
      else enqueue (RAddModifyForeign f (Clone job)))"

text \<open>The number is drawn by the caller; the job handed in gets the id as well.\<close>

definition JobAddLocal :: "(nat \<Rightarrow> nat) \<Rightarrow> hash \<Rightarrow> jobdb \<Rightarrow> jobdb \<times> hash" where
  "JobAddLocal ids job st =
     (let id = itoa (ids (issued st));
          job' = set_field ''original_id'' id (set_field ''id'' id job)
      in (enqueue (RAddLocal (Clone job')) (st\<lparr>issued := Suc (issued st)\<rparr>), job'))"

definition JobsSyncAll :: "string \<Rightarrow> string \<Rightarrow> hash option \<Rightarrow> jobdb \<Rightarrow> jobdb" where
  "JobsSyncAll server target old =
     (let fju = Clone (case old of None \<Rightarrow> NewHash ''xml'' [] | Some h \<Rightarrow> h);
          fju = set_field ''header'' ''foreign_job_updates'' fju;
          fju = set_field ''target'' target fju;
          fju = set_field ''source'' server fju
      in enqueue (RSyncAll (Add ''sync'' [''all''] fju)))"

text \<open>The background query of \<open>JobsUpdateNameForMAC\<close> is answered.\<close>

definition name_found :: "string \<Rightarrow> string \<Rightarrow> jobdb \<Rightarrow> jobdb" where
  "name_found macaddress plainname st =
     (if plainname \<noteq> ''none''
      then enqueue (RUpdateName (FilterSimple [''macaddress'', macaddress])
             (NewHash ''job'' [''plainname'', plainname])) st
      else st)"

section \<open>Performing a request\<close>

subsection \<open>Removing local jobs\<close>

definition done_job :: "bool \<Rightarrow> hash \<Rightarrow> hash" where
  "done_job stop_periodic job =
     (let job = set_field ''status'' ''done'' job;
          job = (if stop_periodic then set_field ''periodic'' ''none'' job else job)
      in JobUpdateXMLMessage (drop_first ''original_id'' job))"

definition remove_one ::
  "bool \<Rightarrow> hash \<Rightarrow> hash \<times> nat \<times> jobdb \<Rightarrow> hash \<times> nat \<times> jobdb" where
  "remove_one stop_periodic job acc =
     (case acc of (fju, count, st) \<Rightarrow>
        let job = done_job stop_periodic job
        in (AddWithOwnership (Rename (answer_name count) job) fju, count + 1,
            push_action job st))"

definition send_if_any :: "string \<Rightarrow> hash \<times> nat \<times> jobdb \<Rightarrow> jobdb" where
  "send_if_any server acc =
     (case acc of (fju, count, st) \<Rightarrow>
        if count > 1 then send_update (address_fju server [] fju) st else st)"

definition perform_remove_local :: "string \<Rightarrow> hash_filter \<Rightarrow> bool \<Rightarrow> jobdb \<Rightarrow> jobdb" where
  "perform_remove_local server f stop_periodic st =
     (case Remove (accepts f) (jobDB st) of (removed, rest) \<Rightarrow>
        send_if_any server
          (fold (remove_one stop_periodic) (children removed)
            (new_fju, 1, st\<lparr>jobDB := rest\<rparr>)))"

subsection \<open>Changing local jobs\<close>

text \<open>The other install and update jobs that run on the machine of a job that is launched.\<close>

definition superseded :: "string \<Rightarrow> hash \<Rightarrow> hash_filter" where
  "superseded server job =
     FilterAnd
       [FilterSimple [''siserver'', server, ''macaddress'', text_of ''macaddress'' job,
          ''status'', ''processing''],
        FilterOr [FilterSimple [''headertag'', ''trigger_action_reinstall''],
          FilterSimple [''headertag'', ''trigger_action_update'']],
        FilterNot (FilterSimple [''id'', text_of ''id'' job])]"

definition install_or_update :: "hash \<Rightarrow> bool" where
  "install_or_update job \<longleftrightarrow>
     text_of ''headertag'' job = ''trigger_action_reinstall'' \<or>
     text_of ''headertag'' job = ''trigger_action_update''"

definition supersede :: "string \<Rightarrow> hash \<Rightarrow> jobdb \<Rightarrow> jobdb" where
  "supersede server job st =
     (let to_remove = superseded server job
      in JobsRemoveLocal to_remove False
           (JobsModifyLocal to_remove (NewHash ''job'' [''progress'', ''groom'']) st))"

text \<open>One round of the loop over the fields; \<open>send\<close> and \<open>changed\<close> are its two flags.\<close>

definition modify_field ::
  "string \<Rightarrow> hash \<Rightarrow> string \<Rightarrow> hash \<times> bool \<times> bool \<times> jobdb \<Rightarrow> hash \<times> bool \<times> bool \<times> jobdb" where
  "modify_field server update field acc =
     (case acc of (job, send, changed, st) \<Rightarrow>
      case First field update of
        None \<Rightarrow> (job, send, changed, st)
      | Some x \<Rightarrow>
          let v = own_text x;
              changed = (changed \<or> field = ''status'' \<and> v \<noteq> []);
              job = set_field field v job;
              launch = (field = ''status'' \<and> v = ''launch'');
              st = (if launch \<and> install_or_update job then supersede server job st else st);
              send = (if \<not> launch \<and> field = ''progress'' \<and> (v = ''forward'' \<or> v = ''groom'')
                      then False else send);
              st = (if field = ''timestamp'' \<or> field = ''tminus''
                    then scheduleProcessPendingActions (text_of ''timestamp'' job)
                           (text_of ''tminus'' job) st
                    else st)
          in (job, send, changed, st))"

definition start_action :: "hash \<times> bool \<times> jobdb \<Rightarrow> hash \<times> jobdb" where
  "start_action acc =
     (case acc of (job, changed, st) \<Rightarrow>
        if changed then
          (let (job, st) =
             (if text_of ''status'' job = ''launch''
              then (let job = set_field ''status'' ''processing'' job
                    in (job, push_action job st))
              else (job, st))
           in (job, if text_of ''status'' job = ''wakeup'' then push_action job st else st))
        else (job, st))"

definition modify_one ::
  "string \<Rightarrow> hash \<Rightarrow> hash \<Rightarrow> hash \<times> nat \<times> jobdb \<Rightarrow> hash \<times> nat \<times> jobdb" where
  "modify_one server update job acc =
     (case acc of (fju, count, st) \<Rightarrow>
      case fold (modify_field server update) updatableFields (job, True, False, st) of
        (job, send, changed, st) \<Rightarrow>
          (case start_action (job, changed, st) of
             (job, st) \<Rightarrow>
               let job = JobUpdateXMLMessage job;
                   st = replace_job job st
               in if send
                  then (AddWithOwnership (Rename (answer_name count) (drop_first ''original_id'' job)) fju,
                        count + 1, st)
                  else (fju, count, st)))"

definition perform_modify_local :: "string \<Rightarrow> hash_filter \<Rightarrow> hash \<Rightarrow> jobdb \<Rightarrow> jobdb" where
  "perform_modify_local server f update st =
     send_if_any server
       (fold (modify_one server update) (children (Query (accepts f) (jobDB st)))
         (new_fju, 1, st))"

subsection \<open>Adding a local job\<close>

text \<open>A job without a name gets the name \<open>none\<close>, and then the name is looked up.\<close>

definition name_job :: "hash \<Rightarrow> jobdb \<Rightarrow> hash \<times> jobdb" where
  "name_job job st =
     (let plainname = text_of ''plainname'' job;
          job' = (if plainname = [] then set_field ''plainname'' ''none'' job else job)
      in (job',
          if plainname = [] \<or> plainname = ''none''
          then JobsUpdateNameForMAC (text_of ''macaddress'' job) st else st))"

definition perform_add_local :: "string \<Rightarrow> hash \<Rightarrow> jobdb \<Rightarrow> jobdb" where
  "perform_add_local server job st =
     (case name_job job st of (job, st) \<Rightarrow>
        let st = ClientUnthrottle_call (text_of ''macaddress'' job) st;
            job = JobUpdateXMLMessage job;
            st = st\<lparr>jobDB := AddClone job (jobDB st)\<rparr>;
            st = scheduleProcessPendingActions (text_of ''timestamp'' job)
                   (text_of ''tminus'' job) st;
            fju = address_fju server [] new_fju;
            answer = drop_first ''original_id'' (Rename ''answer1'' job)
        in send_update (AddWithOwnership answer fju) st)"

subsection \<open>Forwarding a change to the servers in charge\<close>

text \<open>
  The two Go maps of the loop, count and fju by server, as one association list. The order
  in which the code then ranges over the map is not specified; each message has another
  target.
\<close>

definition copy_field :: "hash \<Rightarrow> string \<Rightarrow> hash \<Rightarrow> hash" where
  "copy_field update field job =
     (case First field update of None \<Rightarrow> job | Some x \<Rightarrow> set_field field (own_text x) job)"

definition update_fields :: "hash \<Rightarrow> hash \<Rightarrow> hash" where
  "update_fields update job = fold (copy_field update) updatableFields job"

text \<open>
  \<open>job.First("id").SetText(job.RemoveFirst("original_id").Text())\<close>: panics when one of the
  fields is missing.
\<close>

definition original_as_id :: "hash \<Rightarrow> hash outcome" where
  "original_as_id job =
     (case (First ''id'' job, First ''original_id'' job) of
        (Some _, Some oid) \<Rightarrow>
          Returns (FirstOrAdd ''id'' (SetText [own_text oid]) (drop_first ''original_id'' job))
      | _ \<Rightarrow> Panics)"

type_synonym server_updates = "(string \<times> nat \<times> hash) list"

fun forward_jobs :: "hash \<Rightarrow> hash list \<Rightarrow> server_updates \<Rightarrow> server_updates outcome" where
  "forward_jobs update [] fjus = Returns fjus"
| "forward_jobs update (job # rest) fjus =
     (let siserver = text_of ''siserver'' job;
          (count, fju) = (case map_of fjus siserver of None \<Rightarrow> (1, new_fju) | Some cf \<Rightarrow> cf);
          job = Rename (answer_name count) (update_fields update job)
      in and_then (original_as_id job) (\<lambda>job.
           forward_jobs update rest
             (AList.update siserver
                (count + 1, AddWithOwnership (JobUpdateXMLMessage job) fju) fjus)))"

definition perform_forward :: "string \<Rightarrow> hash_filter \<Rightarrow> hash \<Rightarrow> jobdb \<Rightarrow> jobdb outcome" where
  "perform_forward server f update st =
     and_then (forward_jobs update (children (Query (accepts f) (jobDB st))) [])
       (\<lambda>fjus.
          let st = fold (\<lambda>(siserver, count, fju).
                send_update (Add ''SyncIfNotGoSusi'' [] (address_fju server [siserver] fju)))
              fjus st
          in Returns (if fjus \<noteq> [] then st\<lparr>forwards := forwards st + 1\<rparr> else st))"

subsection \<open>Foreign jobs\<close>

definition perform_remove_foreign :: "hash_filter \<Rightarrow> jobdb \<Rightarrow> jobdb" where
  "perform_remove_foreign f st = st\<lparr>jobDB := snd (Remove (accepts f) (jobDB st))\<rparr>"

definition modify_foreign :: "hash \<Rightarrow> hash \<Rightarrow> jobdb \<Rightarrow> jobdb" where
  "modify_foreign update found st =
     replace_job (JobUpdateXMLMessage (update_fields update found)) st"

definition add_foreign :: "(nat \<Rightarrow> nat) \<Rightarrow> hash \<Rightarrow> jobdb \<Rightarrow> jobdb" where
  "add_foreign ids job st =
     (let st = ClientUnthrottle_call (text_of ''macaddress'' job) st;
          job = Rename ''job'' job;
          job = set_field ''original_id'' (text_of ''id'' job) job;
          job = set_field ''id'' (itoa (ids (issued st))) job;
          st = st\<lparr>issued := Suc (issued st)\<rparr>
      in case name_job job st of (job, st) \<Rightarrow>
           st\<lparr>jobDB := AddClone (JobUpdateXMLMessage job) (jobDB st)\<rparr>)"

definition perform_add_modify_foreign ::
  "(nat \<Rightarrow> nat) \<Rightarrow> hash_filter \<Rightarrow> hash \<Rightarrow> jobdb \<Rightarrow> jobdb" where
  "perform_add_modify_foreign ids f job st =
     (let jobs = Query (accepts f) (jobDB st)
      in case iter_named ''job'' (kids jobs) of
           [] \<Rightarrow> add_foreign ids job st
         | found \<Rightarrow> fold (modify_foreign job) found st)"

subsection \<open>Names\<close>

definition rename_one :: "string \<Rightarrow> string \<Rightarrow> hash \<Rightarrow> jobdb \<Rightarrow> jobdb" where
  "rename_one server plainname found st =
     (if text_of ''plainname'' found \<noteq> plainname then
        (let found = set_field ''plainname'' plainname found;
             st = replace_job found st
         in if text_of ''siserver'' found = server
            then send_update (address_fju server [''gosa-si'']
                   (AddWithOwnership (Rename ''answer1'' (Clone found)) new_fju)) st
            else st)
      else st)"

definition perform_update_name :: "string \<Rightarrow> hash_filter \<Rightarrow> hash \<Rightarrow> jobdb \<Rightarrow> jobdb" where
  "perform_update_name server f job st =
     fold (rename_one server (text_of ''plainname'' job))
       (iter_named ''job'' (kids (Query (accepts f) (jobDB st)))) st"

subsection \<open>A full copy for one peer\<close>

text \<open>The jobs the peer believes in that do not exist, cancelled and numbered in place.\<close>

fun cancel_old :: "(nat \<Rightarrow> nat) \<Rightarrow> nat \<Rightarrow> nat \<Rightarrow> kid list \<Rightarrow> kid list \<times> nat \<times> nat" where
  "cancel_old ids k count [] = ([], k, count)"
| "cancel_old ids k count (Txt s # ks) =
     (case cancel_old ids k count ks of (ks', r) \<Rightarrow> (Txt s # ks', r))"
| "cancel_old ids k count (Sub job # ks) =
     (if \<not> HasPrefix (Name job) ''answer'' then
        (case cancel_old ids k count ks of (ks', r) \<Rightarrow> (Sub job # ks', r))
      else
        (let job = set_field ''id'' (itoa (ids k))
               (set_field ''periodic'' ''none'' (set_field ''status'' ''done'' job))
         in case cancel_old ids (Suc k) (count + 1) ks of
              (ks', r) \<Rightarrow> (Sub (Rename (answer_name count) job) # ks', r)))"

definition counterpart :: "hash \<Rightarrow> hash_filter" where
  "counterpart job = FilterSimple
     [''headertag'', text_of ''headertag'' job, ''macaddress'', text_of ''macaddress'' job]"

definition copy_job :: "hash \<Rightarrow> hash \<times> nat \<Rightarrow> hash \<times> nat" where
  "copy_job job acc =
     (case acc of (fju, count) \<Rightarrow>
        (AddWithOwnership (Rename (answer_name count) (drop_first ''original_id'' job)) fju,
         count + 1))"

definition perform_sync_all :: "string \<Rightarrow> (nat \<Rightarrow> nat) \<Rightarrow> hash \<Rightarrow> jobdb \<Rightarrow> jobdb" where
  "perform_sync_all server ids fju st =
     (let myjobs = children (Query (accepts (local_jobs server)) (jobDB st));
          fju = fold (\<lambda>job fju. snd (Remove (accepts (counterpart job)) fju)) myjobs fju
      in case cancel_old ids (issued st) 1 (kids fju) of
           (ks, issued', count) \<Rightarrow>
             send_update (fst (fold copy_job myjobs (Hash (Name fju) ks, count)))
               (st\<lparr>issued := issued'\<rparr>))"

subsection \<open>All requests\<close>

fun perform :: "string \<Rightarrow> (nat \<Rightarrow> nat) \<Rightarrow> request \<Rightarrow> jobdb \<Rightarrow> jobdb outcome" where
  "perform server ids (RQuery f) st =
     Returns (st\<lparr>replies := replies st @ [Query (accepts f) (jobDB st)]\<rparr>)"
| "perform server ids (RForward f update) st = perform_forward server f update st"
| "perform server ids (RAddLocal job) st = Returns (perform_add_local server job st)"
| "perform server ids (RRemoveLocal f stop) st = Returns (perform_remove_local server f stop st)"
| "perform server ids (RModifyLocal f update) st =
     Returns (perform_modify_local server f update st)"
| "perform server ids (RRemoveForeign f) st = Returns (perform_remove_foreign f st)"
| "perform server ids (RAddModifyForeign f job) st =
     Returns (perform_add_modify_foreign ids f job st)"
| "perform server ids (RUpdateName f job) st = Returns (perform_update_name server f job st)"
| "perform server ids (RSyncAll fju) st = Returns (perform_sync_all server ids fju st)"

text \<open>\<open>case request = <-jobDBRequests : request.Action(request)\<close>\<close>

definition handle_request :: "string \<Rightarrow> (nat \<Rightarrow> nat) \<Rightarrow> jobdb \<Rightarrow> jobdb outcome" where
  "handle_request server ids st =
     (case requests st of
        [] \<Rightarrow> Blocks
      | r # rs \<Rightarrow> perform server ids r (st\<lparr>requests := rs\<rparr>))"

section \<open>The other events of the loop\<close>

text \<open>
  A ping of processPendingActions: the waiting jobs whose time has come are to be launched,
  those whose time minus tminus has come are to be woken up. \<open>add_timestamp\<close> is
  util.AddTimestamp; each value of tminus gets one filter, at its first occurrence.
\<close>

definition due_jobs :: "string \<Rightarrow> string \<Rightarrow> hash_filter" where
  "due_jobs server now_ts =
     FilterAnd [local_jobs server,
       FilterOr [FilterSimple [''status'', ''waiting''], FilterSimple [''status'', ''wakeup'']],
       FilterRel ''timestamp'' now_ts (-1) 0]"

fun tminus_filters ::
  "(string \<Rightarrow> string \<Rightarrow> string result) \<Rightarrow> string \<Rightarrow> string list \<Rightarrow> string list \<Rightarrow> hash_filter list" where
  "tminus_filters add_timestamp now_ts have [] = []"
| "tminus_filters add_timestamp now_ts have (tminus # rest) =
     (if tminus \<in> set have then tminus_filters add_timestamp now_ts have rest
      else
        (case add_timestamp now_ts tminus of
           Inl _ \<Rightarrow> []
         | Inr relts \<Rightarrow> [FilterAnd [FilterSimple [''tminus'', tminus],
                           FilterRel ''timestamp'' relts (-1) 0]])
        @ tminus_filters add_timestamp now_ts (tminus # have) rest)"

definition waking_jobs ::
  "(string \<Rightarrow> string \<Rightarrow> string result) \<Rightarrow> string \<Rightarrow> string \<Rightarrow> hash \<Rightarrow> hash_filter" where
  "waking_jobs add_timestamp server now_ts jobs =
     FilterAnd [local_jobs server, FilterSimple [''status'', ''waiting''],
       FilterOr (tminus_filters add_timestamp now_ts [] (column_values ''tminus'' jobs))]"

definition process_pending ::
  "(string \<Rightarrow> string \<Rightarrow> string result) \<Rightarrow> string \<Rightarrow> string \<Rightarrow> jobdb \<Rightarrow> jobdb" where
  "process_pending add_timestamp server now_ts st =
     JobsModifyLocal (waking_jobs add_timestamp server now_ts (jobDB st))
       (NewHash ''job'' [''status'', ''wakeup''])
       (JobsModifyLocal (due_jobs server now_ts) (NewHash ''job'' [''status'', ''launch'']) st)"

text \<open>
  The groom ticker. Times are minutes since midnight; the record holds the two variables of
  the loop. The result says whether processPendingActions is pinged and after how many
  minutes the database is groomed, if at all.
\<close>

record groom_state =
  next_groom :: int
  backwardsjump :: bool

definition groomlag_of :: "int \<Rightarrow> int \<Rightarrow> int" where
  "groomlag_of minutes next_time =
     (let lag = minutes - next_time;
          lag = (if lag \<le> -12*60 then lag + 24*60 else lag)
      in if lag > 12*60 then lag - 24*60 else lag)"

definition groom_tick :: "int \<Rightarrow> int \<Rightarrow> groom_state \<Rightarrow> groom_state \<times> bool \<times> int option" where
  "groom_tick interval minutes g =
     (let lag = groomlag_of minutes (next_groom g) in
      if lag > 3 then (\<lparr>next_groom = minutes + interval, backwardsjump = False\<rparr>, True, None)
      else if lag < -3 then (g\<lparr>backwardsjump := True\<rparr>, True, None)
      else (\<lparr>next_groom = minutes + interval, backwardsjump = False\<rparr>, backwardsjump g,
            Some (if backwardsjump g then 1 else 0)))"

text \<open>
  \<open>groomJobDB\<close>: the query, and what is done with its answer. \<open>system_data\<close> is
  SystemGetAllDataForMAC (the LDAP directory).
\<close>

definition stale_jobs :: "string \<Rightarrow> hash_filter" where
  "stale_jobs five_minutes_ago = FilterRel ''timestamp'' five_minutes_ago (-1) 0"

definition faistate_matches :: "hash \<Rightarrow> string \<Rightarrow> bool" where
  "faistate_matches job faistate =
     (let state = take 5 (faistate @ ''12345'') in
      text_of ''headertag'' job = ''trigger_action_reinstall'' \<and> (state = ''reins'' \<or> state = ''insta'') \<or>
      text_of ''headertag'' job = ''trigger_action_update'' \<and> (state = ''updat'' \<or> state = ''softu''))"

definition groom_job :: "(string \<Rightarrow> hash result) \<Rightarrow> string \<Rightarrow> hash \<Rightarrow> jobdb \<Rightarrow> jobdb" where
  "groom_job system_data server job st =
     (if install_or_update job \<and> text_of ''status'' job = ''processing'' then
        (case system_data (text_of ''macaddress'' job) of
           Inl _ \<Rightarrow> st
         | Inr system \<Rightarrow>
             if faistate_matches job (text_of ''faistate'' system) then st
             else if text_of ''siserver'' job = server then
               JobsRemoveLocal (with_id job) False
                 (JobsModifyLocal (with_id job) (NewHash ''job'' [''progress'', ''groom'']) st)
             else st)
      else if text_of ''siserver'' job = server then
        JobsModifyLocal (with_id job)
          (Add ''result'' [''Job has not launched. This is a bug. Please report.'']
            (NewHash ''job'' [''status'', ''error''])) st
      else st)"

definition groomJobDB :: "(string \<Rightarrow> hash result) \<Rightarrow> string \<Rightarrow> hash \<Rightarrow> jobdb \<Rightarrow> jobdb" where
  "groomJobDB system_data server jobs st = fold (groom_job system_data server) (children jobs) st"

section \<open>Starting up\<close>

text \<open>
  \<open>JobsInit\<close>: the jobs of the saved database (None if it cannot be read or is not wanted)
  without those of other servers. The result also has the start of the counter for new ids;
  an id that is no number is a panic.
\<close>

fun scan_ids :: "hash list \<Rightarrow> nat \<Rightarrow> (string \<times> string) list \<Rightarrow> (nat \<times> (string \<times> string) list) outcome" where
  "scan_ids [] count tms = Returns (count, tms)"
| "scan_ids (job # rest) count tms =
     (case ParseUint (text_of ''id'' job) of
        None \<Rightarrow> Panics
      | Some k \<Rightarrow> scan_ids rest (if k > count then k else count)
          (tms @ [(text_of ''timestamp'' job, text_of ''tminus'' job)]))"

definition JobsInit :: "string \<Rightarrow> hash option \<Rightarrow> (jobdb \<times> nat) outcome" where
  "JobsInit server saved =
     (let db = (case saved of None \<Rightarrow> NewHash ''jobdb'' [] | Some h \<Rightarrow> h);
          db = snd (Remove (accepts (FilterNot (local_jobs server))) db)
      in and_then (scan_ids (iter_named ''job'' (kids (Query (accepts FilterAll) db))) 0 [])
           (\<lambda>(count, tms).
             Returns (\<lparr>jobDB = db, requests = [], replies = [], ForeignJobUpdates = [],
               PendingActions = [], issued = 0, timers = tms, name_lookups = [],
               unthrottled = [], forwards = 0\<rparr>, (count + 1) mod 2 ^ 64)))"

section \<open>Well-formed databases\<close>

text \<open>
  A job of the database has the name \<open>job\<close> and one id, a number; no two jobs have the same.
\<close>

abbreviation id_of :: "hash \<Rightarrow> string" where
  "id_of \<equiv> text_of ''id''"

definition job_ok :: "hash \<Rightarrow> bool" where
  "job_ok job \<longleftrightarrow> tidy job \<and> Name job = ''job'' \<and> (\<exists>k. get1 ''id'' job = [itoa k])"

definition db_ok :: "hash \<Rightarrow> bool" where
  "db_ok d \<longleftrightarrow> list_all job_ok (children d) \<and> distinct (map id_of (children d))"

lemma job_ok_id: "job_ok job \<Longrightarrow> \<exists>k. id_of job = itoa k"
  by (auto simp: job_ok_def text_of_eq)

lemma job_ok_tidy [simp]: "job_ok job \<Longrightarrow> tidy job"
  by (simp add: job_ok_def)

lemma accepts_with_id:
  assumes "job_ok job'" and "\<exists>k. id_of job = itoa k"
  shows "accepts (with_id job) job' \<longleftrightarrow> id_of job' = id_of job"
  using assms by (auto simp: job_ok_def with_id_def text_of_eq)

lemma job_ok_set_field: "job_ok job \<Longrightarrow> t \<noteq> ''id'' \<Longrightarrow> job_ok (set_field t v job)"
  by (simp add: job_ok_def)

text \<open>The fields the operations write are not the id.\<close>

lemma copy_field_ok [simp]:
  "job_ok job \<Longrightarrow> f \<noteq> ''id'' \<Longrightarrow> job_ok (copy_field update f job)"
  "t \<noteq> f \<Longrightarrow> text_of t (copy_field update f job) = text_of t job"
  "t \<noteq> f \<Longrightarrow> get1 t (copy_field update f job) = get1 t job"
  "Name (copy_field update f job) = Name job"
  by (simp_all add: copy_field_def job_ok_set_field split: option.split)

lemma update_fields_other:
  assumes "t \<notin> set updatableFields"
  shows "text_of t (update_fields update job) = text_of t job"
    and "get1 t (update_fields update job) = get1 t job"
proof -
  have "text_of t (fold (copy_field update) fs job) = text_of t job \<and>
      get1 t (fold (copy_field update) fs job) = get1 t job" if "t \<notin> set fs" for fs
    using that by (induction fs arbitrary: job) auto
  with assms show "text_of t (update_fields update job) = text_of t job"
    "get1 t (update_fields update job) = get1 t job" by (auto simp: update_fields_def)
qed

lemma update_fields_ok [simp]:
  "job_ok job \<Longrightarrow> job_ok (update_fields update job)"
  "id_of (update_fields update job) = id_of job"
  "Name (update_fields update job) = Name job"
proof -
  have id: "''id'' \<notin> set updatableFields" by (simp add: updatableFields_def)
  have "job_ok job \<Longrightarrow> job_ok (fold (copy_field update) fs job)" if "''id'' \<notin> set fs" for fs
    using that by (induction fs arbitrary: job) auto
  with id show "job_ok job \<Longrightarrow> job_ok (update_fields update job)"
    by (simp add: update_fields_def)
  from id show "id_of (update_fields update job) = id_of job" by (rule update_fields_other)
  have "Name (fold (copy_field update) fs job) = Name job" for fs
    by (induction fs arbitrary: job) auto
  then show "Name (update_fields update job) = Name job" by (simp add: update_fields_def)
qed

lemma xmlmessage_ok [simp]:
  "job_ok job \<Longrightarrow> job_ok (JobUpdateXMLMessage job)"
  "t \<noteq> ''xmlmessage'' \<Longrightarrow> text_of t (JobUpdateXMLMessage job) = text_of t job"
  "Name (JobUpdateXMLMessage job) = Name job"
  by (simp_all add: JobUpdateXMLMessage_def job_ok_set_field)

text \<open>Replacing selected jobs one after the other by changed ones with the same id.\<close>

lemma fold_replace:
  assumes "db_ok d" and "distinct (map id_of js)"
    and "\<And>j. j \<in> set js \<Longrightarrow> id_of j \<in> id_of ` set (children d)"
    and "\<And>j. j \<in> set js \<Longrightarrow> job_ok (g j) \<and> id_of (g j) = id_of j"
  shows "children (fold (\<lambda>j d. snd (replace_items (with_id (g j)) True [g j] d)) js d) =
      filter (\<lambda>c. id_of c \<notin> id_of ` set js) (children d) @ map g js"
    (is "children (fold ?F js d) = _")
  using assms
proof (induction js arbitrary: d)
  case Nil
  then show ?case by simp
next
  case (Cons j js)
  note g = Cons.prems(4) [of j, simplified]
  have sel: "accepts (with_id (g j)) c \<longleftrightarrow> id_of c = id_of j" if "c \<in> set (children d)" for c
    using accepts_with_id [of c "g j"] g job_ok_id [of "g j"] Cons.prems(1) that
    by (simp add: db_ok_def list_all_iff)
  have ne: "filter (accepts (with_id (g j))) (children d) \<noteq> []"
    using Cons.prems(3) [of j] sel by (force simp: filter_empty_conv)
  have "filter (\<lambda>c. \<not> accepts (with_id (g j)) c) (children d) =
      filter (\<lambda>c. id_of c \<noteq> id_of j) (children d)"
    using sel by (intro filter_cong) auto
  with ne g have one: "children (?F j d) = filter (\<lambda>c. id_of c \<noteq> id_of j) (children d) @ [g j]"
    by simp
  have ok: "db_ok (?F j d)"
    using Cons.prems(1) g unfolding db_ok_def one
    by (auto simp: list_all_iff distinct_map_filterI)
  have "id_of i \<in> id_of ` set (children (?F j d))" if "i \<in> set js" for i
    using Cons.prems(2,3) that unfolding one by (force simp: image_iff)
  then have "children (fold ?F js (?F j d)) =
      filter (\<lambda>c. id_of c \<notin> id_of ` set js) (children (?F j d)) @ map g js"
    using Cons.prems(2,4) by (intro Cons.IH [OF ok]) simp_all
  then have "children (fold ?F js (?F j d)) =
      filter (\<lambda>c. id_of c \<notin> id_of ` set js)
        (filter (\<lambda>c. id_of c \<noteq> id_of j) (children d) @ [g j]) @ map g js"
    by (simp only: one)
  moreover have "id_of (g j) \<notin> id_of ` set js" using Cons.prems(2) g by simp
  ultimately show ?case by (simp add: conj_commute)
qed

section \<open>What the requests do\<close>

text \<open>The answers of a message, numbered from a first number, and the message with them.\<close>

fun numbered :: "nat \<Rightarrow> hash list \<Rightarrow> hash list" where
  "numbered n [] = []"
| "numbered n (job # rest) = Rename (answer_name n) job # numbered (n + 1) rest"

definition fju_message :: "string \<Rightarrow> string list \<Rightarrow> hash list \<Rightarrow> hash" where
  "fju_message server target jobs =
     address_fju server target (fold AddWithOwnership (numbered 1 jobs) new_fju)"

lemma numbered_append: "numbered n (xs @ ys) = numbered n xs @ numbered (n + length xs) ys"
  by (induction xs arbitrary: n) simp_all

lemma children_fold_Add [simp]: "children (fold AddWithOwnership js h) = children h @ js"
  by (induction js arbitrary: h) simp_all

lemma children_fju_message:
  "children (fju_message server target jobs) =
     SetText [''foreign_job_updates''] (NewHash ''header'' []) # numbered 1 jobs @
     [SetText [server] (NewHash ''source'' []), SetText target (NewHash ''target'' []),
      SetText [''ordered''] (NewHash ''sync'' [])]"
  by (simp add: fju_message_def address_fju_def new_fju_def AddWithOwnership_def)

subsection \<open>Changing local jobs\<close>

text \<open>What the flags of the loop say of the update.\<close>

definition status_given :: "hash \<Rightarrow> bool" where
  "status_given update =
     (case First ''status'' update of None \<Rightarrow> False | Some x \<Rightarrow> own_text x \<noteq> [])"

definition silent :: "hash \<Rightarrow> bool" where
  "silent update = (case First ''progress'' update of None \<Rightarrow> False
     | Some x \<Rightarrow> own_text x = ''forward'' \<or> own_text x = ''groom'')"

definition launches :: "hash \<Rightarrow> hash \<Rightarrow> bool" where
  "launches update job \<longleftrightarrow>
     status_given update \<and> text_of ''status'' (update_fields update job) = ''launch''"

definition acted_job :: "hash \<Rightarrow> hash \<Rightarrow> hash" where
  "acted_job update job =
     (if launches update job then set_field ''status'' ''processing'' (update_fields update job)
      else update_fields update job)"

definition modified :: "hash \<Rightarrow> hash \<Rightarrow> hash" where
  "modified update job = JobUpdateXMLMessage (acted_job update job)"

text \<open>The jobs handed to the consumer of PendingActions for one changed job.\<close>

definition actions :: "hash \<Rightarrow> hash \<Rightarrow> hash list" where
  "actions update job =
     (if launches update job then [acted_job update job] else []) @
     (if status_given update \<and> text_of ''status'' (acted_job update job) = ''wakeup''
      then [acted_job update job] else [])"

text \<open>The requests and timers that one field adds.\<close>

definition side_effect :: "string \<Rightarrow> hash \<Rightarrow> string \<Rightarrow> hash \<Rightarrow> jobdb \<Rightarrow> jobdb" where
  "side_effect server update field job st =
     snd (snd (snd (modify_field server update field (job, True, False, st))))"

fun side_effects :: "string \<Rightarrow> hash \<Rightarrow> string list \<Rightarrow> hash \<Rightarrow> jobdb \<Rightarrow> jobdb" where
  "side_effects server update [] job st = st"
| "side_effects server update (f # fs) job st =
     side_effects server update fs (copy_field update f job) (side_effect server update f job st)"

lemma modify_field_eq:
  "modify_field server update f (job, send, changed, st) =
     (copy_field update f job, send \<and> \<not> (f = ''progress'' \<and> silent update),
      changed \<or> f = ''status'' \<and> status_given update, side_effect server update f job st)"
  by (auto simp: modify_field_def side_effect_def copy_field_def silent_def status_given_def
      Let_def split: option.splits)

lemma modify_fields:
  "fold (modify_field server update) fs (job, send, changed, st) =
     (fold (copy_field update) fs job, send \<and> \<not> (''progress'' \<in> set fs \<and> silent update),
      changed \<or> ''status'' \<in> set fs \<and> status_given update,
      side_effects server update fs job st)"
  by (induction fs arbitrary: job send changed st) (auto simp: modify_field_eq)

lemma modify_all_fields:
  "fold (modify_field server update) updatableFields (job, True, False, st) =
     (update_fields update job, \<not> silent update, status_given update,
      side_effects server update updatableFields job st)"
  by (simp add: modify_fields update_fields_def) (simp add: updatableFields_def)

text \<open>The side effects are new requests and new timers only.\<close>

lemma request_sides [simp, job_simps]:
  "jobDB (enqueue r st) = jobDB st"
  "PendingActions (enqueue r st) = PendingActions st"
  "ForeignJobUpdates (enqueue r st) = ForeignJobUpdates st"
  "issued (enqueue r st) = issued st"
  "requests (enqueue r st) = requests st @ [r]"
  by (simp_all add: enqueue_def)

lemma JobsModifyLocal_sides [simp, job_simps]:
  "jobDB (JobsModifyLocal f u st) = jobDB st"
  "PendingActions (JobsModifyLocal f u st) = PendingActions st"
  "ForeignJobUpdates (JobsModifyLocal f u st) = ForeignJobUpdates st"
  "issued (JobsModifyLocal f u st) = issued st"
  by (simp_all add: JobsModifyLocal_def JobsRemoveLocal_def)

lemma side_effect_sides [simp, job_simps]:
  "jobDB (side_effect server update f job st) = jobDB st"
  "PendingActions (side_effect server update f job st) = PendingActions st"
  "ForeignJobUpdates (side_effect server update f job st) = ForeignJobUpdates st"
  "issued (side_effect server update f job st) = issued st"
  by (simp_all add: side_effect_def modify_field_def supersede_def JobsRemoveLocal_def
      scheduleProcessPendingActions_def Let_def split: option.split)

lemma side_effects_sides [simp, job_simps]:
  "jobDB (side_effects server update fs job st) = jobDB st"
  "PendingActions (side_effects server update fs job st) = PendingActions st"
  "ForeignJobUpdates (side_effects server update fs job st) = ForeignJobUpdates st"
  "issued (side_effects server update fs job st) = issued st"
  by (induction fs arbitrary: job st) simp_all

definition act :: "hash list \<Rightarrow> jobdb \<Rightarrow> jobdb" where
  "act js st = fold push_action js st"

lemma act_sides [simp, job_simps]:
  "jobDB (act js st) = jobDB st"
  "PendingActions (act js st) = PendingActions st @ map Clone js"
  "ForeignJobUpdates (act js st) = ForeignJobUpdates st"
  "issued (act js st) = issued st"
  "requests (act js st) = requests st"
  by (induction js arbitrary: st) (simp_all add: act_def push_action_def)

lemma start_action_eq:
  "start_action (update_fields update job, status_given update, st) =
     (acted_job update job, act (actions update job) st)"
  by (auto simp: start_action_def acted_job_def actions_def launches_def act_def Let_def)

lemma modify_one_eq:
  "modify_one server update job (fju, count, st) =
     (let st' = replace_job (modified update job)
                  (act (actions update job) (side_effects server update updatableFields job st))
      in if silent update then (fju, count, st')
         else (AddWithOwnership (Rename (answer_name count)
                 (drop_first ''original_id'' (modified update job))) fju, count + 1, st'))"
  unfolding modify_one_def
  by (simp add: modify_all_fields start_action_eq modified_def Let_def)

lemma replace_job_sides [simp, job_simps]:
  "PendingActions (replace_job job st) = PendingActions st"
  "ForeignJobUpdates (replace_job job st) = ForeignJobUpdates st"
  "issued (replace_job job st) = issued st"
  "requests (replace_job job st) = requests st"
  "jobDB (replace_job job st) = snd (replace_items (with_id job) True [job] (jobDB st))"
  by (simp_all add: replace_job_def)

text \<open>The loop over the selected jobs.\<close>

lemma modify_loop:
  assumes "fold (modify_one server update) js (fju, count, st) = (fju', count', st')"
  shows "fju' = (if silent update then fju else
      fold AddWithOwnership
        (numbered count (map (drop_first ''original_id'' \<circ> modified update) js)) fju)"
    and "PendingActions st' = PendingActions st @ map Clone (concat (map (actions update) js))"
    and "ForeignJobUpdates st' = ForeignJobUpdates st" and "issued st' = issued st"
    and "jobDB st' = fold (\<lambda>j d. snd (replace_items (with_id (modified update j)) True
      [modified update j] d)) js (jobDB st)"
  using assms
  by (induction js arbitrary: fju count st) (auto simp: modify_one_eq Let_def split: if_splits)

lemma modify_loop_count:
  "fst (snd (fold (modify_one server update) js (fju, count, st))) =
    (if silent update then count else count + length js)"
  by (induction js arbitrary: fju count st) (auto simp: modify_one_eq Let_def)

lemma modified_ok [simp]:
  "job_ok job \<Longrightarrow> job_ok (modified update job)"
  "id_of (modified update job) = id_of job"
  "Name (modified update job) = Name job"
  by (simp_all add: modified_def acted_job_def job_ok_set_field)

lemma db_ok_tidy [simp]: "db_ok d \<Longrightarrow> Sub c \<in> set (kids d) \<Longrightarrow> tidy c"
  by (simp add: db_ok_def list_all_iff)

lemma db_ok_Query [simp]: "db_ok d \<Longrightarrow> map Clone (filter p (children d)) = filter p (children d)"
  by (rule map_idI) auto

lemma jobDB_send_if_any [simp]:
  "jobDB (send_if_any server (fju, count, st)) = jobDB st"
  "PendingActions (send_if_any server (fju, count, st)) = PendingActions st"
  "issued (send_if_any server (fju, count, st)) = issued st"
  "ForeignJobUpdates (send_if_any server (fju, count, st)) =
     ForeignJobUpdates st @ (if count > 1 then [address_fju server [] fju] else [])"
  by (simp_all add: send_if_any_def send_update_def)

lemma db_ok_Name: "db_ok d \<Longrightarrow> Sub c \<in> set (kids d) \<Longrightarrow> Name c = ''job''"
  unfolding db_ok_def list_all_iff job_ok_def by simp

text \<open>
  The database afterwards: the selected jobs are replaced by changed ones, all others are
  the same; one message with the changed jobs is sent if there are any.
\<close>

lemma modify_local_effect:
  fixes f update server st
  defines "sel \<equiv> filter (accepts f) (children (jobDB st))"
  assumes ok: "db_ok (jobDB st)"
  shows "children (jobDB (perform_modify_local server f update st)) =
      filter (\<lambda>c. \<not> accepts f c) (children (jobDB st)) @ map (modified update) sel"
    and "PendingActions (perform_modify_local server f update st) =
      PendingActions st @ map Clone (concat (map (actions update) sel))"
    and "ForeignJobUpdates (perform_modify_local server f update st) = ForeignJobUpdates st @
      (if silent update \<or> sel = [] then []
       else [fju_message server [] (map (drop_first ''original_id'' \<circ> modified update) sel)])"
    and "issued (perform_modify_local server f update st) = issued st"
proof -
  obtain fju' count' st' where
    loop: "fold (modify_one server update) sel (new_fju, 1, st) = (fju', count', st')"
    by (cases "fold (modify_one server update) sel (new_fju, 1, st)")
  note l = modify_loop [OF loop]
  have cnt: "count' = (if silent update then 1 else 1 + length sel)"
    using modify_loop_count [of server update sel new_fju 1 st] loop by simp
  have eq: "perform_modify_local server f update st = send_if_any server (fju', count', st')"
    using loop ok by (simp add: perform_modify_local_def sel_def)
  have dist: "distinct (map id_of sel)"
    using ok by (simp add: sel_def db_ok_def distinct_map_filterI)
  have sub: "set sel \<subseteq> set (children (jobDB st))" by (auto simp: sel_def)
  have "children (jobDB st') = filter (\<lambda>c. id_of c \<notin> id_of ` set sel) (children (jobDB st)) @
      map (modified update) sel"
    unfolding l(5) using sub ok
    by (intro fold_replace ok dist) (auto simp: db_ok_def list_all_iff)
  moreover have "filter (\<lambda>c. id_of c \<notin> id_of ` set sel) (children (jobDB st)) =
      filter (\<lambda>c. \<not> accepts f c) (children (jobDB st))"
    using ok unfolding sel_def db_ok_def
    by (intro filter_cong) (auto simp: distinct_map dest: inj_onD)
  ultimately show "children (jobDB (perform_modify_local server f update st)) =
      filter (\<lambda>c. \<not> accepts f c) (children (jobDB st)) @ map (modified update) sel"
    by (simp add: eq)
  show "PendingActions (perform_modify_local server f update st) =
      PendingActions st @ map Clone (concat (map (actions update) sel))"
    "issued (perform_modify_local server f update st) = issued st"
    by (simp_all add: eq l)
  show "ForeignJobUpdates (perform_modify_local server f update st) = ForeignJobUpdates st @
      (if silent update \<or> sel = [] then []
       else [fju_message server [] (map (drop_first ''original_id'' \<circ> modified update) sel)])"
    using l(1,3) cnt by (auto simp: eq fju_message_def)
qed

subsection \<open>Removing local jobs\<close>

lemma remove_loop:
  "fold (remove_one stop) js (fju, count, st) =
     (fold AddWithOwnership (numbered count (map (done_job stop) js)) fju,
      count + length js, act (map (done_job stop) js) st)"
  by (induction js arbitrary: fju count st) (simp_all add: remove_one_def act_def Let_def)

lemma remove_local_effect:
  fixes f stop server st
  defines "sel \<equiv> filter (accepts f) (children (jobDB st))"
  shows "children (jobDB (perform_remove_local server f stop st)) =
      filter (\<lambda>c. \<not> accepts f c) (children (jobDB st))"
    and "PendingActions (perform_remove_local server f stop st) =
      PendingActions st @ map (Clone \<circ> done_job stop) sel"
    and "ForeignJobUpdates (perform_remove_local server f stop st) = ForeignJobUpdates st @
      (if sel = [] then [] else [fju_message server [] (map (done_job stop) sel)])"
    and "issued (perform_remove_local server f stop st) = issued st"
  by (simp_all add: perform_remove_local_def case_prod_beta remove_loop sel_def fju_message_def)

text \<open>A removed job as its peers and the consumer see it.\<close>

lemma done_job_text:
  "t \<notin> {''status'', ''periodic'', ''original_id'', ''xmlmessage''} \<Longrightarrow>
    text_of t (done_job stop job) = text_of t job"
  "single ''status'' job \<Longrightarrow> text_of ''status'' (done_job stop job) = ''done''"
  "single ''original_id'' job \<Longrightarrow> get1 ''original_id'' (done_job stop job) = []"
  "single ''periodic'' job \<Longrightarrow> stop \<Longrightarrow> text_of ''periodic'' (done_job stop job) = ''none''"
  "\<not> stop \<Longrightarrow> text_of ''periodic'' (done_job stop job) = text_of ''periodic'' job"
  by (simp_all add: done_job_def JobUpdateXMLMessage_def Let_def drop_first_single del: get1_drop_first)

subsection \<open>Adding local jobs\<close>

definition named_job :: "hash \<Rightarrow> hash" where
  "named_job job = JobUpdateXMLMessage (fst (name_job job undefined))"

text \<open>\<open>named_job\<close> does not depend on the state that is passed.\<close>

lemma fst_name_job: "fst (name_job job st) =
    (if text_of ''plainname'' job = [] then set_field ''plainname'' ''none'' job else job)"
  by (simp add: name_job_def Let_def)

lemma snd_name_job [simp, job_simps]:
  "jobDB (snd (name_job job st)) = jobDB st"
  "requests (snd (name_job job st)) = requests st"
  "issued (snd (name_job job st)) = issued st"
  "ForeignJobUpdates (snd (name_job job st)) = ForeignJobUpdates st"
  "PendingActions (snd (name_job job st)) = PendingActions st"
  by (simp_all add: name_job_def JobsUpdateNameForMAC_def Let_def)

lemma named_job_eq: "JobUpdateXMLMessage (fst (name_job job st)) = named_job job"
  by (simp add: named_job_def fst_name_job)

lemma named_job_other:
  "t \<notin> {''plainname'', ''xmlmessage''} \<Longrightarrow> text_of t (named_job job) = text_of t job"
  "t \<notin> {''plainname'', ''xmlmessage''} \<Longrightarrow> get1 t (named_job job) = get1 t job"
  "Name (named_job job) = Name job"
  by (simp_all add: named_job_def fst_name_job JobUpdateXMLMessage_def)

lemma add_local_effect:
  "children (jobDB (perform_add_local server job st)) =
     children (jobDB st) @ [Clone (named_job job)]"
  "PendingActions (perform_add_local server job st) = PendingActions st"
  "ForeignJobUpdates (perform_add_local server job st) = ForeignJobUpdates st @
     [AddWithOwnership (drop_first ''original_id'' (Rename ''answer1'' (named_job job)))
       (address_fju server [] new_fju)]"
  "issued (perform_add_local server job st) = issued st"
  "requests (perform_add_local server job st) = requests st"
  by (simp_all add: perform_add_local_def case_prod_beta Let_def named_job_eq send_update_def
      scheduleProcessPendingActions_def ClientUnthrottle_call_def)

subsection \<open>Foreign jobs\<close>

lemma remove_foreign_effect:
  "children (jobDB (perform_remove_foreign f st)) = filter (\<lambda>c. \<not> accepts f c) (children (jobDB st))"
  "PendingActions (perform_remove_foreign f st) = PendingActions st"
  "ForeignJobUpdates (perform_remove_foreign f st) = ForeignJobUpdates st"
  "issued (perform_remove_foreign f st) = issued st"
  by (simp_all add: perform_remove_foreign_def)

lemma modify_foreign_loop:
  "jobDB (fold (modify_foreign update) js st) =
     fold (\<lambda>j d. snd (replace_items (with_id (JobUpdateXMLMessage (update_fields update j))) True
       [JobUpdateXMLMessage (update_fields update j)] d)) js (jobDB st)"
  "PendingActions (fold (modify_foreign update) js st) = PendingActions st"
  "ForeignJobUpdates (fold (modify_foreign update) js st) = ForeignJobUpdates st"
  "issued (fold (modify_foreign update) js st) = issued st"
  by (induction js arbitrary: st) (simp_all add: modify_foreign_def)

text \<open>What is stored for a foreign job that is new here: its id becomes the original id.\<close>

definition adopted :: "string \<Rightarrow> hash \<Rightarrow> hash" where
  "adopted new_id job =
     named_job (set_field ''id'' new_id (set_field ''original_id'' (id_of job) (Rename ''job'' job)))"

lemma add_foreign_effect:
  "children (jobDB (add_foreign ids job st)) =
     children (jobDB st) @ [Clone (adopted (itoa (ids (issued st))) job)]"
  "PendingActions (add_foreign ids job st) = PendingActions st"
  "ForeignJobUpdates (add_foreign ids job st) = ForeignJobUpdates st"
  "issued (add_foreign ids job st) = Suc (issued st)"
  by (simp_all add: add_foreign_def case_prod_beta Let_def named_job_eq adopted_def
      ClientUnthrottle_call_def)

lemma add_modify_foreign_effect:
  fixes f job ids st
  defines "sel \<equiv> filter (accepts f) (children (jobDB st))"
  assumes ok: "db_ok (jobDB st)"
  shows "children (jobDB (perform_add_modify_foreign ids f job st)) =
      (if sel = [] then children (jobDB st) @ [Clone (adopted (itoa (ids (issued st))) job)]
       else filter (\<lambda>c. \<not> accepts f c) (children (jobDB st)) @
         map (\<lambda>j. JobUpdateXMLMessage (update_fields job j)) sel)"
    and "PendingActions (perform_add_modify_foreign ids f job st) = PendingActions st"
    and "ForeignJobUpdates (perform_add_modify_foreign ids f job st) = ForeignJobUpdates st"
    and "issued (perform_add_modify_foreign ids f job st) =
      (if sel = [] then Suc (issued st) else issued st)"
proof -
  have "filter (\<lambda>c. Name c = ''job'') sel = sel"
    unfolding filter_id_conv using ok db_ok_Name by (simp add: sel_def)
  moreover have "map Clone sel = sel" using ok by (simp add: sel_def)
  ultimately have found: "iter_named ''job'' (kids (Query (accepts f) (jobDB st))) = sel"
    by (simp only: iter_named_eq children_Query sel_def [symmetric])
  have dist: "distinct (map id_of sel)"
    using ok by (simp add: sel_def db_ok_def distinct_map_filterI)
  have loop: "children (jobDB (fold (modify_foreign job) sel st)) =
      filter (\<lambda>c. id_of c \<notin> id_of ` set sel) (children (jobDB st)) @
      map (\<lambda>j. JobUpdateXMLMessage (update_fields job j)) sel"
    unfolding modify_foreign_loop using ok
    by (intro fold_replace ok dist) (auto simp: db_ok_def list_all_iff sel_def)
  have "filter (\<lambda>c. id_of c \<notin> id_of ` set sel) (children (jobDB st)) =
      filter (\<lambda>c. \<not> accepts f c) (children (jobDB st))"
    using ok unfolding sel_def db_ok_def
    by (intro filter_cong) (auto simp: distinct_map dest: inj_onD)
  with loop found show "children (jobDB (perform_add_modify_foreign ids f job st)) =
      (if sel = [] then children (jobDB st) @ [Clone (adopted (itoa (ids (issued st))) job)]
       else filter (\<lambda>c. \<not> accepts f c) (children (jobDB st)) @
         map (\<lambda>j. JobUpdateXMLMessage (update_fields job j)) sel)"
    by (cases sel) (simp_all add: perform_add_modify_foreign_def add_foreign_effect)
  show "PendingActions (perform_add_modify_foreign ids f job st) = PendingActions st"
    "ForeignJobUpdates (perform_add_modify_foreign ids f job st) = ForeignJobUpdates st"
    "issued (perform_add_modify_foreign ids f job st) =
      (if sel = [] then Suc (issued st) else issued st)"
    by (cases sel; simp add: perform_add_modify_foreign_def found add_foreign_effect
        modify_foreign_loop del: fold.simps)+
qed

subsection \<open>Names and full copies\<close>

abbreviation db_ids :: "hash \<Rightarrow> string set" where
  "db_ids d \<equiv> id_of ` set (children d)"

lemma replace_one:
  assumes "db_ok d" and "job_ok job" and "id_of job \<in> db_ids d"
  shows "children (snd (replace_items (with_id job) True [job] d)) =
      filter (\<lambda>c. id_of c \<noteq> id_of job) (children d) @ [job]"
    and "db_ok (snd (replace_items (with_id job) True [job] d))"
    and "db_ids (snd (replace_items (with_id job) True [job] d)) = db_ids d"
proof -
  show c: "children (snd (replace_items (with_id job) True [job] d)) =
      filter (\<lambda>c. id_of c \<noteq> id_of job) (children d) @ [job]"
    using fold_replace [of d "[job]" "\<lambda>j. j"] assms by simp
  then show "db_ok (snd (replace_items (with_id job) True [job] d))"
    using assms by (auto simp: db_ok_def list_all_iff distinct_map_filterI)
  show "db_ids (snd (replace_items (with_id job) True [job] d)) = db_ids d"
    using assms(3) unfolding c by auto
qed

lemma rename_one_ok:
  assumes "db_ok (jobDB st)" and "job_ok found" and "id_of found \<in> db_ids (jobDB st)"
  shows "db_ok (jobDB (rename_one server name found st))"
    and "db_ids (jobDB (rename_one server name found st)) = db_ids (jobDB st)"
    and "requests (rename_one server name found st) = requests st"
    and "issued (rename_one server name found st) = issued st"
    and "PendingActions (rename_one server name found st) = PendingActions st"
proof -
  note r = replace_one [OF assms(1), of "set_field ''plainname'' name found"]
  show "db_ok (jobDB (rename_one server name found st))"
    using assms r(2) by (simp add: rename_one_def job_ok_set_field Let_def send_update_def)
  show "db_ids (jobDB (rename_one server name found st)) = db_ids (jobDB st)"
    using assms r(3) by (simp add: rename_one_def job_ok_set_field Let_def send_update_def)
qed (simp_all add: rename_one_def Let_def send_update_def)

lemma rename_loop_ok:
  assumes "db_ok (jobDB st)" and "\<forall>j \<in> set js. job_ok j \<and> id_of j \<in> db_ids (jobDB st)"
  shows "db_ok (jobDB (fold (rename_one server name) js st)) \<and>
    db_ids (jobDB (fold (rename_one server name) js st)) = db_ids (jobDB st) \<and>
    requests (fold (rename_one server name) js st) = requests st \<and>
    issued (fold (rename_one server name) js st) = issued st \<and>
    PendingActions (fold (rename_one server name) js st) = PendingActions st"
  using assms by (induction js arbitrary: st) (simp_all add: rename_one_ok)

lemma update_name_effect:
  assumes ok: "db_ok (jobDB st)"
  shows "db_ok (jobDB (perform_update_name server f job st))"
    and "db_ids (jobDB (perform_update_name server f job st)) = db_ids (jobDB st)"
    and "requests (perform_update_name server f job st) = requests st"
    and "issued (perform_update_name server f job st) = issued st"
    and "PendingActions (perform_update_name server f job st) = PendingActions st"
proof -
  let ?js = "iter_named ''job'' (kids (Query (accepts f) (jobDB st)))"
  have js: "?js = filter (\<lambda>c. Name c = ''job'') (filter (accepts f) (children (jobDB st)))"
    using ok by (simp only: iter_named_eq children_Query db_ok_Query)
  have all: "\<forall>j \<in> set ?js. job_ok j \<and> id_of j \<in> db_ids (jobDB st)"
    unfolding js using ok by (auto simp: db_ok_def list_all_iff)
  note all' = rename_loop_ok [OF ok all, of server "text_of ''plainname'' job"]
  show "db_ok (jobDB (perform_update_name server f job st))"
    "db_ids (jobDB (perform_update_name server f job st)) = db_ids (jobDB st)"
    "requests (perform_update_name server f job st) = requests st"
    "issued (perform_update_name server f job st) = issued st"
    "PendingActions (perform_update_name server f job st) = PendingActions st"
    unfolding perform_update_name_def using all' by blast+
qed

lemma sync_all_effect:
  "jobDB (perform_sync_all server ids fju st) = jobDB st"
  "PendingActions (perform_sync_all server ids fju st) = PendingActions st"
  "requests (perform_sync_all server ids fju st) = requests st"
  by (simp_all add: perform_sync_all_def Let_def send_update_def split: prod.split)

lemma cancel_old_issued: "cancel_old ids k count ks = (ks', k', count') \<Longrightarrow> k \<le> k'"
  by (induction ids k count ks arbitrary: ks' k' count' rule: cancel_old.induct)
    (fastforce split: if_splits prod.splits simp: Let_def)+

lemma sync_all_issued: "issued st \<le> issued (perform_sync_all server ids fju st)"
  by (auto simp: perform_sync_all_def Let_def send_update_def cancel_old_issued
      split: prod.split)

lemma forward_effect:
  assumes "perform_forward server f update st = Returns st'"
  shows "jobDB st' = jobDB st" and "PendingActions st' = PendingActions st"
    and "requests st' = requests st" and "issued st' = issued st"
proof -
  have "jobDB (fold (\<lambda>(s, c, fju). send_update (F s fju)) xs st) = jobDB st \<and>
    PendingActions (fold (\<lambda>(s, c, fju). send_update (F s fju)) xs st) = PendingActions st \<and>
    requests (fold (\<lambda>(s, c, fju). send_update (F s fju)) xs st) = requests st \<and>
    issued (fold (\<lambda>(s, c, fju). send_update (F s fju)) xs st) = issued st"
    for xs :: server_updates and F
    by (induction xs arbitrary: st) (auto simp: send_update_def)
  with assms show "jobDB st' = jobDB st" "PendingActions st' = PendingActions st"
    "requests st' = requests st" "issued st' = issued st"
    by (auto simp: perform_forward_def Let_def split: if_splits)
qed

subsection \<open>When jobs are launched\<close>

text \<open>The update that a ping sends to the jobs that are due, and that for waking machines.\<close>

definition set_status :: "string \<Rightarrow> hash" where
  "set_status v = NewHash ''job'' [''status'', v]"

lemma Clone_set_status [simp]: "Clone (set_status v) = set_status v"
  by (simp add: set_status_def)

lemma set_status_First: "v \<noteq> [] \<Longrightarrow>
    First t (set_status v) = (if t = ''status'' then Some (Hash ''status'' [Txt v]) else None)"
  by (simp add: set_status_def First_eq_find AddWithOwnership_def SetText_def AppendString_def)

lemma update_fields_status:
  "v \<noteq> [] \<Longrightarrow> update_fields (set_status v) job = set_field ''status'' v job"
  unfolding update_fields_def updatableFields_def
  by (simp add: copy_field_def set_status_First own_text_def TextFragments_def)

lemma launch_update:
  assumes "single ''status'' job"
  shows "launches (set_status ''launch'') job"
    and "text_of ''status'' (modified (set_status ''launch'') job) = ''processing''"
    and "actions (set_status ''launch'') job = [acted_job (set_status ''launch'') job]"
    and "text_of ''status'' (acted_job (set_status ''launch'') job) = ''processing''"
proof -
  have u: "update_fields (set_status ''launch'') job = set_field ''status'' ''launch'' job"
    by (rule update_fields_status) simp
  have g: "status_given (set_status ''launch'')"
    by (simp add: status_given_def set_status_First own_text_def TextFragments_def)
  show l: "launches (set_status ''launch'') job"
    unfolding launches_def u using assms g by simp
  show t: "text_of ''status'' (acted_job (set_status ''launch'') job) = ''processing''"
    unfolding acted_job_def u using l assms by simp
  then show "text_of ''status'' (modified (set_status ''launch'') job) = ''processing''"
    by (simp add: modified_def)
  show "actions (set_status ''launch'') job = [acted_job (set_status ''launch'') job]"
    unfolding actions_def t using l by simp
qed

lemma copy_field_single: "single t job \<Longrightarrow> single t (copy_field update f job)"
  by (simp add: copy_field_def single_set_field split: option.split)

lemma update_fields_single: "single t job \<Longrightarrow> single t (update_fields update job)"
proof -
  have "single t job \<Longrightarrow> single t (fold (copy_field update) fs job)" for fs
    by (induction fs arbitrary: job) (simp_all add: copy_field_single)
  then show "single t job \<Longrightarrow> single t (update_fields update job)" by (simp add: update_fields_def)
qed

lemma modified_single: "single t job \<Longrightarrow> single t (modified update job)"
  by (simp add: modified_def acted_job_def JobUpdateXMLMessage_def single_set_field
      update_fields_single)

lemma not_silent_status: "v \<noteq> [] \<Longrightarrow> \<not> silent (set_status v)"
  by (simp add: silent_def set_status_First)

lemma acted_job_id: "id_of (acted_job update job) = id_of job"
  by (simp add: acted_job_def)

section \<open>Properties\<close>

text \<open>A database with one job, for the concrete instances.\<close>

definition example_job :: hash where
  "example_job = Hash ''job'' [Sub (Hash ''id'' [Txt ''7'']), Sub (Hash ''status'' [Txt ''waiting'']),
     Sub (Hash ''siserver'' [Txt ''me''])]"

definition example_jobdb :: jobdb where
  "example_jobdb = \<lparr>jobDB = Hash ''jobdb'' [Sub example_job], requests = [], replies = [],
     ForeignJobUpdates = [], PendingActions = [], issued = 0, timers = [], name_lookups = [],
     unthrottled = [], forwards = 0\<rparr>"

lemma example_job_fields:
  "get1 t example_job = (if t = ''id'' then [''7''] else if t = ''status'' then [''waiting'']
     else if t = ''siserver'' then [''me''] else [])"
  by (simp add: example_job_def get1_eq own_text_def TextFragments_def)

lemma example_jobdb_ok [simp]:
  "db_ok (jobDB example_jobdb)" "children (jobDB example_jobdb) = [example_job]"
proof -
  have "itoa 7 = ''7''" by code_simp
  then have "job_ok example_job"
    unfolding job_ok_def example_job_fields by (auto simp: example_job_def intro: exI [of _ 7])
  then show "db_ok (jobDB example_jobdb)" by (simp add: db_ok_def example_jobdb_def)
qed (simp add: example_jobdb_def)

text \<open>Changing local jobs. The request replaces exactly the selected jobs, each by its
  changed form under the same id, and leaves all others as they are; the jobs that are
  launched or woken up are handed over in order; and unless the change is an internal one
  the peers get one message with all changed jobs, without their original_id.\<close>

theorem modify_local_request:
  assumes "db_ok (jobDB st)"
    and "perform server ids (RModifyLocal f update) st = Returns st'"
  shows "let sel = filter (accepts f) (children (jobDB st)) in
    children (jobDB st') =
      filter (\<lambda>c. \<not> accepts f c) (children (jobDB st)) @ map (modified update) sel \<and>
    map id_of (map (modified update) sel) = map id_of sel \<and>
    PendingActions st' = PendingActions st @ map Clone (concat (map (actions update) sel)) \<and>
    ForeignJobUpdates st' = ForeignJobUpdates st @
      (if silent update \<or> sel = [] then []
       else [fju_message server [] (map (drop_first ''original_id'' \<circ> modified update) sel)])"
  using modify_local_effect [OF assms(1), of server f update] assms(2)
  by (simp add: Let_def)

theorem modify_local_request_witness:
  "\<exists>st'. perform ''me'' (\<lambda>k. k) (RModifyLocal FilterAll (set_status ''launch'')) example_jobdb =
      Returns st' \<and>
    children (jobDB st') = [modified (set_status ''launch'') example_job] \<and>
    length (ForeignJobUpdates st') = 1"
proof -
  obtain st' where st': "perform ''me'' (\<lambda>k. k) (RModifyLocal FilterAll (set_status ''launch''))
      example_jobdb = Returns st'" by simp
  from modify_local_request [OF _ this] st' show ?thesis
    by (simp add: not_silent_status) (simp add: example_jobdb_def)
qed

text \<open>C6: Launching. When the selected jobs get the status launch, each of them is stored
  with the status processing and is handed over to the consumer of PendingActions once, in
  that status, in the order of the database; no other job changes or is handed over.\<close>

theorem launched_once:
  assumes "db_ok (jobDB st)"
    and "\<forall>j \<in> set (filter (accepts f) (children (jobDB st))). single ''status'' j"
    and "perform server ids (RModifyLocal f (set_status ''launch'')) st = Returns st'"
  shows "\<exists>stored handed. let sel = filter (accepts f) (children (jobDB st)) in
    children (jobDB st') = filter (\<lambda>c. \<not> accepts f c) (children (jobDB st)) @ stored \<and>
    PendingActions st' = PendingActions st @ handed \<and>
    map id_of stored = map id_of sel \<and> map id_of handed = map id_of sel \<and>
    list_all (\<lambda>j. text_of ''status'' j = ''processing'') (stored @ handed)"
proof -
  let ?u = "set_status ''launch''"
  let ?sel = "filter (accepts f) (children (jobDB st))"
  have "list_all (single ''status'') js \<Longrightarrow> concat (map (actions ?u) js) = map (acted_job ?u) js" for js
    by (induction js) (simp_all add: launch_update(3))
  with assms(2) have one: "concat (map (actions ?u) ?sel) = map (acted_job ?u) ?sel"
    by (simp add: list_all_iff)
  note effect = modify_local_effect [OF assms(1), of server f ?u]
  have st': "st' = perform_modify_local server f ?u st" using assms(3) by simp
  show ?thesis
    unfolding Let_def st'
    apply (rule exI [of _ "map (modified ?u) ?sel"], rule exI [of _ "map (Clone \<circ> acted_job ?u) ?sel"])
    using effect assms(2) by (simp add: one launch_update acted_job_id) (auto simp: list_all_iff launch_update)
qed

theorem launched_once_witness:
  "\<exists>st'. perform ''me'' (\<lambda>k. k) (RModifyLocal FilterAll (set_status ''launch'')) example_jobdb =
      Returns st' \<and>
    map (text_of ''status'') (children (jobDB st')) = [''processing''] \<and>
    map (text_of ''status'') (PendingActions st') = [''processing'']"
proof -
  obtain st' where st': "perform ''me'' (\<lambda>k. k) (RModifyLocal FilterAll (set_status ''launch''))
      example_jobdb = Returns st'" by simp
  have "single ''status'' example_job" by (simp add: single_def example_job_fields)
  with launched_once [OF _ _ st'] obtain sto handed where
    "children (jobDB st') = sto" "PendingActions st' = PendingActions example_jobdb @ handed"
    "map id_of sto = [id_of example_job]" "map id_of handed = [id_of example_job]"
    "list_all (\<lambda>j. text_of ''status'' j = ''processing'') (sto @ handed)"
    by auto
  with st' show ?thesis by (auto simp: example_jobdb_def)
qed

text \<open>Removing local jobs. The selected jobs leave the database, all others stay; each is
  handed over once with the status done and without original_id (its period forced to none
  if that was asked for), and the peers get one message with the same jobs.\<close>

theorem remove_local_request:
  assumes "perform server ids (RRemoveLocal f stop) st = Returns st'"
    and "\<forall>j \<in> set (filter (accepts f) (children (jobDB st))).
      single ''status'' j \<and> single ''original_id'' j \<and> single ''periodic'' j"
  shows "\<exists>gone. let sel = filter (accepts f) (children (jobDB st)) in
    children (jobDB st') = filter (\<lambda>c. \<not> accepts f c) (children (jobDB st)) \<and>
    map id_of gone = map id_of sel \<and>
    list_all (\<lambda>j. text_of ''status'' j = ''done'' \<and> get1 ''original_id'' j = [] \<and>
      (stop \<longrightarrow> text_of ''periodic'' j = ''none'')) gone \<and>
    PendingActions st' = PendingActions st @ map Clone gone \<and>
    ForeignJobUpdates st' = ForeignJobUpdates st @
      (if sel = [] then [] else [fju_message server [] gone])"
  unfolding Let_def
  using remove_local_effect [of server f stop st] assms
  by (intro exI [of _ "map (done_job stop) (filter (accepts f) (children (jobDB st)))"])
    (simp add: list_all_iff done_job_text)

theorem remove_local_request_witness:
  "\<exists>st'. perform ''me'' (\<lambda>k. k) (RRemoveLocal FilterAll True) example_jobdb = Returns st' \<and>
    children (jobDB st') = [] \<and> length (PendingActions st') = 1 \<and>
    length (ForeignJobUpdates st') = 1"
proof -
  obtain st' where st': "perform ''me'' (\<lambda>k. k) (RRemoveLocal FilterAll True) example_jobdb =
      Returns st'" by simp
  have "single ''status'' example_job \<and> single ''original_id'' example_job \<and>
      single ''periodic'' example_job"
    by (simp add: single_def example_job_fields)
  with remove_local_request [OF st'] st' show ?thesis
    by (auto simp: example_jobdb_def)
qed

text \<open>The messages to the peers number their answers from 1 without gaps, so the n-th
  changed job is the element answern, and carry the three fields that address them.\<close>

theorem update_message_layout:
  "children (fju_message server target jobs) =
     SetText [''foreign_job_updates''] (NewHash ''header'' []) #
     map (\<lambda>i. Rename (answer_name (i + 1)) (jobs ! i)) [0..<length jobs] @
     [SetText [server] (NewHash ''source'' []), SetText target (NewHash ''target'' []),
      SetText [''ordered''] (NewHash ''sync'' [])]"
proof -
  have "numbered n jobs = map (\<lambda>i. Rename (answer_name (i + n)) (jobs ! i)) [0..<length jobs]" for n
    by (induction jobs arbitrary: n) (simp_all add: map_upt_Suc del: upt_Suc)
  then show ?thesis by (simp add: children_fju_message)
qed

text \<open>A request to change jobs is divided by the server in charge: every job the filter
  selects is selected by exactly one of the two requests that \<open>JobsModify\<close> makes, the change
  of local jobs if it belongs to this server and the forwarding otherwise.\<close>

theorem modify_is_divided:
  assumes "text_of ''status'' update \<noteq> ''done''"
  shows "\<exists>own others. requests (JobsModify server f update st) = requests st @
      [RModifyLocal own (Clone update), RForward others (Clone update)] \<and>
    accepts own job = (accepts f job \<and> accepts (local_jobs server) job) \<and>
    accepts others job = (accepts f job \<and> \<not> accepts (local_jobs server) job)"
  using assms
  by (simp add: JobsModify_def JobsModifyLocal_def JobsForwardModifyRequest_def conj_commute)

theorem modify_is_divided_witness:
  "\<exists>own others. requests (JobsModify ''me'' FilterAll (set_status ''waiting'') example_jobdb) =
      [RModifyLocal own (set_status ''waiting''), RForward others (set_status ''waiting'')] \<and>
    accepts own example_job \<and> \<not> accepts others example_job"
proof -
  have "text_of ''status'' (set_status ''waiting'') \<noteq> ''done''"
    by (simp add: set_status_def text_of_eq get1_eq)
  moreover have "accepts (local_jobs ''me'') example_job"
    by (simp add: local_jobs_def example_job_fields)
  ultimately show ?thesis
    using modify_is_divided [of "set_status ''waiting''" "''me''" FilterAll example_jobdb example_job]
    by (simp add: example_jobdb_def)
qed

text \<open>The message a job stands for can be read back from its field xmlmessage.\<close>

theorem xmlmessage_field:
  assumes "single ''xmlmessage'' job"
  shows "DecodeString (text_of ''xmlmessage'' (JobUpdateXMLMessage job)) = Some (xml_message job)"
  using assms by (simp add: JobUpdateXMLMessage_def Decode_Encode)

theorem xmlmessage_field_witness:
  "DecodeString (text_of ''xmlmessage'' (JobUpdateXMLMessage example_job)) =
    Some (xml_message example_job)"
  by (rule xmlmessage_field) (simp add: single_def example_job_fields)

text \<open>The lag of the groom ticker is brought into the range of half a day on either side
  without changing it modulo a day, for any two times of day at most a day and an interval
  apart.\<close>

theorem groomlag_normalised:
  assumes "0 \<le> minutes" "minutes < 24*60" "0 \<le> next_time" "next_time < 36*60"
  shows "-12*60 < groomlag_of minutes next_time \<and> groomlag_of minutes next_time \<le> 12*60 \<and>
    groomlag_of minutes next_time mod (24*60) = (minutes - next_time) mod (24*60)"
proof -
  have "(m - 1440) mod 1440 = m mod (1440::int)" "(m + 1440) mod 1440 = m mod (1440::int)" for m
    by simp_all
  with assms show ?thesis
    by (auto simp: groomlag_of_def Let_def)
qed

theorem groomlag_normalised_witness:
  "-12*60 < groomlag_of 5 1439 \<and> groomlag_of 5 1439 \<le> 12*60 \<and>
    groomlag_of 5 1439 mod (24*60) = (5 - 1439) mod (24*60)"
  by (rule groomlag_normalised) simp_all

end
