(* ===== verification/JobInvariants.thy ===== *)
theory JobInvariants
  imports JobDB
begin

text \<open>
  The job database as a state machine: the calls other components make and the events of
  the loop of \<open>handleJobDBRequests\<close>, in any order. The invariant is the identity of jobs: at
  any time every job of the database has one id, a number that was drawn from the counter
  (or was loaded), and no two jobs, stored or on their way, share it.
\<close>

section \<open>Steps\<close>

datatype job_event =
    Handle
  | CallQueryJobs hash_filter
  | CallAddLocal hash
  | CallModify hash_filter hash
  | CallModifyLocal hash_filter hash
  | CallRemove hash_filter
  | CallRemoveLocal hash_filter bool
  | CallForward hash_filter hash
  | CallRemoveForeign hash_filter
  | CallAddOrModifyForeign hash_filter hash
  | CallSyncAll string "hash option"
  | NameFound string string
  | Ping string
  | Groom hash

text \<open>
  The outside world: AddTimestamp is util.AddTimestamp, SystemData the answers of the
  LDAP directory.
\<close>

record environment =
  this_server :: string
  counter :: "nat \<Rightarrow> nat"
  AddTimestamp :: "string \<Rightarrow> string \<Rightarrow> string result"
  SystemData :: "string \<Rightarrow> hash result"

fun job_step :: "environment \<Rightarrow> job_event \<Rightarrow> jobdb \<Rightarrow> jobdb outcome" where
  "job_step env Handle st = handle_request (this_server env) (counter env) st"
| "job_step env (CallQueryJobs f) st = Returns (JobsQuery f st)"
| "job_step env (CallAddLocal job) st = Returns (fst (JobAddLocal (counter env) job st))"
| "job_step env (CallModify f update) st = Returns (JobsModify (this_server env) f update st)"
| "job_step env (CallModifyLocal f update) st = Returns (JobsModifyLocal f update st)"
| "job_step env (CallRemove f) st = Returns (JobsRemove (this_server env) f st)"
| "job_step env (CallRemoveLocal f stop) st = Returns (JobsRemoveLocal f stop st)"
| "job_step env (CallForward f update) st = Returns (JobsForwardModifyRequest f update st)"
| "job_step env (CallRemoveForeign f) st = Returns (JobsRemoveForeign f st)"
| "job_step env (CallAddOrModifyForeign f job) st = Returns (JobsAddOrModifyForeign f job st)"
| "job_step env (CallSyncAll target old) st = Returns (JobsSyncAll (this_server env) target old st)"
| "job_step env (NameFound mac name) st = Returns (name_found mac name st)"
| "job_step env (Ping now_ts) st =
     Returns (process_pending (AddTimestamp env) (this_server env) now_ts st)"
| "job_step env (Groom jobs) st = Returns (groomJobDB (SystemData env) (this_server env) jobs st)"

text \<open>
  What the callers respect: a job that is handed in has at most one id element, and a new
  local job has the outer tag \<open>job\<close>.
\<close>

fun legal :: "job_event \<Rightarrow> bool" where
  "legal (CallAddLocal job) = (Name job = ''job'' \<and> single ''id'' job)"
| "legal (CallAddOrModifyForeign f job) = single ''id'' job"
| "legal _ = True"

inductive job_reach :: "environment \<Rightarrow> jobdb \<Rightarrow> jobdb \<Rightarrow> bool"
  for env :: environment and st0 :: jobdb where
  reach_start: "job_reach env st0 st0"
| reach_step: "job_reach env st0 st \<Longrightarrow> legal e \<Longrightarrow> job_step env e st = Returns st' \<Longrightarrow>
    job_reach env st0 st'"

inductive_cases job_reach_cases: "job_reach env st0 st"

section \<open>Identity of jobs\<close>

text \<open>The ids of the local jobs that have been announced but not yet stored.\<close>

fun queued_ids :: "request list \<Rightarrow> string list" where
  "queued_ids [] = []"
| "queued_ids (RAddLocal job # rs) = id_of job # queued_ids rs"
| "queued_ids (r # rs) = queued_ids rs"

fun request_ok :: "request \<Rightarrow> bool" where
  "request_ok (RAddLocal job) = (Name job = ''job'' \<and> (\<exists>k. get1 ''id'' job = [itoa k]))"
| "request_ok (RAddModifyForeign f job) = single ''id'' job"
| "request_ok _ = True"

text \<open>Requests that carry no new job.\<close>

fun no_job :: "request \<Rightarrow> bool" where
  "no_job (RAddLocal job) = False"
| "no_job (RAddModifyForeign f job) = False"
| "no_job _ = True"

lemma queued_ids_append [simp]: "queued_ids (rs @ rs') = queued_ids rs @ queued_ids rs'"
  by (induction rs rule: queued_ids.induct) auto

lemma no_job_simps: "no_job r \<Longrightarrow> request_ok r" "no_job r \<Longrightarrow> queued_ids (r # rs) = queued_ids rs"
  by (cases r; simp)+

lemma queued_ids_no_job: "list_all no_job rs \<Longrightarrow> queued_ids rs = []"
  by (induction rs) (auto simp: no_job_simps)

definition drawn :: "(nat \<Rightarrow> nat) \<Rightarrow> nat \<Rightarrow> string set" where
  "drawn ids k = itoa ` ids ` {..<k}"

definition ids_inv :: "(nat \<Rightarrow> nat) \<Rightarrow> string set \<Rightarrow> jobdb \<Rightarrow> bool" where
  "ids_inv ids old st \<longleftrightarrow>
     db_ok (jobDB st) \<and> distinct (queued_ids (requests st)) \<and>
     db_ids (jobDB st) \<inter> set (queued_ids (requests st)) = {} \<and>
     db_ids (jobDB st) \<union> set (queued_ids (requests st)) \<subseteq> old \<union> drawn ids (issued st) \<and>
     list_all request_ok (requests st)"

text \<open>A change of the state that is harmless: new requests without jobs, nothing else.\<close>

definition only_requests :: "jobdb \<Rightarrow> jobdb \<Rightarrow> bool" where
  "only_requests st st' \<longleftrightarrow> jobDB st' = jobDB st \<and> issued st' = issued st \<and>
     (\<exists>rs. requests st' = requests st @ rs \<and> list_all no_job rs)"

lemma only_requests_refl [intro]: "only_requests st st"
  by (simp add: only_requests_def)

lemma only_requests_trans [trans]:
  "only_requests st st' \<Longrightarrow> only_requests st' st'' \<Longrightarrow> only_requests st st''"
  by (auto simp: only_requests_def)

lemma only_requests_enqueue:
  "only_requests st0 st \<Longrightarrow> no_job r \<Longrightarrow> only_requests st0 (enqueue r st)"
  by (auto simp: only_requests_def)

lemma only_requests_calls [intro]:
  assumes "only_requests st0 st"
  shows "only_requests st0 (JobsQuery f st)"
    and "only_requests st0 (JobsRemoveLocal f stop st)"
    and "only_requests st0 (JobsModifyLocal f u st)"
    and "only_requests st0 (JobsForwardModifyRequest f u st)"
    and "only_requests st0 (JobsRemoveForeign f st)"
    and "only_requests st0 (JobsSyncAll s target old st)"
    and "only_requests st0 (name_found mac name st)"
    and "only_requests st0 (scheduleProcessPendingActions t m st)"
  using assms
  by (simp_all add: JobsQuery_def JobsRemoveLocal_def JobsModifyLocal_def JobsSyncAll_def
      JobsForwardModifyRequest_def JobsRemoveForeign_def name_found_def Let_def
      only_requests_enqueue)
    (simp add: scheduleProcessPendingActions_def only_requests_def)

lemma only_requests_modify [intro]:
  assumes "only_requests st0 st"
  shows "only_requests st0 (JobsModify s f u st)" and "only_requests st0 (JobsRemove s f st)"
    and "only_requests st0 (process_pending at s now st)"
  using assms by (auto simp: JobsModify_def JobsRemove_def process_pending_def)

lemma only_requests_groom [intro]:
  "only_requests st0 st \<Longrightarrow> only_requests st0 (groomJobDB sd s jobs st)"
proof -
  have one: "only_requests st0 st \<Longrightarrow> only_requests st0 (groom_job sd s job st)" for job st
    unfolding groom_job_def by (auto split: sum.split)
  have "only_requests st0 st \<Longrightarrow> only_requests st0 (fold (groom_job sd s) js st)" for js
    by (induction js arbitrary: st) (auto intro: one)
  then show "only_requests st0 st \<Longrightarrow> only_requests st0 (groomJobDB sd s jobs st)"
    by (simp add: groomJobDB_def)
qed

lemma only_requests_side_effect [intro]:
  "only_requests st0 st \<Longrightarrow> only_requests st0 (side_effect s u f job st)"
  unfolding side_effect_def modify_field_def supersede_def Let_def
  by (auto split: option.split)

lemma only_requests_side_effects [intro]:
  "only_requests st0 st \<Longrightarrow> only_requests st0 (side_effects s u fs job st)"
  by (induction fs arbitrary: job st) auto

lemma inv_only_requests:
  "ids_inv ids old st \<Longrightarrow> only_requests st st' \<Longrightarrow> ids_inv ids old st'"
  by (auto simp: ids_inv_def only_requests_def queued_ids_no_job list_all_iff no_job_simps)

section \<open>The invariant holds\<close>

lemma modify_loop_requests:
  "\<exists>rs. requests (snd (snd (fold (modify_one s u) js (fju, count, st)))) = requests st @ rs \<and>
    list_all no_job rs"
proof (induction js arbitrary: fju count st)
  case Nil
  then show ?case by simp
next
  case (Cons j js)
  obtain rs where rs: "requests (side_effects s u updatableFields j st) = requests st @ rs"
    "list_all no_job rs"
    using only_requests_side_effects [OF only_requests_refl, of st s u updatableFields j]
    by (auto simp: only_requests_def)
  show ?case
  proof (cases "modify_one s u j (fju, count, st)")
    case (fields fju' count' st')
    with rs have "requests st' = requests st @ rs"
      by (auto simp: modify_one_eq Let_def split: if_splits)
    with Cons [of fju' count' st'] rs(2) fields show ?thesis by auto
  qed
qed

lemma modify_local_requests:
  "\<exists>rs. requests (perform_modify_local s f u st) = requests st @ rs \<and> list_all no_job rs"
proof -
  have "requests (send_if_any s acc) = requests (snd (snd acc))" for acc
    by (simp add: send_if_any_def send_update_def split: prod.split)
  then show ?thesis
    unfolding perform_modify_local_def using modify_loop_requests by simp
qed

lemma remove_local_requests: "requests (perform_remove_local s f stop st) = requests st"
  by (simp add: perform_remove_local_def send_if_any_def send_update_def remove_loop
      split: prod.split)

lemma add_foreign_requests: "requests (add_foreign ids job st) = requests st"
  by (simp add: add_foreign_def case_prod_beta Let_def ClientUnthrottle_call_def)

lemma modify_foreign_requests: "requests (fold (modify_foreign u) js st) = requests st"
  by (induction js arbitrary: st) (simp_all add: modify_foreign_def)

lemma drawn_mono: "k \<le> k' \<Longrightarrow> drawn ids k \<subseteq> drawn ids k'"
  by (auto simp: drawn_def)

lemma drawn_Suc: "drawn ids (Suc k) = insert (itoa (ids k)) (drawn ids k)"
  by (auto simp: drawn_def lessThan_Suc)

lemma not_drawn: "inj ids \<Longrightarrow> itoa (ids k) \<notin> drawn ids k"
  by (auto simp: drawn_def inj_eq)

text \<open>
  What performing a request does to the jobs, the way the invariant sees it. A local job
  that is stored has been announced by its caller; a foreign one draws its id here.
\<close>

lemma disjoint_sub: "A \<inter> Q = {} \<Longrightarrow> A' \<subseteq> A \<Longrightarrow> A' \<inter> Q = {}"
  by blast

lemma union_sub: "A \<union> Q \<subseteq> B \<union> D \<Longrightarrow> A' \<subseteq> A \<Longrightarrow> D \<subseteq> D' \<Longrightarrow> A' \<union> Q \<subseteq> B \<union> D'"
  by blast

lemma ids_inv_shrink:
  assumes "ids_inv ids old st" and "db_ok (jobDB st')" and "db_ids (jobDB st') \<subseteq> db_ids (jobDB st)"
    and "requests st' = requests st @ rs" and "list_all no_job rs" and "issued st \<le> issued st'"
  shows "ids_inv ids old st'"
proof -
  from assms(5) have rs: "queued_ids rs = []" "list_all request_ok rs"
    by (auto simp: queued_ids_no_job list_all_iff no_job_simps)
  have q: "queued_ids (requests st') = queued_ids (requests st)" using assms(4) rs by simp
  from assms(1) have dist: "distinct (queued_ids (requests st))"
    and dis: "db_ids (jobDB st) \<inter> set (queued_ids (requests st)) = {}"
    and sub: "db_ids (jobDB st) \<union> set (queued_ids (requests st)) \<subseteq> old \<union> drawn ids (issued st)"
    and req: "list_all request_ok (requests st)"
    unfolding ids_inv_def by iprover+
  have "list_all request_ok (requests st')" using req assms(4) rs by simp
  with assms(2) dist disjoint_sub [OF dis assms(3)]
    union_sub [OF sub assms(3) drawn_mono [OF assms(6)]]
  show ?thesis unfolding ids_inv_def q by iprover
qed

lemma sub_db_ok:
  "db_ok d \<Longrightarrow> children d' = filter P (children d) \<Longrightarrow> db_ok d' \<and> db_ids d' \<subseteq> db_ids d"
  by (auto simp: db_ok_def list_all_iff distinct_map_filterI)

lemma changed_db_ok:
  assumes "db_ok d" and "children d' = filter (\<lambda>c. \<not> P c) (children d) @ map g (filter P (children d))"
    and "\<And>j. j \<in> set (children d) \<Longrightarrow> job_ok (g j) \<and> id_of (g j) = id_of j"
  shows "db_ok d' \<and> db_ids d' \<subseteq> db_ids d"
proof -
  have ids: "map id_of (map g (filter P (children d))) = map id_of (filter P (children d))"
    using assms(3) by simp
  have "distinct (map id_of (children d'))"
    using assms(1) unfolding assms(2) map_append ids
    by (auto simp: db_ok_def distinct_map_filterI distinct_map
        intro: inj_on_subset dest: inj_onD)
  moreover have "list_all job_ok (children d')"
    using assms(1,3) unfolding assms(2) by (auto simp: db_ok_def list_all_iff)
  moreover have "db_ids d' \<subseteq> db_ids d" using assms(3) unfolding assms(2) by auto
  ultimately show ?thesis by (simp add: db_ok_def)
qed

lemma job_ok_Clone_named:
  "Name job = ''job'' \<Longrightarrow> \<exists>k. get1 ''id'' job = [itoa k] \<Longrightarrow>
    job_ok (Clone (named_job job)) \<and> id_of (Clone (named_job job)) = id_of job"
  by (simp add: job_ok_def named_job_other)

lemma job_ok_adopted:
  assumes "single ''id'' job"
  shows "job_ok (Clone (adopted (itoa k) job))" "id_of (Clone (adopted (itoa k) job)) = itoa k"
proof -
  have "get1 ''id'' (adopted (itoa k) job) = [itoa k]"
    using assms by (cases "get1 ''id'' job") (auto simp: adopted_def named_job_other single_def)
  moreover have "Name (adopted (itoa k) job) = ''job''" by (simp add: adopted_def named_job_other)
  ultimately show "job_ok (Clone (adopted (itoa k) job))"
    "id_of (Clone (adopted (itoa k) job)) = itoa k"
    by (simp_all add: job_ok_def text_of_eq)
qed

lemma db_ok_snoc:
  "db_ok d \<Longrightarrow> children d' = children d @ [j] \<Longrightarrow> job_ok j \<Longrightarrow> id_of j \<notin> db_ids d \<Longrightarrow>
    db_ok d' \<and> db_ids d' = insert (id_of j) (db_ids d)"
  unfolding db_ok_def by (simp del: set_elems)

lemma ids_inv_pop:
  assumes "ids_inv ids old st" and "requests st = r # rs" and "queued_ids (r # rs) = queued_ids rs"
  shows "ids_inv ids old (st\<lparr>requests := rs\<rparr>)"
  using assms by (simp add: ids_inv_def)

lemma perform_inv:
  assumes inv: "ids_inv ids old st" and r: "requests st = r # rs"
    and ids: "inj ids" "\<And>k. itoa (ids k) \<notin> old"
    and perf: "perform s ids r (st\<lparr>requests := rs\<rparr>) = Returns st'"
  shows "ids_inv ids old st'"
proof -
  let ?st = "st\<lparr>requests := rs\<rparr>"
  have db: "db_ok (jobDB ?st)" using inv by (simp add: ids_inv_def)
  have pop: "queued_ids (r # rs) = queued_ids rs \<Longrightarrow> ids_inv ids old ?st"
    using ids_inv_pop [OF inv r] by simp
  show ?thesis
  proof (cases r)
    case (RQuery f)
    with perf have "st' = ?st\<lparr>replies := replies ?st @ [Query (accepts f) (jobDB ?st)]\<rparr>" by simp
    moreover have "ids_inv ids old ?st" using pop RQuery by simp
    ultimately show ?thesis by (simp add: ids_inv_def del: set_elems)
  next
    case (RForward f u)
    with perf have "perform_forward s f u ?st = Returns st'" by simp
    note e = forward_effect [OF this]
    from pop RForward have "ids_inv ids old ?st" by simp
    then show ?thesis using e by (simp add: ids_inv_def)
  next
    case (RAddLocal job)
    with perf have st': "st' = perform_add_local s job ?st" by simp
    have job: "Name job = ''job''" "\<exists>k. get1 ''id'' job = [itoa k]"
      using inv r RAddLocal by (simp_all add: ids_inv_def)
    have new: "id_of job \<notin> db_ids (jobDB st)"
      using inv r RAddLocal by (simp add: ids_inv_def del: set_elems)
    have "db_ok (jobDB st') \<and> db_ids (jobDB st') = insert (id_of job) (db_ids (jobDB st))"
      using db_ok_snoc [OF db, of "jobDB st'" "Clone (named_job job)"] new
        job_ok_Clone_named [OF job]
      by (simp add: st' add_local_effect del: set_elems)
    then show ?thesis
      using inv r RAddLocal by (auto simp: ids_inv_def st' add_local_effect simp del: set_elems)
  next
    case (RRemoveLocal f stop)
    with perf have st': "st' = perform_remove_local s f stop ?st" by simp
    note e = remove_local_effect [of s f stop ?st]
    have "ids_inv ids old ?st" using pop RRemoveLocal by simp
    then show ?thesis
      using sub_db_ok [OF db, of "jobDB st'"] e(1)
      by (intro ids_inv_shrink [of ids old ?st st' "[]"]) (simp_all add: st' e remove_local_requests)
  next
    case (RModifyLocal f u)
    with perf have st': "st' = perform_modify_local s f u ?st" by simp
    note e = modify_local_effect [OF db, of s f u]
    obtain new where "requests st' = requests ?st @ new" "list_all no_job new"
      using modify_local_requests [of s f u ?st] st' by blast
    moreover have "ids_inv ids old ?st" using pop RModifyLocal by simp
    moreover have "db_ok (jobDB st') \<and> db_ids (jobDB st') \<subseteq> db_ids (jobDB ?st)"
      unfolding st' using db by (intro changed_db_ok [OF db e(1)]) (simp add: db_ok_def list_all_iff)
    ultimately show ?thesis by (intro ids_inv_shrink [of ids old ?st st' new]) (simp_all add: st' e)
  next
    case (RRemoveForeign f)
    with perf have st': "st' = perform_remove_foreign f ?st" by simp
    have "ids_inv ids old ?st" using pop RRemoveForeign by simp
    then show ?thesis
      using sub_db_ok [OF db, of "jobDB st'"] remove_foreign_effect [of f ?st]
      by (intro ids_inv_shrink [of ids old ?st st' "[]"])
        (simp_all add: st' perform_remove_foreign_def)
  next
    case (RAddModifyForeign f job)
    with perf have st': "st' = perform_add_modify_foreign ids f job ?st" by simp
    have base: "ids_inv ids old ?st" using pop RAddModifyForeign by simp
    have req: "requests st' = rs @ []"
      by (cases "iter_named ''job'' (kids (Query (accepts f) (jobDB st)))")
        (simp_all add: st' perform_add_modify_foreign_def add_foreign_requests
          modify_foreign_requests del: fold.simps)
    note e = add_modify_foreign_effect [OF db, of ids f job]
    show ?thesis
    proof (cases "filter (accepts f) (children (jobDB ?st)) = []")
      case True
      let ?id = "itoa (ids (issued st))"
      have single: "single ''id'' job" using inv r RAddModifyForeign by (simp add: ids_inv_def)
      have new: "?id \<notin> db_ids (jobDB st)" "?id \<notin> set (queued_ids rs)"
      proof -
        have "?id \<notin> old \<union> drawn ids (issued st)" using not_drawn [OF ids(1)] ids(2) by simp
        moreover have "db_ids (jobDB st) \<union> set (queued_ids rs) \<subseteq> old \<union> drawn ids (issued st)"
          using base by (simp add: ids_inv_def del: set_elems)
        ultimately show "?id \<notin> db_ids (jobDB st)" "?id \<notin> set (queued_ids rs)"
          by (meson UnCI subsetD)+
      qed
      have "children (jobDB st') = children (jobDB ?st) @ [Clone (adopted ?id job)]"
        using True e(1) st' by simp
      then have "db_ok (jobDB st') \<and> db_ids (jobDB st') = insert ?id (db_ids (jobDB st))"
        using db_ok_snoc [OF db, of "jobDB st'"] job_ok_adopted [OF single] new by simp
      then show ?thesis
        using base new True e(4) req st'
        by (auto simp: ids_inv_def drawn_Suc simp del: set_elems)
    next
      case False
      then have "db_ok (jobDB st') \<and> db_ids (jobDB st') \<subseteq> db_ids (jobDB ?st)"
        unfolding st' using db e(1)
        by (intro changed_db_ok [OF db, where P = "accepts f"])
          (auto simp: db_ok_def list_all_iff)
      with base req e(4) False st' show ?thesis
        by (intro ids_inv_shrink [of ids old ?st st' "[]"]) simp_all
    qed
  next
    case (RUpdateName f job)
    with perf have st': "st' = perform_update_name s f job ?st" by simp
    have "ids_inv ids old ?st" using pop RUpdateName by simp
    then show ?thesis
      using update_name_effect [OF db, of s f job]
      by (intro ids_inv_shrink [of ids old ?st st' "[]"]) (simp_all add: st')
  next
    case (RSyncAll fju)
    with perf have st': "st' = perform_sync_all s ids fju ?st" by simp
    have "ids_inv ids old ?st" using pop RSyncAll by simp
    then show ?thesis
      using db sync_all_issued [of ?st s ids fju]
      by (intro ids_inv_shrink [of ids old ?st st' "[]"]) (simp_all add: st' sync_all_effect)
  qed
qed

lemma add_call_inv:
  assumes inv: "ids_inv ids old st" and ids: "inj ids" "\<And>k. itoa (ids k) \<notin> old"
    and job: "Name job = ''job''" "single ''id'' job"
  shows "ids_inv ids old (fst (JobAddLocal ids job st))"
proof -
  let ?id = "itoa (ids (issued st))"
  let ?job = "Clone (set_field ''original_id'' ?id (set_field ''id'' ?id job))"
  have st': "fst (JobAddLocal ids job st) = enqueue (RAddLocal ?job) (st\<lparr>issued := Suc (issued st)\<rparr>)"
    by (simp add: JobAddLocal_def Let_def)
  have id: "get1 ''id'' ?job = [?id]"
    using job(2) by (cases "get1 ''id'' job") (auto simp: single_def)
  then have idt: "id_of ?job = ?id" by (simp add: text_of_eq)
  have "?id \<notin> old \<union> drawn ids (issued st)" using not_drawn [OF ids(1)] ids(2) by simp
  moreover have b: "db_ids (jobDB st) \<union> set (queued_ids (requests st)) \<subseteq> old \<union> drawn ids (issued st)"
    using inv by (simp add: ids_inv_def del: set_elems)
  ultimately have new: "?id \<notin> db_ids (jobDB st)" "?id \<notin> set (queued_ids (requests st))"
    by (meson UnCI subsetD)+
  have "queued_ids (requests (fst (JobAddLocal ids job st))) = queued_ids (requests st) @ [?id]"
    by (simp only: st' request_sides queued_ids_append) (simp add: idt del: text_of_Clone)
  moreover have "list_all request_ok (requests (fst (JobAddLocal ids job st)))"
    using inv id job(1) by (simp add: st' ids_inv_def)
  moreover have "db_ids (jobDB st) \<union> set (queued_ids (requests st)) \<subseteq>
      old \<union> drawn ids (Suc (issued st))"
    using b unfolding drawn_Suc by blast
  ultimately show ?thesis
    using inv new by (simp add: ids_inv_def st' drawn_Suc del: set_elems)
qed

lemma step_inv:
  assumes inv: "ids_inv (counter env) old st"
    and ids: "inj (counter env)" "\<And>k. itoa (counter env k) \<notin> old"
    and step: "legal e" "job_step env e st = Returns st'"
  shows "ids_inv (counter env) old st'"
proof (cases e)
  case Handle
  with step(2) show ?thesis
    using perform_inv [OF inv _ ids] by (auto simp: handle_request_def split: list.splits)
next
  case (CallAddLocal job)
  with step show ?thesis using add_call_inv [OF inv ids] by auto
next
  case (CallAddOrModifyForeign f job)
  have st': "st' = JobsAddOrModifyForeign f job st" using step(2) CallAddOrModifyForeign by simp
  show ?thesis
  proof (cases "text_of ''status'' job = ''done''")
    case True
    then show ?thesis using inv_only_requests [OF inv] st' by (auto simp: JobsAddOrModifyForeign_def)
  next
    case False
    then show ?thesis
      using inv step(1) CallAddOrModifyForeign st'
      by (simp add: JobsAddOrModifyForeign_def ids_inv_def del: set_elems)
  qed
qed (use step(2) inv_only_requests [OF inv] in auto)

lemma reach_inv:
  assumes "job_reach env st0 st"
    and "inj (counter env)" and "\<And>k. itoa (counter env k) \<notin> db_ids (jobDB st0)"
    and "requests st0 = []" and "db_ok (jobDB st0)"
  shows "ids_inv (counter env) (db_ids (jobDB st0)) st"
  using assms(1)
proof (induction rule: job_reach.induct)
  case reach_start
  show ?case using assms(4,5) by (simp add: ids_inv_def)
next
  case (reach_step st e st')
  then show ?case using step_inv assms(2,3) by blast
qed

subsection \<open>Starting from a saved database\<close>

lemma scan_ids_max:
  "scan_ids js count tms = Returns (m, tms') \<Longrightarrow>
    count \<le> m \<and> (\<forall>j \<in> set js. \<exists>k. ParseUint (id_of j) = Some k \<and> k \<le> m) \<and>
    (count < 2 ^ 64 \<longrightarrow> m < 2 ^ 64)"
proof (induction js count tms arbitrary: m tms' rule: scan_ids.induct)
  case (1 count tms)
  then show ?case by simp
next
  case (2 job rest count tms)
  from 2(2) obtain k where k: "ParseUint (id_of job) = Some k"
    "scan_ids rest (if k > count then k else count)
      (tms @ [(text_of ''timestamp'' job, text_of ''tminus'' job)]) = Returns (m, tms')"
    by (auto split: option.splits)
  from 2(1) [OF k] ParseUint_bound [OF k(1)] k(1) show ?case
    by (auto split: if_splits)
qed

lemma JobsInit_start:
  assumes init: "JobsInit s saved = Returns (st0, first)"
    and ok: "\<And>h. saved = Some h \<Longrightarrow> db_ok h" and pos: "0 < first"
  shows "requests st0 = []" and "db_ok (jobDB st0)"
    and "n < 2 ^ 64 \<Longrightarrow> first \<le> n \<Longrightarrow> itoa n \<notin> db_ids (jobDB st0)"
    and "list_all (accepts (local_jobs s)) (children (jobDB st0))"
proof -
  let ?db = "case saved of None \<Rightarrow> NewHash ''jobdb'' [] | Some h \<Rightarrow> h"
  have db: "db_ok ?db" using ok by (cases saved) (auto simp: db_ok_def)
  from init show req: "requests st0 = []"
    and loc: "list_all (accepts (local_jobs s)) (children (jobDB st0))"
    by (auto simp: JobsInit_def Let_def list_all_iff)
  have j: "jobDB st0 = snd (Remove (accepts (FilterNot (local_jobs s))) ?db)"
    using init by (auto simp: JobsInit_def Let_def)
  show ok0: "db_ok (jobDB st0)"
    using sub_db_ok [OF db, of "jobDB st0"] unfolding j by simp
  obtain m tms where m: "scan_ids (iter_named ''job'' (kids (Query (accepts FilterAll) (jobDB st0)))) 0 []
      = Returns (m, tms)" "first = (m + 1) mod 2 ^ 64"
    using init j by (auto simp: JobsInit_def Let_def)
  have "iter_named ''job'' (kids (Query (accepts FilterAll) (jobDB st0))) = children (jobDB st0)"
  proof -
    have "children (Query (accepts FilterAll) (jobDB st0)) = children (jobDB st0)"
      unfolding children_Query using db_ok_Query [OF ok0, of "accepts FilterAll"] by simp
    moreover have "filter (\<lambda>c. Name c = ''job'') (children (jobDB st0)) = children (jobDB st0)"
      unfolding filter_id_conv using ok0 db_ok_Name by simp
    ultimately show ?thesis by (simp only: iter_named_eq)
  qed
  with scan_ids_max [OF m(1)] have mx: "\<forall>j \<in> set (children (jobDB st0)). \<exists>k. ParseUint (id_of j) = Some k \<and> k \<le> m"
    and "m < 2 ^ 64" by auto
  then have first: "first = m + 1" using m(2) pos by (cases "m + 1 = 2 ^ 64") auto
  show "itoa n \<notin> db_ids (jobDB st0)" if "n < 2 ^ 64" "first \<le> n"
  proof
    assume "itoa n \<in> db_ids (jobDB st0)"
    then obtain j where "j \<in> set (children (jobDB st0))" "id_of j = itoa n" by auto
    with mx that(1) have "n \<le> m" by force
    with that(2) first show False by simp
  qed
qed

section \<open>Properties\<close>


definition example_env :: environment where
  "example_env = \<lparr>this_server = ''me'', counter = (\<lambda>k. k + 8),
     AddTimestamp = (\<lambda>t d. Inl ''unsupported''), SystemData = (\<lambda>mac. Inl ''unknown'')\<rparr>"


lemma JobsInit_example:
  "JobsInit ''me'' (Some (jobDB example_jobdb)) =
    Returns (example_jobdb\<lparr>timers := [([], [])]\<rparr>, 8)"
proof -
  have loc: "accepts (local_jobs ''me'') example_job"
    by (simp add: local_jobs_def example_job_fields)
  have rem: "snd (Remove (accepts (FilterNot (local_jobs ''me''))) (jobDB example_jobdb)) =
      jobDB example_jobdb"
    using loc by (simp add: Remove_def example_jobdb_def)
  have "tidy example_job" "Name example_job = ''job''" by (simp_all add: example_job_def)
  then have it: "iter_named ''job'' (kids (Query (accepts FilterAll) (jobDB example_jobdb))) =
      [example_job]"
    by (simp add: iter_named_eq)
  have "itoa 7 = ''7''" by code_simp
  then have "ParseUint ''7'' = Some 7" using ParseUint_itoa [of 7] by simp
  then have "scan_ids [example_job] 0 [] = Returns (7, [([], [])])"
    by (simp add: text_of_eq example_job_fields)
  with rem it show ?thesis
    by (simp add: JobsInit_def Let_def) (simp add: example_jobdb_def)
qed

text \<open>Starting up. A saved database whose jobs have distinct numeric ids is loaded without
  the jobs of other servers, and the counter that is then started hands out no number that
  a loaded job already has.\<close>

theorem start_keeps_ids_apart:
  assumes "JobsInit server (Some h) = Returns (st0, first)" and "db_ok h" and "0 < first"
  shows "db_ok (jobDB st0) \<and> list_all (accepts (local_jobs server)) (children (jobDB st0)) \<and>
    requests st0 = [] \<and> (\<forall>n. first \<le> n \<longrightarrow> n < 2 ^ 64 \<longrightarrow> itoa n \<notin> db_ids (jobDB st0))"
proof -
  have ok: "\<And>h'. Some h = Some h' \<Longrightarrow> db_ok h'" using assms(2) by simp
  show ?thesis using JobsInit_start [OF assms(1) ok assms(3)] by blast
qed

theorem start_keeps_ids_apart_witness:
  "JobsInit ''me'' (Some (jobDB example_jobdb)) =
      Returns (example_jobdb\<lparr>timers := [([], [])]\<rparr>, 8) \<and>
    itoa 8 \<notin> db_ids (jobDB example_jobdb)"
proof -
  from start_keeps_ids_apart [OF JobsInit_example] have "itoa 8 \<notin> db_ids (jobDB example_jobdb)"
    using example_jobdb_ok(1) by (simp del: example_jobdb_ok)
  with JobsInit_example show ?thesis by blast
qed


definition due_job :: hash where
  "due_job = Hash ''job'' [Sub (Hash ''id'' [Txt ''7'']), Sub (Hash ''status'' [Txt ''waiting'']),
     Sub (Hash ''siserver'' [Txt ''me'']), Sub (Hash ''timestamp'' [Txt ''1''])]"


end
