(* ===== verification/JobActions.thy ===== *)
theory JobActions
  imports JobDB
begin

text \<open>
  The consumer of PendingActions: go-susi/action/process_act.go and the actions it starts
  (go-susi/action/activate.go, faireboot.go, halt.go, localboot.go, lock.go, reboot.go,
  reinstall.go, send_user_msg.go, update.go, wake.go). For each job the result is the list
  of what the code does to the rest of the system, in order.
\<close>

section \<open>Effects and surroundings\<close>

datatype effect =
    Tell string string
  | SetState string string string
  | ForceFAIState string string
  | SendActivated string "hash result"
  | SendUserMessage hash
  | DeleteSystem hash
  | PauseTTL
  | PauseSeconds nat
  | AskPeer string hash
  | WakeNetwork string string
  | ModifyLocal hash_filter hash
  | RemoveLocal hash_filter bool
  | AddLocal hash
  | SendRequest string hash

text \<open>
  What the code asks of the rest of the system: the client database, the LDAP directory, the
  connections to the peers, the servers and networks known, and whether the wake-up calls
  and pings for a machine succeed (by round and number within the round).
\<close>

record surroundings =
  own_address :: string
  client_with_mac :: "string \<Rightarrow> hash option"
  faistate_of :: "string \<Rightarrow> string"
  system_of :: "string \<Rightarrow> hash result"
  incoming_ou :: string
  peer_down :: "string \<Rightarrow> bool"
  is_go_susi :: "string \<Rightarrow> bool"
  reached :: "string \<Rightarrow> bool"
  server_addresses :: "string list"
  networks :: "string list"
  woken :: "nat \<Rightarrow> bool"
  pinged :: "nat \<Rightarrow> nat \<Rightarrow> bool"

section \<open>The actions\<close>

text \<open>
  \<open>Wake\<close>: up to ten rounds of a wake-up call, spamming all networks if it fails, and three
  pings; a ping that is answered ends it.
\<close>

definition wake_message :: "string \<Rightarrow> hash" where
  "wake_message mac = Add ''trigger_wake'' [] (Add ''macaddress'' [mac]
     (Add ''source'' [''GOSA''] (NewHash ''xml'' [''header'', ''trigger_wake''])))"

definition spam :: "surroundings \<Rightarrow> string \<Rightarrow> effect list" where
  "spam env mac =
     map (\<lambda>server. AskPeer server (set_field ''target'' server (wake_message mac)))
       (server_addresses env) @
     map (WakeNetwork mac) (networks env)"

fun wake_rounds :: "surroundings \<Rightarrow> string \<Rightarrow> nat \<Rightarrow> nat \<Rightarrow> effect list" where
  "wake_rounds env mac i 0 = []"
| "wake_rounds env mac i (Suc n) =
     (if woken env i then [] else spam env mac) @
     (if list_ex (pinged env i) [0, 1, 2] then [] else wake_rounds env mac (Suc i) n)"

definition Wake :: "surroundings \<Rightarrow> hash \<Rightarrow> effect list" where
  "Wake env job = wake_rounds env (text_of ''macaddress'' job) 0 10"

definition Activate :: "surroundings \<Rightarrow> hash \<Rightarrow> effect list" where
  "Activate env job =
     (let mac = text_of ''macaddress'' job in
      SetState mac ''gotoMode'' ''active'' #
      (case client_with_mac env mac of
         None \<Rightarrow> []
       | Some client \<Rightarrow> [SendActivated (text_of ''client'' client) (system_of env mac)]))"

definition FAIReboot :: "surroundings \<Rightarrow> hash \<Rightarrow> effect list" where
  "FAIReboot env job =
     (let mac = text_of ''macaddress'' job;
          delete = (case system_of env mac of
             Inl _ \<Rightarrow> []
           | Inr sys \<Rightarrow>
               let dn = text_of ''dn'' sys in
               (case Index dn (CHR '','') of
                  None \<Rightarrow> []
                | Some i \<Rightarrow> if HasPrefix (drop (Suc i) dn) (incoming_ou env)
                            then [DeleteSystem sys] else []))
      in ForceFAIState mac ''error:fiddledidoo:-1:crit:Job aborted by admin. System in unknown state.'' #
         delete)"

definition Localboot :: "hash \<Rightarrow> effect list" where
  "Localboot job = [ForceFAIState (text_of ''macaddress'' job) ''localboot'']"

definition Lock :: "hash \<Rightarrow> effect list" where
  "Lock job = [SetState (text_of ''macaddress'' job) ''gotoMode'' ''locked'']"

definition Halt :: "hash \<Rightarrow> effect list" where
  "Halt job = []"

definition Reboot :: "surroundings \<Rightarrow> hash \<Rightarrow> effect list" where
  "Reboot env job = Wake env job"

definition Reinstall :: "surroundings \<Rightarrow> hash \<Rightarrow> effect list" where
  "Reinstall env job =
     SetState (text_of ''macaddress'' job) ''faiState'' ''install'' # PauseTTL # Wake env job"

definition Update :: "surroundings \<Rightarrow> hash \<Rightarrow> effect list" where
  "Update env job =
     SetState (text_of ''macaddress'' job) ''faiState'' ''softupdate'' # PauseTTL # Wake env job"

definition SendUserMsg :: "hash \<Rightarrow> effect list" where
  "SendUserMsg job = [SendUserMessage job]"

section \<open>Forwarding\<close>

definition forward_request :: "hash \<Rightarrow> hash" where
  "forward_request job =
     (let headertag = text_of ''headertag'' job;
          mac = text_of ''macaddress'' job;
          header = (if headertag = ''trigger_action_update'' \<or> headertag = ''trigger_action_reinstall''
                    then ''job_'' @ headertag else ''gosa_'' @ headertag);
          copy = (\<lambda>t h. if First t job \<noteq> None then Add t [text_of t job] h else h)
      in copy ''periodic'' (copy ''tminus'' (copy ''timestamp''
           (Add ''target'' [mac] (Add ''macaddress'' [mac] (Add ''source'' [''GOSA'']
             (NewHash ''xml'' [''header'', header])))))))"

definition retry_job :: "hash \<Rightarrow> hash" where
  "retry_job job =
     set_field ''status'' ''waiting'' (set_field ''progress'' ''forward-failed''
       (set_field ''result'' ''none'' (Clone job)))"

definition forward_effects :: "surroundings \<Rightarrow> string \<Rightarrow> hash \<Rightarrow> effect list" where
  "forward_effects env siserver job =
     [ModifyLocal (with_id job) (NewHash ''job'' [''progress'', ''forward'']),
      RemoveLocal (with_id job) True] @
     (if is_go_susi env siserver then [] else [PauseSeconds 5]) @
     [SendRequest siserver (forward_request job)] @
     (if reached env siserver then [] else [AddLocal (retry_job job)])"

text \<open>None: the job is not forwarded, so it is this server's to execute.\<close>

definition Forward :: "surroundings \<Rightarrow> hash \<Rightarrow> effect list option" where
  "Forward env job =
     (if text_of ''progress'' job = ''forward-failed'' then None
      else if text_of ''headertag'' job \<in> {''send_user_msg'', ''trigger_action_wake'',
        ''trigger_action_lock'', ''trigger_action_localboot''} then None
      else
        (case client_with_mac env (text_of ''macaddress'' job) of
           None \<Rightarrow> None
         | Some client \<Rightarrow>
             let siserver = text_of ''source'' client in
             if siserver = own_address env then None
             else if peer_down env siserver then None
             else Some (forward_effects env siserver job)))"

section \<open>Executing a job\<close>

definition announcement :: "surroundings \<Rightarrow> string \<Rightarrow> string \<Rightarrow> string" where
  "announcement env headertag client_addr =
     ''<xml><header>'' @ headertag @ ''</header><'' @ headertag @ ''></'' @ headertag @
     ''><source>'' @ own_address env @ ''</source><target>'' @ client_addr @ ''</target></xml>''"

definition announce :: "surroundings \<Rightarrow> string \<Rightarrow> hash \<Rightarrow> effect list" where
  "announce env headertag job =
     (if headertag \<noteq> ''send_user_msg'' \<and> headertag \<noteq> ''set_activated_for_installation'' then
        (case client_with_mac env (text_of ''macaddress'' job) of
           None \<Rightarrow> []
         | Some client \<Rightarrow>
             [Tell (text_of ''client'' client)
                (announcement env headertag (text_of ''client'' client))])
      else [])"

text \<open>The effects of the action, and whether the job is done with it.\<close>

definition run_action :: "surroundings \<Rightarrow> string \<Rightarrow> hash \<Rightarrow> effect list \<times> bool" where
  "run_action env headertag job =
     (if headertag = ''send_user_msg'' then (SendUserMsg job, True)
      else if headertag = ''trigger_action_wake'' \<or> headertag = ''deregistered''
      then (Wake env job, headertag \<noteq> ''deregistered'')
      else if headertag = ''trigger_action_lock'' then (Lock job, True)
      else if headertag = ''trigger_action_localboot'' then (Localboot job, True)
      else if headertag = ''trigger_action_halt'' then (Halt job, True)
      else if headertag = ''trigger_action_reboot'' then (Reboot env job, True)
      else if headertag = ''trigger_action_faireboot'' then (FAIReboot env job, True)
      else if headertag = ''set_activated_for_installation'' \<or> headertag = ''trigger_action_activate''
      then (Activate env job, True)
      else if headertag = ''trigger_action_update'' then (Update env job, False)
      else if headertag = ''trigger_action_reinstall'' then (Reinstall env job, False)
      else ([], True))"

definition take_action :: "surroundings \<Rightarrow> hash \<Rightarrow> effect list" where
  "take_action env job =
     (case Forward env job of
        Some effects \<Rightarrow> effects
      | None \<Rightarrow>
          let headertag = (if text_of ''status'' job = ''wakeup'' then ''deregistered''
                           else text_of ''headertag'' job)
          in case run_action env headertag job of
               (effects, done) \<Rightarrow>
                 announce env headertag job @ effects @
                 (if done then [RemoveLocal (with_id job) False] else []))"

section \<open>The next instance of a periodic job\<close>

text \<open>
  Times are nanoseconds. A period is an unsigned 64-bit number; its conversion to a
  \<open>time.Duration\<close> (or \<open>int\<close>) and the products are those of 64-bit machine integers. \<open>add_date\<close>
  is \<open>Time.AddDate\<close> (years, months, days), whose result depends on the time zone.
\<close>

type_synonym calendar = "int \<Rightarrow> int \<Rightarrow> int \<Rightarrow> int \<Rightarrow> int"

definition duration :: "nat \<Rightarrow> nat \<Rightarrow> int" where
  "duration period unit_ns = sint (word_of_nat period * word_of_nat unit_ns :: 64 word)"

definition add_period :: "calendar \<Rightarrow> string \<Rightarrow> nat \<Rightarrow> int \<Rightarrow> int option" where
  "add_period add_date time_unit period t =
     (if time_unit = ''seconds'' then Some (t + duration period 1000000000)
      else if time_unit = ''minutes'' then Some (t + duration period 60000000000)
      else if time_unit = ''hours'' then Some (t + duration period 3600000000000)
      else if time_unit = ''days'' then Some (add_date 0 0 (duration period 1) t)
      else if time_unit = ''weeks'' then Some (add_date 0 0 (duration period 7) t)
      else if time_unit = ''months'' then Some (add_date 0 (duration period 1) 0 t)
      else if time_unit = ''years'' then Some (add_date (duration period 1) 0 0 t)
      else None)"

text \<open>The loop: None when it never ends, \<open>Some None\<close> for an unknown unit.\<close>

partial_function (option) next_time ::
  "calendar \<Rightarrow> string \<Rightarrow> nat \<Rightarrow> int \<Rightarrow> int \<Rightarrow> int option option" where
  "next_time add_date time_unit period now t =
     (case add_period add_date time_unit period t of
        None \<Rightarrow> Some None
      | Some t' \<Rightarrow> if \<not> t' < now then Some (Some t')
                   else next_time add_date time_unit period now t')"

definition parse_period :: "string \<Rightarrow> (nat \<times> string) option" where
  "parse_period periodic =
     (case Split periodic (CHR ''_'') of
        [n, u] \<Rightarrow> (case ParseUint n of None \<Rightarrow> None
                   | Some k \<Rightarrow> if k = 0 then None else Some (k, u))
      | _ \<Rightarrow> None)"

text \<open>\<open>parse\<close> and \<open>render\<close> are util.ParseTimestamp and util.MakeTimestamp.\<close>

definition next_job :: "(int \<Rightarrow> string) \<Rightarrow> int \<Rightarrow> hash \<Rightarrow> hash" where
  "next_job render t job =
     set_field ''status'' ''waiting'' (set_field ''progress'' ''none''
       (set_field ''result'' ''none'' (set_field ''timestamp'' (render t) job)))"

definition reschedule ::
  "calendar \<Rightarrow> (string \<Rightarrow> int) \<Rightarrow> (int \<Rightarrow> string) \<Rightarrow> int \<Rightarrow> hash \<Rightarrow> effect list option" where
  "reschedule add_date parse render now job =
     (let periodic = text_of ''periodic'' job in
      if periodic = ''none'' \<or> periodic = [] then Some []
      else
        (case parse_period periodic of
           None \<Rightarrow> Some []
         | Some (period, time_unit) \<Rightarrow>
             (case next_time add_date time_unit period now (parse (text_of ''timestamp'' job)) of
                None \<Rightarrow> None
              | Some None \<Rightarrow> Some []
              | Some (Some t) \<Rightarrow> Some [AddLocal (next_job render t job)])))"

definition release_machine :: "surroundings \<Rightarrow> hash \<Rightarrow> effect list" where
  "release_machine env job =
     (if install_or_update job then
        (let mac = text_of ''macaddress'' job; faistate = faistate_of env mac in
         if faistate = [] \<or> HasPrefix faistate ''softupdat'' \<or> HasPrefix faistate ''install'' then
           (if text_of ''progress'' job = ''forward'' \<or> text_of ''progress'' job = ''groom'' then []
            else [SetState mac ''faiState'' ''localboot''])
         else [])
      else [])"

definition finish_job ::
  "surroundings \<Rightarrow> calendar \<Rightarrow> (string \<Rightarrow> int) \<Rightarrow> (int \<Rightarrow> string) \<Rightarrow> int \<Rightarrow> hash \<Rightarrow>
   effect list option" where
  "finish_job env add_date parse render now job =
     (case reschedule add_date parse render now job of
        None \<Rightarrow> None | Some effects \<Rightarrow> Some (release_machine env job @ effects))"

text \<open>One round of the infinite loop that consumes PendingActions.\<close>

definition consume ::
  "surroundings \<Rightarrow> calendar \<Rightarrow> (string \<Rightarrow> int) \<Rightarrow> (int \<Rightarrow> string) \<Rightarrow> int \<Rightarrow> hash \<Rightarrow>
   effect list option" where
  "consume env add_date parse render now job =
     (if text_of ''status'' job \<noteq> ''done'' then Some (take_action env job)
      else finish_job env add_date parse render now job)"

subsection \<open>When the loop ends\<close>

text \<open>The times of the successive instances.\<close>

fun instance_time :: "calendar \<Rightarrow> string \<Rightarrow> nat \<Rightarrow> int \<Rightarrow> nat \<Rightarrow> int option" where
  "instance_time cal u p t 0 = Some t"
| "instance_time cal u p t (Suc n) =
     (case add_period cal u p t of None \<Rightarrow> None | Some t' \<Rightarrow> instance_time cal u p t' n)"

definition advances :: "calendar \<Rightarrow> string \<Rightarrow> nat \<Rightarrow> bool" where
  "advances cal u p \<longleftrightarrow> (\<forall>t. \<exists>t'. add_period cal u p t = Some t' \<and> t < t')"

text \<open>
  If every period moves the time forward by something, the loop ends, with the first
  instance after the old one that is not in the past.
\<close>

lemma next_time_first:
  assumes adv: "advances cal u p"
  shows "\<exists>n t'. next_time cal u p now t = Some (Some t') \<and> instance_time cal u p t (Suc n) = Some t' \<and>
    now \<le> t' \<and> t < t' \<and> (\<forall>k<n. \<exists>s. instance_time cal u p t (Suc k) = Some s \<and> s < now)"
proof (induction "nat (now - t)" arbitrary: t rule: less_induct)
  case less
  obtain t1 where t1: "add_period cal u p t = Some t1" "t < t1"
    using adv by (auto simp: advances_def)
  show ?case
  proof (cases "t1 < now")
    case False
    then have "next_time cal u p now t = Some (Some t1)"
      by (subst next_time.simps) (simp add: t1)
    with False t1 show ?thesis by (intro exI [of _ 0] exI [of _ t1]) simp
  next
    case True
    with t1 have "nat (now - t1) < nat (now - t)" by simp
    from less [OF this] obtain n t' where IH: "next_time cal u p now t1 = Some (Some t')"
      "instance_time cal u p t1 (Suc n) = Some t'" "now \<le> t'" "t1 < t'"
      "\<forall>k<n. \<exists>s. instance_time cal u p t1 (Suc k) = Some s \<and> s < now" by blast
    have "next_time cal u p now t = Some (Some t')"
      using IH(1) True by (subst next_time.simps) (simp add: t1)
    moreover have "\<forall>k<Suc n. \<exists>s. instance_time cal u p t (Suc k) = Some s \<and> s < now"
    proof (intro allI impI)
      fix k assume "k < Suc n"
      then show "\<exists>s. instance_time cal u p t (Suc k) = Some s \<and> s < now"
        using IH(5) True t1 by (cases k) auto
    qed
    ultimately show ?thesis
      using IH t1 by (intro exI [of _ "Suc n"] exI [of _ t']) auto
  qed
qed

text \<open>If a period does not move the time at all, a past instance is never left.\<close>

lemma next_time_fixpoint:
  assumes "next_time cal u p now t = Some r"
  shows "add_period cal u p t = Some t \<longrightarrow> \<not> t < now"
  by (rule next_time.raw_induct [where P = "\<lambda>cal u p now t r. add_period cal u p t = Some t \<longrightarrow> \<not> t < now",
        OF _ assms])
    (auto split: option.splits if_splits)

lemma next_time_stuck:
  "add_period cal u p t = Some t \<Longrightarrow> t < now \<Longrightarrow> next_time cal u p now t = None"
  using next_time_fixpoint by (cases "next_time cal u p now t") auto

lemma duration_wraps: "duration period unit_ns = signed_take_bit 63 (int period * int unit_ns)"
proof -
  have "word_of_nat period * word_of_nat unit_ns = (word_of_nat (period * unit_ns) :: 64 word)"
    by simp
  then show ?thesis by (simp only: duration_def signed_of_nat) simp
qed

lemma duration_exact:
  "int period * int unit_ns < 2 ^ 63 \<Longrightarrow> duration period unit_ns = int period * int unit_ns"
proof -
  assume less: "int period * int unit_ns < 2 ^ 63"
  have "- (2 ^ 63) \<le> (0::int)" by simp
  also have "0 \<le> int period * int unit_ns" by simp
  finally have "- (2 ^ 63) \<le> int period * int unit_ns" .
  with less show ?thesis unfolding duration_wraps by (intro signed_take_bit_int_eq_self)
qed

lemma advances_clock:
  assumes "0 < period" and "u = ''seconds'' \<and> ns = 1000000000 \<or> u = ''minutes'' \<and> ns = 60000000000 \<or>
      u = ''hours'' \<and> ns = 3600000000000"
    and "int period * int ns < 2 ^ 63"
  shows "advances cal u period"
    and "add_period cal u period t = Some (t + int period * int ns)"
proof -
  show step: "add_period cal u period t = Some (t + int period * int ns)" for t
    using assms(2) duration_exact [OF assms(3)] by (auto simp: add_period_def)
  have "0 < int period * int ns" using assms(1,2) by auto
  then show "advances cal u period" unfolding advances_def step by auto
qed

lemma instance_clock:
  assumes "\<And>t. add_period cal u period t = Some (t + d)"
  shows "instance_time cal u period t n = Some (t + int n * d)"
  using assms by (induction n arbitrary: t) (simp_all add: algebra_simps)

lemma announce_no_removal: "RemoveLocal f b \<notin> set (announce env k job)"
  unfolding announce_def
  by (cases "client_with_mac env (text_of ''macaddress'' job)",
      simp_all only: option.case if_cancel list.set) simp_all

section \<open>Properties\<close>


definition weekly_job :: hash where
  "weekly_job = Hash ''job'' [Sub (Hash ''id'' [Txt ''7'']),
     Sub (Hash ''headertag'' [Txt ''trigger_action_lock'']), Sub (Hash ''status'' [Txt ''done'']),
     Sub (Hash ''periodic'' [Txt ''2_hours'']), Sub (Hash ''timestamp'' [Txt ''0''])]"


text \<open>A period whose length in nanoseconds is a multiple of 2^64 never advances: rescheduling
  such a job when its time is past does not return, and its instance is lost. The smallest
  such number of seconds is 2^55.\<close>

theorem period_overflow_never_returns:
  assumes "parse_period (text_of ''periodic'' job) = Some (period, ''seconds'')"
    and "2 ^ 55 dvd period" and "parse (text_of ''timestamp'' job) < now"
  shows "reschedule add_date parse render now job = None"
proof -
  from assms(2) obtain m where m: "period = 2 ^ 55 * m" by (auto elim: dvdE)
  have "(of_nat period * of_nat 1000000000 :: 64 word) = of_nat (2 ^ 64 * (m * 1953125))"
    by (simp add: m)
  also have "\<dots> = 0" unfolding word_of_nat_eq_0_iff by simp
  finally have "duration period 1000000000 = 0" by (simp add: duration_def)
  then have "add_period add_date ''seconds'' period t = Some t" for t
    by (simp add: add_period_def)
  from next_time_stuck [OF this assms(3)]
  have stuck: "next_time add_date ''seconds'' period now (parse (text_of ''timestamp'' job)) = None" .
  have "Split [] (CHR ''_'') = [[]]" "Split ''none'' (CHR ''_'') = [''none'']" by code_simp+
  then have "text_of ''periodic'' job \<noteq> ''none''" "text_of ''periodic'' job \<noteq> []"
    using assms(1) by (auto simp: parse_period_def)
  then show ?thesis using assms(1) stuck by (simp add: reschedule_def Let_def)
qed

definition endless_job :: hash where
  "endless_job = Hash ''job'' [Sub (Hash ''periodic'' [Txt ''36028797018963968_seconds''])]"

theorem period_overflow_never_returns_witness:
  "reschedule (\<lambda>y m d t. t) (\<lambda>s. 0) (\<lambda>t. ''x'') 1 endless_job = None"
proof (rule period_overflow_never_returns)
  have "text_of ''periodic'' endless_job = ''36028797018963968_seconds''"
    by (simp add: endless_job_def text_of_eq get1_eq own_text_def TextFragments_def)
  moreover have "Split ''36028797018963968_seconds'' (CHR ''_'') = [''36028797018963968'', ''seconds'']"
    by code_simp
  moreover have "ParseUint ''36028797018963968'' = Some 36028797018963968"
    by (simp add: ParseUint_def digits_value_def is_digit_def byte_def)
  ultimately show "parse_period (text_of ''periodic'' endless_job) = Some (36028797018963968, ''seconds'')"
    by (simp add: parse_period_def)
qed simp_all

text \<open>A job that is forwarded to another server leaves this one for good or comes back
  marked: forwarding happens only for jobs of clients registered elsewhere, with the peer up;
  the job is removed without a follow-up and without touching the machine's state, and it is
  added again, as forward-failed, exactly if the peer is not reached. A job so marked is
  never forwarded again.\<close>

theorem forwarding_hands_over:
  assumes "Forward env job = Some effects"
  shows "(\<exists>client siserver. client_with_mac env (text_of ''macaddress'' job) = Some client \<and>
      siserver = text_of ''source'' client \<and> siserver \<noteq> own_address env \<and> \<not> peer_down env siserver \<and>
      take 2 effects = [ModifyLocal (with_id job) (NewHash ''job'' [''progress'', ''forward'']),
        RemoveLocal (with_id job) True] \<and>
      SendRequest siserver (forward_request job) \<in> set effects \<and>
      (AddLocal (retry_job job) \<in> set effects \<longleftrightarrow> \<not> reached env siserver)) \<and>
    (single ''progress'' job \<longrightarrow> Forward env (retry_job job) = None)"
proof -
  have "text_of ''progress'' (retry_job job) = ''forward-failed''" if "single ''progress'' job"
    using that by (simp add: retry_job_def single_set_field)
  then have "single ''progress'' job \<longrightarrow> Forward env (retry_job job) = None"
    by (simp add: Forward_def)
  moreover obtain client where c: "client_with_mac env (text_of ''macaddress'' job) = Some client"
    using assms by (cases "client_with_mac env (text_of ''macaddress'' job)")
      (simp_all add: Forward_def split: if_splits)
  moreover have "text_of ''source'' client \<noteq> own_address env" "\<not> peer_down env (text_of ''source'' client)"
    and eff: "effects = forward_effects env (text_of ''source'' client) job"
    using assms c by (simp_all add: Forward_def Let_def split: if_splits)
  ultimately show ?thesis
    by (intro conjI exI [of _ client] exI [of _ "text_of ''source'' client"])
      (simp_all add: eff forward_effects_def del: NewHash.simps)
qed

text \<open>The concrete surroundings: the client of the job is registered at another server.\<close>

definition example_surroundings :: surroundings where
  "example_surroundings = \<lparr>own_address = ''me'',
     client_with_mac = (\<lambda>mac. Some (Hash ''xml'' [Sub (Hash ''source'' [Txt ''you''])])),
     faistate_of = (\<lambda>mac. []), system_of = (\<lambda>mac. Inl ''unknown''), incoming_ou = ''ou=incoming'',
     peer_down = (\<lambda>s. False), is_go_susi = (\<lambda>s. True), reached = (\<lambda>s. False),
     server_addresses = [], networks = [], woken = (\<lambda>i. True), pinged = (\<lambda>i k. True)\<rparr>"

theorem forwarding_hands_over_witness:
  "\<exists>effects. Forward example_surroundings (Hash ''job'' []) = Some effects \<and>
    AddLocal (retry_job (Hash ''job'' [])) \<in> set effects"
proof -
  have src: "text_of ''source'' (Hash ''xml'' [Sub (Hash ''source'' [Txt ''you''])]) = ''you''"
    by (simp add: text_of_eq get1_eq own_text_def TextFragments_def)
  have no: "text_of t (Hash ''job'' []) = []" for t by (simp add: text_of_eq get1_eq)
  obtain effects where e: "Forward example_surroundings (Hash ''job'' []) = Some effects"
    by (simp add: Forward_def example_surroundings_def no src Let_def)
  from forwarding_hands_over [OF e] e show ?thesis
    by (auto simp: example_surroundings_def)
qed

text \<open>A job that is executed here is removed, once and with its period kept, right after
  its action, except for installs, updates and wake-ups ahead of time, which stay in the
  database; a job of unknown kind is removed without any effect on its machine.\<close>

theorem executed_job_removed:
  assumes "Forward env job = None"
  shows "let kind = (if text_of ''status'' job = ''wakeup'' then ''deregistered''
      else text_of ''headertag'' job);
      stays = (kind \<in> {''deregistered'', ''trigger_action_update'', ''trigger_action_reinstall''});
      removal = RemoveLocal (with_id job) False
    in count_list (take_action env job) removal = (if stays then 0 else 1) \<and>
      (stays \<or> last (take_action env job) = removal)"
proof -
  have wake: "RemoveLocal f b \<notin> set (wake_rounds env mac i n)" for f b mac i n
    by (induction n arbitrary: i) (simp_all add: spam_def image_iff)
  note ann = announce_no_removal
  have act: "RemoveLocal f b \<notin> set (fst (run_action env k job))" for f b k
    using wake
    by (auto simp: run_action_def SendUserMsg_def Wake_def Lock_def Localboot_def Halt_def Reboot_def
        FAIReboot_def Activate_def Update_def Reinstall_def Let_def
        split: option.splits sum.splits if_splits)
  have fin: "snd (run_action env k job) =
      (k \<notin> {''deregistered'', ''trigger_action_update'', ''trigger_action_reinstall''})" for k
    by (auto simp: run_action_def)
  show ?thesis
    using assms act ann fin
    by (simp add: take_action_def Let_def case_prod_beta count_notin)
qed

theorem executed_job_removed_witness:
  "count_list (take_action (example_surroundings\<lparr>own_address := ''you''\<rparr>) weekly_job)
    (RemoveLocal (with_id weekly_job) False) = 1"
proof -
  have t: "text_of ''headertag'' weekly_job = ''trigger_action_lock''"
    "text_of ''status'' weekly_job = ''done''"
    by (simp_all add: weekly_job_def text_of_eq get1_eq own_text_def TextFragments_def)
  have "Forward (example_surroundings\<lparr>own_address := ''you''\<rparr>) weekly_job = None"
    by (simp add: Forward_def t)
  from executed_job_removed [OF this] t show ?thesis by (simp add: Let_def)
qed

end
