(* ===== verification/Addresses.thy ===== *)
theory Addresses
  imports GoStrings
begin

text \<open>
  The regular expressions with which go-susi/message checks the addresses in messages:
  \<open>addressRegexp\<close> of foreign_job_updates.go (IP:PORT) and \<open>macAddressRegexp\<close> of
  job_trigger_action.go. Both are anchored at both ends and finite, so the fragment of Go's
  \<open>regexp\<close> here has classes, sequences, alternatives and options. What the IP:PORT
  expression accepts is shown to be four numbers below 256 and a number below 70000, all in
  the decimal form without leading zeros.
\<close>

section \<open>Finite regular expressions\<close>

datatype rx = Class "(char \<times> char) list" | Nothing | Cat rx rx | Alt rx rx | Maybe rx

definition in_class :: "(char \<times> char) list \<Rightarrow> char \<Rightarrow> bool" where
  "in_class rs c \<longleftrightarrow> list_ex (\<lambda>(a, b). byte a \<le> byte c \<and> byte c \<le> byte b) rs"

text \<open>\<open>r{n}\<close> and \<open>r{0,n}\<close>.\<close>

fun exactly :: "nat \<Rightarrow> rx \<Rightarrow> rx" where
  "exactly 0 r = Nothing"
| "exactly (Suc n) r = Cat r (exactly n r)"

fun at_most :: "nat \<Rightarrow> rx \<Rightarrow> rx" where
  "at_most 0 r = Nothing"
| "at_most (Suc n) r = Maybe (Cat r (at_most n r))"

text \<open>What can be left of a text after a match of its beginning.\<close>

fun rests :: "rx \<Rightarrow> string \<Rightarrow> string list" where
  "rests (Class rs) [] = []"
| "rests (Class rs) (c # cs) = (if in_class rs c then [cs] else [])"
| "rests Nothing s = [s]"
| "rests (Cat a b) s = concat (map (rests b) (rests a s))"
| "rests (Alt a b) s = rests a s @ rests b s"
| "rests (Maybe a) s = rests a s @ [s]"

text \<open>\<open>MatchString\<close> of \<open>^r$\<close>.\<close>

definition matches_whole :: "rx \<Rightarrow> string \<Rightarrow> bool" where
  "matches_whole r s \<longleftrightarrow> [] \<in> set (rests r s)"

subsection \<open>The language of an expression\<close>

fun lang :: "rx \<Rightarrow> string set" where
  "lang (Class rs) = {[c] |c. in_class rs c}"
| "lang Nothing = {[]}"
| "lang (Cat a b) = {u @ v |u v. u \<in> lang a \<and> v \<in> lang b}"
| "lang (Alt a b) = lang a \<union> lang b"
| "lang (Maybe a) = insert [] (lang a)"

lemma rests_lang: "t \<in> set (rests r s) \<longleftrightarrow> (\<exists>u \<in> lang r. s = u @ t)"
proof (induction r arbitrary: s t)
  case (Class rs)
  show ?case by (cases s) auto
next
  case (Cat a b)
  have "t \<in> set (rests (Cat a b) s) \<longleftrightarrow> (\<exists>m \<in> set (rests a s). t \<in> set (rests b m))" by simp
  also have "\<dots> \<longleftrightarrow> (\<exists>m. (\<exists>u \<in> lang a. s = u @ m) \<and> (\<exists>v \<in> lang b. m = v @ t))"
    unfolding Bex_def Cat.IH ..
  also have "\<dots> \<longleftrightarrow> (\<exists>u \<in> lang a. \<exists>v \<in> lang b. s = u @ v @ t)" by blast
  also have "\<dots> \<longleftrightarrow> (\<exists>w \<in> lang (Cat a b). s = w @ t)"
    by (simp add: Bex_def) (metis append_assoc)
  finally show ?case .
qed auto

lemma matches_lang: "matches_whole r s \<longleftrightarrow> s \<in> lang r"
  by (auto simp: matches_whole_def rests_lang)

text \<open>All words, for expressions with few of them.\<close>

fun words :: "rx \<Rightarrow> string list" where
  "words (Class rs) = map (\<lambda>n. [char_of n])
     (concat (map (\<lambda>(a, b). [byte a..<Suc (byte b)]) rs))"
| "words Nothing = [[]]"
| "words (Cat a b) = concat (map (\<lambda>u. map ((@) u) (words b)) (words a))"
| "words (Alt a b) = words a @ words b"
| "words (Maybe a) = [] # words a"

lemma lang_words: "s \<in> lang r \<Longrightarrow> s \<in> set (words r)"
proof (induction r arbitrary: s)
  case (Class rs)
  then obtain c a b where c: "s = [c]" "(a, b) \<in> set rs" "byte a \<le> byte c" "byte c \<le> byte b"
    by (auto simp: in_class_def list_ex_iff)
  moreover have "char_of (byte c) = c" by (simp add: byte_def)
  moreover have "byte c \<in> {byte a..<Suc (byte b)}" using c by simp
  ultimately show ?case
    unfolding words.simps set_map set_concat
    by (metis (no_types, lifting) UN_I atLeastLessThan_upt case_prod_conv image_eqI)
next
  case (Cat a b)
  then obtain u v where "s = u @ v" "u \<in> set (words a)" "v \<in> set (words b)" by auto
  then show ?case by auto
qed auto

section \<open>Decimal numbers\<close>

lemma digits_value_Cons:
  "digits_value (c # s) = (byte c - 48) * 10 ^ length s + digits_value s"
proof (induction s rule: rev_induct)
  case Nil
  show ?case by (simp add: digits_value_def)
next
  case (snoc d s)
  have "digits_value ((c # s) @ [d]) = 10 * digits_value (c # s) + (byte d - 48)"
    by (rule digits_value_snoc)
  with snoc show ?case by (simp add: algebra_simps)
qed

lemma digits_value_bound: "list_all is_digit s \<Longrightarrow> digits_value s < 10 ^ length s"
proof (induction s)
  case Nil
  show ?case by (simp add: digits_value_def)
next
  case (Cons c s)
  then have "byte c \<le> 57" by (simp add: is_digit_def)
  then have "byte c - 48 \<le> 9" by linarith
  then have "(byte c - 48) * 10 ^ length s \<le> 9 * 10 ^ length s" by simp
  moreover have "digits_value s < 10 ^ length s" using Cons by simp
  ultimately show ?case unfolding digits_value_Cons by (simp; linarith)
qed

lemma digit_of_byte: "is_digit c \<Longrightarrow> digit_of (byte c - 48) = c"
  by (simp add: is_digit_def digit_of_def byte_def)

lemma digit_of_zero: "digit_of 0 = CHR ''0''"
  by code_simp

text \<open>A text of digits without a leading zero is the decimal form of its value.\<close>

lemma itoa_canonical:
  assumes "s \<noteq> []" and "list_all is_digit s" and "length s = 1 \<or> hd s \<noteq> CHR ''0''"
  shows "itoa (digits_value s) = s"
  using assms
proof (induction s rule: rev_induct)
  case (snoc c s)
  have c: "is_digit c" using snoc.prems by simp
  then have "byte c \<le> 57" by (simp add: is_digit_def)
  then have c9: "byte c - 48 < 10" by linarith
  show ?case
  proof (cases "s = []")
    case True
    with c c9 show ?thesis
      by (subst itoa.simps) (simp add: digits_value_def digit_of_byte)
  next
    case False
    with snoc have s: "itoa (digits_value s) = s" by auto
    obtain d ds where ds: "s = d # ds" using False by (cases s) auto
    have d: "d \<noteq> CHR ''0''" "is_digit d" using snoc.prems False ds by auto
    then have "byte d \<noteq> 48"
      by (metis digit_of_byte digit_of_zero diff_self_eq_0)
    moreover have "48 \<le> byte d" using d by (simp add: is_digit_def)
    ultimately have "byte d - 48 \<ge> 1" by linarith
    then have "(byte d - 48) * 10 ^ length ds \<ge> 1" by simp
    then have "digits_value s \<ge> 1" unfolding ds digits_value_Cons by linarith
    then show ?thesis
      using c c9 s by (subst itoa.simps) (simp add: digit_of_byte)
  qed
qed simp

section \<open>IP:PORT\<close>

text \<open>
  \<open>re_1xx\<close>, \<open>re_2xx\<close>, \<open>re_xx\<close>, \<open>ip_part\<close>, \<open>re_port\<close> and \<open>addressRegexp\<close>; the text of each
  expression stands behind its definition.
\<close>

definition char_class :: "char \<Rightarrow> char \<Rightarrow> rx" where
  "char_class a b = Class [(a, b)]"

abbreviation the_char :: "char \<Rightarrow> rx" where
  "the_char c \<equiv> char_class c c"

definition any_digit :: rx where
  "any_digit = char_class (CHR ''0'') (CHR ''9'')"

text \<open>\<open>(1([0-9]?[0-9]?))\<close>\<close>

definition re_1xx :: rx where
  "re_1xx = Cat (the_char (CHR ''1'')) (Cat (Maybe any_digit) (Maybe any_digit))"

text \<open>\<open>(2([6-9]|([0-4][0-9]?)|(5[0-5]?))?)\<close>\<close>

definition re_2xx :: rx where
  "re_2xx = Cat (the_char (CHR ''2''))
     (Maybe (Alt (char_class (CHR ''6'') (CHR ''9''))
        (Alt (Cat (char_class (CHR ''0'') (CHR ''4'')) (Maybe any_digit))
           (Cat (the_char (CHR ''5'')) (Maybe (char_class (CHR ''0'') (CHR ''5'')))))))"

text \<open>\<open>([3-9][0-9]?)\<close>\<close>

definition re_xx :: rx where
  "re_xx = Cat (char_class (CHR ''3'') (CHR ''9'')) (Maybe any_digit)"

text \<open>\<open>(0|([1-6][0-9]{0,4})|([7-9][0-9]{0,3}))\<close>\<close>

definition re_port :: rx where
  "re_port = Alt (the_char (CHR ''0''))
     (Alt (Cat (char_class (CHR ''1'') (CHR ''6'')) (at_most 4 any_digit))
        (Cat (char_class (CHR ''7'') (CHR ''9'')) (at_most 3 any_digit)))"

text \<open>\<open>(0|re_1xx|re_2xx|re_xx)\<close>\<close>

definition ip_part :: rx where
  "ip_part = Alt (the_char (CHR ''0'')) (Alt re_1xx (Alt re_2xx re_xx))"

text \<open>\<open>^ip_part([.]ip_part){3}:re_port$\<close>\<close>

definition addressRegexp :: rx where
  "addressRegexp = Cat ip_part (Cat (exactly 3 (Cat (the_char (CHR ''.'')) ip_part))
     (Cat (the_char (CHR '':'')) re_port))"

text \<open>\<open>macAddressRegexp\<close>: \<open>^[0-9A-Fa-f]{2}(:[0-9A-Fa-f]{2}){5}$\<close>\<close>

definition hex_digit :: rx where
  "hex_digit = Class [(CHR ''0'', CHR ''9''), (CHR ''A'', CHR ''F''), (CHR ''a'', CHR ''f'')]"

definition macAddressRegexp :: rx where
  "macAddressRegexp = Cat (exactly 2 hex_digit)
     (exactly 5 (Cat (the_char (CHR '':'')) (exactly 2 hex_digit)))"

subsection \<open>What the expressions accept\<close>

lemma itoa_1: "n < 10 \<Longrightarrow> itoa n = [digit_of n]"
  by (subst itoa.simps) simp

lemma itoa_2: "10 \<le> n \<Longrightarrow> n < 100 \<Longrightarrow> itoa n = [digit_of (n div 10), digit_of (n mod 10)]"
  by (subst itoa.simps) (simp add: itoa_1)

lemma itoa_3: "100 \<le> n \<Longrightarrow> n < 1000 \<Longrightarrow>
    itoa n = [digit_of (n div 100), digit_of (n div 10 mod 10), digit_of (n mod 10)]"
  by (subst itoa.simps) (simp add: itoa_2 div_mult2_eq [symmetric])

lemma byte_literals [simp]:
  "byte (CHR ''0'') = 48" "byte (CHR ''1'') = 49" "byte (CHR ''2'') = 50" "byte (CHR ''3'') = 51"
  "byte (CHR ''4'') = 52" "byte (CHR ''5'') = 53" "byte (CHR ''6'') = 54" "byte (CHR ''7'') = 55"
  "byte (CHR ''8'') = 56" "byte (CHR ''9'') = 57" "byte (CHR ''.'') = 46" "byte (CHR '':'') = 58"
  by (simp_all add: byte_def)

lemmas rx_unfold = re_1xx_def re_2xx_def re_xx_def ip_part_def any_digit_def char_class_def
  in_class_def

lemma digits_value_Nil [simp]: "digits_value [] = 0"
  by (simp add: digits_value_def)

lemma ip_part_long: "\<not> matches_whole ip_part (a # b # c # d # s)"
  by (simp add: matches_whole_def rx_unfold)

lemma ip_part_short:
  assumes "matches_whole ip_part s"
  shows "s \<noteq> [] \<and> list_all is_digit s \<and>
     (length s = 1 \<or> hd s \<noteq> CHR ''0'') \<and> digits_value s < 256"
proof -
  consider "s = []" | a where "s = [a]" | a b where "s = [a, b]" | a b c where "s = [a, b, c]"
    | a b c d r where "s = a # b # c # d # r"
    by (metis list.exhaust)
  then show ?thesis
  proof cases
    case 1
    with assms show ?thesis by (simp add: matches_whole_def rx_unfold)
  next
    case (2 a)
    with assms show ?thesis
      by (auto simp: matches_whole_def rx_unfold is_digit_def digits_value_Cons split: if_splits)
  next
    case (3 a b)
    with assms show ?thesis
      by (auto simp: matches_whole_def rx_unfold is_digit_def digits_value_Cons split: if_splits)
  next
    case (4 a b c)
    with assms show ?thesis
      by (auto simp: matches_whole_def rx_unfold is_digit_def digits_value_Cons split: if_splits)
  next
    case (5 a b c d r)
    with assms ip_part_long show ?thesis by simp
  qed
qed

lemma ip_part_digits:
  "d < 10 \<Longrightarrow> matches_whole ip_part [digit_of d]"
  "0 < d \<Longrightarrow> d < 10 \<Longrightarrow> e < 10 \<Longrightarrow> matches_whole ip_part [digit_of d, digit_of e]"
  by (simp add: matches_whole_def rx_unfold, arith)+

lemma ip_part_digits3:
  assumes "0 < d" "e < 10" "f < 10" "100 * d + 10 * e + f < 256"
  shows "matches_whole ip_part [digit_of d, digit_of e, digit_of f]"
proof -
  consider "d = 1" | "d = 2" "e < 5" | "d = 2" "e = 5" "f < 6" using assms by linarith
  then show ?thesis
    using assms by cases (simp_all add: matches_whole_def rx_unfold)
qed

lemma ip_part_itoa:
  assumes "n < 256"
  shows "matches_whole ip_part (itoa n)"
proof -
  consider "n < 10" | "10 \<le> n" "n < 100" | "100 \<le> n" by linarith
  then show ?thesis
  proof cases
    case 1
    then show ?thesis by (simp add: itoa_1 ip_part_digits)
  next
    case 2
    then have "0 < n div 10" "n div 10 < 10" by simp_all
    with 2 show ?thesis by (simp add: itoa_2 ip_part_digits)
  next
    case 3
    have "n div 10 = 10 * (n div 10 div 10) + n div 10 mod 10" by simp
    moreover have "n = 10 * (n div 10) + n mod 10" by simp
    moreover have "n div 10 div 10 = n div 100" by (simp add: div_mult2_eq [symmetric])
    ultimately have "100 * (n div 100) + 10 * (n div 10 mod 10) + n mod 10 < 256"
      using assms by linarith
    moreover have "0 < n div 100" using 3 by (simp add: div_greater_zero_iff)
    ultimately have "matches_whole ip_part
        [digit_of (n div 100), digit_of (n div 10 mod 10), digit_of (n mod 10)]"
      by (intro ip_part_digits3) auto
    then show ?thesis using 3 assms by (simp add: itoa_3)
  qed
qed

lemma lang_Cat_class:
  "s \<in> lang (Cat (Class rs) r) \<longleftrightarrow> (\<exists>c u. s = c # u \<and> in_class rs c \<and> u \<in> lang r)"
proof
  assume "\<exists>c u. s = c # u \<and> in_class rs c \<and> u \<in> lang r"
  then obtain c u where "s = [c] @ u" "in_class rs c" "u \<in> lang r" by auto
  then show "s \<in> lang (Cat (Class rs) r)" unfolding lang.simps by blast
qed auto

lemma ip_part_lang: "lang ip_part = itoa ` {..<256}"
proof (intro equalityI subsetI)
  fix s assume "s \<in> lang ip_part"
  then have "itoa (digits_value s) = s" "digits_value s < 256"
    using ip_part_short itoa_canonical by (simp_all add: matches_lang)
  then show "s \<in> itoa ` {..<256}" by (metis imageI lessThan_iff)
qed (auto simp: ip_part_itoa simp flip: matches_lang)

lemma lang_at_most_digits:
  "w \<in> lang (at_most n any_digit) \<longleftrightarrow> length w \<le> n \<and> list_all is_digit w"
proof (induction n arbitrary: w)
  case (Suc n)
  have "w \<in> lang (at_most (Suc n) any_digit) \<longleftrightarrow>
      w = [] \<or> w \<in> lang (Cat any_digit (at_most n any_digit))" by simp
  also have "\<dots> \<longleftrightarrow> w = [] \<or> (\<exists>c u. w = c # u \<and> is_digit c \<and> length u \<le> n \<and> list_all is_digit u)"
    unfolding any_digit_def char_class_def lang_Cat_class
    by (simp add: Suc [unfolded any_digit_def char_class_def] in_class_def
        is_digit_def [abs_def])
  also have "\<dots> \<longleftrightarrow> length w \<le> Suc n \<and> list_all is_digit w" by (cases w) auto
  finally show ?case .
qed auto

lemma byte_eq_48: "48 \<le> byte c \<and> byte c \<le> 48 \<longleftrightarrow> c = CHR ''0''"
proof
  assume "48 \<le> byte c \<and> byte c \<le> 48"
  then have "byte c = byte (CHR ''0'')" by simp
  then show "c = CHR ''0''" unfolding byte_def of_char_eq_iff .
qed simp

lemma re_port_iff: "s \<in> lang re_port \<longleftrightarrow>
    s = ''0'' \<or> (\<exists>c u. s = c # u \<and> list_all is_digit u \<and>
      (49 \<le> byte c \<and> byte c \<le> 54 \<and> length u \<le> 4 \<or>
       55 \<le> byte c \<and> byte c \<le> 57 \<and> length u \<le> 3))"
proof -
  have "s \<in> lang re_port \<longleftrightarrow> s \<in> lang (the_char (CHR ''0'')) \<or>
      s \<in> lang (Cat (char_class (CHR ''1'') (CHR ''6'')) (at_most 4 any_digit)) \<or>
      s \<in> lang (Cat (char_class (CHR ''7'') (CHR ''9'')) (at_most 3 any_digit))"
    by (simp add: re_port_def)
  also have "\<dots> \<longleftrightarrow> s = ''0'' \<or>
      (\<exists>c u. s = c # u \<and> (49 \<le> byte c \<and> byte c \<le> 54) \<and> length u \<le> 4 \<and> list_all is_digit u) \<or>
      (\<exists>c u. s = c # u \<and> (55 \<le> byte c \<and> byte c \<le> 57) \<and> length u \<le> 3 \<and> list_all is_digit u)"
    unfolding char_class_def lang_Cat_class lang_at_most_digits
    by (simp add: in_class_def byte_eq_48)
  finally show ?thesis by blast
qed

lemma re_port_short:
  assumes "s \<in> lang re_port"
  shows "s \<noteq> [] \<and> list_all is_digit s \<and> (length s = 1 \<or> hd s \<noteq> CHR ''0'') \<and>
    digits_value s < 70000"
proof -
  have bound: "digits_value (c # u) < 70000"
    if "list_all is_digit u" "byte c \<le> 54 \<and> length u \<le> 4 \<or> byte c \<le> 57 \<and> length u \<le> 3" for c u
  proof -
    have u: "digits_value u < 10 ^ length u" using that(1) by (rule digits_value_bound)
    from that(2) show ?thesis
    proof
      assume c: "byte c \<le> 54 \<and> length u \<le> 4"
      then have "(10::nat) ^ length u \<le> 10 ^ 4" by (intro power_increasing) auto
      then have "(byte c - 48) * 10 ^ length u \<le> 6 * 10 ^ 4" using c by (intro mult_le_mono) auto
      with u c \<open>_ \<le> 10 ^ 4\<close> show ?thesis by (simp add: digits_value_Cons)
    next
      assume c: "byte c \<le> 57 \<and> length u \<le> 3"
      then have "(10::nat) ^ length u \<le> 10 ^ 3" by (intro power_increasing) auto
      then have "(byte c - 48) * 10 ^ length u \<le> 9 * 10 ^ 3" using c by (intro mult_le_mono) auto
      with u c \<open>_ \<le> 10 ^ 3\<close> show ?thesis by (simp add: digits_value_Cons)
    qed
  qed
  show ?thesis using assms unfolding re_port_iff
    by (auto simp: is_digit_def digits_value_Cons intro: bound)
qed

lemma itoa_hd: "0 < n \<Longrightarrow> 49 \<le> byte (hd (itoa n))"
proof (induction n rule: itoa.induct)
  case (1 n)
  show ?case
  proof (cases "n < 10")
    case True
    with 1 show ?thesis by (simp add: itoa_1)
  next
    case False
    with 1 have "49 \<le> byte (hd (itoa (n div 10)))" by simp
    with False show ?thesis by (subst itoa.simps) simp
  qed
qed

lemma re_port_lang: "lang re_port = itoa ` {..<70000}"
proof (intro equalityI subsetI)
  fix s assume "s \<in> lang re_port"
  then have "itoa (digits_value s) = s" "digits_value s < 70000"
    using re_port_short itoa_canonical by simp_all
  then show "s \<in> itoa ` {..<70000}" by (metis imageI lessThan_iff)
next
  fix s assume "s \<in> itoa ` {..<70000}"
  then obtain n where n: "s = itoa n" "n < 70000" by auto
  obtain c u where s: "s = c # u" using n by (metis itoa_nonempty list.exhaust)
  have d: "is_digit c" "list_all is_digit u" using itoa_digits [of n] unfolding n(1) [symmetric] s by auto
  have v: "(byte c - 48) * 10 ^ length u + digits_value u = n"
    using digits_value_itoa [of n] unfolding n(1) [symmetric] s by (simp add: digits_value_Cons)
  show "s \<in> lang re_port"
  proof (cases "n = 0")
    case True
    then show ?thesis using n by (simp add: re_port_iff itoa_1 digit_of_zero)
  next
    case False
    then have c: "49 \<le> byte c" "byte c \<le> 57"
      using itoa_hd [of n] d(1) unfolding n(1) [symmetric] s by (simp_all add: is_digit_def)
    then have "10 ^ length u \<le> (byte c - 48) * 10 ^ length u" by simp
    then have "10 ^ length u < (10::nat) ^ 5" using v n(2) by (simp; linarith)
    then have l: "length u \<le> 4" using power_less_imp_less_exp [of "10::nat" "length u" 5] by simp
    have "byte c \<le> 54" if "length u = 4"
    proof -
      have "(byte c - 48) * 10 ^ 4 < 70000" using v n(2) that by simp
      then show ?thesis by simp
    qed
    with l c d show ?thesis unfolding re_port_iff s by (cases "length u = 4") auto
  qed
qed

lemma address_lang:
  "matches_whole addressRegexp s \<longleftrightarrow>
     (\<exists>a b c d p. a < 256 \<and> b < 256 \<and> c < 256 \<and> d < 256 \<and> p < 70000 \<and>
        s = itoa a @ ''.'' @ itoa b @ ''.'' @ itoa c @ ''.'' @ itoa d @ '':'' @ itoa p)"
proof -
  define conc :: "string set \<Rightarrow> string set \<Rightarrow> string set"
    where "conc X Y = {u @ v |u v. u \<in> X \<and> v \<in> Y}" for X Y
  have cat: "lang (Cat A B) = conc (lang A) (lang B)" for A B by (simp add: conc_def)
  have mem: "t \<in> conc X Y \<longleftrightarrow> (\<exists>u \<in> X. \<exists>v \<in> Y. t = u @ v)" for t X Y
    by (auto simp: conc_def)
  have bex: "(\<exists>v \<in> conc X Y. P v) \<longleftrightarrow> (\<exists>u \<in> X. \<exists>w \<in> Y. P (u @ w))" for X Y P
    by (auto simp: conc_def)
  have assoc: "conc (conc X Y) Z = conc X (conc Y Z)" for X Y Z
  proof (rule set_eqI)
    fix t
    have "t \<in> conc (conc X Y) Z \<longleftrightarrow> (\<exists>u \<in> X. \<exists>v \<in> Y. \<exists>w \<in> Z. t = u @ v @ w)"
      unfolding mem by (metis append_assoc mem)
    also have "\<dots> \<longleftrightarrow> t \<in> conc X (conc Y Z)" unfolding mem by (metis mem)
    finally show "t \<in> conc (conc X Y) Z \<longleftrightarrow> t \<in> conc X (conc Y Z)" .
  qed
  have conc_Nil: "conc {[]} X = X" for X by (auto simp: set_eq_iff mem)
  have the_char: "lang (the_char x) = {[x]}" for x
    by (auto simp: char_class_def in_class_def byte_def simp flip: eq_iff)
  have "lang addressRegexp = conc (lang ip_part) (conc {''.''} (conc (lang ip_part) (conc {''.''}
      (conc (lang ip_part) (conc {''.''} (conc (lang ip_part) (conc {'':''} (lang re_port))))))))"
    unfolding addressRegexp_def numeral_3_eq_3 exactly.simps cat the_char assoc lang.simps(2)
    by (simp add: conc_Nil)
  then have "s \<in> lang addressRegexp \<longleftrightarrow> (\<exists>a \<in> lang ip_part. \<exists>b \<in> lang ip_part.
      \<exists>c \<in> lang ip_part. \<exists>d \<in> lang ip_part. \<exists>p \<in> lang re_port.
        s = a @ ''.'' @ b @ ''.'' @ c @ ''.'' @ d @ '':'' @ p)"
    by (simp add: mem bex)
  then show ?thesis
    unfolding matches_lang ip_part_lang re_port_lang by (simp add: lessThan_def)
qed

text \<open>The expression for addresses accepts exactly the texts of four numbers below 256
  with dots between them, a colon and a number below 70000, all in decimal without leading
  zeros; so 65536 to 69999 pass as port numbers.\<close>

theorem address_form:
  "matches_whole addressRegexp s \<longleftrightarrow>
     (\<exists>a b c d p. a < 256 \<and> b < 256 \<and> c < 256 \<and> d < 256 \<and> p < 70000 \<and>
        s = itoa a @ ''.'' @ itoa b @ ''.'' @ itoa c @ ''.'' @ itoa d @ '':'' @ itoa p)"
  by (rule address_lang)

end
