(* ===== verification/PeerLinks.thy ===== *)
theory PeerLinks
  imports ServerDB
begin

text \<open>
  The permanent connections to the other servers, go-susi/message/peer_connection.go: the
  table of connections, the queue of each and what its goroutine \<open>handleConnection\<close> does
  with one message, the downtime, and the distribution of the updates of the job database.

  A message stands for its text (\<open>String()\<close>), an encrypted one for \<open>GosaEncrypt\<close> of the text
  with the key. Parameters: \<open>resolve\<close> is util.Resolve (a submodule), \<open>server\<close> is
  config.ServerSourceAddress; whether the network accepts a connection or a message is input
  of a round. Times are seconds.
\<close>

section \<open>The table of connections\<close>

datatype telegram = Ping | Plain hash | Encrypted string hash

record connection =
  is_gosusi :: bool
  queue :: "telegram list"
  tcpConn :: bool
  whendown :: int
  pingerRunning :: bool

definition new_connection :: connection where
  "new_connection = \<lparr>is_gosusi = False, queue = [], tcpConn = False, whendown = 0,
     pingerRunning = False\<rparr>"

type_synonym peers = "(string \<times> connection) list"

text \<open>The address under which \<open>Peer\<close> files a connection; None is a PeerConnection with an error.\<close>

definition peer_address :: "(string \<Rightarrow> string result) \<Rightarrow> string \<Rightarrow> string option" where
  "peer_address resolve addr =
     (case resolve addr of
        Inl _ \<Rightarrow> None
      | Inr a \<Rightarrow> (case SplitHostPort a of Inl _ \<Rightarrow> None | Inr (host, port) \<Rightarrow> Some (host @ '':'' @ port)))"

definition Peer ::
  "(string \<Rightarrow> string result) \<Rightarrow> string \<Rightarrow> string \<Rightarrow> peers \<Rightarrow> (peers \<times> string option) outcome" where
  "Peer resolve server addr ps =
     (case peer_address resolve addr of
        None \<Rightarrow> Returns (ps, None)
      | Some a \<Rightarrow>
          if a = server then Panics
          else Returns (if a \<in> fst ` set ps then ps else ps @ [(a, new_connection)], Some a))"

definition change :: "string \<Rightarrow> (connection \<Rightarrow> connection) \<Rightarrow> peers \<Rightarrow> peers" where
  "change a f ps = map (\<lambda>(b, c). (b, if b = a then f c else c)) ps"

definition SetGoSusi :: "bool \<Rightarrow> string option \<Rightarrow> peers \<Rightarrow> peers" where
  "SetGoSusi yes conn ps =
     (case conn of None \<Rightarrow> ps | Some a \<Rightarrow> change a (\<lambda>c. c\<lparr>is_gosusi := yes\<rparr>) ps)"

definition IsGoSusi :: "string option \<Rightarrow> peers \<Rightarrow> bool" where
  "IsGoSusi conn ps =
     (case conn of None \<Rightarrow> False
      | Some a \<Rightarrow> (case map_of ps a of None \<Rightarrow> False | Some c \<Rightarrow> is_gosusi c))"

section \<open>Downtime\<close>

definition Downtime :: "int \<Rightarrow> connection \<Rightarrow> int" where
  "Downtime now c = (if whendown c = 0 then 0 else now - whendown c)"

definition startDowntime :: "int \<Rightarrow> connection \<Rightarrow> connection" where
  "startDowntime now c = c\<lparr>whendown := now\<rparr>"

definition stopDowntime :: "connection \<Rightarrow> connection" where
  "stopDowntime c = c\<lparr>whendown := 0\<rparr>"

section \<open>Putting messages into the queue\<close>

definition coded :: "string \<Rightarrow> hash \<Rightarrow> telegram" where
  "coded key msg = (if key = [] then Plain msg else Encrypted key msg)"

text \<open>
  \<open>Tell\<close>: \<open>use_tls\<close> says that config.TLSClientConfig is set, \<open>keys\<close> are the keys of the peer; None
  when no key is known.
\<close>

definition telegram_for :: "bool \<Rightarrow> string list \<Rightarrow> string \<Rightarrow> hash \<Rightarrow> telegram option" where
  "telegram_for use_tls keys key msg =
     (if use_tls \<and> keys \<noteq> [] \<and> hd keys = [] then Some (Plain msg)
      else if key = [] then
        (case keys of [] \<Rightarrow> None | k # _ \<Rightarrow> Some (coded k msg))
      else Some (coded key msg))"

definition push :: "telegram \<Rightarrow> connection \<Rightarrow> connection" where
  "push m c = c\<lparr>queue := queue c @ [m]\<rparr>"

definition Tell :: "bool \<Rightarrow> hash \<Rightarrow> hash \<Rightarrow> string \<Rightarrow> string option \<Rightarrow> peers \<Rightarrow> peers" where
  "Tell use_tls serverdb msg key conn ps =
     (case conn of None \<Rightarrow> ps
      | Some a \<Rightarrow>
          (case telegram_for use_tls (ServerKeys a serverdb) key msg of
             None \<Rightarrow> ps | Some m \<Rightarrow> change a (push m) ps))"

section \<open>The goroutine of a connection\<close>

text \<open>
  What a round meets: whether the message can be sent over the open connection, whether a new
  connection can be made and whether the message can be sent over it; \<open>tls_link\<close> is the
  condition config.TLSClientConfig \<noteq> nil and the first key of the peer is empty or unknown.
\<close>

record surroundings =
  send_ok :: bool
  dial_ok :: bool
  resend_ok :: bool
  tls_link :: bool
  clock :: int

datatype link_effect =
    Sent telegram
  | Start_monitor
  | Send_new_server
  | Ping_after int
  | Remove_jobs
  | Remove_server

text \<open>
  How long to wait before the next attempt; None when the connection is given up. The limit
  is config.MaxPeerDowntime.
\<close>

definition retry_delay :: "int \<Rightarrow> int \<Rightarrow> int option" where
  "retry_delay max_downtime dur =
     (let maxdelay = max_downtime - dur in
      if maxdelay > 0 \<and> dur < 10*60 then Some (min 10 maxdelay)
      else if maxdelay > 0 \<and> dur < 24*60*60 then Some (min (10*60) maxdelay)
      else if maxdelay > 0 then Some (min (30*60) maxdelay)
      else None)"

text \<open>After a failure; None is the end of the connection.\<close>

definition wait_for_peer :: "int \<Rightarrow> int \<Rightarrow> connection \<Rightarrow> connection option \<times> link_effect list" where
  "wait_for_peer max_downtime now c =
     (let c = (if whendown c = 0 then startDowntime now c else c) in
      if pingerRunning c then (Some c, [])
      else
        (case retry_delay max_downtime (Downtime now c) of
           None \<Rightarrow> (None, [Remove_jobs, Remove_server])
         | Some d \<Rightarrow> (Some (c\<lparr>pingerRunning := True\<rparr>), [Ping_after d])))"

text \<open>
  The new connection. With TLS the variable err keeps the error that made the reconnection
  necessary, also when \<open>SendLnTo\<close> returns a connection: the flag of the result is
  \<open>err \<noteq> nil\<close>.
\<close>

definition reconnect ::
  "surroundings \<Rightarrow> telegram \<Rightarrow> connection \<Rightarrow> connection \<times> link_effect list \<times> bool" where
  "reconnect env m c =
     (let c = c\<lparr>tcpConn := dial_ok env\<rparr> in
      if tls_link env \<or> \<not> dial_ok env then (c, [], True)
      else if resend_ok env then (stopDowntime c, [Start_monitor, Sent m, Send_new_server], False)
      else (stopDowntime c, [Start_monitor], True))"

text \<open>One round of the loop; the queue must not be empty, else \<open>Next\<close> blocks.\<close>

definition handle_message ::
  "int \<Rightarrow> surroundings \<Rightarrow> connection \<Rightarrow> (connection option \<times> link_effect list) outcome" where
  "handle_message max_downtime env c =
     (case queue c of
        [] \<Rightarrow> Blocks
      | m # rest \<Rightarrow>
          let c = c\<lparr>queue := rest\<rparr> in
          if tcpConn c \<and> send_ok env then Returns (Some c, [Sent m])
          else
            (case reconnect env m c of
               (c, effects, failed) \<Rightarrow>
                 if failed
                 then (case wait_for_peer max_downtime (clock env) c of
                         (c', waits) \<Rightarrow> Returns (c', effects @ waits))
                 else Returns (Some c, effects)))"

text \<open>Messages to a peer that does not speak the protocol of go-susi are sent a second apart.\<close>

definition pauses :: "connection \<Rightarrow> bool" where
  "pauses c \<longleftrightarrow> \<not> is_gosusi c \<and> length (queue c) < 10"

text \<open>The goroutines that wake the loop: the pinger and \<open>monitorConnection\<close> at its end.\<close>

definition pinger_fires :: "connection \<Rightarrow> connection" where
  "pinger_fires c = push Ping (c\<lparr>pingerRunning := False\<rparr>)"

definition connection_lost :: "connection \<Rightarrow> connection" where
  "connection_lost c = push Ping c"

section \<open>Distributing the updates of the job database\<close>

text \<open>
  One round of \<open>DistributeForeignJobUpdates\<close>. The second result are the peers for which
  \<open>SyncIfNotGoSusi\<close> starts a full synchronization. An update for all peers is addressed to
  one after the other; the order of the table is not specified in the code.
\<close>

definition SyncIfNotGoSusi :: "string option \<Rightarrow> peers \<Rightarrow> string option list" where
  "SyncIfNotGoSusi conn ps = (if IsGoSusi conn ps then [] else [conn])"

fun tell_all ::
  "bool \<Rightarrow> hash \<Rightarrow> bool \<Rightarrow> bool \<Rightarrow> hash \<Rightarrow> string list \<Rightarrow> peers \<Rightarrow> (peers \<times> string option list) outcome" where
  "tell_all use_tls serverdb all_gosasi sync fju [] ps = Returns (ps, [])"
| "tell_all use_tls serverdb all_gosasi sync fju (addr # rest) ps =
     (if all_gosasi \<and> IsGoSusi (Some addr) ps then tell_all use_tls serverdb all_gosasi sync fju rest ps
      else
        (case First ''target'' fju of
           None \<Rightarrow> Panics
         | Some _ \<Rightarrow>
             let fju = set_field ''target'' addr fju in
             and_then
               (tell_all use_tls serverdb all_gosasi sync fju rest (Tell use_tls serverdb fju [] (Some addr) ps))
               (\<lambda>(ps', syncs). Returns (ps', (if sync then SyncIfNotGoSusi (Some addr) ps else []) @ syncs))))"

definition distribute ::
  "bool \<Rightarrow> hash \<Rightarrow> (string \<Rightarrow> string result) \<Rightarrow> string \<Rightarrow> hash \<Rightarrow> peers \<Rightarrow> (peers \<times> string option list) outcome" where
  "distribute use_tls serverdb resolve server fju ps =
     (let target = text_of ''target'' fju;
          all_gosasi = (target = ''gosa-si'');
          target = (if all_gosasi then [] else target);
          sync = (First ''SyncIfNotGoSusi'' fju \<noteq> None);
          fju = drop_first ''SyncIfNotGoSusi'' fju;
          to_all = tell_all use_tls serverdb all_gosasi sync fju (map fst ps) ps
      in if target = [] then to_all
         else
           and_then (Peer resolve server target ps) (\<lambda>(ps, conn).
             if sync \<and> \<not> IsGoSusi conn ps
             then tell_all use_tls serverdb all_gosasi sync fju (map fst ps) ps
             else Returns (Tell use_tls serverdb fju [] conn ps,
                           if sync then SyncIfNotGoSusi conn ps else [])))"

section \<open>The life of a connection\<close>

text \<open>
  The events of one connection: a message is put into the queue, its goroutine handles the
  next one, the pinger or the monitor wakes it. The flag says whether the link uses TLS.
\<close>

inductive link_step :: "int \<Rightarrow> bool \<Rightarrow> connection \<Rightarrow> connection option \<Rightarrow> bool" for limit with_tls where
  told: "link_step limit with_tls c (Some (push m c))"
| handled: "tls_link env = with_tls \<Longrightarrow> handle_message limit env c = Returns (c', effects) \<Longrightarrow>
    link_step limit with_tls c c'"
| pinged: "pingerRunning c \<Longrightarrow> link_step limit with_tls c (Some (pinger_fires c))"
| lost: "link_step limit with_tls c (Some (connection_lost c))"

inductive link_runs :: "int \<Rightarrow> bool \<Rightarrow> connection \<Rightarrow> connection \<Rightarrow> bool" for limit with_tls where
  start: "link_runs limit with_tls c c"
| step: "link_runs limit with_tls c d \<Longrightarrow> link_step limit with_tls d (Some e) \<Longrightarrow>
    link_runs limit with_tls c e"

inductive_cases link_stepE: "link_step limit with_tls c (Some d)"

lemma push_sides [simp]:
  "whendown (push m c) = whendown c" "tcpConn (push m c) = tcpConn c"
  "pingerRunning (push m c) = pingerRunning c" "is_gosusi (push m c) = is_gosusi c"
  "queue (push m c) = queue c @ [m]"
  by (simp_all add: push_def)

lemma wait_for_peer_whendown:
  "wait_for_peer limit now c = (Some c', effects) \<Longrightarrow>
    whendown c' = (if whendown c = 0 then now else whendown c)"
  by (auto simp: wait_for_peer_def startDowntime_def Let_def split: if_splits option.splits)

text \<open>What a handled message does to the connection, by the way the round goes.\<close>

lemma handle_message_whendown:
  assumes "handle_message limit env c = Returns (Some c', effects)"
  shows "whendown c' =
    (if tcpConn c \<and> send_ok env then whendown c
     else if tls_link env \<or> \<not> dial_ok env then (if whendown c = 0 then clock env else whendown c)
     else if resend_ok env then 0 else clock env)"
  using assms
  by (auto simp: handle_message_def reconnect_def stopDowntime_def Let_def
      dest!: wait_for_peer_whendown split: list.splits if_splits prod.splits)

text \<open>When a connection without TLS is made again and the message gets through, the peer
  counts as up, the message is sent on the new connection and a new_server message follows,
  whose answer starts a full synchronization; nothing is scheduled to wake the loop.\<close>

theorem reconnected_peer_is_up:
  assumes "queue c = m # rest" and "\<not> (tcpConn c \<and> send_ok env)"
    and "\<not> tls_link env" and "dial_ok env" and "resend_ok env"
  shows "\<exists>c'. handle_message limit env c =
      Returns (Some c', [Start_monitor, Sent m, Send_new_server]) \<and>
    Downtime now c' = 0 \<and> tcpConn c' \<and> queue c' = rest \<and> pingerRunning c' = pingerRunning c"
  using assms by (simp add: handle_message_def reconnect_def stopDowntime_def Downtime_def Let_def)

definition example_link :: connection where
  "example_link = new_connection\<lparr>queue := [Plain (NewHash ''xml'' [])], whendown := 100\<rparr>"

definition fair_weather :: "bool \<Rightarrow> surroundings" where
  "fair_weather with_tls = \<lparr>send_ok = True, dial_ok = True, resend_ok = True,
     tls_link = with_tls, clock = 160\<rparr>"

theorem reconnected_peer_is_up_witness:
  "\<exists>c'. handle_message 3600 (fair_weather False) example_link = Returns (Some c',
      [Start_monitor, Sent (Plain (NewHash ''xml'' [])), Send_new_server]) \<and> Downtime 170 c' = 0"
proof -
  have "queue example_link = Plain (NewHash ''xml'' []) # []" "\<not> tcpConn example_link"
    by (simp_all add: example_link_def new_connection_def)
  then show ?thesis
    using reconnected_peer_is_up [of example_link "Plain (NewHash ''xml'' [])" "[]"
        "fair_weather False" 3600 170]
    by (auto simp: fair_weather_def)
qed

text \<open>Over TLS a peer that was found unreachable once (as every peer is before its first
  connection) counts as down from then on, whatever is sent and received: the start of the
  downtime never changes until the connection is given up.\<close>

theorem tls_peer_stays_down:
  assumes "link_runs limit True c c'" and "whendown c \<noteq> 0"
  shows "whendown c' = whendown c"
  using assms
proof induction
  case (step c d e)
  from step.hyps(2) show ?case
    by (elim link_stepE)
      (use step handle_message_whendown in
        \<open>auto simp: pinger_fires_def connection_lost_def split: if_splits\<close>)
qed simp

theorem tls_peer_stays_down_witness:
  "\<exists>c'. link_runs 3600 True example_link c' \<and> tcpConn c' \<and> \<not> tcpConn example_link \<and>
    whendown c' = 100"
proof -
  obtain c' effects where h: "handle_message 3600 (fair_weather True) example_link =
      Returns (Some c', effects)" and t: "tcpConn c'"
    by (simp add: handle_message_def example_link_def new_connection_def reconnect_def
        fair_weather_def wait_for_peer_def retry_delay_def Downtime_def Let_def)
  have "link_step 3600 True example_link (Some c')"
    by (rule handled [OF _ h]) (simp add: fair_weather_def)
  then have r: "link_runs 3600 True example_link c'" using link_runs.intros by metis
  moreover have "whendown example_link = 100" by (simp add: example_link_def)
  ultimately show ?thesis
    using tls_peer_stays_down [OF r] t by (auto simp: example_link_def new_connection_def)
qed

text \<open>The next attempt to reach a peer comes before it has been down for the configured
  limit, and at that time the connection is given up: the wait is positive and at most half
  an hour, never reaches beyond the limit, and there is none exactly when the limit has been
  reached.\<close>

theorem retry_within_limit:
  "(retry_delay limit dur = None \<longleftrightarrow> limit \<le> dur) \<and>
   (case retry_delay limit dur of None \<Rightarrow> True
    | Some d \<Rightarrow> 0 < d \<and> d \<le> 30*60 \<and> dur + d \<le> limit)"
  by (auto simp: retry_delay_def Let_def)

end
