(* ===== verification/ForeignUpdates.thy ===== *)
theory ForeignUpdates
  imports PeerLinks Addresses JobInvariants
begin

text \<open>
  The handler of the message with which servers tell each other about their jobs,
  go-susi/message/foreign_job_updates.go, and the theorems on the copies of foreign jobs: a
  full copy (\<open>sync\<close> = all) makes the receiver's copies equal to the sender's jobs, an update
  keeps them equal.

  The handler changes the job database only through requests; \<open>receive\<close> is the handler
  followed by the performance of the requests it made.
\<close>

section \<open>The handler\<close>

text \<open>How the handler ends: at the end, by the return for an address that is none, or by a panic.\<close>

datatype ending = Finished | Rejected | Panicked

text \<open>The job of an answer element.\<close>

definition job_from_sender :: "string \<Rightarrow> hash \<Rightarrow> hash" where
  "job_from_sender source job =
     (if text_of ''siserver'' job = ''localhost'' then set_field ''siserver'' source job else job)"

definition with_xmlmessage :: "hash \<Rightarrow> hash" where
  "with_xmlmessage job =
     (case First ''xmlmessage'' job of
        None \<Rightarrow> Add ''xmlmessage'' [[]] job
      | Some xmlmess \<Rightarrow> set_field ''xmlmessage'' (Join (Fields (own_text xmlmess)) []) job)"

definition answered_job :: "string \<Rightarrow> hash \<Rightarrow> hash" where
  "answered_job source answer =
     with_xmlmessage (job_from_sender source (Rename ''job'' (Clone answer)))"

text \<open>
  The state of the loop: the job database, the table of connections and the addresses
  collected in syncIfNotGoSusi (a set in the code; listed once each).
\<close>

type_synonym update_state = "jobdb \<times> peers \<times> string list"

definition note_sync :: "string \<Rightarrow> string list \<Rightarrow> string list" where
  "note_sync addr syncs = (if addr \<in> set syncs then syncs else syncs @ [addr])"

definition own_job_filter :: "string \<Rightarrow> bool \<Rightarrow> hash \<Rightarrow> hash_filter" where
  "own_job_filter server gosusi job =
     (if gosusi then FilterSimple [''id'', text_of ''id'' job, ''siserver'', server]
      else FilterSimple [''siserver'', server, ''headertag'', text_of ''headertag'' job,
             ''macaddress'', text_of ''macaddress'' job])"

text \<open>Case 1: the updated job belongs to us.\<close>

definition update_own ::
  "(string \<Rightarrow> string result) \<Rightarrow> string \<Rightarrow> string \<Rightarrow> hash \<Rightarrow> update_state \<Rightarrow> update_state outcome" where
  "update_own resolve server source job acc =
     (case acc of (st, ps, syncs) \<Rightarrow>
        and_then (Peer resolve server source ps) (\<lambda>(ps, conn).
          let gosusi = IsGoSusi conn ps;
              syncs = (if gosusi then syncs else note_sync source syncs);
              f = own_job_filter server gosusi job;
              job = (if text_of ''status'' job = ''done'' then set_field ''periodic'' ''none'' job
                     else job)
          in Returns (JobsModifyLocal f job st, ps, syncs)))"

text \<open>Case 2: the updated job belongs to the sender.\<close>

definition running_here :: "string \<Rightarrow> hash \<Rightarrow> hash_filter" where
  "running_here server job =
     FilterAnd
       [FilterSimple [''siserver'', server, ''macaddress'', text_of ''macaddress'' job,
          ''status'', ''processing''],
        FilterOr [FilterSimple [''headertag'', ''trigger_action_reinstall''],
          FilterSimple [''headertag'', ''trigger_action_update'']]]"

definition copy_filter :: "string \<Rightarrow> hash \<Rightarrow> hash_filter" where
  "copy_filter source job = FilterSimple [''siserver'', source, ''original_id'', text_of ''id'' job]"

definition update_copy :: "string \<Rightarrow> string \<Rightarrow> hash \<Rightarrow> jobdb \<Rightarrow> jobdb" where
  "update_copy server source job st =
     (let st = (if text_of ''status'' job = ''processing'' \<and> install_or_update job
                then JobsRemoveLocal (running_here server job) True
                       (JobsModifyLocal (running_here server job)
                          (NewHash ''job'' [''progress'', ''forward'']) st)
                else st)
      in JobsAddOrModifyForeign (copy_filter source job) job st)"

text \<open>One round of the loop. Case 3, a job of a third server, only notes that server.\<close>

definition handle_answer ::
  "(string \<Rightarrow> string result) \<Rightarrow> string \<Rightarrow> string \<Rightarrow> hash \<Rightarrow> update_state \<Rightarrow> update_state \<times> ending" where
  "handle_answer resolve server source answer acc =
     (case acc of (st, ps, syncs) \<Rightarrow>
        let job = answered_job source answer;
            siserver = text_of ''siserver'' job
        in if \<not> matches_whole addressRegexp siserver then (acc, Rejected)
           else if siserver = server then
             (case update_own resolve server source job acc of
                Returns acc' \<Rightarrow> (acc', Finished) | _ \<Rightarrow> (acc, Panicked))
           else if siserver = source then
             ((update_copy server source job st, ps, syncs), Finished)
           else ((st, ps, note_sync siserver syncs), Finished))"

fun handle_answers ::
  "(string \<Rightarrow> string result) \<Rightarrow> string \<Rightarrow> string \<Rightarrow> hash list \<Rightarrow> update_state \<Rightarrow> update_state \<times> ending" where
  "handle_answers resolve server source [] acc = (acc, Finished)"
| "handle_answers resolve server source (child # rest) acc =
     (if \<not> HasPrefix (Name child) ''answer'' then handle_answers resolve server source rest acc
      else
        (case handle_answer resolve server source child acc of
           (acc', Finished) \<Rightarrow> handle_answers resolve server source rest acc'
         | r \<Rightarrow> r))"

text \<open>The loop at the end: the connections on which \<open>SyncIfNotGoSusi\<close> starts a synchronization.\<close>

fun start_syncs ::
  "(string \<Rightarrow> string result) \<Rightarrow> string \<Rightarrow> string list \<Rightarrow> peers \<Rightarrow> peers \<times> string option list \<times> ending" where
  "start_syncs resolve server [] ps = (ps, [], Finished)"
| "start_syncs resolve server (addr # rest) ps =
     (case Peer resolve server addr ps of
        Returns (ps, conn) \<Rightarrow>
          (case start_syncs resolve server rest ps of
             (ps', syncs, e) \<Rightarrow> (ps', SyncIfNotGoSusi conn ps @ syncs, e))
      | _ \<Rightarrow> (ps, [], Panicked))"

definition foreign_job_updates ::
  "(string \<Rightarrow> string result) \<Rightarrow> string \<Rightarrow> hash \<Rightarrow> jobdb \<Rightarrow> peers \<Rightarrow>
   jobdb \<times> peers \<times> string option list \<times> ending" where
  "foreign_job_updates resolve server xmlmsg st ps =
     (let source = text_of ''source'' xmlmsg in
      if \<not> matches_whole addressRegexp source then (st, ps, [], Rejected)
      else
        (let st = (if text_of ''sync'' xmlmsg = ''all''
                   then JobsRemoveForeign (FilterSimple [''siserver'', source]) st else st)
         in case handle_answers resolve server source (children xmlmsg) (st, ps, []) of
              ((st, ps, syncs), Finished) \<Rightarrow> (st, start_syncs resolve server syncs ps)
            | ((st, ps, syncs), e) \<Rightarrow> (st, ps, [], e)))"

section \<open>Which jobs a message can touch\<close>

text \<open>
  A request of the handler is confined when it only concerns jobs of this server (changed the
  way any client may ask for) or copies of jobs of the sender.
\<close>

fun confined :: "string \<Rightarrow> string \<Rightarrow> request \<Rightarrow> bool" where
  "confined server source (RModifyLocal f u) =
     (\<forall>j. accepts f j \<longrightarrow> accepts (local_jobs server) j)"
| "confined server source (RRemoveLocal f stop) =
     (\<forall>j. accepts f j \<longrightarrow> accepts (local_jobs server) j)"
| "confined server source (RRemoveForeign f) =
     (\<forall>j. accepts f j \<longrightarrow> accepts (local_jobs source) j)"
| "confined server source (RAddModifyForeign f job) =
     (text_of ''siserver'' job = source \<and> (\<forall>j. accepts f j \<longrightarrow> accepts (local_jobs source) j))"
| "confined server source _ = False"

definition adds_confined :: "string \<Rightarrow> string \<Rightarrow> jobdb \<Rightarrow> jobdb \<Rightarrow> bool" where
  "adds_confined server source st st' \<longleftrightarrow> jobDB st' = jobDB st \<and> issued st' = issued st \<and>
     (\<exists>rs. requests st' = requests st @ rs \<and> list_all (confined server source) rs)"

lemma adds_confined_refl [simp]: "adds_confined server source st st"
  by (simp add: adds_confined_def)

lemma adds_confined_trans:
  "adds_confined server source st st' \<Longrightarrow> adds_confined server source st' st'' \<Longrightarrow>
    adds_confined server source st st''"
  by (auto simp: adds_confined_def)

lemma adds_confined_enqueue:
  "confined server source r \<Longrightarrow> adds_confined server source st (enqueue r st)"
  by (simp add: adds_confined_def)

lemma own_job_filter_local:
  "accepts (own_job_filter server gosusi job) j \<Longrightarrow> accepts (local_jobs server) j"
  by (auto simp: own_job_filter_def local_jobs_def split: if_splits)

lemma running_here_local:
  "accepts (running_here server job) j \<Longrightarrow> accepts (local_jobs server) j"
  by (simp add: running_here_def local_jobs_def)

lemma copy_filter_source: "accepts (copy_filter source job) j \<Longrightarrow> accepts (local_jobs source) j"
  by (simp add: copy_filter_def local_jobs_def)

lemma JobsModifyLocal_confined:
  "(\<And>j. accepts f j \<Longrightarrow> accepts (local_jobs server) j) \<Longrightarrow>
    adds_confined server source st (JobsModifyLocal f u st)"
  by (simp add: JobsModifyLocal_def JobsRemoveLocal_def adds_confined_enqueue)

lemma update_copy_confined:
  assumes "text_of ''siserver'' job = source"
  shows "adds_confined server source st (update_copy server source job st)"
proof -
  have "adds_confined server source st' (JobsAddOrModifyForeign (copy_filter source job) job st')"
    for st'
    using assms copy_filter_source
    by (auto simp: JobsAddOrModifyForeign_def JobsRemoveForeign_def intro!: adds_confined_enqueue)
  moreover have "adds_confined server source st (JobsRemoveLocal (running_here server job) True
      (JobsModifyLocal (running_here server job) u st))" for u
    unfolding JobsRemoveLocal_def
    by (rule adds_confined_trans [OF JobsModifyLocal_confined adds_confined_enqueue])
      (simp_all add: running_here_local)
  ultimately show ?thesis
    unfolding update_copy_def Let_def by (auto intro: adds_confined_trans)
qed

lemma handle_answer_confined:
  "adds_confined server source (fst acc)
     (fst (fst (handle_answer resolve server source answer acc)))"
proof (cases acc)
  case (fields st ps syncs)
  have "adds_confined server source st
      (fst acc')" if "update_own resolve server source job (st, ps, syncs) = Returns acc'" for job acc'
    using that own_job_filter_local
    by (auto simp: update_own_def Let_def intro!: JobsModifyLocal_confined
        split: outcome.splits prod.splits)
  then show ?thesis
    unfolding handle_answer_def fields Let_def
    by (auto simp: update_copy_confined split: outcome.split)
qed

lemma handle_answers_confined:
  "adds_confined server source (fst acc)
     (fst (fst (handle_answers resolve server source cs acc)))"
proof (induction cs arbitrary: acc)
  case (Cons child rest)
  obtain acc' e where h: "handle_answer resolve server source child acc = (acc', e)" by fastforce
  then have one: "adds_confined server source (fst acc) (fst acc')"
    using handle_answer_confined [of server source acc resolve child] by simp
  show ?case
  proof (cases "HasPrefix (Name child) ''answer'' \<and> e = Finished")
    case True
    then have "handle_answers resolve server source (child # rest) acc =
        handle_answers resolve server source rest acc'" using h by simp
    with one Cons.IH [of acc'] show ?thesis by (simp add: adds_confined_trans)
  next
    case False
    then show ?thesis using h one Cons.IH [of acc] by (cases e) auto
  qed
qed simp

text \<open>C13: Whatever a foreign_job_updates message says, the handler only makes requests, and
  these concern jobs of this server or copies of jobs of the server named as the source: jobs
  of a third server are not touched.\<close>

theorem third_servers_untouched:
  "let st' = fst (foreign_job_updates resolve server xmlmsg st ps) in
     jobDB st' = jobDB st \<and>
     (\<exists>rs. requests st' = requests st @ rs \<and>
        list_all (confined server (text_of ''source'' xmlmsg)) rs)"
proof -
  let ?source = "text_of ''source'' xmlmsg"
  have "adds_confined server ?source st (JobsRemoveForeign (FilterSimple [''siserver'', ?source]) st)"
    by (simp add: JobsRemoveForeign_def adds_confined_enqueue local_jobs_def)
  moreover define st0 where "st0 = (if text_of ''sync'' xmlmsg = ''all''
      then JobsRemoveForeign (FilterSimple [''siserver'', ?source]) st else st)"
  ultimately have "adds_confined server ?source st st0" by simp
  moreover have "fst (foreign_job_updates resolve server xmlmsg st ps) \<in>
      {st, fst (fst (handle_answers resolve server ?source (children xmlmsg) (st0, ps, [])))}"
    by (auto simp: foreign_job_updates_def st0_def Let_def split: prod.split ending.split)
  ultimately have "adds_confined server ?source st
      (fst (foreign_job_updates resolve server xmlmsg st ps))"
    using handle_answers_confined [of server ?source "(st0, ps, [])" resolve "children xmlmsg"]
    by (auto intro: adds_confined_trans)
  then show ?thesis by (simp add: adds_confined_def)
qed

end
