(* ===== verification/JobMirror.thy ===== *)
theory JobMirror
  imports ForeignUpdates "HOL-Library.Multiset"
begin

text \<open>
  The copies a server keeps of another server's jobs. What the two agree on are the fields a
  job is about (\<open>shared_fields\<close>); the table of the sender maps the ids of its own jobs to
  their fields, the table of the receiver maps the original ids of its copies to the fields of
  the copies. A full copy makes the tables equal, and every update that is sent keeps them
  equal, in whatever order the answers of a message arrive.

  The receiver is the model of foreign_job_updates.go and jobdb.go, the sender the model of
  jobdb.go. Transport and text form are left out: the elements that arrive are a permutation
  of those that were sent (\<open>String()\<close> sorts them).
\<close>

section \<open>What the two servers agree on\<close>

definition shared_fields :: "string list" where
  "shared_fields = [''headertag'', ''macaddress'', ''siserver''] @ updatableFields"

definition shared :: "hash \<Rightarrow> string list list" where
  "shared job = map (\<lambda>t. get1 t job) shared_fields"

definition plain_job :: "hash \<Rightarrow> bool" where
  "plain_job job \<longleftrightarrow> list_all (\<lambda>t. single t job) shared_fields"

definition of_server :: "string \<Rightarrow> hash \<Rightarrow> hash list" where
  "of_server server d = filter (\<lambda>j. text_of ''siserver'' j = server) (children d)"

abbreviation original_id :: "hash \<Rightarrow> string" where
  "original_id \<equiv> text_of ''original_id''"

definition own_table :: "string \<Rightarrow> hash \<Rightarrow> string \<Rightarrow> string list list option" where
  "own_table server d = map_of (map (\<lambda>j. (id_of j, shared j)) (of_server server d))"

definition copy_table :: "string \<Rightarrow> hash \<Rightarrow> string \<Rightarrow> string list list option" where
  "copy_table source d = map_of (map (\<lambda>j. (original_id j, shared j)) (of_server source d))"

text \<open>The databases as the operations keep them.\<close>

definition own_ok :: "string \<Rightarrow> hash \<Rightarrow> bool" where
  "own_ok server d \<longleftrightarrow> db_ok d \<and> list_all (single ''siserver'') (children d) \<and>
     list_all (\<lambda>j. plain_job j \<and> single ''original_id'' j \<and> text_of ''status'' j \<noteq> ''done'')
       (of_server server d)"

definition copies_ok :: "string \<Rightarrow> hash \<Rightarrow> bool" where
  "copies_ok source d \<longleftrightarrow> db_ok d \<and> list_all (single ''siserver'') (children d) \<and>
     list_all (\<lambda>j. plain_job j \<and> (\<exists>k. get1 ''original_id'' j = [itoa k])) (of_server source d) \<and>
     distinct (map original_id (of_server source d))"

definition fresh_ids :: "(nat \<Rightarrow> nat) \<Rightarrow> jobdb \<Rightarrow> bool" where
  "fresh_ids ids st \<longleftrightarrow> inj ids \<and> (\<forall>k \<ge> issued st. itoa (ids k) \<notin> db_ids (jobDB st))"

text \<open>An answer of a message about a job of its sender.\<close>

definition answer_ok :: "string \<Rightarrow> hash \<Rightarrow> bool" where
  "answer_ok source a \<longleftrightarrow> HasPrefix (Name a) ''answer'' \<and> text_of ''siserver'' a = source \<and>
     plain_job a \<and> get1 ''original_id'' a = [] \<and> (\<exists>k. get1 ''id'' a = [itoa k])"

section \<open>Receiving one answer\<close>

text \<open>What the handler asks for when the answer is about a job of the sender.\<close>

fun perform_all :: "string \<Rightarrow> (nat \<Rightarrow> nat) \<Rightarrow> request list \<Rightarrow> jobdb \<Rightarrow> jobdb outcome" where
  "perform_all server ids [] st = Returns st"
| "perform_all server ids (r # rs) st =
     and_then (perform server ids r st) (perform_all server ids rs)"

definition receive ::
  "(string \<Rightarrow> string result) \<Rightarrow> string \<Rightarrow> (nat \<Rightarrow> nat) \<Rightarrow> hash \<Rightarrow> peers \<Rightarrow> jobdb \<Rightarrow> jobdb outcome" where
  "receive resolve server ids xmlmsg ps st =
     (let st' = fst (foreign_job_updates resolve server xmlmsg (st\<lparr>requests := []\<rparr>) ps)
      in perform_all server ids (requests st') (st'\<lparr>requests := []\<rparr>))"

definition make_room :: "string \<Rightarrow> hash \<Rightarrow> request list" where
  "make_room server job =
     (if text_of ''status'' job = ''processing'' \<and> install_or_update job
      then [RModifyLocal (running_here server job) (NewHash ''job'' [''progress'', ''forward'']),
            RRemoveLocal (running_here server job) True]
      else [])"

definition store_copy :: "string \<Rightarrow> hash \<Rightarrow> request" where
  "store_copy source job =
     (if text_of ''status'' job = ''done'' then RRemoveForeign (copy_filter source job)
      else RAddModifyForeign (copy_filter source job) (Clone job))"

lemma not_done_forward:
  "text_of ''status'' (NewHash ''job'' [''progress'', ''forward'']) \<noteq> ''done''"
  "Clone (NewHash ''job'' [''progress'', ''forward'']) = NewHash ''job'' [''progress'', ''forward'']"
  by (code_simp, code_simp)

lemma update_copy_requests:
  "update_copy server source job st =
     st\<lparr>requests := requests st @ make_room server job @ [store_copy source job]\<rparr>"
  using not_done_forward
  by (simp add: update_copy_def make_room_def store_copy_def JobsModifyLocal_def JobsRemoveLocal_def
      JobsAddOrModifyForeign_def JobsRemoveForeign_def enqueue_def Let_def)

subsection \<open>Fields of a received job\<close>

lemma get1_with_xmlmessage: "t \<noteq> ''xmlmessage'' \<Longrightarrow> get1 t (with_xmlmessage job) = get1 t job"
  by (simp add: with_xmlmessage_def get1_eq Add_def AddWithOwnership_def split: option.split)
    (simp add: get1_eq [symmetric])

lemma Name_with_xmlmessage [simp]: "Name (with_xmlmessage job) = Name job"
  by (simp add: with_xmlmessage_def split: option.split)

lemma answered_job_fields:
  assumes "text_of ''siserver'' a \<noteq> ''localhost''"
  shows "t \<noteq> ''xmlmessage'' \<Longrightarrow> get1 t (answered_job source a) = get1 t a"
    and "t \<noteq> ''xmlmessage'' \<Longrightarrow> text_of t (answered_job source a) = text_of t a"
    and "Name (answered_job source a) = ''job''"
  using assms
  by (simp_all add: answered_job_def job_from_sender_def get1_with_xmlmessage text_of_eq)

subsection \<open>Addresses in filters\<close>

text \<open>Filters fold letters; an address has none.\<close>

lemma ToLower_plain:
  assumes "list_all (\<lambda>c. byte c \<le> 64) s"
  shows "ToLower v = ToLower s \<longleftrightarrow> v = s"
proof
  have one: "c = d" if "lower_char c = lower_char d" "byte d \<le> 64" for c d
  proof (cases "65 \<le> byte c \<and> byte c \<le> 90")
    case True
    then have "byte (lower_char c) = byte c + 32"
      by (simp add: lower_char_def byte_def)
    with that True show ?thesis by (simp add: lower_char_def)
  next
    case False
    with that show ?thesis by (simp add: lower_char_def split: if_splits)
  qed
  assume "ToLower v = ToLower s"
  then show "v = s"
    using assms unfolding ToLower_def
    by (induction v arbitrary: s) (auto simp: map_eq_Cons_conv Cons_eq_map_conv intro: one)
qed simp

lemma digits_plain: "list_all is_digit s \<Longrightarrow> list_all (\<lambda>c. byte c \<le> 64) s"
  by (auto simp: list_all_iff is_digit_def)

lemma itoa_plain: "list_all (\<lambda>c. byte c \<le> 64) (itoa n)"
  using itoa_digits by (rule digits_plain)

lemma address_plain:
  assumes "matches_whole addressRegexp s"
  shows "list_all (\<lambda>c. byte c \<le> 64) s" and "s \<noteq> ''localhost''" and "s \<noteq> []"
proof -
  obtain a b c d p where s:
    "s = itoa a @ ''.'' @ itoa b @ ''.'' @ itoa c @ ''.'' @ itoa d @ '':'' @ itoa p"
    using assms unfolding address_lang by auto
  then show plain: "list_all (\<lambda>c. byte c \<le> 64) s" by (simp add: itoa_plain)
  have "byte (CHR ''l'') > 64" by (simp add: byte_def)
  with plain show "s \<noteq> ''localhost''" by auto
  show "s \<noteq> []" using s by simp
qed

lemma single_siserver_accepts:
  assumes "matches_whole addressRegexp source" and "single ''siserver'' j"
  shows "(\<exists>v \<in> set (get1 ''siserver'' j). ToLower v = ToLower source) \<longleftrightarrow>
    text_of ''siserver'' j = source"
  using assms address_plain [OF assms(1)]
  by (cases "get1 ''siserver'' j") (auto simp: single_def text_of_eq ToLower_plain)

lemma accepts_copy_filter:
  assumes "matches_whole addressRegexp source" and "single ''siserver'' j"
    and "text_of ''siserver'' j = source \<Longrightarrow> \<exists>k. get1 ''original_id'' j = [itoa k]"
    and "get1 ''id'' job = [itoa i]"
  shows "accepts (copy_filter source job) j \<longleftrightarrow>
    text_of ''siserver'' j = source \<and> original_id j = id_of job"
proof -
  have "accepts (copy_filter source job) j \<longleftrightarrow>
      (\<exists>v \<in> set (get1 ''siserver'' j). ToLower v = ToLower source) \<and>
      (\<exists>v \<in> set (get1 ''original_id'' j). ToLower v = ToLower (id_of job))"
    by (simp add: copy_filter_def list_ex_iff)
  also have "\<dots> \<longleftrightarrow> text_of ''siserver'' j = source \<and>
      (\<exists>v \<in> set (get1 ''original_id'' j). ToLower v = ToLower (id_of job))"
    using single_siserver_accepts [OF assms(1,2)] by simp
  also have "\<dots> \<longleftrightarrow> text_of ''siserver'' j = source \<and> original_id j = id_of job"
    using assms(3,4) by (auto simp: text_of_eq)
  finally show ?thesis .
qed

subsection \<open>The table of copies\<close>

lemma map_of_without: "map_of (map (\<lambda>j. (key j, v j)) (filter (\<lambda>j. key j \<noteq> i) xs)) =
    (map_of (map (\<lambda>j. (key j, v j)) xs))(i := None)"
  by (induction xs) (auto simp: fun_eq_iff)

lemma of_server_parts:
  assumes "children d' = filter (\<lambda>j. \<not> (text_of ''siserver'' j = s \<and> P j)) (children d) @ js"
    and "list_all (\<lambda>j. text_of ''siserver'' j = s) js"
  shows "of_server s d' = filter (\<lambda>j. \<not> P j) (of_server s d) @ js"
proof -
  have "filter (\<lambda>j. text_of ''siserver'' j = s) js = js"
    using assms(2) by (simp add: filter_eq_self_iff)
  then show ?thesis unfolding of_server_def assms(1)
    by (simp add: filter_filter) (rule filter_cong, auto)
qed

text \<open>
  The copies of one job replaced by at most one new copy: the effect of every request of the
  handler on the table.
\<close>

lemma copy_table_step:
  assumes ok: "copies_ok source d" and "db_ok d'" and "length js \<le> 1"
    and c: "children d' = filter (\<lambda>j. \<not> (text_of ''siserver'' j = source \<and> original_id j = i))
        (children d) @ js"
    and js: "\<And>r. r \<in> set js \<Longrightarrow> text_of ''siserver'' r = source \<and> plain_job r \<and>
        (\<exists>k. get1 ''original_id'' r = [itoa k]) \<and> original_id r = i"
  shows "copies_ok source d'"
    and "copy_table source d' = (copy_table source d)
      (i := (case js of [] \<Rightarrow> None | r # _ \<Rightarrow> Some (shared r)))"
proof -
  have parts: "of_server source d' = filter (\<lambda>j. original_id j \<noteq> i) (of_server source d) @ js"
    using of_server_parts [OF c] js by (simp add: list_all_iff)
  have "distinct (map original_id (of_server source d'))"
    using ok \<open>length js \<le> 1\<close> js unfolding parts copies_ok_def
    by (cases js) (auto simp: distinct_map_filterI)
  moreover have "list_all (single ''siserver'') (children d')"
  proof -
    have "single ''siserver'' r" if "r \<in> set js" for r
      using js [OF that] by (simp add: plain_job_def shared_fields_def)
    then show ?thesis using ok unfolding c copies_ok_def by (auto simp: list_all_iff)
  qed
  ultimately show "copies_ok source d'"
    using ok \<open>db_ok d'\<close> js unfolding copies_ok_def parts by (auto simp: list_all_iff)
  show "copy_table source d' = (copy_table source d)
      (i := (case js of [] \<Rightarrow> None | r # _ \<Rightarrow> Some (shared r)))"
    using \<open>length js \<le> 1\<close> js unfolding copy_table_def parts
    by (cases js) (auto simp: map_of_without map_add_def fun_eq_iff split: option.split)
qed

subsection \<open>Fields of a changed copy\<close>

lemma get1_copy_field:
  assumes "single t u" and "single t j"
  shows "get1 t (copy_field u f j) = (if f = t \<and> get1 t u \<noteq> [] then get1 t u else get1 t j)"
proof (cases "First t u")
  case None
  then have "get1 t u = []" by (simp add: First_eq_find find_None_iff_filter get1_eq)
  then show ?thesis using None by (cases "f = t") (simp_all add: copy_field_def split: option.split)
next
  case (Some x)
  then have "get1 t u = [own_text x]"
    using assms(1) by (auto simp: First_eq_find find_filter_hd get1_eq single_def split: list.splits)
  moreover have "tl (get1 t j) = []"
    using assms(2) by (cases "get1 t j") (auto simp: single_def)
  ultimately show ?thesis
    using Some by (cases "f = t") (simp_all add: copy_field_def split: option.split)
qed

lemma get1_update_fields:
  assumes "single t u" and "single t j"
  shows "get1 t (update_fields u j) =
    (if t \<in> set updatableFields \<and> get1 t u \<noteq> [] then get1 t u else get1 t j)"
proof -
  have "single t j \<Longrightarrow> get1 t (fold (copy_field u) fs j) =
      (if t \<in> set fs \<and> get1 t u \<noteq> [] then get1 t u else get1 t j)" for fs
    using assms(1) by (induction fs arbitrary: j) (auto simp: get1_copy_field copy_field_single)
  then show ?thesis using assms(2) by (simp add: update_fields_def)
qed

text \<open>
  What a view may become by an update: the fields that name the job stay, no field vanishes.
\<close>

definition grows :: "string list list \<Rightarrow> string list list \<Rightarrow> bool" where
  "grows v w \<longleftrightarrow> take 3 v = take 3 w \<and> list_all2 (\<lambda>a b. b = [] \<longrightarrow> a = []) v w"

lemma grows_shared: "grows (shared r) (shared job) \<longleftrightarrow>
    (\<forall>t \<in> {''headertag'', ''macaddress'', ''siserver''}. get1 t r = get1 t job) \<and>
    (\<forall>t \<in> set shared_fields. get1 t job = [] \<longrightarrow> get1 t r = [])"
  by (simp add: grows_def shared_def shared_fields_def list_all2_map1 list_all2_map2
      list_all2_same numeral_3_eq_3)

lemma shared_updated:
  assumes "plain_job r" and "plain_job job" and "grows (shared r) (shared job)"
  shows "shared (JobUpdateXMLMessage (update_fields job r)) = shared job"
proof -
  have "get1 t (JobUpdateXMLMessage (update_fields job r)) = get1 t job" if "t \<in> set shared_fields" for t
  proof -
    have s: "single t r" "single t job" using assms(1,2) that by (auto simp: plain_job_def list_all_iff)
    have "t \<noteq> ''xmlmessage''" using that by (auto simp: shared_fields_def updatableFields_def)
    then have "get1 t (JobUpdateXMLMessage (update_fields job r)) =
        (if t \<in> set updatableFields \<and> get1 t job \<noteq> [] then get1 t job else get1 t r)"
      using get1_update_fields [OF s(2,1)] by (simp add: JobUpdateXMLMessage_def)
    then show ?thesis
      using assms(3) that unfolding grows_shared by (auto simp: shared_fields_def)
  qed
  then show ?thesis by (simp add: shared_def)
qed

lemma shared_cong: "(\<And>t. t \<in> set shared_fields \<Longrightarrow> get1 t j = get1 t j') \<Longrightarrow>
    shared j = shared j' \<and> plain_job j = plain_job j'"
  by (simp add: shared_def plain_job_def single_def list_all_iff cong: map_cong ball_cong)

lemma shared_field_other [simp]:
  "t \<in> set shared_fields \<Longrightarrow> t \<noteq> ''xmlmessage'' \<and> t \<noteq> ''id'' \<and> t \<noteq> ''original_id'' \<and> t \<noteq> ''plainname''"
  by (auto simp: shared_fields_def updatableFields_def)

lemma shared_adopted:
  "shared (Clone (adopted k job)) = shared job \<and> plain_job (Clone (adopted k job)) = plain_job job"
  using shared_cong [of "Clone (adopted k job)" job]
  by (simp add: adopted_def named_job_other)

subsection \<open>Storing a copy\<close>

text \<open>The job of an answer, as the handler hands it to the job database.\<close>

definition received_ok :: "string \<Rightarrow> hash \<Rightarrow> bool" where
  "received_ok source job \<longleftrightarrow> text_of ''siserver'' job = source \<and> plain_job job \<and>
     get1 ''original_id'' job = [] \<and> (\<exists>k. get1 ''id'' job = [itoa k])"

definition fits :: "string \<Rightarrow> hash \<Rightarrow> hash \<Rightarrow> bool" where
  "fits source job d \<longleftrightarrow>
     (\<forall>v. copy_table source d (id_of job) = Some v \<longrightarrow> grows v (shared job))"

definition told :: "hash \<Rightarrow> string list list option" where
  "told job = (if text_of ''status'' job = ''done'' then None else Some (shared job))"

lemma adopted_id:
  assumes "get1 ''original_id'' job = []" and "get1 ''id'' job = [itoa i]"
  shows "get1 ''original_id'' (Clone (adopted k job)) = [itoa i]"
    and "id_of (Clone (adopted k job)) = k"
  using assms by (simp_all add: adopted_def named_job_other text_of_eq)

lemma copy_table_entry:
  assumes "copies_ok source d" and "r \<in> set (of_server source d)"
  shows "copy_table source d (original_id r) = Some (shared r)"
proof -
  have "map_of (map (\<lambda>j. (original_id j, shared j)) (of_server source d)) (original_id r) =
      Some (shared r)"
    using assms by (intro map_of_is_SomeI) (auto simp: copies_ok_def comp_def)
  then show ?thesis by (simp add: copy_table_def)
qed

lemma selected_copies:
  assumes addr: "matches_whole addressRegexp source" and ok: "copies_ok source d"
    and job: "received_ok source job"
  shows "filter (accepts (copy_filter source job)) (children d) =
      filter (\<lambda>j. original_id j = id_of job) (of_server source d)"
    and "filter (\<lambda>c. \<not> accepts (copy_filter source job) c) (children d) =
      filter (\<lambda>j. \<not> (text_of ''siserver'' j = source \<and> original_id j = id_of job)) (children d)"
    and "length (filter (accepts (copy_filter source job)) (children d)) \<le> 1"
proof -
  obtain i where i: "get1 ''id'' job = [itoa i]" using job by (auto simp: received_ok_def)
  have acc: "accepts (copy_filter source job) j \<longleftrightarrow>
      text_of ''siserver'' j = source \<and> original_id j = id_of job" if "j \<in> set (children d)" for j
    using that ok i
    by (intro accepts_copy_filter [OF addr]) (auto simp: copies_ok_def list_all_iff of_server_def)
  have "filter (accepts (copy_filter source job)) (children d) =
      filter (\<lambda>j. text_of ''siserver'' j = source \<and> original_id j = id_of job) (children d)"
    using acc by (intro filter_cong) auto
  then show sel: "filter (accepts (copy_filter source job)) (children d) =
      filter (\<lambda>j. original_id j = id_of job) (of_server source d)"
    by (simp add: of_server_def)
  show "filter (\<lambda>c. \<not> accepts (copy_filter source job) c) (children d) =
      filter (\<lambda>j. \<not> (text_of ''siserver'' j = source \<and> original_id j = id_of job)) (children d)"
    using acc by (intro filter_cong) auto
  have "length (filter (\<lambda>j. original_id j = k) xs) \<le> 1" if d: "distinct (map original_id xs)" for xs k
  proof -
    let ?ys = "filter (\<lambda>j. original_id j = k) xs"
    have "distinct (map original_id ?ys)" using d by (rule distinct_map_filterI)
    then have "length (map original_id ?ys) = card (set (map original_id ?ys))"
      by (rule distinct_card [symmetric])
    also have "\<dots> \<le> card {k}" by (rule card_mono) auto
    finally show ?thesis by simp
  qed
  then show "length (filter (accepts (copy_filter source job)) (children d)) \<le> 1"
    using ok unfolding sel by (simp add: copies_ok_def)
qed

lemma fresh_ids_sub:
  assumes "fresh_ids ids st" and "db_ids (jobDB st') \<subseteq> db_ids (jobDB st)"
    and "issued st' = issued st"
  shows "fresh_ids ids st'"
proof -
  have "itoa (ids k) \<notin> db_ids (jobDB st')" if "issued st' \<le> k" for k
    using assms(1,3) that subsetD [OF assms(2), of "itoa (ids k)"] unfolding fresh_ids_def by metis
  then show ?thesis using assms(1) unfolding fresh_ids_def by iprover
qed

lemma store_copy_done:
  assumes "matches_whole addressRegexp source" and "copies_ok source (jobDB st)"
    and "fresh_ids ids st" and "received_ok source job" and "text_of ''status'' job = ''done''"
  shows "\<exists>st'. perform server ids (store_copy source job) st = Returns st' \<and>
    copies_ok source (jobDB st') \<and> fresh_ids ids st' \<and>
    copy_table source (jobDB st') = (copy_table source (jobDB st))(id_of job := None)"
proof -
  let ?st' = "perform_remove_foreign (copy_filter source job) st"
  note e = remove_foreign_effect [of "copy_filter source job" st]
  have c: "children (jobDB ?st') =
      filter (\<lambda>j. \<not> (text_of ''siserver'' j = source \<and> original_id j = id_of job)) (children (jobDB st)) @ []"
    using e(1) selected_copies(2) [OF assms(1,2,4)] by simp
  have db: "db_ok (jobDB ?st')" "db_ids (jobDB ?st') \<subseteq> db_ids (jobDB st)"
    using sub_db_ok [OF _ e(1)] assms(2) by (auto simp: copies_ok_def)
  show ?thesis
    using copy_table_step [OF assms(2) db(1) _ c] fresh_ids_sub [OF assms(3) db(2) e(4)] assms(5)
    by (simp add: store_copy_def)
qed

lemma text_of_shared: "get1 t j = get1 t j' \<Longrightarrow> text_of t j = text_of t j'"
  by (simp add: text_of_eq)

lemma siserver_of_shared:
  assumes "shared j = shared j'"
  shows "text_of ''siserver'' j = text_of ''siserver'' j'"
  using assms by (intro text_of_shared) (simp add: shared_def shared_fields_def)

lemma store_copy_new:
  assumes addr: "matches_whole addressRegexp source" and ok: "copies_ok source (jobDB st)"
    and fresh: "fresh_ids ids st" and job: "received_ok source job"
    and new: "filter (accepts (copy_filter source job)) (children (jobDB st)) = []"
  defines "st' \<equiv> perform_add_modify_foreign ids (copy_filter source job) job st"
  shows "copies_ok source (jobDB st')" and "fresh_ids ids st'"
    and "copy_table source (jobDB st') = (copy_table source (jobDB st))(id_of job \<mapsto> shared job)"
proof -
  let ?r = "Clone (adopted (itoa (ids (issued st))) job)"
  have db: "db_ok (jobDB st)" using ok by (simp add: copies_ok_def)
  note e = add_modify_foreign_effect [OF db, of ids "copy_filter source job" job, folded st'_def]
  have c: "children (jobDB st') = children (jobDB st) @ [?r]" using e(1) new by simp
  obtain i where i: "get1 ''id'' job = [itoa i]" "get1 ''original_id'' job = []"
    using job by (auto simp: received_ok_def)
  have r: "shared ?r = shared job" "plain_job ?r" "original_id ?r = id_of job"
    "get1 ''original_id'' ?r = [itoa i]" "id_of ?r = itoa (ids (issued st))"
    using shared_adopted job adopted_id [OF i(2,1)] i by (simp_all add: received_ok_def text_of_eq)
  have "db_ok (jobDB st') \<and> db_ids (jobDB st') = insert (id_of ?r) (db_ids (jobDB st))"
  proof (rule db_ok_snoc [OF db c])
    show "job_ok ?r" using job_ok_adopted(1) i by (simp add: single_def)
    show "id_of ?r \<notin> db_ids (jobDB st)" unfolding r(5) using fresh by (simp add: fresh_ids_def del: set_elems)
  qed
  then have db': "db_ok (jobDB st')"
    and ids': "db_ids (jobDB st') = insert (itoa (ids (issued st))) (db_ids (jobDB st))"
    by (simp_all only: r(5))
  have "issued st' = Suc (issued st)" using e(4) new by simp
  then have "itoa (ids k) \<notin> db_ids (jobDB st')" if "issued st' \<le> k" for k
    using that fresh unfolding ids' fresh_ids_def by (simp add: inj_eq del: set_elems)
  then show "fresh_ids ids st'" using fresh unfolding fresh_ids_def by iprover
  have "children (jobDB st') =
      filter (\<lambda>j. \<not> (text_of ''siserver'' j = source \<and> original_id j = id_of job)) (children (jobDB st)) @ [?r]"
    unfolding c selected_copies(2) [OF addr ok job, symmetric] using new
    by (simp add: filter_empty_conv filter_id_conv)
  note step = copy_table_step [OF ok db' _ this]
  have js: "text_of ''siserver'' r' = source \<and> plain_job r' \<and>
      (\<exists>k. get1 ''original_id'' r' = [itoa k]) \<and> original_id r' = id_of job" if "r' \<in> set [?r]" for r'
    using that r siserver_of_shared [OF r(1)] job by (auto simp: received_ok_def)
  show "copies_ok source (jobDB st')" using step(1) js by simp
  show "copy_table source (jobDB st') = (copy_table source (jobDB st))(id_of job \<mapsto> shared job)"
    using step(2) js r(1) by simp
qed

lemma store_copy_old:
  assumes addr: "matches_whole addressRegexp source" and ok: "copies_ok source (jobDB st)"
    and fresh: "fresh_ids ids st" and job: "received_ok source job" and fits: "fits source job (jobDB st)"
    and old: "filter (accepts (copy_filter source job)) (children (jobDB st)) = [r]"
  defines "st' \<equiv> perform_add_modify_foreign ids (copy_filter source job) job st"
  shows "copies_ok source (jobDB st')" and "fresh_ids ids st'"
    and "copy_table source (jobDB st') = (copy_table source (jobDB st))(id_of job \<mapsto> shared job)"
proof -
  let ?g = "\<lambda>j. JobUpdateXMLMessage (update_fields job j)"
  have db: "db_ok (jobDB st)" using ok by (simp add: copies_ok_def)
  note e = add_modify_foreign_effect [OF db, of ids "copy_filter source job" job, folded st'_def]
  have c: "children (jobDB st') =
      filter (\<lambda>j. \<not> (text_of ''siserver'' j = source \<and> original_id j = id_of job)) (children (jobDB st)) @
      [?g r]"
    using e(1) old selected_copies(2) [OF addr ok job] by simp
  have "r \<in> set (filter (\<lambda>j. original_id j = id_of job) (of_server source (jobDB st)))"
    unfolding selected_copies(1) [OF addr ok job, symmetric] old by simp
  then have r: "r \<in> set (of_server source (jobDB st))" "original_id r = id_of job" by auto
  then have pr: "plain_job r" "\<exists>k. get1 ''original_id'' r = [itoa k]" "text_of ''siserver'' r = source"
    using ok by (auto simp: copies_ok_def list_all_iff of_server_def)
  have "grows (shared r) (shared job)"
    using fits copy_table_entry [OF ok r(1)] r(2) by (simp add: fits_def)
  then have sh: "shared (?g r) = shared job"
    using shared_updated [OF pr(1)] job by (simp add: received_ok_def)
  have "get1 t (?g r) = get1 t r" if "t \<notin> set updatableFields" "t \<noteq> ''xmlmessage''" for t
    using that by (simp add: update_fields_other JobUpdateXMLMessage_def)
  then have oid: "get1 ''original_id'' (?g r) = get1 ''original_id'' r"
    by (simp add: updatableFields_def)
  have db': "db_ok (jobDB st') \<and> db_ids (jobDB st') \<subseteq> db_ids (jobDB st)"
  proof (rule changed_db_ok [OF db, where P = "accepts (copy_filter source job)" and g = ?g])
    show "children (jobDB st') =
        filter (\<lambda>c. \<not> accepts (copy_filter source job) c) (children (jobDB st)) @
        map ?g (filter (accepts (copy_filter source job)) (children (jobDB st)))"
      using c old selected_copies(2) [OF addr ok job] by simp
    show "job_ok (?g j) \<and> id_of (?g j) = id_of j" if "j \<in> set (children (jobDB st))" for j
      using that db by (simp add: db_ok_def list_all_iff)
  qed
  note step = copy_table_step [OF ok conjunct1 [OF db'] _ c]
  have js: "text_of ''siserver'' r' = source \<and> plain_job r' \<and>
      (\<exists>k. get1 ''original_id'' r' = [itoa k]) \<and> original_id r' = id_of job" if "r' \<in> set [?g r]" for r'
  proof -
    have "plain_job (?g r)" using job pr(1)
      unfolding received_ok_def plain_job_def list_all_iff
      by (auto simp: JobUpdateXMLMessage_def update_fields_single single_set_field)
    then show ?thesis
      using that r(2) pr(2) oid siserver_of_shared [OF sh] job text_of_shared [OF oid]
      by (auto simp: received_ok_def)
  qed
  show "copies_ok source (jobDB st')" using step(1) js by simp
  show "copy_table source (jobDB st') = (copy_table source (jobDB st))(id_of job \<mapsto> shared job)"
    using step(2) js sh by simp
  show "fresh_ids ids st'" using fresh_ids_sub [OF fresh conjunct2 [OF db']] e(4) old by simp
qed

subsection \<open>Making room for a job that runs elsewhere\<close>

text \<open>Requests that select jobs of another server than the sender leave the copies alone.\<close>

lemma keep_copies:
  assumes "copies_ok source d" and "db_ok d'" and "of_server source d' = of_server source d"
    and "list_all (single ''siserver'') (children d')"
  shows "copies_ok source d'" and "copy_table source d' = copy_table source d"
  using assms by (simp_all add: copies_ok_def copy_table_def)

lemma modified_siserver: "get1 ''siserver'' (modified u j) = get1 ''siserver'' j"
  by (simp add: modified_def acted_job_def JobUpdateXMLMessage_def update_fields_other
      updatableFields_def)

lemma modify_keeps_copies:
  fixes server u
  assumes ok: "copies_ok source (jobDB st)" and fresh: "fresh_ids ids st"
    and other: "\<And>j. j \<in> set (children (jobDB st)) \<Longrightarrow> accepts f j \<Longrightarrow> text_of ''siserver'' j \<noteq> source"
  defines "st' \<equiv> perform_modify_local server f u st"
  shows "copies_ok source (jobDB st') \<and> fresh_ids ids st' \<and>
    copy_table source (jobDB st') = copy_table source (jobDB st)"
proof -
  have db: "db_ok (jobDB st)" using ok by (simp add: copies_ok_def)
  note e = modify_local_effect [OF db, of server f u, folded st'_def]
  have ch: "db_ok (jobDB st') \<and> db_ids (jobDB st') \<subseteq> db_ids (jobDB st)"
    using db by (intro changed_db_ok [OF db e(1)]) (simp add: db_ok_def list_all_iff)
  have "filter (\<lambda>j. text_of ''siserver'' j = source) (map (modified u) (filter (accepts f) (children (jobDB st)))) = []"
    using other by (auto simp: filter_empty_conv text_of_shared [OF modified_siserver])
  moreover have "filter (\<lambda>j. text_of ''siserver'' j = source) (filter (\<lambda>c. \<not> accepts f c) (children (jobDB st))) =
      of_server source (jobDB st)"
    unfolding of_server_def filter_filter using other by (intro filter_cong) auto
  ultimately have "of_server source (jobDB st') = of_server source (jobDB st)"
    unfolding of_server_def e(1) filter_append by simp
  moreover have "list_all (single ''siserver'') (children (jobDB st'))"
    using ok unfolding e(1) by (auto simp: copies_ok_def list_all_iff modified_single)
  ultimately show ?thesis
    using keep_copies [OF ok conjunct1 [OF ch]] fresh_ids_sub [OF fresh conjunct2 [OF ch] e(4)]
    by simp
qed

lemma remove_keeps_copies:
  fixes server stop
  assumes ok: "copies_ok source (jobDB st)" and fresh: "fresh_ids ids st"
    and other: "\<And>j. j \<in> set (children (jobDB st)) \<Longrightarrow> accepts f j \<Longrightarrow> text_of ''siserver'' j \<noteq> source"
  defines "st' \<equiv> perform_remove_local server f stop st"
  shows "copies_ok source (jobDB st') \<and> fresh_ids ids st' \<and>
    copy_table source (jobDB st') = copy_table source (jobDB st)"
proof -
  have db: "db_ok (jobDB st)" using ok by (simp add: copies_ok_def)
  note e = remove_local_effect [of server f stop st, folded st'_def]
  have ch: "db_ok (jobDB st') \<and> db_ids (jobDB st') \<subseteq> db_ids (jobDB st)"
    by (rule sub_db_ok [OF db e(1)])
  have "of_server source (jobDB st') = of_server source (jobDB st)"
    unfolding of_server_def e(1) filter_filter using other by (intro filter_cong) auto
  moreover have "list_all (single ''siserver'') (children (jobDB st'))"
    using ok unfolding e(1) by (auto simp: copies_ok_def list_all_iff)
  ultimately show ?thesis
    using keep_copies [OF ok conjunct1 [OF ch]] fresh_ids_sub [OF fresh conjunct2 [OF ch] e(4)]
    by simp
qed

lemma running_here_other:
  assumes "matches_whole addressRegexp server" and "server \<noteq> source"
    and "copies_ok source d" and "j \<in> set (children d)" and "accepts (running_here server job) j"
  shows "text_of ''siserver'' j \<noteq> source"
proof -
  have "accepts (local_jobs server) j" using assms(5) by (rule running_here_local)
  then show ?thesis
    using assms single_siserver_accepts [OF assms(1), of j]
    by (auto simp: local_jobs_def copies_ok_def list_all_iff list_ex_iff)
qed

lemma make_room_effect:
  assumes "matches_whole addressRegexp server" and "server \<noteq> source"
    and ok: "copies_ok source (jobDB st)" and fresh: "fresh_ids ids st"
  shows "\<exists>st'. perform_all server ids (make_room server job) st = Returns st' \<and>
    copies_ok source (jobDB st') \<and> fresh_ids ids st' \<and>
    copy_table source (jobDB st') = copy_table source (jobDB st)"
proof -
  let ?f = "running_here server job"
  let ?st1 = "perform_modify_local server ?f (NewHash ''job'' [''progress'', ''forward'']) st"
  have 1: "copies_ok source (jobDB ?st1) \<and> fresh_ids ids ?st1 \<and>
      copy_table source (jobDB ?st1) = copy_table source (jobDB st)"
    using running_here_other [OF assms(1-3)] by (intro modify_keeps_copies ok fresh)
  then have "copies_ok source (jobDB (perform_remove_local server ?f True ?st1)) \<and>
      fresh_ids ids (perform_remove_local server ?f True ?st1) \<and>
      copy_table source (jobDB (perform_remove_local server ?f True ?st1)) =
        copy_table source (jobDB ?st1)"
    using running_here_other [OF assms(1,2)] by (intro remove_keeps_copies) auto
  with 1 show ?thesis using ok fresh by (simp add: make_room_def)
qed

section \<open>Receiving a message\<close>

lemma perform_all_append:
  "perform_all server ids (rs @ rs') st =
     and_then (perform_all server ids rs st) (perform_all server ids rs')"
  by (induction rs arbitrary: st) (auto, (case_tac "perform server ids a st"; simp))

lemma receive_one:
  assumes srv: "matches_whole addressRegexp server" "server \<noteq> source"
    and addr: "matches_whole addressRegexp source" and job: "received_ok source job"
    and ok: "copies_ok source (jobDB st)" and fresh: "fresh_ids ids st"
    and fits: "fits source job (jobDB st)"
  shows "\<exists>st'. perform_all server ids (make_room server job @ [store_copy source job]) st =
      Returns st' \<and>
    copies_ok source (jobDB st') \<and> fresh_ids ids st' \<and>
    copy_table source (jobDB st') = (copy_table source (jobDB st))(id_of job := told job)"
proof -
  obtain st1 where st1: "perform_all server ids (make_room server job) st = Returns st1"
    "copies_ok source (jobDB st1)" "fresh_ids ids st1"
    and t1: "copy_table source (jobDB st1) = copy_table source (jobDB st)"
    using make_room_effect [OF srv ok fresh] by blast
  have fits1: "fits source job (jobDB st1)" using fits t1 by (simp add: fits_def)
  have clone: "received_ok source (Clone job)" "fits source (Clone job) (jobDB st1)"
    "shared (Clone job) = shared job" "id_of (Clone job) = id_of job"
    using job fits1 shared_cong [of "Clone job" job]
    by (simp_all add: received_ok_def fits_def)
  have cf: "copy_filter source (Clone job) = copy_filter source job" by (simp add: copy_filter_def)
  show ?thesis
  proof (cases "text_of ''status'' job = ''done''")
    case True
    then show ?thesis
      using store_copy_done [OF addr st1(2,3) job True, of server] st1(1) t1
      by (auto simp: perform_all_append told_def)
  next
    case False
    note n = store_copy_new [OF addr st1(2,3) clone(1), unfolded cf clone]
    note o = store_copy_old [OF addr st1(2,3) clone(1,2), unfolded cf clone]
    from selected_copies(3) [OF addr st1(2) job] consider
      "filter (accepts (copy_filter source job)) (children (jobDB st1)) = []" |
      r where "filter (accepts (copy_filter source job)) (children (jobDB st1)) = [r]"
      by (cases "filter (accepts (copy_filter source job)) (children (jobDB st1))") auto
    then show ?thesis
      using st1(1) t1 False n o by cases (simp_all add: perform_all_append store_copy_def told_def)
  qed
qed

definition answers :: "hash \<Rightarrow> hash list" where
  "answers xmlmsg = filter (\<lambda>c. HasPrefix (Name c) ''answer'') (children xmlmsg)"

text \<open>The specification of both sides: the table after the news of the answers.\<close>

definition apply_answers ::
  "hash list \<Rightarrow> (string \<Rightarrow> string list list option) \<Rightarrow> string \<Rightarrow> string list list option" where
  "apply_answers as t = fold (\<lambda>a t. t(id_of a := told a)) as t"

lemma apply_answers_eq:
  assumes "distinct (map id_of as)"
  shows "apply_answers as t i =
    (case map_of (map (\<lambda>a. (id_of a, told a)) as) i of None \<Rightarrow> t i | Some v \<Rightarrow> v)"
proof -
  have "fold (\<lambda>a t. t(id_of a := told a)) as t i =
      (case map_of (map (\<lambda>a. (id_of a, told a)) as) i of None \<Rightarrow> t i | Some v \<Rightarrow> v)"
    using assms
  proof (induction as arbitrary: t)
    case (Cons a as)
    then have "map_of (map (\<lambda>a. (id_of a, told a)) as) (id_of a) = None"
      by (simp add: map_of_eq_None_iff image_image)
    with Cons show ?case by (simp split: option.split)
  qed simp
  then show ?thesis by (simp add: apply_answers_def)
qed

lemma apply_answers_perm:
  assumes "mset as = mset bs" and "distinct (map id_of as)"
  shows "apply_answers as t = apply_answers bs t"
proof -
  have d: "distinct (map id_of bs)" using assms mset_eq_imp_distinct_iff [of "map id_of as" "map id_of bs"]
    by simp
  have "map_of (map (\<lambda>a. (id_of a, told a)) as) = map_of (map (\<lambda>a. (id_of a, told a)) bs)"
    using assms d mset_eq_setD [OF assms(1)] by (intro map_of_inject_set [THEN iffD2]) (auto simp: comp_def)
  then show ?thesis using apply_answers_eq [OF assms(2)] apply_answers_eq [OF d] by (simp add: fun_eq_iff)
qed

subsection \<open>The answers of a message\<close>

lemma answered_ok:
  assumes addr: "matches_whole addressRegexp source" and "answer_ok source a"
  shows "received_ok source (answered_job source a)" and "shared (answered_job source a) = shared a"
    and "id_of (answered_job source a) = id_of a" and "told (answered_job source a) = told a"
    and "text_of ''siserver'' (answered_job source a) = source"
proof -
  have "text_of ''siserver'' a \<noteq> ''localhost''"
    using assms address_plain [OF addr] by (simp add: answer_ok_def)
  note f = answered_job_fields [OF this, where source = source]
  have "shared (answered_job source a) = shared a \<and> plain_job (answered_job source a) = plain_job a"
    by (rule shared_cong) (simp add: f)
  then show "received_ok source (answered_job source a)" "shared (answered_job source a) = shared a"
    "id_of (answered_job source a) = id_of a" "told (answered_job source a) = told a"
    "text_of ''siserver'' (answered_job source a) = source"
    using assms(2) by (simp_all add: received_ok_def answer_ok_def told_def f)
qed

definition answer_requests :: "string \<Rightarrow> string \<Rightarrow> hash \<Rightarrow> request list" where
  "answer_requests server source a =
     make_room server (answered_job source a) @ [store_copy source (answered_job source a)]"

lemma handle_answers_requests:
  assumes "matches_whole addressRegexp source" and "server \<noteq> source"
    and "\<forall>a \<in> set cs. HasPrefix (Name a) ''answer'' \<longrightarrow> answer_ok source a"
  shows "handle_answers resolve server source cs (st, ps, syncs) =
    ((st\<lparr>requests := requests st @ concat (map (answer_requests server source)
        (filter (\<lambda>c. HasPrefix (Name c) ''answer'') cs))\<rparr>, ps, syncs), Finished)"
  using assms(3)
proof (induction cs arbitrary: st)
  case (Cons a cs)
  show ?case
  proof (cases "HasPrefix (Name a) ''answer''")
    case True
    then have "answer_ok source a" using Cons.prems by simp
    note ok = answered_ok [OF assms(1) this]
    have "handle_answer resolve server source a (st, ps, syncs) =
        ((st\<lparr>requests := requests st @ answer_requests server source a\<rparr>, ps, syncs), Finished)"
      using assms(1,2) ok(5)
      by (simp add: handle_answer_def Let_def update_copy_requests answer_requests_def)
    then show ?thesis using True Cons by simp
  next
    case False
    then show ?thesis using Cons by simp
  qed
qed simp

text \<open>A message whose answers are about jobs of its sender, each about another job.\<close>

definition message_ok :: "string \<Rightarrow> hash \<Rightarrow> bool" where
  "message_ok source xmlmsg \<longleftrightarrow> text_of ''source'' xmlmsg = source \<and>
     list_all (answer_ok source) (answers xmlmsg) \<and> distinct (map id_of (answers xmlmsg))"

lemma receive_requests:
  assumes "matches_whole addressRegexp source" and "server \<noteq> source" and "message_ok source xmlmsg"
  shows "receive resolve server ids xmlmsg ps st =
    perform_all server ids
      ((if text_of ''sync'' xmlmsg = ''all'' then [RRemoveForeign (local_jobs source)] else []) @
       concat (map (answer_requests server source) (answers xmlmsg)))
      (st\<lparr>requests := []\<rparr>)"
proof -
  have "\<forall>a \<in> set (children xmlmsg). HasPrefix (Name a) ''answer'' \<longrightarrow> answer_ok source a"
    using assms(3) by (auto simp: message_ok_def answers_def list_all_iff)
  note h = handle_answers_requests [OF assms(1,2) this]
  show ?thesis
    using assms(1,3)
    by (simp add: receive_def foreign_job_updates_def message_ok_def h Let_def JobsRemoveForeign_def
        enqueue_def answers_def local_jobs_def)
qed

lemma receive_answers:
  assumes srv: "matches_whole addressRegexp server" "server \<noteq> source"
    and addr: "matches_whole addressRegexp source"
    and "list_all (answer_ok source) as" and "distinct (map id_of as)"
    and "copies_ok source (jobDB st)" and "fresh_ids ids st"
    and "\<forall>a \<in> set as. \<forall>v. copy_table source (jobDB st) (id_of a) = Some v \<longrightarrow> grows v (shared a)"
  shows "\<exists>st'. perform_all server ids (concat (map (answer_requests server source) as)) st = Returns st' \<and>
    copies_ok source (jobDB st') \<and> fresh_ids ids st' \<and>
    copy_table source (jobDB st') = apply_answers as (copy_table source (jobDB st))"
  using assms(4-8)
proof (induction as arbitrary: st)
  case Nil
  then show ?case by (simp add: apply_answers_def)
next
  case (Cons a as)
  note ok = answered_ok [OF addr, of a]
  have "fits source (answered_job source a) (jobDB st)"
    using Cons.prems ok by (simp add: fits_def)
  then obtain st1 where st1: "perform_all server ids (answer_requests server source a) st = Returns st1"
    "copies_ok source (jobDB st1)" "fresh_ids ids st1"
    and t1: "copy_table source (jobDB st1) = (copy_table source (jobDB st))(id_of a := told a)"
    using receive_one [OF srv addr ok(1) Cons.prems(3,4)] Cons.prems(1) ok
    by (auto simp: answer_requests_def)
  have "\<forall>b \<in> set as. \<forall>v. copy_table source (jobDB st1) (id_of b) = Some v \<longrightarrow> grows v (shared b)"
  proof (intro ballI allI impI)
    fix b v assume b: "b \<in> set as" "copy_table source (jobDB st1) (id_of b) = Some v"
    then have "id_of b \<noteq> id_of a" using Cons.prems(2) by (auto simp: image_iff)
    then show "grows v (shared b)" using b Cons.prems(5) t1 by simp
  qed
  then obtain st' where
    "perform_all server ids (concat (map (answer_requests server source) as)) st1 = Returns st'"
    "copies_ok source (jobDB st')" "fresh_ids ids st'"
    "copy_table source (jobDB st') = apply_answers as (copy_table source (jobDB st1))"
    using Cons.IH [of st1] Cons.prems(1,2) st1 by auto
  moreover have "apply_answers (a # as) t = apply_answers as (t(id_of a := told a))" for t
    by (simp add: apply_answers_def)
  ultimately show ?case using st1(1) t1 by (simp add: perform_all_append)
qed

lemma receive_update:
  assumes srv: "matches_whole addressRegexp server" "server \<noteq> source"
    and addr: "matches_whole addressRegexp source" and msg: "message_ok source xmlmsg"
    and "text_of ''sync'' xmlmsg \<noteq> ''all''"
    and ok: "copies_ok source (jobDB st)" "fresh_ids ids st"
    and "\<forall>a \<in> set (answers xmlmsg). \<forall>v.
      copy_table source (jobDB st) (id_of a) = Some v \<longrightarrow> grows v (shared a)"
  shows "\<exists>st'. receive resolve server ids xmlmsg ps st = Returns st' \<and>
    copies_ok source (jobDB st') \<and> fresh_ids ids st' \<and>
    copy_table source (jobDB st') = apply_answers (answers xmlmsg) (copy_table source (jobDB st))"
proof -
  have "fresh_ids ids (st\<lparr>requests := []\<rparr>)" using ok(2) by (simp add: fresh_ids_def)
  then show ?thesis
    using receive_answers [OF srv addr, of "answers xmlmsg" "st\<lparr>requests := []\<rparr>"] assms
    by (simp add: receive_requests [OF addr srv(2) msg] message_ok_def)
qed

lemma receive_copy:
  assumes srv: "matches_whole addressRegexp server" "server \<noteq> source"
    and addr: "matches_whole addressRegexp source" and msg: "message_ok source xmlmsg"
    and "text_of ''sync'' xmlmsg = ''all''"
    and ok: "copies_ok source (jobDB st)" "fresh_ids ids st"
  shows "\<exists>st'. receive resolve server ids xmlmsg ps st = Returns st' \<and>
    copies_ok source (jobDB st') \<and> fresh_ids ids st' \<and>
    copy_table source (jobDB st') = apply_answers (answers xmlmsg) (\<lambda>i. None)"
proof -
  let ?st0 = "st\<lparr>requests := []\<rparr>"
  let ?st1 = "perform_remove_foreign (local_jobs source) ?st0"
  note e = remove_foreign_effect [of "local_jobs source" ?st0]
  have db: "db_ok (jobDB ?st1) \<and> db_ids (jobDB ?st1) \<subseteq> db_ids (jobDB ?st0)"
    using ok(1) by (intro sub_db_ok [OF _ e(1)]) (simp add: copies_ok_def)
  have fresh: "fresh_ids ids ?st0" using ok(2) by (simp add: fresh_ids_def)
  have acc: "accepts (local_jobs source) j \<longleftrightarrow> text_of ''siserver'' j = source"
    if "j \<in> set (children (jobDB st))" for j
    using that ok(1) single_siserver_accepts [OF addr, of j]
    by (auto simp: local_jobs_def copies_ok_def list_all_iff list_ex_iff)
  have none: "of_server source (jobDB ?st1) = []"
    unfolding of_server_def e(1) using acc by (auto simp: filter_empty_conv)
  have "copies_ok source (jobDB ?st1)"
    using ok(1) db unfolding copies_ok_def none e(1) by (auto simp: list_all_iff)
  moreover have "fresh_ids ids ?st1" by (rule fresh_ids_sub [OF fresh conjunct2 [OF db] e(4)])
  moreover have "copy_table source (jobDB ?st1) = (\<lambda>i. None)"
    unfolding copy_table_def none by (simp add: fun_eq_iff)
  ultimately show ?thesis
    using receive_answers [OF srv addr, of "answers xmlmsg" ?st1] msg assms(5)
    by (simp add: receive_requests [OF addr srv(2) msg] message_ok_def)
qed

section \<open>What the sender tells\<close>

lemma numbered_views:
  "map id_of (numbered n js) = map id_of js"
  "apply_answers (numbered n js) t = apply_answers js t"
proof -
  have one: "id_of (Rename m j) = id_of j" "told (Rename m j) = told j" for m j
    using shared_cong [of "Rename m j" j] by (simp_all add: told_def)
  show "map id_of (numbered n js) = map id_of js" by (induction js arbitrary: n) simp_all
  show "apply_answers (numbered n js) t = apply_answers js t"
    unfolding apply_answers_def by (induction js arbitrary: n t) (simp_all add: one)
qed

lemma HasPrefix_answer_name [simp]: "HasPrefix (answer_name n) ''answer''"
  by (simp add: HasPrefix_def answer_name_def)

lemma answers_numbered:
  "filter (\<lambda>c. HasPrefix (Name c) ''answer'') (numbered n js) = numbered n js"
  by (induction js arbitrary: n) simp_all

lemma received_ok_Rename: "received_ok source j \<Longrightarrow> answer_ok source (Rename (answer_name n) j)"
  using shared_cong [of "Rename (answer_name n) j" j] by (simp add: received_ok_def answer_ok_def)

lemma answer_ok_numbered: "list_all (received_ok source) js \<Longrightarrow> list_all (answer_ok source) (numbered n js)"
  by (induction js arbitrary: n) (simp_all add: received_ok_Rename)

lemma fields_not_answers:
  "\<not> HasPrefix ''header'' ''answer''" "\<not> HasPrefix ''source'' ''answer''"
  "\<not> HasPrefix ''target'' ''answer''" "\<not> HasPrefix ''sync'' ''answer''"
  by (simp_all add: HasPrefix_def)

lemma answers_fju: "answers (fju_message source target js) = numbered 1 js"
  by (simp add: answers_def children_fju_message answers_numbered fields_not_answers)

lemma numbered_names:
  "\<not> HasPrefix t ''answer'' \<Longrightarrow> filter (\<lambda>c. Name c = t) (numbered n js) = []"
  by (induction js arbitrary: n) auto

lemma fju_fields:
  "text_of ''source'' (fju_message source target js) = source"
  "text_of ''sync'' (fju_message source target js) = ''ordered''"
  using fields_not_answers by (simp_all add: text_of_eq get1_eq children_fju_message numbered_names)

lemma message_ok_fju:
  assumes "list_all (received_ok source) js" and "distinct (map id_of js)"
  shows "message_ok source (fju_message source target js)"
  using assms answer_ok_numbered
  by (simp add: message_ok_def answers_fju fju_fields numbered_views)

text \<open>The requests that concern own jobs and are told to the peers.\<close>

fun own_request :: "string \<Rightarrow> hash \<Rightarrow> request \<Rightarrow> bool" where
  "own_request source d (RModifyLocal f u) =
     (\<not> silent u \<and> (\<forall>j \<in> set (children d). accepts f j \<longrightarrow>
        text_of ''siserver'' j = source \<and> text_of ''status'' (update_fields u j) \<noteq> ''done''))"
| "own_request source d (RRemoveLocal f stop) =
     (\<forall>j \<in> set (children d). accepts f j \<longrightarrow> text_of ''siserver'' j = source)"
| "own_request source d (RAddLocal job) =
     (received_ok source (drop_first ''original_id'' job) \<and> single ''original_id'' job \<and>
      Name job = ''job'' \<and> id_of job \<notin> db_ids d \<and> text_of ''status'' job \<noteq> ''done'')"
| "own_request source d _ = False"

text \<open>The news of a request about the own jobs.\<close>

lemma own_table_iff:
  assumes "distinct (map id_of (of_server source d))"
  shows "own_table source d i = Some v \<longleftrightarrow>
    (\<exists>j \<in> set (of_server source d). id_of j = i \<and> shared j = v)"
  using assms unfolding own_table_def by (subst map_of_eq_Some_iff) (auto simp: comp_def)

lemma own_table_step:
  assumes c: "children d' = filter (\<lambda>j. \<not> P j) (children d) @ news"
    and dist: "distinct (map id_of (children d))" "distinct (map id_of (children d'))"
    and js: "distinct (map id_of js)"
    and news: "\<forall>r \<in> set news. text_of ''siserver'' r = source"
    and told: "\<And>i v. (\<exists>r \<in> set news. id_of r = i \<and> shared r = v) \<longleftrightarrow>
      (\<exists>a \<in> set js. id_of a = i \<and> told a = Some v)"
    and sel: "\<forall>j \<in> set (children d). P j \<longrightarrow> id_of j \<in> id_of ` set js"
    and rest: "\<forall>j \<in> set (children d). \<not> P j \<longrightarrow> id_of j \<notin> id_of ` set js"
  shows "own_table source d' = apply_answers js (own_table source d)"
proof
  fix i
  have d: "distinct (map id_of (of_server source d))" "distinct (map id_of (of_server source d'))"
    using dist by (simp_all add: of_server_def distinct_map_filterI)
  have mem: "j \<in> set (of_server source d') \<longleftrightarrow>
      (j \<in> set (of_server source d) \<and> \<not> P j) \<or> j \<in> set news" for j
    using news unfolding of_server_def c by auto
  have iff: "own_table source d' i = Some v \<longleftrightarrow>
      (\<exists>j \<in> set (of_server source d). \<not> P j \<and> id_of j = i \<and> shared j = v) \<or>
      (\<exists>a \<in> set js. id_of a = i \<and> told a = Some v)" for v
    unfolding own_table_iff [OF d(2)] told [symmetric] using mem by blast
  have "own_table source d' i = Some v \<longleftrightarrow> apply_answers js (own_table source d) i = Some v" for v
  proof (cases "map_of (map (\<lambda>a. (id_of a, told a)) js) i")
    case None
    then have "i \<notin> id_of ` set js" by (auto simp: map_of_eq_None_iff image_image)
    then have "own_table source d' i = Some v \<longleftrightarrow> own_table source d i = Some v"
      unfolding iff own_table_iff [OF d(1)] using sel by (auto simp: of_server_def)
    then show ?thesis using None by (simp add: apply_answers_eq [OF js])
  next
    case (Some w)
    then have "(i, w) \<in> set (map (\<lambda>a. (id_of a, told a)) js)" by (rule map_of_SomeD)
    then obtain a where a: "a \<in> set js" "id_of a = i" "told a = w" by fastforce
    have "told b = w" if "b \<in> set js" "id_of b = i" for b
      using that a js by (auto simp: distinct_map dest: inj_onD)
    then have "(\<exists>b \<in> set js. id_of b = i \<and> told b = Some v) \<longleftrightarrow> w = Some v" using a by auto
    moreover have "\<not> (\<exists>j \<in> set (of_server source d). \<not> P j \<and> id_of j = i \<and> shared j = v)"
      using rest a by (auto simp: of_server_def)
    ultimately have "own_table source d' i = Some v \<longleftrightarrow> w = Some v" unfolding iff by blast
    then show ?thesis using Some by (simp add: apply_answers_eq [OF js])
  qed
  then show "own_table source d' i = apply_answers js (own_table source d) i"
    by (metis option.exhaust)
qed

lemma drop_original_views:
  "shared (drop_first ''original_id'' j) = shared j" "id_of (drop_first ''original_id'' j) = id_of j"
  "plain_job (drop_first ''original_id'' j) = plain_job j"
  "told (drop_first ''original_id'' j) = told j"
  using shared_cong [of "drop_first ''original_id'' j" j] by (simp_all add: told_def)

lemma received_ok_own:
  assumes "db_ok d" and "j \<in> set (children d)" and "text_of ''siserver'' j = source"
    and "plain_job j" and "single ''original_id'' j"
  shows "received_ok source (drop_first ''original_id'' j)"
proof -
  have "job_ok j" using assms(1,2) by (simp add: db_ok_def list_all_iff)
  then have "\<exists>k. get1 ''id'' j = [itoa k]" by (simp add: job_ok_def)
  moreover have "get1 ''original_id'' (drop_first ''original_id'' j) = []"
    using assms(5) by (rule drop_first_single)
  ultimately show ?thesis using assms(3,4) by (simp add: received_ok_def drop_original_views)
qed

lemma own_okD:
  assumes "own_ok source d" and "j \<in> set (children d)"
  shows "single ''siserver'' j" and "job_ok j"
    and "text_of ''siserver'' j = source \<Longrightarrow> plain_job j \<and> single ''original_id'' j \<and>
      text_of ''status'' j \<noteq> ''done''"
proof -
  show "single ''siserver'' j" "job_ok j"
    using assms by (simp_all add: own_ok_def db_ok_def list_all_iff)
  assume "text_of ''siserver'' j = source"
  then have "j \<in> set (of_server source d)" using assms(2) by (simp add: of_server_def)
  then show "plain_job j \<and> single ''original_id'' j \<and> text_of ''status'' j \<noteq> ''done''"
    using assms(1) unfolding own_ok_def list_all_iff by blast
qed

text \<open>What the sender has done and told after a request: the same table of own jobs.\<close>

definition tells :: "string \<Rightarrow> hash \<Rightarrow> hash \<Rightarrow> hash list \<Rightarrow> bool" where
  "tells source d d' msgs \<longleftrightarrow> own_ok source d' \<and>
     (msgs = [] \<and> own_table source d' = own_table source d \<or>
      (\<exists>m. msgs = [m] \<and> message_ok source m \<and> text_of ''sync'' m \<noteq> ''all'' \<and>
         own_table source d' = apply_answers (answers m) (own_table source d) \<and>
         (\<forall>a \<in> set (answers m). \<forall>v. own_table source d (id_of a) = Some v \<longrightarrow> grows v (shared a))))"

lemma tells_fju:
  assumes "own_ok source d'" and "list_all (received_ok source) js" and "distinct (map id_of js)"
    and "own_table source d' = apply_answers js (own_table source d)"
    and grows: "\<And>a v. a \<in> set js \<Longrightarrow> own_table source d (id_of a) = Some v \<Longrightarrow> grows v (shared a)"
  shows "tells source d d' (if js = [] then [] else [fju_message source target js])"
proof -
  have "\<exists>b \<in> set js. id_of a = id_of b \<and> shared a = shared b" if "a \<in> set (numbered n js)" for a n
    using that
  proof (induction js arbitrary: n)
    case (Cons j js)
    have "shared (Rename m j) = shared j" for m using shared_cong [of "Rename m j" j] by simp
    with Cons show ?case by fastforce
  qed simp
  then have "\<forall>a \<in> set (numbered 1 js). \<forall>v.
      own_table source d (id_of a) = Some v \<longrightarrow> grows v (shared a)"
    using grows by metis
  then show ?thesis
    using assms message_ok_fju [OF assms(2,3), of target]
    by (cases "js = []") (simp_all add: tells_def fju_fields answers_fju numbered_views,
        simp add: apply_answers_def)
qed

subsection \<open>Changing own jobs\<close>

lemma update_fields_grows: "get1 t (update_fields u j) = [] \<Longrightarrow> get1 t j = []"
proof -
  have one: "get1 t (copy_field u f j) = [] \<Longrightarrow> get1 t j = []" for f j
    by (cases "f = t") (simp_all add: copy_field_def split: option.splits)
  have "get1 t (fold (copy_field u) fs j) = [] \<Longrightarrow> get1 t j = []" for fs
    by (induction fs arbitrary: j) (auto dest: one)
  then show "get1 t (update_fields u j) = [] \<Longrightarrow> get1 t j = []" by (simp add: update_fields_def)
qed

lemma modified_grows: "grows (shared j) (shared (modified u j))"
proof -
  have same: "get1 t (modified u j) = get1 t j"
    if "t \<in> {''headertag'', ''macaddress'', ''siserver''}" for t
    using that by (auto simp: modified_def acted_job_def JobUpdateXMLMessage_def update_fields_other
        updatableFields_def)
  have "get1 t (modified u j) = [] \<Longrightarrow> get1 t j = []" if "t \<in> set shared_fields" for t
  proof -
    assume "get1 t (modified u j) = []"
    then have "get1 t (acted_job u j) = []"
      using that by (simp add: modified_def JobUpdateXMLMessage_def)
    then have "get1 t (update_fields u j) = []"
      by (cases "t = ''status''") (simp_all add: acted_job_def split: if_splits)
    then show ?thesis by (rule update_fields_grows)
  qed
  with same show ?thesis by (simp add: grows_shared)
qed

lemma modified_plain: "plain_job j \<Longrightarrow> plain_job (modified u j)"
  by (simp add: plain_job_def list_all_iff modified_single)

lemma modified_status:
  assumes "single ''status'' j" and "text_of ''status'' (update_fields u j) \<noteq> ''done''"
  shows "text_of ''status'' (modified u j) \<noteq> ''done''"
  using assms update_fields_single [OF assms(1), of u] by (simp add: modified_def acted_job_def)

lemma id_of_inj:
  assumes "db_ok d" and "i \<in> set (children d)" and "j \<in> set (children d)" and "id_of i = id_of j"
  shows "i = j"
  using assms unfolding db_ok_def distinct_map by (meson inj_onD)

lemma selected_ids:
  assumes ok: "db_ok d" and ids: "map id_of js = map id_of (filter P (children d))"
  shows "distinct (map id_of js)"
    and "\<forall>j \<in> set (children d). P j \<longrightarrow> id_of j \<in> id_of ` set js"
    and "\<forall>j \<in> set (children d). \<not> P j \<longrightarrow> id_of j \<notin> id_of ` set js"
proof -
  show "distinct (map id_of js)"
    unfolding ids using ok by (simp add: db_ok_def distinct_map_filterI)
  have set: "id_of ` set js = id_of ` set (filter P (children d))"
    using ids by (metis image_set)
  then show "\<forall>j \<in> set (children d). P j \<longrightarrow> id_of j \<in> id_of ` set js"
    unfolding set set_filter by blast
  show "\<forall>j \<in> set (children d). \<not> P j \<longrightarrow> id_of j \<notin> id_of ` set js"
    unfolding set set_filter using id_of_inj [OF ok] by (blast dest: sym)
qed

text \<open>An own job has its entry under its id.\<close>

lemma own_table_entry:
  assumes ok: "db_ok d" and "j \<in> set (children d)" and "own_table source d (id_of j) = Some v"
  shows "shared j = v"
proof -
  have "distinct (map id_of (of_server source d))"
    using ok by (simp add: db_ok_def of_server_def distinct_map_filterI)
  from own_table_iff [OF this] assms(3) obtain i where
    "i \<in> set (of_server source d)" "id_of i = id_of j" "shared i = v" by auto
  then show ?thesis using id_of_inj [OF ok, of i j] assms(2) by (simp add: of_server_def)
qed

lemma modified_ok_for_peers:
  assumes ok: "own_ok source d" and j: "j \<in> set (children d)" "text_of ''siserver'' j = source"
    and status: "text_of ''status'' (update_fields u j) \<noteq> ''done''"
  shows "text_of ''siserver'' (modified u j) = source" and "plain_job (modified u j)"
    and "single ''original_id'' (modified u j)" and "text_of ''status'' (modified u j) \<noteq> ''done''"
    and "single ''siserver'' (modified u j)"
    and "told (drop_first ''original_id'' (modified u j)) = Some (shared (modified u j))"
proof -
  show "text_of ''siserver'' (modified u j) = source"
    using j(2) text_of_shared [OF modified_siserver] by simp
  show "plain_job (modified u j)" "single ''original_id'' (modified u j)"
    "text_of ''status'' (modified u j) \<noteq> ''done''" "single ''siserver'' (modified u j)"
    using own_okD [OF ok j(1)] j(2) status
    by (simp_all add: modified_plain modified_single modified_status plain_job_def shared_fields_def
        updatableFields_def)
  then show "told (drop_first ''original_id'' (modified u j)) = Some (shared (modified u j))"
    by (simp add: told_def drop_original_views)
qed

lemma modify_tells:
  assumes ok: "own_ok source (jobDB st)" and req: "own_request source (jobDB st) (RModifyLocal f u)"
    and st': "st' = perform_modify_local source f u st"
  shows "\<exists>msgs. ForeignJobUpdates st' = ForeignJobUpdates st @ msgs \<and>
    tells source (jobDB st) (jobDB st') msgs"
proof -
  let ?d = "jobDB st" and ?sel = "filter (accepts f) (children (jobDB st))"
  define js where "js = map (drop_first ''original_id'' \<circ> modified u) ?sel"
  have db: "db_ok ?d" using ok by (simp add: own_ok_def)
  note e = modify_local_effect [OF db, of source f u, folded st']
  have sel: "j \<in> set (children ?d)" "text_of ''siserver'' j = source"
      "text_of ''status'' (update_fields u j) \<noteq> ''done''" if "j \<in> set ?sel" for j
    using that req by auto
  note good = modified_ok_for_peers [OF ok sel]
  have ch: "db_ok (jobDB st') \<and> db_ids (jobDB st') \<subseteq> db_ids ?d"
    using db by (intro changed_db_ok [OF db e(1)]) (simp add: db_ok_def list_all_iff)
  have "received_ok source (drop_first ''original_id'' (modified u j))" if "j \<in> set ?sel" for j
    using received_ok_own [OF conjunct1 [OF ch], of "modified u j" source] good(1-3) [OF that that that] that
    by (simp add: e(1) del: set_elems)
  then have rec: "list_all (received_ok source) js" by (simp add: js_def list_all_iff)
  have own: "own_ok source (jobDB st')"
    using ok ch good own_okD [OF ok] unfolding own_ok_def list_all_iff of_server_def e(1)
    by (auto simp del: set_elems)
  have "map id_of js = map id_of ?sel" by (simp add: js_def drop_original_views)
  note ids = selected_ids [OF db this]
  have "(\<exists>r \<in> set (map (modified u) ?sel). id_of r = i \<and> shared r = v) \<longleftrightarrow>
      (\<exists>a \<in> set js. id_of a = i \<and> told a = Some v)" for i v
    using good(6) by (auto simp: js_def drop_original_views)
  then have "own_table source (jobDB st') = apply_answers js (own_table source ?d)"
    using own_table_step [OF e(1) _ _ ids(1) _ _ ids(2,3)] db ch good(1)
    by (simp add: db_ok_def)
  moreover have "grows v (shared a)" if "a \<in> set js" "own_table source ?d (id_of a) = Some v" for a v
  proof -
    obtain j where j: "j \<in> set ?sel" "a = drop_first ''original_id'' (modified u j)"
      using \<open>a \<in> set js\<close> js_def by auto
    then have "shared j = v" using own_table_entry [OF db sel(1), of j] that(2)
      by (simp add: drop_original_views)
    then show ?thesis using modified_grows [of j u] j(2) by (simp add: drop_original_views)
  qed
  ultimately have "tells source ?d (jobDB st') (if js = [] then [] else [fju_message source [] js])"
    using own rec ids(1) by (intro tells_fju)
  moreover have "ForeignJobUpdates st' = ForeignJobUpdates st @ (if js = [] then [] else [fju_message source [] js])"
    using e(3) req by (simp add: js_def comp_def)
  ultimately show ?thesis by blast
qed

subsection \<open>Removing own jobs\<close>

lemma done_job_for_peers:
  assumes ok: "own_ok source d" and j: "j \<in> set (children d)" "text_of ''siserver'' j = source"
  shows "received_ok source (done_job stop j)" and "id_of (done_job stop j) = id_of j"
    and "told (done_job stop j) = None" and "grows (shared j) (shared (done_job stop j))"
proof -
  have p: "plain_job j" "single ''original_id'' j" "single ''status'' j"
    using own_okD [OF ok j(1)] j(2) by (auto simp: plain_job_def shared_fields_def updatableFields_def)
  have get: "get1 t (done_job stop j) = get1 t j"
    if "t \<notin> {''status'', ''periodic'', ''original_id'', ''xmlmessage''}" for t
    using that by (simp add: done_job_def JobUpdateXMLMessage_def Let_def)
  show id: "id_of (done_job stop j) = id_of j" by (rule text_of_shared) (rule get, simp)
  show "told (done_job stop j) = None"
    using done_job_text(2) [OF p(3), of stop] by (simp add: told_def)
  have "single t (done_job stop j)" if "single t j" for t
    using that by (simp add: done_job_def JobUpdateXMLMessage_def Let_def single_set_field single_drop_first)
  then have "plain_job (done_job stop j)" using p(1) by (simp add: plain_job_def list_all_iff)
  moreover have "text_of ''siserver'' (done_job stop j) = source"
    using j(2) text_of_shared [OF get, of "''siserver''"] by simp
  moreover have "\<exists>k. get1 ''id'' (done_job stop j) = [itoa k]"
    using own_okD(2) [OF ok j(1)] by (simp add: get job_ok_def)
  ultimately show "received_ok source (done_job stop j)"
    using done_job_text(3) [OF p(2), of stop] by (simp add: received_ok_def)
  have "get1 t (done_job stop j) = [] \<Longrightarrow> get1 t j = []" if "t \<in> set shared_fields" for t
    using that by (cases "t = ''status''"; cases "t = ''periodic''")
      (auto simp: done_job_def JobUpdateXMLMessage_def Let_def split: if_splits)
  then show "grows (shared j) (shared (done_job stop j))" using get by (auto simp: grows_shared)
qed

lemma remove_tells:
  assumes ok: "own_ok source (jobDB st)" and req: "own_request source (jobDB st) (RRemoveLocal f stop)"
    and st': "st' = perform_remove_local source f stop st"
  shows "\<exists>msgs. ForeignJobUpdates st' = ForeignJobUpdates st @ msgs \<and>
    tells source (jobDB st) (jobDB st') msgs"
proof -
  let ?d = "jobDB st" and ?sel = "filter (accepts f) (children (jobDB st))"
  define js where "js = map (done_job stop) ?sel"
  have db: "db_ok ?d" using ok by (simp add: own_ok_def)
  note e = remove_local_effect [of source f stop st, folded st']
  have sel: "j \<in> set (children ?d)" "text_of ''siserver'' j = source" if "j \<in> set ?sel" for j
    using that req by auto
  note good = done_job_for_peers [OF ok sel]
  have ch: "db_ok (jobDB st')" using sub_db_ok [OF db e(1)] by simp
  have rec: "list_all (received_ok source) js" using good(1) by (auto simp: js_def list_all_iff)
  have own: "own_ok source (jobDB st')"
    using ok ch unfolding own_ok_def list_all_iff of_server_def e(1) by (auto simp del: set_elems)
  have "map id_of js = map id_of ?sel" using good(2) by (simp add: js_def)
  note ids = selected_ids [OF db this]
  have c: "children (jobDB st') = filter (\<lambda>j. \<not> accepts f j) (children ?d) @ []" using e(1) by simp
  have "(\<exists>r \<in> set []. id_of r = i \<and> shared r = v) \<longleftrightarrow> (\<exists>a \<in> set js. id_of a = i \<and> told a = Some v)"
    for i v using good(3) by (auto simp: js_def)
  then have "own_table source (jobDB st') = apply_answers js (own_table source ?d)"
    using own_table_step [OF c _ _ ids(1) _ _ ids(2,3)] db ch by (simp add: db_ok_def)
  moreover have "grows v (shared a)" if "a \<in> set js" "own_table source ?d (id_of a) = Some v" for a v
  proof -
    obtain j where j: "j \<in> set ?sel" "a = done_job stop j" using \<open>a \<in> set js\<close> js_def by auto
    then have "shared j = v" using own_table_entry [OF db sel(1), of j] that(2) good(2) by simp
    then show ?thesis using good(4) [OF j(1) j(1), of stop] j(2) by simp
  qed
  ultimately have "tells source ?d (jobDB st') (if js = [] then [] else [fju_message source [] js])"
    using own rec ids(1) by (intro tells_fju)
  moreover have "ForeignJobUpdates st' = ForeignJobUpdates st @ (if js = [] then [] else [fju_message source [] js])"
    using e(3) by (simp add: js_def)
  ultimately show ?thesis by blast
qed

subsection \<open>Adding an own job\<close>

lemma add_message_answers:
  assumes "HasPrefix (Name a) ''answer''"
  shows "answers (AddWithOwnership a (address_fju source [] new_fju)) = [a]"
    and "text_of ''source'' (AddWithOwnership a (address_fju source [] new_fju)) = source"
    and "text_of ''sync'' (AddWithOwnership a (address_fju source [] new_fju)) = ''ordered''"
proof -
  have n: "Name a \<noteq> ''source''" "Name a \<noteq> ''sync''" using assms fields_not_answers by auto
  show "answers (AddWithOwnership a (address_fju source [] new_fju)) = [a]"
    "text_of ''source'' (AddWithOwnership a (address_fju source [] new_fju)) = source"
    "text_of ''sync'' (AddWithOwnership a (address_fju source [] new_fju)) = ''ordered''"
    using assms n fields_not_answers
    by (simp_all add: answers_def address_fju_def new_fju_def text_of_eq get1_eq)
qed

lemma add_tells:
  assumes ok: "own_ok source (jobDB st)" and req: "own_request source (jobDB st) (RAddLocal job)"
    and st': "st' = perform_add_local source job st"
  shows "\<exists>msgs. ForeignJobUpdates st' = ForeignJobUpdates st @ msgs \<and>
    tells source (jobDB st) (jobDB st') msgs"
proof -
  let ?d = "jobDB st" and ?r = "Clone (named_job job)"
    and ?a = "drop_first ''original_id'' (Rename ''answer1'' (named_job job))"
  have db: "db_ok ?d" using ok by (simp add: own_ok_def)
  note e = add_local_effect [of source job st, folded st']
  have sh: "shared ?r = shared job" "plain_job ?r = plain_job job" "shared ?a = shared job"
    "plain_job ?a = plain_job job"
    using shared_cong [of ?r job] shared_cong [of ?a job] by (simp_all add: named_job_other)
  have job: "received_ok source (drop_first ''original_id'' job)" "single ''original_id'' job"
    "Name job = ''job''" "id_of job \<notin> db_ids ?d" "text_of ''status'' job \<noteq> ''done''" using req by auto
  then have k: "\<exists>k. get1 ''id'' job = [itoa k]" "plain_job job" "text_of ''siserver'' job = source"
    by (simp_all add: received_ok_def drop_original_views)
  have new_id: "\<forall>j \<in> set (children ?d). id_of j \<noteq> id_of job"
    using job(4) by (metis image_eqI)
  have r: "job_ok ?r" "id_of ?r = id_of job"
    using job_ok_Clone_named [OF job(3) k(1)] by simp_all
  then have ch: "db_ok (jobDB st')" using db_ok_snoc [OF db e(1)] job(4) by simp
  have "text_of t ?r = text_of t job" "text_of t ?a = text_of t job"
    if "t \<notin> {''plainname'', ''xmlmessage'', ''original_id''}" for t
    using that by (simp_all add: named_job_other)
  then have f: "text_of ''siserver'' ?r = source" "text_of ''status'' ?r \<noteq> ''done''"
    "text_of ''siserver'' ?a = source" "told ?a = Some (shared job)" "id_of ?a = id_of job"
    using k job(5) sh by (simp_all add: told_def)
  have "answer_ok source ?a"
    using f k sh(4) job(2) drop_first_single [of "''original_id''" "Rename ''answer1'' (named_job job)"]
    by (simp add: answer_ok_def named_job_other HasPrefix_def single_def)
  moreover have "own_ok source (jobDB st')"
    using ok ch f k sh(2) job(2) unfolding own_ok_def list_all_iff of_server_def e(1)
    by (auto simp: plain_job_def shared_fields_def named_job_other single_def simp del: set_elems)
  moreover have "own_table source (jobDB st') = apply_answers [?a] (own_table source ?d)"
  proof (rule own_table_step)
    show "children (jobDB st') = filter (\<lambda>j. \<not> False) (children ?d) @ [?r]" using e(1) by simp
    show "\<forall>j \<in> set (children ?d). \<not> False \<longrightarrow> id_of j \<notin> id_of ` set [?a]"
      using new_id f(5) by simp
    show "(\<exists>r \<in> set [?r]. id_of r = i \<and> shared r = v) \<longleftrightarrow>
        (\<exists>a \<in> set [?a]. id_of a = i \<and> told a = Some v)" for i v
      using r(2) f(4,5) sh(1) by (simp del: text_of_Clone)
  qed (use db ch f(1) in \<open>simp_all add: db_ok_def\<close>)
  moreover have "own_table source ?d (id_of ?a) \<noteq> Some v" for v
  proof
    assume "own_table source ?d (id_of ?a) = Some v"
    then obtain j where "j \<in> set (of_server source ?d)" "id_of j = id_of ?a"
      using own_table_iff [of source ?d "id_of ?a" v] db
      by (auto simp: db_ok_def of_server_def distinct_map_filterI)
    then show False using new_id f(5) by (simp add: of_server_def del: set_elems)
  qed
  ultimately have "tells source ?d (jobDB st')
      [AddWithOwnership ?a (address_fju source [] new_fju)]"
    using add_message_answers [of ?a source]
    by (simp add: tells_def message_ok_def answer_ok_def)
  then show ?thesis using e(3) by blast
qed

section \<open>The two sides together\<close>

definition same_news :: "hash \<Rightarrow> hash \<Rightarrow> bool" where
  "same_news m m' \<longleftrightarrow> text_of ''source'' m' = text_of ''source'' m \<and>
     text_of ''sync'' m' = text_of ''sync'' m \<and> mset (answers m') = mset (answers m)"

lemma same_news_ok:
  assumes "same_news m m'" and "message_ok source m"
  shows "message_ok source m'" and "set (answers m') = set (answers m)"
    and "apply_answers (answers m') t = apply_answers (answers m) t"
proof -
  have e: "mset (answers m') = mset (answers m)" using assms(1) by (simp add: same_news_def)
  then show s: "set (answers m') = set (answers m)" by (rule mset_eq_setD)
  have "distinct (map id_of (answers m))" using assms(2) by (simp add: message_ok_def)
  moreover have "mset (map id_of (answers m')) = mset (map id_of (answers m))" using e by simp
  ultimately have d: "distinct (map id_of (answers m'))" using mset_eq_imp_distinct_iff by blast
  then show "message_ok source m'"
    using assms s unfolding message_ok_def same_news_def list_all_iff by simp
  show "apply_answers (answers m') t = apply_answers (answers m) t"
    using e d by (rule apply_answers_perm)
qed

fun receive_all ::
  "(string \<Rightarrow> string result) \<Rightarrow> string \<Rightarrow> (nat \<Rightarrow> nat) \<Rightarrow> hash list \<Rightarrow> peers \<Rightarrow> jobdb \<Rightarrow> jobdb outcome" where
  "receive_all resolve server ids [] ps st = Returns st"
| "receive_all resolve server ids (m # ms) ps st =
     and_then (receive resolve server ids m ps st) (receive_all resolve server ids ms ps)"

lemma own_request_tells:
  assumes "own_ok source (jobDB st)" and "own_request source (jobDB st) r"
    and "perform source ids r st = Returns st'"
  shows "\<exists>msgs. ForeignJobUpdates st' = ForeignJobUpdates st @ msgs \<and>
    tells source (jobDB st) (jobDB st') msgs"
  using assms modify_tells remove_tells add_tells by (cases r) auto

lemma tells_received:
  assumes srv: "matches_whole addressRegexp server" "server \<noteq> source"
    and addr: "matches_whole addressRegexp source"
    and tells: "tells source d d' msgs" and news: "list_all2 same_news msgs msgs'"
    and mirror: "copy_table source (jobDB rv) = own_table source d"
    and ok: "copies_ok source (jobDB rv)" "fresh_ids ids rv"
  shows "\<exists>rv'. receive_all resolve server ids msgs' ps rv = Returns rv' \<and>
    copies_ok source (jobDB rv') \<and> fresh_ids ids rv' \<and>
    copy_table source (jobDB rv') = own_table source d'"
proof (cases msgs)
  case Nil
  then show ?thesis using assms by (simp add: tells_def)
next
  case (Cons m ms)
  then have m: "msgs = [m]" "message_ok source m" "text_of ''sync'' m \<noteq> ''all''"
    "own_table source d' = apply_answers (answers m) (own_table source d)"
    "\<forall>a \<in> set (answers m). \<forall>v. own_table source d (id_of a) = Some v \<longrightarrow> grows v (shared a)"
    using tells by (auto simp: tells_def)
  obtain m' where m': "msgs' = [m']" "same_news m m'"
    using news m(1) by (auto simp: list_all2_Cons1)
  note same = same_news_ok [OF m'(2) m(2)]
  have "text_of ''sync'' m' \<noteq> ''all''" using m'(2) m(3) by (simp add: same_news_def)
  from receive_update [OF srv addr same(1) this ok] m(5) same(2,3) mirror m(4)
  obtain rv' where "receive resolve server ids m' ps rv = Returns rv'" "copies_ok source (jobDB rv')"
    "fresh_ids ids rv'" "copy_table source (jobDB rv') = own_table source d'" by metis
  then show ?thesis using m'(1) by simp
qed

text \<open>C1: A server that performs a request about its own jobs (adding one, changing or removing
  any number of them, in a way it tells its peers about) and a peer that receives what it
  sends agree again afterwards: the peer's table of copies, by the sender's ids, equals the
  sender's table of own jobs, for the fields a job is about.\<close>

theorem copies_follow_own_jobs:
  assumes "matches_whole addressRegexp server" and "server \<noteq> source"
    and "matches_whole addressRegexp source"
    and "own_ok source (jobDB st)" and "own_request source (jobDB st) r"
    and "perform source ids r st = Returns st'"
    and "copies_ok source (jobDB rv)" and "fresh_ids ids' rv"
    and "copy_table source (jobDB rv) = own_table source (jobDB st)"
  shows "\<exists>msgs. ForeignJobUpdates st' = ForeignJobUpdates st @ msgs \<and> own_ok source (jobDB st') \<and>
    (\<forall>msgs'. list_all2 same_news msgs msgs' \<longrightarrow>
      (\<exists>rv'. receive_all resolve server ids' msgs' ps rv = Returns rv' \<and>
        copies_ok source (jobDB rv') \<and> fresh_ids ids' rv' \<and>
        copy_table source (jobDB rv') = own_table source (jobDB st')))"
proof -
  obtain msgs where "ForeignJobUpdates st' = ForeignJobUpdates st @ msgs"
    and t: "tells source (jobDB st) (jobDB st') msgs"
    using own_request_tells assms(4-6) by blast
  then show ?thesis
    using tells_received [OF assms(1-3) t _ assms(9,7,8)] by (auto simp: tells_def)
qed

subsection \<open>A full copy\<close>

text \<open>The message that \<open>JobsSyncAll\<close> prepares when nothing is known of the peer's own copy.\<close>

definition sync_head :: "string \<Rightarrow> string \<Rightarrow> hash" where
  "sync_head source target =
     Add ''sync'' [''all''] (set_field ''source'' source (set_field ''target'' target
       (set_field ''header'' ''foreign_job_updates'' (NewHash ''xml'' []))))"

lemma JobsSyncAll_request:
  "JobsSyncAll source target None st = enqueue (RSyncAll (sync_head source target)) st"
  by (simp add: JobsSyncAll_def sync_head_def Let_def)

definition leaf :: "string \<Rightarrow> string \<Rightarrow> hash" where
  "leaf t v = SetText [v] (NewHash t [])"

lemma kids_sync_head: "kids (sync_head source target) =
    map Sub [leaf ''header'' ''foreign_job_updates'', leaf ''target'' target, leaf ''source'' source,
      leaf ''sync'' ''all'']"
  by (simp add: sync_head_def set_field_def FirstOrAdd_def First_eq_find Add_def
      AddWithOwnership_def leaf_def)

lemma counterpart_leaf [simp]: "\<not> accepts (counterpart job) (leaf t v)"
  by (simp add: counterpart_def leaf_def get1_eq)

lemma removed_counterparts:
  assumes "kids h = map Sub (map (\<lambda>(t, v). leaf t v) fs)"
  shows "fold (\<lambda>job fju. snd (Remove (accepts (counterpart job)) fju)) jobs h = h"
proof -
  have "remove_accepted (accepts (counterpart job)) (map Sub (map (\<lambda>(t, v). leaf t v) fs)) =
      map Sub (map (\<lambda>(t, v). leaf t v) fs)" for job
    by (induction fs) auto
  then have "snd (Remove (accepts (counterpart job)) h) = h" for job
    using assms by (cases h) (simp add: Remove_def)
  then show ?thesis by (induction jobs) simp_all
qed

lemma cancel_old_none:
  "list_all (\<lambda>h. \<not> HasPrefix (Name h) ''answer'') hs \<Longrightarrow>
    cancel_old ids k n (map Sub hs) = (map Sub hs, k, n)"
  by (induction hs) simp_all

lemma copy_jobs:
  "fst (fold copy_job jobs (fju, n)) =
    fold AddWithOwnership (numbered n (map (drop_first ''original_id'') jobs)) fju"
  by (induction jobs arbitrary: fju n) (simp_all add: copy_job_def)

lemma sync_all_message:
  fixes source ids target st
  assumes ok: "own_ok source (jobDB st)" and addr: "matches_whole addressRegexp source"
  defines "st' \<equiv> perform_sync_all source ids (sync_head source target) st"
  shows "\<exists>m. ForeignJobUpdates st' = ForeignJobUpdates st @ [m] \<and>
    answers m = numbered 1 (map (drop_first ''original_id'') (of_server source (jobDB st))) \<and>
    text_of ''source'' m = source \<and> text_of ''sync'' m = ''all''"
proof -
  let ?heads = "[leaf ''header'' ''foreign_job_updates'', leaf ''target'' target,
      leaf ''source'' source, leaf ''sync'' ''all'']"
  let ?js = "of_server source (jobDB st)"
  have db: "db_ok (jobDB st)" using ok by (simp add: own_ok_def)
  have "accepts (local_jobs source) j \<longleftrightarrow> text_of ''siserver'' j = source"
    if "j \<in> set (children (jobDB st))" for j
    using own_okD(1) [OF ok that] single_siserver_accepts [OF addr, of j]
    by (auto simp: local_jobs_def list_ex_iff)
  then have "filter (accepts (local_jobs source)) (children (jobDB st)) = ?js"
    unfolding of_server_def by (intro filter_cong) auto
  then have js: "children (Query (accepts (local_jobs source)) (jobDB st)) = ?js"
    using db_ok_Query [OF db, of "accepts (local_jobs source)"] by simp
  have same: "fold (\<lambda>job fju. snd (Remove (accepts (counterpart job)) fju)) ?js (sync_head source target) =
      sync_head source target"
    using kids_sync_head
    by (intro removed_counterparts [where fs = "[(''header'', ''foreign_job_updates''),
          (''target'', target), (''source'', source), (''sync'', ''all'')]"]) simp
  have names: "list_all (\<lambda>h. \<not> HasPrefix (Name h) ''answer'') ?heads"
    using fields_not_answers by (simp add: leaf_def)
  let ?m = "fold AddWithOwnership (numbered 1 (map (drop_first ''original_id'') ?js))
      (Hash (Name (sync_head source target)) (map Sub ?heads))"
  have "ForeignJobUpdates st' = ForeignJobUpdates st @ [?m]"
    unfolding st'_def perform_sync_all_def Let_def js same kids_sync_head cancel_old_none [OF names]
    by (simp add: send_update_def copy_jobs)
  moreover have "children ?m = ?heads @ numbered 1 (map (drop_first ''original_id'') ?js)"
    by (simp only: children_fold_Add elems_map_Sub hash.sel)
  then have "answers ?m = numbered 1 (map (drop_first ''original_id'') ?js) \<and>
      text_of ''source'' ?m = source \<and> text_of ''sync'' ?m = ''all''"
    using names fields_not_answers
    by (simp add: answers_def answers_numbered text_of_eq get1_eq numbered_names leaf_def)
  ultimately show ?thesis by blast
qed

text \<open>C2: A full copy makes the peer's table of copies equal to the sender's table of own jobs,
  whatever copies the peer had before: jobs the sender does not have any more disappear.\<close>

theorem full_copy_is_exact:
  assumes "matches_whole addressRegexp server" and "server \<noteq> source"
    and "matches_whole addressRegexp source"
    and "own_ok source (jobDB st)"
    and "perform source ids (RSyncAll (sync_head source target)) st = Returns st'"
    and "copies_ok source (jobDB rv)" and "fresh_ids ids' rv"
  shows "\<exists>m. ForeignJobUpdates st' = ForeignJobUpdates st @ [m] \<and>
    (\<forall>m'. same_news m m' \<longrightarrow>
      (\<exists>rv'. receive resolve server ids' m' ps rv = Returns rv' \<and>
        copies_ok source (jobDB rv') \<and> fresh_ids ids' rv' \<and>
        copy_table source (jobDB rv') = own_table source (jobDB st)))"
proof -
  let ?js = "map (drop_first ''original_id'') (of_server source (jobDB st))"
  have db: "db_ok (jobDB st)" using assms(4) by (simp add: own_ok_def)
  obtain m where m: "ForeignJobUpdates st' = ForeignJobUpdates st @ [m]" "answers m = numbered 1 ?js"
    "text_of ''source'' m = source" "text_of ''sync'' m = ''all''"
    using sync_all_message [OF assms(4,3)] assms(5) by fastforce
  have "received_ok source (drop_first ''original_id'' j)" if "j \<in> set (of_server source (jobDB st))" for j
    using that own_okD [OF assms(4), of j] received_ok_own [OF db, of j source]
    by (auto simp: of_server_def)
  then have rec: "list_all (received_ok source) ?js" by (simp add: list_all_iff)
  have ids: "map id_of ?js = map id_of (of_server source (jobDB st))"
    by (simp add: drop_original_views)
  have dist: "distinct (map id_of ?js)"
    unfolding ids using db by (simp add: db_ok_def of_server_def distinct_map_filterI)
  have ok: "message_ok source m"
    using m answer_ok_numbered [OF rec] dist by (simp add: message_ok_def numbered_views)
  have "told (drop_first ''original_id'' j) = Some (shared j)" if "j \<in> set (of_server source (jobDB st))" for j
    using that own_okD(3) [OF assms(4), of j] by (auto simp: told_def drop_original_views of_server_def)
  then have told: "map (\<lambda>a. (id_of a, told a)) ?js =
      map (\<lambda>j. (id_of j, Some (shared j))) (of_server source (jobDB st))"
    by (simp add: drop_original_views)
  have table: "apply_answers (answers m) (\<lambda>i. None) = own_table source (jobDB st)"
  proof
    fix i
    have "map_of (map (\<lambda>j. (id_of j, Some (shared j))) xs) i =
        map_option Some (map_of (map (\<lambda>j. (id_of j, shared j)) xs) i)" for xs
      by (induction xs) auto
    then show "apply_answers (answers m) (\<lambda>i. None) i = own_table source (jobDB st) i"
      unfolding m(2) numbered_views(2) apply_answers_eq [OF dist] told
      by (simp add: own_table_def split: option.split)
  qed
  have "\<exists>rv'. receive resolve server ids' m' ps rv = Returns rv' \<and>
      copies_ok source (jobDB rv') \<and> fresh_ids ids' rv' \<and>
      copy_table source (jobDB rv') = own_table source (jobDB st)" if "same_news m m'" for m'
    using receive_copy [OF assms(1-3) same_news_ok(1) [OF that ok] _ assms(6,7)] that m(4)
      same_news_ok(3) [OF that ok] table by (simp add: same_news_def)
  then show ?thesis using m(1) by blast
qed

subsection \<open>Instances\<close>

definition peer_a :: string where "peer_a = ''1.1.1.1:1''"
definition peer_b :: string where "peer_b = ''2.2.2.2:2''"

lemma peer_addresses [simp]:
  "matches_whole addressRegexp peer_a" "matches_whole addressRegexp peer_b" "peer_b \<noteq> peer_a"
proof -
  have d: "itoa 1 = ''1''" "itoa 2 = ''2''" by code_simp+
  show "matches_whole addressRegexp peer_a"
    unfolding address_lang peer_a_def by (intro exI [of _ 1] conjI) (simp_all only: d, simp_all)
  show "matches_whole addressRegexp peer_b"
    unfolding address_lang peer_b_def
    by (intro exI [of _ 2] conjI) (simp_all only: d, simp_all)
  show "peer_b \<noteq> peer_a" by (simp add: peer_a_def peer_b_def)
qed

definition shared_job :: hash where
  "shared_job = Hash ''job'' [Sub (Hash ''id'' [Txt ''7'']), Sub (Hash ''status'' [Txt ''waiting'']),
     Sub (Hash ''siserver'' [Txt peer_a])]"

definition empty_jobdb :: jobdb where
  "empty_jobdb = example_jobdb\<lparr>jobDB := Hash ''jobdb'' []\<rparr>"

definition one_jobdb :: jobdb where
  "one_jobdb = example_jobdb\<lparr>jobDB := Hash ''jobdb'' [Sub shared_job]\<rparr>"

lemma get1_shared_job:
  "get1 t shared_job = (if t = ''id'' then [''7''] else if t = ''status'' then [''waiting'']
     else if t = ''siserver'' then [peer_a] else [])"
  by (simp add: shared_job_def get1_eq own_text_def TextFragments_def)

lemma shared_job_ok:
  "text_of ''siserver'' shared_job = peer_a" "plain_job shared_job" "single t shared_job"
  "get1 ''original_id'' shared_job = []" "get1 ''id'' shared_job = [itoa 7]"
  "text_of ''status'' shared_job \<noteq> ''done''" "Name shared_job = ''job''" "tidy shared_job"
proof -
  have "itoa 7 = ''7''" by code_simp
  then show "get1 ''id'' shared_job = [itoa 7]" by (simp add: get1_shared_job)
  show s: "single t shared_job" for t by (simp add: single_def get1_shared_job)
  then show "plain_job shared_job" by (simp add: plain_job_def list_all_iff)
qed (simp_all add: text_of_eq get1_shared_job, simp_all add: shared_job_def peer_a_def)

lemma empty_jobdb_ok [simp]:
  "own_ok peer_a (jobDB empty_jobdb)" "copies_ok peer_a (jobDB empty_jobdb)"
  "fresh_ids (\<lambda>k. k) empty_jobdb" "copy_table peer_a (jobDB empty_jobdb) = own_table peer_a (jobDB empty_jobdb)"
  by (simp_all add: empty_jobdb_def own_ok_def copies_ok_def fresh_ids_def db_ok_def of_server_def
      copy_table_def own_table_def)

lemma one_jobdb_ok [simp]: "own_ok peer_a (jobDB one_jobdb)"
  using shared_job_ok
  by (auto simp: one_jobdb_def own_ok_def db_ok_def of_server_def job_ok_def)

theorem copies_follow_own_jobs_witness:
  "\<exists>st' msgs. perform peer_a (\<lambda>k. k) (RAddLocal shared_job) empty_jobdb = Returns st' \<and>
    ForeignJobUpdates st' = ForeignJobUpdates empty_jobdb @ msgs \<and>
    (\<exists>rv'. receive_all (\<lambda>a. Inr a) peer_b (\<lambda>k. k) msgs [] empty_jobdb = Returns rv' \<and>
      copy_table peer_a (jobDB rv') = own_table peer_a (jobDB st'))"
proof -
  obtain st' where st': "perform peer_a (\<lambda>k. k) (RAddLocal shared_job) empty_jobdb = Returns st'"
    by simp
  have "own_request peer_a (jobDB empty_jobdb) (RAddLocal shared_job)"
    using shared_job_ok by (simp add: received_ok_def drop_original_views empty_jobdb_def)
  from copies_follow_own_jobs [OF peer_addresses(2,3,1) empty_jobdb_ok(1) this st'
      empty_jobdb_ok(2-4), of "\<lambda>a. Inr a" "[]"]
  obtain msgs where msgs: "ForeignJobUpdates st' = ForeignJobUpdates empty_jobdb @ msgs"
    "\<forall>msgs'. list_all2 same_news msgs msgs' \<longrightarrow>
      (\<exists>rv'. receive_all (\<lambda>a. Inr a) peer_b (\<lambda>k. k) msgs' [] empty_jobdb = Returns rv' \<and>
        copy_table peer_a (jobDB rv') = own_table peer_a (jobDB st'))"
    by blast
  have "list_all2 same_news msgs msgs" by (simp add: list_all2_same same_news_def)
  with msgs st' show ?thesis by blast
qed

theorem full_copy_is_exact_witness:
  "\<exists>st' m. perform peer_a (\<lambda>k. k) (RSyncAll (sync_head peer_a peer_b)) one_jobdb = Returns st' \<and>
    ForeignJobUpdates st' = [m] \<and>
    (\<exists>rv'. receive (\<lambda>a. Inr a) peer_b (\<lambda>k. k) m [] empty_jobdb = Returns rv' \<and>
      copy_table peer_a (jobDB rv') ''7'' = Some (shared shared_job))"
proof -
  obtain st' where st': "perform peer_a (\<lambda>k. k) (RSyncAll (sync_head peer_a peer_b)) one_jobdb =
      Returns st'" by simp
  have seven: "itoa 7 = ''7''" by code_simp
  have "own_table peer_a (jobDB one_jobdb) ''7'' = Some (shared shared_job)"
    using shared_job_ok by (simp add: one_jobdb_def own_table_def of_server_def text_of_eq seven)
  moreover have "same_news m m" for m by (simp add: same_news_def)
  ultimately show ?thesis
    using full_copy_is_exact [OF peer_addresses(2,3,1) one_jobdb_ok st' empty_jobdb_ok(2,3),
        of "\<lambda>a. Inr a" "[]"] st'
    by (fastforce simp: one_jobdb_def example_jobdb_def)
qed

end
