(* ===== verification/Tftp.thy ===== *)
theory Tftp
  imports HashTree Addresses "HOL-Library.Sublist"
begin

text \<open>
  The read-only TFTP server of go-susi/tftp/server.go and the client of go-susi/tftp/get.go:
  the parsing of requests, the mapping of names to files and hooks, the cache of loaded files,
  and the transfer with acknowledgements and resends.

  Packets are byte strings. The network and the clock are arguments: for each call of
  \<open>sendAndWaitForAck\<close> what its writes and reads meet with. Compiled regular expressions of the
  configuration, the file system, hooks and the LDAP query for a MAC address are arguments as
  well. The bytes of the receive buffer that a packet does not overwrite are kept, because the
  code looks at them.
\<close>

section \<open>Packets\<close>

definition byte_at :: "nat \<Rightarrow> string \<Rightarrow> nat" where
  "byte_at i s = (if i < length s then byte (s ! i) else 0)"

text \<open>\<open>byte(n >> 8)\<close> and \<open>byte(n & 0xff)\<close>.\<close>

definition block_bytes :: "nat \<Rightarrow> string" where
  "block_bytes n = [char_of (n div 256 mod 256), char_of (n mod 256)]"

text \<open>The packet that \<open>sendErrorWithoutLogging\<close> writes.\<close>

definition error_packet :: "nat \<Rightarrow> string \<Rightarrow> string" where
  "error_packet code emsg = [char_of (0 :: nat), char_of (5 :: nat), char_of (0 :: nat), char_of code]
     @ emsg @ [char_of (0 :: nat)]"

definition data_packet :: "nat \<Rightarrow> string \<Rightarrow> string" where
  "data_packet blockid payload =
     [char_of (0 :: nat), char_of (3 :: nat)] @ block_bytes blockid @ payload"

definition oack_packet :: "string list \<Rightarrow> string" where
  "oack_packet oack = [char_of (0 :: nat), char_of (6 :: nat)] @ Join oack [char_of (0 :: nat)]
     @ [char_of (0 :: nat)]"

definition ack_packet :: "nat \<Rightarrow> string" where
  "ack_packet blockid = [char_of (0 :: nat), char_of (4 :: nat)] @ block_bytes blockid"

section \<open>Sending with acknowledgement\<close>

text \<open>
  What one iteration of the inner loop meets with: the deadline has passed; the read timed out
  or failed; a packet arrived, from the port of the peer or from another one.
\<close>

datatype reading = Deadline | Timed_out | Read_failed | Received bool string

record counters =
  retransmissions :: int
  dups :: int
  strays :: int

text \<open>
  How the waiting for an acknowledgement ends: the code returns false for \<open>Gave_up\<close> and
  \<open>Unexpected\<close> (a packet that is neither). \<open>Waiting\<close>: nothing more is known to happen.
\<close>

datatype waiting = Acknowledged | Resend | Gave_up | Unexpected | Crashed | Waiting

text \<open>\<open>ReadFromUDP(readbuf)\<close>: the packet overwrites the beginning of the buffer.\<close>

definition read_into :: "string \<Rightarrow> string \<Rightarrow> string" where
  "read_into buf packet = take (length buf) packet @ drop (length packet) buf"

text \<open>
  What is done with a packet of \<open>n\<close> bytes from the right port: the verdict, or None for a
  duplicate, which is ignored. \<open>string(readbuf[4:n])\<close> panics when \<open>n\<close> is less than 4.
\<close>

definition judge :: "string \<Rightarrow> string \<Rightarrow> nat \<Rightarrow> waiting option" where
  "judge sendbuf readbuf n =
     (if n = 4 \<and> byte_at 0 readbuf = 0 \<and> byte_at 1 readbuf = 4 \<and>
         (byte_at 1 sendbuf \<noteq> 3 \<or>
          byte_at 2 readbuf = byte_at 2 sendbuf \<and> byte_at 3 readbuf = byte_at 3 sendbuf)
      then Some Acknowledged
      else if byte_at 0 readbuf = 0 \<and> byte_at 1 readbuf = 5
      then Some (if n < 4 then Crashed else Gave_up)
      else if byte_at 1 sendbuf = 3 \<and>
         (byte_at 2 readbuf \<noteq> byte_at 2 sendbuf \<or> byte_at 3 readbuf \<noteq> byte_at 3 sendbuf)
      then None
      else Some Unexpected)"

text \<open>
  The inner loop. The last component of the result are the codes of the error packets that are
  written (always to the peer: \<open>sendErrorWithoutLogging\<close> does not use its address argument).
\<close>

fun wait_for_ack ::
  "string \<Rightarrow> reading list \<Rightarrow> string \<Rightarrow> counters \<Rightarrow> waiting \<times> string \<times> counters \<times> nat list" where
  "wait_for_ack sendbuf [] readbuf c = (Waiting, readbuf, c, [])"
| "wait_for_ack sendbuf (Deadline # rs) readbuf c = (Gave_up, readbuf, c, [])"
| "wait_for_ack sendbuf (Timed_out # rs) readbuf c = (Resend, readbuf, c, [])"
| "wait_for_ack sendbuf (Read_failed # rs) readbuf c = (Gave_up, readbuf, c, [])"
| "wait_for_ack sendbuf (Received from_peer packet # rs) readbuf c =
     (let n = min (length packet) (length readbuf); readbuf = read_into readbuf packet in
      if \<not> from_peer
      then (case wait_for_ack sendbuf rs readbuf (c\<lparr>strays := strays c + 1\<rparr>) of
              (v, readbuf, c, es) \<Rightarrow> (v, readbuf, c, 5 # es))
      else
        (case judge sendbuf readbuf n of
           None \<Rightarrow> wait_for_ack sendbuf rs readbuf (c\<lparr>dups := dups c + 1\<rparr>)
         | Some v \<Rightarrow> (v, readbuf, c, if v = Unexpected then [0] else [])))"

text \<open>
  The outer loop: each round is whether the write succeeds and what the reads after it meet
  with. The result has the number of times that the packet was written.
\<close>

type_synonym round = "bool \<times> reading list"

fun send_rounds ::
  "string \<Rightarrow> round list \<Rightarrow> string \<Rightarrow> counters \<Rightarrow> waiting \<times> nat \<times> counters \<times> nat list" where
  "send_rounds sendbuf [] readbuf c = (Waiting, 0, c, [])"
| "send_rounds sendbuf ((written, rs) # rounds) readbuf c =
     (let c = c\<lparr>retransmissions := retransmissions c + 1\<rparr> in
      if \<not> written then (Gave_up, 0, c, [])
      else
        (case wait_for_ack sendbuf rs readbuf c of
           (Resend, readbuf, c, es) \<Rightarrow>
             (case send_rounds sendbuf rounds readbuf c of
                (v, n, c, es') \<Rightarrow> (v, Suc n, c, es @ es'))
         | (v, readbuf, c, es) \<Rightarrow> (v, 1, c, es)))"

definition sendAndWaitForAck ::
  "string \<Rightarrow> round list \<Rightarrow> counters \<Rightarrow> waiting \<times> nat \<times> counters \<times> nat list" where
  "sendAndWaitForAck sendbuf rounds c =
     send_rounds sendbuf rounds (replicate 4096 (char_of (0 :: nat)))
       (c\<lparr>retransmissions := retransmissions c - 1\<rparr>)"

section \<open>Requests and options\<close>

text \<open>The name and the options of a read request, or None when it is not understood.\<close>

definition parse_request :: "string \<Rightarrow> (string \<times> string list) option" where
  "parse_request payload =
     (let request = (if length payload > 2 then Split (drop 2 payload) (char_of (0 :: nat)) else [])
      in if length payload < 6 \<or> byte_at 0 payload \<noteq> 0 \<or> byte_at 1 payload \<noteq> 1 \<or>
            length request < 2 \<or> ToLower (request ! 1) \<noteq> ''octet'' \<or>
            request ! 0 = [] \<or> hd (request ! 0) = CHR ''.'' \<or> last (request ! 0) = CHR ''/''
         then None
         else Some (request ! 0, drop 2 request))"

text \<open>The loop over the options: the block size and the options to acknowledge.\<close>

fun process_options :: "nat \<Rightarrow> string list \<Rightarrow> nat \<times> string list \<Rightarrow> nat \<times> string list" where
  "process_options len (opt # val # options) (blocksize, oack) =
     (let option = ToLower opt;
          acc = (if option = ''blksize''
                 then (case ParseInt val of
                         Some new_bs \<Rightarrow>
                           if new_bs > 0 \<and> new_bs \<le> 65536
                           then (nat new_bs, oack @ [option, val]) else (blocksize, oack)
                       | None \<Rightarrow> (blocksize, oack))
                 else (blocksize, oack));
          acc = (if option = ''tsize'' then (fst acc, snd acc @ [option, itoa len]) else acc)
      in process_options len options acc)"
| "process_options len _ acc = acc"

section \<open>The file or hook for a name\<close>

subsection \<open>Expansion of the reply\<close>

text \<open>
  A compiled expression of the configuration: the submatches of a text (None for one that took
  no part), and the names of the subexpressions, as \<open>FindStringSubmatch\<close> and
  \<open>SubexpNames\<close> give them.
\<close>

record regexp =
  submatches :: "string \<Rightarrow> string option list option"
  SubexpNames :: "string list"

definition is_word :: "char \<Rightarrow> bool" where
  "is_word c \<longleftrightarrow> is_digit c \<or> c = CHR ''_'' \<or>
     (97 \<le> byte (lower_char c) \<and> byte (lower_char c) \<le> 122)"

text \<open>
  \<open>Expand\<close> of Go's regexp: \<open>$name\<close>, \<open>${name}\<close>, \<open>$1\<close> and \<open>$$\<close>; anything else after a dollar
  leaves the dollar as it is. \<open>extract_name\<close> gives the name, its number if it is one, and the rest.
\<close>

fun number_of :: "nat \<Rightarrow> string \<Rightarrow> nat option" where
  "number_of num [] = Some num"
| "number_of num (c # cs) =
     (if \<not> is_digit c \<or> num \<ge> 100000000 then None else number_of (num * 10 + (byte c - 48)) cs)"

definition extract_name :: "string \<Rightarrow> (string \<times> nat option \<times> string) option" where
  "extract_name str =
     (let brace = (str \<noteq> [] \<and> hd str = CHR ''{'');
          body = (if brace then tl str else str);
          name = takeWhile is_word body;
          rest = dropWhile is_word body;
          num = (if name \<noteq> [] \<and> hd name = CHR ''0'' \<and> 1 < length name then None
                 else number_of 0 name)
      in if name = [] then None
         else if \<not> brace then Some (name, num, rest)
         else if rest \<noteq> [] \<and> hd rest = CHR ''}'' then Some (name, num, tl rest)
         else None)"

definition submatch_value ::
  "string list \<Rightarrow> string option list \<Rightarrow> string \<Rightarrow> nat option \<Rightarrow> string" where
  "submatch_value names subs name num =
     (case num of
        Some n \<Rightarrow> (if n < length subs then (case subs ! n of Some v \<Rightarrow> v | None \<Rightarrow> []) else [])
      | None \<Rightarrow>
          (case find (\<lambda>(nm, s). nm = name \<and> s \<noteq> None) (zip names subs) of
             Some (_, Some v) \<Rightarrow> v | _ \<Rightarrow> []))"

lemma extract_name_shorter:
  assumes "extract_name str = Some (name, num, rest)"
  shows "length rest \<le> length str"
proof -
  have "length (dropWhile is_word s) \<le> length s" for s by (rule length_dropWhile_le)
  note this [of str] this [of "tl str"]
  with assms show ?thesis
    unfolding extract_name_def Let_def by (auto split: if_splits)
qed

function Expand :: "string list \<Rightarrow> string option list \<Rightarrow> string \<Rightarrow> string" where
  "Expand names subs template =
     (case template of
        [] \<Rightarrow> []
      | c # cs \<Rightarrow>
          if c \<noteq> CHR ''$'' then c # Expand names subs cs
          else if cs \<noteq> [] \<and> hd cs = CHR ''$'' then CHR ''$'' # Expand names subs (tl cs)
          else
            (case extract_name cs of
               None \<Rightarrow> CHR ''$'' # Expand names subs cs
             | Some (name, num, rest) \<Rightarrow>
                 submatch_value names subs name num @ Expand names subs rest))"
  by pat_completeness auto
termination
  by (relation "measure (\<lambda>(_, _, t). length t)")
    (auto dest!: extract_name_shorter simp: less_Suc_eq_le)

declare Expand.simps [simp del]

subsection \<open>The MAC address in a request\<close>

definition format_mac :: "char \<Rightarrow> char option" where
  "format_mac r =
     (if CHR ''a'' \<le> r \<and> r \<le> CHR ''f'' then Some r
      else if CHR ''0'' \<le> r \<and> r \<le> CHR ''9'' then Some r
      else if CHR ''A'' \<le> r \<and> r \<le> CHR ''F''
      then Some (char_of (byte (CHR ''a'') + (byte r - byte (CHR ''A''))))
      else None)"

definition request_mac :: "string \<Rightarrow> string" where
  "request_mac val =
     (let digits = replicate 12 (CHR ''0'') @ List.map_filter format_mac val;
          d = drop (length digits - 12) digits
      in Join [take 2 d, take 2 (drop 2 d), take 2 (drop 4 d), take 2 (drop 6 d),
           take 2 (drop 8 d), take 2 (drop 10 d)] '':'')"

subsection \<open>Loading\<close>

text \<open>The loop that reads a file: what each \<open>Read\<close> returns.\<close>

datatype read_error = No_error | At_EOF | Failing string

fun read_loop :: "(string \<times> read_error) list \<Rightarrow> string \<times> string option \<Rightarrow> string \<times> string option" where
  "read_loop [] acc = acc"
| "read_loop ((chunk, e) # rs) (buf, err) =
     (let buf = buf @ chunk in
      case e of
        At_EOF \<Rightarrow> (buf, err)
      | Failing msg \<Rightarrow> (if chunk = [] then ([], Some msg) else read_loop rs ([], Some msg))
      | No_error \<Rightarrow> (if chunk = [] then (buf, err) else read_loop rs (buf, err)))"

text \<open>
  The computer the server runs on: opening and reading a file, LDAP data for a MAC address
  (None is an error, which is only logged), and hooks with their standard output and error.
\<close>

record tftp_host =
  request_re :: "(regexp \<times> string) list"
  HookEnvironment :: "string list"
  Environ :: "string list"
  system_data :: "string \<Rightarrow> hash option"
  open_file :: "string \<Rightarrow> string + (string \<times> read_error) list"
  run_hook :: "string list \<Rightarrow> string list \<Rightarrow> string \<times> string option"

definition load_file :: "tftp_host \<Rightarrow> string \<Rightarrow> string \<Rightarrow> string \<times> string option" where
  "load_file host fpath buf =
     (case open_file host fpath of
        Inl err \<Rightarrow> (buf, Some err)
      | Inr rs \<Rightarrow> read_loop rs (buf, None))"

definition hook_variable :: "tftp_host \<Rightarrow> string \<times> string option \<Rightarrow> string list" where
  "hook_variable host = (\<lambda>(varname, sub).
     let val = (case sub of None \<Rightarrow> [] | Some v \<Rightarrow> v) in
     if varname = [] then []
     else if varname = ''macaddress'' then
       (case system_data host (request_mac val) of
          None \<Rightarrow> []
        | Some sys \<Rightarrow> map (\<lambda>tag. tag @ ''='' @ Join (get1 tag sys) [char_of (10 :: nat)]) (Subtags sys))
       @ [varname @ ''='' @ request_mac val]
     else [varname @ ''='' @ val])"

definition hook_env :: "tftp_host \<Rightarrow> regexp \<Rightarrow> string option list \<Rightarrow> string \<Rightarrow> string list" where
  "hook_env host re subs request =
     HookEnvironment host @ [''tftp_request='' @ request] @
     concat (map (hook_variable host) (zip (SubexpNames re) subs)) @ Environ host"

text \<open>The hook is split at white space; a command without words is a panic (None).\<close>

definition load_hook ::
  "tftp_host \<Rightarrow> regexp \<Rightarrow> string option list \<Rightarrow> string \<Rightarrow> string \<Rightarrow> string \<times> string option \<Rightarrow>
   (string \<times> string option) option" where
  "load_hook host re subs request hook = (\<lambda>(buf, err).
     if Fields hook = [] then None
     else
       (case run_hook host (Fields hook) (hook_env host re subs request) of
          (out, failure) \<Rightarrow> Some (buf @ out, case failure of None \<Rightarrow> err | Some e \<Rightarrow> Some e)))"

section \<open>The cache\<close>

record cache_entry =
  Data :: string
  LoadCount :: int
  Err :: "string option"
  Afterlifetime :: int

type_synonym cache = "string \<Rightarrow> cache_entry option"

definition getCacheEntry :: "string \<Rightarrow> int \<Rightarrow> cache \<Rightarrow> cache_entry" where
  "getCacheEntry key afterlife entries =
     (case entries key of
        Some entry \<Rightarrow> entry
      | None \<Rightarrow> \<lparr>Data = [], LoadCount = 0, Err = None, Afterlifetime = afterlife\<rparr>)"

text \<open>
  What \<open>getFile\<close> returns: (nil, nil); an entry of the cache, by its key, and its error; the
  entry of its own for a name that no expression matches; or it panics.
\<close>

datatype found = Refused | Cached string "string option" | Not_configured | Hook_panics

definition use_entry :: "string \<Rightarrow> cache_entry \<Rightarrow> cache \<Rightarrow> cache \<times> found" where
  "use_entry key entry entries =
     (entries(key \<mapsto> entry\<lparr>LoadCount := LoadCount entry + 1\<rparr>), Cached key (Err entry))"

definition plain_file :: "tftp_host \<Rightarrow> string \<Rightarrow> cache \<Rightarrow> cache \<times> found" where
  "plain_file host fpath entries =
     (let entry = getCacheEntry fpath 60 entries;
          entry = (if LoadCount entry = 0
                   then (case load_file host fpath (Data entry) of
                           (buf, err) \<Rightarrow> entry\<lparr>Data := buf, Err := err\<rparr>)
                   else entry)
      in use_entry fpath entry entries)"

definition generated_file ::
  "tftp_host \<Rightarrow> regexp \<Rightarrow> string option list \<Rightarrow> string \<Rightarrow> string \<Rightarrow> cache \<Rightarrow> cache \<times> found" where
  "generated_file host re subs request hook entries =
     (let entry = getCacheEntry request 5 entries in
      if LoadCount entry = 0
      then (case load_hook host re subs request hook (Data entry, Err entry) of
              None \<Rightarrow> (entries(request \<mapsto> entry), Hook_panics)
            | Some (buf, err) \<Rightarrow>
                use_entry request (entry\<lparr>Data := buf, Err := err\<rparr>) entries)
      else use_entry request entry entries)"

fun find_file ::
  "tftp_host \<Rightarrow> string \<Rightarrow> (regexp \<times> string) list \<Rightarrow> cache \<Rightarrow> cache \<times> found" where
  "find_file host request [] entries = (entries, Not_configured)"
| "find_file host request ((re, reply) # others) entries =
     (case submatches re request of
        None \<Rightarrow> find_file host request others entries
      | Some subs \<Rightarrow>
          if reply = [] then (entries, Refused)
          else if hd reply \<noteq> CHR ''|''
          then plain_file host (Expand (SubexpNames re) subs reply) entries
          else generated_file host re subs request (tl reply) entries)"

definition getFile :: "tftp_host \<Rightarrow> string \<Rightarrow> cache \<Rightarrow> cache \<times> found" where
  "getFile host request entries = find_file host request (request_re host) entries"

text \<open>
  \<open>Release\<close>: the flag says that it was the last user, so that a goroutine is started that
  calls \<open>expire\<close> when the lifetime after the last use is over.
\<close>

definition Release :: "string \<Rightarrow> cache \<Rightarrow> cache \<times> bool" where
  "Release key entries =
     (case entries key of
        None \<Rightarrow> (entries, False)
      | Some f \<Rightarrow>
          if LoadCount f > 1 then (entries(key \<mapsto> f\<lparr>LoadCount := LoadCount f - 1\<rparr>), False)
          else (entries, True))"

definition expire :: "string \<Rightarrow> cache \<Rightarrow> cache" where
  "expire key entries =
     (case entries key of
        None \<Rightarrow> entries
      | Some f \<Rightarrow>
          (let f = f\<lparr>LoadCount := LoadCount f - 1\<rparr> in
           entries(key \<mapsto> if LoadCount f = 0 then f\<lparr>Data := [], Err := None\<rparr> else f)))"

section \<open>A connection\<close>

text \<open>The replies to a request that is not served.\<close>

datatype answer = Error_reply nat | Transfer string nat "string list" | Panic

text \<open>
  The beginning of \<open>handleConnection\<close>, up to the options. An entry of the cache that was
  obtained is in the second component; it is released when the connection ends.
\<close>

definition answer_request ::
  "tftp_host \<Rightarrow> string \<Rightarrow> cache \<Rightarrow> cache \<times> string option \<times> answer" where
  "answer_request host payload entries =
     (case parse_request payload of
        None \<Rightarrow> (entries, None, Error_reply 4)
      | Some (name, options) \<Rightarrow>
          (case getFile host name entries of
             (entries, Refused) \<Rightarrow> (entries, None, Error_reply 1)
           | (entries, Not_configured) \<Rightarrow> (entries, None, Error_reply 1)
           | (entries, Hook_panics) \<Rightarrow> (entries, None, Panic)
           | (entries, Cached key (Some err)) \<Rightarrow> (entries, Some key, Error_reply 1)
           | (entries, Cached key None) \<Rightarrow>
               (let content = Data (the (entries key));
                    (blocksize, oack) = process_options (length content) options (512, [])
                in (entries, Some key, Transfer content blocksize oack))))"

text \<open>
  The loop that sends the data. For each packet there are the rounds of its
  \<open>sendAndWaitForAck\<close>; the result lists the packets with the number of times each was written.
  The block size is never 0 (\<open>blocksize_positive\<close> below).
\<close>

type_synonym sent = "(string \<times> nat) list"

definition next_rounds :: "round list list \<Rightarrow> round list" where
  "next_rounds convs = (case convs of [] \<Rightarrow> [] | rounds # _ \<Rightarrow> rounds)"

function send_blocks ::
  "nat \<Rightarrow> string \<Rightarrow> nat \<Rightarrow> nat \<Rightarrow> round list list \<Rightarrow> counters \<Rightarrow> sent \<times> waiting \<times> counters" where
  "send_blocks blocksize content start blockid convs c =
     (let sz = min (length content - start) blocksize;
          packet = data_packet blockid (take sz (drop start content))
      in case sendAndWaitForAck packet (next_rounds convs) c of
           (v, n, c, es) \<Rightarrow>
             if v \<noteq> Acknowledged then ([(packet, n)], v, c)
             else if sz < blocksize \<or> blocksize = 0 then ([(packet, n)], v, c)
             else
               (case send_blocks blocksize content (start + sz) (Suc blockid) (tl convs) c of
                  (log, v, c) \<Rightarrow> ((packet, n) # log, v, c)))"
  by pat_completeness auto
termination
  by (relation "measure (\<lambda>(_, content, start, _). length content - start)") auto

declare send_blocks.simps [simp del]

text \<open>The rest of \<open>handleConnection\<close>: the acknowledgement of the options and the data.\<close>

definition transfer ::
  "string \<Rightarrow> nat \<Rightarrow> string list \<Rightarrow> round list list \<Rightarrow> sent \<times> waiting \<times> counters" where
  "transfer content blocksize oack convs =
     (let c = \<lparr>retransmissions = 0, dups = 0, strays = 0\<rparr> in
      if oack = [] then send_blocks blocksize content 0 1 convs c
      else
        (case sendAndWaitForAck (oack_packet oack) (next_rounds convs) c of
           (v, n, c, es) \<Rightarrow>
             if v \<noteq> Acknowledged then ([(oack_packet oack, n)], v, c)
             else
               (case send_blocks blocksize content 0 1 (tl convs) c of
                  (log, v, c) \<Rightarrow> ((oack_packet oack, n) # log, v, c))))"

definition handleConnection ::
  "tftp_host \<Rightarrow> string \<Rightarrow> cache \<Rightarrow> round list list \<Rightarrow> cache \<times> string option \<times> answer \<times> sent \<times> waiting" where
  "handleConnection host payload entries convs =
     (case answer_request host payload entries of
        (entries, key, Transfer content blocksize oack) \<Rightarrow>
          (case transfer content blocksize oack convs of
             (log, v, c) \<Rightarrow> (entries, key, Transfer content blocksize oack, log, v))
      | (entries, key, answer) \<Rightarrow> (entries, key, answer, [], Gave_up))"

section \<open>The client\<close>

text \<open>
  \<open>writeReadUDP\<close>: each attempt is the error of the write, if any; the result of the read, the
  bytes that fit in the buffer and whether they are from the port of the server; and whether
  the time is over after it. A time-out is no error to report.
\<close>

datatype net_error = Net_timeout | Net_error string | Too_short

type_synonym attempt = "net_error option \<times> (net_error + bool \<times> string) \<times> bool"

fun writeReadUDP ::
  "attempt list \<Rightarrow> net_error option \<Rightarrow> nat \<Rightarrow> (net_error + bool \<times> string) option" where
  "writeReadUDP [] special_err room = None"
| "writeReadUDP ((write, reading, over) # attempts) special_err room =
     (let received = (case write of Some e \<Rightarrow> Inl e | None \<Rightarrow>
            (case reading of
               Inl e \<Rightarrow> Inl e
             | Inr (same, packet) \<Rightarrow>
                 if min room (length packet) < 4 then Inl Too_short
                 else Inr (same, take room packet)))
      in case received of
           Inr r \<Rightarrow> Some (Inr r)
         | Inl err \<Rightarrow>
             (let special_err = (if err = Net_timeout then special_err else Some err) in
              if over then Some (Inl (case special_err of Some e \<Rightarrow> e | None \<Rightarrow> err))
              else writeReadUDP attempts special_err room))"

text \<open>
  One round of the loop of \<open>Get\<close> with a packet. \<open>write\<close> is \<open>util.WriteAll\<close> on the writer.
  The buffer has 512 bytes, the block size without the four bytes of the header.
\<close>

datatype 'w get_result = Got 'w | Get_failed string 'w | More 'w nat string

definition get_step ::
  "('w \<Rightarrow> string \<Rightarrow> string + 'w) \<Rightarrow> nat \<Rightarrow> 'w \<Rightarrow> nat \<Rightarrow> string \<Rightarrow> string \<Rightarrow> 'w get_result" where
  "get_step write blocksize w blockid ack packet =
     (if byte_at 0 packet = 0 \<and> byte_at 1 packet = 3 then
        if take 2 (drop 2 packet) \<noteq> block_bytes blockid then
          if take 2 (drop 2 packet) = block_bytes (blockid - 1) then More w blockid ack
          else Get_failed ''TFTP packet with incorrect sequence number'' w
        else
          (case write w (drop 4 packet) of
             Inl err \<Rightarrow> Get_failed err w
           | Inr w \<Rightarrow>
               if length packet < blocksize then Got w
               else More w (Suc blockid) (ack_packet blockid))
      else Get_failed ''Unexpected TFTP packet'' w)"

text \<open>
  The loop, over what the calls of \<open>writeReadUDP\<close> return; with the packets that the calls send,
  and the last acknowledgement. \<open>More\<close> at the end: nothing more is known to arrive.
\<close>

fun get_loop ::
  "('w \<Rightarrow> string \<Rightarrow> string + 'w) \<Rightarrow> nat \<Rightarrow> 'w \<Rightarrow> nat \<Rightarrow> string \<Rightarrow>
   (net_error + bool \<times> string) list \<Rightarrow> 'w get_result \<times> string list" where
  "get_loop write blocksize w blockid ack [] = (More w blockid ack, [])"
| "get_loop write blocksize w blockid ack (Inl err # replies) =
     (Get_failed ''read error'' w, [ack])"
| "get_loop write blocksize w blockid ack (Inr (same, packet) # replies) =
     (if \<not> same
      then (case get_loop write blocksize w blockid ack replies of (r, log) \<Rightarrow> (r, ack # log))
      else
        (case get_step write blocksize w blockid ack packet of
           More w' blockid' ack' \<Rightarrow>
             (case get_loop write blocksize w' blockid' ack' replies of (r, log) \<Rightarrow> (r, ack # log))
         | Got w' \<Rightarrow> (Got w', [ack, ack_packet blockid])
         | Get_failed err w' \<Rightarrow> (Get_failed err w', [ack])))"

definition read_request :: "string \<Rightarrow> string" where
  "read_request path = [char_of (0 :: nat), char_of (1 :: nat)] @ path @ [char_of (0 :: nat)] @
     ''octet'' @ [char_of (0 :: nat)]"

text \<open>\<open>Get\<close> from the first packet on, whose sender becomes the peer.\<close>

definition Get_from ::
  "('w \<Rightarrow> string \<Rightarrow> string + 'w) \<Rightarrow> 'w \<Rightarrow> string \<Rightarrow> (net_error + bool \<times> string) list \<Rightarrow>
   'w get_result \<times> string list" where
  "Get_from write w path replies =
     (case replies of
        [] \<Rightarrow> (More w 1 (ack_packet 0), [])
      | Inl err # _ \<Rightarrow> (Get_failed ''read error'' w, [read_request path])
      | Inr (_, packet) # others \<Rightarrow>
          (case get_loop write 512 w 1 (ack_packet 0) (Inr (True, packet) # others) of
             (r, log) \<Rightarrow> (r, read_request path # tl log)))"

section \<open>The blocks of a file\<close>

lemma byte_at_simps [simp]:
  "byte_at 0 (c # s) = byte c" "byte_at (Suc 0) (c # d # s) = byte d"
  "byte_at 2 (c # d # e # s) = byte e" "byte_at 3 (c # d # e # f # s) = byte f"
  by (simp_all add: byte_at_def eval_nat_numeral)

lemma byte_at_packets [simp]:
  "byte_at (Suc 0) (data_packet k p) = 3" "byte_at 2 (data_packet k p) = k div 256 mod 256"
  "byte_at 3 (data_packet k p) = k mod 256" "byte_at (Suc 0) (oack_packet opts) = 6"
  by (simp_all add: data_packet_def oack_packet_def block_bytes_def byte_def)

text \<open>The specification: the blocks of a file are full, up to a last one that is shorter.\<close>

function blocks :: "nat \<Rightarrow> string \<Rightarrow> string list" where
  "blocks b s = (if length s < b \<or> b = 0 then [s] else take b s # blocks b (drop b s))"
  by pat_completeness auto
termination by (relation "measure (\<lambda>(b, s). length s)") auto

declare blocks.simps [simp del]

fun number_blocks :: "nat \<Rightarrow> string list \<Rightarrow> string list" where
  "number_blocks k [] = []"
| "number_blocks k (p # ps) = data_packet k p # number_blocks (Suc k) ps"

lemma blocks_nonempty [simp]: "blocks b s \<noteq> []"
  by (subst blocks.simps) simp

lemma concat_blocks: "concat (blocks b s) = s"
  by (induction b s rule: blocks.induct) (subst blocks.simps, simp)

lemma blocks_full: "p \<in> set (butlast (blocks b s)) \<Longrightarrow> length p = b"
proof (induction b s rule: blocks.induct)
  case (1 b s)
  show ?case
  proof (cases "length s < b \<or> b = 0")
    case True
    with 1(2) show ?thesis by (subst (asm) blocks.simps) simp
  next
    case False
    with 1 show ?thesis by (subst (asm) (2) blocks.simps) (auto split: if_splits)
  qed
qed

lemma last_block: "0 < b \<Longrightarrow> length (last (blocks b s)) < b"
proof (induction b s rule: blocks.induct)
  case (1 b s)
  then show ?case by (subst blocks.simps) (auto split: if_splits)
qed

lemma length_blocks: "0 < b \<Longrightarrow> length (blocks b s) = length s div b + 1"
proof (induction b s rule: blocks.induct)
  case (1 b s)
  then show ?case by (subst blocks.simps) (auto simp: le_div_geq not_less)
qed

lemma number_blocks_nth: "i < length ps \<Longrightarrow> number_blocks k ps ! i = data_packet (k + i) (ps ! i)"
  by (induction k ps arbitrary: i rule: number_blocks.induct) (auto simp: nth_Cons split: nat.splits)

lemma length_number_blocks [simp]: "length (number_blocks k ps) = length ps"
  by (induction k ps rule: number_blocks.induct) simp_all

text \<open>
  A transfer has sent the first of these packets, and all of them if it ends with an
  acknowledgement.
\<close>

lemma send_blocks_step:
  assumes "0 < b"
  shows "send_blocks b content start k convs c =
    (case sendAndWaitForAck (data_packet k (take b (drop start content))) (next_rounds convs) c of
       (v, n, c, es) \<Rightarrow>
         if v \<noteq> Acknowledged \<or> length (drop start content) < b
         then ([(data_packet k (take b (drop start content)), n)], v, c)
         else
           (case send_blocks b content (start + b) (Suc k) (tl convs) c of
              (log, v, c) \<Rightarrow> ((data_packet k (take b (drop start content)), n) # log, v, c)))"
proof (cases "length (drop start content) < b")
  case True
  with assms show ?thesis
    by (subst send_blocks.simps) (simp add: min_def Let_def split: prod.splits)
next
  case False
  then have "min (length content - start) b = b" by simp
  with False assms show ?thesis
    by (subst send_blocks.simps) (simp add: Let_def split: prod.splits)
qed

lemma send_blocks_sends:
  assumes "send_blocks b content start k convs c = (log, v, c')" and "0 < b"
  shows "prefix (map fst log) (number_blocks k (blocks b (drop start content))) \<and>
    (v = Acknowledged \<longrightarrow> map fst log = number_blocks k (blocks b (drop start content)))"
  using assms(1)
proof (induction "length content - start" arbitrary: start k convs c log v c' rule: less_induct)
  case less
  let ?packet = "data_packet k (take b (drop start content))"
  obtain v1 n1 c1 es where r: "sendAndWaitForAck ?packet (next_rounds convs) c = (v1, n1, c1, es)"
    by (metis prod_cases4)
  show ?case
  proof (cases "length (drop start content) < b")
    case True
    with less.prems r have "map fst log = [?packet]"
      by (auto simp: send_blocks_step [OF assms(2)])
    with True show ?thesis by (subst (1 2) blocks.simps) simp
  next
    case False
    have bl: "blocks b (drop start content) =
        take b (drop start content) # blocks b (drop (start + b) content)"
      using False assms(2) by (subst blocks.simps) (simp add: add.commute)
    show ?thesis
    proof (cases "v1 = Acknowledged")
      case True
      with less.prems r False obtain log2 where
        rec: "send_blocks b content (start + b) (Suc k) (tl convs) c1 = (log2, v, c')" and
        log: "log = (?packet, n1) # log2"
        by (auto simp: send_blocks_step [OF assms(2), of _ start] split: prod.splits)
      from less.hyps [OF _ rec] False assms(2) show ?thesis by (simp add: bl log)
    next
      case False
      with less.prems r show ?thesis
        by (auto simp: send_blocks_step [OF assms(2)] bl)
    qed
  qed
qed

lemma blocksize_bounds:
  "process_options len options (b, oack) = (b', oack') \<Longrightarrow> 0 < b \<Longrightarrow> b \<le> 65536 \<Longrightarrow> 0 < b' \<and> b' \<le> 65536"
  by (induction len options "(b, oack)" arbitrary: b oack rule: process_options.induct)
    (auto simp: Let_def split: if_splits option.splits)


section \<open>Resending\<close>

text \<open>What ends the waiting, and that nothing but a time-out makes a packet be sent again.\<close>

definition acknowledges :: "string \<Rightarrow> string \<Rightarrow> bool" where
  "acknowledges packet sendbuf \<longleftrightarrow> length packet = 4 \<and> byte_at 0 packet = 0 \<and> byte_at 1 packet = 4 \<and>
     (byte_at 1 sendbuf = 3 \<longrightarrow> byte_at 2 packet = byte_at 2 sendbuf \<and> byte_at 3 packet = byte_at 3 sendbuf)"

lemma length_read_into [simp]: "length (read_into buf packet) = length buf"
  by (simp add: read_into_def)

lemma byte_at_read_into: "i < length packet \<Longrightarrow> i < length buf \<Longrightarrow> byte_at i (read_into buf packet) = byte_at i packet"
  by (auto simp: byte_at_def read_into_def nth_append)

lemma read_into_full: "length packet \<le> length buf \<Longrightarrow> read_into buf packet = packet @ drop (length packet) buf"
  by (simp add: read_into_def)

lemma wait_for_ack_ends:
  assumes "wait_for_ack sendbuf rs buf c = (v, buf', c', es)" and "4 < length buf"
  shows "retransmissions c' = retransmissions c \<and> length buf' = length buf \<and>
    (v = Resend \<longrightarrow> Timed_out \<in> set rs) \<and>
    (v = Acknowledged \<longrightarrow> (\<exists>packet. Received True packet \<in> set rs \<and> acknowledges packet sendbuf))"
  using assms
proof (induction sendbuf rs buf c arbitrary: v buf' c' es rule: wait_for_ack.induct)
  case (5 sendbuf from_peer packet rs buf c)
  let ?buf = "read_into buf packet"
  show ?case
  proof (cases "from_peer \<and> judge sendbuf ?buf (min (length packet) (length buf)) \<noteq> None")
    case True
    with 5(3) obtain w where j: "judge sendbuf ?buf (min (length packet) (length buf)) = Some w"
      and w: "v = w" "buf' = ?buf" "c' = c" by (auto simp: Let_def)
    have "acknowledges packet sendbuf" if "w = Acknowledged"
    proof -
      from j that 5(4) have four: "length packet = 4"
        by (auto simp: judge_def split: if_splits)
      then have "byte_at i ?buf = byte_at i packet" if "i < 4" for i
        using that 5(4) by (intro byte_at_read_into) simp_all
      from this [of 0] this [of 1] this [of 2] this [of 3] j that four show ?thesis
        by (auto simp: judge_def acknowledges_def split: if_splits)
    qed
    moreover have "w \<noteq> Resend" using j by (auto simp: judge_def split: if_splits)
    ultimately show ?thesis using w True by auto
  next
    case False
    then consider "\<not> from_peer" | "from_peer" "judge sendbuf ?buf (min (length packet) (length buf)) = None"
      by blast
    then show ?thesis
    proof cases
      case 1
      with 5(3) obtain es1 where
        "wait_for_ack sendbuf rs ?buf (c\<lparr>strays := strays c + 1\<rparr>) = (v, buf', c', es1)"
        by (auto simp: Let_def split: prod.splits)
      from 5(1) [OF refl refl 1 this] 5(4) show ?thesis by auto
    next
      case 2
      with 5(3) have
        "wait_for_ack sendbuf rs ?buf (c\<lparr>dups := dups c + 1\<rparr>) = (v, buf', c', es)"
        by (simp add: Let_def)
      from 5(2) [OF refl refl _ 2(2) this] 2 5(4) show ?thesis by auto
    qed
  qed
qed auto

lemma send_rounds_ends:
  assumes "send_rounds sendbuf rounds buf c = (v, n, c', es)" and "4 < length buf"
  shows "n \<le> length rounds \<and> (\<forall>j. Suc j < n \<longrightarrow> Timed_out \<in> set (snd (rounds ! j))) \<and>
    (v = Acknowledged \<longrightarrow> 0 < n \<and> retransmissions c' = retransmissions c + int n \<and>
      (\<exists>packet. Received True packet \<in> set (snd (rounds ! (n - 1))) \<and> acknowledges packet sendbuf))"
  using assms
proof (induction sendbuf rounds buf c arbitrary: v n c' es rule: send_rounds.induct)
  case (2 sendbuf written rs rounds buf c)
  let ?c = "c\<lparr>retransmissions := retransmissions c + 1\<rparr>"
  show ?case
  proof (cases written)
    case False
    with 2(2) show ?thesis by auto
  next
    case True
    obtain v1 buf1 c1 es1 where w: "wait_for_ack sendbuf rs buf ?c = (v1, buf1, c1, es1)"
      by (metis prod_cases4)
    note waited = wait_for_ack_ends [OF w 2(3)]
    show ?thesis
    proof (cases "v1 = Resend")
      case False
      with 2(2) True w have "(v, n, c', es) = (v1, 1, c1, es1)"
        by (cases v1) simp_all
      with waited show ?thesis by simp
    next
      case resend: True
      with 2(2) True w obtain m es2 where
        rest: "send_rounds sendbuf rounds buf1 c1 = (v, m, c', es2)" and n: "n = Suc m"
        by (auto split: prod.splits)
      have "4 < length buf1" using waited 2(3) by simp
      note ih = 2(1) [OF refl _ w [symmetric] resend refl refl rest this]
      with n waited resend True show ?thesis
        by (auto simp: nth_Cons split: nat.splits)
    qed
  qed
qed auto

text \<open>No duplicate makes the server send a packet twice (the sorcerer's apprentice). Each
  time a packet is written again the wait before it has timed out; when the call succeeds the
  packet was written once plus the number of retransmissions counted, and the peer has sent an
  acknowledgement, for DATA one with the number of the block.\<close>

theorem resent_only_after_timeout:
  assumes "sendAndWaitForAck sendbuf rounds c = (v, n, c', es)"
  shows "(\<forall>j. Suc j < n \<longrightarrow> Timed_out \<in> set (snd (rounds ! j))) \<and>
    (v = Acknowledged \<longrightarrow> int n = 1 + (retransmissions c' - retransmissions c) \<and>
      (\<exists>packet. Received True packet \<in> set (snd (rounds ! (n - 1))) \<and> length packet = 4 \<and>
         byte_at 1 packet = 4 \<and>
         (byte_at 1 sendbuf = 3 \<longrightarrow>
           byte_at 2 packet = byte_at 2 sendbuf \<and> byte_at 3 packet = byte_at 3 sendbuf)))"
  using send_rounds_ends [OF assms [unfolded sendAndWaitForAck_def]]
  by (auto simp: acknowledges_def)

text \<open>A first wait that times out, a duplicate of an older acknowledgement, and the right one.\<close>

theorem resent_only_after_timeout_witness:
  "sendAndWaitForAck (data_packet 2 ''abc'')
     [(True, [Timed_out]), (True, [Received True (ack_packet 1), Received True (ack_packet 2)])]
     \<lparr>retransmissions = 5, dups = 0, strays = 0\<rparr> =
     (Acknowledged, 2, \<lparr>retransmissions = 6, dups = 1, strays = 0\<rparr>, []) \<and>
   Timed_out \<in> set (snd ([(True, [Timed_out]),
      (True, [Received True (ack_packet 1), Received True (ack_packet 2)])] ! 0))"
proof -
  have r: "sendAndWaitForAck (data_packet 2 ''abc'')
     [(True, [Timed_out]), (True, [Received True (ack_packet 1), Received True (ack_packet 2)])]
     \<lparr>retransmissions = 5, dups = 0, strays = 0\<rparr> =
     (Acknowledged, 2, \<lparr>retransmissions = 6, dups = 1, strays = 0\<rparr>, [])"
    by (simp add: sendAndWaitForAck_def read_into_def judge_def data_packet_def ack_packet_def
        block_bytes_def byte_def)
  from resent_only_after_timeout [OF r, THEN conjunct1, rule_format, of 0]
  have "Timed_out \<in> set (snd ([(True, [Timed_out]),
      (True, [Received True (ack_packet 1), Received True (ack_packet 2)])] ! 0))"
    by simp
  with r show ?thesis by blast
qed

text \<open>An ERROR packet of two or three bytes stops the connection by a panic: the code reports
  its text with a slice from byte 4 to the length of the packet.\<close>

theorem short_error_packet_panics:
  assumes "length packet = 2 \<or> length packet = 3"
    and "byte_at 0 packet = 0" and "byte_at 1 packet = 5"
  shows "sendAndWaitForAck sendbuf ((True, Received True packet # rs) # rounds) c =
    (Crashed, 1, c, [])"
proof -
  let ?buf = "read_into (replicate 4096 (char_of (0 :: nat))) packet"
  have "byte_at 0 ?buf = 0" "byte_at 1 ?buf = 5"
    using assms by (subst byte_at_read_into; auto)+
  with assms(1) show ?thesis
    by (auto simp: sendAndWaitForAck_def judge_def)
qed

theorem short_error_packet_panics_witness:
  "sendAndWaitForAck (data_packet 1 ''x'')
     [(True, [Received True [char_of (0 :: nat), char_of (5 :: nat)]])]
     \<lparr>retransmissions = 0, dups = 0, strays = 0\<rparr> =
   (Crashed, 1, \<lparr>retransmissions = 0, dups = 0, strays = 0\<rparr>, [])"
  by (rule short_error_packet_panics) simp_all

section \<open>The cache under concurrent use\<close>

text \<open>
  The cache with the connections that use an entry (once per entry they hold) and the
  goroutines that wait for the end of the lifetime of an entry. A step is one of the critical
  sections of the code; in each step the computer may be in another state.
\<close>

record cache_state =
  cached :: cache
  cache_users :: "string list"
  cache_timers :: "string list"

inductive cache_step :: "cache_state \<Rightarrow> cache_state \<Rightarrow> bool" where
  serve: "getFile host request (cached st) = (es, Cached key err) \<Longrightarrow>
    cache_step st (st\<lparr>cached := es, cache_users := key # cache_users st\<rparr>)"
| refuse: "getFile host request (cached st) = (es, r) \<Longrightarrow> \<forall>key err. r \<noteq> Cached key err \<Longrightarrow>
    cache_step st (st\<lparr>cached := es\<rparr>)"
| release: "key \<in> set (cache_users st) \<Longrightarrow> Release key (cached st) = (es, over) \<Longrightarrow>
    cache_step st (st\<lparr>cached := es, cache_users := remove1 key (cache_users st),
      cache_timers := (if over then key # cache_timers st else cache_timers st)\<rparr>)"
| timer: "key \<in> set (cache_timers st) \<Longrightarrow>
    cache_step st (st\<lparr>cached := expire key (cached st), cache_timers := remove1 key (cache_timers st)\<rparr>)"

inductive cache_reachable :: "cache_state \<Rightarrow> bool" where
  start: "cache_reachable \<lparr>cached = Map.empty, cache_users = [], cache_timers = []\<rparr>"
| step: "cache_reachable st \<Longrightarrow> cache_step st st' \<Longrightarrow> cache_reachable st'"

definition entry_ok :: "cache_state \<Rightarrow> string \<Rightarrow> bool" where
  "entry_ok st key \<longleftrightarrow>
     (case cached st key of
        None \<Rightarrow> key \<notin> set (cache_users st) \<and> key \<notin> set (cache_timers st)
      | Some f \<Rightarrow> LoadCount f = int (count_list (cache_users st) key + count_list (cache_timers st) key) \<and>
          (LoadCount f = 0 \<longrightarrow> Data f = [] \<and> Err f = None))"

text \<open>What \<open>getFile\<close> does to the cache: it enters the first use of a key, or one more use.\<close>

definition used_once_more :: "cache \<Rightarrow> string \<Rightarrow> cache_entry \<Rightarrow> bool" where
  "used_once_more es key e \<longleftrightarrow>
     (case es key of
        None \<Rightarrow> LoadCount e = 1
      | Some f \<Rightarrow> LoadCount e = LoadCount f + 1 \<and>
          (LoadCount f \<noteq> 0 \<longrightarrow> Data e = Data f \<and> Err e = Err f))"

definition kept_entry :: "cache \<Rightarrow> string \<Rightarrow> cache_entry \<Rightarrow> bool" where
  "kept_entry es key e \<longleftrightarrow>
     (case es key of
        None \<Rightarrow> LoadCount e = 0
      | Some f \<Rightarrow> LoadCount e = LoadCount f \<and>
          (LoadCount f \<noteq> 0 \<longrightarrow> Data e = Data f \<and> Err e = Err f))"

lemma use_entry_effect:
  assumes "use_entry key e es = (es', r)" and "kept_entry es key e"
  shows "\<exists>e'. r = Cached key (Err e') \<and> es' = es(key \<mapsto> e') \<and> used_once_more es key e'"
  using assms
  by (intro exI [of _ "e\<lparr>LoadCount := LoadCount e + 1\<rparr>"])
    (auto simp: use_entry_def kept_entry_def used_once_more_def split: option.splits)

lemma kept_loaded:
  "kept_entry es key (getCacheEntry key life es)"
  "LoadCount (getCacheEntry key life es) = 0 \<Longrightarrow>
    kept_entry es key ((getCacheEntry key life es)\<lparr>Data := buf, Err := err\<rparr>)"
  by (auto simp: kept_entry_def getCacheEntry_def split: option.splits)

lemma find_file_effect:
  "find_file host request res es = (es', r) \<Longrightarrow>
    (\<exists>key e. r = Cached key (Err e) \<and> es' = es(key \<mapsto> e) \<and> used_once_more es key e) \<or>
    (\<forall>key err. r \<noteq> Cached key err) \<and>
    (es' = es \<or> (\<exists>key life. es key = None \<and>
       es' = es(key \<mapsto> \<lparr>Data = [], LoadCount = 0, Err = None, Afterlifetime = life\<rparr>)))"
proof (induction host request res es rule: find_file.induct)
  case (2 host request re reply others es)
  note found = 2(2)
  show ?case
  proof (cases "submatches re request")
    case None
    with 2 show ?thesis by simp
  next
    case (Some subs)
    show ?thesis
    proof (cases "reply = []")
      case True
      with found Some show ?thesis by simp
    next
      case False
      let ?fpath = "Expand (SubexpNames re) subs reply"
      let ?hook = "load_hook host re subs request (tl reply)
        (Data (getCacheEntry request 5 es), Err (getCacheEntry request 5 es))"
      from False found Some consider
          e where "use_entry ?fpath e es = (es', r)" "kept_entry es ?fpath e"
        | e where "use_entry request e es = (es', r)" "kept_entry es request e"
        | "r = Hook_panics" "es' = es(request \<mapsto> getCacheEntry request 5 es)"
            "LoadCount (getCacheEntry request 5 es) = 0"
        using kept_loaded
        by (fastforce simp: plain_file_def generated_file_def Let_def
            split: if_splits option.splits prod.splits)
      then show ?thesis
      proof cases
        case 3
        then show ?thesis by (cases "es request") (auto simp: getCacheEntry_def)
      qed (blast dest: use_entry_effect)+
    qed
  qed
qed simp

lemma getFile_serves:
  "getFile host request es = (es', Cached key err) \<Longrightarrow>
    \<exists>e. es' = es(key \<mapsto> e) \<and> used_once_more es key e"
  using find_file_effect [of host request "request_re host" es es' "Cached key err"]
  by (auto simp: getFile_def)

lemma getFile_refuses:
  "getFile host request es = (es', r) \<Longrightarrow> \<forall>key err. r \<noteq> Cached key err \<Longrightarrow>
    es' = es \<or> (\<exists>key life. es key = None \<and>
      es' = es(key \<mapsto> \<lparr>Data = [], LoadCount = 0, Err = None, Afterlifetime = life\<rparr>))"
  using find_file_effect [of host request "request_re host" es es' r]
  unfolding getFile_def by blast

lemma count_list_remove1: "count_list (remove1 x xs) y = count_list xs y - (if x = y then 1 else 0)"
  by (induction xs) auto

lemma count_list_pos: "x \<in> set xs \<Longrightarrow> 0 < count_list xs x"
  by (simp add: count_list_0_iff zero_less_iff_neq_zero)

lemma entry_ok_serve:
  assumes "used_once_more (cached st) key e" and "entry_ok st k"
  shows "entry_ok (st\<lparr>cached := (cached st)(key \<mapsto> e), cache_users := key # cache_users st\<rparr>) k"
  using assms by (auto simp: entry_ok_def used_once_more_def count_list_0_iff split: option.splits)

lemma entry_ok_release:
  assumes "key \<in> set (cache_users st)" and "Release key (cached st) = (es, over)" and "entry_ok st key" "entry_ok st k"
  shows "entry_ok (st\<lparr>cached := es, cache_users := remove1 key (cache_users st),
      cache_timers := (if over then key # cache_timers st else cache_timers st)\<rparr>) k"
proof -
  from assms(1,3) obtain f where f: "cached st key = Some f"
    by (auto simp: entry_ok_def split: option.splits)
  show ?thesis
  proof (cases "k = key")
    case True
    with assms f count_list_pos [OF assms(1)] show ?thesis
      by (auto simp: entry_ok_def Release_def count_list_remove1 split: if_splits)
  next
    case False
    with assms f show ?thesis
      by (auto simp: entry_ok_def Release_def count_list_remove1 in_set_remove1 split: if_splits option.splits
          dest: notin_set_remove1)
  qed
qed

lemma entry_ok_timer:
  assumes "key \<in> set (cache_timers st)" and "entry_ok st key" "entry_ok st k"
  shows "entry_ok (st\<lparr>cached := expire key (cached st), cache_timers := remove1 key (cache_timers st)\<rparr>) k"
proof -
  from assms(1,2) obtain f where f: "cached st key = Some f"
    by (auto simp: entry_ok_def split: option.splits)
  show ?thesis
  proof (cases "k = key")
    case True
    with assms f count_list_pos [OF assms(1)] show ?thesis
      by (auto simp: entry_ok_def expire_def Let_def count_list_remove1)
  next
    case False
    with assms f show ?thesis
      by (auto simp: entry_ok_def expire_def Let_def count_list_remove1 split: option.splits dest: notin_set_remove1)
  qed
qed

lemma cache_step_ok:
  assumes "cache_step st st'" and ok: "\<And>k. entry_ok st k"
  shows "entry_ok st' k"
  using assms(1)
proof cases
  case (serve host request es key err)
  then obtain e where "es = (cached st)(key \<mapsto> e)" "used_once_more (cached st) key e"
    by (blast dest: getFile_serves)
  with serve ok entry_ok_serve show ?thesis by simp
next
  case (refuse host request es r)
  then have "es = cached st \<or> (\<exists>key life. cached st key = None \<and>
       es = (cached st)(key \<mapsto> \<lparr>Data = [], LoadCount = 0, Err = None, Afterlifetime = life\<rparr>))"
    by (blast dest: getFile_refuses)
  with refuse(1) ok [of k] show ?thesis
    by (auto simp: entry_ok_def count_list_0_iff split: option.splits if_splits)
next
  case (release key es over)
  with ok entry_ok_release show ?thesis by blast
next
  case (timer key)
  with ok entry_ok_timer show ?thesis by blast
qed

lemma cache_ok: "cache_reachable st \<Longrightarrow> entry_ok st k"
proof (induction arbitrary: k rule: cache_reachable.induct)
  case start
  show ?case by (simp add: entry_ok_def)
next
  case (step st st')
  then show ?case using cache_step_ok by blast
qed

text \<open>C15: Data that a connection uses is not taken away. In every state the cache can get into
  with any number of connections, the use count of an entry is the number of connections that
  hold it and of the pending cache_timers; an entry whose count is 0 is empty, so that the next
  load starts afresh; and no step changes the data of an entry in use that stays in use.\<close>

theorem cached_data_in_use_is_kept:
  assumes "cache_reachable st" and "key \<in> set (cache_users st)"
    and "cache_step st st'" and "key \<in> set (cache_users st')"
  shows "\<exists>f f'. cached st key = Some f \<and> cached st' key = Some f' \<and>
    Data f' = Data f \<and> Err f' = Err f \<and>
    LoadCount f = int (count_list (cache_users st) key + count_list (cache_timers st) key) \<and>
    (\<forall>k g. cached st k = Some g \<and> LoadCount g = 0 \<longrightarrow> Data g = [] \<and> Err g = None)"
proof -
  have ok: "entry_ok st k" for k using assms(1) by (rule cache_ok)
  then have empty: "\<forall>k g. cached st k = Some g \<and> LoadCount g = 0 \<longrightarrow> Data g = [] \<and> Err g = None"
    by (force simp: entry_ok_def split: option.splits)
  from ok [of key] assms(2) obtain f where f: "cached st key = Some f"
    and n: "LoadCount f = int (count_list (cache_users st) key + count_list (cache_timers st) key)"
    by (auto simp: entry_ok_def split: option.splits)
  have pos: "LoadCount f \<noteq> 0" using n count_list_pos [OF assms(2)] by simp
  have "\<exists>f'. cached st' key = Some f' \<and> Data f' = Data f \<and> Err f' = Err f"
    using assms(3)
  proof (cases rule: cache_step.cases)
    case (serve host request es k err)
    then obtain e where "es = (cached st)(k \<mapsto> e)" "used_once_more (cached st) k e"
      by (blast dest: getFile_serves)
    with serve f pos show ?thesis by (auto simp: used_once_more_def)
  next
    case (refuse host request es r)
    then have "es = cached st \<or> (\<exists>k life. cached st k = None \<and>
         es = (cached st)(k \<mapsto> \<lparr>Data = [], LoadCount = 0, Err = None, Afterlifetime = life\<rparr>))"
      by (blast dest: getFile_refuses)
    with refuse(1) f show ?thesis by auto
  next
    case (release k es over)
    with f show ?thesis by (auto simp: Release_def split: option.splits if_splits)
  next
    case (timer k)
    have "1 < LoadCount f" if "k = key"
      using n that timer(2) count_list_pos [OF assms(2)] count_list_pos [of k "cache_timers st"] by simp
    with timer(1) f show ?thesis by (auto simp: expire_def Let_def split: option.splits)
  qed
  with f n empty show ?thesis by blast
qed

text \<open>Two connections read the same file; the first one is done.\<close>

definition one_file_host :: tftp_host where
  "one_file_host = \<lparr>request_re = [(\<lparr>submatches = (\<lambda>s. Some [Some s]), SubexpNames = [[]]\<rparr>, ''/srv/$0'')],
     HookEnvironment = [], Environ = [], system_data = (\<lambda>mac. None),
     open_file = (\<lambda>path. Inr [(''boot'', No_error), ([], At_EOF)]), run_hook = (\<lambda>cmd env. ([], None))\<rparr>"

lemma one_file_served:
  "getFile one_file_host ''x'' Map.empty =
    ([''/srv/x'' \<mapsto> \<lparr>Data = ''boot'', LoadCount = 1, Err = None, Afterlifetime = 60\<rparr>], Cached ''/srv/x'' None)"
  "getFile one_file_host ''x'' [''/srv/x'' \<mapsto> \<lparr>Data = ''boot'', LoadCount = 1, Err = None, Afterlifetime = 60\<rparr>] =
    ([''/srv/x'' \<mapsto> \<lparr>Data = ''boot'', LoadCount = 2, Err = None, Afterlifetime = 60\<rparr>], Cached ''/srv/x'' None)"
  by (simp_all add: getFile_def one_file_host_def plain_file_def use_entry_def getCacheEntry_def
      load_file_def Expand.simps extract_name_def submatch_value_def is_word_def is_digit_def byte_def
      lower_char_def)

theorem cached_data_in_use_is_kept_witness:
  "\<exists>st st' f f'. cache_reachable st \<and> cache_step st st' \<and> cache_users st' = [''/srv/x''] \<and>
    cached st ''/srv/x'' = Some f \<and> cached st' ''/srv/x'' = Some f' \<and> Data f' = Data f \<and> Data f = ''boot''"
proof -
  let ?e = "\<lambda>n. [''/srv/x'' \<mapsto> \<lparr>Data = ''boot'', LoadCount = n, Err = None, Afterlifetime = 60\<rparr>]"
  let ?s1 = "\<lparr>cached = ?e 1, cache_users = [''/srv/x''], cache_timers = []\<rparr>"
  let ?s2 = "\<lparr>cached = ?e 2, cache_users = [''/srv/x'', ''/srv/x''], cache_timers = []\<rparr>"
  let ?s3 = "\<lparr>cached = ?e 1, cache_users = [''/srv/x''], cache_timers = []\<rparr>"
  have "cache_reachable ?s1"
    using cache_reachable.step [OF cache_reachable.start serve] one_file_served(1) by fastforce
  then have reachable: "cache_reachable ?s2"
    using serve [of one_file_host "''x''" ?s1] one_file_served(2) by (fastforce intro: cache_reachable.step)
  have step: "cache_step ?s2 ?s3"
    using release [of "''/srv/x''" ?s2 "?e 1" False] by (simp add: Release_def)
  from cached_data_in_use_is_kept [OF reachable _ step, of "''/srv/x''"]
  have "\<exists>f f'. cached ?s2 ''/srv/x'' = Some f \<and> cached ?s3 ''/srv/x'' = Some f' \<and> Data f' = Data f"
    by auto
  then have "cache_reachable ?s2 \<and> cache_step ?s2 ?s3 \<and> cache_users ?s3 = [''/srv/x''] \<and>
    cached ?s2 ''/srv/x'' = Some \<lparr>Data = ''boot'', LoadCount = 2, Err = None, Afterlifetime = 60\<rparr> \<and>
    cached ?s3 ''/srv/x'' = Some \<lparr>Data = ''boot'', LoadCount = 1, Err = None, Afterlifetime = 60\<rparr>"
    using reachable step by simp
  then show ?thesis
    by (intro exI [of _ ?s2] exI [of _ ?s3]
        exI [of _ "\<lparr>Data = ''boot'', LoadCount = 2, Err = None, Afterlifetime = 60\<rparr>"]
        exI [of _ "\<lparr>Data = ''boot'', LoadCount = 1, Err = None, Afterlifetime = 60\<rparr>"]) simp
qed

section \<open>The client against the server\<close>

lemma length_block_bytes [simp]: "length (block_bytes k) = 2"
  by (simp add: block_bytes_def)

lemma take_data_packet: "take 512 (data_packet k p) = data_packet k (take 508 p)"
  by (simp add: data_packet_def block_bytes_def)

lemma get_step_data:
  "get_step (\<lambda>w s. Inr (w @ s)) 512 w k ack (data_packet k p) =
    (if length p < 508 then Got (w @ p) else More (w @ p) (Suc k) (ack_packet k))"
  by (simp add: get_step_def data_packet_def block_bytes_def byte_def)

text \<open>What the client gets to see of the server's packets, each of which arrives once.\<close>

definition datagrams :: "string list \<Rightarrow> (net_error + bool \<times> string) list" where
  "datagrams packets = map (\<lambda>p. Inr (True, take 512 p)) packets"

lemma get_loop_blocks:
  assumes "\<forall>p \<in> set (butlast ps). length p = 512" and "ps \<noteq> []"
  shows "fst (get_loop (\<lambda>w s. Inr (w @ s)) 512 w k ack (datagrams (number_blocks k ps))) =
    (if length (last ps) < 508 then Got (w @ concat (map (take 508) ps))
     else More (w @ concat (map (take 508) ps)) (k + length ps) (ack_packet (k + length ps - 1)))"
  using assms
proof (induction ps arbitrary: w k ack)
  case (Cons p ps)
  show ?case
  proof (cases "ps = []")
    case True
    then show ?thesis by (simp add: datagrams_def take_data_packet get_step_data)
  next
    case False
    with Cons.prems have "length p = 512" by simp
    then show ?thesis
      using Cons.IH [of "w @ take 508 p" "Suc k" "ack_packet k"] Cons.prems False
      by (simp add: datagrams_def take_data_packet get_step_data case_prod_unfold)
  qed
qed simp

lemma blocks_one: "length s < b \<Longrightarrow> blocks b s = [s]"
  by (subst blocks.simps) simp

lemma truncated_blocks_shorter:
  "length (concat (map (take 508) (blocks 512 s))) \<le> length s"
  "512 \<le> length s \<Longrightarrow> length (concat (map (take 508) (blocks 512 s))) < length s"
proof -
  show "length (concat (map (take 508) (blocks 512 s))) \<le> length s" for s :: string
  proof (induction "512 :: nat" s rule: blocks.induct)
    case (1 s)
    then show ?case by (subst blocks.simps) (auto simp: not_less)
  qed
  from this [of "drop 512 s"]
  show "512 \<le> length s \<Longrightarrow> length (concat (map (take 508) (blocks 512 s))) < length s"
    by (subst blocks.simps) simp
qed

text \<open>The client loses data. If the packets of the server for a file arrive, each once and in
  order, \<open>Get\<close> ends with the file exactly when the file is shorter than 508 bytes: its buffer
  is four bytes too small for a full DATA packet, so that the last four bytes of every full
  block are cut off, and the end of a file whose last block has 508 to 511 bytes is not
  recognised.\<close>

theorem client_gets_only_short_files:
  "(fst (Get_from (\<lambda>w s. Inr (w @ s)) [] path
      (datagrams (number_blocks 1 (blocks 512 content)))) = Got content) \<longleftrightarrow> length content < 508"
  (is "fst ?run = Got content \<longleftrightarrow> _")
proof -
  let ?got = "concat (map (take 508) (blocks 512 content))"
  have start: "Get_from (\<lambda>w s. Inr (w @ s)) [] path (datagrams ds) =
      (case get_loop (\<lambda>w s. Inr (w @ s)) 512 [] 1 (ack_packet 0) (datagrams ds) of
         (r, log) \<Rightarrow> (r, read_request path # tl log))" if "ds \<noteq> []" for ds
    using that by (cases ds) (simp_all add: Get_from_def datagrams_def split: prod.splits)
  have "number_blocks 1 (blocks 512 content) \<noteq> []"
    using length_number_blocks [of 1 "blocks 512 content"] by (metis blocks_nonempty length_0_conv)
  then have run: "fst ?run = (if length (last (blocks 512 content)) < 508 then Got ?got
     else More ?got (1 + length (blocks 512 content)) (ack_packet (length (blocks 512 content))))"
    using get_loop_blocks [of "blocks 512 content" "[]" 1 "ack_packet 0"] blocks_full
    by (simp add: start case_prod_unfold)
  show ?thesis
  proof (cases "length content < 512")
    case True
    then have "last (blocks 512 content) = content" "?got = take 508 content"
      by (simp_all add: blocks_one)
    then show ?thesis unfolding run by auto
  next
    case False
    then have "?got \<noteq> content" using truncated_blocks_shorter(2) [of content] by auto
    with False show ?thesis unfolding run by simp
  qed
qed


text \<open>How a datagram gets to the client: what does not fit in its buffer is lost.\<close>

lemma received_datagram:
  "4 \<le> length packet \<Longrightarrow>
    writeReadUDP ((None, Inr (True, packet), over) # attempts) err 512 =
      Some (hd (datagrams [packet]))"
  by (simp add: datagrams_def min_def)

section \<open>The MAC address given to hooks\<close>

abbreviation mac_digits :: "(char \<times> char) list" where
  "mac_digits \<equiv> [(CHR ''0'', CHR ''9''), (CHR ''a'', CHR ''f'')]"

lemma byte_letters [simp]:
  "byte (CHR ''a'') = 97" "byte (CHR ''f'') = 102" "byte (CHR ''A'') = 65" "byte (CHR ''F'') = 70"
  by (simp_all add: byte_def)

lemma char_le_byte: "c \<le> d \<longleftrightarrow> byte c \<le> byte d"
  by (metis byte_less_iff not_less)

lemma format_mac_hex: "format_mac r = Some c \<Longrightarrow> in_class mac_digits c"
  by (auto simp: format_mac_def in_class_def char_le_byte split: if_splits)

lemma request_mac_digits:
  obtains d where "length d = 12" and "list_all (in_class mac_digits) d"
    and "request_mac val = Join [take 2 d, take 2 (drop 2 d), take 2 (drop 4 d), take 2 (drop 6 d),
           take 2 (drop 8 d), take 2 (drop 10 d)] '':''"
proof -
  let ?digits = "replicate 12 (CHR ''0'') @ List.map_filter format_mac val"
  have "in_class mac_digits (CHR ''0'')" by (simp add: in_class_def)
  then have "list_all (in_class mac_digits) ?digits"
    using format_mac_hex by (fastforce simp: list_all_iff List.map_filter_def)
  then have d: "list_all (in_class mac_digits) (drop (length ?digits - 12) ?digits)"
    unfolding list_all_iff using in_set_dropD by fast
  have "length (drop (length ?digits - 12) ?digits) = 12"
    unfolding length_drop length_append length_replicate by linarith
  note that [OF this d]
  then show thesis unfolding request_mac_def Let_def by blast
qed

lemma twelve:
  assumes "length d = 12"
  obtains a b c e f g h i j k l m where "d = [a, b, c, e, f, g, h, i, j, k, l, m]"
  using assms by (auto simp: length_Suc_conv eval_nat_numeral)

text \<open>Whatever a request contains, the MAC address that is given to the hook and looked up in
  LDAP is well-formed: it matches the expression for MAC addresses of the messages.\<close>

theorem request_mac_is_a_mac: "matches_whole macAddressRegexp (request_mac val)"
proof -
  obtain d where len: "length d = 12" and digits: "list_all (in_class mac_digits) d"
    and mac: "request_mac val = Join [take 2 d, take 2 (drop 2 d), take 2 (drop 4 d), take 2 (drop 6 d),
           take 2 (drop 8 d), take 2 (drop 10 d)] '':''"
    by (rule request_mac_digits)
  have hex: "in_class [(CHR ''0'', CHR ''9''), (CHR ''A'', CHR ''F''), (CHR ''a'', CHR ''f'')] x"
    if "in_class mac_digits x" for x
    using that by (auto simp: in_class_def)
  from len obtain a b c e f g h i j k l m where d: "d = [a, b, c, e, f, g, h, i, j, k, l, m]"
    by (rule twelve)
  have two: "exactly 2 r = Cat r (Cat r Nothing)" "exactly 5 r = Cat r (Cat r (Cat r (Cat r (Cat r Nothing))))" for r
    by (simp_all add: eval_nat_numeral)
  have colon: "in_class [(CHR '':'', CHR '':'')] (CHR '':'')" by (simp add: in_class_def)
  show ?thesis
    unfolding matches_whole_def macAddressRegexp_def hex_digit_def char_class_def mac d two
    using digits d by (simp add: hex colon)
qed

end
