(* ===== verification/Access.thy ===== *)
theory Access
  imports GoStrings
begin

text \<open>
  What a connection may do, go-susi/security/context.go: the defaults for connections with and
  without TLS, the extensions of a certificate that change them, and the checks of the
  addresses and names of both ends.

  The bytes of an extension are numbers below 256. The header of a DER value, BIT STRING and
  INTEGER are read as Go's encoding/asn1 reads them; the handshake, the signature check against
  a CA, the decoding of a sequence of strings and the name service are arguments.
\<close>

section \<open>The security context\<close>

type_synonym bytes = "nat list"
type_synonym ip = "nat list"

record subject_alt_name =
  peer_IP :: ip
  AllowedIPs :: "ip list"
  AllowedNames :: "string list"

record connection_limits =
  TotalTime :: int
  TotalBytes :: int
  MessageBytes :: int
  ConnPerHour :: int
  ConnParallel :: int
  MaxLogFiles :: int
  MaxAnswers :: int
  CommunicateWith :: "string list"

record access_misc = Misc_Debug :: bool Misc_Wake :: bool Misc_Peer :: bool

record access_query = Query_QueryAll :: bool Query_QueryJobs :: bool

record access_jobs =
  Jobs_JobsAll :: bool
  Jobs_Lock :: bool
  Jobs_Unlock :: bool
  Jobs_Shutdown :: bool
  Jobs_Wake :: bool
  Jobs_Abort :: bool
  Jobs_Install :: bool
  Jobs_Update :: bool
  Jobs_ModifyJobs :: bool
  Jobs_NewSys :: bool
  Jobs_UserMsg :: bool
  Jobs_Audit :: bool

record access_ldap_update = Upd_CN :: bool Upd_IP :: bool Upd_MAC :: bool Upd_DH :: bool

record access_detected_hw =
  Hw_Unprompted :: bool
  Hw_Template :: bool
  Hw_DN :: bool
  Hw_CN :: bool
  Hw_IPHostNumber :: bool
  Hw_MACAddress :: bool

record access_control =
  MiscRights :: access_misc
  QueryRights :: access_query
  JobRights :: access_jobs
  Incoming :: "string list"
  LDAPUpdate :: access_ldap_update
  DetectedHW :: access_detected_hw

record security_context =
  TLS :: bool
  PeerID :: subject_alt_name
  Limits :: connection_limits
  Access :: access_control

text \<open>What the checks use of the configuration; \<open>own_ip\<close> is \<open>net.ParseIP(config.IP)\<close>.\<close>

record site =
  own_ip :: ip
  own_ip_text :: string
  Hostname :: string
  Domain :: string
  site_address :: string
  incoming_uri :: string
  server_ips :: "ip list"
  server_names :: "string list"
  srv_names :: "string list"

text \<open>The value that \<open>var context Context\<close> declares.\<close>

definition no_misc :: access_misc where
  "no_misc = \<lparr>Misc_Debug = False, Misc_Wake = False, Misc_Peer = False\<rparr>"

definition no_query :: access_query where
  "no_query = \<lparr>Query_QueryAll = False, Query_QueryJobs = False\<rparr>"

definition no_jobs :: access_jobs where
  "no_jobs = \<lparr>Jobs_JobsAll = False, Jobs_Lock = False, Jobs_Unlock = False, Jobs_Shutdown = False,
     Jobs_Wake = False, Jobs_Abort = False, Jobs_Install = False, Jobs_Update = False,
     Jobs_ModifyJobs = False, Jobs_NewSys = False, Jobs_UserMsg = False, Jobs_Audit = False\<rparr>"

definition no_ldap_update :: access_ldap_update where
  "no_ldap_update = \<lparr>Upd_CN = False, Upd_IP = False, Upd_MAC = False, Upd_DH = False\<rparr>"

definition no_detected_hw :: access_detected_hw where
  "no_detected_hw = \<lparr>Hw_Unprompted = False, Hw_Template = False, Hw_DN = False, Hw_CN = False,
     Hw_IPHostNumber = False, Hw_MACAddress = False\<rparr>"

definition zero_context :: security_context where
  "zero_context =
     \<lparr>TLS = False, PeerID = \<lparr>peer_IP = [], AllowedIPs = [], AllowedNames = []\<rparr>,
      Limits = \<lparr>TotalTime = 0, TotalBytes = 0, MessageBytes = 0, ConnPerHour = 0, ConnParallel = 0,
        MaxLogFiles = 0, MaxAnswers = 0, CommunicateWith = []\<rparr>,
      Access = \<lparr>MiscRights = no_misc, QueryRights = no_query, JobRights = no_jobs, Incoming = [],
        LDAPUpdate = no_ldap_update, DetectedHW = no_detected_hw\<rparr>\<rparr>"

text \<open>\<open>net.IPv4(0,0,0,0)\<close> has 16 bytes.\<close>

definition v4_prefix :: ip where
  "v4_prefix = replicate 10 0 @ [255, 255]"

definition ipv4_zero :: ip where
  "ipv4_zero = v4_prefix @ [0, 0, 0, 0]"

definition default_limits :: "site \<Rightarrow> connection_limits" where
  "default_limits s =
     \<lparr>TotalTime = 0, TotalBytes = 2 ^ 63 - 1, MessageBytes = 2 ^ 63 - 1, ConnPerHour = 36000,
      ConnParallel = 32, MaxLogFiles = 64, MaxAnswers = 2 ^ 31 - 1, CommunicateWith = [site_address s]\<rparr>"

definition SetLegacyDefaults :: "site \<Rightarrow> security_context \<Rightarrow> security_context" where
  "SetLegacyDefaults s c =
     (let jobs = JobRights (Access c) in
      c\<lparr>PeerID := \<lparr>peer_IP = (if peer_IP (PeerID c) = [] then ipv4_zero else peer_IP (PeerID c)),
          AllowedIPs = [ipv4_zero], AllowedNames = []\<rparr>,
        Limits := default_limits s,
        Access := \<lparr>MiscRights = \<lparr>Misc_Debug = True, Misc_Wake = True, Misc_Peer = True\<rparr>,
          QueryRights = \<lparr>Query_QueryAll = True, Query_QueryJobs = True\<rparr>,
          JobRights = jobs\<lparr>Jobs_JobsAll := True, Jobs_Lock := True, Jobs_Unlock := True,
            Jobs_Shutdown := True, Jobs_Wake := True, Jobs_Abort := True, Jobs_Install := True,
            Jobs_Update := True, Jobs_ModifyJobs := True, Jobs_NewSys := True\<rparr>,
          Incoming = [incoming_uri s],
          LDAPUpdate = \<lparr>Upd_CN = True, Upd_IP = True, Upd_MAC = True, Upd_DH = True\<rparr>,
          DetectedHW = \<lparr>Hw_Unprompted = True, Hw_Template = True, Hw_DN = True, Hw_CN = True,
            Hw_IPHostNumber = True, Hw_MACAddress = True\<rparr>\<rparr>\<rparr>)"

definition SetTLSDefaults :: "site \<Rightarrow> security_context \<Rightarrow> security_context" where
  "SetTLSDefaults s c =
     (let jobs = JobRights (Access c) in
      c\<lparr>PeerID := (PeerID c)\<lparr>AllowedIPs := [], AllowedNames := []\<rparr>,
        Limits := default_limits s,
        Access := \<lparr>MiscRights = no_misc, QueryRights = no_query,
          JobRights = jobs\<lparr>Jobs_JobsAll := False, Jobs_Lock := False, Jobs_Unlock := False,
            Jobs_Shutdown := False, Jobs_Wake := False, Jobs_Abort := False, Jobs_Install := False,
            Jobs_Update := False, Jobs_ModifyJobs := False, Jobs_NewSys := False\<rparr>,
          Incoming = [''ldap://*'', ''ldaps://*''],
          LDAPUpdate = no_ldap_update, DetectedHW = no_detected_hw\<rparr>\<rparr>)"

section \<open>DER values\<close>

record raw_value =
  Class :: nat
  Tag :: nat
  IsCompound :: bool
  Bytes :: bytes

text \<open>A number in base 128, most significant digit first; None when it is cut off or too long.\<close>

fun base128 :: "nat \<Rightarrow> nat \<Rightarrow> bytes \<Rightarrow> (nat \<times> bytes) option" where
  "base128 shifted ret [] = None"
| "base128 shifted ret (b # bs) =
     (if shifted = 5 \<or> (shifted = 0 \<and> b = 128) then None
      else if b < 128 then (if ret * 128 + b < 2 ^ 31 then Some (ret * 128 + b, bs) else None)
      else base128 (Suc shifted) (ret * 128 + b mod 128) bs)"

fun length_bytes :: "nat \<Rightarrow> nat \<Rightarrow> bytes \<Rightarrow> (nat \<times> bytes) option" where
  "length_bytes 0 len bs = (if len < 128 then None else Some (len, bs))"
| "length_bytes (Suc n) len [] = None"
| "length_bytes (Suc n) len (b # bs) =
     (if len \<ge> 2 ^ 23 \<or> len * 256 + b = 0 then None else length_bytes n (len * 256 + b) bs)"

definition parse_length :: "bytes \<Rightarrow> (nat \<times> bytes) option" where
  "parse_length bs =
     (case bs of
        [] \<Rightarrow> None
      | b # bs \<Rightarrow>
          if b < 128 then Some (b, bs)
          else if b = 128 then None
          else length_bytes (b - 128) 0 bs)"

definition Unmarshal :: "bytes \<Rightarrow> (raw_value \<times> bytes) option" where
  "Unmarshal value =
     (case value of
        [] \<Rightarrow> None
      | b # bs \<Rightarrow>
          (case (if b mod 32 = 31
                 then (case base128 0 0 bs of
                         Some (tag, bs) \<Rightarrow> if tag < 31 then None else Some (tag, bs)
                       | None \<Rightarrow> None)
                 else Some (b mod 32, bs)) of
             None \<Rightarrow> None
           | Some (tag, bs) \<Rightarrow>
               (case parse_length bs of
                  None \<Rightarrow> None
                | Some (len, bs) \<Rightarrow>
                    if length bs < len then None
                    else Some (\<lparr>Class = b div 64, Tag = tag, IsCompound = odd (b div 32),
                           Bytes = take len bs\<rparr>,
                         drop len bs))))"

lemma base128_shorter: "base128 k r bs = Some (n, bs') \<Longrightarrow> length bs' < length bs"
  by (induction k r bs rule: base128.induct) (auto split: if_splits)

lemma length_bytes_shorter: "length_bytes k r bs = Some (n, bs') \<Longrightarrow> length bs' \<le> length bs"
  by (induction k r bs rule: length_bytes.induct) (auto split: if_splits)

lemma parse_length_shorter: "parse_length bs = Some (n, bs') \<Longrightarrow> length bs' < length bs"
  by (auto simp: parse_length_def less_Suc_eq_le split: list.splits if_splits dest: length_bytes_shorter)

lemma Unmarshal_shorter: "Unmarshal value = Some (v, rest) \<Longrightarrow> length rest < length value"
  by (auto simp: Unmarshal_def split: list.splits option.splits if_splits
      dest!: parse_length_shorter base128_shorter) linarith+

text \<open>
  The loop \<open>for len(rest) > 0\<close> of the parsers: the values before the first error, and whether
  there was one.
\<close>

function raw_values :: "bytes \<Rightarrow> raw_value list \<times> bool" where
  "raw_values rest =
     (if rest = [] then ([], False)
      else
        (case Unmarshal rest of
           None \<Rightarrow> ([], True)
         | Some (v, rest) \<Rightarrow> (case raw_values rest of (vs, err) \<Rightarrow> (v # vs, err))))"
  by pat_completeness auto
termination
  by (relation "measure length") (auto dest: Unmarshal_shorter)

declare raw_values.simps [simp del]

text \<open>The sequence that an extension consists of: its contents.\<close>

definition parse_sequence :: "bytes \<Rightarrow> bytes option" where
  "parse_sequence value =
     (case Unmarshal value of
        Some (seq, []) \<Rightarrow>
          if IsCompound seq \<and> Tag seq = 16 \<and> Class seq = 0 then Some (Bytes seq) else None
      | _ \<Rightarrow> None)"

text \<open>A BIT STRING under its own tag: the bits, or None when it is not well-formed.\<close>

definition bit_string :: "raw_value \<Rightarrow> (nat \<Rightarrow> bool) option" where
  "bit_string v =
     (case Bytes v of
        [] \<Rightarrow> None
      | padding # bs \<Rightarrow>
          if IsCompound v \<or> padding > 7 \<or> bs = [] \<and> padding > 0 \<or>
             (bs \<noteq> [] \<and> last bs mod 2 ^ padding \<noteq> 0)
          then None
          else Some (\<lambda>i. i < length bs * 8 - padding \<and> odd ((bs ! (i div 8)) div 2 ^ (7 - i mod 8))))"

text \<open>An INTEGER: two's complement, in the least number of bytes.\<close>

definition big_endian :: "bytes \<Rightarrow> nat" where
  "big_endian bs = foldl (\<lambda>n b. n * 256 + b) 0 bs"

definition parse_integer :: "raw_value \<Rightarrow> int option" where
  "parse_integer v =
     (case Bytes v of
        [] \<Rightarrow> None
      | b # bs \<Rightarrow>
          if IsCompound v \<or> (bs \<noteq> [] \<and> (b = 0 \<and> hd bs < 128 \<or> b = 255 \<and> hd bs \<ge> 128)) then None
          else Some (int (big_endian (b # bs)) -
                 (if b \<ge> 128 then 256 ^ length (b # bs) else 0)))"

text \<open>\<open>asn1Int0\<close>: what is not positive or too big counts as 0.\<close>

definition asn1Int0 :: "raw_value \<Rightarrow> int option" where
  "asn1Int0 v =
     (case parse_integer v of
        None \<Rightarrow> None
      | Some i \<Rightarrow> if i \<le> 0 \<or> i \<ge> 281474976710656 then Some 0 else Some i)"

section \<open>The extensions\<close>

definition parseConnectionLimits ::
  "(raw_value \<Rightarrow> string list option) \<Rightarrow> bytes \<Rightarrow> connection_limits \<Rightarrow> connection_limits" where
  "parseConnectionLimits utf8s value =
     (let number = (\<lambda>v upd l. case asn1Int0 v of None \<Rightarrow> l | Some n \<Rightarrow> upd n l);
          step = (\<lambda>v l.
            if Class v \<noteq> 2 then l
            else if Tag v = 0 then number v (\<lambda>n. TotalTime_update (\<lambda>_. signed_take_bit 63 (n * 1000000))) l
            else if Tag v = 1 then number v (\<lambda>n. TotalBytes_update (\<lambda>_. n)) l
            else if Tag v = 2 then number v (\<lambda>n. MessageBytes_update (\<lambda>_. n)) l
            else if Tag v = 3 then number v (\<lambda>n. ConnPerHour_update (\<lambda>_. n)) l
            else if Tag v = 4 then number v (\<lambda>n. ConnParallel_update (\<lambda>_. n)) l
            else if Tag v = 5 then number v (\<lambda>n. MaxLogFiles_update (\<lambda>_. n)) l
            else if Tag v = 6 then number v (\<lambda>n. MaxAnswers_update (\<lambda>_. n)) l
            else if Tag v = 7
            then (case utf8s v of None \<Rightarrow> l | Some names \<Rightarrow> l\<lparr>CommunicateWith := names\<rparr>)
            else l)
      in case parse_sequence value of
           None \<Rightarrow> id
         | Some rest \<Rightarrow> fold step (fst (raw_values rest)))"

text \<open>\<open>asn1BitString\<close> sets the fields of a struct in their order.\<close>

definition misc_of :: "(nat \<Rightarrow> bool) \<Rightarrow> access_misc" where
  "misc_of b = \<lparr>Misc_Debug = b 0, Misc_Wake = b 1, Misc_Peer = b 2\<rparr>"

definition query_of :: "(nat \<Rightarrow> bool) \<Rightarrow> access_query" where
  "query_of b = \<lparr>Query_QueryAll = b 0, Query_QueryJobs = b 1\<rparr>"

definition jobs_of :: "(nat \<Rightarrow> bool) \<Rightarrow> access_jobs" where
  "jobs_of b = \<lparr>Jobs_JobsAll = b 0, Jobs_Lock = b 1, Jobs_Unlock = b 2, Jobs_Shutdown = b 3,
     Jobs_Wake = b 4, Jobs_Abort = b 5, Jobs_Install = b 6, Jobs_Update = b 7,
     Jobs_ModifyJobs = b 8, Jobs_NewSys = b 9, Jobs_UserMsg = b 10, Jobs_Audit = b 11\<rparr>"

definition ldap_update_of :: "(nat \<Rightarrow> bool) \<Rightarrow> access_ldap_update" where
  "ldap_update_of b = \<lparr>Upd_CN = b 0, Upd_IP = b 1, Upd_MAC = b 2, Upd_DH = b 3\<rparr>"

definition detected_hw_of :: "(nat \<Rightarrow> bool) \<Rightarrow> access_detected_hw" where
  "detected_hw_of b = \<lparr>Hw_Unprompted = b 0, Hw_Template = b 1, Hw_DN = b 2, Hw_CN = b 3,
     Hw_IPHostNumber = b 4, Hw_MACAddress = b 5\<rparr>"

definition access_field ::
  "(raw_value \<Rightarrow> string list option) \<Rightarrow> raw_value \<Rightarrow> access_control \<Rightarrow> access_control" where
  "access_field utf8s v a =
     (let bits = (\<lambda>upd. case bit_string v of None \<Rightarrow> a | Some b \<Rightarrow> upd b) in
      if Class v \<noteq> 2 then a
      else if Tag v = 0 then bits (\<lambda>b. a\<lparr>MiscRights := misc_of b\<rparr>)
      else if Tag v = 1 then bits (\<lambda>b. a\<lparr>QueryRights := query_of b\<rparr>)
      else if Tag v = 2 then bits (\<lambda>b. a\<lparr>JobRights := jobs_of b\<rparr>)
      else if Tag v = 3
      then (case utf8s v of None \<Rightarrow> a | Some names \<Rightarrow> a\<lparr>Incoming := names\<rparr>)
      else if Tag v = 4 then bits (\<lambda>b. a\<lparr>LDAPUpdate := ldap_update_of b\<rparr>)
      else if Tag v = 5 then bits (\<lambda>b. a\<lparr>DetectedHW := detected_hw_of b\<rparr>)
      else a)"

definition parseAccessControl ::
  "(raw_value \<Rightarrow> string list option) \<Rightarrow> bytes \<Rightarrow> access_control \<Rightarrow> access_control" where
  "parseAccessControl utf8s value =
     (case parse_sequence value of
        None \<Rightarrow> id
      | Some rest \<Rightarrow> fold (access_field utf8s) (fst (raw_values rest)))"

text \<open>
  The names and addresses of the certificate. The object identifiers stand for the address of
  the server where this client is registered, and for the servers of the configuration.
\<close>

definition gosa_oid :: "nat \<Rightarrow> bytes" where
  "gosa_oid n = [43, 6, 1, 4, 1, 130, 229, 57, 1, n]"

definition ip_unspecified :: "ip \<Rightarrow> bool" where
  "ip_unspecified ip \<longleftrightarrow> ip = replicate 16 0 \<or> ip = ipv4_zero \<or> ip = replicate 4 0"

definition san_field :: "site \<Rightarrow> ip \<Rightarrow> raw_value \<Rightarrow> subject_alt_name \<Rightarrow> subject_alt_name" where
  "san_field s my_server v p =
     (if Tag v = 2 then p\<lparr>AllowedNames := AllowedNames p @ [map char_of (Bytes v)]\<rparr>
      else if Tag v = 7
      then (if length (Bytes v) = 4 \<or> length (Bytes v) = 16
            then p\<lparr>AllowedIPs := AllowedIPs p @ [Bytes v]\<rparr> else p)
      else if Tag v = 8
      then (if Bytes v = gosa_oid 1
            then (if ip_unspecified my_server then p
                  else p\<lparr>AllowedIPs := AllowedIPs p @ [my_server]\<rparr>)
            else if Bytes v = gosa_oid 2
            then p\<lparr>AllowedIPs := AllowedIPs p @ server_ips s, AllowedNames := AllowedNames p @ server_names s\<rparr>
            else if Bytes v = gosa_oid 3
            then p\<lparr>AllowedNames := AllowedNames p @ srv_names s\<rparr>
            else p)
      else p)"

definition parseSANExtension :: "site \<Rightarrow> ip \<Rightarrow> bytes \<Rightarrow> subject_alt_name \<Rightarrow> subject_alt_name" where
  "parseSANExtension s my_server value p =
     (case parse_sequence value of
        None \<Rightarrow> p
      | Some rest \<Rightarrow>
          fold (san_field s my_server) (fst (raw_values rest)) (p\<lparr>AllowedNames := [], AllowedIPs := []\<rparr>))"

definition access_control_oid :: "nat list" where
  "access_control_oid = [1, 3, 6, 1, 4, 1, 45753, 1, 6]"

definition extension_step ::
  "(raw_value \<Rightarrow> string list option) \<Rightarrow> site \<Rightarrow> ip \<Rightarrow> nat list \<times> bytes \<Rightarrow> security_context \<Rightarrow> security_context" where
  "extension_step utf8s s my_server = (\<lambda>(oid, value) c.
     if oid = [2, 5, 29, 17] then c\<lparr>PeerID := parseSANExtension s my_server value (PeerID c)\<rparr>
     else if oid = [1, 3, 6, 1, 4, 1, 45753, 1, 5]
     then c\<lparr>Limits := parseConnectionLimits utf8s value (Limits c)\<rparr>
     else if oid = access_control_oid
     then c\<lparr>Access := parseAccessControl utf8s value (Access c)\<rparr>
     else c)"

text \<open>
  A TLS connection after its handshake: the certificate of the peer, if there is one, with its
  extensions; \<open>trusted\<close> says that it is signed by a CA of the configuration whose subject is
  its issuer, or that the configuration has no CA.
\<close>

definition handle_tlsconn ::
  "(raw_value \<Rightarrow> string list option) \<Rightarrow> site \<Rightarrow> ip \<Rightarrow> (nat list \<times> bytes) list option \<Rightarrow> bool \<Rightarrow>
   security_context \<Rightarrow> security_context option" where
  "handle_tlsconn utf8s s my_server certificate trusted c =
     (case certificate of
        None \<Rightarrow> None
      | Some extensions \<Rightarrow>
          if \<not> trusted then None
          else Some (fold (extension_step utf8s s my_server) extensions (SetTLSDefaults s c)\<lparr>TLS := True\<rparr>))"

section \<open>The checks\<close>

text \<open>\<open>Equal\<close> and \<open>IsLoopback\<close> of \<open>net.IP\<close>.\<close>

definition ip_equal :: "ip \<Rightarrow> ip \<Rightarrow> bool" where
  "ip_equal a b \<longleftrightarrow>
     (if length a = length b then a = b
      else if length a = 4 \<and> length b = 16 then v4_prefix @ a = b
      else if length a = 16 \<and> length b = 4 then a = v4_prefix @ b
      else False)"

definition To4 :: "ip \<Rightarrow> ip option" where
  "To4 ip = (if length ip = 4 then Some ip
     else if length ip = 16 \<and> take 12 ip = v4_prefix then Some (drop 12 ip) else None)"

definition IsLoopback :: "ip \<Rightarrow> bool" where
  "IsLoopback ip = (case To4 ip of Some ip4 \<Rightarrow> ip4 ! 0 = 127 | None \<Rightarrow> ip = replicate 15 0 @ [1])"

text \<open>The bytes of the peer that stand where the pattern ends in zeros are set to 0.\<close>

definition trailing_zeros :: "ip \<Rightarrow> nat" where
  "trailing_zeros ip = length (takeWhile (\<lambda>b. b = 0) (rev ip))"

definition wild_peer :: "ip \<Rightarrow> ip \<Rightarrow> ip" where
  "wild_peer ip peer =
     (let k = min (trailing_zeros ip) (length peer) in take (length peer - k) peer @ replicate k 0)"

text \<open>The loop over the allowed addresses; the last byte of an empty address is a panic (None).\<close>

fun allowed_ip :: "site \<Rightarrow> ip \<Rightarrow> ip list \<Rightarrow> bool option" where
  "allowed_ip s peer [] = Some False"
| "allowed_ip s peer (ip # ips) =
     (let ip = (if IsLoopback ip then own_ip s else ip) in
      if ip_equal ip peer then Some True
      else if ip = [] then None
      else if last ip = 0 \<and> ip_equal ip (wild_peer ip peer) then Some True
      else allowed_ip s peer ips)"

text \<open>A name of the certificate against a name of the peer, of which trailing periods are cut off.\<close>

definition name_matches :: "string \<Rightarrow> string \<Rightarrow> bool" where
  "name_matches name peer_name =
     (let peer_name = rev (dropWhile (\<lambda>c. c = CHR ''.'') (rev peer_name)) in
      if HasPrefix name ''*'' then HasSuffix peer_name (tl name) else peer_name = name)"

definition may_communicate :: "site \<Rightarrow> string \<Rightarrow> bool" where
  "may_communicate s comm =
     (let fqname = Hostname s @ ''.'' @ Domain s;
          port = dropWhile (\<lambda>c. c \<noteq> CHR '':'') comm;
          comm = takeWhile (\<lambda>c. c \<noteq> CHR '':'') comm
      in (port = [] \<or> HasSuffix (site_address s) port) \<and>
         (comm = Hostname s \<or> comm = fqname \<or> comm = own_ip_text s \<or>
          HasPrefix comm ''*'' \<and> HasSuffix fqname (tl comm)))"

text \<open>\<open>Verify\<close>; \<open>LookupIP\<close> and \<open>LookupAddr\<close> give None for an error.\<close>

definition Verify ::
  "site \<Rightarrow> (string \<Rightarrow> ip list option) \<Rightarrow> (ip \<Rightarrow> string list option) \<Rightarrow> security_context \<Rightarrow> bool option" where
  "Verify s LookupIP LookupAddr c =
     (let peer = peer_IP (PeerID c);
          names = AllowedNames (PeerID c)
      in case allowed_ip s peer (AllowedIPs (PeerID c)) of
           None \<Rightarrow> None
         | Some ok \<Rightarrow>
             let ok = ok \<or> list_ex (\<lambda>name. case LookupIP name of None \<Rightarrow> False
                              | Some ips \<Rightarrow> list_ex (\<lambda>ip. ip_equal ip peer) ips) names;
                 ok = ok \<or> (case LookupAddr peer of None \<Rightarrow> False
                              | Some peer_names \<Rightarrow>
                                  list_ex (\<lambda>name. list_ex (name_matches name) peer_names) names)
             in Some (ok \<and> list_ex (may_communicate s) (CommunicateWith (Limits c))))"

text \<open>
  \<open>ContextFor\<close>: None is the refusal; a panic of \<open>Verify\<close> ends the connection as well. A connection is given by the address of its other end
  and, for TLS, by what \<open>handle_tlsconn\<close> gets.
\<close>

definition ContextFor ::
  "(raw_value \<Rightarrow> string list option) \<Rightarrow> site \<Rightarrow> ip \<Rightarrow> (string \<Rightarrow> ip list option) \<Rightarrow>
   (ip \<Rightarrow> string list option) \<Rightarrow> ip option \<Rightarrow> ((nat list \<times> bytes) list option \<times> bool) option \<Rightarrow>
   security_context option" where
  "ContextFor utf8s s my_server LookupIP LookupAddr remote tls =
     (let peer = (case remote of None \<Rightarrow> [] | Some ip \<Rightarrow> if IsLoopback ip then own_ip s else ip);
          c = SetLegacyDefaults s (zero_context\<lparr>PeerID := \<lparr>peer_IP = peer, AllowedIPs = [], AllowedNames = []\<rparr>\<rparr>);
          r = (case tls of None \<Rightarrow> Some c | Some (certificate, trusted) \<Rightarrow>
                 handle_tlsconn utf8s s my_server certificate trusted c)
      in case r of
           None \<Rightarrow> None
         | Some c \<Rightarrow> (if Verify s LookupIP LookupAddr c = Some True then Some c else None))"

section \<open>Access comes from the certificate\<close>

text \<open>The certificate has a field of the access control extension with this tag and these bits.\<close>

definition certified :: "(nat list \<times> bytes) list \<Rightarrow> nat \<Rightarrow> (nat \<Rightarrow> bool) \<Rightarrow> bool" where
  "certified extensions tag b \<longleftrightarrow>
     (\<exists>value rest v. (access_control_oid, value) \<in> set extensions \<and>
        parse_sequence value = Some rest \<and> v \<in> set (fst (raw_values rest)) \<and>
        Class v = 2 \<and> Tag v = tag \<and> bit_string v = Some b)"

definition access_certified :: "(nat list \<times> bytes) list \<Rightarrow> access_control \<Rightarrow> bool" where
  "access_certified es a \<longleftrightarrow>
     (MiscRights a = no_misc \<or> (\<exists>b. certified es 0 b \<and> MiscRights a = misc_of b)) \<and>
     (QueryRights a = no_query \<or> (\<exists>b. certified es 1 b \<and> QueryRights a = query_of b)) \<and>
     (JobRights a = no_jobs \<or> (\<exists>b. certified es 2 b \<and> JobRights a = jobs_of b))"

lemma access_field_certified:
  assumes "(access_control_oid, value) \<in> set es" and "parse_sequence value = Some rest"
    and "v \<in> set (fst (raw_values rest))" and "access_certified es a"
  shows "access_certified es (access_field utf8s v a)"
proof -
  have c: "certified es (Tag v) b" if "Class v = 2" "bit_string v = Some b" for b
    using assms(1-3) that by (auto simp: certified_def)
  show ?thesis
    using assms(4) c
    by (auto simp: access_certified_def access_field_def Let_def split: option.splits)
qed

lemma fold_invariant_set:
  "(\<And>x a. x \<in> set xs \<Longrightarrow> P a \<Longrightarrow> P (f x a)) \<Longrightarrow> P a \<Longrightarrow> P (fold f xs a)"
  by (induction xs arbitrary: a) auto

lemma parseAccessControl_certified:
  assumes "(access_control_oid, value) \<in> set es" and "access_certified es a"
  shows "access_certified es (parseAccessControl utf8s value a)"
proof (cases "parse_sequence value")
  case None
  with assms(2) show ?thesis by (simp add: parseAccessControl_def)
next
  case (Some rest)
  then show ?thesis
    using assms(2) access_field_certified [OF assms(1) Some]
    by (auto simp: parseAccessControl_def intro: fold_invariant_set [where P = "access_certified es"])
qed

lemma extensions_certified:
  assumes "access_certified es (Access c)"
  shows "access_certified es (Access (fold (extension_step utf8s s my_server) es c))"
  by (rule fold_invariant_set [where P = "\<lambda>c. access_certified es (Access c)"])
    (auto simp: extension_step_def assms parseAccessControl_certified split: prod.splits)

lemma defaults_certified:
  assumes "JobRights (Access c) = no_jobs\<lparr>Jobs_JobsAll := x1, Jobs_Lock := x2, Jobs_Unlock := x3,
      Jobs_Shutdown := x4, Jobs_Wake := x5, Jobs_Abort := x6, Jobs_Install := x7, Jobs_Update := x8,
      Jobs_ModifyJobs := x9, Jobs_NewSys := x10\<rparr>"
  shows "access_certified es (Access (SetTLSDefaults s c))"
  using assms by (simp add: access_certified_def SetTLSDefaults_def Let_def no_jobs_def)

lemma certificate_rights:
  assumes "ContextFor utf8s s my_server LookupIP LookupAddr remote (Some (certificate, trusted)) = Some c"
  shows "TLS c \<and> trusted \<and> (\<exists>es. certificate = Some es \<and>
    (MiscRights (Access c) = no_misc \<or> (\<exists>b. certified es 0 b \<and> MiscRights (Access c) = misc_of b)) \<and>
    (QueryRights (Access c) = no_query \<or> (\<exists>b. certified es 1 b \<and> QueryRights (Access c) = query_of b)) \<and>
    (JobRights (Access c) = no_jobs \<or> (\<exists>b. certified es 2 b \<and> JobRights (Access c) = jobs_of b)))"
proof -
  let ?peer = "case remote of None \<Rightarrow> [] | Some ip \<Rightarrow> if IsLoopback ip then own_ip s else ip"
  let ?c0 = "SetLegacyDefaults s
    (zero_context\<lparr>PeerID := \<lparr>peer_IP = ?peer, AllowedIPs = [], AllowedNames = []\<rparr>\<rparr>)"
  from assms have h: "handle_tlsconn utf8s s my_server certificate trusted ?c0 = Some c"
    by (auto simp: ContextFor_def Let_def split: option.splits if_splits)
  then obtain es where es: "certificate = Some es" and t: "trusted"
    and c: "c = (fold (extension_step utf8s s my_server) es (SetTLSDefaults s ?c0))\<lparr>TLS := True\<rparr>"
    by (auto simp: handle_tlsconn_def split: option.splits if_splits)
  have "access_certified es (Access (SetTLSDefaults s ?c0))"
    by (rule defaults_certified) (simp add: SetLegacyDefaults_def Let_def zero_context_def)
  then have "access_certified es (Access c)" using extensions_certified c by simp
  with es t c show ?thesis by (simp add: access_certified_def)
qed

text \<open>C16: Without a certificate that says so, a TLS connection may do nothing. A connection over TLS
  is accepted only with a certificate that is trusted, and its rights to query, to make jobs,
  to act as a peer and to debug are exactly the bits of a field of the access control
  extension of that certificate, or none at all.\<close>

theorem rights_come_from_the_certificate:
  assumes "ContextFor utf8s s my_server LookupIP LookupAddr remote (Some (certificate, trusted)) = Some c"
  shows "TLS c \<and> trusted \<and> (\<exists>es. certificate = Some es \<and>
    (MiscRights (Access c) = no_misc \<or> (\<exists>b. certified es 0 b \<and> MiscRights (Access c) = misc_of b)) \<and>
    (QueryRights (Access c) = no_query \<or> (\<exists>b. certified es 1 b \<and> QueryRights (Access c) = query_of b)) \<and>
    (JobRights (Access c) = no_jobs \<or> (\<exists>b. certified es 2 b \<and> JobRights (Access c) = jobs_of b)))"
  using assms by (rule certificate_rights)

text \<open>
  A certificate for the address 10.0.0.9 with the bit to lock systems: the extensions are a
  sequence with the address, and a sequence with the field 2 of which bit 1 is set.
\<close>

definition example_site :: site where
  "example_site = \<lparr>own_ip = v4_prefix @ [10, 0, 0, 1], own_ip_text = ''10.0.0.1'', Hostname = ''si'',
     Domain = ''lan'', site_address = ''10.0.0.1:20081'', incoming_uri = [], server_ips = [],
     server_names = [], srv_names = []\<rparr>"

definition lock_certificate :: "(nat list \<times> bytes) list" where
  "lock_certificate = [([2, 5, 29, 17], [48, 6, 135, 4, 10, 0, 0, 9]),
     (access_control_oid, [48, 4, 130, 2, 6, 64])]"

lemma lock_certificate_read:
  "parse_sequence [48, 6, 135, 4, 10, 0, 0, 9] = Some [135, 4, 10, 0, 0, 9]"
  "raw_values [135, 4, 10, 0, 0, 9] =
    ([\<lparr>Class = 2, Tag = 7, IsCompound = False, Bytes = [10, 0, 0, 9]\<rparr>], False)"
  "parse_sequence [48, 4, 130, 2, 6, 64] = Some [130, 2, 6, 64]"
  "raw_values [130, 2, 6, 64] =
    ([\<lparr>Class = 2, Tag = 2, IsCompound = False, Bytes = [6, 64]\<rparr>], False)"
  by (simp_all add: parse_sequence_def Unmarshal_def parse_length_def raw_values.simps)

lemma lock_bits:
  "map_option jobs_of (bit_string \<lparr>Class = 2, Tag = 2, IsCompound = False, Bytes = [6, 64]\<rparr>) =
    Some (no_jobs\<lparr>Jobs_Lock := True\<rparr>)"
  by (simp add: bit_string_def jobs_of_def no_jobs_def)

lemma lock_context:
  "\<exists>c. ContextFor (\<lambda>v. None) example_site (replicate 16 0) (\<lambda>n. None) (\<lambda>a. None)
      (Some (v4_prefix @ [10, 0, 0, 9])) (Some (Some lock_certificate, True)) = Some c \<and>
    Jobs_Lock (JobRights (Access c)) \<and> \<not> Jobs_Install (JobRights (Access c))"
proof -
  let ?r = "ContextFor (\<lambda>v. None) example_site (replicate 16 0) (\<lambda>n. None) (\<lambda>a. None)
      (Some (v4_prefix @ [10, 0, 0, 9])) (Some (Some lock_certificate, True))"
  from lock_bits obtain b where
    b: "bit_string \<lparr>Class = 2, Tag = 2, IsCompound = False, Bytes = [6, 64]\<rparr> = Some b"
      "jobs_of b = no_jobs\<lparr>Jobs_Lock := True\<rparr>"
    by auto
  have "case ?r of None \<Rightarrow> False
    | Some c \<Rightarrow> Jobs_Lock (JobRights (Access c)) \<and> \<not> Jobs_Install (JobRights (Access c))"
    by (simp add: b ContextFor_def Let_def handle_tlsconn_def lock_certificate_def extension_step_def
        access_control_oid_def parseSANExtension_def parseAccessControl_def lock_certificate_read
        san_field_def access_field_def Verify_def ip_equal_def IsLoopback_def To4_def v4_prefix_def
        SetTLSDefaults_def SetLegacyDefaults_def zero_context_def default_limits_def example_site_def
        may_communicate_def HasSuffix_def no_jobs_def
        split: option.splits)
  then obtain c where c: "?r = Some c" "Jobs_Lock (JobRights (Access c))" "\<not> Jobs_Install (JobRights (Access c))"
    by (auto split: option.splits)
  then show ?thesis by blast
qed

theorem rights_come_from_the_certificate_witness:
  "\<exists>c. ContextFor (\<lambda>v. None) example_site (replicate 16 0) (\<lambda>n. None) (\<lambda>a. None)
      (Some (v4_prefix @ [10, 0, 0, 9])) (Some (Some lock_certificate, True)) = Some c \<and>
    TLS c \<and> Jobs_Lock (JobRights (Access c)) \<and> \<not> Jobs_Install (JobRights (Access c))"
  using lock_context rights_come_from_the_certificate by blast

section \<open>Addresses with wildcards\<close>

lemma trailing_zeros_split:
  "ip = take (length ip - trailing_zeros ip) ip @ replicate (trailing_zeros ip) 0"
  "trailing_zeros ip \<le> length ip"
proof -
  let ?z = "takeWhile (\<lambda>b. b = 0) (rev ip)" and ?r = "dropWhile (\<lambda>b. b = 0) (rev ip)"
  have z: "?z = replicate (trailing_zeros ip) 0"
    by (metis (full_types) replicate_eqI set_takeWhileD trailing_zeros_def)
  have "rev ip = ?z @ ?r" by simp
  then have ip: "ip = rev ?r @ replicate (trailing_zeros ip) 0"
    by (metis rev_append rev_replicate rev_rev_ident z)
  show le: "trailing_zeros ip \<le> length ip"
    unfolding trailing_zeros_def by (metis length_rev length_takeWhile_le)
  from ip have "rev ?r = take (length ip - trailing_zeros ip) ip"
    by (metis append_eq_conv_conj diff_add_inverse2 length_append length_replicate)
  with ip show "ip = take (length ip - trailing_zeros ip) ip @ replicate (trailing_zeros ip) 0" by simp
qed

lemma allowed_subnet:
  assumes "length ip = length peer" and "ip \<noteq> []" and "\<not> IsLoopback ip"
  shows "allowed_ip s peer [ip] =
    Some (let n = length ip - trailing_zeros ip in take n peer = take n ip)"
proof -
  let ?k = "trailing_zeros ip" and ?n = "length ip - trailing_zeros ip"
  note split = trailing_zeros_split [of ip]
  have wild: "wild_peer ip peer = take ?n peer @ replicate ?k 0"
    using assms(1) split(2) by (simp add: wild_peer_def Let_def min_def)
  have last: "last ip = 0 \<longleftrightarrow> 0 < ?k"
    using assms(2) by (cases ip rule: rev_cases) (simp_all add: trailing_zeros_def)
  have eq: "ip = wild_peer ip peer \<longleftrightarrow> take ?n peer = take ?n ip"
    using split(1) wild by (metis append_same_eq)
  have "length (wild_peer ip peer) = length ip"
    using assms(1) split(2) by (simp add: wild)
  moreover have "?k = 0 \<Longrightarrow> take ?n peer = take ?n ip \<longleftrightarrow> ip = peer"
    using assms(1) by auto
  moreover have "ip = peer \<Longrightarrow> take ?n peer = take ?n ip" by simp
  ultimately show ?thesis
    using assms last eq by (auto simp: ip_equal_def Let_def)
qed

text \<open>An address of the certificate that ends in zero bytes stands for its whole subnet: it
  allows exactly the peers that agree with it in the bytes before the zeros. Any other address
  allows only itself.\<close>

theorem allowed_address_is_a_subnet:
  assumes "length ip = length peer" and "ip \<noteq> []" and "\<not> IsLoopback ip"
  shows "allowed_ip s peer [ip] =
    Some (let n = length ip - trailing_zeros ip in take n peer = take n ip)"
  using assms by (rule allowed_subnet)

theorem allowed_address_is_a_subnet_witness:
  "allowed_ip example_site [10, 0, 7, 9] [[10, 0, 7, 0]] = Some True \<and>
   allowed_ip example_site [10, 0, 8, 9] [[10, 0, 7, 0]] = Some False"
  using allowed_address_is_a_subnet [of "[10, 0, 7, 0]" "[10, 0, 7, 9]" example_site]
    allowed_address_is_a_subnet [of "[10, 0, 7, 0]" "[10, 0, 8, 9]" example_site]
  by (simp add: trailing_zeros_def IsLoopback_def To4_def eval_nat_numeral)

text \<open>
  Without TLS everybody may connect over IPv4; a peer with another address is refused, since
  the address 0.0.0.0 of the defaults only stands for IPv4 addresses.
\<close>

lemma legacy_allows_ipv4:
  "length ip = 4 \<Longrightarrow> allowed_ip s (v4_prefix @ ip) [ipv4_zero] = Some True"
  "length peer = 16 \<Longrightarrow> take 12 peer \<noteq> v4_prefix \<Longrightarrow> allowed_ip s peer [ipv4_zero] = Some False"
proof -
  have z: "trailing_zeros ipv4_zero = 4" by (simp add: trailing_zeros_def ipv4_zero_def v4_prefix_def)
  have l: "\<not> IsLoopback ipv4_zero" by (simp add: IsLoopback_def To4_def ipv4_zero_def v4_prefix_def)
  have n: "length ipv4_zero = 16" "ipv4_zero \<noteq> []" "take 12 ipv4_zero = v4_prefix"
    by (simp_all add: ipv4_zero_def v4_prefix_def)
  show "length ip = 4 \<Longrightarrow> allowed_ip s (v4_prefix @ ip) [ipv4_zero] = Some True"
    by (subst allowed_subnet) (simp_all add: n l z v4_prefix_def)
  show "length peer = 16 \<Longrightarrow> take 12 peer \<noteq> v4_prefix \<Longrightarrow> allowed_ip s peer [ipv4_zero] = Some False"
    by (subst allowed_subnet) (simp_all add: n l z)
qed

end
