(* ===== verification/Crypt.thy ===== *)
theory Crypt
  imports Base64
begin

text \<open>
  The encryption of messages between parties without TLS, go-susi/security/gosacrypt.go: zeros
  in front of the message up to a full block, AES in CBC mode with a fixed initialization
  vector, and base64.

  The block cipher, the digest of the key and the base64 functions of the library
  github.com/mbenkmann/golib are arguments; what the theorems need of them is \<open>crypto_ok\<close>.
  The CBC mode is modelled.
\<close>

section \<open>The cipher\<close>

record crypto =
  Md5sum :: "string \<Rightarrow> string"
  aes_encrypt :: "string \<Rightarrow> string \<Rightarrow> string"
  aes_decrypt :: "string \<Rightarrow> string \<Rightarrow> string"
  b64_encode :: "string \<Rightarrow> string"
  b64_decode :: "string \<Rightarrow> string"
  buffer_trim :: "string \<Rightarrow> string"
  InitializationVector :: string

definition BlockSize :: nat where "BlockSize = 16"

definition xor_block :: "string \<Rightarrow> string \<Rightarrow> string" where
  "xor_block a b = map2 (\<lambda>x y. char_of (Bit_Operations.xor (byte x) (byte y))) a b"

text \<open>\<open>CryptBlocks\<close> of \<open>NewCBCEncrypter\<close> and \<open>NewCBCDecrypter\<close>, for whole blocks.\<close>

function cbc_encrypt :: "(string \<Rightarrow> string) \<Rightarrow> string \<Rightarrow> string \<Rightarrow> string" where
  "cbc_encrypt e prev s =
     (if s = [] then []
      else let c = e (xor_block prev (take BlockSize s)) in c @ cbc_encrypt e c (drop BlockSize s))"
  by pat_completeness auto
termination by (relation "measure (\<lambda>(e, p, s). length s)") (auto simp: BlockSize_def)

function cbc_decrypt :: "(string \<Rightarrow> string) \<Rightarrow> string \<Rightarrow> string \<Rightarrow> string" where
  "cbc_decrypt d prev s =
     (if s = [] then []
      else xor_block prev (d (take BlockSize s)) @
        cbc_decrypt d (take BlockSize s) (drop BlockSize s))"
  by pat_completeness auto
termination by (relation "measure (\<lambda>(d, p, s). length s)") (auto simp: BlockSize_def)

declare cbc_encrypt.simps [simp del] cbc_decrypt.simps [simp del]

abbreviation zeros :: "nat \<Rightarrow> string" where
  "zeros n \<equiv> replicate n (char_of (0 :: nat))"

text \<open>\<open>(BlockSize - n % BlockSize) &^ BlockSize\<close>\<close>

definition padding_for :: "nat \<Rightarrow> nat" where
  "padding_for n = (let k = BlockSize - n mod BlockSize in if k = BlockSize then 0 else k)"

definition paddedMessage :: "string \<Rightarrow> string" where
  "paddedMessage msg = zeros (padding_for (length msg)) @ msg"

definition encrypt_blocks :: "crypto \<Rightarrow> string \<Rightarrow> string \<Rightarrow> string" where
  "encrypt_blocks cr key = cbc_encrypt (aes_encrypt cr (Md5sum cr key)) (InitializationVector cr)"

definition decrypt_blocks :: "crypto \<Rightarrow> string \<Rightarrow> string \<Rightarrow> string" where
  "decrypt_blocks cr key = cbc_decrypt (aes_decrypt cr (Md5sum cr key)) (InitializationVector cr)"

definition GosaEncrypt :: "crypto \<Rightarrow> string \<Rightarrow> string \<Rightarrow> string" where
  "GosaEncrypt cr msg key =
     (if msg = [] then [] else b64_encode cr (encrypt_blocks cr key (paddedMessage msg)))"

text \<open>\<open>copy(data[at:], src)\<close>: as much of the source as fits.\<close>

definition copy_at :: "nat \<Rightarrow> string \<Rightarrow> string \<Rightarrow> string" where
  "copy_at at src data =
     take at data @ take (length data - at) src @ drop (at + min (length data - at) (length src)) data"

text \<open>
  The variant on a buffer: room is made for the base64 text, the message is moved to the end,
  padded, encrypted there and encoded in place (from the given index on).
\<close>

definition GosaEncryptBuffer :: "crypto \<Rightarrow> string \<Rightarrow> string \<Rightarrow> string" where
  "GosaEncryptBuffer cr buf key =
     (let datalen = length buf in
      if datalen = 0 then buf
      else
        (let cryptpad = padding_for datalen;
             cryptlen = cryptpad + datalen;
             b64len = (cryptlen + 2) div 3 * 4;
             data = buf @ zeros (b64len - datalen);
             data = copy_at (b64len - datalen) data data;
             idx = b64len - cryptlen;
             data = copy_at idx (zeros cryptpad) data;
             data = take idx data @ encrypt_blocks cr key (drop idx data)
         in b64_encode cr (drop idx data)))"

definition drop_zeros :: "string \<Rightarrow> string" where
  "drop_zeros s = dropWhile (\<lambda>c. byte c = 0) s"

definition GosaDecrypt :: "crypto \<Rightarrow> string \<Rightarrow> string \<Rightarrow> string" where
  "GosaDecrypt cr msg key =
     (let trimmed = TrimSpace msg in
      if HasPrefix trimmed ''<xml>'' then trimmed
      else
        (let trimmed = takeWhile (\<lambda>c. c \<noteq> CHR '';'' \<and> c \<noteq> CHR ''.'') trimmed;
             cyphertext = b64_decode cr trimmed
         in if length cyphertext mod BlockSize \<noteq> 0 then []
            else
              (let plain = drop_zeros (decrypt_blocks cr key cyphertext);
                   plain = rev (drop_zeros (rev plain));
                   trimmed = TrimSpace plain
               in if HasPrefix trimmed ''<xml>'' then trimmed else [])))"

text \<open>
  The variant on a buffer, with the buffer it leaves. The first 64 digits are tried first, so
  that a wrong key does not destroy the buffer.
\<close>

definition GosaDecryptBuffer :: "crypto \<Rightarrow> string \<Rightarrow> string \<Rightarrow> string \<times> bool" where
  "GosaDecryptBuffer cr buf key =
     (let buf = buffer_trim cr buf in
      if length buf < 11 then (buf, False)
      else if take 5 buf = ''<xml>'' then (buf, True)
      else
        (let buf = takeWhile (\<lambda>c. c \<noteq> CHR '';'' \<and> c \<noteq> CHR ''.'') buf;
             test = b64_decode cr (take ((3 * BlockSize + 2) div 3 * 4) buf);
             test = take (length test div BlockSize * BlockSize) test
         in if \<not> Contains (decrypt_blocks cr key test) ''<xml>'' then (buf, False)
            else
              (let data = b64_decode cr buf in
               if length data mod BlockSize \<noteq> 0 then ([], False)
               else (buffer_trim cr (decrypt_blocks cr key data), True))))"

section \<open>Decryption undoes encryption\<close>

text \<open>
  The documented behaviour of the arguments: the block cipher is a permutation of the blocks,
  base64 texts have none of the bytes that the decryption looks for, whole groups can be
  decoded alone, and trimming a buffer removes zeros and white space at its ends.
\<close>

definition visible :: "char \<Rightarrow> bool" where
  "visible c \<longleftrightarrow> byte c > 32"

definition crypto_ok :: "crypto \<Rightarrow> bool" where
  "crypto_ok cr \<longleftrightarrow>
     length (InitializationVector cr) = BlockSize \<and>
     (\<forall>k b. length b = BlockSize \<longrightarrow>
        length (aes_encrypt cr k b) = BlockSize \<and> aes_decrypt cr k (aes_encrypt cr k b) = b) \<and>
     (\<forall>s. b64_decode cr (b64_encode cr s) = s \<and>
        length (b64_encode cr s) = (length s + 2) div 3 * 4 \<and>
        list_all (\<lambda>c. visible c \<and> c \<noteq> CHR ''<'' \<and> c \<noteq> CHR '';'' \<and> c \<noteq> CHR ''.'') (b64_encode cr s)) \<and>
     (\<forall>s n. b64_decode cr (take (4 * n) (b64_encode cr s)) = take (3 * n) s) \<and>
     (\<forall>s n. s \<noteq> [] \<longrightarrow> visible (hd s) \<longrightarrow> visible (last s) \<longrightarrow> buffer_trim cr (zeros n @ s) = s)"

lemma crypto_okD:
  assumes "crypto_ok cr"
  shows "length (InitializationVector cr) = 16"
    and "length b = 16 \<Longrightarrow> length (aes_encrypt cr k b) = 16"
    and "length b = 16 \<Longrightarrow> aes_decrypt cr k (aes_encrypt cr k b) = b"
    and "b64_decode cr (b64_encode cr s) = s"
    and "length (b64_encode cr s) = (length s + 2) div 3 * 4"
    and "c \<in> set (b64_encode cr s) \<Longrightarrow> visible c \<and> c \<noteq> CHR ''<'' \<and> c \<noteq> CHR '';'' \<and> c \<noteq> CHR ''.''"
    and "b64_decode cr (take (4 * n) (b64_encode cr s)) = take (3 * n) s"
    and "s \<noteq> [] \<Longrightarrow> visible (hd s) \<Longrightarrow> visible (last s) \<Longrightarrow> buffer_trim cr (zeros n @ s) = s"
  using assms by (auto simp: crypto_ok_def BlockSize_def list_all_iff)

lemma xor_byte_less: "Bit_Operations.xor (byte a) (byte b) < 256"
proof -
  have "take_bit 8 (byte c) = byte c" for c
    using byte_less [of c] by (simp add: take_bit_nat_eq_self)
  then have "Bit_Operations.xor (byte a) (byte b) = take_bit 8 (Bit_Operations.xor (byte a) (byte b))"
    by (simp add: take_bit_xor)
  also have "\<dots> < 2 ^ 8" by (rule take_bit_nat_less_exp)
  finally show ?thesis by simp
qed

lemma xor_block_twice:
  "length a = length b \<Longrightarrow> xor_block a (xor_block a b) = b"
  by (induction a b rule: list_induct2)
    (simp_all add: xor_block_def xor_byte_less flip: xor.assoc)

lemma length_xor_block [simp]: "length (xor_block a b) = min (length a) (length b)"
  by (simp add: xor_block_def)

lemma cbc_decrypt_encrypt:
  assumes e: "\<And>b. length b = 16 \<Longrightarrow> length (e b) = 16 \<and> d (e b) = b"
  shows "length s mod 16 = 0 \<Longrightarrow> length prev = 16 \<Longrightarrow>
    length (cbc_encrypt e prev s) = length s \<and> cbc_decrypt d prev (cbc_encrypt e prev s) = s"
proof (induction "length s" arbitrary: s prev rule: less_induct)
  case less
  show ?case
  proof (cases "s = []")
    case True
    then show ?thesis by (simp add: cbc_encrypt.simps cbc_decrypt.simps)
  next
    case False
    then have long: "16 \<le> length s" using less.prems(1) by (metis length_0_conv mod_less not_le)
    let ?c = "e (xor_block prev (take 16 s))"
    have block: "length (xor_block prev (take 16 s)) = 16" using long less.prems(2) by simp
    have rest: "length (drop 16 s) < length s" "length (drop 16 s) mod 16 = 0"
      using long less.prems(1) by (simp_all add: mod_diff_left_eq le_mod_geq)
    note ih = less.hyps [OF rest, of ?c]
    have c: "length ?c = 16" "d ?c = xor_block prev (take 16 s)" using e [OF block] by simp_all
    have step: "cbc_encrypt e prev s = ?c @ cbc_encrypt e ?c (drop 16 s)"
      using False by (subst cbc_encrypt.simps) (simp add: BlockSize_def Let_def)
    have "cbc_decrypt d prev (cbc_encrypt e prev s) =
        xor_block prev (d ?c) @ cbc_decrypt d ?c (cbc_encrypt e ?c (drop 16 s))"
      using c(1) by (subst cbc_decrypt.simps) (auto simp: step BlockSize_def)
    also have "\<dots> = take 16 s @ drop 16 s"
      using c ih long less.prems(2) by (simp add: xor_block_twice)
    finally show ?thesis using ih c long by (simp add: step)
  qed
qed

lemma cbc_encrypt_take:
  assumes "\<And>b. length b = 16 \<Longrightarrow> length (e b) = 16"
  shows "length s mod 16 = 0 \<Longrightarrow> length prev = 16 \<Longrightarrow>
    take (16 * n) (cbc_encrypt e prev s) = cbc_encrypt e prev (take (16 * n) s)"
proof (induction n arbitrary: s prev)
  case 0
  show ?case by (simp add: cbc_encrypt.simps)
next
  case (Suc n)
  show ?case
  proof (cases "s = []")
    case True
    then show ?thesis by (simp add: cbc_encrypt.simps)
  next
    case False
    then have long: "16 \<le> length s" using Suc.prems(1) by (metis length_0_conv mod_less not_le)
    let ?c = "e (xor_block prev (take 16 s))"
    have c: "length ?c = 16" using assms long Suc.prems(2) by simp
    have rest: "length (drop 16 s) mod 16 = 0"
      using long Suc.prems(1) by (simp add: le_mod_geq)
    have "cbc_encrypt e prev (take (16 * Suc n) s) = ?c @ cbc_encrypt e ?c (take (16 * n) (drop 16 s))"
      using False by (subst cbc_encrypt.simps) (simp add: BlockSize_def Let_def min_def drop_take)
    moreover have "cbc_encrypt e prev s = ?c @ cbc_encrypt e ?c (drop 16 s)"
      using False by (subst cbc_encrypt.simps) (simp add: BlockSize_def Let_def)
    ultimately show ?thesis using Suc.IH [OF rest c] c by simp
  qed
qed

lemma length_padded: "length (paddedMessage msg) mod 16 = 0"
proof (cases "length msg mod 16 = 0")
  case True
  then show ?thesis by (simp add: paddedMessage_def padding_for_def BlockSize_def)
next
  case False
  then have "padding_for (length msg) = 16 - length msg mod 16"
    by (simp add: padding_for_def BlockSize_def Let_def)
  then have "padding_for (length msg) + length msg mod 16 = 16" by simp
  then have "padding_for (length msg) + length msg = 16 * (length msg div 16 + 1)"
    by (metis add.commute add.left_commute add_mult_distrib2 mult.right_neutral mult_div_mod_eq)
  then have "length (paddedMessage msg) = 16 * (length msg div 16 + 1)"
    by (simp add: paddedMessage_def)
  then show ?thesis by simp
qed

lemma padding_less: "padding_for n < 16"
  by (simp add: padding_for_def BlockSize_def Let_def)

lemma blocks_round_trip:
  assumes "crypto_ok cr" and "length s mod 16 = 0"
  shows "length (encrypt_blocks cr key s) = length s"
    and "decrypt_blocks cr key (encrypt_blocks cr key s) = s"
    and "take (16 * n) (encrypt_blocks cr key s) = encrypt_blocks cr key (take (16 * n) s)"
proof -
  let ?e = "aes_encrypt cr (Md5sum cr key)" and ?d = "aes_decrypt cr (Md5sum cr key)"
  note ok = crypto_okD [OF assms(1)]
  have e: "length (?e b) = 16 \<and> ?d (?e b) = b" if "length b = 16" for b using ok(2,3) that by simp
  show "length (encrypt_blocks cr key s) = length s" "decrypt_blocks cr key (encrypt_blocks cr key s) = s"
    using cbc_decrypt_encrypt [of ?e ?d, OF e assms(2) ok(1)]
    by (simp_all add: encrypt_blocks_def decrypt_blocks_def)
  show "take (16 * n) (encrypt_blocks cr key s) = encrypt_blocks cr key (take (16 * n) s)"
    unfolding encrypt_blocks_def using e assms(2) ok(1) by (intro cbc_encrypt_take) simp_all
qed

lemma drop_zeros_zeros: "drop_zeros (zeros n @ s) = drop_zeros s"
  by (induction n) (simp_all add: drop_zeros_def byte_def)

lemma drop_zeros_visible: "s \<noteq> [] \<Longrightarrow> visible (hd s) \<Longrightarrow> drop_zeros s = s"
  by (cases s) (simp_all add: drop_zeros_def visible_def)

lemma TrimSpace_visible: "s \<noteq> [] \<Longrightarrow> visible (hd s) \<Longrightarrow> visible (last s) \<Longrightarrow> TrimSpace s = s"
proof -
  assume a: "s \<noteq> []" "visible (hd s)" "visible (last s)"
  have vis: "\<not> is_space c" if "visible c" for c
    using that by (auto simp: visible_def is_space_def)
  have keep: "dropWhile is_space t = t" if "t \<noteq> []" "visible (hd t)" for t
    using that vis by (cases t) simp_all
  from a have "dropWhile is_space s = s" "dropWhile is_space (rev s) = rev s"
    using keep [of s] keep [of "rev s"] by (simp_all add: hd_rev)
  then show ?thesis by (simp add: TrimSpace_def)
qed

lemma visible_lt [simp]: "visible (CHR ''<'')"
  by (simp add: visible_def byte_def)

text \<open>What \<open>GosaEncrypt\<close> returns is left as it is by the clean-up at the start of the decryption.\<close>

lemma encrypted_text:
  assumes "crypto_ok cr" and "s \<noteq> []"
  shows "TrimSpace (b64_encode cr s) = b64_encode cr s"
    and "\<not> HasPrefix (b64_encode cr s) ''<xml>''"
    and "takeWhile (\<lambda>c. c \<noteq> CHR '';'' \<and> c \<noteq> CHR ''.'') (b64_encode cr s) = b64_encode cr s"
    and "buffer_trim cr (b64_encode cr s) = b64_encode cr s"
proof -
  note ok = crypto_okD [OF assms(1)]
  have nonempty: "b64_encode cr s \<noteq> []"
    using ok(5) [of s] assms(2) by (cases "length s") auto
  have all: "visible c \<and> c \<noteq> CHR ''<'' \<and> c \<noteq> CHR '';'' \<and> c \<noteq> CHR ''.''" if "c \<in> set (b64_encode cr s)" for c
    using ok(6) that by blast
  have ends: "visible (hd (b64_encode cr s))" "visible (last (b64_encode cr s))"
    using all nonempty by auto
  show "TrimSpace (b64_encode cr s) = b64_encode cr s" using nonempty ends by (rule TrimSpace_visible)
  show "\<not> HasPrefix (b64_encode cr s) ''<xml>''"
    using all nonempty by (cases "b64_encode cr s") (auto simp: HasPrefix_def)
  show "takeWhile (\<lambda>c. c \<noteq> CHR '';'' \<and> c \<noteq> CHR ''.'') (b64_encode cr s) = b64_encode cr s"
    using all by (simp add: takeWhile_eq_all_conv)
  show "buffer_trim cr (b64_encode cr s) = b64_encode cr s"
    using ok(8) [OF nonempty ends, of 0] by simp
qed

lemma buffer_moves:
  assumes "p + length msg \<le> B"
  defines "start \<equiv> B - length msg" and "i \<equiv> B - (p + length msg)"
  shows "drop i (copy_at i (zeros p) (copy_at start (msg @ zeros start) (msg @ zeros start))) = zeros p @ msg"
proof -
  define x where "x = take start (msg @ zeros start)"
  have lx: "length x = start" by (simp add: x_def)
  have B: "B = start + length msg" "start = i + p" using assms by simp_all
  have moved: "copy_at start (msg @ zeros start) (msg @ zeros start) = x @ msg"
    by (simp add: copy_at_def x_def)
  show ?thesis unfolding moved using lx B by (simp add: copy_at_def)
qed

lemma buffer_encryption:
  assumes "msg \<noteq> []"
  shows "GosaEncryptBuffer cr msg key = GosaEncrypt cr msg key"
proof -
  define p where "p = padding_for (length msg)"
  define B where "B = (p + length msg + 2) div 3 * 4"
  define i where "i = B - (p + length msg)"
  define D where "D = copy_at i (zeros p) (copy_at (B - length msg)
     (msg @ zeros (B - length msg)) (msg @ zeros (B - length msg)))"
  have "p + length msg \<le> B" unfolding B_def by linarith
  from buffer_moves [OF this] have D: "drop i D = paddedMessage msg"
    by (simp add: D_def i_def paddedMessage_def p_def)
  then have "i < length D"
    using assms by (metis append_is_Nil_conv drop_eq_Nil2 not_less paddedMessage_def)
  then have "drop i (take i D @ encrypt_blocks cr key (drop i D)) = encrypt_blocks cr key (paddedMessage msg)"
    using D by simp
  then show ?thesis
    using assms unfolding GosaEncryptBuffer_def GosaEncrypt_def Let_def
    by (simp only: p_def [symmetric] B_def [symmetric] i_def [symmetric] D_def [symmetric]) simp
qed

lemma buffer_decryption:
  assumes "crypto_ok cr" and "HasPrefix msg ''<xml>''" and "visible (last msg)"
  shows "GosaDecryptBuffer cr (b64_encode cr (encrypt_blocks cr key (paddedMessage msg))) key = (msg, True)"
proof -
  note ok = crypto_okD [OF assms(1)]
  let ?pad = "paddedMessage msg"
  let ?ct = "encrypt_blocks cr key ?pad"
  note rt = blocks_round_trip [OF assms(1) length_padded]
  obtain r where msg: "msg = ''<xml>'' @ r" using assms(2) by (auto simp: HasPrefix_iff)
  have len: "length ?ct = length ?pad" "length ?ct mod 16 = 0"
    using rt(1) length_padded [of msg] by simp_all
  then have long: "16 \<le> length ?ct"
    using msg by (simp add: paddedMessage_def) presburger
  then have ct: "?ct \<noteq> []" by auto
  note clean = encrypted_text [OF assms(1) ct]
  have e: "\<not> length (b64_encode cr ?ct) < 11" using long by (simp add: ok(5))
  have t: "take 5 (b64_encode cr ?ct) \<noteq> ''<xml>''"
    using clean(2) by (simp add: HasPrefix_def eval_nat_numeral)
  have "b64_decode cr (take (4 * 16) (b64_encode cr ?ct)) = take (16 * 3) ?ct"
    using ok(7) [of 16 ?ct] by simp
  also have "\<dots> = encrypt_blocks cr key (take (16 * 3) ?pad)" by (rule rt(3))
  finally have test: "b64_decode cr (take 64 (b64_encode cr ?ct)) = encrypt_blocks cr key (take 48 ?pad)"
    by simp
  have m: "length (take 48 ?pad) mod 16 = 0" using length_padded [of msg] by (simp add: min_def)
  note rt' = blocks_round_trip [OF assms(1) m, where key = key]
  have whole: "take (length t div 16 * 16) t = t" if "length t mod 16 = 0" for t :: string
    using that by (simp add: mod_eq_0_iff_dvd)
  have "48 - padding_for (length msg) = 5 + (43 - padding_for (length msg))"
    using padding_less [of "length msg"] by simp
  then have "take 48 ?pad = zeros (padding_for (length msg)) @ take (5 + (43 - padding_for (length msg))) msg"
    using padding_less [of "length msg"] by (simp add: paddedMessage_def)
  also have "take (5 + (43 - padding_for (length msg))) msg = ''<xml>'' @ take (43 - padding_for (length msg)) r"
    by (subst take_add) (simp add: msg)
  finally have "take 48 ?pad =
      zeros (padding_for (length msg)) @ ''<xml>'' @ take (43 - padding_for (length msg)) r" .
  then have found: "Contains (take 48 ?pad) ''<xml>''" using Contains_middle by metis
  have trim: "buffer_trim cr ?pad = msg"
    unfolding paddedMessage_def using msg assms(3) by (intro ok(8)) simp_all
  show ?thesis
    unfolding GosaDecryptBuffer_def Let_def clean(3) clean(4) BlockSize_def ok(4) rt(2) trim
    using e t test rt'(1,2) whole [of "encrypt_blocks cr key (take 48 ?pad)"] m found len(2) by simp
qed

text \<open>C17: Encrypted messages can be read by whoever has the key. For a message that begins with the
  tag of the messages and ends with a visible character, decryption with the same key gives the
  message back, in both variants, and the variant on buffers writes the same text as the other.\<close>

theorem encrypted_message_is_read:
  assumes "crypto_ok cr" and "HasPrefix msg ''<xml>''" and "visible (last msg)"
  shows "GosaDecrypt cr (GosaEncrypt cr msg key) key = msg \<and>
    GosaEncryptBuffer cr msg key = GosaEncrypt cr msg key \<and>
    GosaDecryptBuffer cr (GosaEncrypt cr msg key) key = (msg, True)"
proof -
  note ok = crypto_okD [OF assms(1)]
  let ?pad = "paddedMessage msg" and ?p = "padding_for (length msg)"
  let ?ct = "encrypt_blocks cr key ?pad"
  have msg: "msg \<noteq> []" "visible (hd msg)" using assms(2) by (auto simp: HasPrefix_iff)
  note rt = blocks_round_trip [OF assms(1) length_padded]
  have enc: "GosaEncrypt cr msg key = b64_encode cr ?ct" using msg by (simp add: GosaEncrypt_def)
  have len: "length ?ct = length ?pad" "length ?ct mod 16 = 0"
    using rt(1) length_padded [of msg] by simp_all
  then have ct: "?ct \<noteq> []" using msg(1) by (auto simp: paddedMessage_def)
  note clean = encrypted_text [OF assms(1) ct(1)]
  have plain: "drop_zeros ?pad = msg" "rev (drop_zeros (rev msg)) = msg" "TrimSpace msg = msg"
    using msg assms(3) TrimSpace_visible [of msg]
    by (simp_all add: paddedMessage_def drop_zeros_zeros drop_zeros_visible hd_rev)
  have "GosaDecrypt cr (GosaEncrypt cr msg key) key = msg"
    unfolding GosaDecrypt_def enc Let_def clean(1) clean(3) ok(4) BlockSize_def rt(2) plain
    using clean(2) len(2) assms(2) by simp
  moreover have "GosaEncryptBuffer cr msg key = GosaEncrypt cr msg key"
    using msg(1) by (rule buffer_encryption)
  moreover have "GosaDecryptBuffer cr (GosaEncrypt cr msg key) key = (msg, True)"
    using buffer_decryption [OF assms] by (simp add: enc)
  ultimately show ?thesis by blast
qed

text \<open>A cipher that changes nothing, with the base64 of Go's library.\<close>

definition plain_crypto :: crypto where
  "plain_crypto = \<lparr>Md5sum = id, aes_encrypt = (\<lambda>k b. b), aes_decrypt = (\<lambda>k b. b),
     b64_encode = EncodeToString,
     b64_decode = (\<lambda>s. case DecodeString s of Some t \<Rightarrow> t | None \<Rightarrow> []),
     buffer_trim = (\<lambda>s. rev (dropWhile (\<lambda>c. byte c \<le> 32) (rev (dropWhile (\<lambda>c. byte c \<le> 32) s)))),
     InitializationVector = zeros 16\<rparr>"

lemma length_EncodeToString: "length (EncodeToString s) = (length s + 2) div 3 * 4"
proof (induction s rule: EncodeToString.induct)
  case (4 a b c s)
  have "(length (a # b # c # s) + 2) div 3 = (length s + 2) div 3 + 1" by simp
  with 4 show ?case by simp
qed simp_all

lemma b64_char_visible:
  "n < 64 \<Longrightarrow> visible (b64_char n) \<and> b64_char n \<noteq> CHR ''<'' \<and> b64_char n \<noteq> CHR '';'' \<and> b64_char n \<noteq> CHR ''.''"
proof -
  assume n: "n < 64"
  have "byte (b64_char n) = (if n < 26 then 65 + n else if n < 52 then 71 + n
      else if n < 62 then n - 4 else if n = 62 then 43 else 47)"
    using n by (simp add: b64_char_def)
  moreover have "byte (CHR ''<'') = 60" "byte (CHR '';'') = 59" "byte (CHR ''.'') = 46"
    by (simp_all add: byte_def)
  ultimately show ?thesis
    using n unfolding visible_def by (auto split: if_splits dest!: arg_cong [of _ _ byte])
qed

lemma EncodeToString_visible:
  "list_all (\<lambda>c. visible c \<and> c \<noteq> CHR ''<'' \<and> c \<noteq> CHR '';'' \<and> c \<noteq> CHR ''.'') (EncodeToString s)"
  by (induction s rule: EncodeToString.induct) (simp_all add: b64_char_visible, simp_all add: visible_def byte_def)

lemma EncodeToString_take:
  "DecodeString (take (4 * n) (EncodeToString s)) = Some (take (3 * n) s)"
proof (induction s arbitrary: n rule: EncodeToString.induct)
  case (4 a b c s)
  have t: "take (4 * Suc m) (w # x # y # z # zs) = w # x # y # z # take (4 * m) zs"
    "take (3 * Suc m) (x # y # z # zs) = x # y # z # take (3 * m) zs" for m w x y z and zs :: string
    by (simp_all add: eval_nat_numeral)
  from 4 show ?case by (cases n) (simp_all add: t del: mult_Suc_right)
qed (case_tac n; simp)+

lemma plain_crypto_ok: "crypto_ok plain_crypto"
proof -
  have trim: "buffer_trim plain_crypto (zeros n @ s) = s"
    if "s \<noteq> []" "visible (hd s)" "visible (last s)" for s n
  proof -
    have "dropWhile (\<lambda>c. byte c \<le> 32) (zeros n @ s) = s"
      using that by (induction n) (cases s, simp_all add: visible_def byte_def)
    moreover have "dropWhile (\<lambda>c. byte c \<le> 32) (rev s) = rev s"
      using that by (cases "rev s") (auto simp: visible_def hd_rev)
    ultimately show ?thesis by (simp add: plain_crypto_def)
  qed
  show ?thesis
    unfolding crypto_ok_def
    using trim length_EncodeToString EncodeToString_visible Decode_Encode EncodeToString_take
    by (simp add: plain_crypto_def BlockSize_def)
qed

theorem encrypted_message_is_read_witness:
  "GosaDecrypt plain_crypto (GosaEncrypt plain_crypto ''<xml><a>1</a></xml>'' ''k'') ''k'' =
    ''<xml><a>1</a></xml>''"
  using encrypted_message_is_read [OF plain_crypto_ok, of "''<xml><a>1</a></xml>''" "''k''"]
  by (simp add: HasPrefix_def visible_def byte_def)

end
