(* ===== verification/HashString.thy ===== *)
theory HashString
  imports HashText "HOL-Library.Multiset"
begin

text \<open>
  The canonical text of an element: \<open>String()\<close> of go-susi/xml/xml_hash.go with the sort
  paths it uses (\<open>innerXML\<close>, \<open>xmlOrder\<close>, \<open>xmlParts\<close>). The text of an element comes first,
  then its subtags in alphabetical order of their names. Log lines, messages and the
  comparison of stored items use this text.
\<close>

section \<open>Package sort\<close>

text \<open>
  \<open>sort.Sort\<close> is documented to leave a permutation of its argument in which no element is
  less than an earlier one. It is not stable. \<open>sort_result lt xs ys\<close> says that ys is such
  an arrangement; \<open>sort_Sort\<close> is the one insertion sort yields, which is what evaluation uses.
\<close>

definition sort_result :: "('a \<Rightarrow> 'a \<Rightarrow> bool) \<Rightarrow> 'a list \<Rightarrow> 'a list \<Rightarrow> bool" where
  "sort_result lt xs ys \<longleftrightarrow> mset ys = mset xs \<and> sorted_wrt (\<lambda>a b. \<not> lt b a) ys"

fun sort_insert :: "('a \<Rightarrow> 'a \<Rightarrow> bool) \<Rightarrow> 'a \<Rightarrow> 'a list \<Rightarrow> 'a list" where
  "sort_insert lt x [] = [x]"
| "sort_insert lt x (y # ys) = (if lt y x then y # sort_insert lt x ys else x # y # ys)"

definition sort_Sort :: "('a \<Rightarrow> 'a \<Rightarrow> bool) \<Rightarrow> 'a list \<Rightarrow> 'a list" where
  "sort_Sort lt xs = foldr (sort_insert lt) xs []"

lemma mset_sort_insert: "mset (sort_insert lt x ys) = add_mset x (mset ys)"
  by (induction ys) auto

lemma mset_sort_Sort [simp]: "mset (sort_Sort lt xs) = mset xs"
  by (induction xs) (simp_all add: sort_Sort_def mset_sort_insert)

lemma set_sort_Sort [simp]: "set (sort_Sort lt xs) = set xs"
  by (metis mset_sort_Sort set_mset_mset)

lemma set_sort_insert [simp]: "set (sort_insert lt x ys) = insert x (set ys)"
  by (metis mset_sort_insert set_mset_add_mset_insert set_mset_mset)

lemma sort_insert_sorted:
  assumes "\<And>a b c. {a, b, c} \<subseteq> A \<Longrightarrow> \<not> lt b a \<Longrightarrow> \<not> lt c b \<Longrightarrow> \<not> lt c a"
    and "\<And>a b. lt a b \<Longrightarrow> \<not> lt b a"
    and "set (x # ys) \<subseteq> A" and "sorted_wrt (\<lambda>a b. \<not> lt b a) ys"
  shows "sorted_wrt (\<lambda>a b. \<not> lt b a) (sort_insert lt x ys)"
  using assms(3,4)
proof (induction ys)
  case Nil
  show ?case by simp
next
  case (Cons y ys)
  show ?case
  proof (cases "lt y x")
    case True
    then have "\<not> lt x y" by (rule assms(2))
    with True Cons show ?thesis by simp
  next
    case False
    have "\<not> lt z x" if "z \<in> set ys" for z
      using assms(1) [of x y z] Cons.prems that False by auto
    with Cons.prems False show ?thesis by auto
  qed
qed

lemma sort_Sort_sorted:
  assumes "\<And>a b c. {a, b, c} \<subseteq> set xs \<Longrightarrow> \<not> lt b a \<Longrightarrow> \<not> lt c b \<Longrightarrow> \<not> lt c a"
    and "\<And>a b. lt a b \<Longrightarrow> \<not> lt b a"
  shows "sort_result lt xs (sort_Sort lt xs)"
proof -
  have "set ys \<subseteq> set xs \<Longrightarrow> sorted_wrt (\<lambda>a b. \<not> lt b a) (sort_Sort lt ys)" for ys
  proof (induction ys)
    case Nil
    show ?case by (simp add: sort_Sort_def)
  next
    case (Cons y ys)
    have "set (y # sort_Sort lt ys) \<subseteq> set xs" using Cons.prems by simp
    moreover have "sorted_wrt (\<lambda>a b. \<not> lt b a) (sort_Sort lt ys)" using Cons by simp
    ultimately have "sorted_wrt (\<lambda>a b. \<not> lt b a) (sort_insert lt y (sort_Sort lt ys))"
      by (rule sort_insert_sorted [of "set xs" lt, rotated 2]) (fact assms)+
    then show ?case by (simp add: sort_Sort_def)
  qed
  then show ?thesis by (simp add: sort_result_def)
qed

text \<open>If an arrangement is strictly increasing, \<open>sort.Sort\<close> has no choice.\<close>

lemma sort_result_unique:
  assumes "sorted_wrt lt zs" and "mset zs = mset xs" and "sort_result lt xs ys"
  shows "ys = zs"
proof -
  from assms have "mset ys = mset zs" "sorted_wrt (\<lambda>a b. \<not> lt b a) ys"
    by (simp_all add: sort_result_def)
  then show ?thesis using assms(1)
  proof (induction zs arbitrary: ys)
    case Nil
    then show ?case by simp
  next
    case (Cons z zs)
    then obtain y ys' where ys: "ys = y # ys'" by (cases ys) auto
    have "y = z"
    proof (rule ccontr)
      assume ne: "y \<noteq> z"
      from Cons.prems(1) have "set ys = set (z # zs)" by (metis set_mset_mset)
      with ys ne have "y \<in> set zs" "z \<in> set ys'" by auto
      with Cons.prems(2,3) ys show False by auto
    qed
    with Cons ys show ?case by auto
  qed
qed

lemma sort_Sort_unique:
  assumes "sorted_wrt lt zs" and "mset zs = mset xs" and asym: "\<And>a b. lt a b \<Longrightarrow> \<not> lt b a"
  shows "sort_Sort lt xs = zs"
proof -
  have step: "{a, b, c} \<subseteq> set zs \<Longrightarrow> \<not> lt b a \<Longrightarrow> \<not> lt c b \<Longrightarrow> \<not> lt c a" for a b c
    using assms(1)
  proof (induction zs)
    case Nil
    then show ?case by simp
  next
    case (Cons z zs)
    have after: "lt z x \<and> \<not> lt x z" if "x \<in> set zs" for x
      using Cons.prems(4) that asym [of z x] by simp
    have self: "\<not> lt z z" using asym [of z z] by blast
    show ?case
      using Cons after self by (cases "a = z"; cases "b = z"; cases "c = z") auto
  qed
  have "set xs = set zs" using assms(2) by (metis set_mset_mset)
  with step have "sort_result lt xs (sort_Sort lt xs)"
    by (intro sort_Sort_sorted [OF _ asym]) (simp_all only:)
  then show ?thesis by (rule sort_result_unique [OF assms(1,2)])
qed

section \<open>Sort paths\<close>

type_synonym sort_element = "string \<times> nat"
type_synonym sort_path = "sort_element list"

text \<open>
  \<open>xmlOrder.Less\<close>. The loop compares the path elements before the last one of either path;
  then text goes before elements, and the last comparison is of the numbers alone.
\<close>

fun Less :: "sort_path \<Rightarrow> sort_path \<Rightarrow> bool" where
  "Less ((s1, n1) # r1) ((s2, n2) # r2) =
     (if r1 \<noteq> [] \<and> r2 \<noteq> [] then
        (if s1 < s2 then True
         else if s1 > s2 then False
         else if n1 < n2 then True
         else if n1 > n2 then False
         else Less r1 r2)
      else if length r1 < length r2 \<and> n1 mod 4 = 0 then True
      else if length r1 > length r2 \<and> n2 mod 4 = 0 then False
      else n1 < n2)"
| "Less _ _ = False"

text \<open>
  \<open>innerXML\<close> keeps one path whose last element \<open>(s, n)\<close> it changes; \<open>up\<close> is the rest of the
  path. The number grows by 4 for each piece of text, by 4 in all for each element (6 at
  its start tag and -2 later), and by 5 for the end tag, so that \<open>n & 3\<close> tells the kinds
  apart and the numbers grow in document order.
\<close>

fun text_paths :: "sort_path \<Rightarrow> sort_element \<Rightarrow> string list \<Rightarrow> sort_path list \<times> sort_element" where
  "text_paths up cur [] = ([], cur)"
| "text_paths up (s, n) (t # ts) =
     (let own = (t, n + 4); (result, cur) = text_paths up own ts
      in ((up @ [own]) # result, cur))"

fun inner_kids :: "sort_path \<Rightarrow> sort_element \<Rightarrow> kid list \<Rightarrow> sort_path list \<times> sort_element" where
  "inner_kids up cur [] = ([], cur)"
| "inner_kids up cur (Txt t # ks) =
     (let (result, cur') = text_paths up cur (escape t);
          (result', cur'') = inner_kids up cur' ks
      in (result @ result', cur''))"
| "inner_kids up (s, n) (Sub (Hash name hs) # ks) =
     (let own = (name, n + 6);
          (inside, (s', n')) = inner_kids (up @ [own]) (name, n + 6 - 2) hs;
          (result, cur) = inner_kids up (name, n + 6 - 2) ks
      in ((up @ [own, own]) # inside @ (up @ [own, (name, n' + 5)]) # result, cur))"

definition innerXML :: "hash \<Rightarrow> sort_path list" where
  "innerXML h = fst (inner_kids [] ([], 0) (kids h))"

definition part_of :: "sort_path \<Rightarrow> string list" where
  "part_of p =
     (let (s, n) = last p in
      if n mod 4 = 1 then [''</'', s, ''>'']
      else if n mod 4 = 2 then [''<'', s, ''>'']
      else [s])"

definition xmlParts :: "(sort_path list \<Rightarrow> sort_path list) \<Rightarrow> hash \<Rightarrow> string list" where
  "xmlParts sort_paths h =
     [''<'', Name h, ''>''] @ concat (map part_of (sort_paths (innerXML h))) @
     [''</'', Name h, ''>'']"

definition String :: "hash \<Rightarrow> string" where
  "String h = Join (xmlParts (sort_Sort Less) h) []"

section \<open>What is written\<close>

text \<open>
  The documented result: the text of the element, then its subtags in alphabetical order,
  those of one name in the order of the document.
\<close>

function in_order :: "hash \<Rightarrow> hash" where
  "in_order (Hash n ks) =
     Hash n (map Txt (frags ks) @ map Sub (map in_order (sort_key Name (elems ks))))"
  by pat_completeness auto
termination
  by (relation "measure size") (auto dest!: size_elems simp del: set_elems simp: set_sort)

declare in_order.simps [simp del]

lemma in_order_Name [simp]: "Name (in_order h) = Name h"
  by (cases h) (simp add: in_order.simps)

lemma in_order_own_text [simp]: "own_text (in_order h) = own_text h"
  by (cases h) (simp add: in_order.simps own_text_def TextFragments_def del: map_map)

lemma in_order_children: "children (in_order h) = map in_order (sort_key Name (children h))"
  by (cases h) (simp add: in_order.simps del: map_map)

text \<open>The order of the text and of the subtags is lost; what the lookups return is not.\<close>

lemma in_order_get1 [simp]: "get1 t (in_order h) = get1 t h"
proof -
  have "filter (\<lambda>c. Name c = t) (map in_order (sort_key Name (children h))) =
      map in_order (filter (\<lambda>c. Name c = t) (sort_key Name (children h)))"
    by (simp add: filter_map o_def)
  then show ?thesis by (simp add: get1_eq in_order_children sort_key_stable o_def)
qed

lemma writable_kids_iff: "writable_kids ks \<longleftrightarrow>
    (\<forall>s\<in>set (frags ks). list_all plain_char s) \<and> (\<forall>h\<in>set (elems ks). writable h)"
  by (induction ks rule: elems.induct) auto

lemma in_order_writable: "writable h \<Longrightarrow> writable (in_order h)"
proof (induction h rule: in_order.induct)
  case (1 n ks)
  then show ?case
    by (auto simp: in_order.simps writable_kids_iff set_sort simp del: set_elems map_map)
qed

text \<open>The numbers that pieces of text and elements are given, in document order.\<close>

fun number_texts :: "nat \<Rightarrow> string list \<Rightarrow> sort_element list" where
  "number_texts n [] = []"
| "number_texts n (t # ts) = (t, n + 4) # number_texts (n + 4) ts"

fun next_n :: "nat \<Rightarrow> kid list \<Rightarrow> nat" where
  "next_n n [] = n"
| "next_n n (Txt t # ks) = next_n (n + 4 * length (escape t)) ks"
| "next_n n (Sub h # ks) = next_n (n + 4) ks"

fun texts_at :: "nat \<Rightarrow> kid list \<Rightarrow> sort_element list" where
  "texts_at n [] = []"
| "texts_at n (Txt t # ks) = number_texts n (escape t) @ texts_at (n + 4 * length (escape t)) ks"
| "texts_at n (Sub h # ks) = texts_at (n + 4) ks"

fun kids_at :: "nat \<Rightarrow> kid list \<Rightarrow> (nat \<times> hash) list" where
  "kids_at n [] = []"
| "kids_at n (Txt t # ks) = kids_at (n + 4 * length (escape t)) ks"
| "kids_at n (Sub h # ks) = (n + 6, h) # kids_at (n + 4) ks"

lemma map_snd_kids_at [simp]: "map snd (kids_at n ks) = elems ks"
  by (induction n ks rule: kids_at.induct) auto

lemma fst_number_texts [simp]: "map fst (number_texts n ts) = ts"
  by (induction n ts rule: number_texts.induct) auto

lemma fst_texts_at [simp]: "map fst (texts_at n ks) = concat (map escape (frags ks))"
  by (induction n ks rule: texts_at.induct) auto

lemma snd_kids_at: "(m, h) \<in> set (kids_at n ks) \<Longrightarrow> h \<in> set (elems ks)"
  by (metis map_snd_kids_at image_eqI set_map snd_conv)

lemma next_n_ge: "n \<le> next_n n ks"
  by (induction n ks rule: next_n.induct) auto

text \<open>The paths in the order the documented result has them.\<close>

function sorted_paths :: "nat \<Rightarrow> hash \<Rightarrow> sort_path list" where
  "sorted_paths n (Hash name ks) =
     map (\<lambda>t. [t]) (texts_at n ks) @
     concat (map (\<lambda>(m, h). map ((#) (Name h, m))
         ([(Name h, m)] # sorted_paths (m - 2) h @ [[(Name h, next_n (m - 2) (kids h) + 5)]]))
       (sort_key (\<lambda>a. Name (snd a)) (kids_at n ks)))"
  by pat_completeness auto
termination
  by (relation "measure (size \<circ> snd)") (auto dest!: snd_kids_at size_elems simp del: set_elems simp: set_sort)

lemma insort_map: "map g (insort_key (\<lambda>a. f (g a)) x xs) = insort_key f (g x) (map g xs)"
  by (induction xs) auto

lemma sort_key_map: "map g (sort_key (\<lambda>a. f (g a)) xs) = sort_key f (map g xs)"
  by (induction xs) (simp_all add: insort_map)

lemma number_texts_mod:
  "t \<in> set (number_texts n ts) \<Longrightarrow> n mod 4 = 0 \<Longrightarrow>
    snd t mod 4 = 0 \<and> n + 4 \<le> snd t \<and> snd t \<le> n + 4 * length ts"
  by (induction n ts rule: number_texts.induct) (fastforce simp: mod_add_eq)+

lemma texts_at_mod:
  "t \<in> set (texts_at n ks) \<Longrightarrow> n mod 4 = 0 \<Longrightarrow>
    snd t mod 4 = 0 \<and> n + 4 \<le> snd t \<and> snd t \<le> next_n n ks"
proof (induction n ks rule: texts_at.induct)
  case (2 n s ks)
  have m: "(n + 4 * length (escape s)) mod 4 = 0" using 2 by simp
  then show ?case using 2 number_texts_mod [of t n "escape s"]
      next_n_ge [of "n + 4 * length (escape s)" ks] by auto
next
  case (3 n h ks)
  then have "(n + 4) mod 4 = 0" by presburger
  with 3 show ?case by auto
qed simp

lemma kids_at_mod:
  "(m, h) \<in> set (kids_at n ks) \<Longrightarrow> n mod 4 = 0 \<Longrightarrow>
    m mod 4 = 2 \<and> n + 6 \<le> m \<and> m \<le> next_n n ks + 2"
proof (induction n ks rule: kids_at.induct)
  case (2 n s ks)
  then show ?case by auto
next
  case (3 n h' ks)
  then have "(n + 4) mod 4 = 0" "(n + 6) mod 4 = 2" by presburger+
  with 3 next_n_ge [of "n + 4" ks] show ?case by auto
qed simp


lemma text_paths_eq:
  "text_paths up (s, n) ts =
     (map (\<lambda>t. up @ [t]) (number_texts n ts),
      (if ts = [] then s else last ts, n + 4 * length ts))"
  by (induction ts arbitrary: s n) (auto simp: Let_def)

text \<open>The paths of the document are those of the result, in another order.\<close>

definition kid_paths :: "nat \<times> hash \<Rightarrow> sort_path list" where
  "kid_paths a = (case a of (m, h) \<Rightarrow> map ((#) (Name h, m))
     ([(Name h, m)] # sorted_paths (m - 2) h @ [[(Name h, next_n (m - 2) (kids h) + 5)]]))"

lemma sorted_paths_eq:
  "sorted_paths n (Hash name ks) = map (\<lambda>t. [t]) (texts_at n ks) @
     concat (map kid_paths (sort_key (\<lambda>a. Name (snd a)) (kids_at n ks)))"
  by (simp add: kid_paths_def [abs_def])

declare sorted_paths.simps [simp del]

lemma mset_concat_map_cong: "mset xs = mset ys \<Longrightarrow> mset (concat (map f xs)) = mset (concat (map f ys))"
  by (simp add: mset_concat o_def flip: sum_mset_sum_list)

lemma mset_sorted_paths:
  "mset (sorted_paths n (Hash name ks)) =
     mset (map (\<lambda>t. [t]) (texts_at n ks)) + mset (concat (map kid_paths (kids_at n ks)))"
  using mset_concat_map_cong [of "sort_key (\<lambda>a. Name (snd a)) (kids_at n ks)" "kids_at n ks" kid_paths]
  by (simp add: sorted_paths_eq)

lemma mset_map_eq: "mset (map f xs) = image_mset f (mset xs)"
  by simp

lemma inner_kids_paths:
  "mset (fst (inner_kids up cur ks)) = mset (map ((@) up) (sorted_paths (snd cur) (Hash r ks))) \<and>
   snd (snd (inner_kids up cur ks)) = next_n (snd cur) ks"
proof (induction up cur ks arbitrary: r rule: inner_kids.induct)
  case (1 up cur)
  show ?case by (simp add: sorted_paths_eq)
next
  case (2 up cur t ks)
  obtain s n where cur: "cur = (s, n)" by (cases cur)
  let ?cur = "(if escape t = [] then s else last (escape t), n + 4 * length (escape t))"
  have tp: "text_paths up cur (escape t) = (map (\<lambda>t. up @ [t]) (number_texts n (escape t)), ?cur)"
    by (simp add: cur text_paths_eq)
  from 2 [OF tp [symmetric] refl, of r]
  show ?case
    by (cases "inner_kids up ?cur ks")
      (simp add: tp [unfolded cur] cur mset_sorted_paths image_mset.compositionality o_def)
next
  case (3 up s n name hs ks)
  define own where "own = (name, n + 6)"
  have snoc: "(@) (up @ [own]) = (\<lambda>a. up @ own # a)" by auto
  obtain inside s' n' where inside: "inner_kids (up @ [own]) (name, n + 4) hs = (inside, (s', n'))"
    by (metis prod.exhaust)
  obtain result cur where rest: "inner_kids up (name, n + 4) ks = (result, cur)"
    by (cases "inner_kids up (name, n + 4) ks")
  have "mset inside = mset (map ((@) (up @ [own])) (sorted_paths (n + 4) (Hash name hs)))"
    and n': "n' = next_n (n + 4) hs"
    using 3(1) [OF own_def, of name] inside by (simp_all add: add.commute [of 4 n] snoc)
  moreover have "mset result = mset (map ((@) up) (sorted_paths (n + 4) (Hash r ks)))"
    "snd cur = next_n (n + 4) ks"
    using 3(2) [OF own_def, of "(inside, (s', n'))" inside "(s', n')" s' n' r] inside rest
    by (simp_all add: add.commute [of 4 n])
  moreover have "inner_kids up (s, n) (Sub (Hash name hs) # ks) =
      ((up @ [own, own]) # inside @ (up @ [own, (name, n' + 5)]) # result, cur)"
    using inside rest by (simp add: own_def Let_def add.commute [of 4 n])
  ultimately show ?case
    by (simp add: mset_sorted_paths kid_paths_def own_def n' o_def snoc [unfolded own_def] add.commute [of 4 n] image_mset.compositionality)
qed

lemma Less_Cons [simp]: "a \<noteq> [] \<Longrightarrow> b \<noteq> [] \<Longrightarrow> Less (x # a) (x # b) = Less a b"
  by (cases x) simp

lemma Less_asym: "Less a b \<Longrightarrow> \<not> Less b a"
  by (induction a b rule: Less.induct) (auto split: if_splits)

lemma sorted_sort_key:
  "sorted_wrt R xs \<Longrightarrow>
    sorted_wrt (\<lambda>a b. f a < f b \<or> f a = f b \<and> R a b) (sort_key f xs)"
proof (induction xs)
  case (Cons x xs)
  have "sorted_wrt (\<lambda>a b. f a < f b \<or> f a = f b \<and> R a b) (insort_key f x ys)"
    if "sorted_wrt (\<lambda>a b. f a < f b \<or> f a = f b \<and> R a b) ys" "\<forall>y\<in>set ys. R x y" for ys
    using that by (induction ys) (auto simp: set_insort_key not_le intro: less_trans)
  with Cons show ?case by simp
qed simp


text \<open>They are strictly increasing.\<close>

lemma sorted_number_texts:
  "n mod 4 = 0 \<Longrightarrow> sorted_wrt (\<lambda>a b. snd a < snd b) (number_texts n ts)"
proof (induction ts arbitrary: n)
  case (Cons t ts)
  then have m: "(n + 4) mod 4 = 0" by simp
  with Cons.IH [OF m] number_texts_mod [of _ "n + 4" ts] show ?case by force
qed simp

lemma sorted_texts_at:
  "n mod 4 = 0 \<Longrightarrow> sorted_wrt (\<lambda>a b. snd a < snd b) (texts_at n ks)"
proof (induction n ks rule: texts_at.induct)
  case (2 n t ks)
  then have m: "(n + 4 * length (escape t)) mod 4 = 0" by simp
  from 2 show ?case
    using number_texts_mod [of _ n "escape t"] texts_at_mod [OF _ m, of _ ks]
    by (force simp: sorted_wrt_append sorted_number_texts)
qed simp_all

lemma sorted_kids_at: "n mod 4 = 0 \<Longrightarrow> sorted_wrt (\<lambda>a b. fst a < fst b) (kids_at n ks)"
proof (induction n ks rule: kids_at.induct)
  case (3 n h ks)
  then have m: "(n + 4) mod 4 = 0" by simp
  from 3 show ?case using kids_at_mod [OF _ m, of _ _ ks] by force
qed simp_all

lemma kid_paths_Cons: "p \<in> set (kid_paths (m, h)) \<Longrightarrow> p \<noteq> []"
  by (auto simp: kid_paths_def)

lemma sorted_paths_Cons: "[] \<notin> set (sorted_paths n h)"
  by (cases h) (auto simp: sorted_paths_eq set_sort dest: kid_paths_Cons)

lemma kid_paths_form: "p \<in> set (kid_paths (m, h)) \<Longrightarrow> \<exists>r. p = (Name h, m) # r \<and> r \<noteq> []"
  using sorted_paths_Cons [of "m - 2" h] by (auto simp: kid_paths_def)

lemma sorted_paths_form:
  assumes "p \<in> set (sorted_paths n (Hash name ks))" and "n mod 4 = 0"
  shows "\<exists>s m r. p = (s, m) # r \<and> (r = [] \<longrightarrow> m mod 4 = 0 \<and> n + 4 \<le> m \<and> m \<le> next_n n ks) \<and>
    (r \<noteq> [] \<longrightarrow> m mod 4 = 2 \<and> n + 6 \<le> m \<and> m \<le> next_n n ks + 2)"
proof -
  from assms(1) consider t where "t \<in> set (texts_at n ks)" "p = [t]"
    | a where "a \<in> set (kids_at n ks)" "p \<in> set (kid_paths a)"
    by (auto simp: sorted_paths_eq set_sort)
  then show ?thesis
  proof cases
    case 1
    with texts_at_mod [of t n ks] assms(2) show ?thesis by (cases t) auto
  next
    case 2
    obtain m h where a: "a = (m, h)" by (cases a)
    with kids_at_mod [of m h n ks] 2(1) assms(2)
    have "m mod 4 = 2 \<and> n + 6 \<le> m \<and> m \<le> next_n n ks + 2" by simp
    moreover obtain r where "p = (Name h, m) # r" "r \<noteq> []"
      using 2(2) kid_paths_form a by blast
    ultimately show ?thesis by simp
  qed
qed

lemma sorted_wrt_concat_map:
  assumes "sorted_wrt (\<lambda>a b. \<forall>x\<in>set (f a). \<forall>y\<in>set (f b). R x y) xs"
    and "\<And>a. a \<in> set xs \<Longrightarrow> sorted_wrt R (f a)"
  shows "sorted_wrt R (concat (map f xs))"
  using assms by (induction xs) (auto simp: sorted_wrt_append)

lemma next_n_mod: "n mod 4 = 0 \<Longrightarrow> next_n n ks mod 4 = 0"
  by (induction n ks rule: next_n.induct) auto

lemma Less_block:
  assumes "n mod 4 = 2" and "z \<in> set (sorted_paths (n - 2) h)"
  shows "Less [(s, n)] z" and "Less z [(s, next_n (n - 2) (kids h) + 5)]"
proof -
  obtain name ks where h: "h = Hash name ks" by (cases h)
  have m: "(n - 2) mod 4 = 0" using assms(1) by presburger
  then have e: "(next_n (n - 2) ks + 5) mod 4 = 1" using next_n_mod [of "n - 2" ks] by presburger
  obtain t k r where z: "z = (t, k) # r"
    and f: "r = [] \<longrightarrow> k mod 4 = 0 \<and> n - 2 + 4 \<le> k \<and> k \<le> next_n (n - 2) ks"
      "r \<noteq> [] \<longrightarrow> k mod 4 = 2 \<and> n - 2 + 6 \<le> k \<and> k \<le> next_n (n - 2) ks + 2"
    using sorted_paths_form [OF assms(2) [unfolded h] m] by (elim exE conjE) (rule that)
  have n: "2 \<le> n" using assms(1) by presburger
  show "Less [(s, n)] z" using f z n assms(1) by (cases r) simp_all
  show "Less z [(s, next_n (n - 2) (kids h) + 5)]"
    using f z e h by (cases r) simp_all
qed

lemma sorted_paths_increasing: "n mod 4 = 0 \<Longrightarrow> sorted_wrt Less (sorted_paths n h)"
proof (induction n h rule: sorted_paths.induct)
  case (1 n name ks)
  let ?ks = "sort_key (\<lambda>a. Name (snd a)) (kids_at n ks)"
  have at: "m mod 4 = 2 \<and> (m - 2) mod 4 = 0" if "(m, h) \<in> set ?ks" for m h
    using kids_at_mod [of m h n ks] that 1(2) by (simp add: set_sort) presburger
  have block: "sorted_wrt Less (kid_paths a)" if a: "a \<in> set ?ks" for a
  proof -
    obtain m h where mh: "a = (m, h)" by (cases a)
    with at a have m: "m mod 4 = 2" "(m - 2) mod 4 = 0" by blast+
    have "sorted_wrt Less (sorted_paths (m - 2) h)" using 1(1) [OF _ mh [symmetric]] a m(2) by simp
    moreover have "Less [(Name h, m)] [(Name h, next_n (m - 2) (kids h) + 5)]"
      using next_n_ge [of "m - 2" "kids h"] m(1) by simp
    ultimately have "sorted_wrt Less ([(Name h, m)] # sorted_paths (m - 2) h @
        [[(Name h, next_n (m - 2) (kids h) + 5)]])"
      using Less_block [OF m(1), of _ h "Name h"] by (auto simp: sorted_wrt_append)
    then show ?thesis
      using sorted_paths_Cons [of "m - 2" h] mh
      by (auto simp: kid_paths_def sorted_wrt_map sorted_wrt_append elim!: sorted_wrt_mono_rel [rotated])
  qed
  have "sorted_wrt (\<lambda>a b. Name (snd a) < Name (snd b) \<or> Name (snd a) = Name (snd b) \<and> fst a < fst b) ?ks"
    by (rule sorted_sort_key [OF sorted_kids_at [OF 1(2)]])
  then have "sorted_wrt (\<lambda>a b. \<forall>x\<in>set (kid_paths a). \<forall>y\<in>set (kid_paths b). Less x y) ?ks"
    by (rule sorted_wrt_mono_rel [rotated]) (fastforce dest!: kid_paths_form)
  then have kids: "sorted_wrt Less (concat (map kid_paths ?ks))"
    by (rule sorted_wrt_concat_map) (rule block)
  have texts: "sorted_wrt Less (map (\<lambda>t. [t]) (texts_at n ks))"
    unfolding sorted_wrt_map
    by (rule sorted_wrt_mono_rel [OF _ sorted_texts_at [OF 1(2)]]) auto
  have "Less [t] p" if t: "t \<in> set (texts_at n ks)" and p: "p \<in> set (concat (map kid_paths ?ks))" for t p
  proof -
    from p obtain m h r where "p = (Name h, m) # r" "r \<noteq> []" using kid_paths_form by fastforce
    with texts_at_mod [OF t 1(2)] show ?thesis by (cases t) simp
  qed
  with texts kids show ?case by (auto simp: sorted_paths_eq sorted_wrt_append simp del: set_concat)
qed


text \<open>Rendered, the paths are the pieces that \<open>WriteTo\<close> writes for the ordered element.\<close>

lemma part_of_Cons [simp]: "p \<noteq> [] \<Longrightarrow> part_of (x # p) = part_of p"
  by (simp add: part_of_def)

lemma part_of_end: "n mod 4 = 0 \<Longrightarrow> part_of [(s, n + 5)] = [''</'', s, ''>'']"
  by (simp add: part_of_def) presburger

lemma concat_map_concat:
  "(\<And>a. a \<in> set xs \<Longrightarrow> concat (map f (g a)) = k a) \<Longrightarrow>
    concat (map f (concat (map g xs))) = concat (map k xs)"
  by (induction xs) auto

lemma parts_of_texts:
  "n mod 4 = 0 \<Longrightarrow> concat (map part_of (map (\<lambda>t. [t]) (texts_at n ks))) = concat (map escape (frags ks))"
proof -
  assume n: "n mod 4 = 0"
  have "part_of [t] = [fst t]" if "t \<in> set (texts_at n ks)" for t
    using texts_at_mod [OF that n] by (cases t) (simp add: part_of_def)
  then have "concat (map part_of (map (\<lambda>t. [t]) (texts_at n ks))) =
      concat (map (\<lambda>t. [fst t]) (texts_at n ks))" by (intro arg_cong [of _ _ concat]) simp
  also have "\<dots> = map fst (texts_at n ks)" by (induction "texts_at n ks") auto
  finally have "concat (map part_of (map (\<lambda>t. [t]) (texts_at n ks))) = map fst (texts_at n ks)" .
  then show ?thesis by simp
qed

lemma write_kids_eq:
  "write_kids (map Txt ts @ map Sub hs) = concat (map escape ts) @ concat (map write_pieces hs)"
  by (induction ts) (simp, induction hs, auto)

lemma parts_of_paths:
  "n mod 4 = 0 \<Longrightarrow> [''<'', Name h, ''>''] @ concat (map part_of (sorted_paths n h)) @ [''</'', Name h, ''>''] =
     write_pieces (in_order h)"
proof (induction n h rule: sorted_paths.induct)
  case (1 n name ks)
  let ?ks = "sort_key (\<lambda>a. Name (snd a)) (kids_at n ks)"
  have "concat (map part_of (kid_paths a)) = write_pieces (in_order (snd a))" if a: "a \<in> set ?ks" for a
  proof -
    obtain m h where mh: "a = (m, h)" by (cases a)
    with a kids_at_mod [of m h n ks] 1(2) have m: "m mod 4 = 2" "(m - 2) mod 4 = 0"
      by (simp_all add: set_sort) presburger
    have "part_of [(Name h, m)] = [''<'', Name h, ''>'']" using m(1) by (simp add: part_of_def)
    moreover have "concat (map (\<lambda>p. part_of ((Name h, m) # p)) (sorted_paths (m - 2) h)) =
        concat (map part_of (sorted_paths (m - 2) h))"
      using sorted_paths_Cons [of "m - 2" h] by (metis (mono_tags, lifting) map_cong part_of_Cons)
    moreover have "part_of [(Name h, next_n (m - 2) (kids h) + 5)] = [''</'', Name h, ''>'']"
      by (rule part_of_end [OF next_n_mod [OF m(2)]])
    moreover note 1(1) [OF a mh [symmetric] m(2)]
    ultimately show ?thesis by (simp add: mh kid_paths_def o_def)
  qed
  then have "concat (map part_of (concat (map kid_paths ?ks))) =
      concat (map (\<lambda>a. write_pieces (in_order (snd a))) ?ks)"
    by (rule concat_map_concat)
  moreover have "sort_key Name (elems ks) = map snd ?ks" by (simp add: sort_key_map)
  ultimately show ?case
    using parts_of_texts [OF 1(2), of ks]
      write_kids_eq [of "frags ks" "map in_order (map snd ?ks)"]
    by (simp add: sorted_paths_eq in_order.simps o_def)
qed

lemma sorted_innerXML: "mset (sorted_paths 0 h) = mset (innerXML h)"
proof -
  obtain name ks where h: "h = Hash name ks" by (cases h)
  have "(@) [] = (\<lambda>p :: sort_path. p)" by auto
  then show ?thesis
    using inner_kids_paths [of "[]" "([], 0)" ks name] by (simp add: innerXML_def h)
qed

lemma xmlParts_in_order:
  assumes "sort_result Less (innerXML h) (sort_paths (innerXML h))"
  shows "xmlParts sort_paths h = write_pieces (in_order h)"
proof -
  have "sort_paths (innerXML h) = sorted_paths 0 h"
    by (rule sort_result_unique [OF sorted_paths_increasing sorted_innerXML assms]) simp
  then show ?thesis using parts_of_paths [of 0 h] by (simp add: xmlParts_def)
qed

lemma sort_innerXML: "sort_result Less (innerXML h) (sort_Sort Less (innerXML h))"
proof -
  note m = sorted_innerXML [of h]
  have inc: "sorted_wrt Less (sorted_paths 0 h)" by (rule sorted_paths_increasing) simp
  then have "sort_Sort Less (innerXML h) = sorted_paths 0 h"
    by (rule sort_Sort_unique [OF _ m Less_asym])
  with m inc show ?thesis
    by (auto simp: sort_result_def dest: Less_asym intro: sorted_wrt_mono_rel)
qed

lemma String_eq: "String h = serialize (in_order h)"
proof -
  have "Join ps [] = concat ps" for ps :: "string list" by (induction ps "[] :: string" rule: Join.induct) auto
  then show ?thesis by (simp add: String_def serialize_def xmlParts_in_order [of h "sort_Sort Less", OF sort_innerXML])
qed

text \<open>C19: The sorting of \<open>String\<close> is right however \<open>sort.Sort\<close> arranges equal paths: for any
  arrangement it may give, the pieces are those of the element with the text moved to the
  front and the subtags, at all depths, in alphabetical order, those of one name in their
  order in the document. There are no two paths it could exchange.\<close>

theorem String_is_canonical:
  assumes "sort_result Less (innerXML h) (sort_paths (innerXML h))"
  shows "xmlParts sort_paths h = write_pieces (in_order h)"
  by (rule xmlParts_in_order [of h sort_paths, OF assms])

theorem String_is_canonical_witness:
  "xmlParts (sort_Sort Less) (Hash ''x'' [Sub (Hash ''b'' []), Txt ''1'', Sub (Hash ''a'' [Txt ''<'']), Txt ''2'']) =
     [''<'', ''x'', ''>'', ''1'', ''2'', ''<'', ''a'', ''>'', [], ''&lt;'', [], ''</'', ''a'', ''>'',
      ''<'', ''b'', ''>'', ''</'', ''b'', ''>'', ''</'', ''x'', ''>'']"
  using String_is_canonical [of "Hash ''x'' [Sub (Hash ''b'' []), Txt ''1'', Sub (Hash ''a'' [Txt ''<'']), Txt ''2'']"
      "sort_Sort Less", OF sort_innerXML] by (simp only:) code_simp

text \<open>A message or item that was sent as \<open>String()\<close> reads with the same values.\<close>

lemma String_read:
  assumes "writable h"
  shows "\<exists>r. StringToHash (decoder [] (String h)) = (r, None) \<and> canon r = canon (in_order h)"
  using write_read [OF in_order_writable [OF assms]] canon_reread by (simp add: String_eq)

section \<open>Files\<close>

text \<open>
  \<open>FileToHash\<close> and \<open>ReaderToHash\<close>: an error from the file gives the empty element \<open>xml\<close>; white
  space (any byte up to a blank) at the end of the data is dropped before it is parsed.
\<close>

datatype read_error = FileError string | ParseError parse_error

definition ReaderToHash ::
  "(string \<Rightarrow> token list \<times> bool) \<Rightarrow> string result \<Rightarrow> hash \<times> read_error option" where
  "ReaderToHash dec contents =
     (case contents of
        Inl err \<Rightarrow> (NewHash ''xml'' [], Some (FileError err))
      | Inr xmldata \<Rightarrow>
          (case StringToHash (dec (rev (dropWhile (\<lambda>c. byte c \<le> 32) (rev xmldata)))) of
             (x, err) \<Rightarrow> (x, map_option ParseError err)))"

definition FileToHash ::
  "(string \<Rightarrow> token list \<times> bool) \<Rightarrow> (string \<Rightarrow> string result) \<Rightarrow> string \<Rightarrow> hash \<times> read_error option" where
  "FileToHash dec read_all file =
     (case read_all file of
        Inl err \<Rightarrow> (NewHash ''xml'' [], Some (FileError err))
      | Inr d \<Rightarrow> ReaderToHash dec (Inr d))"

text \<open>A saved element is read back from a file, whatever white space an editor left behind it.\<close>

lemma FileToHash_serialized:
  assumes "writable h" and "read_all file = Inr (serialize h @ sp)" and "\<forall>c\<in>set sp. byte c \<le> 32"
  shows "FileToHash (decoder []) read_all file = (reread h, None)"
proof -
  have "\<exists>s. serialize h = s @ ''>''"
    by (cases h) (simp add: serialize_def)
  then obtain s where s: "serialize h = s @ ''>''" by blast
  have "\<not> byte (CHR ''>'') \<le> 32" by code_simp
  with assms(3) s have "rev (dropWhile (\<lambda>c. byte c \<le> 32) (rev (serialize h @ sp))) = serialize h"
    by (simp add: dropWhile_append)
  with assms write_read [OF assms(1)] show ?thesis
    by (simp add: FileToHash_def ReaderToHash_def)
qed

end
