(* ===== verification/Dispatch.thy ===== *)
theory Dispatch
  imports Access Crypt HashString ClientDB ServerDB
begin

text \<open>
  What is done with a message that arrives, go-susi/message/process_msg.go: decryption with
  the known keys, the choice of the handler and the access rights it needs, the reply, and the
  attempts to re-establish communication with a party whose messages cannot be read.

  The handlers themselves are an argument \<open>run\<close> of the functions here: they get the message and
  the state of the server and return the new state and the reply.
\<close>

section \<open>Handlers and the rights they need\<close>

datatype handler =
    Do_new_ldap_config | Do_new_foo_config | Do_registered | Do_deregistered | Do_usr_msg
    | Do_set_activated_for_installation | Do_detect_hardware | Do_trigger_action_foo
    | Do_sistats | Do_panic | Do_gosa_ping | Do_gosa_query_jobdb | Do_gosa_query_fai_server
    | Do_gosa_query_fai_release | Do_gosa_query_packages_list | Do_gosa_query_audit
    | Do_gosa_query_audit_aggregate | Do_gosa_show_log_by_mac
    | Do_gosa_show_log_files_by_date_and_mac | Do_gosa_get_log_file_by_date_and_mac
    | Do_gosa_get_available_kernel | Do_new_server | Do_confirm_new_server
    | Do_foreign_job_updates | Do_new_foreign_client | Do_information_sharing
    | Do_here_i_am | Do_new_key | Do_detected_hardware | Do_clmsg_currently_logged_in
    | Do_clmsg_login | Do_clmsg_logout | Do_clmsg_progress | Do_clmsg_taskdie
    | Do_clmsg_gotoactivation | Do_gosa_set_activated_for_installation
    | Do_gosa_trigger_action | Do_job_trigger_action | Do_job_trigger_activate_new
    | Do_job_send_user_msg | Do_trigger_wake | Do_gosa_delete_jobdb_entry
    | Do_gosa_update_status_jobdb_entry

text \<open>The first switch of \<open>ProcessXMLMessage\<close>, without sistats and panic.\<close>

definition client_messages :: "(string \<times> handler) list" where
  "client_messages =
     [(''new_ldap_config'', Do_new_ldap_config),
      (''new_ntp_config'', Do_new_foo_config),
      (''registered'', Do_registered),
      (''deregistered'', Do_deregistered),
      (''usr_msg'', Do_usr_msg),
      (''set_activated_for_installation'', Do_set_activated_for_installation),
      (''detect_hardware'', Do_detect_hardware),
      (''trigger_action_halt'', Do_trigger_action_foo),
      (''trigger_action_localboot'', Do_trigger_action_foo),
      (''trigger_action_reboot'', Do_trigger_action_foo),
      (''trigger_action_faireboot'', Do_trigger_action_foo),
      (''trigger_action_update'', Do_trigger_action_foo),
      (''trigger_action_reinstall'', Do_trigger_action_foo),
      (''trigger_action_audit'', Do_trigger_action_foo),
      (''trigger_action_instant_update'', Do_trigger_action_foo)]"

text \<open>The second switch: the right that is needed, its name, and the handler.\<close>

definition server_messages :: "(string \<times> (access_control \<Rightarrow> bool) \<times> string \<times> handler) list" where
  "server_messages =
     [(''gosa_ping'', \<lambda>a. Query_QueryAll (QueryRights a), ''queryAll'', Do_gosa_ping),
      (''gosa_query_jobdb'', \<lambda>a. Query_QueryJobs (QueryRights a) \<or> Query_QueryAll (QueryRights a), ''queryJobs'', Do_gosa_query_jobdb),
      (''gosa_query_fai_server'', \<lambda>a. Query_QueryAll (QueryRights a), ''queryAll'', Do_gosa_query_fai_server),
      (''gosa_query_fai_release'', \<lambda>a. Query_QueryAll (QueryRights a), ''queryAll'', Do_gosa_query_fai_release),
      (''gosa_query_packages_list'', \<lambda>a. Query_QueryAll (QueryRights a), ''queryAll'', Do_gosa_query_packages_list),
      (''gosa_query_audit'', \<lambda>a. Query_QueryAll (QueryRights a), ''queryAll'', Do_gosa_query_audit),
      (''gosa_query_audit_aggregate'', \<lambda>a. Query_QueryAll (QueryRights a), ''queryAll'', Do_gosa_query_audit_aggregate),
      (''gosa_show_log_by_mac'', \<lambda>a. Query_QueryAll (QueryRights a), ''queryAll'', Do_gosa_show_log_by_mac),
      (''gosa_show_log_files_by_date_and_mac'', \<lambda>a. Query_QueryAll (QueryRights a), ''queryAll'', Do_gosa_show_log_files_by_date_and_mac),
      (''gosa_get_log_file_by_date_and_mac'', \<lambda>a. Query_QueryAll (QueryRights a), ''queryAll'', Do_gosa_get_log_file_by_date_and_mac),
      (''gosa_get_available_kernel'', \<lambda>a. Query_QueryAll (QueryRights a), ''queryAll'', Do_gosa_get_available_kernel),
      (''new_server'', \<lambda>a. Misc_Peer (MiscRights a), ''peer'', Do_new_server),
      (''confirm_new_server'', \<lambda>a. Misc_Peer (MiscRights a), ''peer'', Do_confirm_new_server),
      (''foreign_job_updates'', \<lambda>a. Misc_Peer (MiscRights a), ''peer'', Do_foreign_job_updates),
      (''new_foreign_client'', \<lambda>a. True, [], Do_new_foreign_client),
      (''information_sharing'', \<lambda>a. True, [], Do_information_sharing),
      (''here_i_am'', \<lambda>a. True, [], Do_here_i_am),
      (''new_key'', \<lambda>a. True, [], Do_new_key),
      (''detected_hardware'', \<lambda>a. True, [], Do_detected_hardware),
      (''CLMSG_CURRENTLY_LOGGED_IN'', \<lambda>a. True, [], Do_clmsg_currently_logged_in),
      (''CLMSG_LOGIN'', \<lambda>a. True, [], Do_clmsg_login),
      (''CLMSG_LOGOUT'', \<lambda>a. True, [], Do_clmsg_logout),
      (''CLMSG_PROGRESS'', \<lambda>a. True, [], Do_clmsg_progress),
      (''CLMSG_TASKDIE'', \<lambda>a. True, [], Do_clmsg_taskdie),
      (''CLMSG_GOTOACTIVATION'', \<lambda>a. True, [], Do_clmsg_gotoactivation),
      (''job_set_activated_for_installation'', \<lambda>a. Jobs_Unlock (JobRights a) \<or> Jobs_JobsAll (JobRights a), ''unlock'', Do_gosa_set_activated_for_installation),
      (''gosa_set_activated_for_installation'', \<lambda>a. Jobs_Unlock (JobRights a) \<or> Jobs_JobsAll (JobRights a), ''unlock'', Do_gosa_set_activated_for_installation),
      (''gosa_trigger_action_lock'', \<lambda>a. Jobs_Lock (JobRights a) \<or> Jobs_JobsAll (JobRights a), ''lock'', Do_gosa_trigger_action),
      (''gosa_trigger_action_reboot'', \<lambda>a. Jobs_Shutdown (JobRights a) \<or> Jobs_JobsAll (JobRights a), ''shutdown'', Do_gosa_trigger_action),
      (''gosa_trigger_action_halt'', \<lambda>a. Jobs_Shutdown (JobRights a) \<or> Jobs_JobsAll (JobRights a), ''shutdown'', Do_gosa_trigger_action),
      (''gosa_trigger_action_localboot'', \<lambda>a. Jobs_Abort (JobRights a) \<or> Jobs_JobsAll (JobRights a), ''abort'', Do_gosa_trigger_action),
      (''gosa_trigger_action_faireboot'', \<lambda>a. Jobs_Abort (JobRights a) \<or> Jobs_JobsAll (JobRights a), ''abort'', Do_gosa_trigger_action),
      (''gosa_trigger_action_activate'', \<lambda>a. Jobs_Unlock (JobRights a) \<or> Jobs_JobsAll (JobRights a), ''unlock'', Do_gosa_trigger_action),
      (''gosa_trigger_action_update'', \<lambda>a. Jobs_Update (JobRights a) \<or> Jobs_JobsAll (JobRights a), ''update'', Do_gosa_trigger_action),
      (''gosa_trigger_action_reinstall'', \<lambda>a. Jobs_Install (JobRights a) \<or> Jobs_JobsAll (JobRights a), ''install'', Do_gosa_trigger_action),
      (''gosa_trigger_action_wake'', \<lambda>a. Jobs_Wake (JobRights a) \<or> Jobs_JobsAll (JobRights a), ''wake'', Do_gosa_trigger_action),
      (''gosa_trigger_action_audit'', \<lambda>a. Jobs_Audit (JobRights a) \<or> Jobs_JobsAll (JobRights a), ''audit'', Do_gosa_trigger_action),
      (''job_trigger_action_lock'', \<lambda>a. Jobs_Lock (JobRights a) \<or> Jobs_JobsAll (JobRights a), ''lock'', Do_job_trigger_action),
      (''job_trigger_action_reboot'', \<lambda>a. Jobs_Shutdown (JobRights a) \<or> Jobs_JobsAll (JobRights a), ''shutdown'', Do_job_trigger_action),
      (''job_trigger_action_halt'', \<lambda>a. Jobs_Shutdown (JobRights a) \<or> Jobs_JobsAll (JobRights a), ''shutdown'', Do_job_trigger_action),
      (''job_trigger_action_localboot'', \<lambda>a. Jobs_Abort (JobRights a) \<or> Jobs_JobsAll (JobRights a), ''abort'', Do_job_trigger_action),
      (''job_trigger_action_faireboot'', \<lambda>a. Jobs_Abort (JobRights a) \<or> Jobs_JobsAll (JobRights a), ''abort'', Do_job_trigger_action),
      (''job_trigger_action_activate'', \<lambda>a. Jobs_Unlock (JobRights a) \<or> Jobs_JobsAll (JobRights a), ''unlock'', Do_job_trigger_action),
      (''job_trigger_action_update'', \<lambda>a. Jobs_Update (JobRights a) \<or> Jobs_JobsAll (JobRights a), ''update'', Do_job_trigger_action),
      (''job_trigger_action_reinstall'', \<lambda>a. Jobs_Install (JobRights a) \<or> Jobs_JobsAll (JobRights a), ''install'', Do_job_trigger_action),
      (''job_trigger_action_wake'', \<lambda>a. Jobs_Wake (JobRights a) \<or> Jobs_JobsAll (JobRights a), ''wake'', Do_job_trigger_action),
      (''job_trigger_action_audit'', \<lambda>a. Jobs_Audit (JobRights a) \<or> Jobs_JobsAll (JobRights a), ''audit'', Do_job_trigger_action),
      (''gosa_trigger_activate_new'', \<lambda>a. Jobs_NewSys (JobRights a) \<or> Jobs_JobsAll (JobRights a), ''newSys'', Do_job_trigger_activate_new),
      (''job_trigger_activate_new'', \<lambda>a. Jobs_NewSys (JobRights a) \<or> Jobs_JobsAll (JobRights a), ''newSys'', Do_job_trigger_activate_new),
      (''gosa_send_user_msg'', \<lambda>a. Jobs_UserMsg (JobRights a) \<or> Jobs_JobsAll (JobRights a), ''userMsg'', Do_job_send_user_msg),
      (''job_send_user_msg'', \<lambda>a. Jobs_UserMsg (JobRights a) \<or> Jobs_JobsAll (JobRights a), ''userMsg'', Do_job_send_user_msg),
      (''trigger_wake'', \<lambda>a. Misc_Wake (MiscRights a), ''wake'', Do_trigger_wake),
      (''gosa_delete_jobdb_entry'', \<lambda>a. Jobs_ModifyJobs (JobRights a), ''modifyJobs'', Do_gosa_delete_jobdb_entry),
      (''gosa_update_status_jobdb_entry'', \<lambda>a. Jobs_ModifyJobs (JobRights a), ''modifyJobs'', Do_gosa_update_status_jobdb_entry)]"

definition fai_messages :: "string list" where
  "fai_messages = [''CLMSG_HOOK'', ''CLMSG_TASKBEGIN'', ''CLMSG_check'', ''CLMSG_TASKEND'']"

text \<open>\<open>handleServerMessage\<close>: only servers handle these messages, and only with the right.\<close>

definition handleServerMessage :: "bool \<Rightarrow> bool \<Rightarrow> bool" where
  "handleServerMessage run_server right = (run_server \<and> right)"

datatype decision = Run handler | Ignored | Logged | Unknown

definition dispatch :: "bool \<Rightarrow> access_control \<Rightarrow> string \<Rightarrow> decision" where
  "dispatch run_server a header =
     (case map_of client_messages header of
        Some h \<Rightarrow> Run h
      | None \<Rightarrow>
          if header = ''sistats'' then (if Query_QueryAll (QueryRights a) then Run Do_sistats else Ignored)
          else if header = ''panic'' then (if Misc_Debug (MiscRights a) then Run Do_panic else Ignored)
          else
            (case map_of server_messages header of
               Some (right, name, h) \<Rightarrow>
                 if handleServerMessage run_server (right a) then Run h else Ignored
             | None \<Rightarrow> if header \<in> set fai_messages then Logged else Unknown))"

section \<open>Processing a message\<close>

record process_config =
  RunServer :: bool
  ServerSourceAddress :: string
  TLSRequired :: bool
  ModuleKeys :: "string list"
  own_IP :: string

definition ErrorReplyXML :: "process_config \<Rightarrow> string \<Rightarrow> hash" where
  "ErrorReplyXML cfg msg =
     Add ''answer1'' [''1''] (Add ''target'' [''GOSA''] (Add ''source'' [ServerSourceAddress cfg]
       (Add ''error_string'' [msg] (NewHash ''xml'' [''header'', ''answer'']))))"

definition ErrorReply :: "process_config \<Rightarrow> string \<Rightarrow> string" where
  "ErrorReply cfg msg = String (ErrorReplyXML cfg msg)"

definition ErrorReplyBuffer :: "process_config \<Rightarrow> string \<Rightarrow> string" where
  "ErrorReplyBuffer cfg msg = serialize (ErrorReplyXML cfg msg)"

type_synonym 's handlers = "handler \<Rightarrow> hash \<Rightarrow> 's \<Rightarrow> 's \<times> string"

definition ProcessXMLMessage ::
  "process_config \<Rightarrow> crypto \<Rightarrow> 's handlers \<Rightarrow> security_context \<Rightarrow> string \<Rightarrow> hash \<Rightarrow> 's \<Rightarrow>
   's \<times> string \<times> bool" where
  "ProcessXMLMessage cfg cr run c key xml st =
     (let header = text_of ''header'' xml in
      if \<not> TLS c \<and> key = ''dummy-key'' \<and> header \<noteq> ''gosa_ping''
      then (st, ErrorReplyBuffer cfg ''ERROR! Rejecting non-ping message encrypted with dummy-key or not at all'',
        True)
      else
        (let d = dispatch (RunServer cfg) (Access c) header;
             (st, reply) = (case d of
                Run h \<Rightarrow> run h xml st
              | Unknown \<Rightarrow> (st, ErrorReplyBuffer cfg ''Unknown message type'')
              | _ \<Rightarrow> (st, []));
             disconnect = (d = Run Do_gosa_ping \<or> Contains reply ''<error_string>'');
             reply = (if key \<noteq> ''dummy-key'' then GosaEncryptBuffer cr reply key else reply)
         in (st, reply, disconnect)))"

text \<open>The keys that are tried, one after the other, and the buffer each attempt leaves.\<close>

definition keys_to_try :: "process_config \<Rightarrow> clientdb \<Rightarrow> hash \<Rightarrow> string \<Rightarrow> string list" where
  "keys_to_try cfg clients servers host =
     (if TLSRequired cfg then ModuleKeys cfg
      else
        ModuleKeys cfg @
        (if host = ''127.0.0.1'' then ServerKeys (own_IP cfg) servers @ ClientKeys (own_IP cfg) clients
         else ServerKeys host servers @ ClientKeys host clients) @
        ServerKeysForAllServers servers @ ClientKeysForAllClients clients)"

fun try_keys :: "crypto \<Rightarrow> string \<Rightarrow> string list \<Rightarrow> string \<times> string option" where
  "try_keys cr buf [] = (buf, None)"
| "try_keys cr buf (key # keys) =
     (case GosaDecryptBuffer cr buf key of
        (buf, True) \<Rightarrow> (buf, Some key)
      | (buf, False) \<Rightarrow> try_keys cr buf keys)"

text \<open>
  \<open>ProcessEncryptedMessage\<close>: besides the reply, the address with which communication is to be
  re-established. \<open>save_log\<close> is clmsg_save_fai_log; \<open>message_of\<close> the text of a parse error.
\<close>

definition ProcessEncryptedMessage ::
  "process_config \<Rightarrow> crypto \<Rightarrow> 's handlers \<Rightarrow> (string \<Rightarrow> 's \<Rightarrow> 's) \<Rightarrow> (parse_error \<Rightarrow> string) \<Rightarrow>
   clientdb \<Rightarrow> hash \<Rightarrow> string \<Rightarrow> string option \<Rightarrow> security_context \<Rightarrow> string \<Rightarrow> 's \<Rightarrow>
   's \<times> string \<times> bool \<times> string option" where
  "ProcessEncryptedMessage cfg cr run save_log message_of clients servers host ipv4 c buf st =
     (case try_keys cr buf (keys_to_try cfg clients servers host) of
        (buf, None) \<Rightarrow> (st, ErrorReplyBuffer cfg ''Could not decrypt message'', True, ipv4)
      | (buf, Some key) \<Rightarrow>
          if Contains buf ''<CLMSG_save_fai_log>''
          then (if handleServerMessage (RunServer cfg) True then save_log buf st else st, [], False, None)
          else
            (case StringToHash (decoder [] buf) of
               (xml, Some err) \<Rightarrow> (st, ErrorReplyBuffer cfg (message_of err), True, None)
             | (xml, None) \<Rightarrow>
                 (case ProcessXMLMessage cfg cr run c key xml st of
                    (st, reply, disconnect) \<Rightarrow> (st, reply, disconnect, None))))"

section \<open>Jobs are only made by those who may\<close>

definition job_handlers :: "handler list" where
  "job_handlers = [Do_gosa_trigger_action, Do_job_trigger_action,
     Do_gosa_set_activated_for_installation, Do_job_trigger_activate_new, Do_job_send_user_msg,
     Do_gosa_delete_jobdb_entry, Do_gosa_update_status_jobdb_entry]"

lemma no_client_job: "list_all (\<lambda>(header, h). h \<notin> set job_handlers) client_messages"
  by (simp add: client_messages_def job_handlers_def)

lemma jobs_need_rights:
  "list_all (\<lambda>(header, right, name, h).
     h \<in> set job_handlers \<longrightarrow> (\<forall>a. right a \<longrightarrow> JobRights a \<noteq> no_jobs)) server_messages"
  by (auto simp: server_messages_def job_handlers_def no_jobs_def)

lemma dispatched_job:
  assumes "dispatch run_server a header = Run h" and "h \<in> set job_handlers"
  shows "run_server \<and> JobRights a \<noteq> no_jobs"
proof -
  have "map_of client_messages header = None"
    using assms no_client_job
    by (auto simp: dispatch_def list_all_iff dest!: map_of_SomeD split: option.splits)
  with assms obtain right name where
    "map_of server_messages header = Some (right, name, h)" "handleServerMessage run_server (right a)"
    by (auto simp: dispatch_def job_handlers_def split: option.splits if_splits)
  with assms(2) jobs_need_rights show ?thesis
    by (fastforce simp: list_all_iff handleServerMessage_def dest: map_of_SomeD)
qed

text \<open>C18: Over TLS, jobs are only made or changed with a certificate that allows it. If a message
  over TLS gets to one of the handlers that add, change or delete jobs on behalf of the sender,
  then this is a server, the certificate of the sender is trusted and has a field of rights for
  jobs in which at least one bit is set.\<close>

theorem jobs_need_a_certificate:
  assumes "ContextFor utf8s s my_server LookupIP LookupAddr remote (Some (certificate, trusted)) = Some c"
    and "dispatch run_server (Access c) header = Run h" and "h \<in> set job_handlers"
  shows "run_server \<and> trusted \<and>
    (\<exists>es b i. certificate = Some es \<and> certified es 2 b \<and> i < 12 \<and> b i)"
proof -
  note rights = certificate_rights [OF assms(1)]
  note job = dispatched_job [OF assms(2,3)]
  from rights job obtain es b where es: "certificate = Some es" "certified es 2 b"
    and b: "JobRights (Access c) = jobs_of b" by auto
  have "\<exists>i < 12. b i"
  proof (rule ccontr)
    assume "\<not> (\<exists>i < 12. b i)"
    then have "jobs_of b = no_jobs" by (simp add: jobs_of_def no_jobs_def)
    with b job show False by simp
  qed
  with rights job es show ?thesis by blast
qed

theorem jobs_need_a_certificate_witness:
  "\<exists>b i. certified lock_certificate 2 b \<and> (i :: nat) < 12 \<and> b i"
proof -
  from lock_context obtain c where
    c: "ContextFor (\<lambda>v. None) example_site (replicate 16 0) (\<lambda>n. None) (\<lambda>a. None)
      (Some (v4_prefix @ [10, 0, 0, 9])) (Some (Some lock_certificate, True)) = Some c"
    and lock: "Jobs_Lock (JobRights (Access c))"
    by blast
  have "dispatch True (Access c) ''gosa_trigger_action_lock'' = Run Do_gosa_trigger_action"
    using lock by (simp add: dispatch_def client_messages_def server_messages_def handleServerMessage_def)
  from jobs_need_a_certificate [OF c this] show ?thesis by (auto simp: job_handlers_def)
qed

section \<open>Messages that are not encrypted\<close>

lemma plain_text_read:
  assumes "take 5 (buffer_trim cr buf) = ''<xml>''" and "11 \<le> length (buffer_trim cr buf)"
  shows "try_keys cr buf (key # keys) = (buffer_trim cr buf, Some key)"
  using assms by (simp add: GosaDecryptBuffer_def Let_def)

lemma keys_to_try_start:
  "ModuleKeys cfg = key # keys \<Longrightarrow> \<exists>more. keys_to_try cfg clients servers host = key # more"
  by (auto simp: keys_to_try_def)

text \<open>Messages that are neither encrypted nor sent over TLS have no effect: the connection is
  ended with an error message and the state of the server is as before. Two kinds of messages
  are excepted: a ping, and a message with log files.\<close>

theorem plain_messages_are_rejected:
  assumes "\<not> TLS c" and "ModuleKeys cfg = ''dummy-key'' # keys"
    and "take 5 (buffer_trim cr buf) = ''<xml>''" and "11 \<le> length (buffer_trim cr buf)"
    and "\<not> Contains (buffer_trim cr buf) ''<CLMSG_save_fai_log>''"
    and "text_of ''header'' (fst (StringToHash (decoder [] (buffer_trim cr buf)))) \<noteq> ''gosa_ping''"
  shows "\<exists>reply. ProcessEncryptedMessage cfg cr run save_log message_of clients servers host ipv4 c buf st =
    (st, reply, True, None)"
proof -
  from keys_to_try_start [OF assms(2)] obtain more where
    "keys_to_try cfg clients servers host = ''dummy-key'' # more" by blast
  with plain_text_read [OF assms(3,4)] assms(1,5,6) show ?thesis
    by (auto simp: ProcessEncryptedMessage_def ProcessXMLMessage_def split: prod.splits option.splits)
qed

text \<open>A message with log files is stored whoever sends it: it is handled before the check for
  messages without encryption, so that anybody who can connect can have files written.\<close>

theorem plain_log_files_are_stored:
  assumes "RunServer cfg" and "ModuleKeys cfg = ''dummy-key'' # keys"
    and "take 5 (buffer_trim cr buf) = ''<xml>''" and "11 \<le> length (buffer_trim cr buf)"
    and "Contains (buffer_trim cr buf) ''<CLMSG_save_fai_log>''"
  shows "ProcessEncryptedMessage cfg cr run save_log message_of clients servers host ipv4 c buf st =
    (save_log (buffer_trim cr buf) st, [], False, None)"
proof -
  from keys_to_try_start [OF assms(2)] obtain more where
    "keys_to_try cfg clients servers host = ''dummy-key'' # more" by blast
  with plain_text_read [OF assms(3,4)] assms(1,5) show ?thesis
    by (simp add: ProcessEncryptedMessage_def handleServerMessage_def)
qed

text \<open>The example messages: a request to lock a system, and one with a log file.\<close>

definition example_process :: process_config where
  "example_process = \<lparr>RunServer = True, ServerSourceAddress = ''10.0.0.1:20081'', TLSRequired = False,
     ModuleKeys = [''dummy-key'', ''secret''], own_IP = ''10.0.0.1''\<rparr>"

lemma plain_trim:
  "s \<noteq> [] \<Longrightarrow> visible (hd s) \<Longrightarrow> visible (last s) \<Longrightarrow> buffer_trim plain_crypto s = s"
  using crypto_okD(8) [OF plain_crypto_ok, of s 0] by simp

theorem plain_messages_are_rejected_witness:
  "\<exists>reply. ProcessEncryptedMessage example_process plain_crypto (\<lambda>h x st. (Suc st, [])) (\<lambda>b st. Suc st)
      (\<lambda>e. []) \<lparr>clientDB = Hash ''clientdb'' [], may_have = Hash ''x'' [], checks = []\<rparr> (Hash ''serverdb'' [])
      ''10.0.0.9'' None zero_context ''<xml><header>new_key</header></xml>'' 0 = (0, reply, True, None)"
proof (rule plain_messages_are_rejected)
  let ?m = "''<xml><header>new_key</header></xml>''"
  have t: "buffer_trim plain_crypto ?m = ?m" by (rule plain_trim) (simp_all add: visible_def byte_def)
  show "take 5 (buffer_trim plain_crypto ?m) = ''<xml>''" "11 \<le> length (buffer_trim plain_crypto ?m)"
    by (simp_all add: t)
  show "\<not> Contains (buffer_trim plain_crypto ?m) ''<CLMSG_save_fai_log>''"
    unfolding t by code_simp
  show "text_of ''header'' (fst (StringToHash (decoder [] (buffer_trim plain_crypto ?m)))) \<noteq> ''gosa_ping''"
    unfolding t by code_simp
  show "\<not> TLS zero_context" by (simp add: zero_context_def)
  show "ModuleKeys example_process = ''dummy-key'' # [''secret'']" by (simp add: example_process_def)
qed

theorem plain_log_files_are_stored_witness:
  "ProcessEncryptedMessage example_process plain_crypto (\<lambda>h x st. (st, [])) (\<lambda>b st. [b])
      (\<lambda>e. []) \<lparr>clientDB = Hash ''clientdb'' [], may_have = Hash ''x'' [], checks = []\<rparr> (Hash ''serverdb'' [])
      ''10.0.0.9'' None zero_context ''<xml><CLMSG_save_fai_log></CLMSG_save_fai_log></xml>'' [] =
    ([''<xml><CLMSG_save_fai_log></CLMSG_save_fai_log></xml>''], [], False, None)"
proof -
  let ?m = "''<xml><CLMSG_save_fai_log></CLMSG_save_fai_log></xml>''"
  have t: "buffer_trim plain_crypto ?m = ?m" by (rule plain_trim) (simp_all add: visible_def byte_def)
  have c: "Contains ?m ''<CLMSG_save_fai_log>''" by code_simp
  show ?thesis
    using plain_log_files_are_stored [of example_process "[''secret'']" plain_crypto ?m
        "\<lambda>h x st. (st, [])" "\<lambda>b st. [b]"]
    by (simp add: t c example_process_def)
qed

section \<open>Re-establishing communication\<close>

text \<open>Durations are nanoseconds in 64 bits.\<close>

definition minute :: int where "minute = 60 * 10 ^ 9"

definition wrap64 :: "int \<Rightarrow> int" where "wrap64 x = signed_take_bit 63 x"

type_synonym delays = "string \<Rightarrow> int option"

text \<open>The part under the mutex: the delay of this attempt, and the one of the next.\<close>

definition next_delay :: "string \<Rightarrow> delays \<Rightarrow> delays \<times> int" where
  "next_delay ip ds =
     (let delay = (case ds ip of Some d \<Rightarrow> d | None \<Rightarrow> minute)
      in (ds(ip \<mapsto> wrap64 (2 * delay)), delay))"

text \<open>\<open>time.Sleep\<close> returns at once when its argument is not positive; no attempt for long delays.\<close>

definition reestablish :: "string \<Rightarrow> delays \<Rightarrow> delays \<times> int option" where
  "reestablish ip ds =
     (case next_delay ip ds of
        (ds, delay) \<Rightarrow> (ds, if delay > 24 * 60 * minute then None else Some (max 0 delay)))"

definition after_waiting :: "string \<Rightarrow> int \<Rightarrow> delays \<Rightarrow> delays" where
  "after_waiting ip delay ds = (if delay \<ge> 10 * 60 * minute then ds(ip \<mapsto> minute) else ds)"

datatype contact = Confirm_registration | New_server_to string | Deregistered_to string

text \<open>The messages that are sent after the wait; \<open>ip\<close> is the resolved address.\<close>

definition contacts :: "process_config \<Rightarrow> string list \<Rightarrow> string list \<Rightarrow> string \<Rightarrow> contact list" where
  "contacts cfg ports servers ip =
     Confirm_registration #
     (if \<not> RunServer cfg then []
      else
        (case filter (\<lambda>server. HasPrefix server ip) servers of
           [] \<Rightarrow> map Deregistered_to
             (filter (\<lambda>addr. addr \<noteq> ServerSourceAddress cfg) (map (\<lambda>port. ip @ '':'' @ port) ports))
         | peers \<Rightarrow> map New_server_to peers))"

fun requests_in_a_row :: "nat \<Rightarrow> string \<Rightarrow> delays \<Rightarrow> delays" where
  "requests_in_a_row 0 ip ds = ds"
| "requests_in_a_row (Suc n) ip ds = fst (reestablish ip (requests_in_a_row n ip ds))"

lemma wrap64_double: "wrap64 (2 * wrap64 x) = wrap64 (2 * x)"
  using signed_take_bit_mult [of 63 2 x] by (simp add: wrap64_def)

lemma delay_after:
  "requests_in_a_row n ip Map.empty ip = (if n = 0 then None else Some (wrap64 (minute * 2 ^ n)))"
proof (induction n)
  case (Suc n)
  then show ?case
    by (auto simp: reestablish_def next_delay_def Let_def wrap64_double mult.assoc mult.left_commute mult.commute)
qed simp

text \<open>The limit on attempts to re-establish communication is lost in a flood: the delay is
  doubled with every message that cannot be read, also while an attempt is waiting, and in 64
  bits it is 0 after 53 such messages. From then on every such message makes the server answer
  at once, until one of the attempts that wait for hours sets the delay back.\<close>

theorem reestablish_delay_vanishes:
  assumes "53 \<le> n"
  shows "snd (reestablish ip (requests_in_a_row n ip Map.empty)) = Some 0"
proof -
  have "(2 :: int) ^ n = 2 ^ 53 * 2 ^ (n - 53)"
    unfolding power_add [symmetric] using assms by simp
  then have "minute * 2 ^ n = 2 ^ 64 * (29296875 * 2 ^ (n - 53))"
    by (simp add: minute_def)
  then have "take_bit 64 (minute * 2 ^ n) = take_bit 64 0"
    by (simp add: take_bit_eq_mod)
  then have "wrap64 (minute * 2 ^ n) = 0"
    using signed_take_bit_eq_iff_take_bit_eq [of 63 "minute * 2 ^ n" 0] by (simp add: wrap64_def)
  with assms show ?thesis
    by (simp add: reestablish_def next_delay_def Let_def delay_after minute_def)
qed

theorem reestablish_delay_vanishes_witness:
  "snd (reestablish ''10.0.0.9'' (requests_in_a_row 60 ''10.0.0.9'' Map.empty)) = Some 0"
  by (rule reestablish_delay_vanishes) simp

text \<open>
  A server whose address merely begins like the one of the sender is taken for the sender, and
  a client at that address is not told to register again.
\<close>

lemma prefix_of_address_confuses:
  "contacts (example_process) [''20083''] [''10.0.0.12:20081''] ''10.0.0.1'' =
    [Confirm_registration, New_server_to ''10.0.0.12:20081'']"
  by (simp add: contacts_def example_process_def HasPrefix_def)

end
