(* ===== verification/ConnLimits.thy ===== *)
theory ConnLimits
  imports GoStrings
begin

text \<open>
  The connection limits of go-susi/security/connectionlimits.go: how many connections an
  address may have open and how many it may open per hour. Times and durations are
  nanoseconds; the counters are signed 64-bit integers, so their arithmetic wraps around.
\<close>

section \<open>State\<close>

record limits =
  first :: int
  last_try :: int
  attempts :: int
  active :: int
  maxactive :: int
  maxPerHour :: int

text \<open>256 bins, chosen by the last byte of the address, each with a map from addresses.\<close>

type_synonym limiters = "nat \<Rightarrow> string \<Rightarrow> limits option"

definition int64 :: "int \<Rightarrow> int" where
  "int64 x = signed_take_bit 63 x"

text \<open>Division of Go rounds towards zero.\<close>

definition quot :: "int \<Rightarrow> int \<Rightarrow> int" where
  "quot a b = sgn a * sgn b * (\<bar>a\<bar> div \<bar>b\<bar>)"

abbreviation minute :: int where
  "minute \<equiv> 60000000000"

abbreviation hour :: int where
  "hour \<equiv> 60 * minute"

text \<open>
  \<open>net.ParseIP\<close> of the part of an address before its first colon, which can only be an IPv4
  address: four numbers of at most 255. The result is the four bytes.
\<close>

definition octet :: "string \<Rightarrow> char option" where
  "octet s = (if s \<noteq> [] \<and> list_all is_digit s \<and> digits_value s \<le> 255
    then Some (char_of (digits_value s)) else None)"

definition ParseIPv4 :: "string \<Rightarrow> string option" where
  "ParseIPv4 s =
     (case map octet (Split s (CHR ''.'')) of
        [Some a, Some b, Some c, Some d] \<Rightarrow> Some [a, b, c, d]
      | _ \<Rightarrow> None)"

definition ip_of :: "string \<Rightarrow> string option" where
  "ip_of addr = ParseIPv4 (hd (Split addr (CHR '':'')))"

definition bin_of :: "string \<Rightarrow> nat" where
  "bin_of ip = byte (last ip)"

definition lookup :: "string \<Rightarrow> limiters \<Rightarrow> limits option" where
  "lookup ip ls = ls (bin_of ip) ip"

definition store :: "string \<Rightarrow> limits \<Rightarrow> limiters \<Rightarrow> limiters" where
  "store ip lim ls = ls(bin_of ip := (ls (bin_of ip))(ip \<mapsto> lim))"

section \<open>Operations\<close>

definition fresh_limits :: "int \<Rightarrow> limits" where
  "fresh_limits now =
     \<lparr>first = now, last_try = now, attempts = 0, active = 0, maxactive = 0, maxPerHour = 0\<rparr>"

text \<open>Two ways in which the hourly count is adjusted before it is increased.\<close>

definition forget_old :: "int \<Rightarrow> limits \<Rightarrow> limits" where
  "forget_old now lim =
     (if last_try lim < now - hour then lim\<lparr>last_try := now, first := now, attempts := 0\<rparr>
      else lim)"

definition average_old :: "int \<Rightarrow> limits \<Rightarrow> limits" where
  "average_old now lim =
     (if first lim < now - hour
      then lim\<lparr>attempts := quot (int64 (30 * minute * attempts lim)) (now - first lim),
               first := now - 30 * minute\<rparr>
      else lim)"

definition count_try :: "int \<Rightarrow> limits \<Rightarrow> limits" where
  "count_try now lim =
     (let lim = average_old now (forget_old now lim)
      in lim\<lparr>last_try := now, attempts := int64 (attempts lim + 1)\<rparr>)"

definition admits :: "limits \<Rightarrow> bool" where
  "admits lim \<longleftrightarrow> \<not> (maxactive lim > 0 \<and> active lim \<ge> maxactive lim) \<and>
     \<not> (maxPerHour lim > 0 \<and> attempts lim > maxPerHour lim)"

definition Register :: "int \<Rightarrow> string \<Rightarrow> limiters \<Rightarrow> limiters \<times> bool" where
  "Register now addr ls =
     (case ip_of addr of
        None \<Rightarrow> (ls, False)
      | Some ip \<Rightarrow>
          let lim = count_try now (case lookup ip ls of None \<Rightarrow> fresh_limits now | Some l \<Rightarrow> l)
          in if admits lim
             then (store ip (lim\<lparr>active := int64 (active lim + 1)\<rparr>) ls, True)
             else (store ip lim ls, False))"

definition Deregister :: "string \<Rightarrow> limiters \<Rightarrow> limiters" where
  "Deregister addr ls =
     (case ip_of addr of
        None \<Rightarrow> ls
      | Some ip \<Rightarrow>
          (case lookup ip ls of
             None \<Rightarrow> ls
           | Some lim \<Rightarrow> store ip (lim\<lparr>active := int64 (active lim - 1)\<rparr>) ls))"

text \<open>The address is that of the peer's certificate or connection, already parsed.\<close>

definition UpdateLimits :: "string \<Rightarrow> int \<Rightarrow> int \<Rightarrow> limiters \<Rightarrow> limiters" where
  "UpdateLimits ip parallel perHour ls =
     (case lookup ip ls of
        None \<Rightarrow> ls
      | Some lim \<Rightarrow> store ip (lim\<lparr>maxactive := parallel, maxPerHour := perHour\<rparr>) ls)"

lemma lookup_store [simp]:
  "lookup ip (store ip lim ls) = Some lim"
  "ip' \<noteq> ip \<Longrightarrow> lookup ip' (store ip lim ls) = lookup ip' ls"
  by (simp_all add: lookup_def store_def)

lemma count_try_kept [simp]:
  "active (count_try now lim) = active lim"
  "maxactive (count_try now lim) = maxactive lim"
  "maxPerHour (count_try now lim) = maxPerHour lim"
  by (simp_all add: count_try_def average_old_def forget_old_def Let_def)

lemma int64_id: "- (2 ^ 63) \<le> x \<Longrightarrow> x < 2 ^ 63 \<Longrightarrow> int64 x = x"
  unfolding int64_def by (rule signed_take_bit_int_eq_self)

section \<open>The listener\<close>

text \<open>
  The listener of the server keeps the contract in the comments: each connection that was
  admitted is taken off once, when it is closed; one that was refused never is. \<open>conns\<close>
  are the addresses of the connections that are open.
\<close>

record listener =
  lims :: limiters
  conns :: "string list"

datatype conn_event = Accept int string | Close nat | Limits string int int

fun conn_step :: "conn_event \<Rightarrow> listener \<Rightarrow> listener" where
  "conn_step (Accept now addr) st =
     (case Register now addr (lims st) of
        (ls, ok) \<Rightarrow> st\<lparr>lims := ls, conns := (if ok then addr # conns st else conns st)\<rparr>)"
| "conn_step (Close i) st =
     (if i < length (conns st)
      then st\<lparr>lims := Deregister (conns st ! i) (lims st),
              conns := take i (conns st) @ drop (Suc i) (conns st)\<rparr>
      else st)"
| "conn_step (Limits ip parallel perHour) st = st\<lparr>lims := UpdateLimits ip parallel perHour (lims st)\<rparr>"

definition start_listener :: listener where
  "start_listener = \<lparr>lims = (\<lambda>b ip. None), conns = []\<rparr>"

definition open_from :: "string \<Rightarrow> string list \<Rightarrow> nat" where
  "open_from ip cs = length (filter (\<lambda>addr. ip_of addr = Some ip) cs)"

definition active_of :: "string \<Rightarrow> limiters \<Rightarrow> int" where
  "active_of ip ls = (case lookup ip ls of None \<Rightarrow> 0 | Some lim \<Rightarrow> active lim)"

definition counts_ok :: "listener \<Rightarrow> bool" where
  "counts_ok st \<longleftrightarrow> (\<forall>ip. active_of ip (lims st) = int (open_from ip (conns st))) \<and>
     (\<forall>addr \<in> set (conns st). ip_of addr \<noteq> None)"

lemma open_from_bound: "open_from ip cs \<le> length cs"
  by (simp add: open_from_def)

lemma Register_active:
  assumes "active_of ip ls = int n" and "int n + 1 < 2 ^ 63"
  shows "active_of ip (fst (Register now addr ls)) =
    int n + (if snd (Register now addr ls) \<and> ip_of addr = Some ip then 1 else 0)"
proof (cases "ip_of addr")
  case None
  then show ?thesis using assms by (simp add: Register_def)
next
  case (Some ip')
  have i: "int64 (int n + 1) = int n + 1" using assms(2) by (intro int64_id) auto
  show ?thesis
  proof (cases "ip' = ip")
    case True
    let ?l = "case lookup ip ls of None \<Rightarrow> fresh_limits now | Some l \<Rightarrow> l"
    have a: "active ?l = int n"
      using assms(1) by (simp add: active_of_def fresh_limits_def split: option.splits)
    show ?thesis using Some True a i by (simp add: Register_def Let_def active_of_def)
  next
    case False
    then show ?thesis using Some assms(1) by (simp add: Register_def Let_def active_of_def)
  qed
qed

lemma Deregister_active:
  assumes "active_of ip ls = int n" and "int n < 2 ^ 63" and "ip_of addr = Some ip'"
    and "ip' = ip \<Longrightarrow> 0 < n"
  shows "active_of ip (Deregister addr ls) = (if ip' = ip then int n - 1 else int n)"
proof (cases "ip' = ip")
  case True
  with assms(4) have n: "0 < n" by simp
  then obtain lim where "lookup ip ls = Some lim" "active lim = int n"
    using assms(1) by (auto simp: active_of_def split: option.splits)
  moreover have "int64 (int n - 1) = int n - 1" using n assms(2) by (intro int64_id) auto
  ultimately show ?thesis using assms(3) True by (simp add: Deregister_def active_of_def)
next
  case False
  then show ?thesis
    using assms(1,3) by (auto simp: Deregister_def active_of_def split: option.split)
qed

lemma open_from_Cons [simp]:
  "open_from ip (a # cs) = (if ip_of a = Some ip then Suc (open_from ip cs) else open_from ip cs)"
  by (simp add: open_from_def)

lemma open_from_delete:
  assumes "i < length cs"
  shows "open_from ip cs = open_from ip (take i cs @ drop (Suc i) cs) +
    (if ip_of (cs ! i) = Some ip then 1 else 0)"
proof -
  have "cs = take i cs @ cs ! i # drop (Suc i) cs" using assms by (simp add: id_take_nth_drop)
  then have "filter (\<lambda>a. ip_of a = Some ip) cs =
      filter (\<lambda>a. ip_of a = Some ip) (take i cs @ cs ! i # drop (Suc i) cs)" by simp
  then show ?thesis by (simp add: open_from_def)
qed

lemma step_counts:
  assumes ok: "counts_ok st" and len: "int (length (conns st)) + 1 < 2 ^ 63"
  shows "counts_ok (conn_step e st) \<and> length (conns (conn_step e st)) \<le> Suc (length (conns st))"
proof -
  have small: "int (open_from ip (conns st)) + 1 < 2 ^ 63" for ip
    using open_from_bound [of ip "conns st"] len by linarith
  show ?thesis
  proof (cases e)
    case (Accept now addr)
    have act: "active_of ip (fst (Register now addr (lims st))) = int (open_from ip (conns st)) +
        (if snd (Register now addr (lims st)) \<and> ip_of addr = Some ip then 1 else 0)" for ip
      using ok small by (intro Register_active) (simp_all add: counts_ok_def)
    have "snd (Register now addr (lims st)) \<Longrightarrow> ip_of addr \<noteq> None"
      by (auto simp: Register_def split: option.splits)
    with ok act Accept show ?thesis by (auto simp: counts_ok_def case_prod_beta)
  next
    case (Close i)
    show ?thesis
    proof (cases "i < length (conns st)")
      case True
      then obtain ip' where ip': "ip_of (conns st ! i) = Some ip'"
        using ok nth_mem [OF True] unfolding counts_ok_def by (metis not_None_eq)
      have "active_of ip (Deregister (conns st ! i) (lims st)) =
          int (open_from ip (take i (conns st) @ drop (Suc i) (conns st)))" for ip
      proof -
        note d = open_from_delete [OF True, of ip]
        have "active_of ip (Deregister (conns st ! i) (lims st)) =
            (if ip' = ip then int (open_from ip (conns st)) - 1 else int (open_from ip (conns st)))"
          using ok small [of ip] ip' d
          by (intro Deregister_active) (auto simp: counts_ok_def)
        with d ip' show ?thesis by auto
      qed
      moreover have "\<forall>addr \<in> set (take i (conns st) @ drop (Suc i) (conns st)). ip_of addr \<noteq> None"
        using ok by (auto simp: counts_ok_def dest: in_set_takeD in_set_dropD)
      ultimately show ?thesis using Close True by (simp add: counts_ok_def)
    qed (use Close ok in simp)
  next
    case (Limits ip' p h)
    have "active_of ip (UpdateLimits ip' p h (lims st)) = active_of ip (lims st)" for ip
      by (cases "ip = ip'") (auto simp: UpdateLimits_def active_of_def split: option.split)
    with ok Limits show ?thesis by (simp add: counts_ok_def)
  qed
qed

lemma steps_counts:
  "counts_ok st \<Longrightarrow> int (length (conns st)) + int (length es) < 2 ^ 63 \<Longrightarrow>
    counts_ok (fold conn_step es st)"
proof (induction es arbitrary: st)
  case (Cons e es)
  from Cons.prems step_counts [of st e] have "counts_ok (conn_step e st)"
    "length (conns (conn_step e st)) \<le> Suc (length (conns st))" by auto
  with Cons.prems(2) have "counts_ok (fold conn_step es (conn_step e st))"
    by (intro Cons.IH) auto
  then show ?case by simp
qed simp

section \<open>Properties\<close>

text \<open>The counter of active connections is right. After any sequence of connections that are
  accepted or refused, closed, and given limits, the counter of every address is the number
  of its connections that are open.\<close>

theorem active_counts_connections:
  assumes "length es < 2 ^ 63"
  shows "active_of ip (lims (fold conn_step es start_listener)) =
    int (open_from ip (conns (fold conn_step es start_listener)))"
proof -
  have "counts_ok start_listener"
    by (simp add: counts_ok_def start_listener_def active_of_def lookup_def open_from_def)
  then have "counts_ok (fold conn_step es start_listener)"
    by (rule steps_counts) (use assms in \<open>simp add: start_listener_def\<close>)
  then show ?thesis by (simp add: counts_ok_def)
qed

theorem active_counts_connections_witness:
  "active_of [char_of (10::nat), char_of (0::nat), char_of (0::nat), char_of (1::nat)] (lims (fold conn_step [Accept 0 ''10.0.0.1:99'', Close 0] start_listener)) =
    int (open_from [char_of (10::nat), char_of (0::nat), char_of (0::nat), char_of (1::nat)] (conns (fold conn_step [Accept 0 ''10.0.0.1:99'', Close 0] start_listener)))"
  by (rule active_counts_connections) simp

text \<open>C12: The limit of parallel connections holds: a connection that is admitted brings the
  number of open connections of its address to at most the limit, if there is one.\<close>

theorem parallel_limit:
  assumes "length es < 2 ^ 62" and "ip_of addr = Some ip"
    and "Register now addr (lims (fold conn_step es start_listener)) = (ls, True)"
  shows "\<exists>lim. lookup ip ls = Some lim \<and>
    (maxactive lim \<le> 0 \<or>
      int (open_from ip (addr # conns (fold conn_step es start_listener))) \<le> maxactive lim)"
proof -
  let ?st = "fold conn_step es start_listener"
  have "counts_ok start_listener"
    by (simp add: counts_ok_def start_listener_def active_of_def lookup_def open_from_def)
  then have "counts_ok ?st"
    by (rule steps_counts) (use assms(1) in \<open>simp add: start_listener_def\<close>)
  moreover have len: "length (conns (fold conn_step es st)) \<le> length (conns st) + length es" for st es
  proof (induction es arbitrary: st)
    case (Cons e es)
    have "length (conns (conn_step e st)) \<le> Suc (length (conns st))"
      by (cases e) (auto simp: case_prod_beta)
    with Cons [of "conn_step e st"] show ?case by simp
  qed simp
  ultimately have act: "active_of ip (lims ?st) = int (open_from ip (conns ?st))"
    by (simp add: counts_ok_def)
  have "length (conns ?st) \<le> length es" using len [of es start_listener] by (simp add: start_listener_def)
  then have small: "int (open_from ip (conns ?st)) + 1 < 2 ^ 63"
    using open_from_bound [of ip "conns ?st"] assms(1) by simp
  define l where "l = count_try now (case lookup ip (lims ?st) of None \<Rightarrow> fresh_limits now | Some l \<Rightarrow> l)"
  have al: "active l = int (open_from ip (conns ?st))"
    using act by (simp add: l_def active_of_def fresh_limits_def split: option.splits)
  have "admits l" and ls: "ls = store ip (l\<lparr>active := int64 (active l + 1)\<rparr>) (lims ?st)"
    using assms(2,3) by (auto simp: Register_def l_def Let_def split: if_splits)
  moreover have "int64 (active l + 1) = active l + 1" using al small by (intro int64_id) auto
  ultimately show ?thesis using al assms(2) by (auto simp: admits_def)
qed

theorem parallel_limit_witness:
  "\<exists>ls lim. Register 0 ''10.0.0.1:99'' (lims (fold conn_step [] start_listener)) = (ls, True) \<and>
    lookup [char_of (10::nat), char_of (0::nat), char_of (0::nat), char_of (1::nat)] ls = Some lim"
proof -
  have ip: "ip_of ''10.0.0.1:99'' =
      Some [char_of (10::nat), char_of (0::nat), char_of (0::nat), char_of (1::nat)]" by code_simp
  obtain ls where r: "Register 0 ''10.0.0.1:99'' (lims (fold conn_step [] start_listener)) = (ls, True)"
    using ip by (simp add: Register_def Let_def start_listener_def lookup_def admits_def fresh_limits_def)
  from parallel_limit [OF _ ip r] r show ?thesis by auto
qed

text \<open>The answers to connection attempts of one address at the given times.\<close>

fun try_all :: "string \<Rightarrow> int list \<Rightarrow> limiters \<Rightarrow> bool list" where
  "try_all addr [] ls = []"
| "try_all addr (t # ts) ls =
     (case Register t addr ls of (ls', ok) \<Rightarrow> ok # try_all addr ts ls')"

text \<open>The hourly limit holds within an hour: of the attempts an address makes within one hour
  of the start of its count, at most as many are admitted as its limit leaves.\<close>

theorem hourly_limit:
  assumes "ip_of addr = Some ip" and "lookup ip ls = Some lim"
    and "0 < maxPerHour lim" and "0 \<le> attempts lim" and "attempts lim + int (length ts) < 2 ^ 63"
    and "first lim \<le> last_try lim" and "\<forall>t \<in> set ts. first lim \<le> t \<and> t \<le> first lim + hour"
  shows "int (length (filter (\<lambda>ok. ok) (try_all addr ts ls))) \<le> max 0 (maxPerHour lim - attempts lim)"
  using assms
proof (induction ts arbitrary: ls lim)
  case (Cons t ts)
  define l where "l = count_try t lim"
  have "forget_old t lim = lim" "average_old t lim = lim"
    using Cons.prems(6,7) by (auto simp: forget_old_def average_old_def)
  moreover have "int64 (attempts lim + 1) = attempts lim + 1"
    using Cons.prems(4,5) by (intro int64_id) auto
  ultimately have l: "first l = first lim" "last_try l = t" "attempts l = attempts lim + 1"
    "maxPerHour l = maxPerHour lim"
    by (simp_all add: l_def count_try_def Let_def)
  obtain ls' ok where r: "Register t addr ls = (ls', ok)" by (cases "Register t addr ls")
  then obtain l' where l': "lookup ip ls' = Some l'" "first l' = first l" "last_try l' = t"
    "attempts l' = attempts l" "maxPerHour l' = maxPerHour l" and ok: "ok = admits l"
    using Cons.prems(1,2) l by (auto simp: Register_def Let_def l_def [symmetric] split: if_splits)
  have "int (length (filter (\<lambda>ok. ok) (try_all addr ts ls'))) \<le> max 0 (maxPerHour l' - attempts l')"
    using Cons.prems l l' by (intro Cons.IH [OF Cons.prems(1) l'(1)]) auto
  moreover have "ok \<Longrightarrow> attempts l \<le> maxPerHour l"
    using ok Cons.prems(3) l by (auto simp: admits_def)
  ultimately show ?case using r l l' by (auto split: if_splits)
qed simp

theorem hourly_limit_witness:
  "int (length (filter (\<lambda>ok. ok) (try_all ''10.0.0.1:99'' [1, 2, 3]
    (store [char_of (10::nat), char_of (0::nat), char_of (0::nat), char_of (1::nat)]
      \<lparr>first = 0, last_try = 0, attempts = 1, active = 0, maxactive = 0, maxPerHour = 3\<rparr>
      (\<lambda>b ip. None))))) \<le> 2"
proof -
  have "ip_of ''10.0.0.1:99'' =
      Some [char_of (10::nat), char_of (0::nat), char_of (0::nat), char_of (1::nat)]" by code_simp
  from hourly_limit [OF this lookup_store(1), of
      "\<lparr>first = 0, last_try = 0, attempts = 1, active = 0, maxactive = 0, maxPerHour = 3\<rparr>" "[1, 2, 3]"]
  show ?thesis by simp
qed

text \<open>The averaging of the hourly count overflows: an address with some five million attempts
  in an hour gets a negative count and is admitted again, whatever its hourly limit.\<close>

theorem hourly_count_overflows:
  "let lim = count_try (hour + 1) \<lparr>first = 0, last_try = hour, attempts = 5124096, active = 0,
      maxactive = 0, maxPerHour = limit\<rparr>
    in attempts lim < 0 \<and> admits lim"
proof -
  let ?lim = "\<lparr>first = 0, last_try = hour, attempts = 5124096, active = 0,
      maxactive = 0, maxPerHour = limit\<rparr>"
  have "int64 (30 * minute * 5124096) = 30 * minute * 5124096 - 2 ^ 64"
    by (simp add: int64_def signed_take_bit_eq_take_bit_shift take_bit_eq_mod)
  then have "attempts (count_try (hour + 1) ?lim) = -2562046"
    by (simp add: count_try_def forget_old_def average_old_def Let_def quot_def int64_id)
  then show ?thesis by (auto simp: admits_def Let_def)
qed

end
