(* ===== verification/Ldif.thy ===== *)
theory Ldif
  imports HashText Base64
begin

text \<open>
  The reader of LDIF data (\<open>LdifToHash\<close> of go-susi/xml/xml_hash.go), by which everything the
  program asks from LDAP or from its hooks becomes elements, and the conversion of an
  element's text to and from base64 in place. The code is a scanner with labels and gotos
  over an index i into the data; here each label is a function of the data from i on. An
  access behind the end of the data, which panics in Go, is a value of its own.
\<close>

section \<open>Text in base64\<close>

text \<open>
  \<open>DecodeBase64\<close> and \<open>EncodeBase64\<close>. The routines of the util package are arguments:
  \<open>dec text carry\<close> decodes a piece of text, \<open>enc buf idx\<close> encodes what is in the buffer from
  the index on.
\<close>

fun decode_fragments :: "(string \<Rightarrow> int \<Rightarrow> string \<times> int) \<Rightarrow> string list \<Rightarrow> int \<Rightarrow> hash \<Rightarrow> hash" where
  "decode_fragments dec [] carry h = AppendString (fst (dec ''='' carry)) h"
| "decode_fragments dec (t # ts) carry h =
     (case dec t carry of (s, carry) \<Rightarrow> decode_fragments dec ts carry (AppendString s h))"

definition DecodeBase64 :: "(string \<Rightarrow> int \<Rightarrow> string \<times> int) \<Rightarrow> hash \<Rightarrow> hash" where
  "DecodeBase64 dec h = decode_fragments dec (TextFragments h) 0 (SetText [] h)"

text \<open>
  A buffer of the length of the result is filled from its end, so that the routine can
  encode in place; what is in front of the index does not matter.
\<close>

definition encode_buffer :: "nat \<Rightarrow> string \<Rightarrow> string \<times> nat" where
  "encode_buffer n data = (replicate (n - length data) (char_of (0::nat)) @ data, n - length data)"

fun encode_fragments :: "(string \<Rightarrow> nat \<Rightarrow> string) \<Rightarrow> string list \<Rightarrow> string \<Rightarrow> hash \<Rightarrow> hash" where
  "encode_fragments enc [] carry h = h"
| "encode_fragments enc [t] carry h =
     (let l = length t + length carry;
          (buf, idx) = encode_buffer ((l + 2) div 3 * 4) (take l (carry @ t))
      in AppendString (enc buf idx) h)"
| "encode_fragments enc (t # t' # ts) carry h =
     (let l = length t + length carry; rest = l mod 3; l = l - rest in
      if l = 0 then encode_fragments enc (t' # ts) (carry @ t) h
      else (let (buf, idx) = encode_buffer (l div 3 * 4) (take l (carry @ t))
            in encode_fragments enc (t' # ts) (drop (length t - rest) t)
                 (AppendString (enc buf idx) h)))"

definition EncodeBase64 :: "(string \<Rightarrow> nat \<Rightarrow> string) \<Rightarrow> hash \<Rightarrow> hash" where
  "EncodeBase64 enc h = encode_fragments enc (TextFragments h) [] (SetText [] h)"

text \<open>Encoding can be cut after any multiple of three bytes.\<close>

lemma Encode_append:
  "length s mod 3 = 0 \<Longrightarrow> EncodeToString (s @ t) = EncodeToString s @ EncodeToString t"
proof (induction s rule: EncodeToString.induct)
  case (4 a b c s)
  then have "length s mod 3 = 0" by simp
  with 4 show ?case by simp
qed simp_all

lemma own_text_AppendString: "own_text (AppendString s h) = own_text h @ s"
  by (simp add: AppendString_def own_text_def TextFragments_def)

lemma encode_buffer_drop:
  "length data \<le> n \<Longrightarrow> drop (snd (encode_buffer n data)) (fst (encode_buffer n data)) = data"
  "snd (encode_buffer n data) \<le> length (fst (encode_buffer n data))"
  by (simp_all add: encode_buffer_def)

lemma encode_fragments_text:
  assumes enc: "\<And>buf idx. idx \<le> length buf \<Longrightarrow> enc buf idx = EncodeToString (drop idx buf)"
  shows "ts \<noteq> [] \<Longrightarrow> length carry < 3 \<Longrightarrow>
    own_text (encode_fragments enc ts carry h) = own_text h @ EncodeToString (carry @ concat ts)"
  using enc
proof (induction enc ts carry h rule: encode_fragments.induct)
  case (2 enc t carry h)
  have "length (carry @ t) \<le> (length t + length carry + 2) div 3 * 4" by simp
  from encode_buffer_drop(1) [OF this] encode_buffer_drop(2) [of "(length t + length carry + 2) div 3 * 4" "carry @ t"] 2
  show ?case by (auto simp: Let_def own_text_AppendString split: prod.split)
next
  case (3 enc t t' ts carry h)
  define l where "l = (length t + length carry) - (length t + length carry) mod 3"
  have l3: "l mod 3 = 0" "l \<le> length t + length carry" "length t + length carry < l + 3"
    unfolding l_def by presburger+
  show ?case
  proof (cases "l = 0")
    case True
    with l3(3) 3(1) [OF refl refl l_def True] 3(4-) l_def [symmetric] show ?thesis by (simp add: Let_def)
  next
    case False
    with l3 have long: "3 \<le> l" by presburger
    let ?b = "encode_buffer (l div 3 * 4) (take l (carry @ t))"
    have "length (take l (carry @ t)) \<le> l div 3 * 4"
    proof -
      have "length (take l (carry @ t)) = l" using l3 by simp
      moreover have "l \<le> l div 3 * 4" using l3(1) by presburger
      ultimately show ?thesis by simp
    qed
    with encode_buffer_drop(1) [of "take l (carry @ t)" "l div 3 * 4"]
      encode_buffer_drop(2) [of "l div 3 * 4" "take l (carry @ t)"] 3(5)
    have e: "enc (fst ?b) (snd ?b) = EncodeToString (take l (carry @ t))" by simp
    have len: "length (take l (carry @ t)) mod 3 = 0" using l3(1,2) by (simp del: take_append)
    let ?rest = "(length t + length carry) mod 3"
    have d: "drop (length t - ?rest) t = drop l (carry @ t)"
      using long 3(4) l_def by simp
    have "own_text (encode_fragments enc (t' # ts) (drop (length t - ?rest) t)
        (AppendString (enc (fst ?b) (snd ?b)) h)) =
      own_text (AppendString (enc (fst ?b) (snd ?b)) h) @
        EncodeToString (drop (length t - ?rest) t @ concat (t' # ts))"
      using 3(2) [OF refl refl l_def False, of ?b "fst ?b" "snd ?b"] 3(4,5) l3 d by simp
    also have "\<dots> = own_text h @ EncodeToString (take l (carry @ t) @ drop l (carry @ t) @ concat (t' # ts))"
      by (simp only: own_text_AppendString e d Encode_append [OF len] append_assoc)
    also have "take l (carry @ t) @ drop l (carry @ t) @ concat (t' # ts) = carry @ concat (t # t' # ts)"
      by (metis append.assoc append_take_drop_id concat.simps(2))
    finally show ?thesis using False by (cases ?b) (simp add: Let_def l_def del: take_append)
  qed
qed simp

section \<open>Scanning\<close>

definition nl :: char where
  "nl = char_of (10 :: nat)"

definition tab :: char where
  "tab = char_of (9 :: nat)"

lemma nl_distinct [simp]: "nl \<noteq> CHR '' ''" "CHR '' '' \<noteq> nl" "nl \<noteq> tab" "tab \<noteq> nl"
  by code_simp+

lemma byte_nl [simp]: "byte nl = 10"
  by (simp add: nl_def)

text \<open>
  \<open>match\<close>: whether pre is found in b at the offset. The loop is bounded by the length of b,
  not by what is left of it, so it can run behind the end: None.
\<close>

function match_loop :: "string \<Rightarrow> nat \<Rightarrow> string \<Rightarrow> nat \<Rightarrow> bool option" where
  "match_loop b ofs pre i =
     (if i < length b \<and> i < length pre then
        (if length b \<le> ofs + i then None
         else if b ! (ofs + i) \<noteq> pre ! i then Some False
         else match_loop b ofs pre (Suc i))
      else Some (i = length pre))"
  by pat_completeness auto
termination by (relation "measure (\<lambda>(b, ofs, pre, i). length pre - i)") auto

declare match_loop.simps [simp del]

definition match_at :: "string \<Rightarrow> nat \<Rightarrow> string \<Rightarrow> bool option" where
  "match_at b ofs pre = match_loop b ofs pre 0"

text \<open>\<open>equals\<close>: with casefold only the bytes of b are folded.\<close>

definition equals :: "bool \<Rightarrow> string \<Rightarrow> string \<Rightarrow> bool" where
  "equals casefold b s = (if casefold then ToLower b = s else b = s)"

definition continues :: "string \<Rightarrow> bool" where
  "continues r = (case r of [] \<Rightarrow> False | c # _ \<Rightarrow> c = CHR '' '' \<or> c = tab)"

text \<open>
  \<open>skip_line\<close>: to the start of the next line that is not a continuation; None if the data
  ends before.
\<close>

fun skip_line :: "string \<Rightarrow> string option" where
  "skip_line [] = None"
| "skip_line (c # r) =
     (if c \<noteq> nl then skip_line r else if continues r then skip_line r else Some r)"

lemma skip_line_shorter [termination_simp]: "skip_line r = Some r' \<Longrightarrow> length r' < length r"
  by (induction r) (auto split: if_splits)

datatype found = End_of_input | Attribute string | Panics

text \<open>\<open>wait_for_item\<close>: over white space and comments to the next attribute.\<close>

function wait_for_item :: "string \<Rightarrow> string \<Rightarrow> found" where
  "wait_for_item b [] = End_of_input"
| "wait_for_item b (c # r) =
     (if 32 < byte c then
        (case match_at b (length b - length (c # r)) ''# search result'' of
           None \<Rightarrow> Panics
         | Some True \<Rightarrow> End_of_input
         | Some False \<Rightarrow>
             if byte c < 65 then
               (case skip_line (c # r) of None \<Rightarrow> End_of_input | Some r' \<Rightarrow> wait_for_item b r')
             else Attribute (c # r))
      else wait_for_item b r)"
  by pat_completeness auto
termination
  by (relation "measure (length \<circ> snd)") (auto dest: skip_line_shorter simp del: skip_line.simps)

datatype attribute_name = No_colon | Broken string | Colon string string

text \<open>\<open>scan_attribute_name\<close> up to the colon.\<close>

fun scan_name :: "string \<Rightarrow> string \<Rightarrow> attribute_name" where
  "scan_name name [] = No_colon"
| "scan_name name (c # r) =
     (if c = CHR ''#'' then Broken (c # r)
      else if c = CHR '':'' then (if name = [] then Broken (c # r) else Colon name r)
      else scan_name (name @ [c]) r)"

text \<open>
  The value: the fragments that are appended, and the data behind the line end that is not
  followed by a continuation.
\<close>

definition MaxFragmentLength :: nat where
  "MaxFragmentLength = 16384"

fun scan_value :: "string \<Rightarrow> string \<Rightarrow> string list \<times> string" where
  "scan_value frag [] =
     (if MaxFragmentLength < length frag then ([frag, []], []) else ([frag], []))"
| "scan_value frag (c # r) =
     (let (out, frag) = (if MaxFragmentLength < length frag then ([frag], []) else ([], frag)) in
      if c = nl then
        (case r of
           d # r' \<Rightarrow> if d = CHR '' '' \<or> d = tab
             then (case scan_value [] r' of (fs, r'') \<Rightarrow> (out @ frag # fs, r''))
             else (out @ [frag], r)
         | [] \<Rightarrow> (out @ [frag], r))
      else (case scan_value (frag @ [c]) r of (fs, r'') \<Rightarrow> (out @ fs, r'')))"

datatype ldif_label = Waiting | Scanning

text \<open>\<open>skip_broken_attribute\<close>: over a line that is not an attribute, with its continuations.\<close>

fun skip_broken :: "string \<Rightarrow> (ldif_label \<times> string) option" where
  "skip_broken [] = None"
| "skip_broken (c # r) =
     (if c \<noteq> nl then skip_broken r
      else case r of [] \<Rightarrow> None
        | d # _ \<Rightarrow> if d = nl then Some (Waiting, r)
                  else if d = CHR '' '' \<or> d = tab then skip_broken r
                  else Some (Scanning, r))"

lemma skip_broken_shorter: "skip_broken r = Some (l, r') \<Longrightarrow> length r' < length r"
  by (induction r) (auto split: if_splits list.splits)

lemma scan_name_shorter: "scan_name name r = Colon n r' \<Longrightarrow> length r' < length r"
  "scan_name name r = Broken r' \<Longrightarrow> length r' \<le> length r"
  by (induction name r rule: scan_name.induct) (auto split: if_splits)

lemma scan_value_shorter: "scan_value frag r = (fs, r') \<Longrightarrow> length r' \<le> length r"
  by (induction frag r arbitrary: fs rule: scan_value.induct)
    (fastforce split: if_splits list.splits prod.splits simp: Let_def)+


record element_info =
  LDIFAttributeName :: string
  ElementName :: string
  InfoBase64 :: bool

text \<open>
  The variables that outlive an attribute: the result, whether \<open>item\<close> is the last child of
  it (else it is the result itself), and \<open>new_item\<close>. The element that is being filled is
  the last child of the item.
\<close>

record ldif_state =
  ldif_xml :: hash
  in_child :: bool
  new_item :: bool

fun on_last_kid :: "(hash \<Rightarrow> hash) \<Rightarrow> kid list \<Rightarrow> kid list" where
  "on_last_kid f [] = []"
| "on_last_kid f [Txt s] = [Txt s]"
| "on_last_kid f [Sub h] = [Sub (f h)]"
| "on_last_kid f (k # k' # ks) = k # on_last_kid f (k' # ks)"

definition on_last :: "(hash \<Rightarrow> hash) \<Rightarrow> hash \<Rightarrow> hash" where
  "on_last f h = Hash (Name h) (on_last_kid f (kids h))"

definition on_item :: "(hash \<Rightarrow> hash) \<Rightarrow> ldif_state \<Rightarrow> ldif_state" where
  "on_item f st = st\<lparr>ldif_xml := (if in_child st then on_last f (ldif_xml st) else f (ldif_xml st))\<rparr>"

definition find_info :: "bool \<Rightarrow> string \<Rightarrow> element_info list \<Rightarrow> element_info option" where
  "find_info casefold name infos = find (\<lambda>ei. equals casefold name (LDIFAttributeName ei)) infos"

text \<open>What happens at the colon: the item and the element for the attribute.\<close>

definition start_attribute ::
  "string \<Rightarrow> bool \<Rightarrow> element_info list \<Rightarrow> string \<Rightarrow> ldif_state \<Rightarrow> ldif_state \<times> element_info option \<times> bool" where
  "start_attribute itemtag casefold infos name st =
     (let info = find_info casefold name infos;
          skip = (infos \<noteq> [] \<and> info = None);
          st = (if new_item st \<and> itemtag \<noteq> [] \<and> \<not> skip
                then st\<lparr>ldif_xml := Add itemtag [] (ldif_xml st), in_child := True, new_item := False\<rparr>
                else st);
          st = (if infos = [] then on_item (Add (if casefold then ToLower name else name) []) st
                else case info of None \<Rightarrow> st | Some ei \<Rightarrow> on_item (Add (ElementName ei) []) st)
      in (st, info, skip))"

text \<open>What happens behind the value: the conversion to or from base64.\<close>

definition convert_value ::
  "(string \<Rightarrow> int \<Rightarrow> string \<times> int) \<Rightarrow> (string \<Rightarrow> nat \<Rightarrow> string) \<Rightarrow> bool \<Rightarrow> element_info option \<Rightarrow> hash \<Rightarrow> hash" where
  "convert_value dec enc b64 info attr =
     (case info of
        Some ei \<Rightarrow> if b64 then (if InfoBase64 ei then attr else DecodeBase64 dec attr)
                    else (if InfoBase64 ei then EncodeBase64 enc attr else attr)
      | None \<Rightarrow> if b64 then DecodeBase64 dec attr else attr)"

text \<open>The loop over items and attributes. None is a panic.\<close>

function ldif_loop ::
  "(string \<Rightarrow> int \<Rightarrow> string \<times> int) \<Rightarrow> (string \<Rightarrow> nat \<Rightarrow> string) \<Rightarrow> string \<Rightarrow> bool \<Rightarrow>
   element_info list \<Rightarrow> string \<Rightarrow> ldif_label \<Rightarrow> string \<Rightarrow> ldif_state \<Rightarrow> hash option" where
  "ldif_loop dec enc itemtag casefold infos b Waiting r st =
     (case wait_for_item b r of
        End_of_input \<Rightarrow> Some (ldif_xml st)
      | Panics \<Rightarrow> None
      | Attribute r' \<Rightarrow>
          ldif_loop dec enc itemtag casefold infos b Scanning r' (st\<lparr>new_item := True\<rparr>))"
| "ldif_loop dec enc itemtag casefold infos b Scanning r st =
     (case scan_name [] r of
        No_colon \<Rightarrow> Some (ldif_xml st)
      | Broken r' \<Rightarrow>
          (case skip_broken r' of None \<Rightarrow> Some (ldif_xml st)
           | Some (l, r'') \<Rightarrow> ldif_loop dec enc itemtag casefold infos b l r'' st)
      | Colon name r' \<Rightarrow>
          (let b64 = (r' \<noteq> [] \<and> hd r' = CHR '':''); r' = (if b64 then tl r' else r');
               (st, info, skip) = start_attribute itemtag casefold infos name st
           in if r' = [] then Some (ldif_xml st)
              else (let r' = (if hd r' = CHR '' '' \<or> hd r' = tab then tl r' else r');
                        (fs, r'') = scan_value [] r';
                        st = (if skip then st
                              else on_item (on_last (convert_value dec enc b64 info \<circ> fold AppendString fs)) st)
                    in if r'' = [] then Some (ldif_xml st)
                       else ldif_loop dec enc itemtag casefold infos b
                              (if hd r'' = nl then Waiting else Scanning) r'' st)))"
  by pat_completeness auto

lemma wait_for_item_shorter: "wait_for_item b r = Attribute r' \<Longrightarrow> length r' \<le> length r \<and> r' \<noteq> []"
proof (induction b r rule: wait_for_item.induct)
  case (2 b c r)
  show ?case
  proof (cases "32 < byte c \<and> byte c < 65")
    case True
    then obtain r1 where "skip_line (c # r) = Some r1" "wait_for_item b r1 = Attribute r'"
      "match_at b (length b - length (c # r)) ''# search result'' = Some False"
      using 2(3) by (auto split: option.splits bool.splits simp del: skip_line.simps)
    with True 2(1) skip_line_shorter [of "c # r" r1] show ?thesis by fastforce
  next
    case False
    with 2 show ?thesis by (auto split: option.splits bool.splits if_splits)
  qed
qed simp

termination ldif_loop
proof (relation "measure (\<lambda>(dec, enc, i, c, infos, b, l, r, st).
    2 * length r + (if l = Waiting then 1 else 0))", goal_cases)
  case 1
  show ?case by simp
next
  case (2 dec enc itemtag casefold infos b r st r')
  then show ?case using wait_for_item_shorter [of b r r'] by simp
next
  case (3 dec enc itemtag casefold infos b r st r' x l r'')
  then show ?case
    using scan_name_shorter(2) [of "[]" r r'] skip_broken_shorter [of r' l r''] by simp
next
  case prems: (4 dec enc itemtag casefold infos b r st name r' b64 r1 x st1 y info skip r2 z fs r3 st2)
  have "length r' < length r" using scan_name_shorter(1) prems(1) by blast
  moreover have "length r3 \<le> length r2" using scan_value_shorter prems by metis
  moreover have "length r2 \<le> length r'" using prems by (auto split: if_splits)
  ultimately show ?case by simp
qed

declare ldif_loop.simps [simp del]

definition LdifToHash ::
  "(string \<Rightarrow> int \<Rightarrow> string \<times> int) \<Rightarrow> (string \<Rightarrow> nat \<Rightarrow> string) \<Rightarrow> string \<Rightarrow> bool \<Rightarrow>
   element_info list \<Rightarrow> string \<Rightarrow> hash option" where
  "LdifToHash dec enc itemtag casefold infos xmldata =
     (let st = \<lparr>ldif_xml = NewHash ''xml'' [], in_child = False, new_item = True\<rparr>;
          run = ldif_loop dec enc itemtag casefold infos xmldata Waiting
      in case match_at xmldata 0 ''version:'' of
           None \<Rightarrow> None
         | Some False \<Rightarrow> run xmldata st
         | Some True \<Rightarrow>
             (case skip_line xmldata of None \<Rightarrow> Some (ldif_xml st) | Some r \<Rightarrow> run r st))"


section \<open>Reading what was written\<close>

text \<open>
  LDIF data as the LDAP tools print it: a line \<open>name: value\<close> for each attribute, where the
  value may be folded (each piece but the first is on a line of its own that starts with a
  space), and an empty line between two items.
\<close>

definition ldif_line :: "string \<times> string list \<Rightarrow> string" where
  "ldif_line a = fst a @ '': '' @ Join (snd a) [nl, CHR '' ''] @ [nl]"

definition ldif_item :: "(string \<times> string list) list \<Rightarrow> string" where
  "ldif_item attrs = concat (map ldif_line attrs)"

definition ldif_text :: "(string \<times> string list) list list \<Rightarrow> string" where
  "ldif_text items = Join (map ldif_item items) [nl]"

definition ldif_hash :: "string \<Rightarrow> bool \<Rightarrow> (string \<times> string list) list list \<Rightarrow> hash" where
  "ldif_hash itemtag casefold items =
     Hash ''xml'' (map (\<lambda>attrs. Sub (Hash itemtag
       (map (\<lambda>a. Sub (Hash (if casefold then ToLower (fst a) else fst a) [Txt (concat (snd a))])) attrs))) items)"

definition ldif_attr_ok :: "string \<times> string list \<Rightarrow> bool" where
  "ldif_attr_ok a \<longleftrightarrow> fst a \<noteq> [] \<and> 65 \<le> byte (hd (fst a)) \<and> CHR '':'' \<notin> set (fst a) \<and>
     CHR ''#'' \<notin> set (fst a) \<and> snd a \<noteq> [] \<and> list_all (\<lambda>p. nl \<notin> set p) (snd a)"

lemma match_loop_here:
  "ofs < length b \<Longrightarrow> pre \<noteq> [] \<Longrightarrow> b ! ofs \<noteq> hd pre \<Longrightarrow> match_at b ofs pre = Some False"
  by (simp add: match_at_def match_loop.simps [of b ofs pre 0] hd_conv_nth)

lemma match_loop_start:
  "i \<le> length b \<Longrightarrow> i \<le> length pre \<Longrightarrow> take i b = take i pre \<Longrightarrow>
    match_loop b 0 pre i = Some (HasPrefix b pre)"
proof (induction b "0::nat" pre i rule: match_loop.induct)
  case (1 b pre i)
  show ?case
  proof (cases "i < length b \<and> i < length pre")
    case True
    then have t: "take (Suc i) b = take i b @ [b ! i]" "take (Suc i) pre = take i pre @ [pre ! i]"
      by (simp_all add: take_Suc_conv_app_nth)
    show ?thesis
    proof (cases "b ! i = pre ! i")
      case same: True
      then show ?thesis using True 1 t by (subst match_loop.simps) simp
    next
      case False
      then have "\<not> HasPrefix b pre" using True by (auto simp: HasPrefix_iff nth_append)
      with False True show ?thesis by (subst match_loop.simps) simp
    qed
  next
    case False
    then have "(i = length pre) = HasPrefix b pre"
      using 1(2-4) by (auto simp: HasPrefix_def)
    with False show ?thesis by (subst match_loop.simps) auto
  qed
qed

lemma match_start: "match_at b 0 pre = Some (HasPrefix b pre)"
  using match_loop_start [of 0 b pre] by (simp add: match_at_def)

lemma scan_name_attr:
  "CHR '':'' \<notin> set name \<Longrightarrow> CHR ''#'' \<notin> set name \<Longrightarrow> acc @ name \<noteq> [] \<Longrightarrow>
    scan_name acc (name @ CHR '':'' # r) = Colon (acc @ name) r"
  by (induction name arbitrary: acc) auto

lemma scan_piece:
  "nl \<notin> set p \<Longrightarrow> \<exists>out. concat out = frag @ p \<and>
    (\<forall>r. scan_value frag (p @ nl # r) =
      (if continues r then (out @ fst (scan_value [] (tl r)), snd (scan_value [] (tl r))) else (out, r)))"
proof (induction p arbitrary: frag)
  case Nil
  show ?case
    by (rule exI [of _ "if MaxFragmentLength < length frag then [frag, []] else [frag]"])
      (auto simp: continues_def Let_def split: list.split prod.split)
next
  case (Cons c p)
  let ?over = "MaxFragmentLength < length frag"
  from Cons obtain out where
    out: "concat out = (if ?over then [] else frag) @ [c] @ p"
      "\<And>r. scan_value ((if ?over then [] else frag) @ [c]) (p @ nl # r) =
        (if continues r then (out @ fst (scan_value [] (tl r)), snd (scan_value [] (tl r))) else (out, r))"
    by (metis append.assoc list.set_intros(2))
  show ?case
  proof (intro exI conjI allI)
    show "concat ((if ?over then [frag] else []) @ out) = frag @ c # p" using out(1) by auto
    fix r
    show "scan_value frag ((c # p) @ nl # r) =
      (if continues r
       then (((if ?over then [frag] else []) @ out) @ fst (scan_value [] (tl r)), snd (scan_value [] (tl r)))
       else ((if ?over then [frag] else []) @ out, r))"
      using out(2) [of r] Cons.prems by (auto simp: Let_def split: prod.split)
  qed
qed

lemma scan_pieces:
  "ps \<noteq> [] \<Longrightarrow> list_all (\<lambda>p. nl \<notin> set p) ps \<Longrightarrow> \<not> continues r \<Longrightarrow>
    \<exists>fs. scan_value [] (Join ps [nl, CHR '' ''] @ nl # r) = (fs, r) \<and> concat fs = concat ps"
proof (induction ps "[nl, CHR '' '']" rule: Join.induct)
  case (2 p)
  then show ?case using scan_piece [of p "[]"] by fastforce
next
  case (3 p q ps)
  then obtain fs where fs: "scan_value [] (Join (q # ps) [nl, CHR '' ''] @ nl # r) = (fs, r)"
    "concat fs = concat (q # ps)" by auto
  obtain out where out: "concat out = p"
    "\<And>r. continues r \<Longrightarrow> scan_value [] (p @ nl # r) = (out @ fst (scan_value [] (tl r)), snd (scan_value [] (tl r)))"
    using 3(3) scan_piece [of p "[]"] by fastforce
  from out(2) [of "CHR '' '' # Join (q # ps) [nl, CHR '' ''] @ nl # r"] fs
  have "scan_value [] (Join (p # q # ps) [nl, CHR '' ''] @ nl # r) = (out @ fs, r)"
    by (simp add: continues_def)
  with out(1) fs(2) show ?case by auto
qed simp


lemma on_last_kid_snoc [simp]: "on_last_kid f (ks @ [Sub h]) = ks @ [Sub (f h)]"
  by (induction f ks rule: on_last_kid.induct) auto

definition ldif_name :: "bool \<Rightarrow> string \<Rightarrow> string" where
  "ldif_name casefold name = (if casefold then ToLower name else name)"

text \<open>In the middle of an item: the attributes read so far, and those of earlier items.\<close>

definition in_item :: "string \<Rightarrow> kid list \<Rightarrow> kid list \<Rightarrow> ldif_state" where
  "in_item itemtag ks as =
     \<lparr>ldif_xml = Hash ''xml'' (ks @ [Sub (Hash itemtag as)]), in_child = True, new_item = False\<rparr>"

definition before_item :: "kid list \<Rightarrow> ldif_state \<Rightarrow> bool" where
  "before_item ks st \<longleftrightarrow> ldif_xml st = Hash ''xml'' ks \<and> new_item st"

lemma start_first_attribute:
  "before_item ks st \<Longrightarrow> itemtag \<noteq> [] \<Longrightarrow> start_attribute itemtag casefold [] name st =
    (in_item itemtag ks [Sub (Hash (ldif_name casefold name) [])], None, False)"
  by (simp add: start_attribute_def find_info_def before_item_def in_item_def on_item_def on_last_def
      Add_def AddWithOwnership_def SetText_def ldif_name_def Let_def)

lemma start_next_attribute:
  "start_attribute itemtag casefold [] name (in_item itemtag ks as) =
    (in_item itemtag ks (as @ [Sub (Hash (ldif_name casefold name) [])]), None, False)"
  by (simp add: start_attribute_def find_info_def in_item_def on_item_def on_last_def
      Add_def AddWithOwnership_def SetText_def ldif_name_def Let_def)

definition read_as :: "bool \<Rightarrow> string \<times> string list \<Rightarrow> kid \<Rightarrow> bool" where
  "read_as casefold a k \<longleftrightarrow> (\<exists>fs. k = Sub (fold AppendString fs (Hash (ldif_name casefold (fst a)) [])) \<and>
     concat fs = concat (snd a))"

lemma attribute_step:
  assumes "ldif_attr_ok a" and "\<not> continues r"
    and "start_attribute itemtag casefold [] (fst a) st = (in_item itemtag ks (as @ [Sub (Hash (ldif_name casefold (fst a)) [])]), None, False)"
  shows "\<exists>k. read_as casefold a k \<and>
    ldif_loop dec enc itemtag casefold [] b Scanning (ldif_line a @ r) st =
      (if r = [] then Some (ldif_xml (in_item itemtag ks (as @ [k])))
       else ldif_loop dec enc itemtag casefold [] b (if hd r = nl then Waiting else Scanning) r
              (in_item itemtag ks (as @ [k])))"
proof -
  obtain fs where fs: "scan_value [] (Join (snd a) [nl, CHR '' ''] @ nl # r) = (fs, r)"
    "concat fs = concat (snd a)"
    using scan_pieces [of "snd a" r] assms(1,2) by (auto simp: ldif_attr_ok_def)
  have name: "scan_name [] (ldif_line a @ r) = Colon (fst a) (CHR '' '' # Join (snd a) [nl, CHR '' ''] @ nl # r)"
    using scan_name_attr [of "fst a" "[]"] assms(1) by (simp add: ldif_line_def ldif_attr_ok_def)
  let ?k = "Sub (fold AppendString fs (Hash (ldif_name casefold (fst a)) []))"
  have "read_as casefold a ?k" using fs(2) by (auto simp: read_as_def)
  moreover have "ldif_loop dec enc itemtag casefold [] b Scanning (ldif_line a @ r) st =
      (if r = [] then Some (ldif_xml (in_item itemtag ks (as @ [?k])))
       else ldif_loop dec enc itemtag casefold [] b (if hd r = nl then Waiting else Scanning) r
              (in_item itemtag ks (as @ [?k])))"
    by (simp add: ldif_loop.simps name assms(3) fs(1) convert_value_def on_item_def on_last_def
        in_item_def Let_def)
  ultimately show ?thesis by blast
qed

lemma continues_line: "ldif_attr_ok a \<Longrightarrow> \<not> continues (ldif_line a @ r) \<and> ldif_line a @ r \<noteq> [] \<and>
    hd (ldif_line a @ r) \<noteq> nl"
  by (cases "fst a") (auto simp: ldif_attr_ok_def ldif_line_def continues_def tab_def nl_def byte_def)

lemma attributes_steps:
  "list_all ldif_attr_ok attrs \<Longrightarrow> \<not> continues r \<Longrightarrow> attrs \<noteq> [] \<Longrightarrow> r = [] \<or> hd r = nl \<Longrightarrow>
    \<exists>ks'. list_all2 (read_as casefold) attrs ks' \<and>
    ldif_loop dec enc itemtag casefold [] b Scanning (ldif_item attrs @ r) (in_item itemtag ks as) =
      (if r = [] then Some (ldif_xml (in_item itemtag ks (as @ ks')))
       else ldif_loop dec enc itemtag casefold [] b Waiting r (in_item itemtag ks (as @ ks')))"
proof (induction attrs arbitrary: as)
  case (Cons a attrs)
  show ?case
  proof (cases "attrs = []")
    case True
    with attribute_step [of a r itemtag casefold "in_item itemtag ks as" ks as dec enc b] Cons.prems
    show ?thesis by (fastforce simp: start_next_attribute ldif_item_def)
  next
    case False
    then obtain a' attrs' where at: "attrs = a' # attrs'" by (cases attrs) auto
    with Cons.prems continues_line [of a' "ldif_item attrs' @ r"]
    have c: "\<not> continues (ldif_item attrs @ r)" "ldif_item attrs @ r \<noteq> []" "hd (ldif_item attrs @ r) \<noteq> nl"
      by (simp_all add: ldif_item_def)
    obtain k where k: "read_as casefold a k"
      "ldif_loop dec enc itemtag casefold [] b Scanning (ldif_line a @ ldif_item attrs @ r) (in_item itemtag ks as) =
        ldif_loop dec enc itemtag casefold [] b Scanning (ldif_item attrs @ r) (in_item itemtag ks (as @ [k]))"
      using attribute_step [OF _ c(1), of a itemtag casefold "in_item itemtag ks as" ks as dec enc b]
        Cons.prems(1) c(2,3) by (auto simp: start_next_attribute)
    obtain ks' where "list_all2 (read_as casefold) attrs ks'"
      "ldif_loop dec enc itemtag casefold [] b Scanning (ldif_item attrs @ r) (in_item itemtag ks (as @ [k])) =
        (if r = [] then Some (ldif_xml (in_item itemtag ks ((as @ [k]) @ ks')))
         else ldif_loop dec enc itemtag casefold [] b Waiting r (in_item itemtag ks ((as @ [k]) @ ks')))"
      using Cons.IH [of "as @ [k]"] Cons.prems False by auto
    with k show ?thesis by (intro exI [of _ "k # ks'"]) (simp add: ldif_item_def)
  qed
qed simp

lemma item_step:
  assumes "list_all ldif_attr_ok attrs" and "attrs \<noteq> []" and "r = [] \<or> hd r = nl"
    and "before_item ks st" and "itemtag \<noteq> []"
  shows "\<exists>ks'. list_all2 (read_as casefold) attrs ks' \<and>
    ldif_loop dec enc itemtag casefold [] b Scanning (ldif_item attrs @ r) st =
      (if r = [] then Some (Hash ''xml'' (ks @ [Sub (Hash itemtag ks')]))
       else ldif_loop dec enc itemtag casefold [] b Waiting r (in_item itemtag ks ks'))"
proof -
  obtain a attrs' where at: "attrs = a # attrs'" using assms(2) by (cases attrs) auto
  have r: "\<not> continues r" using assms(3) by (auto simp: continues_def split: list.split)
  have c: "\<not> continues (ldif_item attrs' @ r)"
    using r assms(1) at continues_line [of "hd attrs'" "ldif_item (tl attrs') @ r"]
    by (cases attrs') (simp_all add: ldif_item_def)
  obtain k where k: "read_as casefold a k"
    "ldif_loop dec enc itemtag casefold [] b Scanning (ldif_line a @ ldif_item attrs' @ r) st =
      (if ldif_item attrs' @ r = [] then Some (ldif_xml (in_item itemtag ks [k]))
       else ldif_loop dec enc itemtag casefold [] b (if hd (ldif_item attrs' @ r) = nl then Waiting else Scanning)
         (ldif_item attrs' @ r) (in_item itemtag ks [k]))"
    using attribute_step [OF _ c, of a itemtag casefold st ks "[]" dec enc b]
      start_first_attribute [OF assms(4,5)] assms(1) at by auto
  show ?thesis
  proof (cases "attrs' = []")
    case True
    with k at assms(3) show ?thesis
      by (cases "r = []") (auto simp: ldif_item_def in_item_def intro!: exI [of _ "[k]"])
  next
    case False
    then obtain a' at' where at': "attrs' = a' # at'" by (cases attrs') auto
    then have "ldif_item attrs' @ r \<noteq> []" "hd (ldif_item attrs' @ r) \<noteq> nl"
      using assms(1) at continues_line [of a' "ldif_item at' @ r"] by (simp_all add: ldif_item_def)
    with k attributes_steps [of attrs' r casefold dec enc itemtag b ks "[k]"] assms(1,3) at r False
    obtain ks' where "list_all2 (read_as casefold) attrs' ks'"
      "ldif_loop dec enc itemtag casefold [] b Scanning (ldif_line a @ ldif_item attrs' @ r) st =
      (if r = [] then Some (ldif_xml (in_item itemtag ks ([k] @ ks')))
       else ldif_loop dec enc itemtag casefold [] b Waiting r (in_item itemtag ks ([k] @ ks')))"
      by auto
    with k(1) at show ?thesis
      by (intro exI [of _ "k # ks'"]) (simp add: ldif_item_def in_item_def)
  qed
qed


lemma wait_for_name:
  assumes "b = u @ c # r" and "65 \<le> byte c"
  shows "wait_for_item b (c # r) = Attribute (c # r)"
proof -
  have "c \<noteq> CHR ''#''" using assms(2) by (auto simp: byte_def)
  then have "match_at b (length b - length (c # r)) ''# search result'' = Some False"
    using assms(1) by (intro match_loop_here) simp_all
  with assms(2) show ?thesis by simp
qed

lemma wait_for_nl: "wait_for_item b (nl # r) = wait_for_item b r"
  by (simp add: nl_def)

lemma ldif_item_hd:
  "list_all ldif_attr_ok attrs \<Longrightarrow> attrs \<noteq> [] \<Longrightarrow>
    \<exists>c s. ldif_item attrs = c # s \<and> 65 \<le> byte c"
proof -
  assume "list_all ldif_attr_ok attrs" "attrs \<noteq> []"
  then obtain a attrs' where "attrs = a # attrs'" "ldif_attr_ok a" by (cases attrs) auto
  then show ?thesis by (cases "fst a") (auto simp: ldif_attr_ok_def ldif_item_def ldif_line_def)
qed

lemma items_steps:
  "items \<noteq> [] \<Longrightarrow> list_all (\<lambda>attrs. attrs \<noteq> [] \<and> list_all ldif_attr_ok attrs) items \<Longrightarrow>
    r = [] \<or> hd r = nl \<Longrightarrow> itemtag \<noteq> [] \<Longrightarrow> before_item ks st \<Longrightarrow> b = u @ ldif_text items @ r \<Longrightarrow>
    \<exists>its st'. list_all2 (list_all2 (read_as casefold)) items its \<and>
      ldif_xml st' = Hash ''xml'' (ks @ map (\<lambda>ks'. Sub (Hash itemtag ks')) its) \<and>
      ldif_loop dec enc itemtag casefold [] b Waiting (ldif_text items @ r) st =
        (if r = [] then Some (ldif_xml st')
         else ldif_loop dec enc itemtag casefold [] b Waiting r st')"
proof (induction items arbitrary: ks st u)
  case (Cons attrs items)
  define r1 where "r1 = (if items = [] then r else nl # ldif_text items @ r)"
  have joined: "ldif_text (attrs # items) @ r = ldif_item attrs @ r1"
    by (cases items) (simp_all add: ldif_text_def r1_def)
  have r1: "r1 = [] \<or> hd r1 = nl" using Cons.prems(3) by (simp add: r1_def)
  have ok: "list_all ldif_attr_ok attrs" "attrs \<noteq> []" using Cons.prems(2) by simp_all
  obtain c s where c: "ldif_item attrs = c # s" "65 \<le> byte c" using ldif_item_hd [OF ok] by blast
  have "wait_for_item b (ldif_item attrs @ r1) = Attribute (ldif_item attrs @ r1)"
    using wait_for_name [of b u c "s @ r1"] c Cons.prems(6) joined by simp
  then have start: "ldif_loop dec enc itemtag casefold [] b Waiting (ldif_item attrs @ r1) st =
      ldif_loop dec enc itemtag casefold [] b Scanning (ldif_item attrs @ r1) (st\<lparr>new_item := True\<rparr>)"
    by (simp add: ldif_loop.simps)
  have "before_item ks (st\<lparr>new_item := True\<rparr>)" using Cons.prems(5) by (simp add: before_item_def)
  from item_step [OF ok r1 this Cons.prems(4)] obtain ks' where ks': "list_all2 (read_as casefold) attrs ks'"
    "ldif_loop dec enc itemtag casefold [] b Scanning (ldif_item attrs @ r1) (st\<lparr>new_item := True\<rparr>) =
      (if r1 = [] then Some (Hash ''xml'' (ks @ [Sub (Hash itemtag ks')]))
       else ldif_loop dec enc itemtag casefold [] b Waiting r1 (in_item itemtag ks ks'))" by blast
  show ?case
  proof (cases "items = []")
    case True
    with ks' start joined show ?thesis
      by (intro exI [of _ "[ks']"] exI [of _ "in_item itemtag ks ks'"]) (simp add: r1_def in_item_def)
  next
    case False
    have skip: "ldif_loop dec enc itemtag casefold [] b Waiting r1 (in_item itemtag ks ks') =
        ldif_loop dec enc itemtag casefold [] b Waiting (ldif_text items @ r) (in_item itemtag ks ks')"
      using False by (simp add: r1_def ldif_loop.simps wait_for_nl)
    have skip2: "ldif_loop dec enc itemtag casefold [] b Waiting (ldif_text items @ r) (in_item itemtag ks ks') =
        ldif_loop dec enc itemtag casefold [] b Waiting (ldif_text items @ r) ((in_item itemtag ks ks')\<lparr>new_item := True\<rparr>)"
      by (simp add: ldif_loop.simps split: found.split)
    have rest: "list_all (\<lambda>attrs. attrs \<noteq> [] \<and> list_all ldif_attr_ok attrs) items"
      using Cons.prems(2) by simp
    have pos: "b = (u @ ldif_item attrs @ [nl]) @ ldif_text items @ r"
      using Cons.prems(6) joined False by (simp add: r1_def)
    have before: "before_item (ks @ [Sub (Hash itemtag ks')]) ((in_item itemtag ks ks')\<lparr>new_item := True\<rparr>)"
      by (simp add: before_item_def in_item_def)
    from Cons.IH [OF False rest Cons.prems(3,4) before pos] obtain its st' where "list_all2 (list_all2 (read_as casefold)) items its"
      "ldif_xml st' = Hash ''xml'' ((ks @ [Sub (Hash itemtag ks')]) @ map (\<lambda>ks'. Sub (Hash itemtag ks')) its)"
      "ldif_loop dec enc itemtag casefold [] b Waiting (ldif_text items @ r) ((in_item itemtag ks ks')\<lparr>new_item := True\<rparr>) =
        (if r = [] then Some (ldif_xml st')
         else ldif_loop dec enc itemtag casefold [] b Waiting r st')"
      by (elim exE conjE) (rule that)
    with ks' start joined skip skip2 False show ?thesis
      by (intro exI [of _ "ks' # its"] exI [of _ st']) (simp add: r1_def)
  qed
qed simp

lemma own_text_fold_Append: "own_text (fold AppendString fs h) = own_text h @ concat fs"
  by (induction fs arbitrary: h) (simp_all add: own_text_AppendString)

lemma fold_Append_kids: "children (fold AppendString fs h) = children h \<and> Name (fold AppendString fs h) = Name h"
  by (induction fs arbitrary: h) (auto simp: AppendString_def)

lemma read_as_canon:
  "read_as casefold a k \<Longrightarrow>
    canon_elems [k] = [canon (Hash (ldif_name casefold (fst a)) [Txt (concat (snd a))])]"
  unfolding read_as_def
  by (elim exE conjE) (simp add: canon_elems_eq canon_eq own_text_fold_Append fold_Append_kids,
    simp add: own_text_def TextFragments_def)

lemma frags_map_Sub': "frags (map (\<lambda>a. Sub (f a)) xs) = []"
  by (induction xs) auto

lemma read_item_canon:
  assumes "list_all2 (read_as casefold) attrs ks"
  shows "canon (Hash itemtag ks) =
    canon (Hash itemtag (map (\<lambda>a. Sub (Hash (ldif_name casefold (fst a)) [Txt (concat (snd a))])) attrs))"
proof -
  have "canon_elems ks = canon_elems (map (\<lambda>a. Sub (Hash (ldif_name casefold (fst a)) [Txt (concat (snd a))])) attrs) \<and>
      frags ks = []"
    using assms
  proof (induction rule: list_all2_induct)
    case (Cons a attrs k ks)
    from read_as_canon [OF Cons(1)] Cons(1,3) show ?case by (auto simp: read_as_def)
  qed simp
  then show ?thesis by (simp add: frags_map_Sub' del: canon_elems.simps)
qed


lemma ldif_hash_canon:
  assumes "list_all2 (list_all2 (read_as casefold)) items its"
  shows "canon (Hash ''xml'' (map (\<lambda>ks'. Sub (Hash itemtag ks')) its)) = canon (ldif_hash itemtag casefold items)"
proof -
  have "canon_elems (map (\<lambda>ks'. Sub (Hash itemtag ks')) its) =
      canon_elems (kids (ldif_hash itemtag casefold items))"
    using assms
  proof (induction rule: list_all2_induct)
    case (Cons attrs items ks' its)
    from read_item_canon [OF Cons(1), of itemtag] Cons(3) show ?case
      by (simp add: ldif_hash_def ldif_name_def del: canon.simps)
  qed (simp add: ldif_hash_def)
  then show ?thesis by (simp add: ldif_hash_def frags_map_Sub')
qed

lemma ldif_read:
  assumes "items \<noteq> []" and "list_all (\<lambda>attrs. attrs \<noteq> [] \<and> list_all ldif_attr_ok attrs) items"
    and "itemtag \<noteq> []" and "fst (hd (hd items)) \<noteq> ''version''" and "r = [] \<or> hd r = nl"
  shows "\<exists>st. canon (ldif_xml st) = canon (ldif_hash itemtag casefold items) \<and>
    LdifToHash dec enc itemtag casefold [] (ldif_text items @ r) =
      (if r = [] then Some (ldif_xml st)
       else ldif_loop dec enc itemtag casefold [] (ldif_text items @ r) Waiting r st)"
proof -
  obtain a attrs its where items: "items = (a # attrs) # its"
    using assms(1,2) by (cases items; cases "hd items") auto
  then have colon: "CHR '':'' \<notin> set (fst a)" using assms(2) by (simp add: ldif_attr_ok_def)
  have upto: "takeWhile (\<lambda>c. c \<noteq> CHR '':'') (n @ CHR '':'' # y) = n" if "CHR '':'' \<notin> set n" for n y
    using that by (induction n) auto
  obtain x where x: "ldif_text items @ r = fst a @ CHR '':'' # x"
    by (cases its) (auto simp: items ldif_text_def ldif_item_def ldif_line_def)
  have "\<not> HasPrefix (ldif_text items @ r) ''version:''"
  proof
    assume "HasPrefix (ldif_text items @ r) ''version:''"
    then obtain y where "ldif_text items @ r = ''version'' @ CHR '':'' # y" by (auto simp: HasPrefix_iff)
    with x upto [OF colon, of x] upto [of "''version''" y] have "fst a = ''version''" by simp
    with assms(4) items show False by simp
  qed
  then have start: "LdifToHash dec enc itemtag casefold [] (ldif_text items @ r) =
      ldif_loop dec enc itemtag casefold [] (ldif_text items @ r) Waiting (ldif_text items @ r)
        \<lparr>ldif_xml = Hash ''xml'' [], in_child = False, new_item = True\<rparr>"
    by (simp add: LdifToHash_def match_start Let_def)
  have "before_item [] \<lparr>ldif_xml = Hash ''xml'' [], in_child = False, new_item = True\<rparr>"
    by (simp add: before_item_def)
  from items_steps [OF assms(1,2,5,3) this, of "ldif_text items @ r" "[]" casefold dec enc]
  obtain its st where "list_all2 (list_all2 (read_as casefold)) items its"
    "ldif_xml st = Hash ''xml'' (map (\<lambda>ks'. Sub (Hash itemtag ks')) its)"
    "ldif_loop dec enc itemtag casefold [] (ldif_text items @ r) Waiting (ldif_text items @ r)
        \<lparr>ldif_xml = Hash ''xml'' [], in_child = False, new_item = True\<rparr> =
      (if r = [] then Some (ldif_xml st)
       else ldif_loop dec enc itemtag casefold [] (ldif_text items @ r) Waiting r st)"
    by auto
  with start ldif_hash_canon show ?thesis by metis
qed


text \<open>C20: LDIF data is read as it was written: for items of at least one attribute, with values
  that may be folded over any number of lines, the result has one element for each item and in
  it one element for each attribute, in order, with the unfolded value as its text.\<close>

theorem ldif_is_read_back:
  assumes "items \<noteq> []" and "list_all (\<lambda>attrs. attrs \<noteq> [] \<and> list_all ldif_attr_ok attrs) items"
    and "itemtag \<noteq> []" and "fst (hd (hd items)) \<noteq> ''version''"
  shows "\<exists>x. LdifToHash dec enc itemtag casefold [] (ldif_text items) = Some x \<and>
    canon x = canon (ldif_hash itemtag casefold items)"
  using ldif_read [OF assms, of "[]" casefold dec enc] by auto

theorem ldif_is_read_back_witness:
  "\<exists>x. LdifToHash (\<lambda>s c. (s, c)) (\<lambda>s i. drop i s) ''sys'' True []
      (ldif_text [[(''dn'', [''cn=a,'', ''dc=b'']), (''CN'', [''a''])], [(''dn'', [''x''])]]) = Some x \<and>
    canon x = canon (ldif_hash ''sys'' True [[(''dn'', [''cn=a,'', ''dc=b'']), (''CN'', [''a''])], [(''dn'', [''x''])]])"
  by (rule ldif_is_read_back) code_simp+

text \<open>Data that ends in the middle of a comment makes the reader panic: the test for
  \<open># search result\<close> compares up to the length of all the data instead of what is left of it,
  and reads behind the end if what is left is a beginning of that text.\<close>

theorem ldif_truncated_comment_panics:
  assumes "items \<noteq> []" and "list_all (\<lambda>attrs. attrs \<noteq> [] \<and> list_all ldif_attr_ok attrs) items"
    and "itemtag \<noteq> []" and "fst (hd (hd items)) \<noteq> ''version''"
  shows "LdifToHash dec enc itemtag casefold [] (ldif_text items @ [nl, CHR ''#'']) = None"
proof -
  let ?b = "ldif_text items @ [nl, CHR ''#'']"
  have "ldif_text items \<noteq> []"
    using assms(1,2) ldif_item_hd [of "hd items"] by (cases items; cases "tl items") (auto simp: ldif_text_def)
  then have long: "2 < length ?b" by simp
  have hash: "?b ! (length ?b - 1) = CHR ''#''" by (simp add: nth_append)
  have "match_at ?b (length ?b - 1) ''# search result'' = None"
    unfolding match_at_def using long hash
    by (subst match_loop.simps, subst match_loop.simps) simp
  moreover have "32 < byte (CHR ''#'')" by code_simp
  ultimately have "wait_for_item ?b [nl, CHR ''#''] = Panics" by (simp add: wait_for_nl)
  with ldif_read [OF assms, of "[nl, CHR ''#'']" casefold dec enc] show ?thesis
    by (auto simp: ldif_loop.simps)
qed

theorem ldif_truncated_comment_panics_witness:
  "LdifToHash (\<lambda>s c. (s, c)) (\<lambda>s i. drop i s) ''sys'' True []
      (ldif_text [[(''dn'', [''x''])]] @ [nl, CHR ''#'']) = None"
  by (rule ldif_truncated_comment_panics) code_simp+

text \<open>The text of an element in base64 does not depend on how it was cut into fragments.\<close>

lemma EncodeBase64_text:
  assumes "\<And>buf idx. idx \<le> length buf \<Longrightarrow> enc buf idx = EncodeToString (drop idx buf)"
  shows "own_text (EncodeBase64 enc h) = EncodeToString (own_text h)"
proof (cases "TextFragments h = []")
  case True
  then show ?thesis by (simp add: EncodeBase64_def own_text_def TextFragments_def SetText_def)
next
  case False
  then show ?thesis
    using encode_fragments_text [OF assms False, of "[]" "SetText [] h"]
    by (simp add: EncodeBase64_def own_text_def [of h])
qed

end
