(* ===== verification/Registration.thy ===== *)
theory Registration
  imports GoStrings
begin

text \<open>
  Registering at a server and staying registered (go-susi/message/registered.go): the
  handler of the registration queue as a step relation over its global variables, the
  queue, and the goroutines that sleep and then push an event. Time counts in seconds. The
  resolver for addresses is an argument, the servers listed in the DNS and the random parts
  of the delays are choices of the environment.
\<close>

section \<open>State\<close>

text \<open>What is in the queue: a command, a message with its header and source, or the channel
  of a caller of \<open>CurrentRegistrationServer\<close>.\<close>

datatype reg_item = Command string | Message string string | WhoIs nat

record registration =
  registrationState :: nat
  currentServer :: string
  serverList :: "string list"
  indexInList :: int
  registrationQueue :: "reg_item list"
  sleepers :: "(nat \<times> string) list"
  clock :: nat
  here_i_ams :: "(nat \<times> string) list"
  hooks_run :: "string list"
  reg_replies :: "(nat \<times> string) list"

record reg_config =
  RunServer :: bool
  ServerSourceAddress :: string
  PreferredServer :: string
  PeerServers :: "string list"

definition secs_between_candidates :: nat where
  "secs_between_candidates = 10"

definition timeout_for_confirmation :: nat where
  "timeout_for_confirmation = 60"

definition reg_init :: registration where
  "reg_init = \<lparr>registrationState = 0, currentServer = [], serverList = [], indexInList = 0,
     registrationQueue = [Command ''register''], sleepers = [], clock = 0, here_i_ams = [],
     hooks_run = [], reg_replies = []\<rparr>"

definition Push :: "reg_item \<Rightarrow> registration \<Rightarrow> registration" where
  "Push it st = st\<lparr>registrationQueue := registrationQueue st @ [it]\<rparr>"

definition after_delay :: "nat \<Rightarrow> string \<Rightarrow> registration \<Rightarrow> registration" where
  "after_delay secs r st = st\<lparr>sleepers := sleepers st @ [(clock st + secs, r)]\<rparr>"

definition send_here_i_am :: "registration \<Rightarrow> registration" where
  "send_here_i_am st = st\<lparr>here_i_ams := here_i_ams st @ [(clock st, currentServer st)]\<rparr>"

section \<open>The messages\<close>

text \<open>\<open>registered\<close> and \<open>deregistered\<close> only put the message in the queue.\<close>

definition registered :: "string \<Rightarrow> string \<Rightarrow> registration \<Rightarrow> registration" where
  "registered header source st = (if source \<noteq> [] then Push (Message header source) st else st)"

definition deregistered :: "string \<Rightarrow> string \<Rightarrow> registration \<Rightarrow> registration" where
  "deregistered header source st = (if source \<noteq> [] then Push (Message header source) st else st)"

definition ConfirmRegistration :: "registration \<Rightarrow> registration" where
  "ConfirmRegistration st = Push (Command ''confirm'') st"

definition CurrentRegistrationServer :: "nat \<Rightarrow> registration \<Rightarrow> registration" where
  "CurrentRegistrationServer c st = Push (WhoIs c) st"

section \<open>The handler\<close>

definition serversToTry :: "reg_config \<Rightarrow> string list \<Rightarrow> registration \<Rightarrow> string list" where
  "serversToTry cfg dns st =
     (if RunServer cfg then [ServerSourceAddress cfg]
      else [currentServer st, PreferredServer cfg] @ PeerServers cfg @ dns)"

text \<open>The loop that skips empty names.\<close>

function next_index :: "string list \<Rightarrow> nat \<Rightarrow> nat" where
  "next_index l i = (if i < length l \<and> l ! i = [] then next_index l (Suc i) else i)"
  by pat_completeness auto
termination by (relation "measure (\<lambda>(l, i). length l - i)") auto

declare next_index.simps [simp del]

definition on_timeout :: "(string \<Rightarrow> string) \<Rightarrow> nat \<Rightarrow> registration \<Rightarrow> registration" where
  "on_timeout resolve rnd st =
     (if registrationState st = 0 then
        (let i = next_index (serverList st) (nat (indexInList st + 1));
             st = st\<lparr>indexInList := int i\<rparr> in
         if i < length (serverList st) then
           (let st = send_here_i_am (st\<lparr>currentServer := resolve (serverList st ! i)\<rparr>)
            in after_delay (if length (serverList st) = 1 then timeout_for_confirmation
                            else secs_between_candidates + rnd mod 10) ''timeout'' st)
         else st\<lparr>clock := clock st + 55 + rnd mod 20,
                 registrationQueue := Command ''register'' # registrationQueue st\<rparr>)
      else st)"

text \<open>
  The switch over r. The case of the current server takes the message from the queue for a
  call of the hook; for a command that is a failed type assertion: None.
\<close>

definition switch ::
  "reg_config \<Rightarrow> (string \<Rightarrow> string) \<Rightarrow> string list \<Rightarrow> nat \<Rightarrow> string \<Rightarrow> bool \<Rightarrow> registration \<Rightarrow>
   registration option" where
  "switch cfg resolve dns rnd r is_message st =
     (if r = ''register'' then
        Some (if registrationState st = 0
              then Push (Command ''timeout'') (st\<lparr>serverList := serversToTry cfg dns st, currentServer := [],
                     indexInList := -1\<rparr>)
              else st)
      else if r = ''confirm_timeout'' then
        Some (if registrationState st = 1
              then Push (Command ''register'') (st\<lparr>registrationState := 0\<rparr>) else st)
      else if r = ''timeout'' then Some (on_timeout resolve rnd st)
      else if r = currentServer st then
        (if registrationState st \<noteq> 2 then
           (if is_message then Some (st\<lparr>registrationState := 2, hooks_run := hooks_run st @ [r]\<rparr>)
            else None)
         else Some st)
      else if r = ''confirm'' then
        Some (if registrationState st = 2
              then after_delay timeout_for_confirmation ''confirm_timeout''
                     (send_here_i_am (st\<lparr>registrationState := 1\<rparr>))
              else st)
      else Some (Push (Command ''confirm'') st))"

definition handle_item ::
  "reg_config \<Rightarrow> (string \<Rightarrow> string) \<Rightarrow> string list \<Rightarrow> nat \<Rightarrow> registration \<Rightarrow> registration option" where
  "handle_item cfg resolve dns rnd st =
     (case registrationQueue st of
        [] \<Rightarrow> Some st
      | rn # q \<Rightarrow>
          (let st = st\<lparr>registrationQueue := q\<rparr> in
           case rn of
             Command r \<Rightarrow> switch cfg resolve dns rnd r False st
           | Message header server \<Rightarrow>
               if header = ''deregistered'' then
                 (if server \<noteq> currentServer st then Some st
                  else switch cfg resolve dns rnd ''confirm'' True st)
               else switch cfg resolve dns rnd server True st
           | WhoIs c \<Rightarrow> Some (st\<lparr>reg_replies := reg_replies st @
                 [(c, if 0 < registrationState st then currentServer st else [])]\<rparr>)))"

section \<open>Runs\<close>

text \<open>
  Messages and calls arrive at any time, the clock advances, a sleeping goroutine wakes at
  its time or later, and the handler takes the next item.
\<close>

inductive reg_step :: "reg_config \<Rightarrow> (string \<Rightarrow> string) \<Rightarrow> registration \<Rightarrow> registration \<Rightarrow> bool"
  for cfg resolve where
  message_registered: "reg_step cfg resolve st (registered header source st)"
| message_deregistered: "reg_step cfg resolve st (deregistered header source st)"
| call_confirm: "reg_step cfg resolve st (ConfirmRegistration st)"
| call_current: "reg_step cfg resolve st (CurrentRegistrationServer c st)"
| tick: "reg_step cfg resolve st (st\<lparr>clock := clock st + n\<rparr>)"
| wake: "sleepers st = ts @ (t, r) # us \<Longrightarrow> t \<le> clock st \<Longrightarrow>
    reg_step cfg resolve st (Push (Command r) (st\<lparr>sleepers := ts @ us\<rparr>))"
| handled: "handle_item cfg resolve dns rnd st = Some st' \<Longrightarrow> reg_step cfg resolve st st'"

inductive reg_reachable :: "reg_config \<Rightarrow> (string \<Rightarrow> string) \<Rightarrow> registration \<Rightarrow> bool"
  for cfg resolve where
  reg_start: "reg_reachable cfg resolve reg_init"
| reg_next: "reg_reachable cfg resolve st \<Longrightarrow> reg_step cfg resolve st st' \<Longrightarrow> reg_reachable cfg resolve st'"

section \<open>The invariant\<close>

text \<open>An event is pending if it is in the queue or a goroutine sleeps that will push it.\<close>

definition pending :: "string \<Rightarrow> registration \<Rightarrow> bool" where
  "pending r st \<longleftrightarrow> Command r \<in> set (registrationQueue st) \<or> r \<in> snd ` set (sleepers st)"

definition asked :: "string \<Rightarrow> registration \<Rightarrow> bool" where
  "asked server st \<longleftrightarrow> server \<in> snd ` set (here_i_ams st)"

fun has_source :: "reg_item \<Rightarrow> bool" where
  "has_source (Message h s) = (s \<noteq> [])"
| "has_source _ = True"

definition reg_ok :: "registration \<Rightarrow> bool" where
  "reg_ok st \<longleftrightarrow> registrationState st \<le> 2 \<and>
     (registrationState st = 0 \<longrightarrow> pending ''register'' st \<or> pending ''timeout'' st) \<and>
     (registrationState st = 1 \<longrightarrow> pending ''confirm_timeout'' st) \<and>
     (registrationState st \<noteq> 0 \<longrightarrow> currentServer st \<noteq> []) \<and>
     (currentServer st \<noteq> [] \<longrightarrow> asked (currentServer st) st) \<and>
     list_all has_source (registrationQueue st)"


lemma pending_ops [simp]:
  "pending r (Push it st) \<longleftrightarrow> it = Command r \<or> pending r st"
  "pending r (after_delay d r' st) \<longleftrightarrow> r = r' \<or> pending r st"
  "pending r (send_here_i_am st) = pending r st"
  by (auto simp: pending_def Push_def after_delay_def send_here_i_am_def)

lemma Push_fields [simp]:
  "registrationState (Push it st) = registrationState st"
  "currentServer (Push it st) = currentServer st"
  "here_i_ams (Push it st) = here_i_ams st"
  "sleepers (Push it st) = sleepers st"
  "registrationQueue (Push it st) = registrationQueue st @ [it]"
  by (simp_all add: Push_def)

lemma after_delay_fields [simp]:
  "registrationState (after_delay d r st) = registrationState st"
  "currentServer (after_delay d r st) = currentServer st"
  "here_i_ams (after_delay d r st) = here_i_ams st"
  "registrationQueue (after_delay d r st) = registrationQueue st"
  by (simp_all add: after_delay_def)

lemma send_here_i_am_fields [simp]:
  "registrationState (send_here_i_am st) = registrationState st"
  "currentServer (send_here_i_am st) = currentServer st"
  "registrationQueue (send_here_i_am st) = registrationQueue st"
  by (simp_all add: send_here_i_am_def)

lemma asked_ops [simp]:
  "asked s (Push it st) = asked s st" "asked s (after_delay d r st) = asked s st"
  "asked s (send_here_i_am st) \<longleftrightarrow> s = currentServer st \<or> asked s st"
  by (auto simp: asked_def send_here_i_am_def)

lemma asked_cong: "here_i_ams st = here_i_ams st' \<Longrightarrow> asked s st = asked s st'"
  by (simp add: asked_def)

lemma pending_cong:
  "registrationQueue st = registrationQueue st' \<Longrightarrow> sleepers st = sleepers st' \<Longrightarrow> pending r st = pending r st'"
  by (simp add: pending_def)

lemma asked_updates [simp]:
  "asked s (st\<lparr>registrationState := n\<rparr>) = asked s st" "asked s (st\<lparr>currentServer := c\<rparr>) = asked s st"
  "asked s (st\<lparr>serverList := l\<rparr>) = asked s st" "asked s (st\<lparr>indexInList := k\<rparr>) = asked s st"
  "asked s (st\<lparr>registrationQueue := q\<rparr>) = asked s st" "asked s (st\<lparr>sleepers := ts\<rparr>) = asked s st"
  "asked s (st\<lparr>clock := n\<rparr>) = asked s st" "asked s (st\<lparr>hooks_run := hs\<rparr>) = asked s st"
  "asked s (st\<lparr>reg_replies := rs\<rparr>) = asked s st"
  by (simp_all add: asked_def)

lemma pending_updates [simp]:
  "pending r (st\<lparr>registrationState := n\<rparr>) = pending r st" "pending r (st\<lparr>currentServer := c\<rparr>) = pending r st"
  "pending r (st\<lparr>serverList := l\<rparr>) = pending r st" "pending r (st\<lparr>indexInList := k\<rparr>) = pending r st"
  "pending r (st\<lparr>clock := n\<rparr>) = pending r st" "pending r (st\<lparr>hooks_run := hs\<rparr>) = pending r st"
  "pending r (st\<lparr>reg_replies := rs\<rparr>) = pending r st"
  "pending r (st\<lparr>registrationQueue := it # q\<rparr>) \<longleftrightarrow> it = Command r \<or> pending r (st\<lparr>registrationQueue := q\<rparr>)"
  by (auto simp: pending_def)

lemma reg_ok_Push: "reg_ok st \<Longrightarrow> has_source it \<Longrightarrow> reg_ok (Push it st)"
  by (auto simp: reg_ok_def)

lemma pending_wake:
  "sleepers st = ts @ (t, r) # us \<Longrightarrow>
    pending r' (Push (Command r) (st\<lparr>sleepers := ts @ us\<rparr>)) = pending r' st"
  by (auto simp: pending_def)

lemma reg_ok_wake:
  "reg_ok st \<Longrightarrow> sleepers st = ts @ (t, r) # us \<Longrightarrow> reg_ok (Push (Command r) (st\<lparr>sleepers := ts @ us\<rparr>))"
  unfolding reg_ok_def by (simp only: pending_wake) simp

lemma on_timeout_ok:
  assumes "reg_ok (st\<lparr>registrationQueue := Command ''timeout'' # q\<rparr>)"
  shows "reg_ok (on_timeout resolve rnd (st\<lparr>registrationQueue := q\<rparr>))"
  using assms by (auto simp: reg_ok_def on_timeout_def Let_def)

lemma switch_ok:
  assumes "reg_ok (st\<lparr>registrationQueue := Command r # q\<rparr>)"
    and "switch cfg resolve dns rnd r is_message (st\<lparr>registrationQueue := q\<rparr>) = Some st'"
    and "is_message \<Longrightarrow> r \<noteq> []"
  shows "reg_ok st'"
proof -
  consider "r = ''register''" | "r = ''confirm_timeout''" | "r = ''timeout''"
    | "r \<noteq> ''register''" "r \<noteq> ''confirm_timeout''" "r \<noteq> ''timeout''" by blast
  then show ?thesis
  proof cases
    case 3
    then show ?thesis using assms on_timeout_ok [where st = st and q = q] by (auto simp: switch_def)
  qed (use assms in \<open>auto simp: switch_def reg_ok_def split: if_splits\<close>)
qed

lemma handle_message:
  "registrationQueue st = Message header server # q \<Longrightarrow> handle_item cfg resolve dns rnd st =
    (if header = ''deregistered'' \<and> server \<noteq> currentServer st then Some (st\<lparr>registrationQueue := q\<rparr>)
     else switch cfg resolve dns rnd (if header = ''deregistered'' then ''confirm'' else server) True
            (st\<lparr>registrationQueue := q\<rparr>))"
  by (simp add: handle_item_def)

lemma handle_item_ok:
  assumes "reg_ok st" and "handle_item cfg resolve dns rnd st = Some st'"
  shows "reg_ok st'"
proof (cases "registrationQueue st")
  case Nil
  with assms show ?thesis by (simp add: handle_item_def)
next
  case (Cons rn q)
  have as_command: "reg_ok (st\<lparr>registrationQueue := Command r # q\<rparr>)" if "\<forall>r'. rn \<noteq> Command r' \<or> r = r'" for r
    using assms(1) Cons that by (cases rn) (auto simp: reg_ok_def pending_def)
  show ?thesis
  proof (cases rn)
    case (Command r)
    then have "switch cfg resolve dns rnd r False (st\<lparr>registrationQueue := q\<rparr>) = Some st'"
      using assms(2) Cons by (simp add: handle_item_def)
    from switch_ok [OF as_command this] Command show ?thesis by simp
  next
    case (Message header server)
    then have "server \<noteq> []" using assms(1) Cons by (simp add: reg_ok_def)
    moreover have "reg_ok (st\<lparr>registrationQueue := q\<rparr>)"
      using assms(1) Cons Message by (auto simp: reg_ok_def pending_def)
    moreover have "st' = st\<lparr>registrationQueue := q\<rparr> \<or>
        (\<exists>r. r \<noteq> [] \<and> switch cfg resolve dns rnd r True (st\<lparr>registrationQueue := q\<rparr>) = Some st')"
      using handle_message [OF Cons [unfolded Message]] assms(2) \<open>server \<noteq> []\<close> by (auto split: if_splits)
    ultimately show ?thesis
      using switch_ok [OF as_command] Message by blast
  next
    case (WhoIs c)
    then have "reg_ok (st\<lparr>registrationQueue := q\<rparr>)"
      using assms(1) Cons by (auto simp: reg_ok_def pending_def)
    moreover have "st' = st\<lparr>registrationQueue := q, reg_replies := reg_replies st @
        [(c, if 0 < registrationState st then currentServer st else [])]\<rparr>"
      using assms(2) Cons WhoIs by (auto simp: handle_item_def Let_def)
    ultimately show ?thesis by (simp add: reg_ok_def)
  qed
qed

lemma reg_reachable_ok: "reg_reachable cfg resolve st \<Longrightarrow> reg_ok st"
proof (induction rule: reg_reachable.induct)
  case reg_start
  show ?case by (simp add: reg_ok_def reg_init_def pending_def)
next
  case (reg_next st st')
  from reg_next(2) reg_next(3) show ?case
  proof (cases rule: reg_step.cases)
    case (wake ts t r us)
    then show ?thesis using reg_ok_wake reg_next(3) by blast
  next
    case (handled dns rnd)
    then show ?thesis using handle_item_ok reg_next(3) by blast
  qed (auto simp: registered_def deregistered_def ConfirmRegistration_def CurrentRegistrationServer_def
      intro: reg_ok_Push, auto simp: reg_ok_def)
qed


text \<open>Only the four commands of the code are ever pending.\<close>

definition command_name :: "string \<Rightarrow> bool" where
  "command_name r \<longleftrightarrow> r \<in> {''register'', ''timeout'', ''confirm'', ''confirm_timeout''}"

fun item_ok :: "reg_item \<Rightarrow> bool" where
  "item_ok (Command r) = command_name r"
| "item_ok _ = True"

definition commands_ok :: "registration \<Rightarrow> bool" where
  "commands_ok st \<longleftrightarrow> currentServer st \<noteq> ''confirm'' \<and> list_all item_ok (registrationQueue st) \<and>
     list_all (\<lambda>t. command_name (snd t)) (sleepers st)"

lemma command_names [simp]:
  "command_name ''register''" "command_name ''timeout''" "command_name ''confirm''"
  "command_name ''confirm_timeout''"
  by (simp_all add: command_name_def)

lemma commands_ok_switch:
  assumes "commands_ok (st\<lparr>registrationQueue := q\<rparr>)" and "\<And>s. resolve s \<noteq> ''confirm''"
    and "switch cfg resolve dns rnd r is_message (st\<lparr>registrationQueue := q\<rparr>) = Some st'"
  shows "commands_ok st'"
  using assms unfolding switch_def on_timeout_def commands_ok_def Let_def
  by (auto simp: Push_def after_delay_def send_here_i_am_def split: if_splits)

lemma commands_ok_handled:
  assumes "commands_ok st" and "\<And>s. resolve s \<noteq> ''confirm''"
    and "handle_item cfg resolve dns rnd st = Some st'"
  shows "commands_ok st'"
proof (cases "registrationQueue st")
  case Nil
  with assms show ?thesis by (simp add: handle_item_def)
next
  case (Cons rn q)
  then have q: "commands_ok (st\<lparr>registrationQueue := q\<rparr>)" using assms(1) by (simp add: commands_ok_def)
  note sw = commands_ok_switch [OF q assms(2)]
  show ?thesis
  proof (cases rn)
    case (Command r)
    then show ?thesis using assms(3) Cons sw by (simp add: handle_item_def)
  next
    case (Message header server)
    then show ?thesis using assms(3) Cons sw q by (simp add: handle_message split: if_splits)
  next
    case (WhoIs c)
    then show ?thesis using assms(3) Cons q by (auto simp: handle_item_def Let_def commands_ok_def)
  qed
qed

lemma commands_ok_Push: "commands_ok (Push it st) \<longleftrightarrow> item_ok it \<and> commands_ok st"
  by (auto simp: commands_ok_def)

lemma reg_reachable_commands:
  "reg_reachable cfg resolve st \<Longrightarrow> (\<And>s. resolve s \<noteq> ''confirm'') \<Longrightarrow> commands_ok st"
proof (induction rule: reg_reachable.induct)
  case reg_start
  show ?case by (simp add: commands_ok_def reg_init_def)
next
  case (reg_next st st')
  then have ok: "commands_ok st" by blast
  from reg_next(2) show ?case
  proof (cases rule: reg_step.cases)
    case (wake ts t r us)
    with ok show ?thesis by (simp add: commands_ok_def)
  next
    case (handled dns rnd)
    then show ?thesis using commands_ok_handled ok reg_next(4) by blast
  qed (use ok in \<open>auto simp: registered_def deregistered_def ConfirmRegistration_def
      CurrentRegistrationServer_def commands_ok_Push\<close>, use ok in \<open>simp add: commands_ok_def\<close>)
qed

lemma handler_does_not_panic:
  assumes "commands_ok st"
  shows "handle_item cfg resolve dns rnd st \<noteq> None"
proof -
  have "switch cfg resolve dns rnd r False (st\<lparr>registrationQueue := q\<rparr>) \<noteq> None"
    if "command_name r" for r q
    using assms that by (auto simp: switch_def command_name_def commands_ok_def)
  moreover have "switch cfg resolve dns rnd r True s \<noteq> None" for r s by (simp add: switch_def)
  ultimately show ?thesis using assms
    by (auto simp: handle_item_def commands_ok_def Let_def split: list.split reg_item.split)
qed

text \<open>C23: The registration never gets stuck. In every state that can be reached, an event is
  pending that starts or continues the search for a server if there is none, and one that
  ends the wait if a confirmation is due; the server the program is registered at was sent
  here_i_am; and the handler does not panic, if no server resolves to the word confirm.\<close>

theorem registration_never_stalls:
  assumes "reg_reachable cfg resolve st" and "\<And>s. resolve s \<noteq> ''confirm''"
  shows "(registrationState st = 0 \<longrightarrow> pending ''register'' st \<or> pending ''timeout'' st) \<and>
    (registrationState st = 1 \<longrightarrow> pending ''confirm_timeout'' st) \<and> registrationState st \<le> 2 \<and>
    (registrationState st \<noteq> 0 \<longrightarrow> asked (currentServer st) st) \<and>
    handle_item cfg resolve dns rnd st \<noteq> None"
  using reg_reachable_ok [OF assms(1)] handler_does_not_panic [OF reg_reachable_commands [OF assms]]
  by (auto simp: reg_ok_def)


theorem registration_never_stalls_witness:
  "pending ''register'' reg_init \<and> registrationState reg_init \<le> 2 \<and>
    handle_item \<lparr>RunServer = False, ServerSourceAddress = [], PreferredServer = ''s'', PeerServers = []\<rparr>
      (\<lambda>s. s @ '':20081'') [''t''] 3 reg_init \<noteq> None"
proof -
  let ?cfg = "\<lparr>RunServer = False, ServerSourceAddress = [], PreferredServer = ''s'', PeerServers = []\<rparr>"
  have "pending ''register'' reg_init \<or> pending ''timeout'' reg_init" "registrationState reg_init \<le> 2"
    "handle_item ?cfg (\<lambda>s. s @ '':20081'') [''t''] 3 reg_init \<noteq> None"
    using registration_never_stalls [OF reg_start, of "\<lambda>s. s @ '':20081''" ?cfg "[''t'']" 3]
    by (simp_all add: reg_init_def)
  then show ?thesis by (simp add: reg_init_def pending_def)
qed

subsection \<open>The search for a server\<close>

lemma next_index_filter:
  "i \<le> length l \<Longrightarrow> case filter (\<lambda>s. s \<noteq> []) (drop i l) of
     [] \<Rightarrow> next_index l i = length l
   | s # ss \<Rightarrow> next_index l i < length l \<and> l ! next_index l i = s \<and>
       ss = filter (\<lambda>s. s \<noteq> []) (drop (Suc (next_index l i)) l)"
proof (induction l i rule: next_index.induct)
  case (1 l i)
  show ?case
  proof (cases "i < length l")
    case True
    then have d: "drop i l = l ! i # drop (Suc i) l" by (simp add: Cons_nth_drop_Suc)
    show ?thesis
    proof (cases "l ! i = []")
      case True
      with \<open>i < length l\<close> have "next_index l i = next_index l (Suc i)"
        by (simp add: next_index.simps [of l i])
      with \<open>i < length l\<close> True 1 d show ?thesis by (simp split: list.splits)
    next
      case False
      with \<open>i < length l\<close> d show ?thesis by (simp add: next_index.simps [of l i])
    qed
  next
    case False
    with 1(2) show ?thesis by (simp add: next_index.simps [of l "length l"])
  qed
qed

lemma fold_on_timeout:
  assumes "registrationState st = 0" and "-1 \<le> indexInList st" and "indexInList st < int (length (serverList st))"
    and "length rnds = length (filter (\<lambda>s. s \<noteq> []) (drop (nat (indexInList st + 1)) (serverList st)))"
  shows "map snd (here_i_ams (fold (on_timeout resolve) rnds st)) = map snd (here_i_ams st) @
      map resolve (filter (\<lambda>s. s \<noteq> []) (drop (nat (indexInList st + 1)) (serverList st))) \<and>
    (let st' = fold (on_timeout resolve) rnds st in
     registrationState st' = 0 \<and> serverList st' = serverList st \<and> registrationQueue st' = registrationQueue st \<and>
     -1 \<le> indexInList st' \<and> indexInList st' < int (length (serverList st)) \<and>
     filter (\<lambda>s. s \<noteq> []) (drop (nat (indexInList st' + 1)) (serverList st)) = [])"
  using assms
proof (induction rnds arbitrary: st)
  case Nil
  then show ?case by (simp add: Let_def)
next
  case (Cons rnd rnds)
  let ?i = "nat (indexInList st + 1)" and ?l = "serverList st"
  obtain s ss where ss: "filter (\<lambda>s. s \<noteq> []) (drop ?i ?l) = s # ss" "length ss = length rnds"
    using Cons.prems(4) by (cases "filter (\<lambda>s. s \<noteq> []) (drop ?i ?l)") auto
  define j where "j = next_index ?l ?i"
  have j: "j < length ?l" "?l ! j = s" "ss = filter (\<lambda>s. s \<noteq> []) (drop (Suc j) ?l)"
    using next_index_filter [of ?i ?l] ss Cons.prems(2,3) by (simp_all add: j_def)
  define st1 where "st1 = on_timeout resolve rnd st"
  have st1: "registrationState st1 = 0" "serverList st1 = ?l" "indexInList st1 = int j"
    "map snd (here_i_ams st1) = map snd (here_i_ams st) @ [resolve s]"
    "registrationQueue st1 = registrationQueue st"
    using Cons.prems(1) j(1,2) unfolding st1_def on_timeout_def j_def [symmetric]
    by (simp_all add: Let_def after_delay_def send_here_i_am_def)
  have "nat (int j + 1) = Suc j" by simp
  with Cons.IH [of st1] st1 j ss show ?case
    by (simp add: st1_def [symmetric] Let_def)
qed

text \<open>All candidates get their turn. From the start of a registration on, each timeout
  sends here_i_am to the next server of the list that has a name, in the order of the list;
  only when all of them were asked is the registration started again.\<close>

theorem candidates_tried_in_order:
  assumes "registrationState st = 0" and "indexInList st = -1" and "serverList st \<noteq> []"
    and "length rnds = length (filter (\<lambda>s. s \<noteq> []) (serverList st))"
  shows "map snd (here_i_ams (fold (on_timeout resolve) rnds st)) =
      map snd (here_i_ams st) @ map resolve (filter (\<lambda>s. s \<noteq> []) (serverList st)) \<and>
    registrationQueue (fold (on_timeout resolve) rnds st) = registrationQueue st \<and>
    registrationQueue (on_timeout resolve rnd (fold (on_timeout resolve) rnds st)) =
      Command ''register'' # registrationQueue st"
proof -
  define st' where "st' = fold (on_timeout resolve) rnds st"
  have run: "map snd (here_i_ams st') = map snd (here_i_ams st) @ map resolve (filter (\<lambda>s. s \<noteq> []) (serverList st))"
    "registrationState st' = 0" "serverList st' = serverList st" "registrationQueue st' = registrationQueue st"
    "-1 \<le> indexInList st'" "indexInList st' < int (length (serverList st))"
    "filter (\<lambda>s. s \<noteq> []) (drop (nat (indexInList st' + 1)) (serverList st)) = []"
    using fold_on_timeout [OF assms(1), of rnds resolve] assms(2-4) by (simp_all add: st'_def Let_def)
  have "next_index (serverList st) (nat (indexInList st' + 1)) = length (serverList st)"
    using next_index_filter [of "nat (indexInList st' + 1)" "serverList st"] run(5-7) by simp
  with run have "registrationQueue (on_timeout resolve rnd st') = Command ''register'' # registrationQueue st"
    by (simp add: on_timeout_def Let_def)
  with run(1,4) show ?thesis by (simp add: st'_def)
qed

subsection \<open>Confirmations\<close>

text \<open>A confirmation is not always given its 60 seconds. Nothing removes the timeout of a
  confirmation that was answered: if the next one is started 50 seconds later, the old timeout
  ends it after 10 seconds, and the program gives up a server that works.\<close>

theorem stale_confirm_timeout:
  assumes "registrationState st = 2" and "registrationQueue st = []" and "sleepers st = []"
    and "currentServer st = server" and "server \<notin> {[], ''register'', ''timeout'', ''confirm_timeout'', ''confirm''}"
  shows "\<exists>st'. (reg_step cfg resolve)\<^sup>*\<^sup>* st st' \<and> registrationState st' = 0 \<and>
    clock st' = clock st + timeout_for_confirmation \<and>
    here_i_ams st' = here_i_ams st @ [(clock st, server), (clock st + 50, server)]"
proof -
  let ?c = "clock st"
  define s2 where "s2 = st\<lparr>registrationState := 1, here_i_ams := here_i_ams st @ [(?c, server)],
    sleepers := [(?c + 60, ''confirm_timeout'')]\<rparr>"
  define s4 where "s4 = s2\<lparr>registrationState := 2, hooks_run := hooks_run st @ [server]\<rparr>"
  define s7 where "s7 = s4\<lparr>registrationState := 1, clock := ?c + 50,
    here_i_ams := here_i_ams st @ [(?c, server), (?c + 50, server)],
    sleepers := [(?c + 60, ''confirm_timeout''), (?c + 110, ''confirm_timeout'')]\<rparr>"
  define s9 where "s9 = s7\<lparr>clock := ?c + 60, sleepers := [(?c + 110, ''confirm_timeout'')],
    registrationQueue := [Command ''confirm_timeout'']\<rparr>"
  have srv: "server \<noteq> []" "server \<noteq> ''register''" "server \<noteq> ''timeout''" "server \<noteq> ''confirm_timeout''"
    "''confirm'' \<noteq> server" "server \<noteq> ''confirm''" using assms(5) by auto
  have "reg_step cfg resolve st (ConfirmRegistration st)" by (rule call_confirm)
  moreover have "reg_step cfg resolve (ConfirmRegistration st) s2"
    by (rule handled [of _ _ "[]" 0])
      (use assms srv in \<open>simp add: handle_item_def ConfirmRegistration_def Push_def switch_def
        after_delay_def send_here_i_am_def timeout_for_confirmation_def s2_def\<close>)
  moreover have "reg_step cfg resolve s2 (registered ''registered'' server s2)" by (rule message_registered)
  moreover have "reg_step cfg resolve (registered ''registered'' server s2) s4"
    by (rule handled [of _ _ "[]" 0])
      (use assms srv in \<open>simp add: handle_item_def registered_def Push_def switch_def s2_def s4_def\<close>)
  moreover have "reg_step cfg resolve s4 (s4\<lparr>clock := clock s4 + 50\<rparr>)" by (rule tick)
  moreover have "reg_step cfg resolve (s4\<lparr>clock := clock s4 + 50\<rparr>) (ConfirmRegistration (s4\<lparr>clock := clock s4 + 50\<rparr>))"
    by (rule call_confirm)
  moreover have "reg_step cfg resolve (ConfirmRegistration (s4\<lparr>clock := clock s4 + 50\<rparr>)) s7"
    by (rule handled [of _ _ "[]" 0])
      (use assms srv in \<open>simp add: handle_item_def ConfirmRegistration_def Push_def switch_def
        after_delay_def send_here_i_am_def timeout_for_confirmation_def s2_def s4_def s7_def\<close>)
  moreover have "reg_step cfg resolve s7 (s7\<lparr>clock := clock s7 + 10\<rparr>)" by (rule tick)
  moreover have "reg_step cfg resolve (s7\<lparr>clock := clock s7 + 10\<rparr>) s9"
  proof -
    have "sleepers (s7\<lparr>clock := clock s7 + 10\<rparr>) = [] @ (?c + 60, ''confirm_timeout'') # [(?c + 110, ''confirm_timeout'')]"
      by (simp add: s7_def)
    from wake [OF this, of cfg resolve] show ?thesis
      using assms by (simp add: Push_def s9_def s7_def s4_def s2_def ac_simps)
  qed
  moreover have "reg_step cfg resolve s9 (s9\<lparr>registrationState := 0, registrationQueue := [Command ''register'']\<rparr>)"
    by (rule handled [of _ _ "[]" 0]) (simp add: handle_item_def switch_def Push_def s9_def s7_def)
  ultimately have "(reg_step cfg resolve)\<^sup>*\<^sup>* st (s9\<lparr>registrationState := 0, registrationQueue := [Command ''register'']\<rparr>)"
    by (meson r_into_rtranclp rtranclp.rtrancl_into_rtrancl)
  then show ?thesis
    by (intro exI conjI) (assumption, simp_all add: s9_def s7_def timeout_for_confirmation_def)
qed


theorem candidates_tried_in_order_witness:
  "let st = reg_init\<lparr>indexInList := -1, serverList := [[], ''a'', [], ''b'']\<rparr>;
       st' = fold (on_timeout (\<lambda>s. s @ '':1'')) [3, 5] st in
   map snd (here_i_ams st') = [''a:1'', ''b:1''] \<and> registrationQueue st' = registrationQueue st \<and>
   registrationQueue (on_timeout (\<lambda>s. s @ '':1'') 0 st') = Command ''register'' # registrationQueue st"
  using candidates_tried_in_order [of "reg_init\<lparr>indexInList := -1, serverList := [[], ''a'', [], ''b'']\<rparr>" "[3, 5]"
      "\<lambda>s. s @ '':1''" 0] by (simp add: reg_init_def Let_def)

theorem stale_confirm_timeout_witness:
  "\<exists>st'. (reg_step \<lparr>RunServer = False, ServerSourceAddress = [], PreferredServer = ''s'', PeerServers = []\<rparr> id)\<^sup>*\<^sup>*
      (reg_init\<lparr>registrationState := 2, currentServer := ''s'', registrationQueue := []\<rparr>) st' \<and>
    registrationState st' = 0 \<and>
    clock st' = clock (reg_init\<lparr>registrationState := 2, currentServer := ''s'', registrationQueue := []\<rparr>) + timeout_for_confirmation \<and>
    here_i_ams st' = here_i_ams (reg_init\<lparr>registrationState := 2, currentServer := ''s'', registrationQueue := []\<rparr>) @
      [(clock (reg_init\<lparr>registrationState := 2, currentServer := ''s'', registrationQueue := []\<rparr>), ''s''),
       (clock (reg_init\<lparr>registrationState := 2, currentServer := ''s'', registrationQueue := []\<rparr>) + 50, ''s'')]"
  by (rule stale_confirm_timeout) (simp_all add: reg_init_def)

end
