(* ===== verification/JobMessages.thy ===== *)
theory JobMessages
  imports Dispatch JobInvariants Addresses
begin

text \<open>
  The messages that create, change and remove jobs, and the progress reports of the clients:
  go-susi/message/gosa_delete_jobdb_entry.go, gosa_update_status_jobdb_entry.go,
  job_trigger_action.go, gosa_trigger_action.go, gosa_set_activated_for_installation.go,
  job_send_user_msg.go, clmsg_progress.go, clmsg_gotoactivation.go, clmsg_taskdie.go, and the
  parts of here_i_am.go that deal with jobs. A handler gets the configuration, the message
  and the job database, to which it adds requests, and returns the reply.
\<close>

section \<open>Requests of the administrator\<close>

definition apostrophe :: string where
  "apostrophe = [CHR 0x27]"

definition error_text :: "where_error \<Rightarrow> string" where
  "error_text e =
     (case e of
        WrongWrapper n \<Rightarrow> ''Wrapper element must be '' @ apostrophe @ ''where'' @ apostrophe @
          '', not '' @ apostrophe @ n @ apostrophe
      | BadConnector c \<Rightarrow> ''Only '' @ apostrophe @ ''and'' @ apostrophe @ '' and '' @ apostrophe @
          ''or'' @ apostrophe @ '' are allowed as <connector>, not '' @ apostrophe @ c @ apostrophe
      | TwoColumns \<Rightarrow> ''<phrase> may only contain one other element besides <operator>''
      | NoColumn \<Rightarrow> ''<phrase> must have one other element besides <operator>''
      | BadOperator op \<Rightarrow> ''Unsupported <operator>: '' @ op)"

definition where_of :: "hash \<Rightarrow> hash" where
  "where_of xmlmsg = (case First ''where'' xmlmsg of None \<Rightarrow> NewHash ''where'' [] | Some w \<Rightarrow> w)"

text \<open>The reply of the handlers that have nothing to report.\<close>

definition ok_answer :: "process_config \<Rightarrow> hash \<Rightarrow> hash" where
  "ok_answer cfg xmlmsg =
     Add ''session_id'' [''1''] (Add ''answer1'' [''0''] (Add ''target'' [text_of ''source'' xmlmsg]
       (Add ''source'' [ServerSourceAddress cfg] (NewHash ''xml'' [''header'', ''answer'']))))"

definition gosa_delete_jobdb_entry :: "process_config \<Rightarrow> hash \<Rightarrow> jobdb \<Rightarrow> jobdb \<times> hash" where
  "gosa_delete_jobdb_entry cfg xmlmsg st =
     (case WhereFilter (where_of xmlmsg) of
        Inl err \<Rightarrow> (st, ErrorReplyXML cfg (error_text err))
      | Inr f \<Rightarrow> (JobsRemove (ServerSourceAddress cfg) f st, ok_answer cfg xmlmsg))"

definition gosa_update_status_jobdb_entry :: "process_config \<Rightarrow> hash \<Rightarrow> jobdb \<Rightarrow> jobdb \<times> hash" where
  "gosa_update_status_jobdb_entry cfg xmlmsg st =
     (case WhereFilter (where_of xmlmsg) of
        Inl err \<Rightarrow> (st, ErrorReplyXML cfg (error_text err))
      | Inr f \<Rightarrow>
          (case First ''update'' xmlmsg of
             None \<Rightarrow> st
           | Some update \<Rightarrow> JobsModify (ServerSourceAddress cfg) f update st, ok_answer cfg xmlmsg))"

section \<open>New jobs\<close>

text \<open>
  \<open>job_trigger_action\<close>: \<open>now\<close> is the timestamp of the current time. The header has at least
  the four bytes of \<open>job_\<close>, or taking the rest of it panics; and what was done to the job
  until then is not visible to anyone.
\<close>

definition valid_mac :: "string \<Rightarrow> bool" where
  "valid_mac mac = matches_whole macAddressRegexp mac"

definition job_headertag :: "hash \<Rightarrow> string outcome" where
  "job_headertag xmlmsg =
     (let header = text_of ''header'' xmlmsg in
      if length header < 4 then Panics else Returns (ToLower (drop 4 header)))"

definition trigger_job :: "process_config \<Rightarrow> string \<Rightarrow> hash \<Rightarrow> string \<Rightarrow> string \<Rightarrow> hash" where
  "trigger_job cfg now xmlmsg macaddress headertag =
     (let timestamp = text_of ''timestamp'' xmlmsg;
          timestamp = (if timestamp = [] then now else timestamp);
          tminus = text_of ''tminus'' xmlmsg;
          job = NewHash ''job'' [];
          job = Add ''progress'' [''none''] job;
          job = Add ''status'' [''waiting''] job;
          job = Add ''siserver'' [ServerSourceAddress cfg] job;
          job = Add ''modified'' [''1''] job;
          job = Add ''targettag'' [text_of ''target'' xmlmsg] job;
          job = Add ''macaddress'' [macaddress] job;
          job = Add ''plainname'' [''none''] job;
          job = Add ''timestamp'' [timestamp] job;
          job = fold (\<lambda>periodic. FirstOrAdd ''periodic'' (SetText [periodic])) (get1 ''periodic'' xmlmsg) job;
          job = (if tminus \<noteq> [] then Add ''tminus'' [tminus] job else job);
          job = Add ''headertag'' [headertag] job;
          job = Add ''result'' [''none''] job
      in Add ''xmlmessage'' [EncodeToString (String xmlmsg)] job)"

definition job_trigger_action ::
  "process_config \<Rightarrow> (nat \<Rightarrow> nat) \<Rightarrow> string \<Rightarrow> hash \<Rightarrow> jobdb \<Rightarrow> (jobdb \<times> hash) outcome" where
  "job_trigger_action cfg ids now xmlmsg st =
     (let macaddress = text_of ''macaddress'' xmlmsg;
          macaddress = (if macaddress = [] then text_of ''target'' xmlmsg else macaddress)
      in if \<not> valid_mac macaddress
         then Returns (st, ErrorReplyXML cfg ''job_trigger_action* with invalid or missing MAC address'')
         else and_then (job_headertag xmlmsg) (\<lambda>headertag.
                Returns (fst (JobAddLocal ids (trigger_job cfg now xmlmsg macaddress headertag) st),
                         ok_answer cfg xmlmsg)))"

text \<open>\<open>gosa_trigger_*\<close> becomes \<open>job_trigger_*\<close>; a header without \<open>_\<close> panics.\<close>

definition gosa_trigger_action ::
  "process_config \<Rightarrow> (nat \<Rightarrow> nat) \<Rightarrow> string \<Rightarrow> hash \<Rightarrow> jobdb \<Rightarrow> (jobdb \<times> hash) outcome" where
  "gosa_trigger_action cfg ids now xmlmsg st =
     (case Index (text_of ''header'' xmlmsg) CHR ''_'' of
        None \<Rightarrow> Panics
      | Some k \<Rightarrow>
          job_trigger_action cfg ids now
            (FirstOrAdd ''header'' (SetText [''job_'' @ drop (Suc k) (text_of ''header'' xmlmsg)]) xmlmsg) st)"

definition gosa_set_activated_for_installation ::
  "process_config \<Rightarrow> (nat \<Rightarrow> nat) \<Rightarrow> string \<Rightarrow> hash \<Rightarrow> jobdb \<Rightarrow> (jobdb \<times> hash) outcome" where
  "gosa_set_activated_for_installation cfg ids now xmlmsg st =
     (if length (text_of ''header'' xmlmsg) < 4 then Panics
      else if take 4 (text_of ''header'' xmlmsg) = ''gosa''
      then gosa_trigger_action cfg ids now xmlmsg st
      else job_trigger_action cfg ids now xmlmsg st)"

text \<open>\<open>job_send_user_msg\<close>: the message itself becomes the job; \<open>own_mac\<close> is config.MAC.\<close>

definition user_msg_job :: "process_config \<Rightarrow> string \<Rightarrow> string \<Rightarrow> hash \<Rightarrow> string \<Rightarrow> hash" where
  "user_msg_job cfg own_mac now xmlmsg headertag =
     (let timestamp = text_of ''timestamp'' xmlmsg;
          timestamp = (if timestamp = [] then now else timestamp);
          job = Clone xmlmsg;
          job = set_field ''progress'' ''none'' job;
          job = set_field ''status'' ''waiting'' job;
          job = set_field ''siserver'' (ServerSourceAddress cfg) job;
          job = set_field ''modified'' ''1'' job;
          job = set_field ''targettag'' (text_of ''target'' xmlmsg) job;
          job = set_field ''macaddress'' own_mac job;
          job = set_field ''plainname'' ''none'' job;
          job = set_field ''timestamp'' timestamp job;
          job = fold (set_field ''periodic'') (get1 ''periodic'' xmlmsg) job;
          job = set_field ''headertag'' headertag job;
          job = snd (RemoveFirst ''header'' job)
      in set_field ''result'' ''none'' job)"

definition job_send_user_msg ::
  "process_config \<Rightarrow> string \<Rightarrow> (nat \<Rightarrow> nat) \<Rightarrow> string \<Rightarrow> hash \<Rightarrow> jobdb \<Rightarrow> (jobdb \<times> hash) outcome" where
  "job_send_user_msg cfg own_mac ids now xmlmsg st =
     and_then (job_headertag xmlmsg) (\<lambda>headertag.
       Returns (fst (JobAddLocal ids (user_msg_job cfg own_mac now xmlmsg headertag) st),
                ok_answer cfg xmlmsg))"

section \<open>Reports of the clients\<close>

definition all_processing_jobs_for_mac :: "process_config \<Rightarrow> string \<Rightarrow> hash_filter" where
  "all_processing_jobs_for_mac cfg macaddress =
     FilterSimple [''siserver'', ServerSourceAddress cfg, ''status'', ''processing'', ''macaddress'', macaddress]"

definition do_not_run_progress_backwards :: "string \<Rightarrow> hash_filter" where
  "do_not_run_progress_backwards progress =
     FilterOr [FilterRel ''progress'' progress (-1) (-1), FilterRel ''progress'' ''0'' (-1) (-1),
       FilterRel ''progress'' ''100'' 1 1]"

definition progress_filter :: "process_config \<Rightarrow> string \<Rightarrow> string \<Rightarrow> hash_filter" where
  "progress_filter cfg macaddress progress =
     FilterAnd [all_processing_jobs_for_mac cfg macaddress, do_not_run_progress_backwards progress]"

definition clmsg_progress :: "process_config \<Rightarrow> hash \<Rightarrow> jobdb \<Rightarrow> jobdb" where
  "clmsg_progress cfg xmlmsg st =
     (let macaddress = text_of ''macaddress'' xmlmsg;
          progress = text_of ''CLMSG_PROGRESS'' xmlmsg;
          st = JobsModifyLocal (progress_filter cfg macaddress progress)
                 (NewHash ''job'' [''progress'', progress]) st
      in if progress = ''100''
         then JobsModifyLocal (all_processing_jobs_for_mac cfg macaddress)
                (NewHash ''job'' [''status'', ''done'']) st
         else st)"

definition clmsg_gotoactivation :: "process_config \<Rightarrow> hash \<Rightarrow> jobdb \<Rightarrow> jobdb" where
  "clmsg_gotoactivation cfg xmlmsg st =
     clmsg_progress cfg (Add ''CLMSG_PROGRESS'' [''goto-activation''] xmlmsg) st"

text \<open>\<open>clmsg_taskdie\<close>: the MAC address and the faistate that is set in LDAP.\<close>

definition clmsg_taskdie :: "hash \<Rightarrow> string \<times> string" where
  "clmsg_taskdie xmlmsg =
     (let report = text_of ''CLMSG_TASKDIE'' xmlmsg;
          colon = (case Index report CHR '':'' of None \<Rightarrow> length report | Some k \<Rightarrow> k);
          msg = drop colon report;
          tech = Fields (take colon report);
          component = (if 0 < length tech then tech ! 0 else ''fiddledidoo'');
          code = (if 1 < length tech then tech ! 1 else ''-1'');
          criticality = (if 2 < length tech then tech ! 2 else ''fatal'')
      in (text_of ''macaddress'' xmlmsg,
          ''error:'' @ component @ '':'' @ code @ '':'' @ criticality @ '':'' @ msg))"

section \<open>A client that registers\<close>

text \<open>\<open>makeSureWeHaveAppropriateProcessingJob\<close>: the query returns the current jobs.\<close>

definition local_processing :: "process_config \<Rightarrow> string \<Rightarrow> hash_filter" where
  "local_processing cfg macaddress =
     FilterSimple [''siserver'', ServerSourceAddress cfg, ''macaddress'', macaddress, ''status'', ''processing'']"

definition install_or_update_filter :: hash_filter where
  "install_or_update_filter = FilterOr [FilterSimple [''headertag'', ''trigger_action_reinstall''],
     FilterSimple [''headertag'', ''trigger_action_update'']]"

definition processing_job :: "process_config \<Rightarrow> string \<Rightarrow> string \<Rightarrow> string \<Rightarrow> string \<Rightarrow> hash" where
  "processing_job cfg now macaddress headertag progress =
     Add ''result'' [''none''] (Add ''headertag'' [headertag] (Add ''timestamp'' [now]
       (Add ''modified'' [''1''] (Add ''macaddress'' [macaddress] (Add ''targettag'' [macaddress]
         (Add ''siserver'' [ServerSourceAddress cfg] (Add ''status'' [''processing'']
           (Add ''progress'' [progress] (NewHash ''job'' [])))))))))"

definition makeSureWeHaveAppropriateProcessingJob ::
  "process_config \<Rightarrow> (nat \<Rightarrow> nat) \<Rightarrow> string \<Rightarrow> string \<Rightarrow> string \<Rightarrow> string \<Rightarrow> jobdb \<Rightarrow> jobdb" where
  "makeSureWeHaveAppropriateProcessingJob cfg ids now macaddress headertag progress st =
     (if children (Query (accepts (FilterAnd [local_processing cfg macaddress,
            FilterSimple [''headertag'', headertag]])) (jobDB st)) = [] then
        (let f = FilterAnd [local_processing cfg macaddress, install_or_update_filter];
             st = JobsModifyLocal f (NewHash ''job'' [''progress'', ''groom'']) st;
             st = JobsRemoveLocal f True st
         in fst (JobAddLocal ids (processing_job cfg now macaddress headertag progress) st))
      else st)"

text \<open>
  What \<open>here_i_am\<close> does with the jobs of the client: \<open>faistate\<close> is None if LDAP has no entry
  for it. The texts are compared by their first five bytes, filled up with digits.
\<close>

definition jobs_for_faistate ::
  "process_config \<Rightarrow> (nat \<Rightarrow> nat) \<Rightarrow> string \<Rightarrow> string \<Rightarrow> string \<Rightarrow> string option \<Rightarrow> jobdb \<Rightarrow> jobdb" where
  "jobs_for_faistate cfg ids now client_addr macaddress faistate st =
     (case faistate of
        None \<Rightarrow>
          if client_addr = ServerSourceAddress cfg then st
          else makeSureWeHaveAppropriateProcessingJob cfg ids now macaddress
                 ''trigger_action_reinstall'' ''hardware-detection'' st
      | Some state \<Rightarrow>
          (let s = take 5 (state @ ''12345'') in
           if s = ''local'' then
             (let f = FilterAnd [local_processing cfg macaddress, install_or_update_filter]
              in JobsRemoveLocal f False
                   (JobsModifyLocal f (NewHash ''job'' [''progress'', ''groom'']) st))
           else if s = ''reins'' \<or> s = ''insta'' then
             makeSureWeHaveAppropriateProcessingJob cfg ids now macaddress
               ''trigger_action_reinstall'' ''none'' st
           else if s = ''updat'' \<or> s = ''softu'' then
             makeSureWeHaveAppropriateProcessingJob cfg ids now macaddress
               ''trigger_action_update'' ''none'' st
           else st))"

text \<open>The launch of the jobs with \<open>tminus\<close>; \<open>add_timestamp\<close> is util.AddTimestamp.\<close>

definition tminus_due :: "(string \<Rightarrow> string \<Rightarrow> string result) \<Rightarrow> string \<Rightarrow> hash \<Rightarrow> bool" where
  "tminus_due add_timestamp now_ts job =
     (case add_timestamp (text_of ''timestamp'' job) (''-'' @ text_of ''tminus'' job) of
        Inl err \<Rightarrow> False
      | Inr timestamp \<Rightarrow> timestamp \<le> now_ts)"

definition launch_tminus_jobs ::
  "process_config \<Rightarrow> (string \<Rightarrow> string \<Rightarrow> string result) \<Rightarrow> string \<Rightarrow> string \<Rightarrow> jobdb \<Rightarrow> jobdb" where
  "launch_tminus_jobs cfg add_timestamp now_ts macaddress st =
     (let jobs = children (Query (accepts (FilterAnd [FilterSimple [''macaddress'', macaddress],
                   FilterRegexp ''tminus'' ''.''])) (jobDB st));
          to_launch = map with_id (filter (tminus_due add_timestamp now_ts) jobs)
      in if to_launch \<noteq> []
         then JobsModify (ServerSourceAddress cfg) (FilterOr to_launch)
                (NewHash ''job'' [''status'', ''launch'']) st
         else st)"


section \<open>Lemmas\<close>

text \<open>Requests are performed in the order in which they were made.\<close>

fun perform_list :: "string \<Rightarrow> (nat \<Rightarrow> nat) \<Rightarrow> request list \<Rightarrow> jobdb \<Rightarrow> jobdb outcome" where
  "perform_list server ids [] st = Returns st"
| "perform_list server ids (r # rs) st =
     and_then (perform server ids r st) (perform_list server ids rs)"

lemma fold_FirstOrAdd_other:
  "t \<noteq> u \<Longrightarrow> get1 t (fold (\<lambda>v. FirstOrAdd u (SetText [v])) vs h) = get1 t h"
  by (induction vs arbitrary: h) (simp_all add: get1_set_field_other [unfolded set_field_def])

lemma trigger_job_fields:
  "get1 ''id'' (trigger_job cfg now m mac ht) = []"
  "get1 ''original_id'' (trigger_job cfg now m mac ht) = []"
  "get1 ''status'' (trigger_job cfg now m mac ht) = [''waiting'']"
  "get1 ''progress'' (trigger_job cfg now m mac ht) = [''none'']"
  "get1 ''siserver'' (trigger_job cfg now m mac ht) = [ServerSourceAddress cfg]"
  "get1 ''macaddress'' (trigger_job cfg now m mac ht) = [mac]"
  "get1 ''headertag'' (trigger_job cfg now m mac ht) = [ht]"
  "get1 ''plainname'' (trigger_job cfg now m mac ht) = [''none'']"
  "get1 ''timestamp'' (trigger_job cfg now m mac ht) =
     [if text_of ''timestamp'' m = [] then now else text_of ''timestamp'' m]"
  by (simp_all add: trigger_job_def Let_def get1_Add get1_New fold_FirstOrAdd_other)

text \<open>The numeric order of the filters, for values between 0 and 100.\<close>

lemma progress_accepts:
  assumes "filterrel_value progress n (-1) (-1) x \<or> filterrel_value ''0'' 0 (-1) (-1) x \<or>
      filterrel_value ''100'' 100 1 1 x"
    and "ParseInt x = Some k" and "0 \<le> k" and "k \<le> 100" and "0 \<le> n"
  shows "k < n"
  using assms by (auto simp: filterrel_value_def MinInt64_def split: if_splits)


section \<open>Properties\<close>

text \<open>A trigger message becomes a job. With a valid MAC address and a header that starts
  with \<open>job_\<close>, exactly one request is made; performing it appends one waiting job of this
  server to the database, under a new number, for this machine and with the action of the
  header, due at the given time or now, and leaves all other jobs alone. The sender gets the
  answer 0.\<close>

theorem trigger_becomes_job:
  assumes "text_of ''header'' m = ''job_'' @ tag"
    and "mac = (if text_of ''macaddress'' m = [] then text_of ''target'' m else text_of ''macaddress'' m)"
    and "valid_mac mac"
  shows "\<exists>st' job. job_trigger_action cfg ids now m st = Returns (st', ok_answer cfg m) \<and>
    requests st' = requests st @ [RAddLocal job] \<and> jobDB st' = jobDB st \<and>
    (\<forall>db. \<exists>j db'. perform server ids (RAddLocal job) db = Returns db' \<and>
      children (jobDB db') = children (jobDB db) @ [j] \<and>
      get1 ''id'' j = [itoa (ids (issued st))] \<and> get1 ''status'' j = [''waiting''] \<and>
      get1 ''siserver'' j = [ServerSourceAddress cfg] \<and> get1 ''macaddress'' j = [mac] \<and>
      get1 ''headertag'' j = [ToLower tag] \<and>
      get1 ''timestamp'' j = [if text_of ''timestamp'' m = [] then now else text_of ''timestamp'' m])"
proof -
  let ?job = "trigger_job cfg now m mac (ToLower tag)"
  let ?job' = "Clone (set_field ''original_id'' (itoa (ids (issued st))) (set_field ''id'' (itoa (ids (issued st))) ?job))"
  have run: "job_trigger_action cfg ids now m st =
      Returns (enqueue (RAddLocal ?job') (st\<lparr>issued := Suc (issued st)\<rparr>), ok_answer cfg m)"
    using assms(3) by (simp add: job_trigger_action_def job_headertag_def assms(1)
        assms(2) [symmetric] JobAddLocal_def Let_def)
  have "single ''id'' ?job" by (simp add: single_def trigger_job_fields)
  then have fields: "get1 ''id'' ?job' = [itoa (ids (issued st))]" "get1 ''status'' ?job' = [''waiting'']"
    "get1 ''siserver'' ?job' = [ServerSourceAddress cfg]" "get1 ''macaddress'' ?job' = [mac]"
    "get1 ''headertag'' ?job' = [ToLower tag]"
    "get1 ''timestamp'' ?job' = [if text_of ''timestamp'' m = [] then now else text_of ''timestamp'' m]"
    by (simp_all add: trigger_job_fields)
  have "\<exists>j db'. perform server ids (RAddLocal ?job') db = Returns db' \<and>
      children (jobDB db') = children (jobDB db) @ [j] \<and>
      get1 ''id'' j = [itoa (ids (issued st))] \<and> get1 ''status'' j = [''waiting''] \<and>
      get1 ''siserver'' j = [ServerSourceAddress cfg] \<and> get1 ''macaddress'' j = [mac] \<and>
      get1 ''headertag'' j = [ToLower tag] \<and>
      get1 ''timestamp'' j = [if text_of ''timestamp'' m = [] then now else text_of ''timestamp'' m]" for db
    using fields
    by (intro exI [of _ "Clone (named_job ?job')"] exI [of _ "perform_add_local server ?job' db"])
      (simp add: add_local_effect named_job_other del: set_field_def)
  with run show ?thesis
    by (intro exI [of _ "enqueue (RAddLocal ?job') (st\<lparr>issued := Suc (issued st)\<rparr>)"] exI [of _ ?job']) simp
qed


definition example_cfg :: process_config where
  "example_cfg = \<lparr>RunServer = True, ServerSourceAddress = ''10.0.0.1:20081'', TLSRequired = False,
     ModuleKeys = [], own_IP = ''10.0.0.1''\<rparr>"

definition example_trigger :: hash where
  "example_trigger = Hash ''xml'' [Sub (Hash ''header'' [Txt ''job_trigger_action_Wake'']),
     Sub (Hash ''source'' [Txt ''GOSA'']), Sub (Hash ''target'' [Txt ''00:11:22:33:44:5a'']),
     Sub (Hash ''timestamp'' [Txt ''20300101000000''])]"

theorem trigger_becomes_job_witness:
  "\<exists>st' job. job_trigger_action example_cfg (\<lambda>k. k + 5) ''20290101000000'' example_trigger example_jobdb =
      Returns (st', ok_answer example_cfg example_trigger) \<and>
    requests st' = requests example_jobdb @ [RAddLocal job] \<and> jobDB st' = jobDB example_jobdb \<and>
    (\<forall>db. \<exists>j db'. perform ''me'' (\<lambda>k. k + 5) (RAddLocal job) db = Returns db' \<and>
      children (jobDB db') = children (jobDB db) @ [j] \<and>
      get1 ''id'' j = [itoa (issued example_jobdb + 5)] \<and> get1 ''status'' j = [''waiting''] \<and>
      get1 ''siserver'' j = [ServerSourceAddress example_cfg] \<and> get1 ''macaddress'' j = [''00:11:22:33:44:5a''] \<and>
      get1 ''headertag'' j = [ToLower ''trigger_action_Wake''] \<and>
      get1 ''timestamp'' j = [if text_of ''timestamp'' example_trigger = [] then ''20290101000000''
        else text_of ''timestamp'' example_trigger])"
proof -
  have "text_of ''header'' example_trigger = ''job_'' @ ''trigger_action_Wake''"
    "''00:11:22:33:44:5a'' = (if text_of ''macaddress'' example_trigger = []
       then text_of ''target'' example_trigger else text_of ''macaddress'' example_trigger)"
    "valid_mac ''00:11:22:33:44:5a''"
    by code_simp+
  from trigger_becomes_job [OF this, of example_cfg "\<lambda>k. k + 5" "''20290101000000''" example_jobdb "''me''"]
  show ?thesis by blast
qed

definition set_progress :: "string \<Rightarrow> hash" where
  "set_progress v = NewHash ''job'' [''progress'', v]"

lemma set_progress_First: "First t (set_progress v) =
    (if t = ''progress'' then Some (Hash ''progress'' (if v = [] then [] else [Txt v])) else None)"
  by (simp add: set_progress_def First_eq_find AddWithOwnership_def SetText_def AppendString_def)

lemma update_fields_progress: "update_fields (set_progress v) job = set_field ''progress'' v job"
  unfolding update_fields_def updatableFields_def
  by (simp add: copy_field_def set_progress_First own_text_def TextFragments_def)

lemma modified_progress:
  "modified (set_progress v) job = JobUpdateXMLMessage (set_field ''progress'' v job)"
  by (simp add: modified_def acted_job_def launches_def status_given_def set_progress_First
      update_fields_progress)

lemma Clone_set_progress [simp]: "Clone (set_progress v) = set_progress v"
  by (cases "v = []") (simp_all add: set_progress_def AddWithOwnership_def SetText_def AppendString_def)

lemma progress_request:
  "requests (clmsg_progress cfg m st) = requests st @
     RModifyLocal (progress_filter cfg (text_of ''macaddress'' m) (text_of ''CLMSG_PROGRESS'' m))
       (set_progress (text_of ''CLMSG_PROGRESS'' m)) #
     (if text_of ''CLMSG_PROGRESS'' m = ''100''
      then [RRemoveLocal (all_processing_jobs_for_mac cfg (text_of ''macaddress'' m)) False] else [])"
proof -
  have "get1 ''status'' (set_progress v) = []" for v
    by (cases "v = []") (simp_all add: set_progress_def get1_eq AddWithOwnership_def SetText_def AppendString_def)
  then have p: "JobsModifyLocal f (set_progress v) db = enqueue (RModifyLocal f (set_progress v)) db"
    for f v db
    by (simp add: JobsModifyLocal_def text_of_eq)
  have "text_of ''status'' (set_status ''done'') = ''done''" "get1 ''periodic'' (set_status ''done'') = []" by code_simp+
  then have d: "JobsModifyLocal f (set_status ''done'') db = enqueue (RRemoveLocal f False) db" for f db
    by (simp add: JobsModifyLocal_def JobsRemoveLocal_def)
  show ?thesis unfolding clmsg_progress_def set_progress_def [symmetric] set_status_def [symmetric]
    by (simp add: Let_def p d)
qed

text \<open>The job j' is the job j, with at least its progress if that is a number up to 100.\<close>

definition progress_kept :: "hash \<Rightarrow> hash \<Rightarrow> bool" where
  "progress_kept j j' \<longleftrightarrow> id_of j' = id_of j \<and>
     (\<forall>k. get1 ''progress'' j \<noteq> [] \<longrightarrow> ParseInt (text_of ''progress'' j) = Some k \<longrightarrow> 0 \<le> k \<longrightarrow> k \<le> 100 \<longrightarrow>
        (\<exists>k'. ParseInt (text_of ''progress'' j') = Some k' \<and> k \<le> k'))"

lemma progress_kept_refl: "progress_kept j j"
  by (auto simp: progress_kept_def)

lemma progress_filtered:
  assumes "accepts (progress_filter cfg mac p) j" and "single ''progress'' j"
    and "ParseInt p = Some n" and "0 \<le> n"
  shows "progress_kept j (modified (set_progress p) j)"
proof -
  have new: "text_of ''progress'' (modified (set_progress p) j) = p"
    using assms(2) by (simp add: modified_progress JobUpdateXMLMessage_def)
  have "k < n" if k: "get1 ''progress'' j \<noteq> []" "ParseInt (text_of ''progress'' j) = Some k" "0 \<le> k" "k \<le> 100" for k
  proof -
    have "ParseInt ''0'' = Some 0" "ParseInt ''100'' = Some 100" by code_simp+
    moreover have "get1 ''progress'' j = [text_of ''progress'' j]" using assms(2) k(1) by (rule single_text_of)
    ultimately have "filterrel_value p n (-1) (-1) (text_of ''progress'' j) \<or>
        filterrel_value ''0'' 0 (-1) (-1) (text_of ''progress'' j) \<or>
        filterrel_value ''100'' 100 1 1 (text_of ''progress'' j)"
      using assms(1,3) by (auto simp: progress_filter_def do_not_run_progress_backwards_def)
    from progress_accepts [OF this k(2-4) assms(4)] show ?thesis .
  qed
  then show ?thesis unfolding progress_kept_def new using assms(3) by fastforce
qed


definition example_progress :: hash where
  "example_progress = Hash ''xml'' [Sub (Hash ''macaddress'' [Txt ''00:11:22:33:44:5a'']),
     Sub (Hash ''CLMSG_PROGRESS'' [Txt ''42''])]"


subsection \<open>One installation at a time\<close>

lemma processing_job_fields:
  "get1 ''siserver'' (processing_job cfg now mac ht pr) = [ServerSourceAddress cfg]"
  "get1 ''macaddress'' (processing_job cfg now mac ht pr) = [mac]"
  "get1 ''status'' (processing_job cfg now mac ht pr) = [''processing'']"
  "get1 ''headertag'' (processing_job cfg now mac ht pr) = [ht]"
  "get1 ''id'' (processing_job cfg now mac ht pr) = []"
  by (simp_all add: processing_job_def get1_Add get1_New)

text \<open>C22: A client that is to be installed or updated has one job for it. If no job with this
  action runs for the machine, the requests of \<open>makeSureWeHaveAppropriateProcessingJob\<close> leave,
  among the jobs of this server that install or update the machine, exactly one in status
  processing: the new one, under a new number and with the action that was asked for.\<close>

theorem one_install_job_per_machine:
  assumes "db_ok (jobDB st)" and "ht = ''trigger_action_reinstall'' \<or> ht = ''trigger_action_update''"
    and "filter (accepts (FilterAnd [local_processing cfg mac, FilterSimple [''headertag'', ht]]))
      (children (jobDB st)) = []"
  shows "\<exists>rs st' j.
    requests (makeSureWeHaveAppropriateProcessingJob cfg ids now mac ht progress st) = requests st @ rs \<and>
    perform_list server ids rs st = Returns st' \<and>
    filter (accepts (FilterAnd [local_processing cfg mac, install_or_update_filter]))
      (children (jobDB st')) = [j] \<and>
    get1 ''headertag'' j = [ht] \<and> get1 ''id'' j = [itoa (ids (issued st))]"
proof -
  let ?f = "FilterAnd [local_processing cfg mac, install_or_update_filter]"
  let ?job = "processing_job cfg now mac ht progress"
  let ?job' = "Clone (set_field ''original_id'' (itoa (ids (issued st))) (set_field ''id'' (itoa (ids (issued st))) ?job))"
  let ?rs = "[RModifyLocal ?f (set_progress ''groom''), RRemoveLocal ?f True, RAddLocal ?job']"
  have "text_of ''status'' (set_progress ''groom'') \<noteq> ''done''" by code_simp
  then have rs: "requests (makeSureWeHaveAppropriateProcessingJob cfg ids now mac ht progress st) = requests st @ ?rs"
    using assms(1,3) set_progress_def [of "''groom''", symmetric]
    by (simp add: makeSureWeHaveAppropriateProcessingJob_def JobsModifyLocal_def JobsRemoveLocal_def
        JobAddLocal_def Let_def del: NewHash.simps)
  let ?st1 = "perform_modify_local server ?f (set_progress ''groom'') st"
  let ?st2 = "perform_remove_local server ?f True ?st1"
  let ?st3 = "perform_add_local server ?job' ?st2"
  have run: "perform_list server ids ?rs st = Returns ?st3" by simp
  have "single ''id'' ?job" by (simp add: single_def processing_job_fields)
  then have fields: "get1 ''id'' ?job' = [itoa (ids (issued st))]" "get1 ''headertag'' ?job' = [ht]"
    "get1 ''siserver'' ?job' = [ServerSourceAddress cfg]" "get1 ''macaddress'' ?job' = [mac]"
    "get1 ''status'' ?job' = [''processing'']"
    by (simp_all add: processing_job_fields)
  let ?j = "Clone (named_job ?job')"
  have j: "get1 t ?j = get1 t ?job'" if "t \<notin> {''plainname'', ''xmlmessage''}" for t
    using that by (simp add: named_job_other)
  have "accepts ?f ?j"
    using fields j assms(2) by (auto simp: local_processing_def install_or_update_filter_def)
  moreover have "children (jobDB ?st3) = filter (\<lambda>c. \<not> accepts ?f c) (children (jobDB ?st1)) @ [?j]"
    by (simp only: add_local_effect remove_local_effect)
  ultimately have "filter (accepts ?f) (children (jobDB ?st3)) = [?j]" by simp
  with rs run fields j show ?thesis by (intro exI [of _ ?rs] exI [of _ ?st3] exI [of _ ?j]) simp
qed

theorem one_install_job_per_machine_witness:
  "\<exists>rs st' j.
    requests (makeSureWeHaveAppropriateProcessingJob example_cfg (\<lambda>k. k + 5) ''20290101000000''
      ''00:11:22:33:44:5a'' ''trigger_action_update'' ''none'' example_jobdb) = requests example_jobdb @ rs \<and>
    perform_list ''me'' (\<lambda>k. k + 5) rs example_jobdb = Returns st' \<and>
    filter (accepts (FilterAnd [local_processing example_cfg ''00:11:22:33:44:5a'', install_or_update_filter]))
      (children (jobDB st')) = [j] \<and>
    get1 ''headertag'' j = [''trigger_action_update''] \<and> get1 ''id'' j = [itoa (issued example_jobdb + 5)]"
proof -
  have "filter (accepts (FilterAnd [local_processing example_cfg ''00:11:22:33:44:5a'',
      FilterSimple [''headertag'', ''trigger_action_update'']])) (children (jobDB example_jobdb)) = []" by code_simp
  from one_install_job_per_machine [OF _ _ this, of "\<lambda>k. k + 5"] show ?thesis by simp
qed

end
