(* ===== verification/Fai.thy ===== *)
theory Fai
  imports Ldif HashDB "HOL-Library.AList"
begin

text \<open>
  What the server knows about the installation system FAI: the arguments and inputs of the
  LDAP tools (go-susi/db/ldap.go), the repositories, the classes with their inheritance
  between releases (go-susi/db/faidb.go), and the kernels and packages that two hooks list
  (go-susi/db/hooks.go).

  A query to LDAP is an argument \<open>search\<close>: the element that LdifToHash makes of the output of
  ldapsearch with these arguments, or its error. Go does not fix the order in which a loop
  visits the keys of a map: \<open>order\<close> arranges them.
\<close>

section \<open>The LDAP tools\<close>

record ldap_config =
  LDAPURI :: string
  LDAPBase :: string
  LDAPUser :: string
  LDAPUserPasswordFile :: string
  LDAPAdmin :: string
  LDAPAdminPasswordFile :: string
  UnitTag :: string
  UnitTagFilter :: string
  FAIBase :: string
  LDAPServerOUs :: "string list"
  ServerListenAddress :: string

definition ldapSearchBaseScope ::
  "ldap_config \<Rightarrow> string \<Rightarrow> string \<Rightarrow> string \<Rightarrow> string list \<Rightarrow> string list" where
  "ldapSearchBaseScope cfg base scope query attr =
     [''-x'', ''-LLL'', ''-H'', LDAPURI cfg, ''-b'', base, ''-s'', scope] @
     (if LDAPUser cfg \<noteq> [] then [''-D'', LDAPUser cfg, ''-y'', LDAPUserPasswordFile cfg] else []) @
     [query] @ attr"

definition ldapSearchBase :: "ldap_config \<Rightarrow> string \<Rightarrow> string \<Rightarrow> string list \<Rightarrow> string list" where
  "ldapSearchBase cfg base query attr = ldapSearchBaseScope cfg base ''sub'' query attr"

definition ldapSearch :: "ldap_config \<Rightarrow> string \<Rightarrow> string list \<Rightarrow> string list" where
  "ldapSearch cfg query attr = ldapSearchBase cfg (LDAPBase cfg) query attr"

text \<open>The arguments and the input of ldapmodify.\<close>

definition newline :: string where
  "newline = [char_of (10::nat)]"

definition ldapModify :: "ldap_config \<Rightarrow> string \<Rightarrow> string list \<times> string" where
  "ldapModify cfg ldif =
     ([''-x'', ''-H'', LDAPURI cfg, ''-D'', LDAPAdmin cfg, ''-y'', LDAPAdminPasswordFile cfg], ldif)"

definition ldapModifyAttribute ::
  "ldap_config \<Rightarrow> string \<Rightarrow> string \<Rightarrow> string \<Rightarrow> string list \<Rightarrow> string list \<times> string" where
  "ldapModifyAttribute cfg dn modifytype attrname attrvalues =
     ([''-x'', ''-H'', LDAPURI cfg, ''-D'', LDAPAdmin cfg, ''-y'', LDAPAdminPasswordFile cfg],
      ''dn:: '' @ EncodeToString dn @ newline @ ''changetype: modify'' @ newline @
      modifytype @ '': '' @ attrname @ newline @
      concat (map (\<lambda>v. attrname @ '':: '' @ EncodeToString v @ newline) attrvalues))"

text \<open>
  The loop of \<open>LDAPFilterEscape\<close>; \<open>chunk\<close> is \<open>s[i0:i]\<close>. The loop visits the first byte of each
  character; a byte below 128 is always a character of its own.
\<close>

definition hex_of :: "nat \<Rightarrow> char" where
  "hex_of n = ''0123456789ABCDEF'' ! n"

definition filter_special :: "char \<Rightarrow> bool" where
  "filter_special c \<longleftrightarrow> byte c < 32 \<or> c = CHR 0x5C \<or> c = CHR ''*'' \<or> c = CHR ''('' \<or> c = CHR '')''"

fun escape_filter :: "string \<Rightarrow> string \<Rightarrow> string list \<Rightarrow> string list" where
  "escape_filter [] chunk res = (if chunk \<noteq> [] then res @ [chunk] else res)"
| "escape_filter (c # s) chunk res =
     (if filter_special c
      then escape_filter s [] ((if chunk \<noteq> [] then res @ [chunk] else res) @
             [[CHR 0x5C, hex_of (byte c div 16), hex_of (byte c mod 16)]])
      else escape_filter s (chunk @ [c]) res)"

definition LDAPFilterEscape :: "string \<Rightarrow> string" where
  "LDAPFilterEscape s = Join (escape_filter s [] []) []"

definition LDAPAdminBase ::
  "ldap_config \<Rightarrow> (string \<Rightarrow> string list \<Rightarrow> hash result) \<Rightarrow> string \<times> string" where
  "LDAPAdminBase cfg search =
     (case search ''adminunit'' (ldapSearch cfg
             (''(&(objectClass=gosaAdministrativeUnit)'' @ UnitTagFilter cfg @ '')'') [''ou'']) of
        Inl err \<Rightarrow> ([], [])
      | Inr x \<Rightarrow> (case First ''adminunit'' x of None \<Rightarrow> ([], [])
                  | Some unit \<Rightarrow> (text_of ''dn'' unit, text_of ''ou'' unit)))"

definition LDAPFAIBase :: "ldap_config \<Rightarrow> (string \<Rightarrow> string list \<Rightarrow> hash result) \<Rightarrow> string" where
  "LDAPFAIBase cfg search =
     (case search ''fai'' (ldapSearch cfg ''(&(objectClass=organizationalUnit)(ou=fai))'' [''dn'']) of
        Inl err \<Rightarrow> []
      | Inr x \<Rightarrow> (case First ''fai'' x of None \<Rightarrow> [] | Some fai \<Rightarrow> text_of ''dn'' fai))"

section \<open>State\<close>

text \<open>The variables of the package: the releases, the caches, and the release of a repository path.\<close>

record fai_db =
  all_releases :: "string list"
  faiClassCache :: db
  faiClassCacheUpdateTime :: int
  kerneldb :: db
  packagedb :: db
  mapRepoPath2FAIrelease :: "(string \<times> string) list"

text \<open>Times in nanoseconds.\<close>

definition fai_init :: "int \<Rightarrow> fai_db" where
  "fai_init now = \<lparr>all_releases = [], faiClassCache = NewDB ''faidb'' False,
     faiClassCacheUpdateTime = now - 1000 * 3600 * 10 ^ 9, kerneldb = NewDB ''kerneldb'' False,
     packagedb = NewDB ''packagedb'' False, mapRepoPath2FAIrelease = []\<rparr>"

section \<open>Repositories\<close>

definition fai_repository :: "(string \<times> string) list \<Rightarrow> string \<Rightarrow> string \<Rightarrow> string \<Rightarrow> hash list" where
  "fai_repository repos timestamp tag fairepo =
     (let repodat = Split fairepo CHR ''|'' in
      if length repodat \<noteq> 4 then []
      else
        (let repository = NewHash ''repository'' [''timestamp'', timestamp];
             repository = Add ''repopath'' [repodat ! 2] repository;
             repository = Add ''fai_release''
               [case map_of repos (repodat ! 2) of Some fairelease \<Rightarrow> fairelease | None \<Rightarrow> repodat ! 2] repository;
             repository = (if tag \<noteq> [] then Add ''tag'' [tag] repository else repository);
             repository = Add ''server'' [repodat ! 0] repository
         in [Add ''sections'' [repodat ! 3] repository]))"

definition FAIServers ::
  "ldap_config \<Rightarrow> (string \<Rightarrow> string list \<Rightarrow> hash result) \<Rightarrow> string \<Rightarrow> fai_db \<Rightarrow> hash" where
  "FAIServers cfg search timestamp st =
     (let query = ''(&(FAIrepository=*)(objectClass=FAIrepositoryServer))'';
          attrs = [''FAIrepository'', ''gosaUnitTag''];
          searches = ldapSearch cfg query attrs #
            map (\<lambda>ou. ldapSearchBaseScope cfg ou ''one'' query attrs) (LDAPServerOUs cfg);
          ldapSearchResults = concat (map (\<lambda>args. case search ''repository'' args of
            Inl err \<Rightarrow> [] | Inr x \<Rightarrow> [x]) searches);
          repositories = concat (map (\<lambda>x. concat (map (\<lambda>repo.
            concat (map (fai_repository (mapRepoPath2FAIrelease st) timestamp (text_of ''gosaunittag'' repo))
              (get1 ''fairepository'' repo))) (iter_named ''repository'' (kids x)))) ldapSearchResults)
      in fold AddWithOwnership repositories (NewHash ''faidb'' []))"

section \<open>Releases\<close>

text \<open>
  A class is at \<open>cn=TURTLE,ou=disk,ou=2.4.0,ou=halut,\<close>FAIBase; its release is what is left of
  the DN in front of FAIBase without the first two parts.
\<close>

definition extractReleaseFromFAIClassDN :: "string \<Rightarrow> string \<Rightarrow> string" where
  "extractReleaseFromFAIClassDN base dn =
     (case LastIndexText dn (CHR '','' # base) of
        None \<Rightarrow> []
      | Some idx \<Rightarrow>
          (let sub = take idx dn in
           case Index sub CHR '','' of
             None \<Rightarrow> []
           | Some idx \<Rightarrow>
               (case Index (drop (Suc idx) sub) CHR '','' of
                  None \<Rightarrow> []
                | Some idx2 \<Rightarrow> drop (Suc idx + Suc idx2) sub)))"

definition FAIReleasesListUpdate ::
  "ldap_config \<Rightarrow> (string \<Rightarrow> string list \<Rightarrow> hash result) \<Rightarrow> fai_db \<Rightarrow> fai_db" where
  "FAIReleasesListUpdate cfg search st =
     (case search ''fai'' (ldapSearchBase cfg (FAIBase cfg) ''objectClass=FAIbranch'' [''dn'']) of
        Inl err \<Rightarrow> st\<lparr>all_releases := []\<rparr>
      | Inr x \<Rightarrow> st\<lparr>all_releases := fold (\<lambda>fai rs.
          let release = extractReleaseFromFAIClassDN (FAIBase cfg) (''ou=foo,ou=disk,'' @ text_of ''dn'' fai)
          in if release = [] then rs else List.insert release rs)
          (iter_named ''fai'' (kids x)) []\<rparr>)"

definition FAIReleases :: "(string list \<Rightarrow> string list) \<Rightarrow> fai_db \<Rightarrow> string list" where
  "FAIReleases order st = map (\<lambda>release.
     fold (\<lambda>p r. (if r \<noteq> [] then r @ ''/'' else r) @ p)
       (rev (Split (ReplaceAll ''ou='' [] release) CHR '','')) []) (order (all_releases st))"

section \<open>Classes\<close>

definition faiTypes :: "string list" where
  "faiTypes = [''FAIhook'', ''FAIpackageList'', ''FAIpartitionTable'', ''FAIprofile'', ''FAIscript'',
     ''FAItemplate'', ''FAIvariable'']"

definition typeMap :: "string \<Rightarrow> 64 word option" where
  "typeMap = map_of (zip faiTypes [1, 2, 4, 8, 16, 32, 64])"

record fai_info =
  Type :: "64 word"
  Tag :: string

type_synonym fai_table = "(string \<times> (string \<times> fai_info) list) list"

text \<open>
  The bits of one object. Bits 0 to 6: it defines a class of this type; bits 8 to 14: it
  removes the class; bits 16 to 22: it freezes it.
\<close>

fun object_type :: "string list \<Rightarrow> 64 word" where
  "object_type [] = 0"
| "object_type (oc # ocs) = (case typeMap oc of Some typ \<Rightarrow> typ | None \<Rightarrow> object_type ocs)"

definition object_bits :: "hash \<Rightarrow> 64 word" where
  "object_bits fai =
     (let typ = object_type (get1 ''objectclass'' fai);
          state = text_of ''faistate'' fai;
          typ = (if Contains state ''remove'' then push_bit 8 typ else typ)
      in if Contains state ''freeze'' then or typ (push_bit 16 typ) else typ)"

definition no_info :: fai_info where
  "no_info = \<lparr>Type = 0, Tag = []\<rparr>"

definition info_at :: "(string \<times> fai_info) list \<Rightarrow> string \<Rightarrow> fai_info" where
  "info_at release2info release =
     (case map_of release2info release of None \<Rightarrow> no_info | Some info \<Rightarrow> info)"

text \<open>The first loop: the table of the objects, and the releases that are seen.\<close>

definition add_object :: "ldap_config \<Rightarrow> hash \<Rightarrow> fai_table \<times> string list \<Rightarrow> fai_table \<times> string list" where
  "add_object cfg fai acc =
     (let (class2release2info, releases) = acc;
          class_name = text_of ''cn'' fai;
          release = extractReleaseFromFAIClassDN (FAIBase cfg) (text_of ''dn'' fai)
      in if class_name = [] then acc
         else if release = [] then acc
         else
           (let typ = object_bits fai; tag = text_of ''gosaunittag'' fai in
            (case map_of class2release2info class_name of
               None \<Rightarrow> AList.update class_name [(release, \<lparr>Type = typ, Tag = tag\<rparr>)] class2release2info
             | Some release2info \<Rightarrow>
                 AList.update class_name
                   (AList.update release \<lparr>Type = or typ (Type (info_at release2info release)), Tag = tag\<rparr>
                      release2info) class2release2info,
             List.insert release releases)))"

text \<open>
  At Easter there are five more classes, unless the server listens at the standard port.
  \<open>week\<close> are the timestamps of the last seven days.
\<close>

definition easter_days :: string where
  "easter_days = ''130331140420150405160327170416180401190421200412210404220417230409''"

definition nbsp :: string where
  "nbsp = [char_of (194::nat), char_of (160::nat)]"

definition blanks :: "nat \<Rightarrow> string" where
  "blanks n = concat (replicate n (nbsp @ '' ''))"

definition easter_classes :: "string list" where
  "easter_classes =
     [''+'' @ blanks 27 @ nbsp,
      '','' @ blanks 6 @ ''/)/)  '' @ blanks 1 @ nbsp @ nbsp @ ''Happy Easter! '' @ blanks 6 @ nbsp,
      ''-'' @ blanks 5 @ ''=('' @ [CHR 0x27] @ '','' @ [CHR 0x27] @ '')= '' @ blanks 1 @ nbsp @ blanks 16 @ nbsp,
      ''.'' @ blanks 5 @ ''c('' @ [CHR 0x22] @ '')('' @ [CHR 0x22] @ '') '' @ blanks 1 @ [CHR 0x5C, CHR 0x5C] @
        map char_of [195::nat, 152, 195, 184] @ [CHR 0x27] @ map char_of [195::nat, 152] @ ''//'' @ blanks 11 @ nbsp,
      ''/'' @ replicate 11 CHR ''~'' @ replicate 19 CHR 0x27 @ replicate 12 CHR ''~'']"

definition easter_egg :: "ldap_config \<Rightarrow> string list \<Rightarrow> string list \<Rightarrow> fai_table \<Rightarrow> fai_table" where
  "easter_egg cfg week releases table =
     (if ServerListenAddress cfg \<noteq> '':20087'' \<and> list_ex (\<lambda>t. Contains easter_days (take 6 (drop 2 t))) week
      then fold (\<lambda>release. fold (\<lambda>c table.
             AList.update c (AList.update release \<lparr>Type = 0x080008, Tag = UnitTag cfg\<rparr>
               (case map_of table c of None \<Rightarrow> [] | Some release2info \<Rightarrow> release2info)) table)
             easter_classes) releases table
      else table)"

text \<open>
  Inheritance. The loop over the positions of the commas visits the suffixes of the release,
  the root first.
\<close>

definition last_comma :: "string \<Rightarrow> nat" where
  "last_comma s = (case LastIndex s CHR '','' of None \<Rightarrow> 0 | Some k \<Rightarrow> Suc k)"

lemma last_comma_le: "last_comma s \<le> length s"
proof (cases "CHR '','' \<in> set s")
  case True
  then obtain p r where "s = p @ CHR '','' # r" "CHR '','' \<notin> set r" by (meson split_list_last)
  then show ?thesis by (simp add: last_comma_def LastIndex_append)
qed (simp add: last_comma_def LastIndex_None_iff [THEN iffD2])

function release_levels :: "string \<Rightarrow> nat \<Rightarrow> string list" where
  "release_levels release comma =
     (if comma > 0
      then (let comma = last_comma (take comma release)
            in drop comma release # release_levels release (comma - 1))
      else [])"
  by pat_completeness auto
termination release_levels
proof (relation "measure snd", goal_cases)
  case (2 release comma x)
  then show ?case using last_comma_le [of "take comma release"] by (cases "last_comma (take comma release)") auto
qed simp

declare release_levels.simps [simp del]

definition inherit :: "64 word \<times> string \<Rightarrow> fai_info \<Rightarrow> 64 word \<times> string" where
  "inherit acc info =
     (let (types, tag) = acc;
          tag = (if Tag info \<noteq> [] then Tag info else tag);
          t = Type info;
          removed = and (drop_bit 8 t) 0x7f;
          types = and types (not (or removed (push_bit 16 removed)));
          types = and types (not (push_bit 16 (and t 0x7f)))
      in (or types t, tag))"

definition release_types :: "(string \<times> fai_info) list \<Rightarrow> string \<Rightarrow> 64 word \<times> string" where
  "release_types release2info release =
     foldl (\<lambda>acc level. inherit acc (info_at release2info level)) (0, [])
       (release_levels release (length release))"

definition release_name :: "string \<Rightarrow> string" where
  "release_name release = Join (rev (Split (ReplaceAll ''ou='' [] release) CHR '','')) ''/''"

definition fai_entry :: "string \<Rightarrow> string \<Rightarrow> string \<Rightarrow> 64 word \<times> string \<Rightarrow> nat \<Rightarrow> hash list" where
  "fai_entry timestamp class_name release tt i =
     (let (types, tag) = tt;
          has_explicit_instance = and types (push_bit i 1);
          freeze = and types (push_bit i 0x10000)
      in if or has_explicit_instance freeze \<noteq> 0 then
           (let fai = NewHash ''fai'' [''timestamp'', timestamp];
                fai = Add ''fai_release'' [release_name release] fai;
                fai = Add ''type'' [faiTypes ! i] fai;
                fai = Add ''class'' [class_name] fai;
                fai = (if tag \<noteq> [] then Add ''tag'' [tag] fai else fai)
            in [Add ''state'' [if freeze \<noteq> 0 then ''freeze'' else []] fai])
         else [])"

definition class_entries :: "string \<Rightarrow> (string list \<Rightarrow> string list) \<Rightarrow> string list \<Rightarrow> fai_table \<Rightarrow> hash list" where
  "class_entries timestamp order releases table =
     concat (map (\<lambda>class_name. concat (map (\<lambda>release.
       concat (map (fai_entry timestamp class_name release
         (release_types (case map_of table class_name of None \<Rightarrow> [] | Some release2info \<Rightarrow> release2info) release))
         [0..<7])) (order releases))) (order (map fst table)))"

definition FAIClassesCacheInit ::
  "ldap_config \<Rightarrow> (string list \<Rightarrow> string list) \<Rightarrow> int \<Rightarrow> string \<Rightarrow> string list \<Rightarrow> hash \<Rightarrow> fai_db \<Rightarrow>
   fai_db outcome" where
  "FAIClassesCacheInit cfg order now timestamp week x st =
     (let (table, releases) = fold (add_object cfg) (iter_named ''fai'' (kids x)) ([], all_releases st);
          table = easter_egg cfg week (order releases) table;
          faidb = fold AddWithOwnership (class_entries timestamp order releases table) (NewHash ''faidb'' [])
      in and_then (DB_Init faidb (faiClassCache st)) (\<lambda>cache.
           Returns (st\<lparr>all_releases := releases, faiClassCache := cache, faiClassCacheUpdateTime := now\<rparr>)))"

definition all_classes_query :: string where
  "all_classes_query = ''(|(objectClass=FAIhook)(objectClass=FAIpackageList)(objectClass=FAIpartitionTable)'' @
     ''(objectClass=FAIprofile)(objectClass=FAIscript)(objectClass=FAItemplate)(objectClass=FAIvariable))''"

definition FAIClassesCacheNoOlderThan ::
  "ldap_config \<Rightarrow> (string \<Rightarrow> string list \<Rightarrow> hash result) \<Rightarrow> (string list \<Rightarrow> string list) \<Rightarrow> int \<Rightarrow> string \<Rightarrow>
   string list \<Rightarrow> int \<Rightarrow> fai_db \<Rightarrow> fai_db outcome" where
  "FAIClassesCacheNoOlderThan cfg search order now timestamp week age st =
     (if now - faiClassCacheUpdateTime st \<le> age then Returns st
      else (case search ''fai'' (ldapSearchBase cfg (FAIBase cfg) all_classes_query
                [''objectClass'', ''cn'', ''FAIstate'', ''gosaUnitTag'']) of
              Inl err \<Rightarrow> Returns st
            | Inr x \<Rightarrow> FAIClassesCacheInit cfg order now timestamp week x st))"

definition FAIClasses ::
  "ldap_config \<Rightarrow> (string \<Rightarrow> string list \<Rightarrow> hash result) \<Rightarrow> (string list \<Rightarrow> string list) \<Rightarrow> int \<Rightarrow> string \<Rightarrow>
   string list \<Rightarrow> int \<Rightarrow> hash_filter \<Rightarrow> fai_db \<Rightarrow> (hash \<times> fai_db) outcome" where
  "FAIClasses cfg search order now timestamp week max_age query st =
     and_then (FAIClassesCacheNoOlderThan cfg search order now timestamp week max_age st) (\<lambda>st.
       and_then (DB_Query query (faiClassCache st)) (\<lambda>r. Returns (r, st)))"

definition FAIKernels :: "hash_filter \<Rightarrow> fai_db \<Rightarrow> hash outcome" where
  "FAIKernels query st = DB_Query query (kerneldb st)"

definition FAIPackages :: "hash_filter \<Rightarrow> fai_db \<Rightarrow> hash outcome" where
  "FAIPackages query st = DB_Query query (packagedb st)"

section \<open>The hooks\<close>

text \<open>\<open>klist\<close> is what LdifToHash makes of the output of the kernel-list-hook.\<close>

definition kernel_entry :: "hash \<Rightarrow> hash list" where
  "kernel_entry k =
     (case (get1 ''cn'' k, get1 ''release'' k) of
        ([cn], [release]) \<Rightarrow> [Add ''cn'' [cn] (NewHash ''kernel'' [''fai_release'', release])]
      | _ \<Rightarrow> [])"

definition KernelListHook :: "hash result \<Rightarrow> fai_db \<Rightarrow> fai_db outcome" where
  "KernelListHook klist st =
     (case klist of
        Inl err \<Rightarrow> Returns st
      | Inr klist \<Rightarrow>
          if First ''kernel'' klist = None then Returns st
          else
            (let kerneldata = fold AddWithOwnership
                   (concat (map kernel_entry (iter_named ''kernel'' (kids klist)))) (NewHash ''kerneldb'' [])
             in if First ''kernel'' kerneldata = None then Returns st
                else and_then (DB_Init kerneldata (kerneldb st)) (\<lambda>d. Returns (st\<lparr>kerneldb := d\<rparr>))))"

definition packageListFormat :: "element_info list" where
  "packageListFormat =
     map (\<lambda>(l, e, b). \<lparr>LDIFAttributeName = l, ElementName = e, InfoBase64 = b\<rparr>)
       [(''package'', ''package'', False), (''release'', ''distribution'', False),
        (''repository'', ''repository'', False), (''version'', ''version'', False),
        (''section'', ''section'', False), (''description'', ''description'', True),
        (''template'', ''template'', True), (''templates'', ''template'', True)]"

text \<open>What the hook gets to know about the repositories.\<close>

definition package_list_params :: "string \<Rightarrow> string \<Rightarrow> hash \<Rightarrow> string list" where
  "package_list_params debconf cachedir servers =
     [''PackageListDebconf='' @ debconf, ''PackageListCacheDir='' @ cachedir,
      ''PackageListFAIrepository='' @ Join (map (\<lambda>repo.
        text_of ''server'' repo @ ''||'' @ text_of ''repopath'' repo @ ''|'' @ text_of ''sections'' repo)
        (iter_named ''repository'' (kids servers))) '' '']"

text \<open>
  One element of the list: the repository paths it names with their release, and the entry
  it becomes, if it does.
\<close>

definition default_field :: "string \<Rightarrow> string \<Rightarrow> hash \<Rightarrow> hash" where
  "default_field t v p = (if First t p = None then Add t [v] p else p)"

definition package_entry ::
  "(string \<Rightarrow> nat \<Rightarrow> string) \<Rightarrow> string \<Rightarrow> hash \<Rightarrow> (string \<times> string) list \<times> hash option" where
  "package_entry enc timestamp p =
     (case First ''distribution'' p of
        None \<Rightarrow> ([], None)
      | Some release \<Rightarrow>
          (map (\<lambda>repopath. (own_text repopath, own_text release)) (iter_named ''repository'' (kids p)),
           case get1 ''package'' p of
             [pkgname] \<Rightarrow>
               (let p = default_field ''version'' ''1.0'' p;
                    p = default_field ''section'' ''main'' p;
                    p = FirstOrAdd ''timestamp'' (SetText [timestamp]) p;
                    p = (if First ''description'' p = None
                         then AddWithOwnership (EncodeBase64 enc (NewHash ''description'' [pkgname])) p else p)
                in Some (if First ''template'' p = None then Add ''template'' [] p else p))
           | _ \<Rightarrow> None))"

fun package_kids ::
  "(string \<Rightarrow> nat \<Rightarrow> string) \<Rightarrow> string \<Rightarrow> kid list \<Rightarrow> (string \<times> string) list \<Rightarrow>
   kid list \<times> (string \<times> string) list" where
  "package_kids enc timestamp [] m = ([], m)"
| "package_kids enc timestamp (Txt s # ks) m = (let (ks, m) = package_kids enc timestamp ks m in (Txt s # ks, m))"
| "package_kids enc timestamp (Sub p # ks) m =
     (let (paths, entry) = package_entry enc timestamp p;
          (ks, m) = package_kids enc timestamp ks (fold (\<lambda>(path, release). AList.update path release) paths m)
      in (case entry of None \<Rightarrow> ks | Some p \<Rightarrow> Sub p # ks, m))"

text \<open>
  \<open>run_hook\<close> is the program: from the three variables above to its output or an error. None
  is the panic of LdifToHash.
\<close>

definition PackageListHook ::
  "(string \<Rightarrow> int \<Rightarrow> string \<times> int) \<Rightarrow> (string \<Rightarrow> nat \<Rightarrow> string) \<Rightarrow> (string list \<Rightarrow> string result) \<Rightarrow> hash \<Rightarrow>
   string \<Rightarrow> string \<Rightarrow> string \<Rightarrow> fai_db \<Rightarrow> fai_db outcome" where
  "PackageListHook dec enc run_hook servers cachedir timestamp debconf st =
     (case run_hook (package_list_params debconf cachedir servers) of
        Inl err \<Rightarrow> Returns st
      | Inr outbuf \<Rightarrow>
          (case LdifToHash dec enc ''pkg'' True packageListFormat outbuf of
             None \<Rightarrow> Panics
           | Some plist \<Rightarrow>
               if First ''pkg'' plist = None then Returns st
               else
                 (let (ks, repos) = package_kids enc timestamp (kids plist) [];
                      plist = Hash ''packagedb'' ks
                  in if elems ks = [] then Returns st
                     else and_then (DB_Init plist (packagedb st)) (\<lambda>d.
                            Returns (st\<lparr>packagedb := d, mapRepoPath2FAIrelease := repos\<rparr>)))))"

text \<open>The order in which the hooks run; \<open>packages\<close> and \<open>kernels\<close> are the two above.\<close>

definition runHooks ::
  "(string \<Rightarrow> fai_db \<Rightarrow> fai_db outcome) \<Rightarrow> (fai_db \<Rightarrow> fai_db outcome) \<Rightarrow> bool \<Rightarrow> fai_db \<Rightarrow> fai_db outcome" where
  "runHooks packages kernels startup st =
     (if startup then and_then (packages ''cache'' st) (\<lambda>st. and_then (kernels st) (packages ''depends''))
      else and_then (packages ''all'' st) kernels)"


section \<open>Inheritance between releases\<close>

text \<open>
  What an object says of the class it is named after: it has the first of its object classes
  that is a type of FAI, and it defines, freezes or removes the class of this type.
\<close>

definition has_type :: "nat \<Rightarrow> hash \<Rightarrow> bool" where
  "has_type i fai \<longleftrightarrow> find (\<lambda>oc. oc \<in> set faiTypes) (get1 ''objectclass'' fai) = Some (faiTypes ! i)"

definition defines_class :: "nat \<Rightarrow> hash \<Rightarrow> bool" where
  "defines_class i fai \<longleftrightarrow> has_type i fai \<and> \<not> Contains (text_of ''faistate'' fai) ''remove''"

definition freezes_class :: "nat \<Rightarrow> hash \<Rightarrow> bool" where
  "freezes_class i fai \<longleftrightarrow> defines_class i fai \<and> Contains (text_of ''faistate'' fai) ''freeze''"

definition objects_at :: "string \<Rightarrow> hash list \<Rightarrow> string \<Rightarrow> string \<Rightarrow> hash list" where
  "objects_at base objs c release = filter (\<lambda>fai. text_of ''cn'' fai = c \<and> c \<noteq> [] \<and> release \<noteq> [] \<and>
     extractReleaseFromFAIClassDN base (text_of ''dn'' fai) = release) objs"

definition fai_verdict :: "string \<Rightarrow> hash list \<Rightarrow> string \<Rightarrow> string \<Rightarrow> nat \<Rightarrow> string option" where
  "fai_verdict base objs c release i =
     (case find (\<lambda>level. list_ex (has_type i) (objects_at base objs c level))
             (rev (release_levels release (length release))) of
        None \<Rightarrow> None
      | Some level \<Rightarrow>
          if list_ex (freezes_class i) (objects_at base objs c level) then Some ''freeze''
          else if list_ex (defines_class i) (objects_at base objs c level) then Some [] else None)"

lemma length_faiTypes [simp]: "length faiTypes = 7"
  by (simp add: faiTypes_def)

lemma lt7: "i < 7 \<longleftrightarrow> i = 0 \<or> i = 1 \<or> i = 2 \<or> i = 3 \<or> i = 4 \<or> i = 5 \<or> i = (6::nat)"
  by arith

lemma typeMap_nth: "i < 7 \<Longrightarrow> typeMap (faiTypes ! i) = Some (push_bit i 1)"
  unfolding lt7 by (auto simp: typeMap_def faiTypes_def)

lemma typeMap_None: "typeMap oc = None \<longleftrightarrow> oc \<notin> set faiTypes"
  by (auto simp: typeMap_def faiTypes_def)

lemma distinct_faiTypes: "distinct faiTypes"
  by (simp add: faiTypes_def)

lemma object_type_find:
  "object_type ocs = (case find (\<lambda>oc. oc \<in> set faiTypes) ocs of None \<Rightarrow> 0 | Some T \<Rightarrow> the (typeMap T))"
proof (induction ocs)
  case (Cons oc ocs)
  then show ?case using typeMap_None [of oc] by (cases "typeMap oc") auto
qed simp

lemma bit_object_type:
  assumes "n < 64"
  shows "bit (object_type (get1 ''objectclass'' fai)) n \<longleftrightarrow> n < 7 \<and> has_type n fai"
proof (cases "find (\<lambda>oc. oc \<in> set faiTypes) (get1 ''objectclass'' fai)")
  case None
  then show ?thesis by (simp add: object_type_find has_type_def)
next
  case (Some T)
  then obtain j where j: "j < 7" "T = faiTypes ! j"
    using find_SomeD [OF Some] by (auto simp: in_set_conv_nth)
  then have "bit (object_type (get1 ''objectclass'' fai)) n \<longleftrightarrow> n = j"
    using Some assms by (auto simp: object_type_find typeMap_nth push_bit_eq_mult bit_exp_iff)
  moreover have "n < 7 \<Longrightarrow> faiTypes ! j = faiTypes ! n \<longleftrightarrow> j = n"
    using distinct_faiTypes j(1) by (simp add: nth_eq_iff_index_eq)
  ultimately show ?thesis using Some j by (auto simp: has_type_def)
qed

lemma bit_object_bits:
  assumes "i < 7"
  shows "bit (object_bits fai) i = defines_class i fai"
    and "bit (object_bits fai) (8 + i) = (has_type i fai \<and> \<not> defines_class i fai)"
    and "bit (object_bits fai) (16 + i) = freezes_class i fai"
proof -
  note b = bit_object_type [of _ fai]
  from assms show "bit (object_bits fai) i = defines_class i fai"
    by (simp add: object_bits_def Let_def bit_or_iff bit_push_bit_iff b defines_class_def)
  from assms show "bit (object_bits fai) (8 + i) = (has_type i fai \<and> \<not> defines_class i fai)"
    by (auto simp: object_bits_def Let_def bit_or_iff bit_push_bit_iff b defines_class_def)
  from assms show "bit (object_bits fai) (16 + i) = freezes_class i fai"
    by (auto simp: object_bits_def Let_def bit_or_iff bit_push_bit_iff b freezes_class_def defines_class_def)
qed

text \<open>One level of the inheritance, bit by bit.\<close>

lemma and_7f: "and t 0x7f = take_bit 7 (t :: 64 word)"
  by (simp add: take_bit_eq_mask mask_eq_exp_minus_1)

lemma bit_inherit:
  assumes "i < 7"
  shows "bit (fst (inherit acc info)) i \<longleftrightarrow>
      bit (Type info) i \<or> bit (fst acc) i \<and> \<not> bit (Type info) (8 + i)"
    and "bit (fst (inherit acc info)) (16 + i) \<longleftrightarrow>
      bit (Type info) (16 + i) \<or>
      bit (fst acc) (16 + i) \<and> \<not> bit (Type info) (8 + i) \<and> \<not> bit (Type info) i"
  unfolding inherit_def Let_def and_7f
  using assms by (auto simp: bit_or_iff bit_and_iff bit_not_iff bit_push_bit_iff bit_take_bit_iff
      bit_drop_bit_eq split: prod.splits)

definition mentions :: "nat \<Rightarrow> fai_info \<Rightarrow> bool" where
  "mentions i info \<longleftrightarrow> bit (Type info) i \<or> bit (Type info) (8 + i)"

text \<open>The nearest level that says something of the class decides.\<close>

lemma inherit_nearest:
  assumes "i < 7" and "\<forall>info\<in>set infos. bit (Type info) (16 + i) \<longrightarrow> bit (Type info) i"
  shows "bit (fst (foldl inherit (0, []) infos)) i \<longleftrightarrow>
      (case find (mentions i) (rev infos) of None \<Rightarrow> False | Some info \<Rightarrow> bit (Type info) i)"
    and "bit (fst (foldl inherit (0, []) infos)) (16 + i) \<longleftrightarrow>
      (case find (mentions i) (rev infos) of None \<Rightarrow> False | Some info \<Rightarrow> bit (Type info) (16 + i))"
  using assms(2)
proof (induction infos rule: rev_induct)
  case (snoc info infos)
  { case 1 with snoc(1) show ?case by (auto simp: bit_inherit [OF assms(1)] mentions_def) }
  { case 2 with snoc(2) show ?case by (auto simp: bit_inherit [OF assms(1)] mentions_def) }
qed simp_all

text \<open>The table has, for a class and a release, the bits of all its objects.\<close>

definition table_at :: "fai_table \<Rightarrow> string \<Rightarrow> (string \<times> fai_info) list" where
  "table_at table c = (case map_of table c of None \<Rightarrow> [] | Some release2info \<Rightarrow> release2info)"

definition bits_of :: "hash list \<Rightarrow> 64 word" where
  "bits_of objs = foldr (\<lambda>fai. or (object_bits fai)) objs 0"

lemma table_step:
  "Type (info_at (table_at (fst (add_object cfg fai acc)) c) release) =
     or (bits_of (objects_at (FAIBase cfg) [fai] c release)) (Type (info_at (table_at (fst acc) c) release))"
  by (cases acc) (auto simp: add_object_def Let_def objects_at_def bits_of_def table_at_def info_at_def
      no_info_def update_conv' split: option.splits)

lemma table_fold:
  "Type (info_at (table_at (fst (fold (add_object cfg) objs acc)) c) release) =
     or (bits_of (objects_at (FAIBase cfg) objs c release)) (Type (info_at (table_at (fst acc) c) release))"
proof (induction objs arbitrary: acc)
  case Nil
  then show ?case by (simp add: objects_at_def bits_of_def)
next
  case (Cons fai objs)
  have "objects_at (FAIBase cfg) (fai # objs) c release =
      objects_at (FAIBase cfg) [fai] c release @ objects_at (FAIBase cfg) objs c release"
    by (simp add: objects_at_def)
  moreover have "bits_of (xs @ ys) = or (bits_of ys) (bits_of xs)" for xs ys
    by (induction xs) (simp_all add: bits_of_def ac_simps)
  ultimately show ?case by (simp add: Cons table_step ac_simps)
qed

lemma bit_bits_of: "bit (bits_of objs) n \<longleftrightarrow> list_ex (\<lambda>fai. bit (object_bits fai) n) objs"
  by (induction objs) (auto simp: bits_of_def bit_or_iff)


lemma empty_table: "Type (info_at (table_at [] c) release) = 0"
  by (simp add: table_at_def info_at_def no_info_def)

lemma info_bits:
  assumes "i < 7" and "table = fst (fold (add_object cfg) objs ([], rels))"
  shows "bit (Type (info_at (table_at table c) level)) i =
      list_ex (defines_class i) (objects_at (FAIBase cfg) objs c level)"
    and "bit (Type (info_at (table_at table c) level)) (8 + i) =
      list_ex (\<lambda>fai. has_type i fai \<and> \<not> defines_class i fai) (objects_at (FAIBase cfg) objs c level)"
    and "bit (Type (info_at (table_at table c) level)) (16 + i) =
      list_ex (freezes_class i) (objects_at (FAIBase cfg) objs c level)"
  using assms(1) by (simp_all add: assms(2) table_fold bit_or_iff bit_bits_of bit_object_bits empty_table)

lemma info_mentions:
  assumes "i < 7" and "table = fst (fold (add_object cfg) objs ([], rels))"
  shows "mentions i (info_at (table_at table c) level) =
    list_ex (has_type i) (objects_at (FAIBase cfg) objs c level)"
  using assms(1) by (auto simp: mentions_def info_bits [OF assms] list_ex_iff defines_class_def)

lemma foldl_map: "foldl f a (map g xs) = foldl (\<lambda>a x. f a (g x)) a xs"
  by (induction xs arbitrary: a) auto

lemma find_map: "find P (map f xs) = map_option f (find (P \<circ> f) xs)"
  by (induction xs) auto

lemma release_types_bits:
  assumes "i < 7" and "table = fst (fold (add_object cfg) objs ([], rels))"
  shows "bit (fst (release_types (table_at table c) release)) i \<longleftrightarrow>
      fai_verdict (FAIBase cfg) objs c release i \<noteq> None"
    and "bit (fst (release_types (table_at table c) release)) (16 + i) \<longleftrightarrow>
      fai_verdict (FAIBase cfg) objs c release i = Some ''freeze''"
proof -
  let ?at = "info_at (table_at table c)"
  let ?levels = "release_levels release (length release)"
  have implied: "bit (Type (?at level)) (16 + i) \<longrightarrow> bit (Type (?at level)) i" for level
    by (auto simp: info_bits [OF assms] list_ex_iff freezes_class_def)
  have types: "release_types (table_at table c) release = foldl inherit (0, []) (map ?at ?levels)"
    by (simp add: release_types_def foldl_map)
  have near: "find (mentions i) (rev (map ?at ?levels)) =
      map_option ?at (find (\<lambda>level. list_ex (has_type i) (objects_at (FAIBase cfg) objs c level)) (rev ?levels))"
    by (simp add: rev_map find_map o_def info_mentions [OF assms])
  have frozen: "list_ex (freezes_class i) os \<Longrightarrow> list_ex (defines_class i) os" for os
    by (auto simp: list_ex_iff freezes_class_def)
  show "bit (fst (release_types (table_at table c) release)) i \<longleftrightarrow>
      fai_verdict (FAIBase cfg) objs c release i \<noteq> None"
    using inherit_nearest(1) [OF assms(1), of "map ?at ?levels"] implied frozen
    unfolding types near fai_verdict_def by (auto simp: info_bits [OF assms] split: option.splits)
  show "bit (fst (release_types (table_at table c) release)) (16 + i) \<longleftrightarrow>
      fai_verdict (FAIBase cfg) objs c release i = Some ''freeze''"
    using inherit_nearest(2) [OF assms(1), of "map ?at ?levels"] implied
    unfolding types near fai_verdict_def by (auto simp: info_bits [OF assms] split: option.splits)
qed

lemma bit_test:
  "and (w :: 64 word) (push_bit n 1) = 0 \<longleftrightarrow> \<not> bit w n"
  "and (w :: 64 word) (push_bit n 0x10000) = 0 \<longleftrightarrow> \<not> bit w (16 + n)"
proof -
  have "push_bit n (0x10000 :: 64 word) = 2 ^ (16 + n)" by (simp add: push_bit_eq_mult power_add)
  then show "and w (push_bit n 0x10000) = 0 \<longleftrightarrow> \<not> bit w (16 + n)"
    by (simp add: and_exp_eq_0_iff_not_bit)
qed (simp add: push_bit_eq_mult and_exp_eq_0_iff_not_bit)

lemma or_eq_0: "or a b = (0 :: 64 word) \<longleftrightarrow> a = 0 \<and> b = 0"
  by (metis or.right_neutral or_eq_0_iff)

text \<open>What an entry says: release, type, class and state.\<close>

definition entry_says :: "hash \<Rightarrow> string \<times> string \<times> string \<times> string" where
  "entry_says e = (text_of ''fai_release'' e, text_of ''type'' e, text_of ''class'' e, text_of ''state'' e)"

lemma fai_entry_says:
  "map entry_says (fai_entry ts c release tt i) =
    (if bit (fst tt) i \<or> bit (fst tt) (16 + i)
     then [(release_name release, faiTypes ! i, c, if bit (fst tt) (16 + i) then ''freeze'' else [])] else [])"
proof -
  have new: "get1 t (NewHash ''fai'' [''timestamp'', ts]) = (if t = ''timestamp'' then [ts] else [])" for t
    by (simp add: get1_eq AddWithOwnership_def)
  show ?thesis
    by (cases tt) (simp add: fai_entry_def Let_def or_eq_0 bit_test entry_says_def text_of_eq get1_Add new
        and_exp_eq_0_iff_not_bit del: NewHash.simps)
qed


lemma children_fold: "children (fold AddWithOwnership es h) = children h @ es"
  by (induction es arbitrary: h) simp_all

lemma table_at_other: "c \<notin> fst ` set table \<Longrightarrow> table_at table c = []"
  by (auto simp: table_at_def map_of_eq_None_iff [symmetric])

lemma foldl_no_info: "fst (foldl (\<lambda>acc level. inherit acc no_info) (0, []) ls) = 0"
proof -
  have "inherit acc no_info = acc" for acc by (cases acc) (simp add: inherit_def no_info_def)
  then show ?thesis by (induction ls rule: rev_induct) simp_all
qed

lemma class_entries_say:
  assumes order: "\<And>l. set (order l) = set l" and tab: "table = fst (fold (add_object cfg) objs ([], rels))"
  shows "entry_says ` set (class_entries ts order releases table) =
    {(release_name release, faiTypes ! i, c, state) |release i c state.
       release \<in> set releases \<and> i < 7 \<and> fai_verdict (FAIBase cfg) objs c release i = Some state}"
proof -
  let ?types = "\<lambda>c release. release_types (table_at table c) release"
  have states: "entry_says ` set (fai_entry ts c release (?types c release) i) =
      {e. \<exists>state. fai_verdict (FAIBase cfg) objs c release i = Some state \<and>
         e = (release_name release, faiTypes ! i, c, state)}" if "i < 7" for c release i
  proof -
    have "Some state = fai_verdict (FAIBase cfg) objs c release i \<Longrightarrow> state = ''freeze'' \<or> state = []" for state
      by (auto simp: fai_verdict_def split: option.splits if_splits)
    then show ?thesis
      using release_types_bits [OF that tab, of c release]
      by (auto simp: set_map [symmetric] fai_entry_says simp del: set_map split: option.splits)
  qed
  have mentioned: "c \<in> fst ` set table"
    if "i < 7" "fai_verdict (FAIBase cfg) objs c release i = Some state" for i c release state
  proof (rule ccontr)
    assume "c \<notin> fst ` set table"
    then have "info_at (table_at table c) level = no_info" for level
      by (simp add: info_at_def table_at_other)
    then have "fst (?types c release) = 0"
      by (simp add: release_types_def foldl_no_info)
    then show False using release_types_bits(1) [OF that(1) tab, of c release] that(2) by simp
  qed
  have "entry_says ` set (class_entries ts order releases table) =
      (\<Union>c\<in>fst ` set table. \<Union>release\<in>set releases. \<Union>i\<in>{0..<7}.
         entry_says ` set (fai_entry ts c release (?types c release) i))"
    by (auto simp: class_entries_def order table_at_def)
  also have "\<dots> = (\<Union>c\<in>fst ` set table. \<Union>release\<in>set releases. \<Union>i\<in>{0..<7}.
       {e. \<exists>state. fai_verdict (FAIBase cfg) objs c release i = Some state \<and>
         e = (release_name release, faiTypes ! i, c, state)})"
    by (intro SUP_cong refl) (simp add: states)
  also have "\<dots> = {(release_name release, faiTypes ! i, c, state) |release i c state.
       release \<in> set releases \<and> i < 7 \<and> fai_verdict (FAIBase cfg) objs c release i = Some state}"
    using mentioned by fastforce
  finally show ?thesis .
qed


lemma releases_fold:
  "set (snd (fold (add_object cfg) objs acc)) = set (snd acc) \<union>
    {extractReleaseFromFAIClassDN (FAIBase cfg) (text_of ''dn'' fai) |fai.
       fai \<in> set objs \<and> text_of ''cn'' fai \<noteq> [] \<and> extractReleaseFromFAIClassDN (FAIBase cfg) (text_of ''dn'' fai) \<noteq> []}"
proof (induction objs arbitrary: acc)
  case (Cons fai objs)
  have "set (snd (add_object cfg fai acc)) = set (snd acc) \<union>
    {extractReleaseFromFAIClassDN (FAIBase cfg) (text_of ''dn'' f) |f.
       f = fai \<and> text_of ''cn'' f \<noteq> [] \<and> extractReleaseFromFAIClassDN (FAIBase cfg) (text_of ''dn'' f) \<noteq> []}"
    by (cases acc) (auto simp: add_object_def Let_def)
  with Cons show ?case by auto
qed simp

text \<open>For a DN whose parts are not empty, the levels are the DNs above it, from the root on.\<close>

lemma last_comma_append: "CHR '','' \<in> set r \<Longrightarrow> last_comma (p @ r) = length p + last_comma r"
proof -
  assume "CHR '','' \<in> set r"
  then obtain a b where "r = a @ CHR '','' # b" "CHR '','' \<notin> set b" by (meson split_list_last)
  then show ?thesis
    using LastIndex_append [where p = "p @ a" and s = b] by (simp add: last_comma_def LastIndex_append)
qed

lemma last_comma_0: "last_comma s = 0 \<longleftrightarrow> CHR '','' \<notin> set s"
  by (auto simp: last_comma_def LastIndex_None_iff split: option.splits)
    (metis LastIndex_None_iff option.distinct(1))

lemma last_comma_first: "s \<noteq> [] \<Longrightarrow> hd s \<noteq> CHR '','' \<Longrightarrow> last_comma s \<noteq> 1"
proof
  assume s: "s \<noteq> []" "hd s \<noteq> CHR '',''" and "last_comma s = 1"
  then have "CHR '','' \<in> set s" using last_comma_0 [of s] by auto
  then obtain a b where r: "s = a @ CHR '','' # b" "CHR '','' \<notin> set b" by (meson split_list_last)
  with \<open>last_comma s = 1\<close> have "a = []" by (simp add: last_comma_def LastIndex_append)
  with r s show False by simp
qed

lemma release_levels_append:
  assumes "CHR '','' \<notin> set p" and "p \<noteq> []" and "r \<noteq> []" and "hd r \<noteq> CHR '',''" and "0 < k" and "k \<le> length r"
  shows "release_levels (p @ CHR '','' # r) (Suc (length p) + k) =
    release_levels r k @ [p @ CHR '','' # r]"
  using assms(5,6)
proof (induction k rule: less_induct)
  case (less k)
  let ?s = "p @ CHR '','' # r"
  have t: "take (Suc (length p) + k) ?s = (p @ [CHR '','']) @ take k r" by simp
  have c: "last_comma (take (Suc (length p) + k) ?s) = Suc (length p) + last_comma (take k r)"
  proof (cases "CHR '','' \<in> set (take k r)")
    case True
    show ?thesis unfolding t using last_comma_append [OF True, of "p @ [CHR '','']"] by simp
  next
    case False
    have "last_comma (p @ CHR '','' # take k r) = Suc (length p)"
      using False by (simp add: last_comma_def LastIndex_append)
    then show ?thesis using False by (simp add: last_comma_0 [THEN iffD2])
  qed
  have top: "release_levels ?s (length p) = [?s]"
    using assms(1,2) by (simp add: release_levels.simps [of _ "length p"] release_levels.simps [of _ 0]
        last_comma_0 [THEN iffD2])
  have step: "release_levels ?s (Suc (length p) + k) =
      drop (last_comma (take k r)) r # release_levels ?s (length p + last_comma (take k r))"
    by (subst release_levels.simps) (simp only: c Let_def, simp)
  show ?case
  proof (cases "last_comma (take k r)")
    case 0
    then show ?thesis
      using step top less.prems by (simp add: release_levels.simps [of r k] release_levels.simps [of r 0])
  next
    case (Suc j)
    have "take k r \<noteq> []" "hd (take k r) = hd r" using less.prems assms(3) by (auto simp: hd_take)
    then have "j \<noteq> 0" using last_comma_first [of "take k r"] assms(4) Suc by auto
    moreover have "j < k" using last_comma_le [of "take k r"] Suc by simp
    ultimately show ?thesis
      using less.IH [of j] less.prems step Suc by (simp add: release_levels.simps [of r k])
  qed
qed

lemma release_levels_parts:
  assumes "parts \<noteq> []" and "\<forall>p\<in>set parts. p \<noteq> [] \<and> CHR '','' \<notin> set p"
  shows "release_levels (Join parts '','') (length (Join parts '','')) =
    map (\<lambda>k. Join (drop k parts) '','') (rev [0..<length parts])"
  using assms
proof (induction parts rule: induct_list012)
  case (2 p)
  then show ?case
    by (simp add: release_levels.simps [of _ "length p"] release_levels.simps [of _ 0] last_comma_0 [THEN iffD2])
next
  case (3 p q ps)
  let ?r = "Join (q # ps) '',''"
  have r: "?r \<noteq> []" "hd ?r \<noteq> CHR '',''" using 3(4) by (cases ps; cases q; auto)+
  have "release_levels (p @ CHR '','' # ?r) (Suc (length p) + length ?r) =
      release_levels ?r (length ?r) @ [p @ CHR '','' # ?r]"
    using 3(4) r by (intro release_levels_append) auto
  then have "release_levels (Join (p # q # ps) '','') (length (Join (p # q # ps) '','')) =
      map (\<lambda>k. Join (drop k (q # ps)) '','') (rev [0..<length (q # ps)]) @ [Join (p # q # ps) '','']"
    using 3 by simp
  also have "map (\<lambda>k. Join (drop k (q # ps)) '','') (rev [0..<length (q # ps)]) =
      map (\<lambda>k. Join (drop k (p # q # ps)) '','') (map Suc (rev [0..<length (q # ps)]))"
    by (simp add: o_def)
  also have "\<dots> @ [Join (p # q # ps) '',''] =
      map (\<lambda>k. Join (drop k (p # q # ps)) '','') (rev (0 # map Suc [0..<length (q # ps)]))"
    by (simp add: rev_map)
  also have "0 # map Suc [0..<length (q # ps)] = [0..<length (p # q # ps)]"
    by (simp add: map_Suc_upt upt_conv_Cons [of 0] upt_conv_Cons [of "Suc 0"] del: upt_Suc)
  finally show ?case .
qed simp


text \<open>The release of the DN of a class.\<close>

lemma LastIndexText_append: "LastIndexText (p @ s) s = Some (length p)"
proof (induction p)
  case Nil
  have "LastIndexText s' s = None" if "length s' < length s" for s'
    using that by (induction s') (auto simp: HasPrefix_def dest: arg_cong [where f = length])
  then show ?case by (cases s) (auto simp: HasPrefix_def)
qed simp

lemma extracted_release:
  assumes "CHR '','' \<notin> set cn" and "CHR '','' \<notin> set ou"
  shows "extractReleaseFromFAIClassDN base (cn @ '','' @ ou @ '','' @ release @ '','' @ base) = release"
proof -
  have "LastIndexText (cn @ '','' @ ou @ '','' @ release @ '','' @ base) (CHR '','' # base) =
      Some (length (cn @ '','' @ ou @ '','' @ release))"
    using LastIndexText_append [of "cn @ '','' @ ou @ '','' @ release" "CHR '','' # base"] by simp
  then show ?thesis
    using assms by (simp add: extractReleaseFromFAIClassDN_def Index_append)
qed


text \<open>A class at the root of the release plophos that plophos/4.1.0 freezes.\<close>

definition example_ldap :: ldap_config where
  "example_ldap = \<lparr>LDAPURI = ''ldap://h'', LDAPBase = ''c=de'', LDAPUser = [], LDAPUserPasswordFile = [],
     LDAPAdmin = [], LDAPAdminPasswordFile = [], UnitTag = [], UnitTagFilter = [], FAIBase = ''ou=fai,c=de'',
     LDAPServerOUs = [], ServerListenAddress = '':20087''\<rparr>"

definition example_objects :: hash where
  "example_objects = fold (\<lambda>(dn, state).
     AddWithOwnership (Add ''faistate'' [state] (Add ''objectclass'' [''FAIscript''] (Add ''cn'' [''HARDENING'']
       (NewHash ''fai'' [''dn'', dn])))))
     [(''cn=HARDENING,ou=scripts,ou=plophos,ou=fai,c=de'', []),
      (''cn=HARDENING,ou=scripts,ou=4.1.0,ou=plophos,ou=fai,c=de'', ''freeze'')] (NewHash ''xml'' [])"


lemma example_verdicts:
  "fai_verdict ''ou=fai,c=de'' (iter_named ''fai'' (kids example_objects)) ''HARDENING'' ''ou=4.1.0,ou=plophos'' 4 =
     Some ''freeze''"
  "fai_verdict ''ou=fai,c=de'' (iter_named ''fai'' (kids example_objects)) ''HARDENING'' ''ou=plophos'' 4 = Some []"
  "fai_verdict ''ou=fai,c=de'' (iter_named ''fai'' (kids example_objects)) ''HARDENING'' ''ou=plophos'' 3 = None"
  by code_simp+

section \<open>Filters\<close>

text \<open>How a server reads the value in a filter (RFC 4515): a backslash and two hexadecimal digits are a byte.\<close>

definition hex_value :: "char \<Rightarrow> nat option" where
  "hex_value c = map_of (zip ''0123456789ABCDEF'' [0..<16]) c"

fun filter_value :: "string \<Rightarrow> string option" where
  "filter_value [] = Some []"
| "filter_value (c # s) =
     (if c = CHR ''*'' \<or> c = CHR ''('' \<or> c = CHR '')'' \<or> byte c = 0 then None
      else if c = CHR 0x5C then
        (case s of
           h # l # s \<Rightarrow>
             (case (hex_value h, hex_value l) of
                (Some i, Some j) \<Rightarrow> map_option (Cons (char_of (16 * i + j))) (filter_value s)
              | _ \<Rightarrow> None)
         | _ \<Rightarrow> None)
      else map_option (Cons c) (filter_value s))"

definition escaped :: "string \<Rightarrow> string" where
  "escaped s = concat (map (\<lambda>c. if filter_special c
     then [CHR 0x5C, hex_of (byte c div 16), hex_of (byte c mod 16)] else [c]) s)"

lemma Join_nil: "Join ss [] = concat ss"
  by (induction ss "[] :: string" rule: Join.induct) auto

lemma escape_filter_escaped: "concat (escape_filter s chunk res) = concat res @ chunk @ escaped s"
  by (induction s chunk res rule: escape_filter.induct) (auto simp: escaped_def)

lemma LDAPFilterEscape_eq: "LDAPFilterEscape s = escaped s"
  by (simp add: LDAPFilterEscape_def Join_nil escape_filter_escaped)

lemma all_digits: "n < 16 \<Longrightarrow> P n" if "\<forall>n\<in>set [0..<16]. P n" for P :: "nat \<Rightarrow> bool"
  using that by simp

lemma hex_value_hex_of: "n < 16 \<Longrightarrow> hex_value (hex_of n) = Some n"
  by (rule all_digits [of "\<lambda>n. hex_value (hex_of n) = Some n"]) (code_simp, assumption)

lemma hex_of_plain: "n < 16 \<Longrightarrow> byte (hex_of n) \<ge> 48 \<and> hex_of n \<noteq> CHR 0x5C"
  by (rule all_digits [of "\<lambda>n. byte (hex_of n) \<ge> 48 \<and> hex_of n \<noteq> CHR 0x5C"]) (code_simp, assumption)

lemma escaped_read_back: "filter_value (escaped s @ t) = map_option ((@) s) (filter_value t)"
proof (induction s)
  case (Cons c s)
  have "byte c div 16 < 16" using byte_less [of c] by (simp add: less_mult_imp_div_less)
  moreover have "char_of (16 * (byte c div 16) + byte c mod 16) = c" by (simp add: byte_def)
  moreover have "byte CHR 0x5C = 92" by (simp add: byte_def)
  ultimately show ?case
    using Cons by (auto simp: escaped_def hex_value_hex_of filter_special_def option.map_comp o_def)
qed (simp add: escaped_def option.map_ident)

lemma escaped_plain: "c \<in> set (escaped s) \<Longrightarrow> 32 \<le> byte c \<and> c \<notin> {CHR ''*'', CHR ''('', CHR '')''}"
proof -
  assume "c \<in> set (escaped s)"
  then obtain d where d: "filter_special d \<and> c \<in> {CHR 0x5C, hex_of (byte d div 16), hex_of (byte d mod 16)} \<or>
      \<not> filter_special d \<and> c = d"
    by (auto simp: escaped_def split: if_splits)
  have "byte d div 16 < 16" using byte_less [of d] by (simp add: less_mult_imp_div_less)
  with d hex_of_plain [of "byte d div 16"] hex_of_plain [of "byte d mod 16"] show ?thesis
    by (auto simp: filter_special_def byte_def)
qed

text \<open>A value in an LDAP filter cannot get out of its place. What \<open>LDAPFilterEscape\<close> makes of
  any text has no bracket, asterisk or control character, and an LDAP server that follows
  RFC 4515 reads exactly the text from it.\<close>

theorem filter_values_are_read_back:
  "filter_value (LDAPFilterEscape s) = Some s \<and>
   (\<forall>c. c \<in> set (LDAPFilterEscape s) \<longrightarrow> 32 \<le> byte c \<and> c \<notin> {CHR ''*'', CHR ''('', CHR '')''})"
  using escaped_read_back [of s "[]"] escaped_plain [of _ s] by (simp add: LDAPFilterEscape_eq)

theorem filter_values_are_read_back_witness:
  "filter_value (LDAPFilterEscape ''a)(cn=*'') = Some ''a)(cn=*''"
  using filter_values_are_read_back [of "''a)(cn=*''"] by simp


section \<open>Packages\<close>

text \<open>An entry that is complete: each element the readers of the database expect is there.\<close>

definition package_complete :: "string \<Rightarrow> hash \<Rightarrow> bool" where
  "package_complete timestamp p \<longleftrightarrow> length (get1 ''package'' p) = 1 \<and>
     hd (get1 ''timestamp'' p) = timestamp \<and>
     list_all (\<lambda>t. get1 t p \<noteq> []) [''distribution'', ''version'', ''section'', ''description'', ''template'', ''timestamp'']"

lemma get1_default_field: "get1 t (default_field u v p) =
    get1 t p @ (if t = u \<and> get1 t p = [] then [v] else [])"
  by (auto simp: default_field_def get1_Add First_None_iff get1_eq filter_empty_conv)

lemma get1_AddOwn: "get1 t (AddWithOwnership c p) = get1 t p @ (if Name c = t then [own_text c] else [])"
  by (simp add: get1_eq)

lemma First_get1: "First t p = None \<longleftrightarrow> get1 t p = []"
  by (auto simp: First_None_iff get1_eq filter_empty_conv)

lemma Name_EncodeBase64: "Name (EncodeBase64 enc h) = Name h"
proof -
  have "Name (encode_fragments enc ts carry h) = Name h" for ts carry h
    by (induction enc ts carry h rule: encode_fragments.induct) (auto simp: Let_def split: prod.splits)
  then show ?thesis by (simp add: EncodeBase64_def)
qed

lemma package_entry_complete:
  assumes "package_entry enc timestamp p = (paths, Some e)"
  shows "package_complete timestamp e"
proof -
  from assms obtain pkgname where pkg: "get1 ''package'' p = [pkgname]" and dist: "get1 ''distribution'' p \<noteq> []"
    by (auto simp: package_entry_def First_None_iff [symmetric] split: option.splits list.splits)
  have stamp: "get1 t (FirstOrAdd ''timestamp'' (SetText [timestamp]) q) =
      (if t = ''timestamp'' then timestamp # tl (get1 t q) else get1 t q)" for t q
    using get1_set_field_other [of t "''timestamp''" timestamp q] get1_set_field_same [of "''timestamp''" timestamp q]
    by (auto simp: set_field_def)
  show ?thesis
    using assms pkg dist
    by (auto simp: package_entry_def Let_def package_complete_def First_None_iff get1_default_field stamp
        get1_AddOwn Name_EncodeBase64 get1_Add split: option.splits if_splits)
qed

lemma package_kids_complete:
  "list_all (package_complete timestamp) (elems (fst (package_kids enc timestamp ks m)))"
proof (induction enc timestamp ks m rule: package_kids.induct)
  case (3 enc timestamp p ks m)
  then show ?case
    using package_entry_complete [of enc timestamp p "fst (package_entry enc timestamp p)"]
    by (cases "package_entry enc timestamp p") (auto simp: Let_def split: prod.splits option.splits)
qed (auto split: prod.splits)


end
