(* ===== verification/SystemDB.thy ===== *)
theory SystemDB
  imports Fai ClientDB "HOL-Library.Multiset"
begin

text \<open>
  The systems in the LDAP directory, go-susi/db/systemdb.go: looking them up by MAC address or
  name, changing attributes and whole entries, filling in data from object groups and
  templates, and the matching of templates.

  The surroundings are arguments: the answers of LDAP, of the name service, and of ldapmodify.
  A function that changes the directory returns the inputs of the ldapmodify commands it runs.
\<close>

section \<open>Surroundings\<close>

record system_config =
  Ldap :: ldap_config
  OwnIP :: string
  ClientPorts :: "string list"
  LookupDomains :: "string list"
  Domain :: string

text \<open>
  \<open>search\<close> is as in theory Fai; \<open>Resolve\<close> is util.Resolve, \<open>LookupAddr\<close> is net.LookupAddr,
  \<open>ModifyError\<close> the error of ldapmodify with these arguments and this input, if any.
\<close>

record directory =
  search :: "string \<Rightarrow> string list \<Rightarrow> hash result"
  Resolve :: "string \<Rightarrow> string result"
  LookupAddr :: "string \<Rightarrow> string list result"
  ModifyError :: "string list \<times> string \<Rightarrow> string option"

text \<open>The element LdifToHash returns together with an error is empty.\<close>

definition found :: "hash result \<Rightarrow> hash" where
  "found r = (case r of Inl err \<Rightarrow> NewHash ''xml'' [] | Inr x \<Rightarrow> x)"

definition DoNotCopyAttribute :: "string list" where
  "DoNotCopyAttribute = [''dn'', ''cn'', ''macaddress'', ''iphostnumber'', ''member'',
     ''gosagroupobjects'', ''description'', ''gocomment'']"

definition CopyObjectclass :: "string list" where
  "CopyObjectclass = [''top'', ''FAIobject'', ''GOhard'', ''gosaAdministrativeUnitTag'',
     ''gotoWorkstation'', ''goServer'', ''FAIrepositoryServer'', ''goCupsServer'',
     ''goEnvironmentServer'', ''goFaxServer'', ''goFonHomeServer'', ''goFonServer'',
     ''goGlpiServer'', ''goImapServer'', ''goImapSieveServer'', ''goKrbServer'', ''goLdapServer'',
     ''goLogDBServer'', ''goMailServer'', ''goNfsServer'', ''goNtpServer'', ''goShareServer'',
     ''goSpamServer'', ''goSyslogServer'', ''goTerminalServer'', ''goVirusServer'',
     ''gosaLogServer'', ''gosaMailServer'', ''gotoLdapServer'', ''gotoLpdServer'',
     ''gotoNtpServer'', ''gotoProfileServer'', ''gotoSwapServer'', ''gotoSyslogServer'',
     ''gotoXdmcpServer'']"

section \<open>Names and addresses\<close>

definition by_class :: "system_config \<Rightarrow> string \<Rightarrow> string \<Rightarrow> string \<Rightarrow> string" where
  "by_class cfg objectclass attr v =
     ''(&(objectClass='' @ objectclass @ '')('' @ attr @ ''='' @ LDAPFilterEscape v @ '')'' @
       UnitTagFilter (Ldap cfg) @ '')''"

text \<open>The longest name, the first of several, without the dots at its end.\<close>

definition SystemNameForIPAddress :: "directory \<Rightarrow> string \<Rightarrow> string" where
  "SystemNameForIPAddress env ip =
     (case LookupAddr env ip of
        Inl err \<Rightarrow> ''none''
      | Inr [] \<Rightarrow> ''none''
      | Inr (n # ns) \<Rightarrow>
          (let best = fold (\<lambda>name best. if length name > length best then name else best) ns n
           in ToLower (rev (dropWhile (\<lambda>c. c = CHR ''.'') (rev best)))))"

function SystemIPAddressForName :: "system_config \<Rightarrow> directory \<Rightarrow> string \<Rightarrow> string" where
  "SystemIPAddressForName cfg env host =
     (case Resolve env host of
        Inr ip \<Rightarrow> ip
      | Inl err \<Rightarrow>
          if CHR ''.'' \<in> set host then ''none''
          else
            (let system = found (search env '''' (ldapSearch (Ldap cfg)
                   (''(&(objectClass=GOhard)(|(cn='' @ LDAPFilterEscape host @ '')(cn='' @
                     LDAPFilterEscape host @ ''.*))'' @ UnitTagFilter (Ldap cfg) @ '')'') [''ipHostNumber'']))
             in case find (\<lambda>ihn. HasPrefix (SystemNameForIPAddress env (own_text ihn)) (host @ ''.''))
                       (iter_named ''iphostnumber'' (kids system)) of
                  None \<Rightarrow> ''none''
                | Some ihn \<Rightarrow> SystemIPAddressForName cfg env (SystemNameForIPAddress env (own_text ihn))))"
  by pat_completeness auto
termination SystemIPAddressForName
proof (relation "measure (\<lambda>(cfg, env, host). if CHR ''.'' \<in> set host then 0 else 1)", goal_cases)
  case (2 cfg env host err system ihn)
  then have "HasPrefix (SystemNameForIPAddress env (own_text ihn)) (host @ ''.'')"
    by (auto dest: find_SomeD)
  then have "CHR ''.'' \<in> set (SystemNameForIPAddress env (own_text ihn))"
    by (auto simp: HasPrefix_iff)
  with 2 show ?case by simp
qed simp

declare SystemIPAddressForName.simps [simp del]

definition SystemCommonNameForMAC :: "system_config \<Rightarrow> directory \<Rightarrow> string \<Rightarrow> string" where
  "SystemCommonNameForMAC cfg env macaddress =
     (case get1 ''cn'' (found (search env '''' (ldapSearch (Ldap cfg)
              (by_class cfg ''GOhard'' ''macAddress'' macaddress) [''cn'']))) of
        [name] \<Rightarrow> name
      | _ \<Rightarrow> [])"

text \<open>None is the panic for a client whose address has no port.\<close>

definition SystemPlainnameForMAC :: "system_config \<Rightarrow> directory \<Rightarrow> clientdb \<Rightarrow> string \<Rightarrow> string option" where
  "SystemPlainnameForMAC cfg env clients macaddress =
     (let from_dns =
        (case ClientWithMAC macaddress clients of
           None \<Rightarrow> Some ''none''
         | Some client \<Rightarrow>
             (case SplitN2 (text_of ''client'' client) CHR '':'' of
                [ip, port] \<Rightarrow> Some (if port \<in> set (ClientPorts cfg) then SystemNameForIPAddress env ip else ''none'')
              | _ \<Rightarrow> None))
      in map_option (\<lambda>name.
           let name = (if name = ''none''
                 then (let cn = SystemCommonNameForMAC cfg env macaddress in if cn = [] then ''none'' else cn)
                 else name)
           in hd (SplitN2 name CHR ''.'')) from_dns)"

definition SystemDomainsKnown :: "system_config \<Rightarrow> string list" where
  "SystemDomainsKnown cfg = LookupDomains cfg @ [CHR ''.'' # Domain cfg]"

definition SystemNetworksKnown :: "system_config \<Rightarrow> string list" where
  "SystemNetworksKnown cfg = [OwnIP cfg]"

definition inner_dot :: "string \<Rightarrow> bool" where
  "inner_dot name \<longleftrightarrow> (case Index name CHR ''.'' of None \<Rightarrow> False | Some k \<Rightarrow> k > 0)"

definition SystemFullyQualifiedNameForMAC :: "system_config \<Rightarrow> directory \<Rightarrow> string \<Rightarrow> string" where
  "SystemFullyQualifiedNameForMAC cfg env macaddress =
     (let system = found (search env '''' (ldapSearch (Ldap cfg)
            (by_class cfg ''GOhard'' ''macAddress'' macaddress) [''cn'', ''ipHostNumber''])) in
      case get1 ''cn'' system of
        [n] \<Rightarrow>
          (let name = ToLower n; has_domain = inner_dot name; ip = SystemIPAddressForName cfg env name in
           if ip \<noteq> ''none'' then
             (if has_domain then name
              else (let longname = SystemNameForIPAddress env ip
                    in if inner_dot longname then longname else ''none''))
           else if has_domain then ''none''
           else
             (let ip = text_of ''iphostnumber'' system; longname = SystemNameForIPAddress env ip in
              if ip \<noteq> [] \<and> HasPrefix longname (name @ ''.'') then longname
              else
                (case find (\<lambda>longname. SystemIPAddressForName cfg env longname \<noteq> ''none'')
                        (map (\<lambda>domain. ToLower (name @ domain)) (SystemDomainsKnown cfg)) of
                   None \<Rightarrow> ''none'' | Some longname \<Rightarrow> longname)))
      | _ \<Rightarrow> ''none'')"

definition SystemMACForName :: "system_config \<Rightarrow> directory \<Rightarrow> string \<Rightarrow> string" where
  "SystemMACForName cfg env host =
     (let mac_of = (\<lambda>cn. text_of ''macaddress'' (found (search env '''' (ldapSearch (Ldap cfg)
            (''(&(objectClass=GOhard)(cn='' @ cn @ '')'' @ UnitTagFilter (Ldap cfg) @ '')'') [''macaddress'']))));
          mac = mac_of (LDAPFilterEscape host)
      in if mac \<noteq> [] then mac
         else
           (let parts = SplitN2 host CHR ''.'';
                mac = (if length parts = 2 then mac_of (LDAPFilterEscape (parts ! 0))
                       else mac_of (LDAPFilterEscape (parts ! 0) @ ''.*''))
            in if mac = [] then ''none'' else mac))"

definition SystemIsWorkstation :: "system_config \<Rightarrow> directory \<Rightarrow> string \<Rightarrow> bool" where
  "SystemIsWorkstation cfg env macaddress =
     (case search env '''' (ldapSearch (Ldap cfg)
             (by_class cfg ''gotoWorkstation'' ''macaddress'' macaddress) [''macaddress'']) of
        Inl err \<Rightarrow> False
      | Inr system \<Rightarrow> First ''macaddress'' system \<noteq> None)"

section \<open>Attributes\<close>

definition SystemSetStateMulti ::
  "system_config \<Rightarrow> directory \<Rightarrow> string \<Rightarrow> string \<Rightarrow> string list \<Rightarrow>
   string option \<times> (string list \<times> string) list" where
  "SystemSetStateMulti cfg env macaddress attrname attrvalues =
     (case get1 ''dn'' (found (search env '''' (ldapSearch (Ldap cfg)
              (by_class cfg ''GOhard'' ''macAddress'' macaddress) [''dn'']))) of
        [] \<Rightarrow> (Some (''Could not get dn for MAC '' @ macaddress), [])
      | [dn] \<Rightarrow>
          (let cmd = ldapModifyAttribute (Ldap cfg) dn ''replace'' attrname attrvalues
           in (map_option (\<lambda>err. ''Could not change state of object '' @ dn) (ModifyError env cmd), [cmd]))
      | dns \<Rightarrow> (Some (''Multiple LDAP objects for MAC '' @ macaddress), []))"

definition SystemSetState ::
  "system_config \<Rightarrow> directory \<Rightarrow> string \<Rightarrow> string \<Rightarrow> string \<Rightarrow> (string list \<times> string) list" where
  "SystemSetState cfg env macaddress attrname attrvalue =
     snd (SystemSetStateMulti cfg env macaddress attrname [attrvalue])"

text \<open>The last group that has the attribute is taken.\<close>

definition SystemGetState :: "system_config \<Rightarrow> directory \<Rightarrow> string \<Rightarrow> string \<Rightarrow> string" where
  "SystemGetState cfg env macaddress attrname =
     (let attrname = ToLower attrname in
      case search env '''' (ldapSearch (Ldap cfg) (by_class cfg ''GOhard'' ''macAddress'' macaddress) [attrname]) of
        Inl err \<Rightarrow> []
      | Inr system \<Rightarrow>
          if length (get1 ''dn'' system) \<noteq> 1 then []
          else if First attrname system = None \<and> attrname \<notin> set DoNotCopyAttribute then
            (case search env ''xml'' (ldapSearch (Ldap cfg)
                    (by_class cfg ''gosaGroupOfNames'' ''member'' (text_of ''dn'' system)) [attrname]) of
               Inl err \<Rightarrow> []
             | Inr groups \<Rightarrow>
                 text_of attrname (fold (\<lambda>group system. if First attrname group \<noteq> None then group else system)
                   (iter_named ''xml'' (kids groups)) system))
          else text_of attrname system)"

section \<open>Whole entries\<close>

datatype system_error = SystemNotFoundError | LookupError string

definition SystemGetGroupsWithMember :: "system_config \<Rightarrow> directory \<Rightarrow> string \<Rightarrow> hash" where
  "SystemGetGroupsWithMember cfg env dn =
     (case search env ''xml'' (ldapSearch (Ldap cfg) (by_class cfg ''gosaGroupOfNames'' ''member'' dn) []) of
        Inl err \<Rightarrow> NewHash ''systemdb'' []
      | Inr x \<Rightarrow> Rename ''systemdb'' x)"

definition SystemGetGroupsWithName :: "system_config \<Rightarrow> directory \<Rightarrow> string \<Rightarrow> hash" where
  "SystemGetGroupsWithName cfg env cn =
     (case search env ''xml'' (ldapSearch (Ldap cfg) (by_class cfg ''gosaGroupOfNames'' ''cn'' cn) []) of
        Inl err \<Rightarrow> NewHash ''systemdb'' []
      | Inr x \<Rightarrow> Rename ''systemdb'' x)"

definition fill_dn :: "hash \<Rightarrow> hash \<Rightarrow> hash" where
  "fill_dn defaults system =
     (if First ''dn'' system \<noteq> None then system
      else
        (case SplitN2 (text_of ''dn'' defaults) CHR '','' of
           [_, parent] \<Rightarrow>
             (let cn = text_of ''cn'' system
              in if cn \<noteq> [] then Add ''dn'' [''cn='' @ cn @ '','' @ parent] system else system)
         | _ \<Rightarrow> system))"

definition fill_attribute :: "hash \<Rightarrow> string \<Rightarrow> hash \<Rightarrow> hash" where
  "fill_attribute defaults tag system =
     (if tag \<in> set DoNotCopyAttribute then system
      else if First tag system = None then fold AddClone (iter_named tag (kids defaults)) system
      else system)"

definition fill_classes :: "hash \<Rightarrow> hash \<Rightarrow> hash" where
  "fill_classes defaults system =
     (let oclasses = get1 ''objectclass'' system
      in fold (\<lambda>oc. Add ''objectclass'' [oc])
           (filter (\<lambda>oc. oc \<in> set CopyObjectclass \<and> oc \<notin> set oclasses) (get1 ''objectclass'' defaults)) system)"

definition SystemFillInMissingData :: "hash \<Rightarrow> hash \<Rightarrow> hash" where
  "SystemFillInMissingData system defaults =
     fill_classes defaults (fold (fill_attribute defaults) (Subtags defaults) (fill_dn defaults system))"

definition SystemGetAllDataForMAC ::
  "system_config \<Rightarrow> directory \<Rightarrow> string \<Rightarrow> bool \<Rightarrow> system_error + hash" where
  "SystemGetAllDataForMAC cfg env macaddress use_groups =
     (case search env '''' (ldapSearch (Ldap cfg) (by_class cfg ''GOhard'' ''macAddress'' macaddress) []) of
        Inl err \<Rightarrow> Inl (LookupError err)
      | Inr x \<Rightarrow>
          (case get1 ''dn'' x of
             [] \<Rightarrow> Inl SystemNotFoundError
           | [dn] \<Rightarrow>
               Inr (if use_groups
                    then fold (\<lambda>group x. SystemFillInMissingData x group)
                           (iter_named ''xml'' (kids (SystemGetGroupsWithMember cfg env dn))) x
                    else x)
           | _ \<Rightarrow> Inl (LookupError (''Multiple LDAP objects with MAC '' @ macaddress))))"

definition SystemLocalPrinterForMAC ::
  "system_config \<Rightarrow> directory \<Rightarrow> string \<Rightarrow> system_error + hash" where
  "SystemLocalPrinterForMAC cfg env macaddress =
     (case search env '''' (ldapSearch (Ldap cfg) (by_class cfg ''gotoPrinter'' ''macAddress'' macaddress) []) of
        Inl err \<Rightarrow> Inl (LookupError err)
      | Inr x \<Rightarrow>
          (case get1 ''dn'' x of
             [] \<Rightarrow> Inl SystemNotFoundError
           | [dn] \<Rightarrow> Inr x
           | _ \<Rightarrow> Inl (LookupError (''Multiple LDAP objects with objectClass=gotoPrinter and MAC '' @ macaddress))))"

section \<open>Templates\<close>

text \<open>
  \<open>templateMatch\<close> goes through the words of a rule. What it expects: an attribute name, an
  operator, the beginning or the end of a regular expression. \<open>matchstate\<close> is 0 while there
  are negative matches, 1 until a positive match of the group, then 2. \<open>compile\<close> is
  regexp.Compile, \<open>attrs_of\<close> the values of an attribute of the system.
\<close>

datatype expected = Attribute_name | Operator string | Regex_start string | Regex_end string string

definition is_letter :: "char \<Rightarrow> bool" where
  "is_letter c \<longleftrightarrow> 65 \<le> byte c \<and> byte c \<le> 90 \<or> 97 \<le> byte c \<and> byte c \<le> 122"

definition attribute_name_ok :: "string \<Rightarrow> bool" where
  "attribute_name_ok s \<longleftrightarrow> s \<noteq> [] \<and> list_all is_letter s"

definition op_char :: "char \<Rightarrow> bool" where
  "op_char c \<longleftrightarrow> c = CHR ''='' \<or> c = CHR ''~'' \<or> c = CHR 0x21"

text \<open>The scan over a word inside a regular expression, and what is behind its end, if it is there.\<close>

fun scan_regex :: "string \<Rightarrow> string \<Rightarrow> string \<times> string option" where
  "scan_regex regex [] = (regex, None)"
| "scan_regex regex (ch # chars) =
     (if ch = CHR 0x5C then
        (case chars of
           [] \<Rightarrow> (regex, None)
         | d # chars \<Rightarrow> scan_regex (regex @ [ch, d]) chars)
      else if ch = CHR ''/'' then (regex, Some chars)
      else scan_regex (regex @ [ch]) chars)"

text \<open>The effect of a regular expression that is complete; None ends the function with 0.\<close>

definition try_regex ::
  "(string \<Rightarrow> (string \<Rightarrow> bool) option) \<Rightarrow> (string \<Rightarrow> string list) \<Rightarrow> string \<Rightarrow> string \<Rightarrow> nat \<Rightarrow> nat \<Rightarrow>
   (nat \<times> nat) option" where
  "try_regex compile attrs_of attrname regex matchstate score =
     (case compile regex of
        None \<Rightarrow> None
      | Some re \<Rightarrow>
          (let attrs = attrs_of attrname;
               none_matches = (attrs = [] \<and> re []);
               some_matches = list_ex (\<lambda>attr. re (ToLower attr)) attrs
           in if matchstate = 0 then
                (if none_matches \<or> some_matches then None else Some (0, score + 1))
              else
                (let (matchstate, score) = (if none_matches then (2, score + 1) else (matchstate, score))
                 in Some (if some_matches then (2, score + 1) else (matchstate, score)))))"

text \<open>
  What one word does: the function returns 0, or goes on with what is expected next, the
  match state, the score and the words; what is left of the word is put back.
\<close>

datatype word_step = Give_up | Go_on expected nat nat "string list"

definition put_back :: "string \<Rightarrow> string list \<Rightarrow> string list" where
  "put_back r parts = (if r \<noteq> [] then r # parts else parts)"

definition regex_word ::
  "(string \<Rightarrow> (string \<Rightarrow> bool) option) \<Rightarrow> (string \<Rightarrow> string list) \<Rightarrow> string \<Rightarrow> string \<Rightarrow> nat \<Rightarrow> nat \<Rightarrow>
   string \<Rightarrow> string list \<Rightarrow> word_step" where
  "regex_word compile attrs_of attrname regex matchstate score p parts =
     (case scan_regex regex p of
        (regex, None) \<Rightarrow> Go_on (Regex_end attrname regex) matchstate score parts
      | (regex, Some r) \<Rightarrow>
          (case try_regex compile attrs_of attrname regex matchstate score of
             None \<Rightarrow> Give_up
           | Some (matchstate, score) \<Rightarrow> Go_on Attribute_name matchstate score (put_back r parts)))"

definition not_op :: "char \<Rightarrow> bool" where
  "not_op c \<longleftrightarrow> \<not> op_char c"

fun step_word ::
  "(string \<Rightarrow> (string \<Rightarrow> bool) option) \<Rightarrow> (string \<Rightarrow> string list) \<Rightarrow> expected \<Rightarrow> nat \<Rightarrow> nat \<Rightarrow>
   string \<Rightarrow> string list \<Rightarrow> word_step" where
  "step_word compile attrs_of Attribute_name matchstate score p parts =
     (let attrname = takeWhile not_op p in
      if \<not> attribute_name_ok attrname then Give_up
      else Go_on (Operator attrname) matchstate score (put_back (dropWhile not_op p) parts))"
| "step_word compile attrs_of (Operator attrname) matchstate score p parts =
     (let op = takeWhile op_char p; r = dropWhile op_char p in
      if op \<in> {''~='', ''=~'', ''='', ''~''} then
        Go_on (Regex_start attrname) (if matchstate \<noteq> 2 then 1 else matchstate) score (put_back r parts)
      else if op \<in> {[CHR 0x21, CHR ''=''], [CHR 0x21, CHR ''~''], [CHR 0x21], [CHR ''~'', CHR 0x21]} then
        (if matchstate = 1 then Give_up else Go_on (Regex_start attrname) 0 score (put_back r parts))
      else Give_up)"
| "step_word compile attrs_of (Regex_start attrname) matchstate score p parts =
     (if hd p \<noteq> CHR ''/'' then Give_up
      else regex_word compile attrs_of attrname [] matchstate score (tl p) parts)"
| "step_word compile attrs_of (Regex_end attrname regex) matchstate score p parts =
     regex_word compile attrs_of attrname
       (if regex \<noteq> [] then regex @ [CHR 0x5C, CHR ''s'', CHR ''+''] else regex) matchstate score p parts"

definition words_left :: "string list \<Rightarrow> nat" where
  "words_left parts = sum_list (map (Suc \<circ> length) parts)"

lemma scan_regex_shorter: "scan_regex regex p = (regex', Some r) \<Longrightarrow> length r < length p"
  by (induction regex p rule: scan_regex.induct) (auto split: if_splits list.splits)

lemma words_left_put_back: "length r < n \<Longrightarrow> words_left (put_back r parts) < Suc (n + words_left parts)"
  by (auto simp: words_left_def put_back_def)

lemma regex_word_shorter:
  "regex_word compile attrs_of attrname regex matchstate score p parts = Go_on st m c parts' \<Longrightarrow>
    words_left parts' < Suc (length p + words_left parts)"
  using words_left_put_back scan_regex_shorter
  by (auto simp: regex_word_def split: prod.splits option.splits)

lemma step_word_shorter:
  assumes "step_word compile attrs_of state matchstate score p parts = Go_on st m c parts'" and "p \<noteq> []"
  shows "words_left parts' < words_left (p # parts)"
proof -
  have dropped: "length (dropWhile f p) < length p" if "takeWhile f p \<noteq> []" for f
    using that by (cases p) (auto simp: length_dropWhile_le less_Suc_eq_le split: if_splits)
  show ?thesis
  proof (cases state)
    case Attribute_name
    then have "takeWhile not_op p \<noteq> []" "parts' = put_back (dropWhile not_op p) parts"
      using assms by (auto simp: Let_def attribute_name_ok_def split: if_splits)
    then show ?thesis using words_left_put_back [OF dropped] by (simp add: words_left_def)
  next
    case (Operator attrname)
    then have "takeWhile op_char p \<noteq> []" "parts' = put_back (dropWhile op_char p) parts"
      using assms by (auto simp: Let_def split: if_splits)
    then show ?thesis using words_left_put_back [OF dropped] by (simp add: words_left_def)
  next
    case (Regex_start attrname)
    then show ?thesis
      using assms regex_word_shorter by (cases p) (fastforce simp: words_left_def split: if_splits)+
  next
    case (Regex_end attrname regex)
    then show ?thesis
      using assms regex_word_shorter by (auto simp: words_left_def)
  qed
qed

function match_words ::
  "(string \<Rightarrow> (string \<Rightarrow> bool) option) \<Rightarrow> (string \<Rightarrow> string list) \<Rightarrow> expected \<Rightarrow> nat \<Rightarrow> nat \<Rightarrow>
   string list \<Rightarrow> nat" where
  "match_words compile attrs_of state matchstate score [] =
     (if state = Attribute_name \<and> matchstate \<noteq> 1 then score else 0)"
| "match_words compile attrs_of state matchstate score (p # parts) =
     (if p = [] then match_words compile attrs_of state matchstate score parts
      else
        (case step_word compile attrs_of state matchstate score p parts of
           Give_up \<Rightarrow> 0
         | Go_on state matchstate score parts \<Rightarrow>
             match_words compile attrs_of state matchstate score parts))"
  by pat_completeness auto
termination match_words
  by (relation "measure (\<lambda>(compile, attrs_of, state, matchstate, score, parts). words_left parts)")
    (auto dest: step_word_shorter, simp add: words_left_def)

declare match_words.simps(2) [simp del]

definition attribute_values :: "system_config \<Rightarrow> directory \<Rightarrow> hash \<Rightarrow> string \<Rightarrow> string list" where
  "attribute_values cfg env system attrname =
     (if attrname = ''siserver'' then [OwnIP cfg, SystemNameForIPAddress env (OwnIP cfg)]
      else get1 attrname system)"

definition templateMatch ::
  "system_config \<Rightarrow> directory \<Rightarrow> (string \<Rightarrow> (string \<Rightarrow> bool) option) \<Rightarrow> hash \<Rightarrow> string \<Rightarrow> nat" where
  "templateMatch cfg env compile system gocomment =
     (let rules = ToLower gocomment;
          rules = (if HasPrefix rules ''template for'' then drop 12 rules else rules)
      in match_words compile (attribute_values cfg env system) Attribute_name 0 0 (Fields rules))"

text \<open>The list of the matching templates, the most specific one first; the sentinel has 0.\<close>

fun insert_template :: "nat \<Rightarrow> hash \<Rightarrow> (nat \<times> hash) list \<Rightarrow> (nat \<times> hash) list" where
  "insert_template specificity t [] = []"
| "insert_template specificity t (q # qs) =
     (if specificity \<ge> fst q then (specificity, t) # q # qs else q # insert_template specificity t qs)"

definition templates_query :: "system_config \<Rightarrow> string" where
  "templates_query cfg = ''(&(objectClass=GOhard)(gocomment=Template for*/*/*)'' @ UnitTagFilter (Ldap cfg) @ '')''"

definition template_specificity ::
  "system_config \<Rightarrow> directory \<Rightarrow> (string \<Rightarrow> (string \<Rightarrow> bool) option) \<Rightarrow> hash \<Rightarrow> hash \<Rightarrow> nat" where
  "template_specificity cfg env compile system t =
     templateMatch cfg env compile system (text_of ''gocomment'' t)"

definition SystemGetTemplatesFor ::
  "system_config \<Rightarrow> directory \<Rightarrow> (string \<Rightarrow> (string \<Rightarrow> bool) option) \<Rightarrow> hash \<Rightarrow> hash" where
  "SystemGetTemplatesFor cfg env compile system =
     (case search env ''xml'' (ldapSearch (Ldap cfg) (templates_query cfg) []) of
        Inl err \<Rightarrow> NewHash ''systemdb'' []
      | Inr x \<Rightarrow>
          (let templates = fold (\<lambda>t templates.
                 let specificity = template_specificity cfg env compile system t
                 in if specificity > 0 then insert_template specificity t templates else templates)
                 (iter_named ''xml'' (kids x)) [(0, NewHash ''xml'' [])]
           in fold AddWithOwnership (map snd (butlast templates)) (NewHash ''systemdb'' [])))"

section \<open>Changes of whole entries\<close>

definition SystemAddToGroups :: "system_config \<Rightarrow> string \<Rightarrow> hash \<Rightarrow> (string list \<times> string) list" where
  "SystemAddToGroups cfg dn groups =
     map (\<lambda>group. ldapModifyAttribute (Ldap cfg) (text_of ''dn'' group) ''add'' ''member'' [dn])
       (iter_named ''xml'' (kids groups))"

definition SystemRemoveFromGroups :: "system_config \<Rightarrow> string \<Rightarrow> hash \<Rightarrow> (string list \<times> string) list" where
  "SystemRemoveFromGroups cfg dn groups =
     map (\<lambda>group. ldapModifyAttribute (Ldap cfg) (text_of ''dn'' group) ''delete'' ''member'' [dn])
       (iter_named ''xml'' (kids groups))"

definition lines_of :: "string list \<Rightarrow> string" where
  "lines_of ls = concat (map (\<lambda>l. l @ newline) ls)"

definition delete_ldif :: "hash \<Rightarrow> string \<Rightarrow> string" where
  "delete_ldif groups dn =
     lines_of [''dn:: '' @ EncodeToString dn, ''changetype: delete''] @
     concat (map (\<lambda>group. lines_of [[], ''dn:: '' @ EncodeToString (text_of ''dn'' group), ''changetype: modify'',
       ''delete: member'', ''member:: '' @ EncodeToString dn, ''-'']) (iter_named ''xml'' (kids groups)))"

definition attribute_lines :: "hash \<Rightarrow> string \<Rightarrow> string list" where
  "attribute_lines nu tag =
     map (\<lambda>x. tag @ '':: '' @ EncodeToString (own_text x))
       (filter (\<lambda>x. own_text x \<noteq> []) (iter_named tag (kids nu)))"

definition create_ldif :: "hash \<Rightarrow> string" where
  "create_ldif nu =
     lines_of ([''dn:: '' @ EncodeToString (text_of ''dn'' nu), ''changetype: add''] @
       concat (map (attribute_lines nu) (filter (\<lambda>tag. tag \<noteq> ''dn'') (Subtags nu))))"

definition change_lines :: "hash \<Rightarrow> hash \<Rightarrow> string \<Rightarrow> string list" where
  "change_lines old nu tag =
     (if First tag old = None \<and> text_of tag nu = [] then []
      else [(if First tag old = None then ''add: '' else ''replace: '') @ tag] @ attribute_lines nu tag @ [''-''])"

definition no_name :: "string \<Rightarrow> bool" where
  "no_name tag \<longleftrightarrow> tag \<noteq> ''dn'' \<and> tag \<noteq> ''cn''"

definition modify_ldif :: "hash \<Rightarrow> hash \<Rightarrow> hash \<Rightarrow> string \<Rightarrow> string \<Rightarrow> string \<Rightarrow> string" where
  "modify_ldif groups old nu olddn dn cn =
     lines_of ([''dn:: '' @ EncodeToString olddn, ''changetype: modify''] @
       concat (map (change_lines old nu) (filter no_name (Subtags nu))) @
       concat (map (\<lambda>tag. [''delete: '' @ tag, ''-''])
         (filter (\<lambda>tag. no_name tag \<and> First tag nu = None) (Subtags old)))) @
     (if dn \<noteq> olddn then
        lines_of [[], ''dn:: '' @ EncodeToString olddn, ''changetype: modrdn'', ''newrdn: cn='' @ cn,
          ''deleteoldrdn: 1'', ''newsuperior:: '' @
            EncodeToString (case Index dn CHR '','' of None \<Rightarrow> dn | Some i \<Rightarrow> drop (Suc i) dn)] @
        concat (map (\<lambda>group. lines_of [[], ''dn:: '' @ EncodeToString (text_of ''dn'' group), ''changetype: modify'',
          ''delete: member'', ''member:: '' @ EncodeToString olddn, ''-'', ''add: member'',
          ''member:: '' @ EncodeToString dn, ''-'']) (iter_named ''xml'' (kids groups)))
      else [])"

text \<open>None stands for the nil pointer. The error texts are cut behind their beginning.\<close>

definition SystemReplace ::
  "system_config \<Rightarrow> directory \<Rightarrow> hash option \<Rightarrow> hash option \<Rightarrow>
   string option \<times> (string list \<times> string) list" where
  "SystemReplace cfg env old nu =
     (let run = (\<lambda>ldif. let cmd = ldapModify (Ldap cfg) ldif
            in (map_option (\<lambda>err. ''Error while attempting to change the entry'') (ModifyError env cmd), [cmd])) in
      case (old, nu) of
        (None, None) \<Rightarrow> (None, [])
      | (Some old, None) \<Rightarrow>
          run (delete_ldif (SystemGetGroupsWithMember cfg env (text_of ''dn'' old)) (text_of ''dn'' old))
      | (None, Some nu) \<Rightarrow> run (create_ldif nu)
      | (Some old, Some nu) \<Rightarrow>
          (let olddn = text_of ''dn'' old; dn = text_of ''dn'' nu; cn = text_of ''cn'' nu;
               new_name = (olddn = dn \<and> text_of ''cn'' old \<noteq> cn)
           in if new_name \<and> Index dn CHR '','' = None then (Some ''Broken or missing dn'', [])
              else
                (let dn = (if new_name then ''cn='' @ cn @ dropWhile (\<lambda>c. c \<noteq> CHR '','') dn else dn);
                     nu = (if new_name then FirstOrAdd ''dn'' (SetText [dn]) nu else nu)
                 in run (modify_ldif (SystemGetGroupsWithMember cfg env olddn) old nu olddn dn cn))))"

section \<open>What a template rule means\<close>

text \<open>
  A rule of a template: an attribute, whether a match is wanted, and a pattern. It is about
  the values of the attribute, or about the empty text if there are none.
\<close>

datatype match_rule = Rule (rule_attr: string) (positive: bool) (rule_pattern: string)

definition rule_text :: "match_rule \<Rightarrow> string" where
  "rule_text r = rule_attr r @ (if positive r then ''=~'' else [CHR 0x21, CHR ''~'']) @
     ''/'' @ rule_pattern r @ ''/''"

definition rule_ok :: "(string \<Rightarrow> (string \<Rightarrow> bool) option) \<Rightarrow> match_rule \<Rightarrow> bool" where
  "rule_ok compile r \<longleftrightarrow> attribute_name_ok (rule_attr r) \<and> ToLower (rule_attr r) = rule_attr r \<and>
     ToLower (rule_pattern r) = rule_pattern r \<and> compile (rule_pattern r) \<noteq> None \<and>
     list_all (\<lambda>c. c \<noteq> CHR ''/'' \<and> c \<noteq> CHR 0x5C \<and> \<not> is_space c) (rule_pattern r)"

definition rule_holds :: "(string \<Rightarrow> (string \<Rightarrow> bool) option) \<Rightarrow> (string \<Rightarrow> string list) \<Rightarrow> match_rule \<Rightarrow> bool" where
  "rule_holds compile attrs_of r \<longleftrightarrow>
     list_ex (the (compile (rule_pattern r)))
       (if attrs_of (rule_attr r) = [] then [[]] else map ToLower (attrs_of (rule_attr r)))"

text \<open>No negative rule matches, and in each group of adjacent positive rules one does.\<close>

function groups_hold :: "(match_rule \<Rightarrow> bool) \<Rightarrow> match_rule list \<Rightarrow> bool" where
  "groups_hold holds [] = True"
| "groups_hold holds (r # rs) =
     (if positive r
      then list_ex holds (r # takeWhile positive rs) \<and> groups_hold holds (dropWhile positive rs)
      else \<not> holds r \<and> groups_hold holds rs)"
  by pat_completeness auto
termination groups_hold
  by (relation "measure (length \<circ> snd)") (auto simp: length_dropWhile_le less_Suc_eq_le)

definition rules_score :: "(match_rule \<Rightarrow> bool) \<Rightarrow> match_rule list \<Rightarrow> nat" where
  "rules_score holds rs = length (filter (\<lambda>r. positive r = holds r) rs)"

fun run_rules :: "(match_rule \<Rightarrow> bool) \<Rightarrow> nat \<Rightarrow> nat \<Rightarrow> match_rule list \<Rightarrow> nat" where
  "run_rules holds m c [] = (if m \<noteq> 1 then c else 0)"
| "run_rules holds m c (r # rs) =
     (if positive r then (if holds r then run_rules holds 2 (c + 1) rs
                          else run_rules holds (if m \<noteq> 2 then 1 else m) c rs)
      else if m = 1 \<or> holds r then 0 else run_rules holds 0 (c + 1) rs)"

lemma groups_hold_dropWhile:
  "groups_hold holds rs = ((takeWhile positive rs = [] \<or> list_ex holds (takeWhile positive rs)) \<and>
     groups_hold holds (dropWhile positive rs))"
  by (cases rs) auto

lemma run_rules_eq:
  assumes "m \<le> 2"
  shows "run_rules holds m c rs =
    (if (m = 1 \<longrightarrow> list_ex holds (takeWhile positive rs)) \<and>
        (if m = 0 then groups_hold holds rs else groups_hold holds (dropWhile positive rs))
     then c + rules_score holds rs else 0)"
  using assms
proof (induction rs arbitrary: m c)
  case Nil
  then show ?case by (auto simp: rules_score_def)
next
  case (Cons r rs)
  have "m = 0 \<or> m = 1 \<or> m = 2" using Cons.prems by arith
  then show ?case
    using groups_hold_dropWhile [of holds rs]
    by (auto simp: Cons.IH rules_score_def)
qed

lemma scan_regex_plain:
  "list_all (\<lambda>c. c \<noteq> CHR ''/'' \<and> c \<noteq> CHR 0x5C \<and> \<not> is_space c) pat \<Longrightarrow>
    scan_regex regex (pat @ ''/'') = (regex @ pat, Some [])"
  by (induction pat arbitrary: regex) auto

lemma letter_not_op: "is_letter c \<Longrightarrow> not_op c"
proof -
  have "byte CHR ''='' = 61" "byte CHR ''~'' = 126" "byte CHR 0x21 = 33" by (simp_all add: byte_def)
  then show "is_letter c \<Longrightarrow> not_op c" by (auto simp: is_letter_def not_op_def op_char_def)
qed

lemma takeWhile_stop: "list_all P xs \<Longrightarrow> \<not> P y \<Longrightarrow> takeWhile P (xs @ y # ys) = xs \<and> dropWhile P (xs @ y # ys) = y # ys"
  by (induction xs) auto

lemma rule_word:
  assumes "rule_ok compile r"
  shows "match_words compile attrs_of Attribute_name m c (rule_text r # parts) =
    (if \<not> positive r \<and> m = 1 then 0
     else (case try_regex compile attrs_of (rule_attr r) (rule_pattern r)
                 (if positive r then if m \<noteq> 2 then 1 else m else 0) c of
             None \<Rightarrow> 0
           | Some (m', c') \<Rightarrow> match_words compile attrs_of Attribute_name m' c' parts))"
proof -
  let ?op = "if positive r then ''=~'' else [CHR 0x21, CHR ''~'']"
  let ?rest = "''/'' @ rule_pattern r @ ''/''"
  have attr: "list_all not_op (rule_attr r)" "rule_attr r \<noteq> []"
    using assms by (auto simp: rule_ok_def attribute_name_ok_def list_all_iff letter_not_op)
  have "\<not> not_op CHR ''=''" "\<not> not_op CHR 0x21" by (simp_all add: not_op_def op_char_def)
  with attr have word: "takeWhile not_op (rule_text r) = rule_attr r"
    "dropWhile not_op (rule_text r) = ?op @ ?rest"
    using takeWhile_stop [of not_op "rule_attr r"] by (auto simp: rule_text_def)
  have op: "takeWhile op_char (?op @ ?rest) = ?op" "dropWhile op_char (?op @ ?rest) = ?rest"
    by (auto simp: op_char_def)
  have scan: "scan_regex [] (rule_pattern r @ ''/'') = (rule_pattern r, Some [])"
    using assms scan_regex_plain [of "rule_pattern r" "[]"] by (simp add: rule_ok_def)
  have "match_words compile attrs_of Attribute_name m c (rule_text r # parts) =
      match_words compile attrs_of (Operator (rule_attr r)) m c ((?op @ ?rest) # parts)"
    using word attr assms
    by (subst match_words.simps) (auto simp: rule_text_def rule_ok_def put_back_def)
  also have "\<dots> = (if \<not> positive r \<and> m = 1 then 0
     else match_words compile attrs_of (Regex_start (rule_attr r))
            (if positive r then if m \<noteq> 2 then 1 else m else 0) c (?rest # parts))"
    using op by (subst match_words.simps) (auto simp: put_back_def Let_def)
  also have "match_words compile attrs_of (Regex_start (rule_attr r)) k c (?rest # parts) =
      (case try_regex compile attrs_of (rule_attr r) (rule_pattern r) k c of None \<Rightarrow> 0
       | Some (m', c') \<Rightarrow> match_words compile attrs_of Attribute_name m' c' parts)" for k
    using scan by (subst match_words.simps)
      (auto simp: regex_word_def put_back_def split: option.splits)
  finally show ?thesis .
qed

lemma try_regex_rule:
  assumes "rule_ok compile r"
  shows "try_regex compile attrs_of (rule_attr r) (rule_pattern r) m c =
    (if m = 0 then (if rule_holds compile attrs_of r then None else Some (0, c + 1))
     else Some (if rule_holds compile attrs_of r then (2, c + 1) else (m, c)))"
  using assms by (auto simp: try_regex_def rule_holds_def rule_ok_def list_ex_iff Let_def)

lemma match_rules:
  assumes "list_all (rule_ok compile) rs"
  shows "match_words compile attrs_of Attribute_name m c (map rule_text rs) =
    run_rules (rule_holds compile attrs_of) m c rs"
  using assms
  by (induction rs arbitrary: m c) (auto simp: rule_word try_regex_rule)

lemma Fields_word:
  "w \<noteq> [] \<Longrightarrow> list_all (\<lambda>c. \<not> is_space c) w \<Longrightarrow> s = [] \<or> is_space (hd s) \<Longrightarrow> Fields (w @ s) = w # Fields s"
proof -
  assume w: "w \<noteq> []" "list_all (\<lambda>c. \<not> is_space c) w" and s: "s = [] \<or> is_space (hd s)"
  then obtain x xs where x: "w = x # xs" by (cases w) auto
  have "takeWhile (\<lambda>c. \<not> is_space c) (xs @ s) = xs" "dropWhile (\<lambda>c. \<not> is_space c) (xs @ s) = s"
    using w(2) s x by (cases s; auto simp: takeWhile_append2 dropWhile_append2 list_all_iff)+
  with w x show ?thesis by simp
qed

lemma Fields_Join:
  assumes "list_all (\<lambda>w. w \<noteq> [] \<and> list_all (\<lambda>c. \<not> is_space c) w) ws"
  shows "Fields (Join ws '' '') = ws"
proof -
  have sp: "is_space CHR '' ''" by code_simp
  show ?thesis using assms
    by (induction ws rule: induct_list012) (auto simp: Fields_word [of _ "[]", simplified] Fields_word sp)
qed

lemma templateMatch_lower: "templateMatch cfg env compile system (ToLower s) = templateMatch cfg env compile system s"
  by (simp add: templateMatch_def)


lemma rule_text_word: "rule_ok compile r \<Longrightarrow> rule_text r \<noteq> [] \<and> list_all (\<lambda>c. \<not> is_space c) (rule_text r)"
proof -
  assume ok: "rule_ok compile r"
  have "\<not> is_space c" if "is_letter c" for c
    using that by (auto simp: is_letter_def is_space_def)
  moreover have "\<not> is_space CHR ''=''" "\<not> is_space CHR ''~''" "\<not> is_space CHR 0x21" "\<not> is_space CHR ''/''"
    by code_simp+
  ultimately show ?thesis
    using ok by (auto simp: rule_text_def rule_ok_def attribute_name_ok_def list_all_iff)
qed

lemma ToLower_rule_text: "rule_ok compile r \<Longrightarrow> ToLower (rule_text r) = rule_text r"
proof -
  have "lower_char CHR ''='' = CHR ''=''" "lower_char CHR ''~'' = CHR ''~''" "lower_char CHR 0x21 = CHR 0x21"
    "lower_char CHR ''/'' = CHR ''/''" by code_simp+
  then show "rule_ok compile r \<Longrightarrow> ToLower (rule_text r) = rule_text r"
    by (simp add: rule_text_def rule_ok_def) (simp add: ToLower_def)
qed

lemma ToLower_Join: "ToLower (Join ws sep) = Join (map ToLower ws) (ToLower sep)"
  by (induction ws sep rule: Join.induct) auto


definition example_directory :: "(string list \<Rightarrow> hash result) \<Rightarrow> directory" where
  "example_directory s = \<lparr>search = (\<lambda>tag. s), Resolve = (\<lambda>h. Inl ''no such host''), LookupAddr = (\<lambda>ip. Inr []),
     ModifyError = (\<lambda>cmd. None)\<rparr>"

definition example_system_config :: system_config where
  "example_system_config = \<lparr>Ldap = example_ldap, OwnIP = ''10.0.0.1'', ClientPorts = [''20083''],
     LookupDomains = [], Domain = ''de''\<rparr>"

definition example_rules :: "match_rule list" where
  "example_rules = [Rule ''ghcputype'' True ''intel'', Rule ''ghcputype'' True ''amd'', Rule ''cn'' False ''test'']"

definition example_machine :: hash where
  "example_machine = Add ''cn'' [''pc1''] (NewHash ''xml'' [''ghcputype'', ''AMD''])"


section \<open>The list of templates\<close>

definition descending :: "(nat \<times> hash) list \<Rightarrow> bool" where
  "descending ts \<longleftrightarrow> sorted_wrt (\<lambda>a b. fst b \<le> fst a) ts"

lemma insert_template_descending: "descending qs \<Longrightarrow> descending (insert_template n t qs)"
proof (induction qs)
  case (Cons q qs)
  have "set (insert_template n t qs) \<subseteq> insert (n, t) (set qs)"
    by (induction qs) auto
  with Cons show ?case by (fastforce simp: descending_def)
qed (simp add: descending_def)

lemma insert_template_before:
  "0 < n \<Longrightarrow> fst s = 0 \<Longrightarrow>
    \<exists>ps'. insert_template n t (ps @ [s]) = ps' @ [s] \<and> mset ps' = add_mset (n, t) (mset ps)"
proof (induction ps)
  case Nil
  then show ?case by (intro exI [of _ "[(n, t)]"]) simp
next
  case (Cons p ps)
  then obtain ps' where "insert_template n t (ps @ [s]) = ps' @ [s]" "mset ps' = add_mset (n, t) (mset ps)"
    by auto
  then show ?case
    by (cases "fst p \<le> n") (auto intro: exI [of _ "(n, t) # p # ps"] exI [of _ "p # ps'"])
qed

lemma templates_fold:
  assumes "descending (ps @ [s])" and "fst s = 0"
  shows "\<exists>ps'. fold (\<lambda>t templates. if spec t > 0 then insert_template (spec t) t templates else templates)
      ts (ps @ [s]) = ps' @ [s] \<and> descending (ps' @ [s]) \<and>
      mset ps' = mset ps + mset (map (\<lambda>t. (spec t, t)) (filter (\<lambda>t. spec t > 0) ts))"
  using assms(1)
proof (induction ts arbitrary: ps)
  case (Cons t ts)
  show ?case
  proof (cases "spec t > 0")
    case True
    then obtain ps' where "insert_template (spec t) t (ps @ [s]) = ps' @ [s]"
      "mset ps' = add_mset (spec t, t) (mset ps)"
      using insert_template_before assms(2) by blast
    with Cons.IH [of ps'] insert_template_descending [OF Cons.prems, of "spec t" t] True
    show ?thesis by auto
  next
    case False
    with Cons.IH [OF Cons.prems] show ?thesis by auto
  qed
qed simp

text \<open>The templates for a system are exactly those whose rules match it, each once, and the
  most specific one comes first.\<close>

theorem best_template_first:
  assumes "search env ''xml'' (ldapSearch (Ldap cfg) (templates_query cfg) []) = Inr x"
  shows "mset (children (SystemGetTemplatesFor cfg env compile system)) =
      mset (filter (\<lambda>t. template_specificity cfg env compile system t > 0) (iter_named ''xml'' (kids x))) \<and>
    sorted_wrt (\<lambda>t u. template_specificity cfg env compile system u \<le> template_specificity cfg env compile system t)
      (children (SystemGetTemplatesFor cfg env compile system))"
proof -
  let ?spec = "template_specificity cfg env compile system"
  let ?add = "\<lambda>t templates. if ?spec t > 0 then insert_template (?spec t) t templates else templates"
  obtain ps where ps: "fold ?add (iter_named ''xml'' (kids x)) [(0, NewHash ''xml'' [])] = ps @ [(0, NewHash ''xml'' [])]"
    "descending (ps @ [(0, NewHash ''xml'' [])])"
    "mset ps = mset (map (\<lambda>t. (?spec t, t)) (filter (\<lambda>t. ?spec t > 0) (iter_named ''xml'' (kids x))))"
    using templates_fold [of "[]" "(0, NewHash ''xml'' [])" ?spec "iter_named ''xml'' (kids x)"]
    by (auto simp: descending_def)
  have result: "children (SystemGetTemplatesFor cfg env compile system) = map snd ps"
    using ps(1) by (simp add: SystemGetTemplatesFor_def assms Let_def children_fold del: NewHash.simps)
  have "mset (map snd ps) = mset (filter (\<lambda>t. ?spec t > 0) (iter_named ''xml'' (kids x)))"
    using arg_cong [OF ps(3), of "image_mset snd"] by (simp add: multiset.map_comp o_def)
  moreover have "set ps = (\<lambda>t. (?spec t, t)) ` {t \<in> set (iter_named ''xml'' (kids x)). 0 < ?spec t}"
    using mset_eq_setD [OF ps(3)] by simp
  then have spec: "fst p = ?spec (snd p)" if "p \<in> set ps" for p using that by auto
  have "sorted_wrt (\<lambda>p q. fst q \<le> fst p) ps"
    using ps(2) unfolding descending_def by (simp add: sorted_wrt_append)
  then have "sorted_wrt (\<lambda>p q. ?spec (snd q) \<le> ?spec (snd p)) ps"
    by (rule sorted_wrt_mono_rel [rotated]) (simp add: spec)
  then have "sorted_wrt (\<lambda>t u. ?spec u \<le> ?spec t) (map snd ps)"
    by (simp add: sorted_wrt_map)
  ultimately show ?thesis by (simp add: result)
qed


theorem best_template_first_witness:
  "mset (children (SystemGetTemplatesFor example_system_config (example_directory (\<lambda>a. Inr
      (AddWithOwnership (NewHash ''xml'' [''gocomment'', ''Template for cn=~/pc/'']) (NewHash ''xml'' []))))
      (\<lambda>p. Some (\<lambda>s. True)) example_machine)) =
    mset [NewHash ''xml'' [''gocomment'', ''Template for cn=~/pc/'']]"
proof -
  let ?x = "AddWithOwnership (NewHash ''xml'' [''gocomment'', ''Template for cn=~/pc/'']) (NewHash ''xml'' [])"
  let ?env = "example_directory (\<lambda>a. Inr ?x)"
  have "search ?env ''xml'' (ldapSearch (Ldap example_system_config) (templates_query example_system_config) []) = Inr ?x"
    by (simp add: example_directory_def)
  from best_template_first [OF this, of "\<lambda>p. Some (\<lambda>s. True)" example_machine]
  have "mset (children (SystemGetTemplatesFor example_system_config ?env (\<lambda>p. Some (\<lambda>s. True)) example_machine)) =
      mset (filter (\<lambda>t. template_specificity example_system_config ?env (\<lambda>p. Some (\<lambda>s. True)) example_machine t > 0)
        (iter_named ''xml'' (kids ?x)))" by (rule conjunct1)
  also have "filter (\<lambda>t. template_specificity example_system_config ?env (\<lambda>p. Some (\<lambda>s. True)) example_machine t > 0)
        (iter_named ''xml'' (kids ?x)) = [NewHash ''xml'' [''gocomment'', ''Template for cn=~/pc/'']]"
    by code_simp
  finally show ?thesis .
qed

section \<open>Missing data\<close>

lemma get1_AddClone: "get1 t (AddClone c h) = get1 t h @ (if Name c = t then [own_text c] else [])"
  by (simp add: AddClone_def get1_AddOwn)

lemma get1_fold_AddClone:
  "get1 t (fold AddClone cs h) = get1 t h @ map own_text (filter (\<lambda>c. Name c = t) cs)"
  by (induction cs arbitrary: h) (simp_all add: get1_AddClone)

lemma get1_fill_attribute:
  "get1 t (fill_attribute defaults tag h) =
    (if t = tag \<and> tag \<notin> set DoNotCopyAttribute \<and> get1 tag h = [] then get1 tag defaults else get1 t h)"
proof -
  have "map own_text (filter (\<lambda>c. Name c = t) (iter_named tag (kids defaults))) =
      (if t = tag then get1 tag defaults else [])"
    by (auto simp: iter_named_eq get1_eq filter_empty_conv)
  then show ?thesis by (cases "t = tag") (simp_all add: fill_attribute_def First_None_iff get1_fold_AddClone)
qed

lemma get1_fill_attributes:
  assumes "distinct tags"
  shows "get1 t (fold (fill_attribute defaults) tags h) =
    (if t \<in> set tags \<and> t \<notin> set DoNotCopyAttribute \<and> get1 t h = [] then get1 t defaults else get1 t h)"
  using assms by (induction tags arbitrary: h) (auto simp: get1_fill_attribute)

lemma get1_Subtags: "t \<notin> set (Subtags h) \<Longrightarrow> get1 t h = []"
  by (auto simp: Subtags_def get1_eq filter_empty_conv)

lemma get1_fill_dn:
  "t \<noteq> ''dn'' \<Longrightarrow> get1 t (fill_dn defaults h) = get1 t h"
  "get1 ''dn'' h \<noteq> [] \<Longrightarrow> get1 ''dn'' (fill_dn defaults h) = get1 ''dn'' h"
  by (auto simp: fill_dn_def get1_Add First_None_iff Let_def split: list.splits)

lemma get1_fold_Add:
  "get1 t (fold (\<lambda>v. Add u [v]) vs h) = get1 t h @ (if t = u then vs else [])"
  by (induction vs arbitrary: h) (auto simp: get1_Add)

lemma get1_fill_classes:
  "get1 t (fill_classes defaults h) = get1 t h @
    (if t = ''objectclass'' then filter (\<lambda>oc. oc \<in> set CopyObjectclass \<and> oc \<notin> set (get1 ''objectclass'' h))
       (get1 ''objectclass'' defaults) else [])"
  by (simp add: fill_classes_def get1_fold_Add)

lemma filled_attribute:
  "t \<noteq> ''dn'' \<Longrightarrow> t \<noteq> ''objectclass'' \<Longrightarrow> get1 t (SystemFillInMissingData system defaults) =
    (if get1 t system = [] \<and> t \<notin> set DoNotCopyAttribute then get1 t defaults else get1 t system)"
  "get1 ''objectclass'' (SystemFillInMissingData system defaults) =
    (if get1 ''objectclass'' system = [] then get1 ''objectclass'' defaults
     else get1 ''objectclass'' system @
       filter (\<lambda>oc. oc \<in> set CopyObjectclass \<and> oc \<notin> set (get1 ''objectclass'' system)) (get1 ''objectclass'' defaults))"
  "get1 ''dn'' system \<noteq> [] \<Longrightarrow> get1 ''dn'' (SystemFillInMissingData system defaults) = get1 ''dn'' system"
proof -
  let ?s = "fold (fill_attribute defaults) (Subtags defaults) (fill_dn defaults system)"
  have s: "get1 t ?s = (if t \<notin> set DoNotCopyAttribute \<and> get1 t (fill_dn defaults system) = [] then get1 t defaults
      else get1 t (fill_dn defaults system))" for t
  proof -
    have "distinct (Subtags defaults)" by (simp add: Subtags_def)
    from get1_fill_attributes [OF this, of t defaults "fill_dn defaults system"]
    show ?thesis using get1_Subtags [of t defaults] by auto
  qed
  have special: "''objectclass'' \<notin> set DoNotCopyAttribute" "''dn'' \<in> set DoNotCopyAttribute"
    by (simp_all add: DoNotCopyAttribute_def)
  show "t \<noteq> ''dn'' \<Longrightarrow> t \<noteq> ''objectclass'' \<Longrightarrow> get1 t (SystemFillInMissingData system defaults) =
    (if get1 t system = [] \<and> t \<notin> set DoNotCopyAttribute then get1 t defaults else get1 t system)"
    by (simp add: SystemFillInMissingData_def get1_fill_classes s get1_fill_dn)
  show "get1 ''objectclass'' (SystemFillInMissingData system defaults) =
    (if get1 ''objectclass'' system = [] then get1 ''objectclass'' defaults
     else get1 ''objectclass'' system @
       filter (\<lambda>oc. oc \<in> set CopyObjectclass \<and> oc \<notin> set (get1 ''objectclass'' system)) (get1 ''objectclass'' defaults))"
    using special by (auto simp: SystemFillInMissingData_def get1_fill_classes s get1_fill_dn filter_empty_conv)
  show "get1 ''dn'' system \<noteq> [] \<Longrightarrow> get1 ''dn'' (SystemFillInMissingData system defaults) = get1 ''dn'' system"
    using special by (simp add: SystemFillInMissingData_def get1_fill_classes s get1_fill_dn)
qed

text \<open>Filling in missing data never changes data. What a system has of an attribute stays as
  it is; what it lacks comes from the defaults, except for the attributes that identify an
  entry; of the object classes only those of the list are added, unless the system has none at
  all, when all of them are taken over. Done a second time, it changes no attribute.\<close>

theorem own_data_stays:
  assumes "t \<noteq> ''dn''"
  shows "get1 t (SystemFillInMissingData system defaults) =
     (if t = ''objectclass'' then
        (if get1 t system = [] then get1 t defaults
         else get1 t system @
           filter (\<lambda>oc. oc \<in> set CopyObjectclass \<and> oc \<notin> set (get1 t system)) (get1 t defaults))
      else if get1 t system = [] \<and> t \<notin> set DoNotCopyAttribute then get1 t defaults else get1 t system) \<and>
    get1 t (SystemFillInMissingData (SystemFillInMissingData system defaults) defaults) =
      get1 t (SystemFillInMissingData system defaults)"
proof (cases "t = ''objectclass''")
  case True
  then show ?thesis
    by (simp add: filled_attribute(2) [of "SystemFillInMissingData system defaults"])
      (auto simp: filled_attribute(2) filter_empty_conv)
next
  case False
  then show ?thesis
    by (simp add: filled_attribute(1) [OF assms False])
qed

theorem own_data_stays_witness:
  "get1 ''faistate'' (SystemFillInMissingData (NewHash ''xml'' [''cn'', ''a'']) (NewHash ''xml'' [''faistate'', ''install''])) =
     [''install''] \<and>
   get1 ''cn'' (SystemFillInMissingData (NewHash ''xml'' [''cn'', ''a'']) (NewHash ''xml'' [''cn'', ''b''])) = [''a'']"
  using own_data_stays [of "''faistate''" "NewHash ''xml'' [''cn'', ''a'']" "NewHash ''xml'' [''faistate'', ''install'']"]
    own_data_stays [of "''cn''" "NewHash ''xml'' [''cn'', ''a'']" "NewHash ''xml'' [''cn'', ''b'']"]
  by (simp add: get1_eq AddWithOwnership_def DoNotCopyAttribute_def)

section \<open>Renaming\<close>

lemma lines_of_middle:
  "l \<in> set ls \<Longrightarrow> \<exists>pre post. lines_of ls = pre @ l @ newline @ post"
proof -
  assume "l \<in> set ls"
  then obtain as bs where "ls = as @ l # bs" by (meson split_list)
  then have "lines_of ls = lines_of as @ l @ newline @ lines_of bs" by (simp add: lines_of_def)
  then show ?thesis by blast
qed

text \<open>A new name is not protected. The other values are passed to ldapmodify in base64, but
  the new name of an entry is copied as it is: a name with a line break adds any lines to the
  commands that are executed with the rights of the administrator.\<close>

theorem renaming_adds_lines:
  assumes "text_of ''dn'' old = ''cn='' @ old_name @ '','' @ parent" and "text_of ''dn'' nu = text_of ''dn'' old"
    and "text_of ''cn'' old = old_name" and "CHR '','' \<notin> set old_name"
    and "text_of ''cn'' nu = new_name @ newline @ evil" and "new_name @ newline @ evil \<noteq> old_name"
  shows "\<exists>pre post. snd (SystemReplace cfg env (Some old) (Some nu)) =
    [ldapModify (Ldap cfg) (pre @ newline @ evil @ newline @ post)]"
proof -
  let ?dn = "''cn='' @ old_name @ '','' @ parent" and ?cn = "new_name @ newline @ evil"
  let ?dn' = "''cn='' @ ?cn @ '','' @ parent"
  let ?groups = "SystemGetGroupsWithMember cfg env ?dn"
  have comma: "Index ?dn CHR '','' \<noteq> None" by (simp add: Index_None_iff)
  have "dropWhile (\<lambda>c. c \<noteq> CHR '','') ?dn = '','' @ parent"
    using assms(4) by (simp add: dropWhile_append3 dropWhile_append2) (auto simp: dropWhile_append2)
  moreover have "old_name \<noteq> ?cn" using assms(6) by simp
  ultimately have run: "snd (SystemReplace cfg env (Some old) (Some nu)) =
      [ldapModify (Ldap cfg) (modify_ldif ?groups old (FirstOrAdd ''dn'' (SetText [?dn']) nu) ?dn ?dn' ?cn)]"
    using assms(1-3,5) comma unfolding SystemReplace_def Let_def by simp
  have "''newrdn: cn='' @ ?cn \<in> set [[], ''dn:: '' @ EncodeToString ?dn, ''changetype: modrdn'', ''newrdn: cn='' @ ?cn,
      ''deleteoldrdn: 1'', ''newsuperior:: '' @
        EncodeToString (case Index ?dn' CHR '','' of None \<Rightarrow> ?dn' | Some i \<Rightarrow> drop (Suc i) ?dn')]"
    by simp
  from lines_of_middle [OF this] obtain pre post
    where mid: "lines_of [[], ''dn:: '' @ EncodeToString ?dn, ''changetype: modrdn'', ''newrdn: cn='' @ ?cn,
      ''deleteoldrdn: 1'', ''newsuperior:: '' @
        EncodeToString (case Index ?dn' CHR '','' of None \<Rightarrow> ?dn' | Some i \<Rightarrow> drop (Suc i) ?dn')] =
      pre @ (''newrdn: cn='' @ ?cn) @ newline @ post" by blast
  have "?dn' \<noteq> ?dn" using assms(6) by simp
  have gen: "\<exists>pre post. a @ (p @ (q @ x @ n @ e) @ n @ r) @ s = pre @ n @ e @ n @ post"
    for a p q x n e r s :: string by (intro exI [of _ "a @ p @ q @ x"] exI [of _ "r @ s"]) simp
  have "\<exists>pre post. modify_ldif ?groups old (FirstOrAdd ''dn'' (SetText [?dn']) nu) ?dn ?dn' ?cn =
      pre @ newline @ evil @ newline @ post"
    unfolding modify_ldif_def mid if_P [OF \<open>?dn' \<noteq> ?dn\<close>] by (rule gen)
  with run show ?thesis by metis
qed

theorem renaming_adds_lines_witness:
  "\<exists>pre post. snd (SystemReplace example_system_config (example_directory (\<lambda>a. Inl ''down''))
      (Some (Add ''cn'' [''a''] (NewHash ''xml'' [''dn'', ''cn=a,c=de''])))
      (Some (Add ''cn'' [''b'' @ newline @ ''dn: cn=admin''] (NewHash ''xml'' [''dn'', ''cn=a,c=de''])))) =
    [ldapModify (Ldap example_system_config) (pre @ newline @ ''dn: cn=admin'' @ newline @ post)]"
  by (rule renaming_adds_lines [where old_name = "''a''" and parent = "''c=de''" and new_name = "''b''"]) code_simp+

end
