(* ===== verification/ClientMessages.thy ===== *)
theory ClientMessages
  imports JobMessages SystemDB PeerLinks
begin

text \<open>
  What happens with a client: it registers (go-susi/message/here_i_am.go), gets its
  configuration (new_ldap_config.go, set_activated_for_installation.go), reports its hardware
  (detected_hardware.go), and the messages that are sent to it (client_connection.go).

  A handler gets the state of the components it uses and returns it, together with what it
  does to the outside: the messages to clients and the commands for ldapmodify, in order.
\<close>

section \<open>Configuration and effects\<close>

record client_site =
  Process :: process_config
  Systems :: system_config
  UseTLS :: bool
  HIAMaxInfoSize :: int
  HIAMaxElementSize :: int
  FullQualifiedCN :: bool
  CNAutoPrefix :: string
  CNAutoSuffix :: string
  CNRenameBlacklist :: "string list"
  IncomingOU :: string
  AdminBase :: string
  Department :: string

abbreviation own_address :: "client_site \<Rightarrow> string" where
  "own_address cfg \<equiv> ServerSourceAddress (Process cfg)"

abbreviation own_ldap :: "client_site \<Rightarrow> ldap_config" where
  "own_ldap cfg \<equiv> Ldap (Systems cfg)"

datatype effect = Tell_client string string | Run_ldapmodify "string list \<times> string"

record world =
  clients :: clientdb
  hellos :: hia_db
  server_db :: hash
  job_db :: jobdb
  peer_links :: peers
  effects :: "effect list"

definition does :: "effect list \<Rightarrow> world \<Rightarrow> world" where
  "does es w = w\<lparr>effects := effects w @ es\<rparr>"

section \<open>Configuration for a client\<close>

text \<open>
  \<open>gotoLdapServerRegexp\<close>, \<open>^([0-9]+):([^:]+):([^:/]+:/{0,2}[^/]+)/(.*)$\<close>: the third and the
  fourth group. Each part ends at the first byte it may not contain, so there is one way at
  most to match.
\<close>

definition before_colon :: "string \<Rightarrow> (string \<times> string) option" where
  "before_colon s =
     (case Index s CHR '':'' of
        None \<Rightarrow> None
      | Some k \<Rightarrow> if k = 0 then None else Some (take k s, drop (Suc k) s))"

definition goto_ldap_uri :: "string \<Rightarrow> (string \<times> string) option" where
  "goto_ldap_uri s =
     (case before_colon s of
        None \<Rightarrow> None
      | Some (scheme, r) \<Rightarrow>
          (let slashes = takeWhile (\<lambda>c. c = CHR ''/'') r;
               r = dropWhile (\<lambda>c. c = CHR ''/'') r;
               host = takeWhile (\<lambda>c. c \<noteq> CHR ''/'') r;
               path = dropWhile (\<lambda>c. c \<noteq> CHR ''/'') r
           in if CHR ''/'' \<in> set scheme \<or> length slashes > 2 \<or> host = [] \<or> path = [] \<or> CHR 0x0A \<in> set path
              then None
              else Some (scheme @ '':'' @ slashes @ host, tl path)))"

definition gotoLdapServer :: "string \<Rightarrow> (string \<times> string) option" where
  "gotoLdapServer s =
     (case before_colon s of
        None \<Rightarrow> None
      | Some (digits, r) \<Rightarrow>
          if \<not> list_all is_digit digits then None
          else (case before_colon r of None \<Rightarrow> None | Some (name, r) \<Rightarrow> goto_ldap_uri r))"

definition message_start :: "client_site \<Rightarrow> string \<Rightarrow> string" where
  "message_start cfg client_addr =
     ''<xml><source>'' @ own_address cfg @ ''</source><target>'' @ client_addr @ ''</target>''"

definition add_ldap_server :: "string \<Rightarrow> hash \<Rightarrow> hash" where
  "add_ldap_server entry msg =
     (case gotoLdapServer entry of
        None \<Rightarrow> msg
      | Some (uri, base) \<Rightarrow>
          (let msg = Add ''ldap_uri'' [uri] msg
           in if First ''ldap_base'' msg = None then Add ''ldap_base'' [base] msg else msg))"

definition new_ldap_config_message :: "client_site \<Rightarrow> string \<Rightarrow> hash \<Rightarrow> hash" where
  "new_ldap_config_message cfg client_addr system =
     (let msg = NewHash ''xml'' [''header'', ''new_ldap_config''];
          msg = Add ''new_ldap_config'' [] msg;
          msg = Add ''source'' [own_address cfg] msg;
          msg = Add ''target'' [client_addr] msg;
          msg = fold add_ldap_server (get1 ''gotoldapserver'' system) msg;
          msg = (if First ''ldap_uri'' msg = None
                 then Add ''ldap_base'' [LDAPBase (own_ldap cfg)] (Add ''ldap_uri'' [LDAPURI (own_ldap cfg)] msg)
                 else msg);
          msg = (if UnitTag (own_ldap cfg) \<noteq> []
                 then Add ''department'' [Department cfg] (Add ''admin_base'' [AdminBase cfg]
                        (Add ''unit_tag'' [UnitTag (own_ldap cfg)] msg))
                 else msg);
          faiclass = Split (text_of ''faiclass'' system) CHR '':'';
          release = (if length faiclass = 2 then faiclass ! 1 else [])
      in if release \<noteq> [] then Add ''release'' [release] msg else msg)"

definition Send_new_ldap_config :: "client_site \<Rightarrow> string \<Rightarrow> hash option \<Rightarrow> effect list" where
  "Send_new_ldap_config cfg client_addr system =
     (case system of
        None \<Rightarrow> []
      | Some system \<Rightarrow>
          if children system = [] then []
          else
            (let ntps = get1 ''gotontpserver'' system
             in (if ntps \<noteq> []
                 then [Tell_client client_addr (message_start cfg client_addr @
                        ''<header>new_ntp_config</header><new_ntp_config></new_ntp_config>'' @
                        concat (map (\<lambda>ntp. ''<server>'' @ ntp @ ''</server>'') ntps) @ ''</xml>'')]
                 else []) @
                [Tell_client client_addr (String (new_ldap_config_message cfg client_addr system))]))"

definition Send_set_activated_for_installation :: "client_site \<Rightarrow> string \<Rightarrow> hash \<Rightarrow> effect list" where
  "Send_set_activated_for_installation cfg client_addr system =
     Send_new_ldap_config cfg client_addr (Some system) @
     [Tell_client client_addr
        (''<xml><header>set_activated_for_installation</header><set_activated_for_installation></set_activated_for_installation><source>'' @
         own_address cfg @ ''</source><target>'' @ client_addr @ ''</target>'' @
         ''<faistate>'' @ text_of ''faistate'' system @ ''</faistate></xml>'')] @
     Send_new_ldap_config cfg client_addr (Some system)"

text \<open>The receiver of \<open>new_ldap_config\<close>, if it is not a server: its settings.\<close>

record ldap_settings =
  settings :: ldap_config
  admin_base :: string
  department :: string

definition changed :: "string \<Rightarrow> string \<Rightarrow> string" where
  "changed old new = (if new \<noteq> [] then new else old)"

definition updateInternalLdapSettings :: "hash \<Rightarrow> ldap_settings \<Rightarrow> ldap_settings" where
  "updateInternalLdapSettings xmlmsg st =
     (let ldap_uri = (case First ''ldap_uri'' xmlmsg of None \<Rightarrow> [] | Some ldap \<Rightarrow> own_text ldap);
          unit_tag = text_of ''unit_tag'' xmlmsg;
          l = settings st;
          l = l\<lparr>LDAPURI := changed (LDAPURI l) ldap_uri,
                LDAPBase := changed (LDAPBase l) (text_of ''ldap_base'' xmlmsg)\<rparr>
      in if unit_tag = [] then
           (if UnitTag l \<noteq> []
            then \<lparr>settings = l\<lparr>UnitTag := [], UnitTagFilter := []\<rparr>, admin_base = [], department = []\<rparr>
            else st\<lparr>settings := l\<rparr>)
         else
           \<lparr>settings = (if UnitTag l \<noteq> unit_tag
              then l\<lparr>UnitTag := unit_tag, UnitTagFilter := ''(gosaUnitTag='' @ unit_tag @ '')''\<rparr> else l),
            admin_base = changed (admin_base st) (text_of ''admin_base'' xmlmsg),
            department = changed (department st) (text_of ''department'' xmlmsg)\<rparr>)"

text \<open>Whether the hook is run that gets the message (\<open>new_foo_config\<close>), and the settings.\<close>

definition new_ldap_config :: "process_config \<Rightarrow> hash \<Rightarrow> ldap_settings \<Rightarrow> ldap_settings \<times> bool" where
  "new_ldap_config cfg xmlmsg st =
     (let target = text_of ''target'' xmlmsg in
      if target \<noteq> [] \<and> target \<noteq> ServerSourceAddress cfg then (st, False)
      else (if RunServer cfg then st else updateInternalLdapSettings xmlmsg st, True))"

section \<open>A client registers\<close>

definition special_elements :: "string list" where
  "special_elements = [''header'', ''source'', ''target'', ''here_i_am'', ''mac_address'', ''new_passwd'',
     ''key_lifetime'']"

text \<open>The loop that copies the other elements of the message, until one or all are too long.\<close>

fun copy_info :: "int \<Rightarrow> int \<Rightarrow> hash list \<Rightarrow> hash \<Rightarrow> hash" where
  "copy_info max_element rest_size [] client = client"
| "copy_info max_element rest_size (info # infos) client =
     (if Name info \<in> set special_elements then copy_info max_element rest_size infos client
      else
        (let used = int (length (own_text info) + length (Name info)) in
         if used > max_element then client
         else if rest_size - used < 0 then client
         else copy_info max_element (rest_size - used) infos (Add (Name info) [own_text info] client)))"

definition new_foreign_client_message :: "client_site \<Rightarrow> string \<Rightarrow> string \<Rightarrow> hash \<Rightarrow> hash" where
  "new_foreign_client_message cfg client_addr macaddress xmlmsg =
     (let client = NewHash ''xml'' [''header'', ''new_foreign_client''];
          client = Add ''new_foreign_client'' [] client;
          client = Add ''source'' [own_address cfg] client;
          client = Add ''target'' [own_address cfg] client;
          client = Add ''client'' [client_addr] client;
          client = Add ''macaddress'' [macaddress] client;
          client = Add ''key'' [text_of ''new_passwd'' xmlmsg] client
      in copy_info (HIAMaxElementSize cfg) (HIAMaxInfoSize cfg) (children xmlmsg) client)"

text \<open>\<open>rnd\<close> is rand.Intn: a number below its argument.\<close>

definition throttled :: "client_site \<Rightarrow> int \<Rightarrow> (int \<Rightarrow> int) \<Rightarrow> string \<Rightarrow> string \<Rightarrow> hia_db \<Rightarrow> hia_db \<times> bool" where
  "throttled cfg now rnd client_addr macaddress db =
     (if client_addr = own_address cfg then (db, False)
      else (let (db, n) = ClientThrottle now macaddress db in (db, n > 10 \<and> rnd n \<noteq> 0)))"

fun inform_peers :: "client_site \<Rightarrow> (string \<Rightarrow> string result) \<Rightarrow> hash \<Rightarrow> hash \<Rightarrow> string list \<Rightarrow> peers \<Rightarrow> peers outcome" where
  "inform_peers cfg resolve serverdb client [] ps = Returns ps"
| "inform_peers cfg resolve serverdb client (server # servers) ps =
     (let client = set_field ''target'' server client in
      and_then (Peer resolve (own_address cfg) server ps) (\<lambda>(ps, conn).
        inform_peers cfg resolve serverdb client servers (Tell (UseTLS cfg) serverdb client [] conn ps)))"

definition DoNotChangeCN :: "client_site \<Rightarrow> hash \<Rightarrow> bool" where
  "DoNotChangeCN cfg system =
     (let cn = text_of ''cn'' system in
      if HasPrefix cn (CNAutoPrefix cfg) \<and> HasSuffix cn (CNAutoSuffix cfg) then False
      else list_ex (HasSuffix (text_of ''dn'' system)) (CNRenameBlacklist cfg))"

definition short_name :: "string \<Rightarrow> string" where
  "short_name name = hd (SplitN2 name CHR ''.'')"

definition with_cn :: "string \<Rightarrow> hash \<Rightarrow> hash outcome" where
  "with_cn name system =
     (if First ''cn'' system = None then outcome.Panics
      else Returns (FirstOrAdd ''cn'' (SetText [name]) system))"

text \<open>
  The entry of a client in LDAP, and that of its printer, follow its name in the DNS and its
  address. The result is what is executed; a missing cn is a nil pointer.
\<close>

definition renamed_entry ::
  "client_site \<Rightarrow> directory \<Rightarrow> bool \<Rightarrow> bool \<Rightarrow> string \<Rightarrow> string \<Rightarrow> hash \<Rightarrow> (string list \<times> string) list outcome" where
  "renamed_entry cfg env update_ip update_name client_ip new_name system =
     (let upd = (if update_ip then set_field ''iphostnumber'' client_ip system else system) in
      and_then (if update_name then with_cn new_name upd else Returns upd) (\<lambda>upd.
        Returns (snd (SystemReplace (Systems cfg) env (Some system) (Some upd)))))"

definition update_entry ::
  "client_site \<Rightarrow> directory \<Rightarrow> string \<Rightarrow> string \<Rightarrow> hash \<Rightarrow> (string list \<times> string) list outcome" where
  "update_entry cfg env macaddress client_addr system =
     (let parts = SplitN2 client_addr CHR '':'';
          client_ip = parts ! 0;
          client_port = (if length parts > 1 then parts ! 1 else []);
          client_name = ToLower (SystemNameForIPAddress env client_ip);
          new_name = (if FullQualifiedCN cfg then client_name else short_name client_name);
          uses_standard_port = (client_port \<in> set (ClientPorts (Systems cfg)));
          cn = ToLower (text_of ''cn'' system);
          update_name = (client_name \<noteq> ''none'' \<and> cn \<noteq> client_name \<and> cn \<noteq> short_name client_name \<and>
            uses_standard_port \<and> \<not> DoNotChangeCN cfg system);
          update_ip = (client_ip \<noteq> text_of ''iphostnumber'' system \<and>
            (text_of ''iphostnumber'' system = [] \<or> uses_standard_port))
      in if update_ip \<or> update_name then
           and_then
             (case SystemGetAllDataForMAC (Systems cfg) env macaddress False of
                Inl err \<Rightarrow> Returns []
              | Inr entry \<Rightarrow> renamed_entry cfg env update_ip update_name client_ip new_name entry) (\<lambda>cmds.
           and_then
             (case SystemLocalPrinterForMAC (Systems cfg) env macaddress of
                Inl err \<Rightarrow> Returns []
              | Inr printer \<Rightarrow> renamed_entry cfg env update_ip (update_name \<and> text_of ''cn'' printer = cn)
                  client_ip new_name printer) (\<lambda>cmds'.
             Returns (cmds @ cmds')))
         else Returns [])"

definition client_data :: "system_error + hash \<Rightarrow> hash option" where
  "client_data r = (case r of Inl err \<Rightarrow> None | Inr system \<Rightarrow> Some system)"

definition registered_message :: "client_site \<Rightarrow> string \<Rightarrow> hash option \<Rightarrow> string" where
  "registered_message cfg client_addr system =
     message_start cfg client_addr @ ''<header>registered</header><registered></registered>'' @
     (case system of
        None \<Rightarrow> []
      | Some s \<Rightarrow> if text_of ''gotoldapserver'' s \<noteq> [] then ''<ldap_available>true</ldap_available>'' else []) @
     ''</xml>''"

definition detect_hardware_message :: "client_site \<Rightarrow> string \<Rightarrow> string" where
  "detect_hardware_message cfg client_addr =
     message_start cfg client_addr @ ''<header>detect_hardware</header><detect_hardware></detect_hardware></xml>''"

text \<open>
  The handler. \<open>now\<close> is the time in seconds, \<open>now_ts\<close> its timestamp; \<open>ids\<close> and \<open>add_timestamp\<close> are
  as in the job database.
\<close>

definition here_i_am ::
  "client_site \<Rightarrow> directory \<Rightarrow> (nat \<Rightarrow> nat) \<Rightarrow> (string \<Rightarrow> string \<Rightarrow> string result) \<Rightarrow> int \<Rightarrow> string \<Rightarrow>
   (int \<Rightarrow> int) \<Rightarrow> hash \<Rightarrow> world \<Rightarrow> world outcome" where
  "here_i_am cfg env ids add_timestamp now now_ts rnd xmlmsg w =
     (let client_addr = text_of ''source'' xmlmsg; macaddress = text_of ''mac_address'' xmlmsg in
      if \<not> valid_mac macaddress then Returns w
      else
        (let (hs, refused) = throttled cfg now rnd client_addr macaddress (hellos w);
             w = w\<lparr>hellos := hs\<rparr> in
         if refused then Returns w
         else
           (let client = new_foreign_client_message cfg client_addr macaddress xmlmsg;
                w = w\<lparr>clients := (case ClientUpdate (own_address cfg) client (clients w) of
                         Inl err \<Rightarrow> clients w | Inr c \<Rightarrow> c),
                      server_db := snd (ServerRemove client_addr (server_db w))\<rparr>;
                entry = SystemGetAllDataForMAC (Systems cfg) env macaddress True
            in case entry of
                 Inl (LookupError err) \<Rightarrow> Returns w
               | _ \<Rightarrow>
                   and_then (inform_peers cfg (Resolve env) (server_db w) client
                               (ServerAddresses (server_db w)) (peer_links w)) (\<lambda>ps.
                     (let system = client_data entry;
                          w = does [Tell_client client_addr (registered_message cfg client_addr system)]
                                (w\<lparr>peer_links := ps\<rparr>);
                          w = w\<lparr>job_db := jobs_for_faistate (Process cfg) ids now_ts client_addr macaddress
                                 (map_option (text_of ''faistate'') system) (job_db w)\<rparr>;
                          w = w\<lparr>job_db := launch_tminus_jobs (Process cfg) add_timestamp now_ts macaddress (job_db w)\<rparr>
                      in case system of
                           None \<Rightarrow> Returns (if client_addr = own_address cfg then w
                             else does [Tell_client client_addr (detect_hardware_message cfg client_addr)] w)
                         | Some s \<Rightarrow>
                             and_then (update_entry cfg env macaddress client_addr s) (\<lambda>cmds.
                               Returns (does (Send_new_ldap_config cfg client_addr (Some s) @
                                              map Run_ldapmodify cmds) w)))))))"

section \<open>A client reports its hardware\<close>

definition all_detected :: "hash \<Rightarrow> hash" where
  "all_detected xmlmsg =
     fold (\<lambda>child. Add (ToLower (Name child)) [own_text child])
       (concat (map children (iter_named ''detected_hardware'' (kids xmlmsg)))) (NewHash ''xml'' [])"

text \<open>The MAC address and the data of the client, if the client can be identified.\<close>

definition identified :: "clientdb \<Rightarrow> hash \<Rightarrow> hash \<Rightarrow> (string \<times> hash) option" where
  "identified cs xmlmsg detected =
     (let macaddress = text_of ''macaddress'' detected in
      if macaddress = ''00:00:00:00:00:00'' \<or> \<not> valid_mac macaddress then
        map_option (\<lambda>client. (text_of ''macaddress'' client,
            set_field ''macaddress'' (text_of ''macaddress'' client) detected))
          (ClientWithAddress (text_of ''source'' xmlmsg) cs)
      else Some (macaddress, detected))"

definition with_ip :: "hash \<Rightarrow> hash \<Rightarrow> string \<times> hash" where
  "with_ip xmlmsg detected =
     (let ip = text_of ''iphostnumber'' detected in
      if ip = [] then
        (let ip = hd (SplitN2 (text_of ''source'' xmlmsg) CHR '':'')
         in (ip, if ip \<noteq> [] then set_field ''iphostnumber'' ip detected else detected))
      else (ip, detected))"

text \<open>None if the message asks for an illegal change of the DN.\<close>

definition with_cn_of_dn :: "client_site \<Rightarrow> hash \<Rightarrow> hash option" where
  "with_cn_of_dn cfg system =
     (case get1 ''dn'' system of
        [] \<Rightarrow> Some system
      | [dn] \<Rightarrow>
          if \<not> HasSuffix dn (LDAPBase (own_ldap cfg)) then None
          else Some (if text_of ''cn'' system = [] \<and> HasPrefix dn ''cn=''
                     then set_field ''cn'' (drop 3 (hd (SplitN2 dn CHR '',''))) system else system)
      | _ \<Rightarrow> None)"

definition merge_old :: "hash \<Rightarrow> hash \<Rightarrow> hash" where
  "merge_old oldentry system =
     SystemFillInMissingData
       (fold (\<lambda>attr system. if First attr system = None \<and> First attr oldentry \<noteq> None
                then Add attr [text_of attr oldentry] system else system) DoNotCopyAttribute system)
       oldentry"

definition generated_name :: "client_site \<Rightarrow> directory \<Rightarrow> string \<Rightarrow> string \<Rightarrow> string" where
  "generated_name cfg env ip macaddress =
     (let name = SystemNameForIPAddress env ip;
          name = (if FullQualifiedCN cfg then name else short_name name)
      in if name = ''none''
         then CNAutoPrefix cfg @ ReplaceAll '':'' ''-'' macaddress @ CNAutoSuffix cfg else name)"

definition new_system ::
  "client_site \<Rightarrow> directory \<Rightarrow> (string \<Rightarrow> (string \<Rightarrow> bool) option) \<Rightarrow> string \<Rightarrow> string \<Rightarrow> hash \<Rightarrow>
   hash \<times> (string list \<times> string) list" where
  "new_system cfg env compile macaddress ip system =
     (let system = (if text_of ''cn'' system = []
                    then Add ''cn'' [generated_name cfg env ip macaddress] system else system)
      in case First ''xml'' (SystemGetTemplatesFor (Systems cfg) env compile system) of
           None \<Rightarrow> (system, [])
         | Some template \<Rightarrow>
             (let system = SystemFillInMissingData system template
              in (system, SystemAddToGroups (Systems cfg) (text_of ''dn'' system)
                            (SystemGetGroupsWithMember (Systems cfg) env (text_of ''dn'' template)))))"

definition with_fallbacks :: "client_site \<Rightarrow> hash \<Rightarrow> hash" where
  "with_fallbacks cfg system =
     (let system = (if First ''objectclass'' system = None then
            (let system = Add ''objectclass'' [''FAIobject''] (Add ''objectclass'' [''GOhard''] system)
             in if UnitTag (own_ldap cfg) \<noteq> []
                then Add ''gosaunittag'' [UnitTag (own_ldap cfg)]
                       (Add ''objectclass'' [''gosaAdministrativeUnitTag''] system)
                else system)
            else system);
          system = (if First ''gotomode'' system = None then Add ''gotomode'' [''locked''] system else system);
          system = (if First ''faistate'' system = None then Add ''faistate'' [''install''] system else system)
      in if First ''dn'' system = None
         then Add ''dn'' [''cn='' @ text_of ''cn'' system @ '','' @ IncomingOU cfg] system else system)"

text \<open>
  The handler: \<open>env\<close> is the directory before its changes, \<open>env'\<close> afterwards. A nil pointer is
  used if the entry cannot be read at the end.
\<close>

definition detected_hardware ::
  "client_site \<Rightarrow> directory \<Rightarrow> directory \<Rightarrow> (string \<Rightarrow> (string \<Rightarrow> bool) option) \<Rightarrow> hash \<Rightarrow> world \<Rightarrow>
   world outcome" where
  "detected_hardware cfg env env' compile xmlmsg w =
     (case identified (clients w) xmlmsg (all_detected xmlmsg) of
        None \<Rightarrow> Returns w
      | Some (macaddress, detected) \<Rightarrow>
          (let (ip, detected) = with_ip xmlmsg detected in
           case with_cn_of_dn cfg (Clone detected) of
             None \<Rightarrow> Returns w
           | Some system \<Rightarrow>
               (let oldentry = client_data (SystemGetAllDataForMAC (Systems cfg) env macaddress False);
                    (system, groups) = (case oldentry of
                       Some old \<Rightarrow> (merge_old old system, [])
                     | None \<Rightarrow> new_system cfg env compile macaddress ip system);
                    (err, cmds) = SystemReplace (Systems cfg) env oldentry (Some (with_fallbacks cfg system));
                    w = does (map Run_ldapmodify (groups @ cmds)) w
                in if err \<noteq> None then Returns w
                   else
                     (case SystemGetAllDataForMAC (Systems cfg) env' macaddress True of
                        Inl err \<Rightarrow> outcome.Panics
                      | Inr system \<Rightarrow>
                          Returns (does
                            (if text_of ''gotomode'' system = ''active''
                             then Send_set_activated_for_installation cfg (text_of ''source'' xmlmsg) system
                             else Send_new_ldap_config cfg (text_of ''source'' xmlmsg) (Some system)) w)))))"

section \<open>Sending a message to a client\<close>

text \<open>
  What an attempt meets, times in nanoseconds: how much longer than asked the goroutine
  sleeps, the entry of the client, whether a connection is made and how long that takes, and
  the same for the sending.
\<close>

record client_link =
  oversleep :: "nat \<Rightarrow> nat"
  entry_at :: "nat \<Rightarrow> hash option"
  connecting :: "nat \<Rightarrow> bool \<times> nat"
  sending :: "nat \<Rightarrow> bool \<times> nat"

definition second :: int where
  "second = 10 ^ 9"

text \<open>The pause before attempt number \<open>tries\<close> (a 64-bit product); None ends the attempts.\<close>

definition retry_pause :: "int \<Rightarrow> nat \<Rightarrow> int option" where
  "retry_pause expiry tries =
     (if expiry \<le> 0 then None
      else
        (let delay = signed_take_bit 63 (2 ^ tries * second);
             delay = (if delay > 60 * second then 60 * second else delay);
             delay = (if delay > expiry then expiry - second else delay)
         in if delay \<le> 0 then None else Some delay))"

text \<open>The entry that is used to reach the client; for the own address one is made up.\<close>

definition entry_used :: "client_site \<Rightarrow> string \<Rightarrow> string \<Rightarrow> hash option \<Rightarrow> hash option" where
  "entry_used cfg packages_key addr entry =
     (case entry of
        Some client \<Rightarrow> Some client
      | None \<Rightarrow>
          if addr = own_address cfg
          then Some (Add ''key'' [if UseTLS cfg then [] else packages_key]
                 (NewHash ''xml'' [''source'', own_address cfg]))
          else None)"

text \<open>
  The loop. The result are the times at which the message is sent and whether the last
  sending succeeded.
\<close>

datatype attempt = Try_again int | Break_off | Sent int bool int

definition attempt ::
  "client_site \<Rightarrow> string \<Rightarrow> client_link \<Rightarrow> string \<Rightarrow> int \<Rightarrow> nat \<Rightarrow> int \<Rightarrow> attempt" where
  "attempt cfg packages_key link addr expires tries now =
     (case entry_used cfg packages_key addr (entry_at link tries) of
        None \<Rightarrow> Try_again now
      | Some client \<Rightarrow>
          if text_of ''source'' client \<noteq> own_address cfg then Break_off
          else if get1 ''key'' client = [] then Break_off
          else
            (let now = now + int (snd (connecting link tries)) in
             if \<not> fst (connecting link tries) then Try_again now
             else if expires < now then Break_off
             else Sent now (fst (sending link tries)) (now + int (snd (sending link tries)))))"

lemma retry_pause_positive: "retry_pause expiry tries = Some delay \<Longrightarrow> 0 < delay \<and> delay \<le> expiry"
  by (auto simp: retry_pause_def Let_def second_def split: if_splits)

lemma attempt_later:
  "attempt cfg k link addr expires tries now = Try_again t \<Longrightarrow> now \<le> t"
  "attempt cfg k link addr expires tries now = Sent s ok t \<Longrightarrow> now \<le> s \<and> s \<le> t \<and> s \<le> expires"
  by (auto simp: attempt_def Let_def split: option.splits if_splits)

function send_loop ::
  "client_site \<Rightarrow> string \<Rightarrow> client_link \<Rightarrow> string \<Rightarrow> int \<Rightarrow> nat \<Rightarrow> int \<Rightarrow> int list \<times> bool" where
  "send_loop cfg packages_key link addr expires tries now =
     (case (if tries > 0 then retry_pause (expires - now) tries else Some 0) of
        None \<Rightarrow> ([], False)
      | Some delay \<Rightarrow>
          (let now = (if tries > 0 then now + delay + int (oversleep link tries) else now) in
           case attempt cfg packages_key link addr expires (Suc tries) now of
             Try_again t \<Rightarrow> send_loop cfg packages_key link addr expires (Suc tries) t
           | Break_off \<Rightarrow> ([], False)
           | Sent s ok t \<Rightarrow>
               if ok then ([s], True)
               else (let (ss, res) = send_loop cfg packages_key link addr expires (Suc tries) t
                     in (s # ss, res))))"
  by pat_completeness auto
termination send_loop
proof (relation "measure (\<lambda>(cfg, k, link, addr, expires, tries, now). (if tries = 0 then 1 else 0) + nat (expires - now))",
    goal_cases)
  case 1
  show ?case by simp
next
  case (2 cfg k link addr expires tries now x2 x t)
  have "0 < tries \<Longrightarrow> 0 < x2 \<and> x2 \<le> expires - now"
    using 2(1) retry_pause_positive [of "expires - now" tries x2] by (auto split: if_splits)
  then show ?case using attempt_later(1) [OF 2(3)] 2(2) by (cases "tries = 0") auto
next
  case (3 cfg k link addr expires tries now x2 x s ok t)
  have "0 < tries \<Longrightarrow> 0 < x2 \<and> x2 \<le> expires - now"
    using 3(1) retry_pause_positive [of "expires - now" tries x2] by (auto split: if_splits)
  then show ?case using attempt_later(2) [OF 3(3)] 3(2) by (cases "tries = 0") auto
qed

declare send_loop.simps [simp del]

text \<open>\<open>Tell\<close>: the goroutine starts at \<open>start\<close>.\<close>

definition ClientTell ::
  "client_site \<Rightarrow> string \<Rightarrow> client_link \<Rightarrow> string \<Rightarrow> int \<Rightarrow> int \<Rightarrow> int \<Rightarrow> int list \<times> bool" where
  "ClientTell cfg packages_key link addr ttl called start =
     (let ttl = (if ttl < second div 10 then second div 10 else ttl);
          expires = called + ttl
      in if expires < start then ([], False)
         else send_loop cfg packages_key link addr expires 0 start)"

definition Client :: "(string \<Rightarrow> string result) \<Rightarrow> string \<Rightarrow> string" where
  "Client resolve addr =
     (case resolve addr of
        Inl err \<Rightarrow> ''127.0.0.1:0''
      | Inr a \<Rightarrow> (case SplitHostPort a of Inl err \<Rightarrow> ''127.0.0.1:0'' | Inr hp \<Rightarrow> a))"

definition CheckPossibleClients :: "string \<Rightarrow> clientdb \<Rightarrow> (string \<times> string) list" where
  "CheckPossibleClients server st =
     map (\<lambda>addr. (addr, ''<xml><header>deregistered</header><source>'' @ server @ ''</source><target>'' @
         addr @ ''</target></xml>''))
       (filter (\<lambda>addr. addr \<noteq> server) (map (text_of ''client'') (children (may_have st))))"

section \<open>Sending: lemmas\<close>

lemma sends_in_time:
  "list_all (\<lambda>s. s \<le> expires) (fst (send_loop cfg k link addr expires tries now))"
proof (induction cfg k link addr expires tries now rule: send_loop.induct)
  case (1 cfg k link addr expires tries now)
  show ?case
    by (subst send_loop.simps)
      (use 1 attempt_later(2) in \<open>fastforce simp: Let_def split: option.splits attempt.splits prod.splits if_splits\<close>)
qed


lemma success_sends: "snd (send_loop cfg k link addr expires tries now) \<Longrightarrow>
    fst (send_loop cfg k link addr expires tries now) \<noteq> []"
proof (induction cfg k link addr expires tries now rule: send_loop.induct)
  case (1 cfg k link addr expires tries now)
  from 1(3) show ?case
    by (subst (asm) send_loop.simps, subst send_loop.simps)
      (use 1(1,2) in \<open>fastforce simp: Let_def split: option.splits attempt.splits prod.splits if_splits\<close>)
qed

text \<open>One round adds one sending at most, and goes on with less time.\<close>

lemma send_loop_round:
  "length (fst (send_loop cfg k link addr expires tries now)) \<le> n"
  if more_rounds: "\<And>delay t. (if tries > 0 then retry_pause (expires - now) tries else Some 0) = Some delay \<Longrightarrow> now + delay \<le> t \<Longrightarrow>
        Suc (length (fst (send_loop cfg k link addr expires (Suc tries) t))) \<le> n"
proof (cases "if tries > 0 then retry_pause (expires - now) tries else Some 0")
  case None
  then show ?thesis by (subst send_loop.simps) simp
next
  case (Some delay)
  define later where "later = (if tries > 0 then now + delay + int (oversleep link tries) else now)"
  have "delay = 0 \<or> tries > 0" using Some by (auto split: if_splits)
  then have "now + delay \<le> later" by (auto simp: later_def)
  then have rest: "Suc (length (fst (send_loop cfg k link addr expires (Suc tries) t))) \<le> n" if "later \<le> t" for t
    using more_rounds [OF Some, of t] that by simp
  have run: "send_loop cfg k link addr expires tries now =
      (case attempt cfg k link addr expires (Suc tries) later of
         Try_again t \<Rightarrow> send_loop cfg k link addr expires (Suc tries) t
       | Break_off \<Rightarrow> ([], False)
       | Sent s ok t \<Rightarrow> if ok then ([s], True)
           else (let (ss, res) = send_loop cfg k link addr expires (Suc tries) t in (s # ss, res)))"
    by (subst send_loop.simps) (simp add: Some Let_def later_def)
  show ?thesis
  proof (cases "attempt cfg k link addr expires (Suc tries) later")
    case (Try_again t)
    then show ?thesis using rest [of t] attempt_later(1) by (simp add: run)
  next
    case Break_off
    then show ?thesis by (simp add: run)
  next
    case (Sent s ok t)
    then show ?thesis
      using rest [of t] attempt_later(2) [OF Sent] by (auto simp: run split: prod.splits)
  qed
qed

definition time_left :: "nat \<Rightarrow> int" where
  "time_left tries = [60, 60, 58, 54, 46, 30, 1] ! tries * second"

lemma pause_uses_time:
  assumes "0 < tries" and "tries \<le> 6" and "expiry \<le> time_left tries"
    and "retry_pause expiry tries = Some delay"
  shows "tries < 6 \<and> expiry - delay \<le> time_left (Suc tries)"
proof -
  have "tries = 1 \<or> tries = 2 \<or> tries = 3 \<or> tries = 4 \<or> tries = 5 \<or> tries = 6" using assms(1,2) by arith
  then show ?thesis
    using assms(3,4) by (elim disjE) (auto simp: retry_pause_def time_left_def second_def Let_def
        signed_take_bit_int_eq_self split: if_splits)
qed

lemma sends_bounded:
  assumes "0 < tries" and "tries \<le> 6" and "expires - now \<le> time_left tries"
  shows "length (fst (send_loop cfg k link addr expires tries now)) \<le> 6 - tries"
  using assms
proof (induction "6 - tries" arbitrary: tries now)
  case 0
  then show ?case
    using pause_uses_time [of tries "expires - now"] by (intro send_loop_round) fastforce
next
  case (Suc n)
  show ?case
  proof (rule send_loop_round)
    fix delay t
    assume "(if tries > 0 then retry_pause (expires - now) tries else Some 0) = Some delay" "now + delay \<le> t"
    then have "expires - t \<le> time_left (Suc tries)"
      using pause_uses_time [of tries "expires - now" delay] Suc.prems by simp
    then have "length (fst (send_loop cfg k link addr expires (Suc tries) t)) \<le> 6 - Suc tries"
      using Suc.hyps(2) by (intro Suc.hyps(1)) auto
    then show "Suc (length (fst (send_loop cfg k link addr expires (Suc tries) t))) \<le> 6 - tries"
      using Suc.hyps(2) by simp
  qed
qed

text \<open>C28: Sending to a client ends in time. A message with a lifetime of at most one minute (all
  lifetimes of the program are) is sent six times at most, never after it has expired, and
  success is reported only if it was sent; the loop always ends, whatever the network does.\<close>

theorem message_is_not_sent_late:
  assumes "ttl \<le> 60 * second"
  shows "list_all (\<lambda>s. s \<le> called + max ttl (second div 10)) (fst (ClientTell cfg key link addr ttl called start)) \<and>
    (called \<le> start \<longrightarrow> length (fst (ClientTell cfg key link addr ttl called start)) \<le> 6) \<and>
    (snd (ClientTell cfg key link addr ttl called start) \<longrightarrow> fst (ClientTell cfg key link addr ttl called start) \<noteq> [])"
proof -
  let ?expires = "called + max ttl (second div 10)"
  have tell: "ClientTell cfg key link addr ttl called start =
      (if ?expires < start then ([], False) else send_loop cfg key link addr ?expires 0 start)"
    by (simp add: ClientTell_def Let_def max_def)
  have "length (fst (send_loop cfg key link addr ?expires 0 start)) \<le> 6" if "called \<le> start"
  proof (rule send_loop_round)
    fix delay t
    assume "(if 0 < (0::nat) then retry_pause (?expires - start) 0 else Some 0) = Some delay" "start + delay \<le> t"
    then have "?expires - t \<le> time_left 1"
      using assms that by (simp add: time_left_def max_def second_def split: if_splits)
    from sends_bounded [OF _ _ this] show
      "Suc (length (fst (send_loop cfg key link addr ?expires (Suc 0) t))) \<le> 6"
      by (simp add: order_le_less_trans)
  qed
  then show ?thesis
    using sends_in_time [of ?expires cfg key link addr 0 start] success_sends
    by (auto simp: tell)
qed

section \<open>Registration: lemmas\<close>

definition leaf :: "hash \<Rightarrow> string \<times> string" where
  "leaf c = (Name c, own_text c)"

definition leaf_size :: "string \<times> string \<Rightarrow> int" where
  "leaf_size l = int (length (snd l) + length (fst l))"

definition infos_of :: "hash \<Rightarrow> (string \<times> string) list" where
  "infos_of xmlmsg = filter (\<lambda>l. fst l \<notin> set special_elements) (map leaf (children xmlmsg))"

lemma children_Add: "map leaf (children (Add t [v] h)) = map leaf (children h) @ [(t, v)]"
proof -
  have "Name (SetText [v] (NewHash t [])) = t" "own_text (SetText [v] (NewHash t [])) = v" by simp_all
  then show ?thesis by (simp add: Add_def AddWithOwnership_def leaf_def)
qed

lemma copy_info_prefix:
  "\<exists>n. map leaf (children (copy_info max_element rest infos client)) =
      map leaf (children client) @ take n (filter (\<lambda>l. fst l \<notin> set special_elements) (map leaf infos)) \<and>
    sum_list (map leaf_size (take n (filter (\<lambda>l. fst l \<notin> set special_elements) (map leaf infos)))) \<le> max 0 rest \<and>
    list_all (\<lambda>l. leaf_size l \<le> max_element)
      (take n (filter (\<lambda>l. fst l \<notin> set special_elements) (map leaf infos)))"
proof (induction max_element rest infos client rule: copy_info.induct)
  case (1 max_element rest client)
  then show ?case by simp
next
  case (2 max_element rest info infos client)
  let ?used = "int (length (own_text info) + length (Name info))"
  show ?case
  proof (cases "Name info \<in> set special_elements")
    case True
    with 2(1) show ?thesis by (simp add: leaf_def)
  next
    case ordinary: False
    show ?thesis
    proof (cases "?used > max_element \<or> rest - ?used < 0")
      case True
      then have "copy_info max_element rest (info # infos) client = client"
        using ordinary by (auto simp: Let_def)
      then show ?thesis by (intro exI [of _ 0]) simp
    next
      case False
      define rest_leaves where "rest_leaves = filter (\<lambda>l. fst l \<notin> set special_elements) (map leaf infos)"
      obtain n where n: "map leaf (children (copy_info max_element (rest - ?used) infos
            (Add (Name info) [own_text info] client))) =
          map leaf (children (Add (Name info) [own_text info] client)) @ take n rest_leaves"
        "sum_list (map leaf_size (take n rest_leaves)) \<le> max 0 (rest - ?used)"
        "list_all (\<lambda>l. leaf_size l \<le> max_element) (take n rest_leaves)"
        using 2(2) [OF ordinary refl] False unfolding rest_leaves_def by auto
      moreover have "copy_info max_element rest (info # infos) client =
          copy_info max_element (rest - ?used) infos (Add (Name info) [own_text info] client)"
        using ordinary False by (simp add: Let_def)
      moreover have kept: "filter (\<lambda>l. fst l \<notin> set special_elements) (map leaf (info # infos)) =
          leaf info # rest_leaves"
        using ordinary by (simp add: leaf_def rest_leaves_def)
      moreover have size: "leaf_size (leaf info) = ?used" by (simp add: leaf_def leaf_size_def)
      moreover have "(Name info, own_text info) = leaf info" by (simp add: leaf_def)
      ultimately have step: "map leaf (children (copy_info max_element rest (info # infos) client)) =
          map leaf (children client) @ leaf info # take n rest_leaves"
        by (simp only: n(1) children_Add append.assoc append.simps)
      show ?thesis
        unfolding kept step using False n(2,3) size by (intro exI [of _ "Suc n"]) simp
    qed
  qed
qed

definition client_basics :: "client_site \<Rightarrow> string \<Rightarrow> string \<Rightarrow> string \<Rightarrow> (string \<times> string) list" where
  "client_basics cfg client_addr macaddress key =
     [(''header'', ''new_foreign_client''), (''new_foreign_client'', []), (''source'', own_address cfg),
      (''target'', own_address cfg), (''client'', client_addr), (''macaddress'', macaddress), (''key'', key)]"

lemma leaf_new [simp]: "leaf (SetText [v] (NewHash t [])) = (t, v)" "leaf (SetText [] (NewHash t [])) = (t, [])"
  by (simp_all add: leaf_def)

lemma children_Add0: "map leaf (children (Add t [] h)) = map leaf (children h) @ [(t, [])]"
proof -
  have "Name (SetText [] (NewHash t [])) = t" "own_text (SetText [] (NewHash t [])) = []" by simp_all
  then show ?thesis by (simp add: Add_def AddWithOwnership_def leaf_def)
qed

lemma new_foreign_client_copies:
  obtains client where "new_foreign_client_message cfg client_addr macaddress m =
      copy_info (HIAMaxElementSize cfg) (HIAMaxInfoSize cfg) (children m) client"
    and "map leaf (children client) = client_basics cfg client_addr macaddress (text_of ''new_passwd'' m)"
    and "Name client = ''xml''"
proof -
  define client where "client = Add ''key'' [text_of ''new_passwd'' m] (Add ''macaddress'' [macaddress]
    (Add ''client'' [client_addr] (Add ''target'' [own_address cfg] (Add ''source'' [own_address cfg]
      (Add ''new_foreign_client'' [] (NewHash ''xml'' [''header'', ''new_foreign_client'']))))))"
  have "map leaf (children (NewHash ''xml'' [''header'', ''new_foreign_client''])) = [(''header'', ''new_foreign_client'')]"
    by (simp add: leaf_def AddWithOwnership_def)
  then have "map leaf (children client) = client_basics cfg client_addr macaddress (text_of ''new_passwd'' m)"
    by (simp add: client_def children_Add children_Add0 client_basics_def del: NewHash.simps)
  moreover have "new_foreign_client_message cfg client_addr macaddress m =
      copy_info (HIAMaxElementSize cfg) (HIAMaxInfoSize cfg) (children m) client"
    by (simp add: new_foreign_client_message_def Let_def client_def del: NewHash.simps)
  moreover have "Name client = ''xml''" by (simp add: client_def)
  ultimately show thesis using that by blast
qed

text \<open>What a client tells of itself is bounded. The entry that is stored and sent to the
  peers consists of the seven fixed elements and a beginning of the other elements of the
  message, in their order, none of which is longer than HIAMaxElementSize, and which together
  are not longer than HIAMaxInfoSize.\<close>

theorem stored_info_is_bounded:
  "\<exists>n. map leaf (children (new_foreign_client_message cfg client_addr macaddress m)) =
      client_basics cfg client_addr macaddress (text_of ''new_passwd'' m) @ take n (infos_of m) \<and>
    sum_list (map leaf_size (take n (infos_of m))) \<le> max 0 (HIAMaxInfoSize cfg) \<and>
    list_all (\<lambda>l. leaf_size l \<le> HIAMaxElementSize cfg) (take n (infos_of m))"
proof -
  obtain client where "new_foreign_client_message cfg client_addr macaddress m =
      copy_info (HIAMaxElementSize cfg) (HIAMaxInfoSize cfg) (children m) client"
    "map leaf (children client) = client_basics cfg client_addr macaddress (text_of ''new_passwd'' m)"
    by (rule new_foreign_client_copies)
  then show ?thesis
    using copy_info_prefix [of "HIAMaxElementSize cfg" "HIAMaxInfoSize cfg" "children m" client]
    by (simp add: infos_of_def)
qed

lemma get1_leaf: "get1 t h = map snd (filter (\<lambda>l. fst l = t) (map leaf (children h)))"
  by (simp add: get1_eq filter_map o_def leaf_def)

lemma copy_info_complete:
  assumes "list_all (\<lambda>l. leaf_size l \<le> max_element) (filter (\<lambda>l. fst l \<notin> set special_elements) (map leaf infos))"
    and "sum_list (map leaf_size (filter (\<lambda>l. fst l \<notin> set special_elements) (map leaf infos))) \<le> rest"
  shows "map leaf (children (copy_info max_element rest infos client)) =
    map leaf (children client) @ filter (\<lambda>l. fst l \<notin> set special_elements) (map leaf infos)"
  using assms
proof (induction infos arbitrary: rest client)
  case Nil
  then show ?case by simp
next
  case (Cons info infos)
  let ?ordinary = "\<lambda>l. fst l \<notin> set special_elements"
  have fst_leaf: "fst (leaf c) = Name c" for c by (simp add: leaf_def)
  have nonneg: "0 \<le> sum_list (map leaf_size ls)" for ls
    by (induction ls) (simp_all add: leaf_size_def)
  show ?case
  proof (cases "Name info \<in> set special_elements")
    case True
    then show ?thesis using Cons by (simp add: fst_leaf)
  next
    case False
    have size: "leaf_size (leaf info) = int (length (own_text info) + length (Name info))"
      by (simp add: leaf_def leaf_size_def)
    have kept: "filter ?ordinary (map leaf (info # infos)) = leaf info # filter ?ordinary (map leaf infos)"
      using False by (simp add: fst_leaf)
    have run: "copy_info max_element rest (info # infos) client =
        copy_info max_element (rest - leaf_size (leaf info)) infos (Add (Name info) [own_text info] client)"
      using Cons.prems False nonneg [of "filter ?ordinary (map leaf infos)"]
      unfolding kept by (simp add: size Let_def)
    have "(Name info, own_text info) = leaf info" by (simp add: leaf_def)
    moreover have "map leaf (children (copy_info max_element (rest - leaf_size (leaf info)) infos
          (Add (Name info) [own_text info] client))) =
        map leaf (children (Add (Name info) [own_text info] client)) @ filter ?ordinary (map leaf infos)"
      using Cons.prems unfolding kept by (intro Cons.IH) simp_all
    ultimately show ?thesis unfolding run kept by (simp only: children_Add append.assoc append.simps)
  qed
qed

definition fits :: "client_site \<Rightarrow> hash \<Rightarrow> bool" where
  "fits cfg m \<longleftrightarrow> list_all (\<lambda>l. leaf_size l \<le> HIAMaxElementSize cfg) (infos_of m) \<and>
     sum_list (map leaf_size (infos_of m)) \<le> HIAMaxInfoSize cfg"

lemma new_foreign_client_leaves:
  assumes "fits cfg m"
  shows "map leaf (children (new_foreign_client_message cfg client_addr macaddress m)) =
    client_basics cfg client_addr macaddress (text_of ''new_passwd'' m) @ infos_of m"
proof -
  obtain client where "new_foreign_client_message cfg client_addr macaddress m =
      copy_info (HIAMaxElementSize cfg) (HIAMaxInfoSize cfg) (children m) client"
    "map leaf (children client) = client_basics cfg client_addr macaddress (text_of ''new_passwd'' m)"
    by (rule new_foreign_client_copies)
  then show ?thesis
    using assms copy_info_complete [of "HIAMaxElementSize cfg" "children m" "HIAMaxInfoSize cfg" client]
    by (simp add: infos_of_def fits_def)
qed

lemma Name_copy_info: "Name (copy_info max_element rest infos client) = Name client"
  by (induction infos arbitrary: rest client) (simp_all add: Let_def)

lemma Name_new_foreign_client: "Name (new_foreign_client_message cfg client_addr macaddress m) = ''xml''"
  using new_foreign_client_copies [of cfg client_addr macaddress m] by (metis Name_copy_info)

lemma in_concat_map: "y \<in> set ys \<Longrightarrow> k \<in> set (f y) \<Longrightarrow> k \<in> set (concat (map f ys))"
  by auto

lemma Join_nonempty: "x \<noteq> [] \<Longrightarrow> Join (x # xs) sep \<noteq> []"
  by (cases xs) simp_all

lemma valid_mac_nonempty: "valid_mac m \<Longrightarrow> m \<noteq> []"
proof -
  have "\<not> valid_mac []" by code_simp
  then show "valid_mac m \<Longrightarrow> m \<noteq> []" by metis
qed

text \<open>The clients after the handler: all but the registration leaves them alone.\<close>

lemma here_i_am_stores:
  assumes "here_i_am cfg env ids add_timestamp now now_ts rnd m w = Returns w'"
    and "valid_mac (text_of ''mac_address'' m)"
    and "\<not> snd (throttled cfg now rnd (text_of ''source'' m) (text_of ''mac_address'' m) (hellos w))"
  shows "clients w' = (case ClientUpdate (own_address cfg) (new_foreign_client_message cfg (text_of ''source'' m)
      (text_of ''mac_address'' m) m) (clients w) of Inl err \<Rightarrow> clients w | Inr c \<Rightarrow> c)"
  using assms
  by (auto simp: here_i_am_def Let_def and_then_Returns does_def
      split: prod.splits sum.splits option.splits system_error.splits if_splits)


definition example_site :: client_site where
  "example_site = \<lparr>Process = example_cfg, Systems = example_system_config, UseTLS = False, HIAMaxInfoSize = 10000,
     HIAMaxElementSize = 1000, FullQualifiedCN = False, CNAutoPrefix = ''auto-'', CNAutoSuffix = [],
     CNRenameBlacklist = [], IncomingOU = ''ou=incoming,c=de'', AdminBase = [], Department = []\<rparr>"

text \<open>A client that can be reached, but every sending fails after ten seconds.\<close>

definition example_client_link :: client_link where
  "example_client_link = \<lparr>oversleep = (\<lambda>n. 0),
     entry_at = (\<lambda>n. Some (Add ''key'' [''k''] (NewHash ''xml'' [''source'', ''10.0.0.1:20081'']))),
     connecting = (\<lambda>n. (True, 0)), sending = (\<lambda>n. (False, 10 ^ 10))\<rparr>"

theorem message_is_not_sent_late_witness:
  "list_all (\<lambda>s. s \<le> 30 * second) (fst (ClientTell example_site [] example_client_link ''10.0.0.2:20083'' (30 * second) 0 0)) \<and>
    length (fst (ClientTell example_site [] example_client_link ''10.0.0.2:20083'' (30 * second) 0 0)) \<le> 6"
proof -
  have "30 * second \<le> 60 * second" "max (30 * second) (second div 10) = 30 * second"
    by (simp_all add: second_def)
  with message_is_not_sent_late [of "30 * second" 0 example_site "[]" example_client_link "''10.0.0.2:20083''" 0]
  show ?thesis by simp
qed

definition example_world :: world where
  "example_world = \<lparr>clients = ClientsInit ''10.0.0.1:20081'' None, hellos = Map.empty,
     server_db = NewHash ''serverdb'' [], job_db = example_jobdb, peer_links = [], effects = []\<rparr>"

definition example_hello :: hash where
  "example_hello = Hash ''xml'' [Sub (Hash ''header'' [Txt ''here_i_am'']), Sub (Hash ''source'' [Txt ''10.0.0.66:20083'']),
     Sub (Hash ''mac_address'' [Txt ''00:11:22:33:44:5a'']), Sub (Hash ''new_passwd'' [Txt ''evil'']),
     Sub (Hash ''client'' [Txt ''10.0.0.2:20083''])]"

lemma no_directory: "SystemGetAllDataForMAC cfg (example_directory (\<lambda>a. Inl err)) mac groups = Inl (LookupError err)"
  by (simp add: SystemGetAllDataForMAC_def example_directory_def)


text \<open>
  The final lookup of a new system. If it fails, although the changes were made, a nil pointer is
  used; and a failing first lookup counts as a system that does not exist.
\<close>

lemma detected_hardware_without_ldap:
  assumes "identified (clients w) m (all_detected m) = Some (macaddress, detected)"
    and "with_cn_of_dn cfg (Clone (snd (with_ip m detected))) = Some system"
    and "\<And>old new. fst (SystemReplace (Systems cfg) (example_directory (\<lambda>a. Inl err)) old new) = None"
  shows "detected_hardware cfg (example_directory (\<lambda>a. Inl err)) (example_directory (\<lambda>a. Inl err)) compile m w =
    outcome.Panics"
  using assms by (simp add: detected_hardware_def case_prod_beta Let_def no_directory client_data_def)

section \<open>The settings of a client\<close>

definition ldap_servers :: "hash \<Rightarrow> (string \<times> string) list" where
  "ldap_servers system = List.map_filter gotoLdapServer (get1 ''gotoldapserver'' system)"

definition filter_of_tag :: "string \<Rightarrow> string" where
  "filter_of_tag tag = (if tag = [] then [] else ''(gosaUnitTag='' @ tag @ '')'')"

lemma First_own_text: "map_option own_text (First t h) = (case get1 t h of [] \<Rightarrow> None | v # vs \<Rightarrow> Some v)"
proof -
  have "map_option own_text (find P cs) = (case map own_text (filter P cs) of [] \<Rightarrow> None | v # vs \<Rightarrow> Some v)" for P cs
    by (induction cs) simp_all
  then show ?thesis by (simp add: First_eq_find get1_eq)
qed

lemma add_ldap_server_other: "t \<noteq> ''ldap_uri'' \<Longrightarrow> t \<noteq> ''ldap_base'' \<Longrightarrow>
    get1 t (fold add_ldap_server es msg) = get1 t msg"
  by (induction es arbitrary: msg)
    (simp_all add: add_ldap_server_def Let_def get1_Add_other split: option.split prod.split)

lemma add_ldap_server_fields:
  "get1 ''ldap_uri'' (add_ldap_server e msg) =
      get1 ''ldap_uri'' msg @ (case gotoLdapServer e of None \<Rightarrow> [] | Some (u, b) \<Rightarrow> [u])"
    "get1 ''ldap_base'' (add_ldap_server e msg) = get1 ''ldap_base'' msg @
      (if get1 ''ldap_base'' msg = [] then (case gotoLdapServer e of None \<Rightarrow> [] | Some (u, b) \<Rightarrow> [b]) else [])"
  by (simp_all add: add_ldap_server_def Let_def First_get1 split: option.split prod.split)

lemma add_ldap_servers:
  "get1 ''ldap_uri'' (fold add_ldap_server es msg) = get1 ''ldap_uri'' msg @ map fst (List.map_filter gotoLdapServer es)"
  "get1 ''ldap_base'' (fold add_ldap_server es msg) =
    (if get1 ''ldap_base'' msg = [] then take 1 (map snd (List.map_filter gotoLdapServer es)) else get1 ''ldap_base'' msg)"
proof (induction es arbitrary: msg)
  case Nil
  case 1 show ?case by (simp add: map_filter_simps)
  case 2 show ?case by (simp add: map_filter_simps)
next
  case (Cons e es)
  case 1 show ?case using Cons(1) [of "add_ldap_server e msg"]
    by (simp add: add_ldap_server_fields map_filter_simps split: option.split prod.split)
  case 2 show ?case using Cons(2) [of "add_ldap_server e msg"]
    by (auto simp: add_ldap_server_fields map_filter_simps split: option.split prod.split)
qed

text \<open>The fields of the message.\<close>

lemma new_ldap_config_fields:
  "get1 ''ldap_uri'' (new_ldap_config_message cfg addr system) =
    (if ldap_servers system = [] then [LDAPURI (own_ldap cfg)] else map fst (ldap_servers system))"
  "get1 ''ldap_base'' (new_ldap_config_message cfg addr system) =
    (if ldap_servers system = [] then [LDAPBase (own_ldap cfg)] else [snd (hd (ldap_servers system))])"
  "get1 ''unit_tag'' (new_ldap_config_message cfg addr system) =
    (if UnitTag (own_ldap cfg) = [] then [] else [UnitTag (own_ldap cfg)])"
proof -
  have new: "get1 t (NewHash ''xml'' [''header'', ''new_ldap_config'']) = []" if "t \<noteq> ''header''" for t
    using that by (simp add: get1_eq AddWithOwnership_def)
  show "get1 ''ldap_uri'' (new_ldap_config_message cfg addr system) =
    (if ldap_servers system = [] then [LDAPURI (own_ldap cfg)] else map fst (ldap_servers system))"
    by (simp add: new_ldap_config_message_def Let_def First_get1 add_ldap_servers new ldap_servers_def del: NewHash.simps)
  show "get1 ''ldap_base'' (new_ldap_config_message cfg addr system) =
    (if ldap_servers system = [] then [LDAPBase (own_ldap cfg)] else [snd (hd (ldap_servers system))])"
    by (simp add: new_ldap_config_message_def Let_def First_get1 add_ldap_servers new ldap_servers_def take_Suc
        hd_map del: NewHash.simps)
  show "get1 ''unit_tag'' (new_ldap_config_message cfg addr system) =
    (if UnitTag (own_ldap cfg) = [] then [] else [UnitTag (own_ldap cfg)])"
    by (simp add: new_ldap_config_message_def Let_def First_get1 add_ldap_server_other add_ldap_servers new del: NewHash.simps)
qed

text \<open>The settings of a client follow its server. After the message new_ldap_config that the
  server makes for it, a client uses the first usable LDAP server of its entry (the server's own
  if there is none) with its base, has the server's unit tag and filters by that tag, also
  when the server has none.\<close>

theorem settings_follow_the_server:
  assumes "UnitTagFilter (settings st) = filter_of_tag (UnitTag (settings st))"
    and "updateInternalLdapSettings (new_ldap_config_message cfg addr system) st = st'"
  shows "(LDAPURI (settings st'), LDAPBase (settings st')) =
      (case ldap_servers system @ [(LDAPURI (own_ldap cfg), LDAPBase (own_ldap cfg))] of
         (uri, base) # others \<Rightarrow> (changed (LDAPURI (settings st)) uri, changed (LDAPBase (settings st)) base)) \<and>
    UnitTag (settings st') = UnitTag (own_ldap cfg) \<and>
    UnitTagFilter (settings st') = filter_of_tag (UnitTag (own_ldap cfg))"
proof -
  let ?m = "new_ldap_config_message cfg addr system"
  have "map_option own_text (First ''ldap_uri'' ?m) =
      Some (if ldap_servers system = [] then LDAPURI (own_ldap cfg) else fst (hd (ldap_servers system)))"
    by (cases "ldap_servers system") (simp_all add: First_own_text new_ldap_config_fields)
  then obtain u where u: "First ''ldap_uri'' ?m = Some u"
    "own_text u = (if ldap_servers system = [] then LDAPURI (own_ldap cfg) else fst (hd (ldap_servers system)))"
    by auto
  have texts: "text_of ''ldap_base'' ?m =
      (if ldap_servers system = [] then LDAPBase (own_ldap cfg) else snd (hd (ldap_servers system)))"
    "text_of ''unit_tag'' ?m = UnitTag (own_ldap cfg)"
    by (simp_all add: text_of_eq new_ldap_config_fields)
  show ?thesis
    using assms(1) unfolding assms(2) [symmetric]
    by (cases "ldap_servers system")
      (auto simp: updateInternalLdapSettings_def Let_def u texts changed_def filter_of_tag_def)
qed

theorem settings_follow_the_server_witness:
  "UnitTagFilter (settings (updateInternalLdapSettings (new_ldap_config_message example_site ''10.0.0.2:20083''
      (Hash ''xml'' [])) \<lparr>settings = example_ldap\<lparr>UnitTag := ''42'', UnitTagFilter := ''(gosaUnitTag=42)''\<rparr>,
        admin_base = [], department = []\<rparr>)) = []"
proof -
  let ?st = "\<lparr>settings = example_ldap\<lparr>UnitTag := ''42'', UnitTagFilter := ''(gosaUnitTag=42)''\<rparr>,
        admin_base = [], department = []\<rparr> :: ldap_settings"
  have "UnitTagFilter (settings ?st) = filter_of_tag (UnitTag (settings ?st))" by code_simp
  from settings_follow_the_server [OF this refl, of example_site "''10.0.0.2:20083''" "Hash ''xml'' []"] show ?thesis
    by (simp add: filter_of_tag_def example_site_def example_system_config_def example_ldap_def)
qed

end
