(* ===== verification/AuditFiles.thy ===== *)
theory AuditFiles
  imports GoStrings
begin

text \<open>
  The stored audit data of go-susi/db/audit.go: which audit of a machine is looked at, the
  reader of the audit files, which calls a function for each entry, and the search tree that
  maps the names of elements to columns.

  A file is read as a byte slice. \<open>spare\<close> is what lies behind its end within its capacity: a
  slice expression may reach into it, an index must stay before the end. None stands for a
  panic, which the code catches with recover.
\<close>

section \<open>Names of files\<close>

definition is_hex_lower :: "char \<Rightarrow> bool" where
  "is_hex_lower c \<longleftrightarrow> is_digit c \<or> CHR ''a'' \<le> c \<and> c \<le> CHR ''f''"

fun hex_pairs :: "string \<Rightarrow> bool" where
  "hex_pairs (a # b # s) =
     (is_hex_lower a \<and> is_hex_lower b \<and>
      (case s of [] \<Rightarrow> True | c # s' \<Rightarrow> c = CHR '':'' \<and> hex_pairs s'))"
| "hex_pairs s = False"

definition isMAC :: "string \<Rightarrow> bool" where
  "isMAC s \<longleftrightarrow> length s = 17 \<and> hex_pairs s"

definition isAudit :: "string \<Rightarrow> bool" where
  "isAudit s \<longleftrightarrow> \<not> length s < 20 \<and> take 6 s = ''audit_'' \<and>
     list_all (\<lambda>c. c = CHR ''_'' \<or> is_digit c) (drop 6 s) \<and>
     length (filter (\<lambda>c. c \<noteq> CHR ''_'') (drop 6 s)) = 14"

abbreviation no_underscores :: "string \<Rightarrow> string" where
  "no_underscores \<equiv> dropWhile (\<lambda>c. c = CHR ''_'')"

text \<open>One of the two loops of \<open>isInTimestampRange\<close>: \<open>wrong\<close> is the order in which it gives up.\<close>

function range_loop :: "(char \<Rightarrow> char \<Rightarrow> bool) \<Rightarrow> string \<Rightarrow> string \<Rightarrow> bool" where
  "range_loop wrong s t =
     (case (no_underscores s, no_underscores t) of
        (a # s', b # t') \<Rightarrow> if wrong a b then False else if wrong b a then True else range_loop wrong s' t'
      | _ \<Rightarrow> True)"
  by pat_completeness auto
termination range_loop
proof (relation "measure (\<lambda>(wrong, s, t). length s)")
  fix wrong s t and x y :: string and a s' b t'
  assume "(x, y) = (no_underscores s, no_underscores t)" "x = a # s'"
  then have "length (a # s') \<le> length s" using length_dropWhile_le by (metis prod.inject)
  then show "((wrong, s', t'), wrong, s, t) \<in> measure (\<lambda>(wrong, s, t). length s)" by simp
qed simp

declare range_loop.simps [simp del]

definition isInTimestampRange :: "string \<Rightarrow> string \<Rightarrow> string \<Rightarrow> bool" where
  "isInTimestampRange s timestamp1 timestamp2 \<longleftrightarrow>
     range_loop (\<lambda>a b. a < b) (drop 6 s) timestamp1 \<and> range_loop (\<lambda>a b. a > b) (drop 6 s) timestamp2"

definition auditFilenameToTimestamp :: "string \<Rightarrow> string" where
  "auditFilenameToTimestamp = filter is_digit"

section \<open>Reading bytes\<close>

definition at :: "string \<Rightarrow> nat \<Rightarrow> char option" where
  "at data i = (if i < length data then Some (data ! i) else None)"

definition slice :: "string \<Rightarrow> string \<Rightarrow> nat \<Rightarrow> nat \<Rightarrow> string option" where
  "slice data spare i k =
     (if i \<le> k \<and> k \<le> length data + length spare then Some (take (k - i) (drop i (data @ spare))) else None)"

text \<open>\<open>for p(data[i]) { i++ }\<close>\<close>

definition skip :: "(char \<Rightarrow> bool) \<Rightarrow> string \<Rightarrow> nat \<Rightarrow> nat option" where
  "skip p data i =
     (let j = i + length (takeWhile p (drop i data)) in if j < length data then Some j else None)"

definition nextTag :: "string \<Rightarrow> nat \<Rightarrow> nat option" where
  "nextTag = skip (\<lambda>c. c \<noteq> CHR ''<'')"

lemma skip_bounds: "skip p data i = Some j \<Longrightarrow> i \<le> j \<and> j < length data \<and> \<not> p (data ! j)"
proof -
  assume "skip p data i = Some j"
  then have j: "j = i + length (takeWhile p (drop i data))" "j < length data"
    by (auto simp: skip_def Let_def split: if_splits)
  then have "length (takeWhile p (drop i data)) < length (drop i data)" by simp
  from nth_length_takeWhile [OF this] j show ?thesis by simp
qed

section \<open>The first entry of a file\<close>

text \<open>The position of the first entry (-1: none or a panic, -2: not an audit file), and what was read before.\<close>

type_synonym first_entry = "int \<times> string \<times> string"

definition skip_unknown :: "string \<Rightarrow> nat \<Rightarrow> nat option" where
  "skip_unknown data i =
     Option.bind (nextTag data i) (\<lambda>i. map_option Suc (skip (\<lambda>c. c \<noteq> CHR ''>'') data i))"

text \<open>A known tag with its text: the position behind the end tag, and the text.\<close>

definition head_element :: "string \<Rightarrow> string \<Rightarrow> nat \<Rightarrow> string \<Rightarrow> (nat \<times> string option) option" where
  "head_element data spare i tag =
     Option.bind (slice data spare i (i + length tag)) (\<lambda>s.
       if s = tag
       then map_option (\<lambda>j. (j + length tag + 2, slice data spare (i + length tag) j)) (nextTag data (i + length tag))
       else map_option (\<lambda>j. (j, None)) (skip_unknown data i))"

lemma skip_unknown_later: "skip_unknown data i = Some j \<Longrightarrow> i < j \<and> j \<le> length data"
  by (auto simp: skip_unknown_def nextTag_def Option.bind_eq_Some_conv dest!: skip_bounds)

lemma head_element_later: "head_element data spare i tag = Some (j, v) \<Longrightarrow> i < j"
  by (fastforce simp: head_element_def nextTag_def Option.bind_eq_Some_conv
      dest!: skip_bounds skip_unknown_later split: if_splits)

function find_entry :: "string \<Rightarrow> string \<Rightarrow> nat \<Rightarrow> string \<Rightarrow> string \<Rightarrow> first_entry" where
  "find_entry data spare i ipaddress hostname =
     (case skip (\<lambda>c. c \<le> CHR ''<'') data i of
        None \<Rightarrow> (-1, ipaddress, hostname)
      | Some i \<Rightarrow>
          (let c = data ! i in
           if c = CHR ''h'' then
             (case head_element data spare i ''hostname>'' of
                None \<Rightarrow> (-1, ipaddress, hostname)
              | Some (j, v) \<Rightarrow>
                  find_entry data spare j ipaddress (case v of None \<Rightarrow> hostname | Some h \<Rightarrow> h))
           else if c = CHR ''i'' then
             (case head_element data spare i ''ipaddress>'' of
                None \<Rightarrow> (-1, ipaddress, hostname)
              | Some (j, v) \<Rightarrow>
                  find_entry data spare j (case v of None \<Rightarrow> ipaddress | Some a \<Rightarrow> a) hostname)
           else if c = CHR ''e'' \<and> slice data spare i (i + 6) = None then (-1, ipaddress, hostname)
           else if c = CHR ''e'' \<and> slice data spare i (i + 6) = Some ''entry>'' then (int i - 1, ipaddress, hostname)
           else
             (case skip_unknown data i of
                None \<Rightarrow> (-1, ipaddress, hostname)
              | Some j \<Rightarrow> find_entry data spare j ipaddress hostname)))"
  by pat_completeness auto
termination find_entry
  by (relation "measure (\<lambda>(data, spare, i, ip, host). length data - i)")
    (auto dest!: skip_bounds head_element_later skip_unknown_later)

declare find_entry.simps [simp del]

definition findFirstEntry :: "string \<Rightarrow> string \<Rightarrow> first_entry" where
  "findFirstEntry data spare =
     (case
        Option.bind
          (Option.bind (at data 0) (\<lambda>c.
             if c \<noteq> CHR ''<'' then Some 0
             else Option.bind (at data 1) (\<lambda>d.
               if d = CHR ''?'' then map_option Suc (skip (\<lambda>c. c \<noteq> CHR ''>'') data 2) else Some 0))) (\<lambda>i.
        Option.bind (skip (\<lambda>c. c \<le> CHR '' '') data i) (\<lambda>i.
          map_option (Pair i) (slice data spare i (i + 7))))
      of
        None \<Rightarrow> (-1, [], [])
      | Some (i, s) \<Rightarrow> if s \<noteq> ''<audit>'' then (-2, [], []) else find_entry data spare (i + 7) [] [])"

section \<open>The search tree\<close>

text \<open>\<open>name\<close> is empty for an inner node.\<close>

datatype elementTree = ElementTree (name: string) (index: int) (link: "char \<Rightarrow> elementTree option")

definition empty_tree :: elementTree where
  "empty_tree = ElementTree [] 0 (\<lambda>c. None)"

definition tree_leaf :: "string \<Rightarrow> int \<Rightarrow> elementTree" where
  "tree_leaf n p = ElementTree n p (\<lambda>c. None)"

definition set_link :: "char \<Rightarrow> elementTree \<Rightarrow> elementTree \<Rightarrow> elementTree" where
  "set_link c e t = ElementTree (name t) (index t) ((link t)(c \<mapsto> e))"

text \<open>\<open>IndexOf\<close>: from a node, the rest of the name decides.\<close>

fun index_from :: "string \<Rightarrow> string \<Rightarrow> elementTree \<Rightarrow> int option" where
  "index_from n [] t = None"
| "index_from n (c # rest) t =
     (case link t c of
        None \<Rightarrow> Some (-1)
      | Some e \<Rightarrow>
          if name e \<noteq> [] then Some (if name e = n then index e else -1) else index_from n rest e)"

definition IndexOf :: "elementTree \<Rightarrow> string \<Rightarrow> int option" where
  "IndexOf t n = (if n = [] \<or> last n \<noteq> CHR ''>'' then Some (-1) else index_from n n t)"

text \<open>\<open>makePropTree\<close>: the loop that inserts one name; \<open>k\<close> is the length of what has been used of it.\<close>

fun insert_from :: "string \<Rightarrow> int \<Rightarrow> nat \<Rightarrow> string \<Rightarrow> elementTree \<Rightarrow> elementTree option" where
  "insert_from n p k [] t = None"
| "insert_from n p k (c # rest) t =
     (case link t c of
        None \<Rightarrow> Some (set_link c (tree_leaf n p) t)
      | Some e \<Rightarrow>
          if name e = [] then map_option (\<lambda>e'. set_link c e' t) (insert_from n p (Suc k) rest e)
          else if name e = n then Some t
          else
            (case at (name e) (Suc k) of
               None \<Rightarrow> None
             | Some d \<Rightarrow>
                 map_option (\<lambda>e'. set_link c e' t)
                   (insert_from n p (Suc k) rest
                     (ElementTree [] 0 ((link e)(d \<mapsto> tree_leaf (name e) (index e)))))))"

fun insert_names :: "int \<Rightarrow> string list \<Rightarrow> elementTree \<Rightarrow> elementTree option" where
  "insert_names p [] t = Some t"
| "insert_names p (n # ns) t =
     (if n = [] \<or> CHR ''>'' \<in> set n then insert_names (p + 1) ns t
      else Option.bind (insert_from (n @ ''>'') p 0 (n @ ''>'') t) (insert_names (p + 1) ns))"

definition makePropTree :: "string list \<Rightarrow> elementTree option" where
  "makePropTree props = insert_names 0 props empty_tree"

section \<open>The entries of a file\<close>

definition store :: "int \<Rightarrow> string \<Rightarrow> string list \<Rightarrow> string list option" where
  "store i v entry = (if 0 \<le> i \<and> nat i < length entry then Some (entry[nat i := v]) else None)"

definition store_if :: "int \<Rightarrow> string \<Rightarrow> string list \<Rightarrow> string list option" where
  "store_if i v entry = (if i \<ge> 0 then store i v entry else Some entry)"

text \<open>The walk through the tree along the bytes of the file: the leaf, if there is one.\<close>

fun locate :: "string \<Rightarrow> elementTree \<Rightarrow> elementTree option option" where
  "locate [] t = None"
| "locate (c # rest) t =
     (case link t c of
        None \<Rightarrow> Some None
      | Some e \<Rightarrow> if name e \<noteq> [] then Some (Some e) else locate rest e)"

text \<open>A tag that is not requested.\<close>

definition skip_element :: "string \<Rightarrow> nat \<Rightarrow> nat option" where
  "skip_element data i =
     Option.bind (skip (\<lambda>c. c \<noteq> CHR ''>'') data i) (\<lambda>i.
       Option.bind (if data ! (i - 1) \<noteq> CHR ''/'' then map_option Suc (nextTag data i) else Some i) (nextTag data))"

definition child_element ::
  "string \<Rightarrow> string \<Rightarrow> elementTree \<Rightarrow> nat \<Rightarrow> string list \<Rightarrow> (nat \<times> string list) option" where
  "child_element data spare tree i entry =
     Option.bind (locate (drop i data) tree) (\<lambda>leaf.
       case leaf of
         None \<Rightarrow> map_option (\<lambda>j. (j, entry)) (skip_element data i)
       | Some e \<Rightarrow>
           (let k = i + length (name e) in
            Option.bind (slice data spare i k) (\<lambda>s.
              if s = name e then
                Option.bind (nextTag data k) (\<lambda>j.
                  Option.bind (slice data spare k j) (\<lambda>v.
                    map_option (Pair (j + length (name e) + 2)) (store (index e) v entry)))
              else
                Option.bind (at data k) (\<lambda>c.
                  if c = CHR ''>'' \<and> at data (k - 1) = Some CHR ''/'' \<and>
                     slice data spare i (k - 1) = Some (butlast (name e))
                  then map_option (Pair (Suc k)) (store (index e) [] entry)
                  else map_option (\<lambda>j. (j, entry)) (skip_element data i)))))"

lemma skip_element_later: "skip_element data i = Some j \<Longrightarrow> i < j"
proof -
  assume "skip_element data i = Some j"
  then obtain m where m: "skip (\<lambda>c. c \<noteq> CHR ''>'') data i = Some m"
    and j: "Option.bind (if data ! (m - 1) \<noteq> CHR ''/'' then map_option Suc (nextTag data m) else Some m) (nextTag data) = Some j"
    by (auto simp: skip_element_def Option.bind_eq_Some_conv)
  from m have "i \<le> m" "data ! m = CHR ''>''" by (auto dest: skip_bounds)
  show ?thesis
  proof (cases "data ! (m - 1) \<noteq> CHR ''/''")
    case True
    then show ?thesis using j \<open>i \<le> m\<close>
      by (auto simp: nextTag_def Option.bind_eq_Some_conv dest!: skip_bounds)
  next
    case False
    with j have "nextTag data m = Some j" by simp
    then have "m \<le> j" "data ! j = CHR ''<''" by (auto simp: nextTag_def dest: skip_bounds)
    then have "m \<noteq> j" using \<open>data ! m = CHR ''>''\<close> by auto
    with \<open>i \<le> m\<close> \<open>m \<le> j\<close> show ?thesis by simp
  qed
qed

lemma child_element_later:
  assumes "child_element data spare tree i entry = Some (j, entry')"
  shows "i < j"
proof (cases "locate (drop i data) tree")
  case None
  with assms show ?thesis by (simp add: child_element_def)
next
  case (Some leaf)
  show ?thesis
  proof (cases leaf)
    case None
    with assms Some show ?thesis by (auto simp: child_element_def dest: skip_element_later)
  next
    case leaf_e: (Some e)
    let ?k = "i + length (name e)"
    have child: "Option.bind (slice data spare i ?k) (\<lambda>s.
        if s = name e then
          Option.bind (nextTag data ?k) (\<lambda>j.
            Option.bind (slice data spare ?k j) (\<lambda>v.
              map_option (Pair (j + length (name e) + 2)) (store (index e) v entry)))
        else
          Option.bind (at data ?k) (\<lambda>c.
            if c = CHR ''>'' \<and> at data (?k - 1) = Some CHR ''/'' \<and>
               slice data spare i (?k - 1) = Some (butlast (name e))
            then map_option (Pair (Suc ?k)) (store (index e) [] entry)
            else map_option (\<lambda>j. (j, entry)) (skip_element data i))) = Some (j, entry')"
      using assms Some leaf_e by (simp add: child_element_def Let_def)
    then obtain s where s: "slice data spare i ?k = Some s" by (auto simp: Option.bind_eq_Some_conv)
    show ?thesis
    proof (cases "s = name e")
      case True
      with child s obtain m where "nextTag data ?k = Some m" "j = m + length (name e) + 2"
        by (auto simp: Option.bind_eq_Some_conv)
      then show ?thesis by (auto simp: nextTag_def dest: skip_bounds)
    next
      case False
      with child s show ?thesis
        by (auto simp: Option.bind_eq_Some_conv dest: skip_element_later split: if_splits)
    qed
  qed
qed

text \<open>The children of one entry; the result is the position behind its end tag.\<close>

function entry_children ::
  "string \<Rightarrow> string \<Rightarrow> elementTree \<Rightarrow> nat \<Rightarrow> string list \<Rightarrow> (nat \<times> string list) option" where
  "entry_children data spare tree i entry =
     (case skip (\<lambda>c. c \<le> CHR ''<'') data i of
        None \<Rightarrow> None
      | Some i \<Rightarrow>
          if i = 0 then None
          else if data ! (i - 1) = CHR ''/'' then Some (i + 6, entry)
          else
            (case child_element data spare tree i entry of
               None \<Rightarrow> None
             | Some (j, entry) \<Rightarrow> entry_children data spare tree j entry))"
  by pat_completeness auto
termination entry_children
  by (relation "measure (\<lambda>(data, spare, tree, i, entry). length data - i)")
    (auto dest!: skip_bounds child_element_later)

lemma entry_children_later: "entry_children data spare tree i entry = Some (j, entry') \<Longrightarrow> i \<le> j"
proof (induction data spare tree i entry rule: entry_children.induct)
  case (1 data spare tree i entry)
  from 1(2) obtain m where m: "skip (\<lambda>c. c \<le> CHR ''<'') data i = Some m" and "m \<noteq> 0"
    by (subst (asm) entry_children.simps) (auto split: option.splits if_splits)
  then have "i \<le> m" by (simp add: skip_bounds)
  show ?case
  proof (cases "data ! (m - 1) = CHR ''/''")
    case True
    then have "j = m + 6" using 1(2) m \<open>m \<noteq> 0\<close> by (subst (asm) entry_children.simps) simp
    with \<open>i \<le> m\<close> show ?thesis by simp
  next
    case False
    with 1(2) m \<open>m \<noteq> 0\<close> obtain n e where n: "child_element data spare tree m entry = Some (n, e)"
      and "entry_children data spare tree n e = Some (j, entry')"
      by (subst (asm) entry_children.simps) (auto split: option.splits)
    with 1(1) [OF m \<open>m \<noteq> 0\<close> False n refl] have "n \<le> j" by simp
    with child_element_later [OF n] \<open>i \<le> m\<close> show ?thesis by simp
  qed
qed

declare entry_children.simps [simp del]

text \<open>\<open>auditScanFile\<close>: the calls of the function, in order, until the end or a panic.\<close>

record scan_defaults =
  def_mac :: string
  def_ip :: string
  def_host :: string
  def_last :: string

text \<open>The columns of these four names; an index of -1 means not requested.\<close>

definition new_entry :: "elementTree \<Rightarrow> nat \<Rightarrow> scan_defaults \<Rightarrow> string list option" where
  "new_entry tree entrysize d =
     Option.bind (IndexOf tree ''macaddress>'') (\<lambda>mac_index.
     Option.bind (IndexOf tree ''ipaddress>'') (\<lambda>ip_index.
     Option.bind (IndexOf tree ''hostname>'') (\<lambda>host_index.
     Option.bind (IndexOf tree ''lastaudit>'') (\<lambda>lastaudit_index.
     Option.bind (store_if mac_index (def_mac d) (replicate entrysize [])) (\<lambda>entry.
     Option.bind (store_if ip_index (def_ip d) entry) (\<lambda>entry.
     Option.bind (store_if host_index (def_host d) entry) (\<lambda>entry.
       store_if lastaudit_index (def_last d) entry)))))))"

function scan_entries ::
  "string \<Rightarrow> string \<Rightarrow> elementTree \<Rightarrow> string list option \<Rightarrow> nat \<Rightarrow> string list list" where
  "scan_entries data spare tree fresh i =
     (case skip (\<lambda>c. c \<le> CHR ''<'') data i of
        None \<Rightarrow> []
      | Some i \<Rightarrow>
          if slice data spare i (i + 6) \<noteq> Some ''entry>'' then []
          else
            (case Option.bind fresh (entry_children data spare tree (i + 6)) of
               None \<Rightarrow> []
             | Some (j, entry) \<Rightarrow> entry # scan_entries data spare tree fresh j))"
  by pat_completeness auto
termination scan_entries
  by (relation "measure (\<lambda>(data, spare, tree, fresh, i). length data - i)")
    (auto simp: Option.bind_eq_Some_conv dest!: skip_bounds entry_children_later)

declare scan_entries.simps [simp del]

definition auditScanFile ::
  "scan_defaults \<Rightarrow> string \<Rightarrow> string \<Rightarrow> nat \<Rightarrow> elementTree \<Rightarrow> nat \<Rightarrow> string list list" where
  "auditScanFile d data spare i tree entrysize =
     scan_entries data spare tree (new_entry tree entrysize d) i"

section \<open>The directories\<close>

record AuditID =
  Timestamp :: string
  MAC :: string
  IP :: string
  Hostname :: string

definition only_mac :: "string \<Rightarrow> AuditID" where
  "only_mac mac = \<lparr>Timestamp = [], MAC = mac, IP = [], Hostname = []\<rparr>"

text \<open>
  The file system: the names in a directory and whether each is a directory (None if it cannot
  be opened or read), and the contents of a file together with the spare bytes of its buffer.
\<close>

record audit_disk =
  Readdir :: "string \<Rightarrow> (string \<times> bool) list option"
  ReadFile :: "string \<Rightarrow> (string \<times> string) option"

record audit_query =
  ts1 :: string
  ts2 :: string
  xmlname :: string
  contains :: string
  props :: "string list"
  returnothers :: bool

record audit_scan =
  calls :: "string list list"
  nonmatch :: "AuditID list"
  noaudit :: "AuditID list"
  unknown :: nat

definition extractAuditID :: "string \<Rightarrow> string \<Rightarrow> AuditID" where
  "extractAuditID mac last_auditname = (only_mac mac)\<lparr>Timestamp := auditFilenameToTimestamp last_auditname\<rparr>"

text \<open>The most recent audit in the time window, and the most recent one; empty if there is none.\<close>

definition best_audits :: "string \<Rightarrow> string \<Rightarrow> string list \<Rightarrow> string \<times> string" where
  "best_audits t1 t2 names =
     fold (\<lambda>auditname (best, last_one).
       if \<not> isAudit auditname then (best, last_one)
       else
         (if auditname > best \<and> isInTimestampRange auditname t1 t2 then auditname else best,
          if auditname > last_one then auditname else last_one)) names ([], [])"

text \<open>The comparison from the last byte to the first one.\<close>

fun same_at :: "string \<Rightarrow> string \<Rightarrow> nat \<Rightarrow> nat \<Rightarrow> bool" where
  "same_at data s i 0 = True"
| "same_at data s i (Suc k) = (data ! (i + k) = s ! k \<and> same_at data s i k)"

definition file_contains :: "string \<Rightarrow> string \<Rightarrow> bool" where
  "file_contains data s = list_ex (\<lambda>i. data ! i = s ! 0 \<and> same_at data s i (length s)) [0..<length data - length s]"

definition not_audited :: "audit_query \<Rightarrow> AuditID \<Rightarrow> audit_scan \<Rightarrow> audit_scan" where
  "not_audited q aid res =
     res\<lparr>noaudit := (if returnothers q then noaudit res @ [aid] else noaudit res), unknown := unknown res + 1\<rparr>"

definition scan_data ::
  "audit_query \<Rightarrow> elementTree \<Rightarrow> string \<Rightarrow> string \<Rightarrow> string \<Rightarrow> string \<Rightarrow> string \<Rightarrow> audit_scan \<Rightarrow> audit_scan" where
  "scan_data q tree mac best last_one data spare res =
     (case findFirstEntry data spare of
        (i, ipaddress, hostname) \<Rightarrow>
          if i < 0 then not_audited q ((only_mac mac)\<lparr>IP := ipaddress, Hostname := hostname\<rparr>) res
          else if contains q \<noteq> [] \<and> \<not> file_contains data (contains q) then
            (if returnothers q
             then res\<lparr>nonmatch := nonmatch res @ [\<lparr>Timestamp = auditFilenameToTimestamp best, MAC = mac,
                    IP = ipaddress, Hostname = hostname\<rparr>]\<rparr>
             else res)
          else
            res\<lparr>calls := calls res @
              auditScanFile \<lparr>def_mac = mac, def_ip = ipaddress, def_host = hostname,
                  def_last = auditFilenameToTimestamp last_one\<rparr> data spare (nat i) tree (length (props q))\<rparr>)"

definition auditScanDir ::
  "audit_disk \<Rightarrow> audit_query \<Rightarrow> elementTree \<Rightarrow> string \<Rightarrow> string \<Rightarrow> audit_scan \<Rightarrow> audit_scan" where
  "auditScanDir disk q tree dir mac res =
     (let subdir = dir @ ''/'' @ mac in
      case Readdir disk subdir of
        None \<Rightarrow> not_audited q (only_mac mac) res
      | Some names \<Rightarrow>
          (case best_audits (ts1 q) (ts2 q) (map fst names) of
             (best, last_one) \<Rightarrow>
               if best = [] then
                 not_audited q (if last_one = [] then only_mac mac else extractAuditID mac last_one) res
               else
                 (case ReadFile disk (subdir @ ''/'' @ best @ ''/'' @ xmlname q @ ''.xml'') of
                    None \<Rightarrow> not_audited q (only_mac mac) res
                  | Some (data, spare) \<Rightarrow> scan_data q tree mac best last_one data spare res)))"

definition no_scan :: audit_scan where
  "no_scan = \<lparr>calls = [], nonmatch = [], noaudit = [], unknown = 0\<rparr>"

text \<open>\<open>AuditScanSubdirs\<close>; None is a panic while the tree is built.\<close>

definition AuditScanSubdirs :: "audit_disk \<Rightarrow> audit_query \<Rightarrow> string \<Rightarrow> string \<Rightarrow> audit_scan option" where
  "AuditScanSubdirs disk q dir mac =
     map_option (\<lambda>tree.
       if mac \<noteq> [] then auditScanDir disk q tree dir mac no_scan
       else
         (case Readdir disk dir of
            None \<Rightarrow> no_scan
          | Some fis \<Rightarrow>
              fold (\<lambda>(fname, is_dir) res.
                if is_dir \<and> isMAC fname then auditScanDir disk q tree dir fname res else res) fis no_scan))
       (makePropTree (props q))"

section \<open>Which audit is looked at\<close>

text \<open>The digits of a timestamp that may have underscores between them.\<close>

definition stamp :: "string \<Rightarrow> string" where
  "stamp t = filter (\<lambda>c. c \<noteq> CHR ''_'') t"

fun in_order_from :: "(char \<Rightarrow> char \<Rightarrow> bool) \<Rightarrow> string \<Rightarrow> string \<Rightarrow> bool" where
  "in_order_from wrong (a # s) (b # t) =
     (if wrong a b then False else if wrong b a then True else in_order_from wrong s t)"
| "in_order_from wrong s t = True"

lemma stamp_skip: "stamp t = stamp (no_underscores t)"
  by (induction t) (simp_all add: stamp_def)

lemma stamp_Cons:
  assumes "no_underscores t = b # t'"
  shows "stamp t = b # stamp t'"
proof -
  have "b \<noteq> CHR ''_''" using assms by (simp add: dropWhile_eq_Cons_conv)
  moreover have "stamp t = stamp (b # t')" by (subst stamp_skip) (simp only: assms)
  ultimately show ?thesis by (simp add: stamp_def)
qed

lemma stamp_Nil: "no_underscores t = [] \<Longrightarrow> stamp t = []"
  by (simp add: stamp_def filter_empty_conv)

lemma range_loop_stamps: "range_loop wrong s t = in_order_from wrong (stamp s) (stamp t)"
proof (induction wrong s t rule: range_loop.induct)
  case (1 wrong s t)
  show ?case
  proof (cases "no_underscores s")
    case Nil
    then show ?thesis by (subst range_loop.simps) (simp only: stamp_Nil list.case prod.case in_order_from.simps)
  next
    case (Cons a s')
    show ?thesis
    proof (cases "no_underscores t")
      case Nil
      then show ?thesis
        by (subst range_loop.simps) (simp only: Cons stamp_Nil list.case prod.case in_order_from.simps)
    next
      case t: (Cons b t')
      show ?thesis using 1 [OF refl Cons t]
        by (subst range_loop.simps) (simp add: Cons t stamp_Cons [OF Cons] stamp_Cons [OF t])
    qed
  qed
qed

lemma in_order_less: "length s = length t \<Longrightarrow> in_order_from (\<lambda>a b. a < b) s t \<longleftrightarrow> t \<le> s"
  by (induction s t rule: list_induct2) auto

lemma in_order_greater: "length s = length t \<Longrightarrow> in_order_from (\<lambda>a b. a > b) s t \<longleftrightarrow> s \<le> t"
  by (induction s t rule: list_induct2) auto

lemma isAudit_stamp:
  assumes "isAudit n"
  shows "auditFilenameToTimestamp n = stamp (drop 6 n)" and "length (stamp (drop 6 n)) = 14"
proof -
  have n: "n = ''audit_'' @ drop 6 n"
    using assms append_take_drop_id [of 6 n] unfolding isAudit_def by metis
  have none: "filter is_digit ''audit_'' = []" by code_simp
  have "auditFilenameToTimestamp n = filter is_digit (''audit_'' @ drop 6 n)"
    unfolding auditFilenameToTimestamp_def using n by (rule arg_cong)
  also have "\<dots> = filter is_digit ''audit_'' @ filter is_digit (drop 6 n)" by (rule filter_append)
  also have "\<dots> = filter is_digit (drop 6 n)" unfolding none by (rule append.simps)
  finally have "auditFilenameToTimestamp n = filter is_digit (drop 6 n)" .
  also have "filter is_digit (drop 6 n) = stamp (drop 6 n)"
  proof -
    have "list_all (\<lambda>c. c = CHR ''_'' \<or> is_digit c) (drop 6 n)" using assms unfolding isAudit_def by blast
    moreover have "\<not> is_digit CHR ''_''" by code_simp
    ultimately have "is_digit c \<longleftrightarrow> c \<noteq> CHR ''_''" if "c \<in> set (drop 6 n)" for c
      using that unfolding list_all_iff by blast
    then show ?thesis unfolding stamp_def by (intro filter_cong refl) blast
  qed
  finally show "auditFilenameToTimestamp n = stamp (drop 6 n)" .
  show "length (stamp (drop 6 n)) = 14" using assms by (simp add: isAudit_def stamp_def)
qed

definition in_window :: "string \<Rightarrow> string \<Rightarrow> string \<Rightarrow> bool" where
  "in_window t1 t2 n \<longleftrightarrow> isAudit n \<and> stamp t1 \<le> auditFilenameToTimestamp n \<and> auditFilenameToTimestamp n \<le> stamp t2"

lemma range_is_window:
  "length (stamp t1) = 14 \<Longrightarrow> length (stamp t2) = 14 \<Longrightarrow>
    isAudit n \<and> isInTimestampRange n t1 t2 \<longleftrightarrow> in_window t1 t2 n"
  by (auto simp: isInTimestampRange_def range_loop_stamps in_order_less in_order_greater isAudit_stamp in_window_def)

lemma best_audits_max:
  "best_audits t1 t2 names =
    (fold max (filter (\<lambda>n. isAudit n \<and> isInTimestampRange n t1 t2) names) [], fold max (filter isAudit names) [])"
proof -
  have "fold (\<lambda>auditname (best, last_one).
       if \<not> isAudit auditname then (best, last_one)
       else
         (if auditname > best \<and> isInTimestampRange auditname t1 t2 then auditname else best,
          if auditname > last_one then auditname else last_one)) names (b, l) =
    (fold max (filter (\<lambda>n. isAudit n \<and> isInTimestampRange n t1 t2) names) b, fold max (filter isAudit names) l)" for b l
    by (induction names arbitrary: b l) (auto simp: max_def)
  then show ?thesis by (simp add: best_audits_def)
qed

lemma fold_max_list:
  "fold max xs (b :: string) = (if xs = [] then b else Max (set xs \<union> {b}))"
  by (induction xs arbitrary: b) (simp_all add: max.left_commute max.commute)

text \<open>The audit that is looked at. If the directories of a machine are named without
  underscores between the digits, the scan picks one in the requested time window, both ends
  included, if there is one, and the most recent of them.\<close>

theorem most_recent_audit_is_taken:
  assumes "list_all (\<lambda>n. isAudit n \<longrightarrow> length n = 20) names"
    and "length (stamp t1) = 14" and "length (stamp t2) = 14"
    and "best_audits t1 t2 names = (best, last_one)"
  shows "(best = [] \<longleftrightarrow> \<not> list_ex (in_window t1 t2) names) \<and>
    (best \<noteq> [] \<longrightarrow> best \<in> set names \<and> in_window t1 t2 best \<and>
      list_all (\<lambda>n. in_window t1 t2 n \<longrightarrow> auditFilenameToTimestamp n \<le> auditFilenameToTimestamp best) names)"
proof -
  have plain: "n = ''audit_'' @ auditFilenameToTimestamp n" if "n \<in> set names" "isAudit n" for n
  proof -
    have n: "n = ''audit_'' @ drop 6 n"
      using that append_take_drop_id [of 6 n] unfolding isAudit_def by metis
    have "length (drop 6 n) = 14" using that assms(1) by (simp add: list_all_iff)
    with isAudit_stamp(2) [OF that(2)] have "stamp (drop 6 n) = drop 6 n"
      unfolding stamp_def by (metis filter_True length_filter_less nat_neq_iff filter_empty_conv)
    with isAudit_stamp(1) [OF that(2)] n show ?thesis by simp
  qed
  define ws where "ws = filter (in_window t1 t2) names"
  have "filter (\<lambda>n. isAudit n \<and> isInTimestampRange n t1 t2) names = ws"
    using range_is_window [OF assms(2,3)] by (simp add: ws_def)
  then have best: "best = fold max ws []" using assms(4) by (simp add: best_audits_max)
  show ?thesis
  proof (cases "ws = []")
    case True
    then show ?thesis using best by (auto simp: ws_def filter_empty_conv list_ex_iff)
  next
    case False
    have "Max (insert [] (set ws)) = Max (set ws)"
      using False by (simp add: Max_insert max_absorb2)
    then have "best = Max (set ws)" using best False by (simp add: fold_max_list)
    then have in_ws: "best \<in> set ws" and greatest: "\<forall>n \<in> set ws. n \<le> best"
      using False Max_in [of "set ws"] by simp_all
    have audit: "n \<in> set names \<and> in_window t1 t2 n \<and> isAudit n" if "n \<in> set ws" for n
      using that by (auto simp: ws_def in_window_def)
    have most_recent: "auditFilenameToTimestamp n \<le> auditFilenameToTimestamp best" if "n \<in> set ws" for n
    proof -
      have "n \<le> best" using greatest that by blast
      then have "''audit_'' @ auditFilenameToTimestamp n \<le> ''audit_'' @ auditFilenameToTimestamp best"
        using plain audit that in_ws by metis
      then show ?thesis by simp
    qed
    have "best \<noteq> []" using audit [OF in_ws] by (auto simp: isAudit_def)
    moreover have "list_ex (in_window t1 t2) names" using audit [OF in_ws] unfolding list_ex_iff by blast
    moreover have "list_all (\<lambda>n. in_window t1 t2 n \<longrightarrow> auditFilenameToTimestamp n \<le> auditFilenameToTimestamp best) names"
      using most_recent unfolding list_all_iff ws_def set_filter by blast
    ultimately show ?thesis using audit [OF in_ws] by blast
  qed
qed

theorem most_recent_audit_is_taken_witness:
  "fst (best_audits ''2016_01_01_000000'' ''20161231235959'' [''audit_20150101000000'', ''audit_20160101000000'', ''log'']) =
    ''audit_20160101000000''"
proof -
  let ?names = "[''audit_20150101000000'', ''audit_20160101000000'', ''log'']"
  let ?best = "fst (best_audits ''2016_01_01_000000'' ''20161231235959'' ?names)"
  have "list_all (\<lambda>n. isAudit n \<longrightarrow> length n = 20) ?names" "length (stamp ''2016_01_01_000000'') = 14"
    "length (stamp ''20161231235959'') = 14" by code_simp+
  from most_recent_audit_is_taken [OF this, of ?best "snd (best_audits ''2016_01_01_000000'' ''20161231235959'' ?names)"]
  have b: "(?best = [] \<longleftrightarrow> \<not> list_ex (in_window ''2016_01_01_000000'' ''20161231235959'') ?names) \<and>
    (?best \<noteq> [] \<longrightarrow> ?best \<in> set ?names \<and> in_window ''2016_01_01_000000'' ''20161231235959'' ?best)" by simp
  have "filter (in_window ''2016_01_01_000000'' ''20161231235959'') ?names = [''audit_20160101000000'']" by code_simp
  then have ws: "{n \<in> set ?names. in_window ''2016_01_01_000000'' ''20161231235959'' n} = {''audit_20160101000000''}"
    by (metis (no_types) set_filter list.set(1,2))
  then have "list_ex (in_window ''2016_01_01_000000'' ''20161231235959'') ?names"
    unfolding list_ex_iff by blast
  with b ws show ?thesis by blast
qed

text \<open>
  With underscores the names are not in the order of time: the older of these two audits is taken.
\<close>

lemma underscores_mislead:
  "fst (best_audits ''00000101000000'' ''99991231235959'' [''audit_2016_0101000000'', ''audit_20170101000000'']) =
    ''audit_20170101000000''"
  "fst (best_audits ''00000101000000'' ''99991231235959'' [''audit_2016_0101000000'', ''audit_20161201000000'']) =
    ''audit_2016_0101000000''"
  by code_simp+

section \<open>The numbers of the answer\<close>

lemma auditScanDir_cases:
  "unknown (auditScanDir disk q tree dir mac res) = unknown res \<and> noaudit (auditScanDir disk q tree dir mac res) = noaudit res \<or>
   unknown (auditScanDir disk q tree dir mac res) = unknown res + 1 \<and>
     length (noaudit (auditScanDir disk q tree dir mac res)) = length (noaudit res) + (if returnothers q then 1 else 0)"
  by (auto simp: auditScanDir_def scan_data_def not_audited_def Let_def split: option.split prod.split)

lemma AuditScanSubdirs_counts:
  assumes "AuditScanSubdirs disk q dir mac = Some res"
  shows "length (noaudit res) = (if returnothers q then unknown res else 0)"
proof -
  let ?ok = "\<lambda>res. length (noaudit res) = (if returnothers q then unknown res else 0)"
  have start: "?ok no_scan" by (simp add: no_scan_def)
  have step: "?ok res \<Longrightarrow> ?ok (auditScanDir disk q tree dir fname res)" for tree fname res
    using auditScanDir_cases [of disk q tree dir fname res] by auto
  have "?ok (fold (\<lambda>(fname, is_dir) res.
      if is_dir \<and> isMAC fname then auditScanDir disk q tree dir fname res else res) fis res)" if "?ok res" for tree fis res
    using that step by (induction fis arbitrary: res) auto
  with start step assms show ?thesis
    by (auto simp: AuditScanSubdirs_def split: option.splits if_splits)
qed

section \<open>The search tree finds the columns\<close>

definition element_name :: "string \<Rightarrow> bool" where
  "element_name m \<longleftrightarrow> m \<noteq> [] \<and> CHR ''>'' \<notin> set m"

definition tag_name :: "string \<Rightarrow> bool" where
  "tag_name n \<longleftrightarrow> n \<noteq> [] \<and> last n = CHR ''>'' \<and> element_name (butlast n)"

lemma tag_nameI [simp]: "tag_name (m @ ''>'') \<longleftrightarrow> element_name m"
  by (simp add: tag_name_def)

lemma tag_name_end:
  assumes "tag_name n" and "n = pre @ c # rest"
  shows "c = CHR ''>'' \<longleftrightarrow> rest = []"
proof -
  obtain m where m: "n = m @ [CHR ''>'']" "CHR ''>'' \<notin> set m"
    using assms(1) by (metis append_butlast_last_id tag_name_def element_name_def)
  show ?thesis
  proof (cases rest rule: rev_cases)
    case Nil
    with m assms(2) show ?thesis by simp
  next
    case (snoc xs x)
    with m(1) assms(2) have "m = pre @ c # xs" by simp
    with m(2) snoc show ?thesis by auto
  qed
qed

inductive tree_ok :: "string \<Rightarrow> elementTree \<Rightarrow> bool" where
  "name t = [] \<Longrightarrow>
   (\<And>c e. link t c = Some e \<Longrightarrow>
      name e = [] \<and> c \<noteq> CHR ''>'' \<and> tree_ok (pre @ [c]) e \<or>
      tag_name (name e) \<and> (\<exists>rest. name e = pre @ c # rest) \<and> 0 \<le> index e \<and> link e = (\<lambda>c. None)) \<Longrightarrow>
   tree_ok pre t"

inductive_cases tree_okE: "tree_ok pre t"

lemma tree_ok_node: "tree_ok pre t \<Longrightarrow> link t c = Some e \<Longrightarrow>
      name e = [] \<and> c \<noteq> CHR ''>'' \<and> tree_ok (pre @ [c]) e \<or>
      tag_name (name e) \<and> (\<exists>rest. name e = pre @ c # rest) \<and> 0 \<le> index e \<and> link e = (\<lambda>c. None)"
  by (erule tree_okE) blast

lemma tree_ok_name: "tree_ok pre t \<Longrightarrow> name t = []"
  by (erule tree_okE)

lemma tree_ok_set_link:
  assumes "tree_ok pre t"
    and "name e = [] \<and> c \<noteq> CHR ''>'' \<and> tree_ok (pre @ [c]) e \<or>
      tag_name (name e) \<and> (\<exists>rest. name e = pre @ c # rest) \<and> 0 \<le> index e \<and> link e = (\<lambda>c. None)"
  shows "tree_ok pre (set_link c e t)"
proof (rule tree_ok.intros)
  show "name (set_link c e t) = []" using assms(1) by (simp add: set_link_def tree_ok_name)
next
  fix d e'
  assume "link (set_link c e t) d = Some e'"
  then show "name e' = [] \<and> d \<noteq> CHR ''>'' \<and> tree_ok (pre @ [d]) e' \<or>
      tag_name (name e') \<and> (\<exists>rest. name e' = pre @ d # rest) \<and> 0 \<le> index e' \<and> link e' = (\<lambda>c. None)"
    using assms tree_ok_node [OF assms(1), of d e'] by (auto simp: set_link_def split: if_splits)
qed

lemma empty_tree_ok: "tree_ok pre (ElementTree [] i (\<lambda>c. None))"
  by (rule tree_ok.intros) simp_all

lemma link_set_link [simp]: "link (set_link c e t) = (link t)(c \<mapsto> e)" "name (set_link c e t) = name t"
  by (simp_all add: set_link_def)

lemma tree_leaf_simps [simp]: "name (tree_leaf n p) = n" "index (tree_leaf n p) = p" "link (tree_leaf n p) = (\<lambda>c. None)"
  by (simp_all add: tree_leaf_def)

text \<open>An insertion works, and adds one name, unless it is already there.\<close>

definition inserted :: "string \<Rightarrow> int \<Rightarrow> string \<Rightarrow> string \<Rightarrow> elementTree \<Rightarrow> elementTree \<Rightarrow> bool" where
  "inserted n p pre rest t t' \<longleftrightarrow> tree_ok pre t' \<and>
     (\<forall>m mrest. tag_name m \<longrightarrow> m = pre @ mrest \<longrightarrow> mrest \<noteq> [] \<longrightarrow>
        index_from m mrest t' =
          (if m = n \<and> index_from n rest t = Some (-1) then Some p else index_from m mrest t))"

lemma inserted_below:
  assumes "inserted n p (pre @ [c]) rest e e'" and "tree_ok pre t" and "c \<noteq> CHR ''>''"
    and "n = pre @ c # rest"
    and same: "\<And>m mrest. tag_name m \<Longrightarrow> m = pre @ c # mrest \<Longrightarrow> mrest \<noteq> [] \<Longrightarrow>
        index_from m (c # mrest) t = index_from m mrest e"
    and "rest \<noteq> []" and "tag_name n"
  shows "inserted n p pre (c # rest) t (set_link c e' t)"
proof -
  have e': "tree_ok (pre @ [c]) e'" and name_e': "name e' = []"
    using assms(1) tree_ok_name by (auto simp: inserted_def)
  have "index_from m mrest (set_link c e' t) =
      (if m = n \<and> index_from n (c # rest) t = Some (-1) then Some p else index_from m mrest t)"
    if "tag_name m" "m = pre @ mrest" "mrest \<noteq> []" for m mrest
  proof (cases mrest)
    case (Cons d ms)
    show ?thesis
    proof (cases "d = c")
      case True
      have "ms \<noteq> []" using tag_name_end [of m pre c ms] that Cons True assms(3) by simp
      moreover have "index_from n (c # rest) t = index_from n rest e"
        using same assms(4,6,7) by blast
      moreover have "index_from m (c # ms) t = index_from m ms e"
        using same that Cons True \<open>ms \<noteq> []\<close> by blast
      moreover have "index_from m ms e' = (if m = n \<and> index_from n rest e = Some (-1) then Some p else index_from m ms e)"
        using assms(1) that Cons True \<open>ms \<noteq> []\<close> unfolding inserted_def by (metis append.assoc append.simps)
      ultimately show ?thesis using Cons True name_e' by simp
    next
      case False
      with that Cons assms(4) show ?thesis by auto
    qed
  qed (use that in simp)
  moreover have "tree_ok pre (set_link c e' t)" using assms(2,3) e' name_e' by (simp add: tree_ok_set_link)
  ultimately show ?thesis unfolding inserted_def by blast
qed

lemma insert_from_inserts:
  assumes "tree_ok pre t" and "n = pre @ rest" and "tag_name n" and "rest \<noteq> []" and "0 \<le> p"
  shows "\<exists>t'. insert_from n p (length pre) rest t = Some t' \<and> inserted n p pre rest t t'"
  using assms
proof (induction rest arbitrary: pre t)
  case (Cons c rest)
  show ?case
  proof (cases "link t c")
    case None
    have "tree_ok pre (set_link c (tree_leaf n p) t)"
      using Cons.prems by (intro tree_ok_set_link) auto
    moreover have "index_from m mrest (set_link c (tree_leaf n p) t) =
        (if m = n \<and> index_from n (c # rest) t = Some (-1) then Some p else index_from m mrest t)"
      if "tag_name m" "m = pre @ mrest" "mrest \<noteq> []" for m mrest
    proof -
      have "n \<noteq> []" using Cons.prems(2) by simp
      then show ?thesis using that None Cons.prems(2) by (cases mrest) auto
    qed
    ultimately have "inserted n p pre (c # rest) t (set_link c (tree_leaf n p) t)" unfolding inserted_def by blast
    with None show ?thesis by simp
  next
    case (Some e)
    show ?thesis
    proof (cases "name e = []")
      case True
      then have below: "c \<noteq> CHR ''>''" "tree_ok (pre @ [c]) e"
        using tree_ok_node [OF Cons.prems(1) Some] by (auto simp: tag_name_def)
      then have "rest \<noteq> []" using tag_name_end [OF Cons.prems(3), of pre c rest] Cons.prems(2) by simp
      obtain e' where e': "insert_from n p (length (pre @ [c])) rest e = Some e'" "inserted n p (pre @ [c]) rest e e'"
        using Cons.IH [of "pre @ [c]" e] below Cons.prems \<open>rest \<noteq> []\<close> by auto
      have "inserted n p pre (c # rest) t (set_link c e' t)"
        using Cons.prems below \<open>rest \<noteq> []\<close> Some True by (intro inserted_below [OF e'(2)]) auto
      with e'(1) Some True show ?thesis by simp
    next
      case False
      then obtain r where leaf_e: "tag_name (name e)" "name e = pre @ c # r" "0 \<le> index e" "link e = (\<lambda>c. None)"
        using tree_ok_node [OF Cons.prems(1) Some] by auto
      show ?thesis
      proof (cases "name e = n")
        case True
        have "inserted n p pre (c # rest) t t"
          using Cons.prems(1) leaf_e(3) Some False True by (simp add: inserted_def)
        with Some False True show ?thesis by simp
      next
        case other: False
        then have "c \<noteq> CHR ''>''"
          using tag_name_end [OF leaf_e(1,2)] tag_name_end [OF Cons.prems(3,2)] leaf_e(2) Cons.prems(2) by auto
        then have "rest \<noteq> []" "r \<noteq> []"
          using tag_name_end [OF leaf_e(1,2)] tag_name_end [OF Cons.prems(3,2)] by auto
        then obtain d rs where r: "r = d # rs" by (cases r) auto
        define e2 where "e2 = ElementTree [] 0 ((link e)(d \<mapsto> tree_leaf (name e) (index e)))"
        have "e2 = set_link d (tree_leaf (name e) (index e)) (ElementTree [] 0 (\<lambda>c. None))"
          by (simp add: e2_def set_link_def leaf_e)
        then have "tree_ok (pre @ [c]) e2"
          using leaf_e r by (simp only:) (intro tree_ok_set_link empty_tree_ok, auto)
        then obtain e' where e': "insert_from n p (length (pre @ [c])) rest e2 = Some e'"
            "inserted n p (pre @ [c]) rest e2 e'"
          using Cons.IH [of "pre @ [c]" e2] Cons.prems \<open>rest \<noteq> []\<close> by auto
        have "inserted n p pre (c # rest) t (set_link c e' t)"
        proof (rule inserted_below [OF e'(2) Cons.prems(1) \<open>c \<noteq> _\<close> Cons.prems(2) _ \<open>rest \<noteq> []\<close> Cons.prems(3)])
          fix m mrest
          assume "tag_name m" "m = pre @ c # mrest" "mrest \<noteq> []"
          then show "index_from m (c # mrest) t = index_from m mrest e2"
            using Some False leaf_e r by (cases mrest) (auto simp: e2_def)
        qed
        moreover have "at (name e) (Suc (length pre)) = Some d"
          by (simp add: at_def leaf_e(2) r nth_append)
        ultimately show ?thesis using e'(1) Some False other by (simp add: e2_def)
      qed
    qed
  qed
qed simp

fun first_index :: "string \<Rightarrow> int \<Rightarrow> string list \<Rightarrow> int" where
  "first_index m p [] = -1"
| "first_index m p (n # ns) = (if n = m then p else first_index m (p + 1) ns)"

lemma insert_names_index:
  assumes "tree_ok [] t" and "0 \<le> p"
  shows "\<exists>t'. insert_names p ns t = Some t' \<and> tree_ok [] t' \<and>
    (\<forall>m. element_name m \<longrightarrow> index_from (m @ ''>'') (m @ ''>'') t' =
      (if index_from (m @ ''>'') (m @ ''>'') t = Some (-1) then Some (first_index m p ns)
       else index_from (m @ ''>'') (m @ ''>'') t))"
  using assms
proof (induction ns arbitrary: p t)
  case (Cons n ns)
  show ?case
  proof (cases "element_name n")
    case True
    obtain t1 where t1: "insert_from (n @ ''>'') p 0 (n @ ''>'') t = Some t1"
        "inserted (n @ ''>'') p [] (n @ ''>'') t t1"
      using insert_from_inserts [OF Cons.prems(1), of "n @ ''>''" "n @ ''>''" p] True Cons.prems(2) by auto
    have first: "index_from (m @ ''>'') (m @ ''>'') t1 =
        (if m = n \<and> index_from (n @ ''>'') (n @ ''>'') t = Some (-1) then Some p
         else index_from (m @ ''>'') (m @ ''>'') t)" if "element_name m" for m
      using t1(2) that unfolding inserted_def by auto
    obtain t' where "insert_names (p + 1) ns t1 = Some t'" "tree_ok [] t'"
      "\<forall>m. element_name m \<longrightarrow> index_from (m @ ''>'') (m @ ''>'') t' =
        (if index_from (m @ ''>'') (m @ ''>'') t1 = Some (-1) then Some (first_index m (p + 1) ns)
         else index_from (m @ ''>'') (m @ ''>'') t1)"
      using Cons.IH [of t1 "p + 1"] t1(2) Cons.prems(2) by (auto simp: inserted_def)
    with first t1(1) True Cons.prems(2) show ?thesis by (auto simp: element_name_def)
  next
    case False
    obtain t' where "insert_names (p + 1) ns t = Some t'" "tree_ok [] t'"
      "\<forall>m. element_name m \<longrightarrow> index_from (m @ ''>'') (m @ ''>'') t' =
        (if index_from (m @ ''>'') (m @ ''>'') t = Some (-1) then Some (first_index m (p + 1) ns)
         else index_from (m @ ''>'') (m @ ''>'') t)"
      using Cons.IH [of t "p + 1"] Cons.prems by auto
    moreover have "n \<noteq> m" if "element_name m" for m using False that by auto
    ultimately show ?thesis using False by (auto simp: element_name_def)
  qed
qed simp

lemma index_from_other:
  "tree_ok pre t \<Longrightarrow> CHR ''>'' \<in> set rest \<Longrightarrow> \<not> tag_name n \<Longrightarrow> index_from n rest t = Some (-1)"
proof (induction rest arbitrary: pre t)
  case (Cons c rest)
  show ?case
  proof (cases "link t c")
    case (Some e)
    from tree_ok_node [OF Cons.prems(1) Some] show ?thesis
    proof
      assume "name e = [] \<and> c \<noteq> CHR ''>'' \<and> tree_ok (pre @ [c]) e"
      with Cons Some show ?thesis by auto
    next
      assume "tag_name (name e) \<and> (\<exists>rest. name e = pre @ c # rest) \<and> 0 \<le> index e \<and> link e = (\<lambda>c. None)"
      with Cons.prems(3) Some show ?thesis by auto
    qed
  qed simp
qed simp

text \<open>The search tree is a map. The tree that is built for a list of names never panics, and
  looking up a name gives the place where it stands first in the list, -1 if it is not there;
  the empty name and names with a > are never found.\<close>

theorem search_tree_is_a_map:
  "\<exists>t. makePropTree names = Some t \<and>
    (\<forall>m. IndexOf t (m @ ''>'') =
      Some (if m = [] \<or> CHR ''>'' \<in> set m then -1 else first_index m 0 names))"
proof -
  obtain t where t: "makePropTree names = Some t" "tree_ok [] t"
    and found: "\<And>m. element_name m \<Longrightarrow> index_from (m @ ''>'') (m @ ''>'') t =
      (if index_from (m @ ''>'') (m @ ''>'') empty_tree = Some (-1) then Some (first_index m 0 names)
       else index_from (m @ ''>'') (m @ ''>'') empty_tree)"
    using insert_names_index [of empty_tree 0 names] empty_tree_ok by (auto simp: makePropTree_def empty_tree_def)
  have "index_from (m @ ''>'') (m @ ''>'') empty_tree = Some (-1)" for m
    by (cases m) (simp_all add: empty_tree_def)
  with found t(1) index_from_other [OF t(2)] show ?thesis
    by (intro exI [of _ t]) (auto simp: IndexOf_def element_name_def)
qed

section \<open>Written entries are read\<close>

subsection \<open>Positions\<close>

lemma skip_text:
  assumes "data = pre @ s @ c # rest" and "list_all p s" and "\<not> p c" and "i = length pre"
  shows "skip p data i = Some (length pre + length s)"
proof -
  have "takeWhile p (drop i data) = s"
    using assms by (simp add: takeWhile_append2 list_all_iff)
  then show ?thesis using assms(1,4) by (simp add: skip_def Let_def)
qed

lemma slice_text: "data = pre @ s @ rest \<Longrightarrow> i = length pre \<Longrightarrow> k = length pre + length s \<Longrightarrow>
    slice data spare i k = Some s"
  by (simp add: slice_def)

text \<open>What stands between tags, names and values.\<close>

definition blank :: "char \<Rightarrow> bool" where
  "blank c \<longleftrightarrow> c \<le> CHR '' ''"

definition child_name :: "string \<Rightarrow> bool" where
  "child_name n \<longleftrightarrow> n \<noteq> [] \<and> \<not> hd n \<le> CHR ''<'' \<and>
     CHR ''>'' \<notin> set n \<and> CHR ''/'' \<notin> set n \<and> CHR ''<'' \<notin> set n"

definition child_ok :: "string \<times> string \<Rightarrow> bool" where
  "child_ok c \<longleftrightarrow> child_name (fst c) \<and> CHR ''<'' \<notin> set (snd c)"

lemma char_order: "blank c \<Longrightarrow> c \<le> CHR ''<''" "CHR ''/'' \<le> CHR ''<''" "\<not> CHR ''e'' \<le> CHR ''<''"
    "\<not> CHR ''a'' \<le> CHR ''<''" "\<not> blank CHR ''<''" "\<not> blank CHR ''>''"
proof -
  have "CHR '' '' \<le> CHR ''<''" by code_simp
  then show "blank c \<Longrightarrow> c \<le> CHR ''<''" unfolding blank_def by (rule order_trans [rotated])
  show "CHR ''/'' \<le> CHR ''<''" "\<not> CHR ''e'' \<le> CHR ''<''" "\<not> CHR ''a'' \<le> CHR ''<''"
    "\<not> blank CHR ''<''" "\<not> blank CHR ''>''" by code_simp+
qed

definition child_text :: "string \<Rightarrow> string \<times> string \<Rightarrow> string" where
  "child_text sep c = sep @ ''<'' @ fst c @ ''>'' @ snd c @ ''</'' @ fst c @ ''>''"

definition children_text :: "string \<Rightarrow> (string \<times> string) list \<Rightarrow> string" where
  "children_text sep cs = concat (map (child_text sep) cs)"

definition entry_text :: "string \<Rightarrow> (string \<times> string) list \<Rightarrow> string" where
  "entry_text sep cs = sep @ ''<entry>'' @ children_text sep cs @ sep @ ''</entry>''"

text \<open>To the next tag: blanks and an opening bracket, or only the bracket.\<close>

lemma skip_to_tag:
  assumes "data = pre @ sep @ CHR ''<'' # c # rest" and "list_all blank sep" and "\<not> c \<le> CHR ''<''"
    and "i = length pre \<or> i = length pre + length sep"
  shows "skip (\<lambda>c. c \<le> CHR ''<'') data i = Some (length pre + length sep + 1)"
  using assms(4)
proof
  assume "i = length pre"
  with assms(1-3) show ?thesis
    using skip_text [of data pre "sep @ ''<''" c rest "\<lambda>c. c \<le> CHR ''<''" i] char_order
    by (auto simp: list_all_iff)
next
  assume "i = length pre + length sep"
  with assms(1,3) show ?thesis
    using skip_text [of data "pre @ sep" "''<''" c rest "\<lambda>c. c \<le> CHR ''<''" i] by simp
qed

lemma skip_to_end_tag:
  assumes "data = pre @ sep @ CHR ''<'' # CHR ''/'' # c # rest" and "list_all blank sep" and "\<not> c \<le> CHR ''<''"
    and "i = length pre \<or> i = length pre + length sep"
  shows "skip (\<lambda>c. c \<le> CHR ''<'') data i = Some (length pre + length sep + 2)"
  using assms(4)
proof
  assume "i = length pre"
  with assms(1-3) show ?thesis
    using skip_text [of data pre "sep @ ''</''" c rest "\<lambda>c. c \<le> CHR ''<''" i] char_order
    by (auto simp: list_all_iff)
next
  assume "i = length pre + length sep"
  with assms(1,3) show ?thesis
    using skip_text [of data "pre @ sep" "''</''" c rest "\<lambda>c. c \<le> CHR ''<''" i] char_order by simp
qed

subsection \<open>One child\<close>

lemma locate_leaf:
  assumes "tree_ok pre t" and "locate s t = Some (Some e)"
  shows "tag_name (name e) \<and> 0 \<le> index e \<and>
    (\<exists>r. name e = pre @ r \<and> index_from (name e) r t = Some (index e))"
  using assms
proof (induction s arbitrary: pre t)
  case (Cons c s)
  then obtain e1 where e1: "link t c = Some e1" by (auto split: option.splits)
  from tree_ok_node [OF Cons.prems(1) e1] show ?case
  proof
    assume inner: "name e1 = [] \<and> c \<noteq> CHR ''>'' \<and> tree_ok (pre @ [c]) e1"
    with Cons.prems(2) e1 have "locate s e1 = Some (Some e)" by simp
    with Cons.IH [of "pre @ [c]" e1] inner obtain r where "tag_name (name e)" "0 \<le> index e"
      "name e = (pre @ [c]) @ r" "index_from (name e) r e1 = Some (index e)" by blast
    with e1 inner show ?thesis by (intro conjI exI [of _ "c # r"]) simp_all
  next
    assume leaf_e1: "tag_name (name e1) \<and> (\<exists>rest. name e1 = pre @ c # rest) \<and> 0 \<le> index e1 \<and> link e1 = (\<lambda>c. None)"
    then have "name e1 \<noteq> []" by auto
    with Cons.prems(2) e1 have "e = e1" by simp
    with leaf_e1 e1 \<open>name e1 \<noteq> []\<close> show ?thesis by auto
  qed
qed simp

lemma locate_name:
  assumes "tree_ok pre t" and "tag_name n" and "n = pre @ rest" and "rest \<noteq> []"
  shows "(locate (rest @ tail) t = Some None \<and> index_from n rest t = Some (-1)) \<or>
    (\<exists>e. locate (rest @ tail) t = Some (Some e) \<and> index_from n rest t = Some (if name e = n then index e else -1))"
  using assms
proof (induction rest arbitrary: pre t)
  case (Cons c rest)
  show ?case
  proof (cases "link t c")
    case (Some e)
    from tree_ok_node [OF Cons.prems(1) Some] show ?thesis
    proof
      assume inner: "name e = [] \<and> c \<noteq> CHR ''>'' \<and> tree_ok (pre @ [c]) e"
      then have "rest \<noteq> []" using tag_name_end [OF Cons.prems(2,3)] by simp
      with Cons.IH [of "pre @ [c]" e] inner Cons.prems Some show ?thesis by simp
    next
      assume "tag_name (name e) \<and> (\<exists>rest. name e = pre @ c # rest) \<and> 0 \<le> index e \<and> link e = (\<lambda>c. None)"
      with Some show ?thesis by auto
    qed
  qed simp
qed simp

definition put :: "string list \<Rightarrow> string \<times> string \<Rightarrow> string list \<Rightarrow> string list" where
  "put names c entry = (let p = first_index (fst c) 0 names in if p < 0 then entry else entry[nat p := snd c])"

lemma first_index_range: "0 \<le> p \<Longrightarrow> first_index m p ns = -1 \<and> m \<notin> set ns \<or>
    p \<le> first_index m p ns \<and> first_index m p ns < p + int (length ns) \<and> m \<in> set ns"
proof (induction ns arbitrary: p)
  case (Cons n ns)
  then have "first_index m (p + 1) ns = -1 \<and> m \<notin> set ns \<or>
      p + 1 \<le> first_index m (p + 1) ns \<and> first_index m (p + 1) ns < p + 1 + int (length ns) \<and> m \<in> set ns"
    by (intro Cons.IH) simp
  then show ?case using Cons.prems by auto
qed simp

lemma length_put [simp]: "length (put names c entry) = length entry"
  by (simp add: put_def Let_def)

definition tree_for :: "string list \<Rightarrow> elementTree \<Rightarrow> bool" where
  "tree_for names t \<longleftrightarrow> tree_ok [] t \<and>
     (\<forall>m. element_name m \<longrightarrow> index_from (m @ ''>'') (m @ ''>'') t = Some (first_index m 0 names))"

lemma makePropTree_for: "\<exists>t. makePropTree names = Some t \<and> tree_for names t"
proof -
  have "index_from (m @ ''>'') (m @ ''>'') empty_tree = Some (-1)" for m
    by (cases m) (simp_all add: empty_tree_def)
  with insert_names_index [of empty_tree 0 names] empty_tree_ok show ?thesis
    by (auto simp: makePropTree_def empty_tree_def tree_for_def)
qed

lemma same_name: "m @ CHR ''>'' # x = n @ CHR ''>'' # y \<Longrightarrow> CHR ''>'' \<notin> set m \<Longrightarrow> CHR ''>'' \<notin> set n \<Longrightarrow> m = n"
proof -
  assume *: "m @ CHR ''>'' # x = n @ CHR ''>'' # y" "CHR ''>'' \<notin> set m" "CHR ''>'' \<notin> set n"
  have "takeWhile (\<lambda>c. c \<noteq> CHR ''>'') (k @ CHR ''>'' # z) = k" if "CHR ''>'' \<notin> set k" for k z
    using that by (subst takeWhile_append2) auto
  with * show "m = n" by metis
qed

lemma slash_before: "m @ CHR ''/'' # x = n @ CHR ''>'' # y \<Longrightarrow> CHR ''>'' \<notin> set m \<Longrightarrow> CHR ''/'' \<in> set n"
proof (induction m arbitrary: n)
  case Nil
  then show ?case by (cases n) auto
next
  case (Cons c m)
  then show ?case by (cases n) auto
qed

definition names_fit :: "string list \<Rightarrow> string \<Rightarrow> bool" where
  "names_fit names rest \<longleftrightarrow> list_all (\<lambda>m. length m + 1 < length rest) names"

lemma skip_element_text:
  assumes "data = pre @ n @ ''>'' @ v @ ''</'' @ n @ ''>'' @ sep @ CHR ''<'' # rest"
    and "child_ok (n, v)" and "list_all blank sep" and "i = length pre"
  shows "skip_element data i = Some (length (pre @ n @ ''>'' @ v @ ''</'' @ n @ ''>'' @ sep))"
proof -
  have n: "n \<noteq> []" "list_all (\<lambda>c. c \<noteq> CHR ''>'') n" "last n \<noteq> CHR ''/''" "list_all (\<lambda>c. c \<noteq> CHR ''<'') n"
    and v: "list_all (\<lambda>c. c \<noteq> CHR ''<'') v"
    using assms(2) last_in_set [of n] by (auto simp: child_ok_def child_name_def list_all_iff simp del: last_in_set)
  have "skip (\<lambda>c. c \<noteq> CHR ''>'') data i = Some (length pre + length n)"
    using assms(1,4) n(2) by (intro skip_text) simp_all
  moreover have "data ! (length pre + length n - 1) = last n"
  proof -
    obtain m c where "n = m @ [c]" using n(1) by (cases n rule: rev_cases) auto
    then show ?thesis using assms(1) by (simp add: nth_append)
  qed
  moreover have "nextTag data (length pre + length n) = Some (length (pre @ n) + length (''>'' @ v))"
    unfolding nextTag_def
    using assms(1) v by (intro skip_text [where rest = "CHR ''/'' # n @ ''>'' @ sep @ CHR ''<'' # rest" and c = "CHR ''<''"]) simp_all
  moreover have "nextTag data (length (pre @ n @ ''>'' @ v @ ''<'')) =
      Some (length (pre @ n @ ''>'' @ v @ ''<'') + length (''/'' @ n @ ''>'' @ sep))"
    unfolding nextTag_def
    using assms(1,3) n(4) char_order
    by (intro skip_text [where rest = rest and c = "CHR ''<''"]) (auto simp: list_all_iff)
  ultimately show ?thesis
    unfolding skip_element_def using n(3) by (simp add: add.assoc)
qed

lemma child_element_reads:
  assumes data: "data = pre @ n @ ''>'' @ v @ ''</'' @ n @ ''>'' @ sep @ CHR ''<'' # rest"
    and ok: "child_ok (n, v)" "list_all blank sep" and i: "i = length pre"
    and tree: "tree_for names tree" and "length entry = length names" and "names_fit names rest"
  shows "\<exists>j. child_element data spare tree i entry = Some (j, put names (n, v) entry) \<and>
    (j = length (pre @ n @ ''>'' @ v @ ''</'' @ n @ ''>'') \<or> j = length (pre @ n @ ''>'' @ v @ ''</'' @ n @ ''>'' @ sep))"
proof -
  have n: "element_name n" "CHR ''>'' \<notin> set n" "CHR ''/'' \<notin> set n" and v: "list_all (\<lambda>c. c \<noteq> CHR ''<'') v"
    using ok(1) by (auto simp: child_ok_def child_name_def element_name_def list_all_iff)
  define tail where "tail = v @ ''</'' @ n @ ''>'' @ sep @ CHR ''<'' # rest"
  have drop: "drop i data = (n @ ''>'') @ tail" using data i by (simp add: tail_def)
  have ok_tree: "tree_ok [] tree" and found: "index_from (n @ ''>'') (n @ ''>'') tree = Some (first_index n 0 names)"
    using tree n(1) by (auto simp: tree_for_def)
  have skipped: "skip_element data i = Some (length (pre @ n @ ''>'' @ v @ ''</'' @ n @ ''>'' @ sep))"
    by (rule skip_element_text [OF data ok i])
  from locate_name [OF ok_tree, of "n @ ''>''" "n @ ''>''" tail] n(1)
  consider (absent) "locate (drop i data) tree = Some None" "first_index n 0 names = -1"
    | (leaf_node) e where "locate (drop i data) tree = Some (Some e)"
        "first_index n 0 names = (if name e = n @ ''>'' then index e else -1)"
    using found drop by auto
  then show ?thesis
  proof cases
    case absent
    then show ?thesis using skipped by (simp add: child_element_def put_def)
  next
    case leaf_node
    from locate_leaf [OF ok_tree leaf_node(1)] have e: "tag_name (name e)" "0 \<le> index e"
      "index_from (name e) (name e) tree = Some (index e)" by auto
    obtain m where m: "name e = m @ ''>''" "element_name m" "CHR ''>'' \<notin> set m"
      using e(1) by (metis append_butlast_last_id tag_name_def element_name_def)
    have m_in: "m \<in> set names" and m_index: "index e = first_index m 0 names"
      using e tree m first_index_range [of 0 m names] unfolding tree_for_def by auto
    show ?thesis
    proof (cases "m = n")
      case True
      have s: "slice data spare i (i + length (name e)) = Some (name e)"
        using data i m(1) True by (intro slice_text [where rest = tail]) (simp_all add: tail_def)
      have j: "nextTag data (i + length (name e)) = Some (length (pre @ n @ ''>'') + length v)"
        unfolding nextTag_def using data i m(1) True v
        by (intro skip_text [where rest = "CHR ''/'' # n @ ''>'' @ sep @ CHR ''<'' # rest" and c = "CHR ''<''"]) simp_all
      have val: "slice data spare (i + length (name e)) (length (pre @ n @ ''>'') + length v) = Some v"
        using data i m(1) True
        by (intro slice_text [where rest = "''</'' @ n @ ''>'' @ sep @ CHR ''<'' # rest" and pre = "pre @ n @ ''>''"]) simp_all
      have "store (index e) v entry = Some (put names (n, v) entry)"
        using m_index True e(2) first_index_range [of 0 n names] assms(6) by (auto simp: store_def put_def Let_def)
      then have "child_element data spare tree i entry =
          Some (length (pre @ n @ ''>'') + length v + length (name e) + 2, put names (n, v) entry)"
        using leaf_node(1) s j val by (simp add: child_element_def Let_def)
      then show ?thesis using m(1) True by simp
    next
      case False
      let ?k = "i + length (name e)"
      have none: "put names (n, v) entry = entry" using leaf_node(2) m(1) False by (simp add: put_def)
      have "length m + 1 < length rest" using assms(7) m_in by (simp add: names_fit_def list_all_iff)
      then have k: "?k < length data" using data i m(1) by simp
      then have s: "slice data spare i ?k = Some (take (length (name e)) (drop i data))" by (simp add: slice_def)
      have other: "take (length (name e)) (drop i data) \<noteq> name e"
      proof
        assume "take (length (name e)) (drop i data) = name e"
        then obtain x where "drop i data = name e @ x" by (metis append_take_drop_id)
        with drop m(1) have "m @ CHR ''>'' # x = n @ CHR ''>'' # tail" by simp
        with same_name m(3) n(2) False show False by blast
      qed
      have not_empty: "\<not> (at data (?k - 1) = Some CHR ''/'' \<and> slice data spare i (?k - 1) = Some (butlast (name e)))"
      proof
        assume *: "at data (?k - 1) = Some CHR ''/'' \<and> slice data spare i (?k - 1) = Some (butlast (name e))"
        have "take (length m) (drop i data) = m" using * m(1) k by (simp add: slice_def split: if_splits)
        moreover have "drop i data ! length m = CHR ''/''" using * m(1) k by (simp add: at_def split: if_splits)
        moreover have "length m < length (drop i data)" using k m(1) by simp
        ultimately have "drop i data = m @ CHR ''/'' # drop (Suc (length m)) (drop i data)"
          by (metis append_take_drop_id Cons_nth_drop_Suc)
        with drop have "m @ CHR ''/'' # drop (Suc (length m)) (drop i data) = n @ CHR ''>'' # tail" by simp
        from slash_before [OF this m(3)] have "CHR ''/'' \<in> set n" .
        with n(3) show False by simp
      qed
      have "at data ?k = Some (data ! ?k)" using k by (simp add: at_def)
      then have "child_element data spare tree i entry = map_option (\<lambda>j. (j, entry)) (skip_element data i)"
        using leaf_node(1) s other not_empty by (auto simp: child_element_def Let_def)
      then show ?thesis using skipped none by simp
    qed
  qed
qed

subsection \<open>Entries\<close>

lemma entry_children_reads:
  assumes "data = pre @ children_text sep cs @ sep @ ''</entry>'' @ rest"
    and "list_all child_ok cs" and "list_all blank sep"
    and "i = length pre \<or> i = length pre + length sep"
    and "tree_for names tree" and "length entry = length names" and "names_fit names rest"
  shows "entry_children data spare tree i entry =
    Some (length (pre @ children_text sep cs @ sep @ ''</entry>''), fold (put names) cs entry)"
  using assms
proof (induction cs arbitrary: pre i entry)
  case Nil
  let ?m = "length pre + length sep + 2"
  have data: "data = pre @ sep @ CHR ''<'' # CHR ''/'' # CHR ''e'' # ''ntry>'' @ rest"
    using Nil.prems(1) by (simp add: children_text_def)
  have "skip (\<lambda>c. c \<le> CHR ''<'') data i = Some ?m"
    using skip_to_end_tag [OF data Nil.prems(3) _ Nil.prems(4)] char_order by simp
  moreover have "data ! (?m - 1) = CHR ''/''" by (simp add: data nth_append)
  ultimately show ?case
    by (subst entry_children.simps) (simp add: children_text_def)
next
  case (Cons c cs)
  obtain n v where c: "c = (n, v)" by (cases c)
  have n: "child_ok (n, v)" "n \<noteq> []" "\<not> hd n \<le> CHR ''<''"
    using Cons.prems(2) by (simp_all add: c child_ok_def child_name_def)
  have rest_text: "\<exists>r. children_text sep cs @ sep @ ''</entry>'' @ rest = sep @ CHR ''<'' # r \<and> names_fit names r"
  proof (cases cs)
    case Nil
    then show ?thesis using Cons.prems(7)
      by (intro exI [of _ "''/entry>'' @ rest"]) (auto simp: children_text_def names_fit_def list_all_iff)
  next
    case (Cons c' cs')
    then show ?thesis using Cons.prems(7)
      by (intro exI [of _ "fst c' @ ''>'' @ snd c' @ ''</'' @ fst c' @ ''>'' @ children_text sep cs' @ sep @ ''</entry>'' @ rest"])
        (fastforce simp: children_text_def child_text_def names_fit_def list_all_iff)
  qed
  then obtain r where r: "children_text sep cs @ sep @ ''</entry>'' @ rest = sep @ CHR ''<'' # r" "names_fit names r" by blast
  let ?m = "length pre + length sep + 1" and ?pre = "pre @ sep @ ''<''"
  obtain x xs where x: "n = x # xs" using n(2) by (cases n) auto
  have data: "data = ?pre @ n @ ''>'' @ v @ ''</'' @ n @ ''>'' @ sep @ CHR ''<'' # r"
    unfolding Cons.prems(1) r(1) [symmetric] by (simp add: children_text_def child_text_def c)
  have start: "skip (\<lambda>c. c \<le> CHR ''<'') data i = Some ?m"
    using skip_to_tag [of data pre sep x "xs @ ''>'' @ v @ ''</'' @ n @ ''>'' @ sep @ CHR ''<'' # r" i]
      data x n(3) Cons.prems(3,4) by simp
  have open_bracket: "data ! (?m - 1) = CHR ''<''" by (simp add: data nth_append)
  let ?next = "length (?pre @ n @ ''>'' @ v @ ''</'' @ n @ ''>'')"
  have "?m = length ?pre" by simp
  from child_element_reads [OF data n(1) Cons.prems(3) this Cons.prems(5,6) r(2), of spare]
  obtain j where j: "child_element data spare tree ?m entry = Some (j, put names (n, v) entry)"
    and "j = ?next \<or> j = length (?pre @ n @ ''>'' @ v @ ''</'' @ n @ ''>'' @ sep)" by blast
  then have later: "j = length (pre @ child_text sep c) \<or> j = length (pre @ child_text sep c) + length sep"
    by (auto simp: child_text_def c)
  have "entry_children data spare tree j (put names (n, v) entry) =
      Some (length ((pre @ child_text sep c) @ children_text sep cs @ sep @ ''</entry>''),
        fold (put names) cs (put names (n, v) entry))"
    using Cons.prems later by (intro Cons.IH) (simp_all add: children_text_def)
  then show ?case
    using start open_bracket j by (subst entry_children.simps) (simp add: c children_text_def)
qed

lemma scan_entries_reads:
  assumes "data = pre @ concat (map (entry_text sep) es) @ sep @ ''</audit>'' @ rest"
    and "list_all (list_all child_ok) es" and "list_all blank sep"
    and "i = length pre \<or> i = length pre + length sep"
    and "tree_for names tree" and "length fresh = length names" and "names_fit names (''</audit>'' @ rest)"
  shows "scan_entries data spare tree (Some fresh) i = map (\<lambda>cs. fold (put names) cs fresh) es"
  using assms
proof (induction es arbitrary: pre i)
  case Nil
  have data: "data = pre @ sep @ CHR ''<'' # CHR ''/'' # CHR ''a'' # ''udit>'' @ rest" using Nil.prems(1) by simp
  have "skip (\<lambda>c. c \<le> CHR ''<'') data i = Some (length pre + length sep + 2)"
    using skip_to_end_tag [OF data Nil.prems(3) _ Nil.prems(4)] char_order by simp
  moreover have "slice data spare (length pre + length sep + 2) (length pre + length sep + 2 + 6) = Some ''audit>''"
    by (rule slice_text [where pre = "pre @ sep @ ''</''" and rest = rest]) (simp_all add: data)
  ultimately show ?case by (subst scan_entries.simps) simp
next
  case (Cons cs es)
  let ?m = "length pre + length sep + 1"
  let ?rest = "concat (map (entry_text sep) es) @ sep @ ''</audit>'' @ rest"
  have data: "data = (pre @ sep @ ''<entry>'') @ children_text sep cs @ sep @ ''</entry>'' @ ?rest"
    using Cons.prems(1) by (simp add: entry_text_def [of sep cs])
  have "data = pre @ sep @ CHR ''<'' # CHR ''e'' # ''ntry>'' @ children_text sep cs @ sep @ ''</entry>'' @ ?rest"
    using data by simp
  then have start: "skip (\<lambda>c. c \<le> CHR ''<'') data i = Some ?m"
    using skip_to_tag Cons.prems(3,4) char_order(3) by blast
  have tag: "slice data spare ?m (?m + 6) = Some ''entry>''"
    by (rule slice_text [where pre = "pre @ sep @ ''<''" and rest = "children_text sep cs @ sep @ ''</entry>'' @ ?rest"])
      (simp_all add: data)
  have "names_fit names ?rest"
    using Cons.prems(7) unfolding names_fit_def list_all_iff by (auto intro: less_le_trans)
  then have "entry_children data spare tree (?m + 6) fresh =
      Some (length ((pre @ sep @ ''<entry>'') @ children_text sep cs @ sep @ ''</entry>''), fold (put names) cs fresh)"
    using Cons.prems by (intro entry_children_reads [OF data]) simp_all
  moreover have "scan_entries data spare tree (Some fresh)
      (length ((pre @ sep @ ''<entry>'') @ children_text sep cs @ sep @ ''</entry>'')) =
      map (\<lambda>cs. fold (put names) cs fresh) es"
    using Cons.prems data
    by (intro Cons.IH [where pre = "(pre @ sep @ ''<entry>'') @ children_text sep cs @ sep @ ''</entry>''"]) simp_all
  ultimately show ?case using start tag by (subst scan_entries.simps) simp
qed

lemma slice_inside: "i \<le> k \<Longrightarrow> k \<le> length data \<Longrightarrow> slice data spare i k = Some (take (k - i) (drop i data))"
  by (simp add: slice_def)

text \<open>The columns of a row: the last value with the name of the column, if there is one.\<close>

definition row_of :: "string list \<Rightarrow> (string \<times> string) list \<Rightarrow> string list" where
  "row_of names kvs = map (\<lambda>n. case map_of (rev kvs) n of None \<Rightarrow> [] | Some v \<Rightarrow> v) names"

lemma first_index_nth: "distinct names \<Longrightarrow> k < length names \<Longrightarrow> first_index (names ! k) p names = p + int k"
  by (induction names arbitrary: k p) (auto simp: nth_Cons split: nat.split)

lemma put_map: "distinct names \<Longrightarrow> put names (n, v) (map f names) = map (f(n := v)) names"
proof (rule nth_equalityI)
  fix k
  assume d: "distinct names" and "k < length (put names (n, v) (map f names))"
  then have k: "k < length names" by simp
  from first_index_range [of 0 n names, OF order_refl] show "put names (n, v) (map f names) ! k = map (f(n := v)) names ! k"
  proof
    assume "first_index n 0 names = -1 \<and> n \<notin> set names"
    with k show ?thesis by (auto simp: put_def)
  next
    assume r: "0 \<le> first_index n 0 names \<and> first_index n 0 names < 0 + int (length names) \<and> n \<in> set names"
    then obtain l where l: "l < length names" "names ! l = n" by (auto simp: in_set_conv_nth)
    with first_index_nth [OF d, of l 0] k d show ?thesis
      by (auto simp: put_def nth_list_update nth_eq_iff_index_eq)
  qed
qed simp

lemma fold_put_row:
  assumes "distinct names"
  shows "fold (put names) kvs (replicate (length names) []) = row_of names kvs"
proof -
  have "fold (put names) kvs (map f names) = map (\<lambda>n. case map_of (rev kvs) n of None \<Rightarrow> f n | Some v \<Rightarrow> v) names" for f
  proof (induction kvs arbitrary: f)
    case (Cons kv kvs)
    then show ?case using put_map [OF assms] by (cases kv) (auto simp: map_add_def split: option.split)
  qed simp
  from this [of "\<lambda>n. []"] show ?thesis by (simp add: row_of_def map_replicate_const)
qed

definition defaults :: "scan_defaults \<Rightarrow> (string \<times> string) list" where
  "defaults d = [(''macaddress'', def_mac d), (''ipaddress'', def_ip d), (''hostname'', def_host d), (''lastaudit'', def_last d)]"

lemma new_entry_puts:
  assumes "tree_for names tree"
  shows "new_entry tree (length names) d = Some (fold (put names) (defaults d) (replicate (length names) []))"
proof -
  have index: "IndexOf tree (m @ ''>'') = Some (first_index m 0 names)" if "element_name m" for m
    using that assms by (simp add: IndexOf_def tree_for_def)
  have "element_name ''macaddress''" "element_name ''ipaddress''" "element_name ''hostname''" "element_name ''lastaudit''"
    by code_simp+
  from this [THEN index] have i: "IndexOf tree ''macaddress>'' = Some (first_index ''macaddress'' 0 names)"
    "IndexOf tree ''ipaddress>'' = Some (first_index ''ipaddress'' 0 names)"
    "IndexOf tree ''hostname>'' = Some (first_index ''hostname'' 0 names)"
    "IndexOf tree ''lastaudit>'' = Some (first_index ''lastaudit'' 0 names)" by simp_all
  have "store_if (first_index m 0 names) v entry = Some (put names (m, v) entry)" if "length entry = length names" for m v entry
    using first_index_range [of 0 m names] that by (auto simp: store_if_def store_def put_def Let_def)
  then show ?thesis by (simp add: new_entry_def i defaults_def)
qed

subsection \<open>The head of a file\<close>

definition head_ok :: "string \<times> string \<Rightarrow> bool" where
  "head_ok c \<longleftrightarrow> child_ok c \<and> fst c \<noteq> ''entry'' \<and> CHR ''>'' \<notin> set (snd c)"

lemma skip_unknown_text:
  assumes "data = pre @ n @ ''>'' @ v @ ''</'' @ n @ ''>'' @ rest" and "child_ok (n, v)" and "i = length pre"
  shows "skip_unknown data i = Some (length (pre @ n @ ''>'' @ v @ ''</'' @ n @ ''>''))"
proof -
  have "list_all (\<lambda>c. c \<noteq> CHR ''<'') (n @ ''>'' @ v)" "list_all (\<lambda>c. c \<noteq> CHR ''>'') n"
    using assms(2) by (auto simp: child_ok_def child_name_def list_all_iff)
  moreover from this have "nextTag data i = Some (length pre + length (n @ ''>'' @ v))"
    unfolding nextTag_def using assms(1,3)
    by (intro skip_text [where rest = "CHR ''/'' # n @ ''>'' @ rest" and c = "CHR ''<''"]) simp_all
  moreover have "skip (\<lambda>c. c \<noteq> CHR ''>'') data (length (pre @ n @ ''>'' @ v)) =
      Some (length (pre @ n @ ''>'' @ v) + length (''</'' @ n))"
    using assms(1) calculation(2) by (intro skip_text [where rest = rest and c = "CHR ''>''"]) simp_all
  ultimately show ?thesis unfolding skip_unknown_def by (simp add: add.assoc)
qed

lemma head_element_text:
  assumes "data = pre @ n @ ''>'' @ v @ ''</'' @ n @ ''>'' @ rest" and "child_ok (n, v)" and "i = length pre"
    and "element_name m" and "length m \<le> length rest"
  shows "head_element data spare i (m @ ''>'') =
    Some (length (pre @ n @ ''>'' @ v @ ''</'' @ n @ ''>''), if n = m then Some v else None)"
proof (cases "n = m")
  case True
  have v: "list_all (\<lambda>c. c \<noteq> CHR ''<'') v" using assms(2) by (auto simp: child_ok_def list_all_iff)
  let ?k = "length (pre @ n @ ''>'')"
  have "slice data spare i ?k = Some (n @ ''>'')"
    using assms(1,3) by (intro slice_text [where rest = "v @ ''</'' @ n @ ''>'' @ rest"]) simp_all
  moreover have "nextTag data ?k = Some (?k + length v)"
    unfolding nextTag_def using assms(1) v
    by (intro skip_text [where rest = "CHR ''/'' # n @ ''>'' @ rest" and c = "CHR ''<''"]) simp_all
  moreover have "slice data spare ?k (?k + length v) = Some v"
    using assms(1) by (intro slice_text [where rest = "''</'' @ n @ ''>'' @ rest" and pre = "pre @ n @ ''>''"]) simp_all
  ultimately show ?thesis using True assms(3) by (simp add: head_element_def)
next
  case False
  let ?s = "take (length m + 1) (drop i data)"
  have s: "slice data spare i (i + length (m @ ''>'')) = Some ?s"
    using assms(1,3,5) slice_inside [of i "i + length (m @ ''>'')" data spare] by simp
  have "?s \<noteq> m @ ''>''"
  proof
    assume "?s = m @ ''>''"
    then obtain x where "drop i data = m @ CHR ''>'' # x"
      by (metis append_take_drop_id append.assoc append.simps)
    moreover have "drop i data = n @ CHR ''>'' # v @ ''</'' @ n @ ''>'' @ rest" using assms(1,3) by simp
    ultimately have "m = n"
      using assms(2,4) same_name by (metis child_ok_def child_name_def element_name_def fst_conv)
    with False show False by simp
  qed
  with s skip_unknown_text [OF assms(1-3)] False show ?thesis by (simp add: head_element_def)
qed

definition last_value :: "string \<Rightarrow> (string \<times> string) list \<Rightarrow> string \<Rightarrow> string" where
  "last_value n cs old = (case map_of (rev cs) n of None \<Rightarrow> old | Some v \<Rightarrow> v)"

lemma last_value_Cons: "last_value n (c # cs) old = last_value n cs (if fst c = n then snd c else old)"
  by (cases c) (auto simp: last_value_def map_add_def split: option.split)

lemma find_entry_reads:
  assumes "data = pre @ children_text sep cs @ sep @ ''<entry>'' @ rest"
    and "list_all head_ok cs" and "list_all blank sep" and "i = length pre" and "length rest \<ge> 10"
  shows "find_entry data spare i ip host =
    (int (length (pre @ children_text sep cs @ sep)), last_value ''ipaddress'' cs ip, last_value ''hostname'' cs host)"
  using assms
proof (induction cs arbitrary: pre i ip host)
  case Nil
  let ?m = "length pre + length sep + 1"
  have data: "data = pre @ sep @ CHR ''<'' # CHR ''e'' # ''ntry>'' @ rest" using Nil.prems(1) by (simp add: children_text_def)
  have "skip (\<lambda>c. c \<le> CHR ''<'') data i = Some ?m"
    using skip_to_tag [OF data Nil.prems(3)] Nil.prems(4) char_order(3) by simp
  moreover have "slice data spare ?m (?m + 6) = Some ''entry>''"
    by (rule slice_text [where pre = "pre @ sep @ ''<''" and rest = rest]) (simp_all add: data)
  moreover have "data ! ?m = CHR ''e''" by (simp add: data nth_append)
  ultimately show ?case
    by (subst find_entry.simps) (simp add: children_text_def last_value_def)
next
  case (Cons c cs)
  obtain n v where c: "c = (n, v)" by (cases c)
  have n: "child_ok (n, v)" "n \<noteq> []" "\<not> hd n \<le> CHR ''<''" "n \<noteq> ''entry''" "CHR ''>'' \<notin> set n"
    using Cons.prems(2) by (simp_all add: c head_ok_def child_ok_def child_name_def)
  obtain x xs where x: "n = x # xs" using n(2) by (cases n) auto
  let ?pre = "pre @ sep @ ''<''"
  define m where "m = length pre + length sep + 1"
  define r where "r = children_text sep cs @ sep @ ''<entry>'' @ rest"
  have r: "10 \<le> length r" using Cons.prems(5) by (simp add: r_def)
  have data: "data = ?pre @ n @ ''>'' @ v @ ''</'' @ n @ ''>'' @ r"
    unfolding Cons.prems(1) r_def by (simp add: children_text_def child_text_def c)
  have start: "skip (\<lambda>c. c \<le> CHR ''<'') data i = Some m"
    using skip_to_tag [of data pre sep x "xs @ ''>'' @ v @ ''</'' @ n @ ''>'' @ r" i] data x n(3) Cons.prems(3,4) by (simp add: m_def)
  have head: "data ! m = x" by (simp add: data x nth_append m_def)
  let ?j = "length (pre @ child_text sep c)"
  have known: "head_element data spare m (k @ ''>'') = Some (?j, if n = k then Some v else None)"
    if "element_name k" "length k \<le> 10" for k
    using head_element_text [OF data n(1) _ that(1), of m spare] that(2) r by (simp add: child_text_def c m_def)
  have host: "head_element data spare m ''hostname>'' = Some (?j, if n = ''hostname'' then Some v else None)"
    and ip: "head_element data spare m ''ipaddress>'' = Some (?j, if n = ''ipaddress'' then Some v else None)"
    using known [of "''hostname''"] known [of "''ipaddress''"] by (simp_all add: element_name_def)
  have unknown: "skip_unknown data m = Some ?j"
    using skip_unknown_text [OF data n(1), of m] by (simp add: child_text_def c m_def)
  have sl: "slice data spare m (m + 6) = Some (take 6 (drop m data))"
    using r slice_inside [of m "m + 6" data spare] by (simp add: data m_def)
  have not_entry: "take 6 (drop m data) \<noteq> ''entry>''"
  proof
    assume "take 6 (drop m data) = ''entry>''"
    then obtain y where "drop m data = ''entry'' @ CHR ''>'' # y"
      by (metis append_take_drop_id append.simps)
    moreover have "drop m data = n @ CHR ''>'' # v @ ''</'' @ n @ ''>'' @ r" by (simp add: data m_def)
    ultimately have "''entry'' @ CHR ''>'' # y = n @ CHR ''>'' # v @ ''</'' @ n @ ''>'' @ r" by (simp only:)
    from same_name [OF this _ n(5)] have "''entry'' = n" by simp
    with n(4) show False by simp
  qed
  have "find_entry data spare i ip host =
      find_entry data spare ?j (if n = ''ipaddress'' then v else ip) (if n = ''hostname'' then v else host)"
    using x by (subst find_entry.simps) (simp add: start head host ip unknown sl not_entry Let_def)
  also have "\<dots> = (int (length ((pre @ child_text sep c) @ children_text sep cs @ sep)),
      last_value ''ipaddress'' cs (if n = ''ipaddress'' then v else ip),
      last_value ''hostname'' cs (if n = ''hostname'' then v else host))"
    using Cons.prems by (intro Cons.IH) (simp_all add: children_text_def)
  finally show ?case by (simp add: children_text_def last_value_Cons c)
qed


definition audit_text :: "string \<Rightarrow> (string \<times> string) list \<Rightarrow> (string \<times> string) list list \<Rightarrow> string \<Rightarrow> string" where
  "audit_text sep hs es tail =
     ''<audit>'' @ children_text sep hs @ concat (map (entry_text sep) es) @ sep @ ''</audit>'' @ tail"

lemma findFirstEntry_reads:
  assumes "list_all head_ok hs" and "list_all blank sep" and "es \<noteq> []"
  shows "findFirstEntry (audit_text sep hs es tail) spare =
    (int (length (''<audit>'' @ children_text sep hs @ sep)), last_value ''ipaddress'' hs [], last_value ''hostname'' hs [])"
proof -
  obtain cs es' where es: "es = cs # es'" using assms(3) by (cases es) auto
  define data where "data = audit_text sep hs es tail"
  define rest where "rest = children_text sep cs @ sep @ ''</entry>'' @ concat (map (entry_text sep) es') @ sep @ ''</audit>'' @ tail"
  have data: "data = ''<audit>'' @ children_text sep hs @ sep @ ''<entry>'' @ rest"
    by (simp add: data_def audit_text_def es entry_text_def [of sep cs] rest_def)
  have "find_entry data spare 7 [] [] =
      (int (length (''<audit>'' @ children_text sep hs @ sep)), last_value ''ipaddress'' hs [], last_value ''hostname'' hs [])"
    using assms by (intro find_entry_reads [OF data]) (simp_all add: rest_def)
  moreover have "at data 0 = Some CHR ''<''" "at data 1 = Some CHR ''a''" by (simp_all add: data at_def)
  moreover have "skip (\<lambda>c. c \<le> CHR '' '') data 0 = Some 0"
    using skip_text [of data "[]" "[]" "CHR ''<''" _ "\<lambda>c. c \<le> CHR '' ''" 0] char_order(5) by (simp add: data blank_def)
  moreover have "slice data spare 0 (0 + 7) = Some ''<audit>''"
    by (rule slice_text [where pre = "[]"]) (simp_all add: data)
  ultimately show ?thesis unfolding data_def [symmetric] by (simp add: findFirstEntry_def)
qed

text \<open>C29: Audit files are read back. From a file that consists of audit with its host name and
  address and any number of entries, with any blanks between the tags, each entry is handed to
  the function once, in order, as the row of the requested columns: the value of the child of
  that name wherever it stands in the entry, else what is known of the machine, else nothing.
  (A requested name must be shorter than what follows the last entry.)\<close>

theorem audit_file_is_read:
  assumes "list_all head_ok hs" and "es \<noteq> []" and "list_all (list_all child_ok) es" and "list_all blank sep"
    and "distinct (props q)" and "names_fit (props q) (''</audit>'' @ tail)"
    and "makePropTree (props q) = Some tree" and "contains q = []"
  shows "scan_data q tree mac best last_one (audit_text sep hs es tail) spare res =
    res\<lparr>calls := calls res @ map (\<lambda>cs. row_of (props q)
      (defaults \<lparr>def_mac = mac, def_ip = last_value ''ipaddress'' hs [], def_host = last_value ''hostname'' hs [],
         def_last = auditFilenameToTimestamp last_one\<rparr> @ cs)) es\<rparr>"
proof -
  define d where "d = \<lparr>def_mac = mac, def_ip = last_value ''ipaddress'' hs [], def_host = last_value ''hostname'' hs [],
         def_last = auditFilenameToTimestamp last_one\<rparr>"
  define fresh where "fresh = fold (put (props q)) (defaults d) (replicate (length (props q)) [])"
  have tree: "tree_for (props q) tree" using makePropTree_for [of "props q"] assms(7) by auto
  have "length (fold (put names) kvs entry) = length entry" for names kvs entry
    by (induction kvs arbitrary: entry) simp_all
  then have fresh: "length fresh = length (props q)" by (simp add: fresh_def)
  have "scan_entries (audit_text sep hs es tail) spare tree (Some fresh)
      (length (''<audit>'' @ children_text sep hs) + length sep) = map (\<lambda>cs. fold (put (props q)) cs fresh) es"
    using assms tree fresh
    by (intro scan_entries_reads [where sep = sep and pre = "''<audit>'' @ children_text sep hs" and rest = tail] disjI2 refl)
      (simp_all add: audit_text_def)
  also have "\<dots> = map (\<lambda>cs. row_of (props q) (defaults d @ cs)) es"
    by (simp add: fresh_def fold_put_row [OF assms(5), symmetric])
  finally have scanned: "scan_entries (audit_text sep hs es tail) spare tree (Some fresh)
      (length (''<audit>'' @ children_text sep hs) + length sep) = map (\<lambda>cs. row_of (props q) (defaults d @ cs)) es" .
  have "nat (int (length (''<audit>'' @ children_text sep hs @ sep))) = length (''<audit>'' @ children_text sep hs) + length sep"
    by (simp only: nat_int length_append add.assoc)
  with scanned have "auditScanFile d (audit_text sep hs es tail) spare
      (nat (int (length (''<audit>'' @ children_text sep hs @ sep)))) tree (length (props q)) =
      map (\<lambda>cs. row_of (props q) (defaults d @ cs)) es"
    unfolding auditScanFile_def new_entry_puts [OF tree] fresh_def by (simp only:)
  then show ?thesis
    using findFirstEntry_reads [OF assms(1,4,2)] assms(8) by (simp add: scan_data_def d_def)
qed

definition example_audit :: audit_query where
  "example_audit = \<lparr>ts1 = ''20160101000000'', ts2 = ''20161231235959'', xmlname = ''packages'', contains = [],
     props = [''version'', ''key'', ''hostname''], returnothers = False\<rparr>"

theorem audit_file_is_read_witness:
  "\<exists>tree. makePropTree (props example_audit) = Some tree \<and>
    calls (scan_data example_audit tree ''00:11:22:33:44:5a'' [] [] (audit_text '' '' [(''hostname'', ''pc1'')]
      [[(''key'', ''vim''), (''version'', ''8'')], [(''version'', ''1''), (''size'', ''3'')]] ''  '') [] no_scan) =
    [[''8'', ''vim'', ''pc1''], [''1'', [], ''pc1'']]"
proof -
  obtain tree where tree: "makePropTree (props example_audit) = Some tree" using makePropTree_for by blast
  have "list_all head_ok [(''hostname'', ''pc1'')]" "[[(''key'', ''vim''), (''version'', ''8'')], [(''version'', ''1''), (''size'', ''3'')]] \<noteq> []"
    "list_all (list_all child_ok) [[(''key'', ''vim''), (''version'', ''8'')], [(''version'', ''1''), (''size'', ''3'')]]"
    "list_all blank '' ''" "distinct (props example_audit)" "names_fit (props example_audit) (''</audit>'' @ ''  '')" by code_simp+
  from audit_file_is_read [OF this tree, of "''00:11:22:33:44:5a''" "[]" "[]" "[]" no_scan] tree show ?thesis
    by (intro exI [of _ tree]) (simp add: example_audit_def no_scan_def row_of_def defaults_def last_value_def)
qed

section \<open>What is not read\<close>

definition example_with_empty_tag :: string where
  "example_with_empty_tag =
     ''<audit><foo/><entry><key>vim</key></entry><entry><key>emacs</key></entry></audit>''"

definition example_short_file :: string where
  "example_short_file = ''<audit><entry><key>vim</key><ver>1</ver></entry></audit>''"

text \<open>
  An empty tag before the first entry: the end tag of that entry is taken for the first one, and
  the values of both entries are lost.
\<close>

lemma empty_tag_hides_entries:
  "findFirstEntry example_with_empty_tag [] = (35, [], [])"
  "map_option (\<lambda>t. calls (scan_data (example_audit\<lparr>props := [''key'']\<rparr>) t ''m'' [] [] example_with_empty_tag [] no_scan))
     (makePropTree [''key'']) = Some [[[]], [[]]]"
  by code_simp+

text \<open>
  A requested name that is longer than what follows a tag with the same beginning: reading
  behind the end panics, and the entry is lost although it has the other column.
\<close>

lemma long_name_loses_entries:
  "map_option (\<lambda>t. calls (scan_data (example_audit\<lparr>props := [''key'', ''version-of-the-software-in-this-package'']\<rparr>) t
       ''m'' [] [] example_short_file [] no_scan))
     (makePropTree [''key'', ''version-of-the-software-in-this-package'']) = Some []"
  by code_simp

text \<open>The search for a string does not look at the end of the file.\<close>

lemma end_is_not_searched: "\<not> file_contains ''<audit></audit>'' ''</audit>''"
  by code_simp

end
