(* ===== verification/AuditQuery.thy ===== *)
theory AuditQuery
  imports AuditFiles HashFilter "HOL-Library.Multiset"
begin

text \<open>
  The queries on the stored audit data: go-susi/message/gosa_query_audit.go with its filters
  on the rows of an audit, and gosa_query_audit_aggregate.go, which counts rows.
\<close>

section \<open>Filters on rows\<close>

text \<open>The filters of xml_filter.go once more, with the number of a column instead of its name.\<close>

datatype entry_filter =
    EntryNone
  | EntryAnd "entry_filter list"
  | EntryOr "entry_filter list"
  | EntryRegexp nat string
  | EntryNot entry_filter
  | EntryRel nat string int int int

fun entry_accepts :: "entry_filter \<Rightarrow> string list option \<Rightarrow> bool" where
  "entry_accepts f None = False"
| "entry_accepts EntryNone (Some item) = False"
| "entry_accepts (EntryAnd fs) (Some item) = list_all (\<lambda>f. entry_accepts f (Some item)) fs"
| "entry_accepts (EntryOr fs) (Some item) = list_ex (\<lambda>f. entry_accepts f (Some item)) fs"
| "entry_accepts (EntryRegexp c re) (Some item) = MatchString re (item ! c)"
| "entry_accepts (EntryNot f) (Some item) = (\<not> entry_accepts f (Some item))"
| "entry_accepts (EntryRel c v n a1 a2) (Some item) = filterrel_value v n a1 a2 (item ! c)"

interpretation ef: item_filter entry_accepts EntryAnd EntryOr EntryNot
  by unfold_locales auto

definition filterRel :: "nat \<Rightarrow> string \<Rightarrow> int \<Rightarrow> int \<Rightarrow> entry_filter" where
  "filterRel column compare_value accept1 accept2 =
     EntryRel column compare_value
       (case ParseInt compare_value of None \<Rightarrow> MinInt64 | Some num \<Rightarrow> num) accept1 accept2"

text \<open>\<open>prop_index\<close> and \<open>props\<close> of the handlers.\<close>

record columns =
  prop_index :: "string \<Rightarrow> nat option"
  col_names :: "string list"

definition column_number :: "string \<Rightarrow> columns \<Rightarrow> columns \<times> nat" where
  "column_number column cols =
     (case prop_index cols column of
        Some col \<Rightarrow> (cols, col)
      | None \<Rightarrow>
          (let col = length (col_names cols) in
           (\<lparr>prop_index = (prop_index cols)(column \<mapsto> col), col_names = col_names cols @ [column]\<rparr>, col)))"

definition entry_phrase_filter :: "string \<Rightarrow> nat \<Rightarrow> string \<Rightarrow> where_error + entry_filter" where
  "entry_phrase_filter operator col compare_value =
     (let quoted = QuoteMeta compare_value in
      if operator = ''eq'' then Inr (EntryRegexp col (''^(?i)'' @ quoted @ ''$''))
      else if operator = ''ne'' then Inr (EntryNot (EntryRegexp col (''^(?i)'' @ quoted @ ''$'')))
      else if operator = ''ge'' then Inr (filterRel col compare_value 1 0)
      else if operator = ''gt'' then Inr (filterRel col compare_value 1 1)
      else if operator = ''le'' then Inr (filterRel col compare_value (-1) 0)
      else if operator = ''lt'' then Inr (filterRel col compare_value (-1) (-1))
      else if operator = ''like'' then Inr (EntryRegexp col (''^(?i)'' @ replace_like quoted @ ''$''))
      else if operator = ''unlike'' then
        Inr (EntryNot (EntryRegexp col (''^(?i)'' @ replace_like quoted @ ''$'')))
      else Inl (BadOperator operator))"

definition entry_phrase :: "hash \<Rightarrow> columns \<Rightarrow> columns \<times> (where_error + entry_filter)" where
  "entry_phrase phrase cols =
     (let op0 = ToLower (text_of ''operator'' phrase);
          operator = (if op0 = [] then ''eq'' else op0)
      in case phrase_column (Subtags phrase) [] of
           Inl e \<Rightarrow> (cols, Inl e)
         | Inr column \<Rightarrow>
             (let (cols, col) = column_number column cols
              in (cols, entry_phrase_filter operator col (text_of column phrase))))"

text \<open>A loop that stops at the first error; the columns found until then stay.\<close>

fun collect_with :: "('a \<Rightarrow> 's \<Rightarrow> 's \<times> ('e + 'b)) \<Rightarrow> 'a list \<Rightarrow> 's \<Rightarrow> 's \<times> ('e + 'b list)" where
  "collect_with f [] s = (s, Inr [])"
| "collect_with f (x # xs) s =
     (case f x s of
        (s, Inl e) \<Rightarrow> (s, Inl e)
      | (s, Inr y) \<Rightarrow>
          (case collect_with f xs s of
             (s, Inl e) \<Rightarrow> (s, Inl e)
           | (s, Inr ys) \<Rightarrow> (s, Inr (y # ys))))"

definition entry_clause :: "hash \<Rightarrow> columns \<Rightarrow> columns \<times> (where_error + entry_filter)" where
  "entry_clause clause cols =
     (let c0 = ToLower (text_of ''connector'' clause);
          connector = (if c0 = [] then ''and'' else c0)
      in if connector \<noteq> ''and'' \<and> connector \<noteq> ''or'' then (cols, Inl (BadConnector connector))
         else case collect_with entry_phrase (iter_named ''phrase'' (kids clause)) cols of
                (cols, Inl e) \<Rightarrow> (cols, Inl e)
              | (cols, Inr phrases) \<Rightarrow>
                  (cols, Inr (if connector = ''and'' then EntryAnd phrases else EntryOr phrases)))"

definition whereFilter :: "hash \<Rightarrow> columns \<Rightarrow> columns \<times> (where_error + entry_filter)" where
  "whereFilter whr cols =
     (case collect_with entry_clause (iter_named ''clause'' (kids whr)) cols of
        (cols, Inl e) \<Rightarrow> (cols, Inl e)
      | (cols, Inr clauses) \<Rightarrow> (cols, Inr (EntryAnd clauses)))"

section \<open>gosa_query_audit\<close>

text \<open>
  \<open>limitfilter\<close>: what the wrapped filter says, and how many entries may still be accepted;
  the result and what is left then.
\<close>

definition limited :: "bool \<Rightarrow> int \<Rightarrow> bool \<times> int" where
  "limited accepts_it left =
     (if left < 0 then (False, left)
      else if accepts_it then (\<not> left - 1 < 0, left - 1)
      else (False, left))"

definition limitFilter :: "int \<Rightarrow> bool \<Rightarrow> int \<Rightarrow> bool \<times> int" where
  "limitFilter maximum accepts_it left = (if maximum \<le> 0 then (accepts_it, left) else limited accepts_it left)"

definition addAuditID :: "AuditID \<Rightarrow> hash \<Rightarrow> hash" where
  "addAuditID aid nm =
     (let nm = (if Timestamp aid \<noteq> [] then Add ''lastaudit'' [Timestamp aid] nm else nm);
          nm = (if MAC aid \<noteq> [] then Add ''macaddress'' [MAC aid] nm else nm);
          nm = (if IP aid \<noteq> [] then Add ''ipaddress'' [IP aid] nm else nm)
      in if Hostname aid \<noteq> [] then Add ''hostname'' [Hostname aid] nm else nm)"

text \<open>The columns of the elements select, without duplicates.\<close>

definition select_columns :: "hash \<Rightarrow> columns" where
  "select_columns xmlmsg =
     fold (\<lambda>col cols. fst (column_number col cols)) (get1 ''select'' xmlmsg)
       \<lparr>prop_index = Map.empty, col_names = []\<rparr>"

definition default_text :: "string \<Rightarrow> string \<Rightarrow> string" where
  "default_text d s = (if s = [] then d else s)"

definition audit_request :: "hash \<Rightarrow> string list \<Rightarrow> audit_query" where
  "audit_request xmlmsg names =
     \<lparr>ts1 = default_text ''0000_01_01_00_00_00'' (text_of ''tstart'' xmlmsg),
      ts2 = default_text ''9999_12_31_23_59_59'' (text_of ''tend'' xmlmsg),
      xmlname = default_text ''......'' (text_of ''audit'' xmlmsg),
      contains = [], props = names, returnothers = (First ''includeothers'' xmlmsg \<noteq> None)\<rparr>"

text \<open>
  The columns with that of the MAC address, its number, and the filter, which accepts nothing
  after an error.
\<close>

definition query_columns :: "hash \<Rightarrow> columns \<times> nat \<times> entry_filter" where
  "query_columns xmlmsg =
     (let (cols, macindex) = column_number ''macaddress'' (select_columns xmlmsg);
          whr = (case First ''where'' xmlmsg of None \<Rightarrow> NewHash ''where'' [] | Some w \<Rightarrow> w)
      in case whereFilter whr cols of
           (cols, Inl e) \<Rightarrow> (cols, macindex, EntryNone)
         | (cols, Inr f) \<Rightarrow> (cols, macindex, f))"

definition answer_element :: "nat \<Rightarrow> string list \<Rightarrow> string list \<Rightarrow> hash" where
  "answer_element num names values =
     fold (\<lambda>(n, v). Add n [v]) (zip names values) (NewHash (''answer'' @ itoa num) [])"

record query_state =
  reply :: hash
  known :: "string list"
  match2 :: "string list"
  nonmatch2 :: "AuditID list"
  answer_count :: nat
  answers_left :: int

text \<open>The function that is called for each entry.\<close>

definition query_entry ::
  "int \<Rightarrow> nat \<Rightarrow> nat \<Rightarrow> string list \<Rightarrow> entry_filter \<Rightarrow> bool \<Rightarrow> string list \<Rightarrow> query_state \<Rightarrow> query_state" where
  "query_entry maximum macindex selected names f includeothers entry st =
     (let mac = entry ! macindex;
          st = st\<lparr>known := List.insert mac (known st)\<rparr>;
          (accepted, left) = limitFilter maximum (entry_accepts f (Some entry)) (answers_left st);
          st = st\<lparr>answers_left := left\<rparr>
      in if accepted then
           st\<lparr>match2 := List.insert mac (match2 st),
             reply := AddWithOwnership (answer_element (answer_count st) (take selected names) (take selected entry)) (reply st),
             answer_count := answer_count st + 1\<rparr>
         else if includeothers \<and> mac \<notin> MAC ` set (nonmatch2 st) then
           st\<lparr>nonmatch2 := nonmatch2 st @ [only_mac mac]\<rparr>
         else st)"

definition reply_header :: "string \<Rightarrow> string \<Rightarrow> hash \<Rightarrow> hash" where
  "reply_header header server xmlmsg =
     Add ''target'' [text_of ''source'' xmlmsg] (Add ''source'' [server] (NewHash ''xml'' [''header'', header]))"

text \<open>\<open>order\<close> is the order in which Go visits the map nonmatch2. None: a panic.\<close>

definition gosa_query_audit ::
  "string \<Rightarrow> audit_disk \<Rightarrow> string \<Rightarrow> (AuditID list \<Rightarrow> AuditID list) \<Rightarrow> int \<Rightarrow> hash \<Rightarrow> hash option" where
  "gosa_query_audit server disk FAILogPath order MaxAnswers xmlmsg =
     (let selected = length (col_names (select_columns xmlmsg));
          (cols, macindex, f) = query_columns xmlmsg;
          q = audit_request xmlmsg (col_names cols)
      in map_option (\<lambda>res.
           let st = fold (query_entry MaxAnswers macindex selected (col_names cols) f (returnothers q)) (calls res)
                 \<lparr>reply = reply_header ''query_audit'' server xmlmsg, known = [], match2 = [], nonmatch2 = [],
                  answer_count = 1, answers_left = MaxAnswers\<rparr>;
               nonmatching = nonmatch res @ filter (\<lambda>nm2. MAC nm2 \<notin> set (match2 st)) (order (nonmatch2 st));
               audit = fold (\<lambda>nm. AddWithOwnership (addAuditID nm (NewHash ''nonmatching'' []))) nonmatching (reply st);
               audit = fold (\<lambda>na. AddWithOwnership (addAuditID na (NewHash ''noaudit'' []))) (noaudit res) audit
           in Add ''unknown'' [itoa (unknown res)] (Add ''known'' [itoa (length (known st))] audit))
         (AuditScanSubdirs disk q FAILogPath []))"

section \<open>gosa_query_audit_aggregate\<close>

record aggspec =
  AggName :: string
  AggFilter :: entry_filter
  UniqueIndex :: "nat list"

text \<open>One element count; one that is ignored leaves everything as it is.\<close>

definition unique_columns :: "hash \<Rightarrow> columns \<Rightarrow> columns \<times> nat list" where
  "unique_columns num cols =
     fold (\<lambda>unique (cols, uindexes).
       let uname = TrimSpace (own_text unique) in
       if uname = [] then (cols, uindexes)
       else (let (cols, uindex) = column_number uname cols in (cols, uindexes @ [uindex])))
       (iter_named ''unique'' (kids num)) (cols, [])"

definition add_count :: "nat \<Rightarrow> hash \<Rightarrow> columns \<times> aggspec list \<Rightarrow> columns \<times> aggspec list" where
  "add_count selected num st =
     (let (cols, aggregates) = st; n = TrimSpace (text_of ''as'' num) in
      if n = [] then st
      else if (case prop_index cols n of None \<Rightarrow> False | Some idx \<Rightarrow> idx < selected) then st
      else
        (let (cols, uindexes) = unique_columns num cols;
             whr = (case First ''where'' num of None \<Rightarrow> NewHash ''where'' [] | Some w \<Rightarrow> w)
         in case whereFilter whr cols of
              (cols, Inl e) \<Rightarrow> (cols, aggregates @ [\<lparr>AggName = n, AggFilter = EntryNone, UniqueIndex = uindexes\<rparr>])
            | (cols, Inr f) \<Rightarrow> (cols, aggregates @ [\<lparr>AggName = n, AggFilter = f, UniqueIndex = uindexes\<rparr>])))"

text \<open>A counter, with the combinations of the unique columns that have been counted.\<close>

type_synonym tally = "nat \<times> string list"

definition joined :: "string list \<Rightarrow> string" where
  "joined vs = concat (map (\<lambda>v. v @ ''<'') vs)"

definition count_unique :: "string \<Rightarrow> tally \<Rightarrow> tally" where
  "count_unique uni t =
     (let (n, seen) = t in
      if uni \<in> set seen then t else (n + 1, if uni \<noteq> [] then uni # seen else seen))"

definition count_entry :: "string list \<Rightarrow> aggspec \<Rightarrow> tally \<Rightarrow> tally" where
  "count_entry entry a t =
     (if entry_accepts (AggFilter a) (Some entry)
      then count_unique (joined (map (\<lambda>k. entry ! k) (UniqueIndex a))) t else t)"

text \<open>\<open>answers\<close>: for each key the selected values and the counters.\<close>

record aggregate_state =
  agg_known :: "string list"
  answers :: "(string \<times> string list \<times> tally list) list"
  master :: "tally list"

definition aggregate_entry ::
  "int \<Rightarrow> nat \<Rightarrow> nat \<Rightarrow> aggspec list \<Rightarrow> string list \<Rightarrow> aggregate_state \<Rightarrow> aggregate_state" where
  "aggregate_entry MaxAnswers macindex selected aggs entry st =
     (let key = (if selected > 0 then joined (take selected entry) else []);
          st = st\<lparr>agg_known := List.insert (entry ! macindex) (agg_known st)\<rparr>;
          (st, key) =
            (if selected > 0 \<and> map_of (answers st) key = None then
               (if int (length (answers st)) < MaxAnswers
                then (st\<lparr>answers := answers st @ [(key, take selected entry, map (\<lambda>a. (0, [])) aggs)]\<rparr>, key)
                else (st, []))
             else (st, key))
      in st\<lparr>master := map2 (count_entry entry) aggs (master st),
            answers := (if key \<noteq> []
              then map (\<lambda>(k, sel, ts). (k, sel, if k = key then map2 (count_entry entry) aggs ts else ts)) (answers st)
              else answers st)\<rparr>)"

definition aggregate_all :: "int \<Rightarrow> nat \<Rightarrow> nat \<Rightarrow> aggspec list \<Rightarrow> string list list \<Rightarrow> aggregate_state" where
  "aggregate_all MaxAnswers macindex selected aggs entries =
     fold (aggregate_entry MaxAnswers macindex selected aggs) entries
       \<lparr>agg_known = [], answers = [], master = map (\<lambda>a. (0, [])) aggs\<rparr>"

definition with_counts :: "aggspec list \<Rightarrow> tally list \<Rightarrow> hash \<Rightarrow> hash" where
  "with_counts aggs ts h = fold (\<lambda>(a, t). Add (AggName a) [itoa (fst t)]) (zip aggs ts) h"

text \<open>\<open>order\<close> is the order in which Go visits the map of the answers.\<close>

definition gosa_query_audit_aggregate ::
  "string \<Rightarrow> audit_disk \<Rightarrow> string \<Rightarrow>
   ((string \<times> string list \<times> tally list) list \<Rightarrow> (string \<times> string list \<times> tally list) list) \<Rightarrow> int \<Rightarrow> hash \<Rightarrow> hash option" where
  "gosa_query_audit_aggregate server disk FAILogPath order MaxAnswers xmlmsg =
     (let sel = select_columns xmlmsg;
          selected = length (col_names sel);
          (cols, macindex) = column_number ''macaddress'' sel;
          (cols, aggs) = fold (add_count selected) (iter_named ''count'' (kids xmlmsg)) (cols, [])
      in map_option (\<lambda>res.
           let st = aggregate_all MaxAnswers macindex selected aggs (calls res);
               audit = reply_header ''query_audit_aggregate'' server xmlmsg;
               audit = Add ''unknown'' [itoa (unknown res)] (Add ''known'' [itoa (length (agg_known st))] audit);
               audit = fold (\<lambda>na. AddWithOwnership (addAuditID na (NewHash ''noaudit'' []))) (noaudit res) audit;
               audit = AddWithOwnership (with_counts aggs (master st) (NewHash ''aggregate'' [])) audit
           in snd (fold (\<lambda>(k, vs, ts) (num, audit).
                (num + 1,
                 AddWithOwnership (with_counts aggs ts (answer_element num (take selected (col_names cols)) vs)) audit))
                (order (answers st)) (1, audit)))
         (AuditScanSubdirs disk (audit_request xmlmsg (col_names cols)) FAILogPath []))"

section \<open>The two kinds of filters agree\<close>

text \<open>The numbers of the columns are their places in the list of names.\<close>

definition columns_ok :: "columns \<Rightarrow> bool" where
  "columns_ok cols \<longleftrightarrow> distinct (col_names cols) \<and>
     (\<forall>n i. prop_index cols n = Some i \<longleftrightarrow> i < length (col_names cols) \<and> col_names cols ! i = n)"

definition extends :: "columns \<Rightarrow> columns \<Rightarrow> bool" where
  "extends cols cols' \<longleftrightarrow> columns_ok cols' \<and> (\<exists>ns. col_names cols' = col_names cols @ ns)"

lemma extends_refl: "columns_ok cols \<Longrightarrow> extends cols cols"
  by (simp add: extends_def)

lemma extends_trans: "extends a b \<Longrightarrow> extends b c \<Longrightarrow> extends a c"
  by (auto simp: extends_def)

lemma extends_ok: "extends a b \<Longrightarrow> columns_ok b"
  by (simp add: extends_def)

lemma column_number_ok:
  assumes "columns_ok cols" and "column_number n cols = (cols', i)"
  shows "extends cols cols' \<and> i < length (col_names cols') \<and> col_names cols' ! i = n"
proof (cases "prop_index cols n")
  case None
  then have "n \<notin> set (col_names cols)" using assms(1) unfolding columns_ok_def in_set_conv_nth by (metis option.distinct(1))
  with None assms show ?thesis
    by (auto simp: column_number_def Let_def extends_def columns_ok_def nth_append less_Suc_eq split: if_splits)
next
  case (Some k)
  with assms show ?thesis by (auto simp: column_number_def extends_def columns_ok_def)
qed

text \<open>The filter with the names of the columns, and whether all its columns are there.\<close>

fun named_filter :: "string list \<Rightarrow> entry_filter \<Rightarrow> hash_filter" where
  "named_filter names EntryNone = FilterNone"
| "named_filter names (EntryAnd fs) = FilterAnd (map (named_filter names) fs)"
| "named_filter names (EntryOr fs) = FilterOr (map (named_filter names) fs)"
| "named_filter names (EntryRegexp c re) = FilterRegexp (names ! c) re"
| "named_filter names (EntryNot f) = FilterNot (named_filter names f)"
| "named_filter names (EntryRel c v n a1 a2) = Filterrel (names ! c) v n a1 a2"

fun columns_below :: "nat \<Rightarrow> entry_filter \<Rightarrow> bool" where
  "columns_below k EntryNone = True"
| "columns_below k (EntryAnd fs) = list_all (columns_below k) fs"
| "columns_below k (EntryOr fs) = list_all (columns_below k) fs"
| "columns_below k (EntryRegexp c re) = (c < k)"
| "columns_below k (EntryNot f) = columns_below k f"
| "columns_below k (EntryRel c v n a1 a2) = (c < k)"

lemma columns_below_mono: "columns_below k f \<Longrightarrow> k \<le> l \<Longrightarrow> columns_below l f"
  by (induction f) (auto simp: list_all_iff)

lemma named_filter_append: "columns_below (length ns) f \<Longrightarrow> named_filter (ns @ ms) f = named_filter ns f"
  by (induction f) (auto simp: list_all_iff nth_append)

text \<open>What it means that a step reads the same filter as the other package.\<close>

definition reads_as :: "columns \<Rightarrow> columns \<times> (where_error + entry_filter) \<Rightarrow> (where_error + hash_filter) \<Rightarrow> bool" where
  "reads_as cols r h \<longleftrightarrow> extends cols (fst r) \<and>
     (case snd r of
        Inl e \<Rightarrow> h = Inl e
      | Inr f \<Rightarrow> columns_below (length (col_names (fst r))) f \<and> h = Inr (named_filter (col_names (fst r)) f))"

lemma entry_phrase_filter_named:
  assumes "i < length names" and "names ! i = n"
  shows "case entry_phrase_filter operator i v of
      Inl e \<Rightarrow> phrase_filter operator n v = Inl e
    | Inr f \<Rightarrow> columns_below (length names) f \<and> phrase_filter operator n v = Inr (named_filter names f)"
proof -
  have rel: "columns_below (length names) (filterRel i v a b) \<and> named_filter names (filterRel i v a b) = FilterRel n v a b" for a b
    using assms by (simp add: filterRel_def FilterRel_def)
  show ?thesis using assms by (simp add: entry_phrase_filter_def phrase_filter_def Let_def rel)
qed

lemma entry_phrase_reads: "columns_ok cols \<Longrightarrow> reads_as cols (entry_phrase p cols) (phrase_of p)"
proof (cases "phrase_column (Subtags p) []")
  case (Inl e)
  assume "columns_ok cols"
  with Inl show ?thesis by (simp add: entry_phrase_def phrase_of_def Let_def reads_as_def extends_refl)
next
  case (Inr column)
  assume ok: "columns_ok cols"
  obtain cols' i where c: "column_number column cols = (cols', i)" by (cases "column_number column cols")
  note i = column_number_ok [OF ok c]
  define operator where "operator = (if ToLower (text_of ''operator'' p) = [] then ''eq'' else ToLower (text_of ''operator'' p))"
  have "entry_phrase p cols = (cols', entry_phrase_filter operator i (text_of column p))"
    "phrase_of p = phrase_filter operator column (text_of column p)"
    using Inr c by (simp_all add: entry_phrase_def phrase_of_def Let_def operator_def)
  with i entry_phrase_filter_named [of i "col_names cols'" column operator "text_of column p"] show ?thesis
    by (auto simp: reads_as_def split: sum.splits)
qed

lemma collect_with_reads:
  assumes "\<And>x cols. x \<in> set xs \<Longrightarrow> columns_ok cols \<Longrightarrow> reads_as cols (f x cols) (g x)"
    and "columns_ok cols" and "collect_with f xs cols = (cols', r)"
  shows "extends cols cols' \<and>
    (case r of
       Inl e \<Rightarrow> collect g xs = Inl e
     | Inr fs \<Rightarrow> list_all (columns_below (length (col_names cols'))) fs \<and>
         collect g xs = Inr (map (named_filter (col_names cols')) fs))"
  using assms
proof (induction xs arbitrary: cols cols' r)
  case Nil
  then show ?case by (auto simp: extends_refl)
next
  case (Cons x xs)
  obtain c1 r1 where one: "f x cols = (c1, r1)" by (cases "f x cols")
  have reads: "reads_as cols (c1, r1) (g x)" using Cons.prems(1) [of x cols] Cons.prems(2) one by simp
  show ?case
  proof (cases r1)
    case (Inl e)
    with Cons.prems(3) one reads show ?thesis by (auto simp: reads_as_def)
  next
    case first: (Inr y)
    obtain c2 r2 where rest: "collect_with f xs c1 = (c2, r2)" by (cases "collect_with f xs c1")
    have c1: "extends cols c1" "columns_ok c1" "columns_below (length (col_names c1)) y"
      "g x = Inr (named_filter (col_names c1) y)"
      using reads first by (auto simp: reads_as_def extends_def)
    have c2: "extends c1 c2 \<and>
      (case r2 of
         Inl e \<Rightarrow> collect g xs = Inl e
       | Inr fs \<Rightarrow> list_all (columns_below (length (col_names c2))) fs \<and>
           collect g xs = Inr (map (named_filter (col_names c2)) fs))"
      by (rule Cons.IH [OF _ c1(2) rest]) (simp add: Cons.prems(1))
    then obtain ns where ns: "col_names c2 = col_names c1 @ ns" by (auto simp: extends_def)
    have "extends cols c2" using c1(1) c2 extends_trans by blast
    with c1 c2 ns one first rest Cons.prems(3) show ?thesis
      by (auto simp: named_filter_append columns_below_mono split: sum.splits)
  qed
qed

lemma entry_clause_reads: "columns_ok cols \<Longrightarrow> reads_as cols (entry_clause c cols) (clause_of c)"
proof -
  assume ok: "columns_ok cols"
  define con where "con = (if ToLower (text_of ''connector'' c) = [] then ''and'' else ToLower (text_of ''connector'' c))"
  define ps where "ps = iter_named ''phrase'' (kids c)"
  obtain cols' r where r: "collect_with entry_phrase ps cols = (cols', r)" by (cases "collect_with entry_phrase ps cols")
  from collect_with_reads [OF entry_phrase_reads ok r] show ?thesis
    using ok r by (auto simp: entry_clause_def clause_of_def Let_def con_def [symmetric] ps_def [symmetric]
        reads_as_def extends_refl split: sum.splits)
qed

lemma whereFilter_reads:
  assumes "columns_ok cols" and "Name whr = ''where''"
  shows "reads_as cols (whereFilter whr cols) (WhereFilter whr)"
proof -
  obtain cols' r where r: "collect_with entry_clause (iter_named ''clause'' (kids whr)) cols = (cols', r)"
    by (cases "collect_with entry_clause (iter_named ''clause'' (kids whr)) cols")
  from collect_with_reads [OF entry_clause_reads assms(1) r] show ?thesis
    using r assms(2) by (auto simp: whereFilter_def WhereFilter_def reads_as_def split: sum.splits)
qed

text \<open>A row as an element: one child for each column.\<close>

definition element_of :: "string list \<Rightarrow> string list \<Rightarrow> hash" where
  "element_of names row = Hash ''xml'' (map (\<lambda>(n, v). Sub (Hash n [Txt v])) (zip names row))"

lemma get1_element_of:
  assumes "distinct names" and "length row = length names" and "i < length names"
  shows "get1 (names ! i) (element_of names row) = [row ! i]"
proof -
  have "children (element_of names row) = map (\<lambda>(n, v). Hash n [Txt v]) (zip names row)"
    unfolding element_of_def by (induction names row rule: list_induct2') auto
  then have "get1 t (element_of names row) = map snd (filter (\<lambda>p. fst p = t) (zip names row))" for t
    by (simp add: get1_eq filter_map o_def case_prod_beta own_text_def TextFragments_def)
  moreover have "filter (\<lambda>p. fst p = names ! i) (zip names row) = [(names ! i, row ! i)]"
    using assms
  proof (induction names row arbitrary: i rule: list_induct2')
    case (4 n names v row)
    show ?case
    proof (cases i)
      case 0
      have "filter (\<lambda>p. fst p = n) (zip names row) = []"
        using 4(2) by (auto simp: filter_empty_conv dest: set_zip_leftD)
      with 0 show ?thesis by simp
    next
      case (Suc k)
      with 4 show ?thesis by auto
    qed
  qed simp_all
  ultimately show ?thesis by simp
qed

lemma entry_accepts_named:
  assumes "distinct names" and "length row = length names"
  shows "columns_below (length names) f \<Longrightarrow>
    entry_accepts f (Some row) = accepts (named_filter names f) (element_of names row)"
proof (induction f)
  case (EntryAnd fs)
  then show ?case by (auto simp: list_all_iff)
next
  case (EntryOr fs)
  then show ?case by (auto simp: list_all_iff list_ex_iff)
qed (simp_all add: get1_element_of [OF assms])

lemma select_columns_ok: "columns_ok (select_columns xmlmsg)"
proof -
  have "columns_ok (fold (\<lambda>col cols. fst (column_number col cols)) names cols)" if "columns_ok cols" for names cols
    using that
  proof (induction names arbitrary: cols)
    case (Cons n names)
    have "columns_ok (fst (column_number n cols))"
      using column_number_ok [OF Cons.prems, of n] by (metis extends_ok prod.collapse)
    with Cons.IH show ?case by simp
  qed simp
  then show ?thesis by (simp add: select_columns_def columns_ok_def)
qed

text \<open>C30: Queries on audit data mean the same as other queries. The filter that gosa_query_audit
  makes of its where expression selects exactly the rows for which the filter of package xml
  accepts the element with these columns as its children; where the one reports an error the other
  one does, too, and then no row is selected.\<close>

theorem audit_filter_is_where_filter:
  assumes "query_columns xmlmsg = (cols, macindex, f)"
    and "First ''where'' xmlmsg = Some whr" and "Name whr = ''where''"
    and "length row = length (col_names cols)"
  shows "entry_accepts f (Some row) =
    (case WhereFilter whr of Inl e \<Rightarrow> False | Inr h \<Rightarrow> accepts h (element_of (col_names cols) row))"
proof -
  obtain c1 mi where c1: "column_number ''macaddress'' (select_columns xmlmsg) = (c1, mi)"
    by (cases "column_number ''macaddress'' (select_columns xmlmsg)")
  have ok: "columns_ok c1" using column_number_ok [OF select_columns_ok c1] extends_ok by blast
  obtain c2 r where r: "whereFilter whr c1 = (c2, r)" by (cases "whereFilter whr c1")
  from whereFilter_reads [OF ok assms(3)] r have reads: "reads_as c1 (c2, r) (WhereFilter whr)" by simp
  then have ok2: "columns_ok c2" by (simp add: reads_as_def extends_def)
  have cols: "cols = c2" and f: "f = (case r of Inl e \<Rightarrow> EntryNone | Inr g \<Rightarrow> g)"
    using assms(1,2) c1 r by (auto simp: query_columns_def split: sum.splits)
  show ?thesis
  proof (cases r)
    case (Inl e)
    with reads f show ?thesis by (simp add: reads_as_def)
  next
    case (Inr g)
    with reads have "columns_below (length (col_names c2)) g" "WhereFilter whr = Inr (named_filter (col_names c2) g)"
      by (auto simp: reads_as_def)
    with f Inr cols assms(4) ok2 show ?thesis by (simp add: entry_accepts_named columns_ok_def)
  qed
qed

section \<open>The answers of a query\<close>

definition shown :: "int \<Rightarrow> entry_filter \<Rightarrow> string list list \<Rightarrow> string list list" where
  "shown maximum f entries =
     (let hits = filter (\<lambda>e. entry_accepts f (Some e)) entries in
      if maximum \<le> 0 then hits else take (nat maximum) hits)"

definition left_after :: "int \<Rightarrow> nat \<Rightarrow> int" where
  "left_after maximum hits = (if maximum \<le> 0 then maximum else max (-1) (maximum - int hits))"

definition answer_elements :: "string list \<Rightarrow> nat \<Rightarrow> string list list \<Rightarrow> hash list" where
  "answer_elements names selected rows =
     map (\<lambda>(k, row). answer_element k (take selected names) (take selected row)) (zip [1..<Suc (length rows)] rows)"

lemma answer_elements_snoc: "answer_elements names selected (rows @ [row]) =
    answer_elements names selected rows @ [answer_element (Suc (length rows)) (take selected names) (take selected row)]"
proof -
  have "[1..<Suc (length (rows @ [row]))] = [1..<Suc (length rows)] @ [Suc (length rows)]" by simp
  then show ?thesis unfolding answer_elements_def by (simp del: upt_Suc)
qed

lemma limitFilter_shown:
  assumes "left = left_after maximum (length (filter (\<lambda>e. entry_accepts f (Some e)) es))"
    and "limitFilter maximum (entry_accepts f (Some e)) left = (accepted, left')"
  shows "left' = left_after maximum (length (filter (\<lambda>e. entry_accepts f (Some e)) (es @ [e])))"
    and "shown maximum f (es @ [e]) = shown maximum f es @ (if accepted then [e] else [])"
  using assms by (auto simp: limitFilter_def limited_def left_after_def shown_def Let_def split: if_splits)

definition query_after ::
  "int \<Rightarrow> nat \<Rightarrow> nat \<Rightarrow> string list \<Rightarrow> entry_filter \<Rightarrow> bool \<Rightarrow> string list list \<Rightarrow> query_state \<Rightarrow> query_state \<Rightarrow> bool" where
  "query_after maximum macindex selected names f includeothers es st0 st \<longleftrightarrow>
     (let macs = (\<lambda>rows. (\<lambda>e. e ! macindex) ` set rows); rows = shown maximum f es in
      children (reply st) = children (reply st0) @ answer_elements names selected rows \<and>
      set (known st) = macs es \<and> distinct (known st) \<and> set (match2 st) = macs rows \<and>
      answer_count st = Suc (length rows) \<and>
      answers_left st = left_after maximum (length (filter (\<lambda>e. entry_accepts f (Some e)) es)) \<and>
      MAC ` set (nonmatch2 st) - macs rows = (if includeothers then macs es - macs rows else {}) \<and>
      list_all (\<lambda>a. a = only_mac (MAC a)) (nonmatch2 st) \<and> distinct (map MAC (nonmatch2 st)))"

lemma query_entry_after:
  assumes "query_after maximum macindex selected names f includeothers es st0 st"
  shows "query_after maximum macindex selected names f includeothers (es @ [e]) st0
    (query_entry maximum macindex selected names f includeothers e st)"
proof -
  obtain accepted left' where limit: "limitFilter maximum (entry_accepts f (Some e)) (answers_left st) = (accepted, left')"
    by (cases "limitFilter maximum (entry_accepts f (Some e)) (answers_left st)")
  have left: "answers_left st = left_after maximum (length (filter (\<lambda>e. entry_accepts f (Some e)) es))"
    using assms by (simp add: query_after_def Let_def)
  note rows = limitFilter_shown [OF left limit]
  show ?thesis
  proof (cases accepted)
    case True
    with assms limit rows show ?thesis
      by (auto simp: query_after_def query_entry_def Let_def answer_elements_snoc AddWithOwnership_def) (blast+)
  next
    case False
    show ?thesis
    proof (cases "includeothers \<and> e ! macindex \<notin> MAC ` set (nonmatch2 st)")
      case True
      with False assms limit rows show ?thesis
        by (auto simp: query_after_def query_entry_def Let_def only_mac_def)
    next
      case other: False
      with False assms limit rows show ?thesis
        by (auto simp: query_after_def query_entry_def Let_def) (blast+)
    qed
  qed
qed

lemma query_entries_after:
  assumes "query_after maximum macindex selected names f includeothers [] st0 st0"
  shows "query_after maximum macindex selected names f includeothers es st0
    (fold (query_entry maximum macindex selected names f includeothers) es st0)"
proof (induction es rule: rev_induct)
  case Nil
  then show ?case using assms by simp
next
  case (snoc e es)
  from query_entry_after [OF this, of e] show ?case by simp
qed

lemma kids_of_counts:
  "children (fold (\<lambda>x. AddWithOwnership (g x)) xs h) = children h @ map g xs"
  by (induction xs arbitrary: h) (simp_all add: AddWithOwnership_def)

text \<open>C31: What the answer to a query on audit data holds. The rows that the filter accepts, as many
  as the requester may get (0: all of them) and the first ones, numbered from 1 and cut to the selected
  columns; then the systems that do not match, those without an audit, and their numbers. A system
  does not match if none of its rows is in the answer, also when the answer was cut before its rows.\<close>

theorem audit_answers:
  assumes "gosa_query_audit server disk dir order MaxAnswers xmlmsg = Some audit"
    and "query_columns xmlmsg = (cols, macindex, f)"
    and "AuditScanSubdirs disk (audit_request xmlmsg (col_names cols)) dir [] = Some res"
    and "\<And>xs. mset (order xs) = mset xs"
  shows "\<exists>others unmatched.
    (let rows = shown MaxAnswers f (calls res); macs = (\<lambda>rows. (\<lambda>e. e ! macindex) ` set rows);
         selected = length (col_names (select_columns xmlmsg)) in
     children audit = children (reply_header ''query_audit'' server xmlmsg) @
       answer_elements (col_names cols) selected rows @
       map (\<lambda>a. addAuditID a (NewHash ''nonmatching'' [])) (nonmatch res @ others) @
       map (\<lambda>a. addAuditID a (NewHash ''noaudit'' [])) (noaudit res) @
       children (Add ''unknown'' [itoa (unknown res)] (Add ''known'' [itoa (card (macs (calls res)))] (Hash ''xml'' []))) \<and>
     distinct unmatched \<and> others = map only_mac unmatched \<and>
     set unmatched = (if First ''includeothers'' xmlmsg \<noteq> None then macs (calls res) - macs rows else {}))"
proof -
  define selected where "selected = length (col_names (select_columns xmlmsg))"
  define inc where "inc \<longleftrightarrow> First ''includeothers'' xmlmsg \<noteq> None"
  define st0 where "st0 = \<lparr>reply = reply_header ''query_audit'' server xmlmsg, known = [], match2 = [], nonmatch2 = [],
      answer_count = 1, answers_left = MaxAnswers\<rparr>"
  define st where "st = fold (query_entry MaxAnswers macindex selected (col_names cols) f inc) (calls res) st0"
  define rows where "rows = shown MaxAnswers f (calls res)"
  define macs where "macs = (\<lambda>rows :: string list list. (\<lambda>e. e ! macindex) ` set rows)"
  define others where "others = filter (\<lambda>nm2. MAC nm2 \<notin> set (match2 st)) (order (nonmatch2 st))"
  have "query_after MaxAnswers macindex selected (col_names cols) f inc [] st0 st0"
    by (simp add: query_after_def st0_def shown_def Let_def answer_elements_def left_after_def)
  from query_entries_after [OF this, of "calls res"]
  have after: "children (reply st) = children (reply st0) @ answer_elements (col_names cols) selected rows"
    "set (known st) = macs (calls res)" "distinct (known st)" "set (match2 st) = macs rows"
    "MAC ` set (nonmatch2 st) - macs rows = (if inc then macs (calls res) - macs rows else {})"
    "list_all (\<lambda>a. a = only_mac (MAC a)) (nonmatch2 st)" "distinct (map MAC (nonmatch2 st))"
    by (simp_all add: query_after_def Let_def st_def rows_def macs_def)
  have same: "set (order (nonmatch2 st)) = set (nonmatch2 st)" using assms(4) by (metis set_mset_mset)
  have "mset (map MAC (order (nonmatch2 st))) = mset (map MAC (nonmatch2 st))" using assms(4) by simp
  then have "distinct (map MAC (order (nonmatch2 st)))" using after(7) by (metis mset_eq_imp_distinct_iff)
  then have "distinct (map MAC others)" unfolding others_def by (rule distinct_map_filterI)
  moreover have "others = map only_mac (map MAC others)"
    using after(6) same by (intro nth_equalityI) (auto simp: others_def list_all_iff dest: nth_mem)
  moreover have "set (map MAC others) = (if inc then macs (calls res) - macs rows else {})"
    using after(4,5) same by (auto simp: others_def)
  moreover have "children audit = children (reply_header ''query_audit'' server xmlmsg) @
      answer_elements (col_names cols) selected rows @
      map (\<lambda>a. addAuditID a (NewHash ''nonmatching'' [])) (nonmatch res @ others) @
      map (\<lambda>a. addAuditID a (NewHash ''noaudit'' [])) (noaudit res) @
      children (Add ''unknown'' [itoa (unknown res)] (Add ''known'' [itoa (card (macs (calls res)))] (Hash ''xml'' [])))"
  proof -
    have "audit = Add ''unknown'' [itoa (unknown res)] (Add ''known'' [itoa (length (known st))]
        (fold (\<lambda>na. AddWithOwnership (addAuditID na (NewHash ''noaudit'' []))) (noaudit res)
          (fold (\<lambda>nm. AddWithOwnership (addAuditID nm (NewHash ''nonmatching'' []))) (nonmatch res @ others) (reply st))))"
      using assms(1-3)
      by (simp add: gosa_query_audit_def Let_def st_def st0_def others_def selected_def inc_def audit_request_def)
    moreover have "length (known st) = card (macs (calls res))"
      using after(2,3) distinct_card by fastforce
    ultimately show ?thesis
      using after(1) by (simp add: kids_of_counts Add_def AddWithOwnership_def st0_def)
  qed
  ultimately show ?thesis
    by (intro exI [of _ others] exI [of _ "map MAC others"])
      (simp add: Let_def rows_def macs_def selected_def inc_def)
qed

section \<open>Counting\<close>

definition count_of :: "aggspec \<Rightarrow> string list list \<Rightarrow> nat" where
  "count_of a rows =
     (let hits = filter (\<lambda>e. entry_accepts (AggFilter a) (Some e)) rows in
      if UniqueIndex a = [] then length hits
      else card (set (map (\<lambda>e. map (\<lambda>k. e ! k) (UniqueIndex a)) hits)))"

definition plain_row :: "nat \<Rightarrow> string list \<Rightarrow> bool" where
  "plain_row n e \<longleftrightarrow> length e = n \<and> list_all (\<lambda>v. CHR ''<'' \<notin> set v) e"

lemma joined_inj:
  "length xs = length ys \<Longrightarrow> list_all (\<lambda>v. CHR ''<'' \<notin> set v) xs \<Longrightarrow> list_all (\<lambda>v. CHR ''<'' \<notin> set v) ys \<Longrightarrow>
    joined xs = joined ys \<Longrightarrow> xs = ys"
proof (induction xs ys rule: list_induct2)
  case (Cons x xs y ys)
  have "takeWhile (\<lambda>c. c \<noteq> CHR ''<'') (v @ CHR ''<'' # r) = v" if "CHR ''<'' \<notin> set v" for v r
    using that by (subst takeWhile_append2) auto
  moreover have eq: "x @ CHR ''<'' # joined xs = y @ CHR ''<'' # joined ys" using Cons.prems(3) by (simp add: joined_def)
  moreover have "CHR ''<'' \<notin> set x" "CHR ''<'' \<notin> set y" using Cons.prems(1,2) by simp_all
  ultimately have "x = y" by metis
  with eq Cons show ?case by simp
qed simp

lemma joined_nonempty: "joined xs = [] \<longleftrightarrow> xs = []"
  by (cases xs) (simp_all add: joined_def)

lemma count_unique_empty: "list_all (\<lambda>k. k = []) ks \<Longrightarrow> fold count_unique ks (0, []) = (length ks, [])"
  by (induction ks rule: rev_induct) (simp_all add: count_unique_def)

lemma count_unique_keys: "list_all (\<lambda>k. k \<noteq> []) ks \<Longrightarrow>
    \<exists>seen. fold count_unique ks (0, []) = (card (set ks), seen) \<and> set seen = set ks"
proof (induction ks rule: rev_induct)
  case (snoc k ks)
  then obtain seen where "fold count_unique ks (0, []) = (card (set ks), seen)" "set seen = set ks" by auto
  moreover from this have step: "fold count_unique (ks @ [k]) (0, []) = count_unique k (card (set ks), seen)" by simp
  ultimately show ?case
    using snoc.prems unfolding step by (auto simp: count_unique_def insert_absorb)
qed simp

definition tally_of :: "aggspec \<Rightarrow> string list list \<Rightarrow> tally" where
  "tally_of a rows = fold (\<lambda>e. count_entry e a) rows (0, [])"

lemma tally_of_snoc: "tally_of a (rows @ [e]) = count_entry e a (tally_of a rows)"
  by (simp add: tally_of_def)

lemma tally_counts:
  assumes "list_all (plain_row n) rows" and "list_all (\<lambda>k. k < n) (UniqueIndex a)"
  shows "fst (tally_of a rows) = count_of a rows"
proof -
  let ?hits = "filter (\<lambda>e. entry_accepts (AggFilter a) (Some e)) rows"
  let ?key = "\<lambda>e. map (\<lambda>k. e ! k) (UniqueIndex a)"
  have "fold (\<lambda>e. count_entry e a) rows t = fold count_unique (map (\<lambda>e. joined (?key e)) ?hits) t" for t
    by (induction rows arbitrary: t) (simp_all add: count_entry_def)
  then have tally: "tally_of a rows = fold count_unique (map (\<lambda>e. joined (?key e)) ?hits) (0, [])"
    by (simp add: tally_of_def)
  show ?thesis
  proof (cases "UniqueIndex a = []")
    case True
    then have "list_all (\<lambda>k. k = []) (map (\<lambda>e. joined (?key e)) ?hits)" by (simp add: list_all_iff joined_def)
    from count_unique_empty [OF this] tally True show ?thesis by (simp add: count_of_def)
  next
    case False
    then have "list_all (\<lambda>k. k \<noteq> []) (map (\<lambda>e. joined (?key e)) ?hits)"
      by (simp add: list_all_iff joined_nonempty)
    from count_unique_keys [OF this] tally have "fst (tally_of a rows) = card (set (map (\<lambda>e. joined (?key e)) ?hits))" by auto
    also have "set (map (\<lambda>e. joined (?key e)) ?hits) = joined ` set (map ?key ?hits)" by auto
    also have "card \<dots> = card (set (map ?key ?hits))"
    proof (rule card_image, rule inj_onI)
      fix x y
      assume "x \<in> set (map ?key ?hits)" "y \<in> set (map ?key ?hits)" "joined x = joined y"
      moreover have "length (?key e) = length (UniqueIndex a) \<and> list_all (\<lambda>v. CHR ''<'' \<notin> set v) (?key e)"
        if "e \<in> set rows" for e
        using assms that by (auto simp: list_all_iff plain_row_def)
      ultimately show "x = y" by (auto intro!: joined_inj)
    qed
    finally show ?thesis using False by (simp add: count_of_def)
  qed
qed

text \<open>The keys in the order of their first occurrence.\<close>

definition firsts :: "'a list \<Rightarrow> 'a list" where
  "firsts ks = fold (\<lambda>k seen. if k \<in> set seen then seen else seen @ [k]) ks []"

lemma firsts_snoc: "firsts (ks @ [k]) = (if k \<in> set (firsts ks) then firsts ks else firsts ks @ [k])"
  by (simp add: firsts_def)

lemma set_firsts [simp]: "set (firsts ks) = set ks"
proof (induction ks rule: rev_induct)
  case Nil
  show ?case by (simp add: firsts_def)
next
  case (snoc k ks)
  then show ?case by (auto simp: firsts_snoc)
qed

lemma distinct_firsts: "distinct (firsts ks)"
proof (induction ks rule: rev_induct)
  case Nil
  show ?case by (simp add: firsts_def)
next
  case (snoc k ks)
  then show ?case by (simp add: firsts_snoc)
qed

definition key_of :: "nat \<Rightarrow> string list \<Rightarrow> string" where
  "key_of selected e = joined (take selected e)"

definition answer_for :: "nat \<Rightarrow> aggspec list \<Rightarrow> string list list \<Rightarrow> string \<Rightarrow> string \<times> string list \<times> tally list" where
  "answer_for selected aggs es k =
     (let rows = filter (\<lambda>e. key_of selected e = k) es
      in (k, take selected (hd rows), map (\<lambda>a. tally_of a rows) aggs))"

lemma answer_for_other: "key_of selected e \<noteq> k \<Longrightarrow> answer_for selected aggs (es @ [e]) k = answer_for selected aggs es k"
  by (simp add: answer_for_def Let_def)

lemma map2_map_same: "map2 f xs (map g xs) = map (\<lambda>x. f x (g x)) xs"
  by (induction xs) simp_all

lemma answer_for_same:
  assumes "k = key_of selected e"
  shows "answer_for selected aggs (es @ [e]) k =
    (k, take selected (if k \<in> set (map (key_of selected) es) then hd (filter (\<lambda>e. key_of selected e = k) es) else e),
     map2 (count_entry e) aggs (map (\<lambda>a. tally_of a (filter (\<lambda>e. key_of selected e = k) es)) aggs))"
proof -
  have "hd (filter (\<lambda>e. key_of selected e = k) es @ [e]) =
      (if k \<in> set (map (key_of selected) es) then hd (filter (\<lambda>e. key_of selected e = k) es) else e)"
    by (auto simp: hd_append filter_empty_conv)
  then show ?thesis using assms by (simp add: answer_for_def Let_def tally_of_snoc map2_map_same)
qed

text \<open>The state after some rows.\<close>

lemma aggregate_state_after:
  assumes "0 < selected" and "list_all (\<lambda>e. selected \<le> length e) es"
  shows "answers (aggregate_all MaxAnswers macindex selected aggs es) =
      map (answer_for selected aggs es) (take (nat MaxAnswers) (firsts (map (key_of selected) es)))"
    and "master (aggregate_all MaxAnswers macindex selected aggs es) = map (\<lambda>a. tally_of a es) aggs"
  using assms(2)
proof (induction es rule: rev_induct)
  case Nil
  case 1 show ?case by (simp add: aggregate_all_def firsts_def)
  case 2 show ?case by (simp add: aggregate_all_def tally_of_def)
next
  case (snoc e es)
  let ?st = "aggregate_all MaxAnswers macindex selected aggs es"
  let ?k = "key_of selected e" and ?ks = "firsts (map (key_of selected) es)" and ?n = "nat MaxAnswers"
  have all: "aggregate_all MaxAnswers macindex selected aggs (es @ [e]) =
      aggregate_entry MaxAnswers macindex selected aggs e ?st"
    by (simp add: aggregate_all_def)
  case 2
  have "list_all (\<lambda>e. selected \<le> length e) es" using 2 by simp
  with snoc.IH(2) show ?case
    by (simp add: all aggregate_entry_def Let_def map2_map_same tally_of_snoc)
  case 1
  have ans: "answers ?st = map (answer_for selected aggs es) (take ?n ?ks)" using 1 snoc.IH(1) by simp
  have k: "?k \<noteq> []" using 1 assms(1) by (auto simp: key_of_def joined_nonempty)
  have old: "map_of (answers ?st) ?k = None \<longleftrightarrow> ?k \<notin> set (take ?n ?ks)"
    by (auto simp: ans map_of_eq_None_iff image_image answer_for_def Let_def)
  have keep: "map (answer_for selected aggs (es @ [e])) ks = map (answer_for selected aggs es) ks" if "?k \<notin> set ks" for ks
    using that by (auto intro!: answer_for_other)
  show ?case
  proof (cases "?k \<in> set (take ?n ?ks)")
    case True
    then have "?k \<in> set ?ks" by (meson in_set_takeD)
    then have same: "firsts (map (key_of selected) (es @ [e])) = ?ks" and seen: "?k \<in> set (map (key_of selected) es)"
      by (simp_all add: firsts_snoc)
    obtain y where y: "map_of (answers ?st) ?k = Some y" using old True by auto
    have "answers (aggregate_entry MaxAnswers macindex selected aggs e ?st) =
        map (\<lambda>(k, sel, ts). (k, sel, if k = ?k then map2 (count_entry e) aggs ts else ts)) (answers ?st)"
      using y k assms(1) by (simp add: aggregate_entry_def Let_def key_of_def)
    also have "\<dots> = map (answer_for selected aggs (es @ [e])) (take ?n ?ks)"
      unfolding ans map_map
    proof (rule map_cong [OF refl])
      fix x
      assume "x \<in> set (take ?n ?ks)"
      show "((\<lambda>(k, sel, ts). (k, sel, if k = ?k then map2 (count_entry e) aggs ts else ts)) \<circ> answer_for selected aggs es) x =
          answer_for selected aggs (es @ [e]) x"
      proof (cases "x = ?k")
        case True
        with answer_for_same [of x selected e aggs es] seen show ?thesis by (simp add: answer_for_def Let_def)
      next
        case False
        then show ?thesis using answer_for_other [of selected e x aggs es] by (simp add: answer_for_def Let_def)
      qed
    qed
    finally show ?thesis by (simp only: all same)
  next
    case absent: False
    show ?thesis
    proof (cases "int (length (answers ?st)) < MaxAnswers")
      case True
      then have short: "length ?ks < ?n" by (simp add: ans split: if_splits)
      then have new: "?k \<notin> set ?ks" using absent by simp
      then have ks: "firsts (map (key_of selected) (es @ [e])) = ?ks @ [?k]" by (simp add: firsts_snoc)
      have none: "filter (\<lambda>e. key_of selected e = ?k) es = []" using new by (auto simp: filter_empty_conv image_iff)
      have "fst x \<noteq> ?k" if "x \<in> set (answers ?st)" for x
        using that absent by (auto simp: ans answer_for_def Let_def)
      then have "map (\<lambda>(k, sel, ts). (k, sel, if k = ?k then map2 (count_entry e) aggs ts else ts)) (answers ?st) = answers ?st"
        by (intro map_idI) auto
      then have "answers (aggregate_entry MaxAnswers macindex selected aggs e ?st) =
          answers ?st @ [(?k, take selected e, map2 (count_entry e) aggs (map (\<lambda>a. (0, [])) aggs))]"
        using old absent True k assms(1) by (simp add: aggregate_entry_def Let_def key_of_def)
      moreover have "answer_for selected aggs (es @ [e]) ?k =
          (?k, take selected e, map2 (count_entry e) aggs (map (\<lambda>a. (0, [])) aggs))"
        using new by (simp add: answer_for_same none tally_of_def)
      moreover have fit: "take ?n ?ks = ?ks" "take ?n (?ks @ [?k]) = ?ks @ [?k]" using short by simp_all
      ultimately have "answers (aggregate_entry MaxAnswers macindex selected aggs e ?st) =
          map (answer_for selected aggs (es @ [e])) (?ks @ [?k])"
        using keep [of ?ks] new by (simp add: ans)
      then show ?thesis by (simp only: all ks fit)
    next
      case full: False
      then have long: "length (take ?n ?ks) = ?n" by (auto simp: ans)
      then have "take ?n (?ks @ [?k]) = take ?n ?ks" by simp
      then have "take ?n (firsts (map (key_of selected) (es @ [e]))) = take ?n ?ks" by (simp add: firsts_snoc)
      moreover have "answers (aggregate_entry MaxAnswers macindex selected aggs e ?st) = answers ?st"
        using old absent full assms(1) by (simp add: aggregate_entry_def Let_def key_of_def)
      ultimately show ?thesis using keep [OF absent] by (simp add: all ans)
    qed
  qed
qed

text \<open>C32: The counts of an aggregate query. Every counter of the whole result is the number of the
  rows that its filter accepts or, if it has unique columns, of their different combinations; and so
  is every counter of an answer for the rows with its selected values. There is one answer for each
  combination of selected values, in the order in which they come, up to the limit (a limit of 0
  leaves none); the counters of the whole result stay exact beyond it.\<close>

theorem aggregate_counts:
  assumes "0 < selected" and "selected \<le> n" and "list_all (plain_row n) es"
    and "list_all (\<lambda>a. list_all (\<lambda>k. k < n) (UniqueIndex a)) aggs"
    and "aggregate_all MaxAnswers macindex selected aggs es = st"
  shows "map fst (master st) = map (\<lambda>a. count_of a es) aggs \<and>
    map (\<lambda>(k, vs, ts). (vs, map fst ts)) (answers st) =
      map (\<lambda>vs. (vs, map (\<lambda>a. count_of a (filter (\<lambda>e. take selected e = vs) es)) aggs))
        (take (nat MaxAnswers) (firsts (map (take selected) es)))"
proof -
  have long: "list_all (\<lambda>e. selected \<le> length e) es" using assms(2,3) by (auto simp: list_all_iff plain_row_def)
  have counts: "map fst (map (\<lambda>a. tally_of a rows) aggs) = map (\<lambda>a. count_of a rows) aggs" if "set rows \<subseteq> set es" for rows
  proof -
    have "list_all (plain_row n) rows" using assms(3) that unfolding list_all_iff by blast
    then show ?thesis using assms(4) by (auto simp: list_all_iff intro!: tally_counts)
  qed
  have inj: "key_of selected e = key_of selected e' \<longleftrightarrow> take selected e = take selected e'" if "e \<in> set es" "e' \<in> set es" for e e'
  proof
    assume "key_of selected e = key_of selected e'"
    then show "take selected e = take selected e'"
      using that assms(3) by (intro joined_inj) (auto simp: key_of_def list_all_iff plain_row_def dest: in_set_takeD)
  qed (simp add: key_of_def)
  have keys: "firsts (map (key_of selected) xs) = map joined (firsts (map (take selected) xs))" if "set xs \<subseteq> set es" for xs
    using that
  proof (induction xs rule: rev_induct)
    case (snoc x xs)
    have "key_of selected x \<in> key_of selected ` set xs \<longleftrightarrow> take selected x \<in> take selected ` set xs"
      using inj snoc.prems by (auto simp: image_iff)
    with snoc show ?case by (auto simp: firsts_snoc key_of_def)
  qed (simp add: firsts_def)
  have "(\<lambda>(k, vs, ts). (vs, map fst ts)) (answer_for selected aggs es (joined vs)) =
      (vs, map (\<lambda>a. count_of a (filter (\<lambda>e. take selected e = vs) es)) aggs)"
    if vs: "vs \<in> take selected ` set es" for vs
  proof -
    obtain e where e: "e \<in> set es" "vs = take selected e" using vs by blast
    have rows: "filter (\<lambda>e. key_of selected e = joined vs) es = filter (\<lambda>e. take selected e = vs) es"
      using inj e by (intro filter_cong) (auto simp: key_of_def)
    have "hd (filter (\<lambda>e. take selected e = vs) es) \<in> set (filter (\<lambda>e. take selected e = vs) es)"
      using e by (intro hd_in_set) (auto simp: filter_empty_conv)
    then have "take selected (hd (filter (\<lambda>e. take selected e = vs) es)) = vs" by simp
    with counts [of "filter (\<lambda>e. take selected e = vs) es"] show ?thesis
      by (simp add: answer_for_def rows Let_def)
  qed
  then have "map (\<lambda>(k, vs, ts). (vs, map fst ts)) (answers st) =
      map (\<lambda>vs. (vs, map (\<lambda>a. count_of a (filter (\<lambda>e. take selected e = vs) es)) aggs))
        (take (nat MaxAnswers) (firsts (map (take selected) es)))"
    using aggregate_state_after(1) [OF assms(1) long, of MaxAnswers macindex aggs]
    by (simp add: assms(5) keys take_map) (auto dest: in_set_takeD)
  then show ?thesis
    using aggregate_state_after(2) [OF assms(1) long, of MaxAnswers macindex aggs] counts [of es] by (simp add: assms(5))
qed

section \<open>Examples\<close>

definition example_audit_query :: hash where
  "example_audit_query = Hash ''xml'' [Sub (Hash ''source'' [Txt ''GOSA'']), Sub (Hash ''audit'' [Txt ''packages'']),
     Sub (Hash ''select'' [Txt ''key'']),
     Sub (Hash ''where'' [Sub (Hash ''clause'' [Sub (Hash ''phrase''
       [Sub (Hash ''operator'' [Txt ''like'']), Sub (Hash ''key'' [Txt ''vi%''])])])])]"

definition example_audit_where :: hash where
  "example_audit_where = Hash ''where'' [Sub (Hash ''clause'' [Sub (Hash ''phrase''
       [Sub (Hash ''operator'' [Txt ''like'']), Sub (Hash ''key'' [Txt ''vi%''])])])]"

theorem audit_filter_is_where_filter_witness:
  "\<exists>cols macindex f. query_columns example_audit_query = (cols, macindex, f) \<and>
    entry_accepts f (Some [''vim'', ''00:11:22:33:44:5a'']) =
      (case WhereFilter example_audit_where of
         Inl e \<Rightarrow> False | Inr h \<Rightarrow> accepts h (element_of (col_names cols) [''vim'', ''00:11:22:33:44:5a'']))"
proof -
  obtain cols macindex f where q: "query_columns example_audit_query = (cols, macindex, f)"
    by (cases "query_columns example_audit_query")
  have "length (col_names (fst (query_columns example_audit_query))) = 2" by code_simp
  then have "length [''vim'', ''00:11:22:33:44:5a''] = length (col_names cols)" by (simp add: q)
  moreover have "First ''where'' example_audit_query = Some example_audit_where" "Name example_audit_where = ''where''"
    by code_simp+
  ultimately show ?thesis using audit_filter_is_where_filter [OF q] q by blast
qed

definition example_disk :: audit_disk where
  "example_disk = \<lparr>Readdir = (\<lambda>d. if d = ''fai'' then Some [(''00:11:22:33:44:5a'', True)]
       else Some [(''audit_20160101000000'', True)]),
     ReadFile = (\<lambda>f. Some (''<audit><entry><key>vim</key></entry><entry><key>ed</key></entry></audit>          '', []))\<rparr>"

theorem audit_answers_witness:
  "\<exists>audit cols macindex f res.
    gosa_query_audit ''10.0.0.1:20081'' example_disk ''fai'' id 5 example_audit_query = Some audit \<and>
    query_columns example_audit_query = (cols, macindex, f) \<and>
    AuditScanSubdirs example_disk (audit_request example_audit_query (col_names cols)) ''fai'' [] = Some res \<and>
    take (length (shown 5 f (calls res))) (drop 3 (children audit)) =
      answer_elements (col_names cols) (length (col_names (select_columns example_audit_query))) (shown 5 f (calls res))"
proof -
  obtain cols macindex f where q: "query_columns example_audit_query = (cols, macindex, f)"
    by (cases "query_columns example_audit_query")
  obtain tree where "makePropTree (props (audit_request example_audit_query (col_names cols))) = Some tree"
    using makePropTree_for by blast
  then obtain res where res:
    "AuditScanSubdirs example_disk (audit_request example_audit_query (col_names cols)) ''fai'' [] = Some res"
    by (simp add: AuditScanSubdirs_def)
  then obtain audit where audit: "gosa_query_audit ''10.0.0.1:20081'' example_disk ''fai'' id 5 example_audit_query = Some audit"
    by (simp add: gosa_query_audit_def q Let_def)
  have "length (children (reply_header ''query_audit'' ''10.0.0.1:20081'' example_audit_query)) = 3" by code_simp
  moreover have "length (answer_elements names k rows) = length rows" for names k rows by (simp add: answer_elements_def del: upt_Suc)
  ultimately show ?thesis
    using audit_answers [OF audit q res] audit q res unfolding Let_def by fastforce
qed

definition example_rows :: "string list list" where
  "example_rows = [[''vim'', ''m1''], [''ed'', ''m2''], [''vim'', ''m3''], [''vim'', ''m3'']]"

definition example_counts :: "aggspec list" where
  "example_counts = [\<lparr>AggName = ''all'', AggFilter = EntryAnd [], UniqueIndex = []\<rparr>,
     \<lparr>AggName = ''machines'', AggFilter = EntryAnd [], UniqueIndex = [1]\<rparr>]"

theorem aggregate_counts_witness:
  "map fst (master (aggregate_all 1 1 1 example_counts example_rows)) = [4, 3] \<and>
    map (\<lambda>(k, vs, ts). (vs, map fst ts)) (answers (aggregate_all 1 1 1 example_counts example_rows)) =
      [([''vim''], [3, 2])]"
proof -
  have "list_all (plain_row 2) example_rows"
    "list_all (\<lambda>a. list_all (\<lambda>k. k < 2) (UniqueIndex a)) example_counts" by code_simp+
  from aggregate_counts [OF _ _ this refl, of 1 1 1] show ?thesis
    by (simp add: example_rows_def example_counts_def count_of_def firsts_def)
qed

text \<open>The name of a count may be given twice: both counters are in the answer.\<close>

lemma same_count_twice:
  "map AggName (snd (add_count 0 (Hash ''count'' [Sub (Hash ''as'' [Txt ''n''])])
     (add_count 0 (Hash ''count'' [Sub (Hash ''as'' [Txt ''n''])])
       (\<lparr>prop_index = Map.empty, col_names = []\<rparr>, [])))) = [''n'', ''n'']"
  by code_simp

end
