(* ===== verification/ServerMessages.thy ===== *)
theory ServerMessages
  imports ClientMessages ForeignUpdates Crypt
begin

text \<open>
  The messages between servers besides those about jobs: go-susi/message/new_server.go,
  new_foreign_client.go, new_key.go, information_sharing.go, trigger_wake.go, and the full
  synchronization with a peer (\<open>Ask\<close>, \<open>SyncAll\<close> of peer_connection.go).

  The state is that of theory ClientMessages. \<open>resolved\<close> is the first result of util.Resolve;
  a goroutine that panics is ended by its panic handler.
\<close>

section \<open>Asking a peer\<close>

text \<open>
  \<open>Ask\<close>: the key that is used (empty for TLS), None when there is none.
\<close>

definition key_for :: "bool \<Rightarrow> string list \<Rightarrow> string \<Rightarrow> string option" where
  "key_for use_tls keys key =
     (if use_tls \<and> keys \<noteq> [] \<and> hd keys = [] then Some []
      else if key = [] then (case keys of [] \<Rightarrow> None | k # _ \<Rightarrow> Some k)
      else Some key)"

text \<open>
  What the network does: the error of the dialling, or the connection as the function from
  the line that is sent to the line that is read (empty after an error).
\<close>

type_synonym peer_line = "string + (string \<Rightarrow> string)"

definition Ask ::
  "process_config \<Rightarrow> crypto \<Rightarrow> bool \<Rightarrow> string list \<Rightarrow> peer_line \<Rightarrow> string \<Rightarrow> string \<Rightarrow> string \<Rightarrow> string" where
  "Ask cfg cr use_tls keys line addr request key =
     (case key_for use_tls keys key of
        None \<Rightarrow> ErrorReply cfg (''PeerConnection.Ask: No key known for peer '' @ addr)
      | Some key \<Rightarrow>
          (case line of
             Inl err \<Rightarrow> ErrorReply cfg err
           | Inr exchange \<Rightarrow>
               (let encrypted = (if key \<noteq> [] then GosaEncrypt cr request key else request);
                    reply = exchange encrypted;
                    reply = (if key \<noteq> [] then GosaDecrypt cr reply key else reply)
                in if reply = [] then ErrorReply cfg ''Communication error in Ask()'' else reply)))"

section \<open>Full synchronization\<close>

text \<open>Our clients are sent one after the other.\<close>

definition tell_clients :: "client_site \<Rightarrow> string \<Rightarrow> hash list \<Rightarrow> hash \<Rightarrow> peers \<Rightarrow> peers" where
  "tell_clients cfg addr own serverdb ps =
     fold (\<lambda>nfc. Tell (UseTLS cfg) serverdb (set_field ''target'' addr nfc) [] (Some addr)) own ps"

text \<open>The query for the jobs of a peer that is not a go-susi, and what is done with its answer.\<close>

definition phrase :: "string \<Rightarrow> hash" where
  "phrase siserver = Add ''siserver'' [siserver] (NewHash ''phrase'' [])"

definition jobs_query :: "client_site \<Rightarrow> string \<Rightarrow> hash" where
  "jobs_query cfg addr =
     (let clause = NewHash ''clause'' [];
          clause = Add ''connector'' [''or''] clause;
          clause = AddWithOwnership (phrase ''localhost'') clause;
          clause = AddWithOwnership (phrase addr) clause;
          clause = AddWithOwnership (phrase (own_address cfg)) clause;
          query = NewHash ''xml'' [''header'', ''gosa_query_jobdb''];
          query = Add ''source'' [''GOSA''] query;
          query = Add ''target'' [''GOSA''] query
      in AddWithOwnership (AddWithOwnership clause (NewHash ''where'' [])) query)"

definition jobs_of_peer :: "string \<Rightarrow> hash_filter" where
  "jobs_of_peer addr = FilterOr [FilterSimple [''siserver'', ''localhost''], FilterSimple [''siserver'', addr]]"

definition synthetic_fju :: "string \<Rightarrow> string \<Rightarrow> hash \<Rightarrow> hash" where
  "synthetic_fju server addr fju =
     (let fju = Rename ''xml'' fju;
          fju = Add ''header'' [''foreign_job_updates''] fju;
          fju = Add ''source'' [addr] fju;
          fju = Add ''target'' [server] fju
      in Add ''sync'' [''all''] fju)"

text \<open>
  \<open>jobs\<close> is the parsed answer, None if it cannot be parsed. The result has the connections that
  will be synchronized again a few seconds later.
\<close>

definition gosasi_sync ::
  "client_site \<Rightarrow> (string \<Rightarrow> string result) \<Rightarrow> string \<Rightarrow> hash option \<Rightarrow> world \<Rightarrow> world \<times> string option list" where
  "gosasi_sync cfg resolve addr jobs w =
     (case jobs of
        None \<Rightarrow> (w, [])
      | Some jobs \<Rightarrow>
          if First ''error_string'' jobs \<noteq> None then (w, [])
          else
            (case Remove (accepts (jobs_of_peer addr)) jobs of
               (fju, jobs) \<Rightarrow>
                 (case foreign_job_updates resolve (own_address cfg)
                         (synthetic_fju (own_address cfg) addr fju) (job_db w) (peer_links w) of
                    (st, ps, syncs, ending) \<Rightarrow>
                      (w\<lparr>peer_links := ps,
                         job_db := (if ending = Panicked then st
                           else JobsSyncAll (own_address cfg) addr (Some jobs) st)\<rparr>, syncs))))"

text \<open>
  \<open>SyncAll\<close>; on a connection with an error (None) \<open>Tell\<close> does nothing and \<open>Ask\<close> answers with
  an error. \<open>jobs addr query\<close> is the parsed answer of \<open>Ask\<close> on the connection to addr.
\<close>

definition SyncAll ::
  "client_site \<Rightarrow> (string \<Rightarrow> string result) \<Rightarrow> (string \<Rightarrow> hash \<Rightarrow> hash option) \<Rightarrow> string option \<Rightarrow>
   world \<Rightarrow> world \<times> string option list" where
  "SyncAll cfg resolve jobs conn w =
     (case conn of
        None \<Rightarrow> (w, [])
      | Some addr \<Rightarrow>
          (let own = iter_named ''xml'' (kids (ClientsRegisteredAtThisServer (own_address cfg) (clients w)));
               w = w\<lparr>peer_links := tell_clients cfg addr own (server_db w) (peer_links w)\<rparr>
           in if IsGoSusi conn (peer_links w)
              then (w\<lparr>job_db := JobsSyncAll (own_address cfg) addr None (job_db w)\<rparr>, [])
              else gosasi_sync cfg resolve addr (jobs addr (jobs_query cfg addr)) w))"

section \<open>new_server\<close>

text \<open>\<open>mac\<close> is config.MAC, \<open>server_key\<close> the key of the section ServerPackages.\<close>

record server_site = client_site +
  own_mac :: string
  server_packages_key :: string

abbreviation site :: "server_site \<Rightarrow> client_site" where
  "site cfg \<equiv> client_site.truncate cfg"

definition loaded_modules :: "string list" where
  "loaded_modules = [''gosaTriggered'', ''siTriggered'', ''logHandling'', ''databases'',
     ''server_server_com'', ''clMessages'', ''goSusi'']"

definition new_server_message :: "server_site \<Rightarrow> string \<Rightarrow> string \<Rightarrow> string \<Rightarrow> hash" where
  "new_server_message cfg header key target =
     (let msg = NewHash ''xml'' [''header'', header];
          msg = Add header [] msg;
          msg = Add ''source'' [own_address (site cfg)] msg;
          msg = Add ''macaddress'' [own_mac cfg] msg;
          msg = fold (\<lambda>m. Add ''loaded_modules'' [m]) loaded_modules msg;
          msg = Add ''key'' [key] msg
      in Add ''target'' [target] msg)"

definition Send_new_server ::
  "server_site \<Rightarrow> (string \<Rightarrow> string result) \<Rightarrow> string \<Rightarrow> string \<Rightarrow> world \<Rightarrow> world outcome" where
  "Send_new_server cfg resolve header target w =
     (case ServerKeys target (server_db w) of
        [] \<Rightarrow> Returns w
      | key # _ \<Rightarrow>
          and_then (Peer resolve (own_address (site cfg)) target (peer_links w)) (\<lambda>(ps, conn).
            Returns (w\<lparr>peer_links := Tell (UseTLS cfg) (server_db w) (new_server_message cfg header key target)
                         (server_packages_key cfg) conn ps\<rparr>)))"

text \<open>A goroutine with its panic handler, for a body that changes nothing before it panics.\<close>

definition in_background :: "('w \<Rightarrow> 'w outcome) \<Rightarrow> 'w \<Rightarrow> 'w" where
  "in_background f w = (case f w of Returns w' \<Rightarrow> w' | _ \<Rightarrow> w)"

definition Broadcast_new_server :: "server_site \<Rightarrow> (string \<Rightarrow> string result) \<Rightarrow> world \<Rightarrow> world" where
  "Broadcast_new_server cfg resolve w =
     fold (\<lambda>server. in_background (Send_new_server cfg resolve ''new_server'' server))
       (ServerAddresses (server_db w)) w"

definition setGoSusi ::
  "client_site \<Rightarrow> (string \<Rightarrow> string result) \<Rightarrow> hash \<Rightarrow> world \<Rightarrow> world outcome" where
  "setGoSusi cfg resolve xmlmsg w =
     (let gosusi = list_ex (\<lambda>m. own_text m = ''goSusi'') (iter_named ''loaded_modules'' (kids xmlmsg)) in
      and_then (Peer resolve (own_address cfg) (text_of ''source'' xmlmsg) (peer_links w)) (\<lambda>(ps, conn).
        Returns (w\<lparr>peer_links := SetGoSusi gosusi conn ps\<rparr>)))"

definition new_foreign_client :: "client_site \<Rightarrow> hash \<Rightarrow> world \<Rightarrow> world" where
  "new_foreign_client cfg xmlmsg w =
     (let w = w\<lparr>clients := (case ClientUpdate (own_address cfg) xmlmsg (clients w) of
                  Inl err \<Rightarrow> clients w | Inr c \<Rightarrow> c)\<rparr>
      in if text_of ''source'' xmlmsg \<noteq> text_of ''client'' xmlmsg
         then w\<lparr>server_db := snd (ServerRemove (text_of ''client'' xmlmsg) (server_db w))\<rparr>
         else w)"

text \<open>
  \<open>ClientsToUpdate\<close>: the server and a map from MAC addresses to client addresses. Its method
  \<open>Accepts\<close> accepts nothing but takes out of the map what the database has already.
\<close>

record clients_to_update =
  Server :: string
  Clients :: "(string \<times> string) list"

definition ClientsToUpdate_Accepts :: "hash \<Rightarrow> clients_to_update \<Rightarrow> clients_to_update \<times> bool" where
  "ClientsToUpdate_Accepts x up =
     (let macaddress = text_of ''macaddress'' x in
      (case map_of (Clients up) macaddress of
         None \<Rightarrow> up
       | Some c_addr \<Rightarrow>
           if c_addr = text_of ''client'' x \<and> text_of ''source'' x = Server up
           then up\<lparr>Clients := AList.delete macaddress (Clients up)\<rparr> else up,
       False))"

text \<open>The elements \<open>client\<close> of the message, each ADDRESS,MAC; others are skipped.\<close>

definition listed_client :: "hash \<Rightarrow> (string \<times> string) list \<Rightarrow> (string \<times> string) list" where
  "listed_client client m =
     (case Split (own_text client) CHR '','' of [addr, mac] \<Rightarrow> AList.update mac addr m | _ \<Rightarrow> m)"

definition listed_clients :: "hash \<Rightarrow> (string \<times> string) list" where
  "listed_clients xmlmsg = fold listed_client (iter_named ''client'' (kids xmlmsg)) []"

definition foreign_client_message :: "string \<Rightarrow> string \<Rightarrow> string \<Rightarrow> string \<Rightarrow> hash" where
  "foreign_client_message source target client macaddress =
     (let cxml = NewHash ''xml'' [''header'', ''new_foreign_client''];
          cxml = Add ''source'' [source] cxml;
          cxml = Add ''target'' [target] cxml;
          cxml = Add ''client'' [client] cxml;
          cxml = Add ''macaddress'' [macaddress] cxml
      in Add ''new_foreign_client'' [] cxml)"

text \<open>\<open>order\<close> is the order in which Go visits the map.\<close>

definition handleClients ::
  "client_site \<Rightarrow> ((string \<times> string) list \<Rightarrow> (string \<times> string) list) \<Rightarrow> hash \<Rightarrow> world \<Rightarrow> world" where
  "handleClients cfg order xmlmsg w =
     (let source = text_of ''source'' xmlmsg;
          up = fold (\<lambda>x up. fst (ClientsToUpdate_Accepts x up)) (children (clientDB (clients w)))
                 \<lparr>Server = source, Clients = listed_clients xmlmsg\<rparr>
      in fold (\<lambda>(macaddress, client).
             new_foreign_client cfg (foreign_client_message source (own_address cfg) client macaddress))
           (order (Clients up)) w)"

text \<open>
  The handlers. The second result are the connections for which a synchronization follows
  later.
\<close>

definition new_server ::
  "server_site \<Rightarrow> (string \<Rightarrow> string) \<Rightarrow> (string \<Rightarrow> string result) \<Rightarrow>
   ((string \<times> string) list \<Rightarrow> (string \<times> string) list) \<Rightarrow> (string \<Rightarrow> hash \<Rightarrow> hash option) \<Rightarrow> hash \<Rightarrow> world \<Rightarrow>
   (world \<times> string option list) outcome" where
  "new_server cfg resolved resolve order jobs xmlmsg w =
     (let server = resolved (text_of ''source'' xmlmsg) in
      if server = own_address (site cfg) then Returns (w, [])
      else
        and_then (setGoSusi (site cfg) resolve xmlmsg w) (\<lambda>w.
          (let w = w\<lparr>server_db := ServerUpdate xmlmsg (server_db w)\<rparr>;
               w = handleClients (site cfg) order xmlmsg w
           in Returns (in_background (\<lambda>(w, syncs).
                and_then (Send_new_server cfg resolve ''confirm_new_server'' server w) (\<lambda>w.
                and_then (Peer resolve (own_address (site cfg)) server (peer_links w)) (\<lambda>(ps, conn).
                  Returns (SyncAll (site cfg) resolve jobs conn (w\<lparr>peer_links := ps\<rparr>))))) (w, [])))))"

definition confirm_new_server ::
  "server_site \<Rightarrow> (string \<Rightarrow> string) \<Rightarrow> (string \<Rightarrow> string result) \<Rightarrow>
   ((string \<times> string) list \<Rightarrow> (string \<times> string) list) \<Rightarrow> (string \<Rightarrow> hash \<Rightarrow> hash option) \<Rightarrow> hash \<Rightarrow> world \<Rightarrow>
   (world \<times> string option list) outcome" where
  "confirm_new_server cfg resolved resolve order jobs xmlmsg w =
     (let server = resolved (text_of ''source'' xmlmsg) in
      if server = own_address (site cfg) then Returns (w, [])
      else
        and_then (setGoSusi (site cfg) resolve xmlmsg w) (\<lambda>w.
          (let w = handleClients (site cfg) order xmlmsg w in
           and_then (Peer resolve (own_address (site cfg)) (text_of ''source'' xmlmsg) (peer_links w)) (\<lambda>(ps, conn).
             (case SyncAll (site cfg) resolve jobs conn (w\<lparr>peer_links := ps\<rparr>) of
                (w, syncs) \<Rightarrow> Returns (w\<lparr>server_db := ServerUpdate xmlmsg (server_db w)\<rparr>, syncs))))))"

section \<open>Other messages\<close>

text \<open>The loop that removes all keys.\<close>

function drop_each :: "string \<Rightarrow> hash \<Rightarrow> hash" where
  "drop_each t h =
     (case RemoveFirst t h of (None, h') \<Rightarrow> h' | (Some _, h') \<Rightarrow> drop_each t h')"
  by pat_completeness auto
termination
proof (relation "measure (\<lambda>(t, h). length (get1 t h))")
  fix t h x h' c
  assume "(x, h') = RemoveFirst t h" and "x = Some c"
  then have "h' = drop_first t h" "First t h = Some c" by (simp_all add: RemoveFirst_def)
  then have "h' = drop_first t h" "get1 t h \<noteq> []" using First_None_iff [of t h] by simp_all
  then show "((t, h'), t, h) \<in> measure (\<lambda>(t, h). length (get1 t h))"
    by (simp add: get1_drop_first)
qed simp

declare drop_each.simps [simp del]

definition new_key :: "string \<Rightarrow> hash \<Rightarrow> clientdb \<Rightarrow> clientdb" where
  "new_key server xmlmsg st =
     (case ClientWithAddress (text_of ''source'' xmlmsg) st of
        None \<Rightarrow> st
      | Some client \<Rightarrow>
          (let client = drop_each ''key'' client;
               client = Add ''key'' [text_of ''new_key'' xmlmsg] client
           in case ClientUpdate server client st of Inl err \<Rightarrow> st | Inr st' \<Rightarrow> st'))"

text \<open>What is wrong with the message, for the log; None if it is as expected.\<close>

datatype sharing_problem = Both_elements | Unknown_element string

fun check_sharing :: "string \<Rightarrow> hash list \<Rightarrow> sharing_problem option" where
  "check_sharing maintag [] = None"
| "check_sharing maintag (child # rest) =
     (let tag = Name child in
      if tag \<in> {''header'', ''source'', ''target'', ''information_sharing''} then check_sharing maintag rest
      else if tag = ''user_db'' \<or> tag = ''new_user'' then
        (if maintag \<noteq> [] \<and> maintag \<noteq> tag then Some Both_elements else check_sharing tag rest)
      else Some (Unknown_element tag))"

definition information_sharing :: "hash \<Rightarrow> sharing_problem option" where
  "information_sharing xmlmsg = check_sharing [] (children xmlmsg)"

text \<open>The hosts to whose networks a wake-up call is sent; \<open>wake\<close> is util.Wake.\<close>

definition wake_targets :: "client_site \<Rightarrow> directory \<Rightarrow> world \<Rightarrow> string \<Rightarrow> string list" where
  "wake_targets cfg env w macaddress =
     (case ServerWithMAC macaddress (server_db w) of
        None \<Rightarrow> [] | Some system \<Rightarrow> [hd (Split (text_of ''source'' system) CHR '':'')]) @
     (case ClientWithMAC macaddress (clients w) of
        None \<Rightarrow> [] | Some system \<Rightarrow> [hd (Split (text_of ''client'' system) CHR '':'')]) @
     (let system = SystemFullyQualifiedNameForMAC (Systems cfg) env macaddress in
      if system \<noteq> ''none'' then [system] else [])"

definition TriggerWake ::
  "client_site \<Rightarrow> directory \<Rightarrow> (string \<Rightarrow> string \<Rightarrow> string result) \<Rightarrow> world \<Rightarrow> string \<Rightarrow> bool" where
  "TriggerWake cfg env wake w macaddress =
     list_ex (\<lambda>target. \<not> isl (wake macaddress target)) (wake_targets cfg env w macaddress)"

section \<open>Many updates of the client database\<close>

definition update_or_keep :: "string \<Rightarrow> hash \<Rightarrow> clientdb \<Rightarrow> clientdb" where
  "update_or_keep server m st = (case ClientUpdate server m st of Inl err \<Rightarrow> st | Inr st' \<Rightarrow> st')"

definition client_message :: "hash \<Rightarrow> bool" where
  "client_message m \<longleftrightarrow> Name m = ''xml'' \<and> single ''macaddress'' m \<and> single ''client'' m \<and>
     text_of ''macaddress'' m \<noteq> [] \<and> text_of ''client'' m \<noteq> []"

text \<open>The entry that stands for a message: its elements and the previous key, if any.\<close>

definition entry_for :: "hash \<Rightarrow> hash \<Rightarrow> bool" where
  "entry_for m e \<longleftrightarrow> (\<exists>ks. e = Clone (with_previous_key ks m))"

lemma entry_for_fields:
  assumes "entry_for m e"
  shows "t \<noteq> ''key'' \<Longrightarrow> get1 t e = get1 t m" and "t \<noteq> ''key'' \<Longrightarrow> text_of t e = text_of t m"
    and "mac_key e = mac_key m" and "client_key e = client_key m"
    and "\<exists>ks. get1 ''key'' e = get1 ''key'' m @ take 1 ks"
  using assms
  by (auto simp: entry_for_def mac_key_def client_key_def with_previous_key_other
      with_previous_key_other_text with_previous_key_keys)

lemma update_or_keep_entries:
  assumes "clients_ok (clientDB st)" and "client_message m"
  shows "clients_ok (clientDB (update_or_keep server m st))"
    and "\<exists>e. entry_for m e \<and> set (children (clientDB (update_or_keep server m st))) =
      insert e {x \<in> set (children (clientDB st)). mac_key x \<noteq> mac_key m \<and> client_key x \<noteq> client_key m}"
proof -
  let ?mac = "text_of ''macaddress'' m" and ?addr = "text_of ''client'' m"
  obtain st' where upd: "ClientUpdate server m st = Inr st'"
    using assms(2) by (simp add: client_message_def ClientUpdate_def Let_def case_prod_beta)
  then have st': "update_or_keep server m st = st'" by (simp add: update_or_keep_def)
  show "clients_ok (clientDB (update_or_keep server m st))"
    unfolding st' using assms(2) by (intro ClientUpdate_ok [OF upd assms(1)]) (simp_all add: client_message_def)
  obtain c where c: "c = with_previous_key (ClientKeys ?addr st) m"
    and ch: "children (clientDB st') =
      filter (\<lambda>e. \<not> accepts (same_client ?mac ?addr) e) (children (clientDB st)) @ [Clone c]"
    using upd by (rule ClientUpdate_db)
  have "set (children (clientDB st')) =
      insert (Clone c) {x \<in> set (children (clientDB st)). \<not> accepts (same_client ?mac ?addr) x}"
    unfolding ch by (auto simp del: set_elems)
  also have "{x \<in> set (children (clientDB st)). \<not> accepts (same_client ?mac ?addr) x} =
      {x \<in> set (children (clientDB st)). mac_key x \<noteq> mac_key m \<and> client_key x \<noteq> client_key m}"
  proof (rule Collect_cong, rule conj_cong [OF refl])
    fix x assume "x \<in> set (children (clientDB st))"
    then have "entry_ok x" using assms(1) by (simp add: clients_ok_def list_all_iff del: set_elems)
    then show "\<not> accepts (same_client ?mac ?addr) x \<longleftrightarrow>
        mac_key x \<noteq> mac_key m \<and> client_key x \<noteq> client_key m"
      by (simp add: same_client_accepts mac_key_def [of m] client_key_def [of m])
  qed
  finally show "\<exists>e. entry_for m e \<and> set (children (clientDB (update_or_keep server m st))) =
      insert e {x \<in> set (children (clientDB st)). mac_key x \<noteq> mac_key m \<and> client_key x \<noteq> client_key m}"
    unfolding st' using c by (auto simp: entry_for_def)
qed

text \<open>
  A list of messages with different MAC addresses and different client addresses: what is
  stored afterwards are their entries and the old entries that none of them concerns.
\<close>

lemma many_updates:
  assumes "clients_ok (clientDB st)" and "list_all client_message ms"
    and "distinct (map mac_key ms)" and "distinct (map client_key ms)"
  shows "clients_ok (clientDB (fold (update_or_keep server) ms st)) \<and>
    (\<exists>es. list_all2 entry_for ms es \<and> set (children (clientDB (fold (update_or_keep server) ms st))) =
      set es \<union> {x \<in> set (children (clientDB st)).
        mac_key x \<notin> mac_key ` set ms \<and> client_key x \<notin> client_key ` set ms})"
  using assms
proof (induction ms arbitrary: st)
  case Nil
  then show ?case by (simp del: set_elems)
next
  case (Cons m ms)
  let ?st = "update_or_keep server m st"
  have m: "client_message m" using Cons.prems(2) by simp
  obtain e where e: "entry_for m e" and ch: "set (children (clientDB ?st)) =
      insert e {x \<in> set (children (clientDB st)). mac_key x \<noteq> mac_key m \<and> client_key x \<noteq> client_key m}"
    using update_or_keep_entries(2) [OF Cons.prems(1) m] by blast
  have "clients_ok (clientDB ?st)" by (rule update_or_keep_entries(1) [OF Cons.prems(1) m])
  from Cons.IH [OF this] Cons.prems
  obtain es where ok: "clients_ok (clientDB (fold (update_or_keep server) ms ?st))"
    and es: "list_all2 entry_for ms es" "set (children (clientDB (fold (update_or_keep server) ms ?st))) =
      set es \<union> {x \<in> set (children (clientDB ?st)).
        mac_key x \<notin> mac_key ` set ms \<and> client_key x \<notin> client_key ` set ms}"
    by auto
  have keys: "mac_key e = mac_key m" "client_key e = client_key m"
    using entry_for_fields(3,4) [OF e] .
  have "mac_key m \<notin> mac_key ` set ms" "client_key m \<notin> client_key ` set ms" using Cons.prems by simp_all
  then have "set (children (clientDB (fold (update_or_keep server) ms ?st))) =
      set (e # es) \<union> {x \<in> set (children (clientDB st)).
        mac_key x \<notin> mac_key ` set (m # ms) \<and> client_key x \<notin> client_key ` set (m # ms)}"
    unfolding es(2) ch using keys by (auto simp: image_iff simp del: set_elems)
  moreover have "list_all2 entry_for (m # ms) (e # es)" using e es(1) by simp
  ultimately have "list_all2 entry_for (m # ms) (e # es) \<and>
      set (children (clientDB (fold (update_or_keep server) (m # ms) st))) =
      set (e # es) \<union> {x \<in> set (children (clientDB st)).
        mac_key x \<notin> mac_key ` set (m # ms) \<and> client_key x \<notin> client_key ` set (m # ms)}"
    by (simp only: fold.simps comp_apply simp_thms)
  with ok show ?case by (auto simp only: fold.simps comp_apply)
qed

lemma clients_new_foreign_client:
  "clients (new_foreign_client cfg m w) = update_or_keep (own_address cfg) m (clients w)"
  by (simp add: new_foreign_client_def update_or_keep_def Let_def)

lemma clients_fold_new_foreign_client:
  "clients (fold (new_foreign_client cfg) ms w) = fold (update_or_keep (own_address cfg)) ms (clients w)"
  by (induction ms arbitrary: w) (simp_all add: clients_new_foreign_client)

section \<open>The clients in a new_server message\<close>

definition known_client :: "string \<Rightarrow> string \<Rightarrow> string \<Rightarrow> hash \<Rightarrow> bool" where
  "known_client source mac addr x \<longleftrightarrow>
     text_of ''macaddress'' x = mac \<and> text_of ''client'' x = addr \<and> text_of ''source'' x = source"

lemma delete_as_filter:
  "distinct (map fst m) \<Longrightarrow> map_of m k = Some v \<Longrightarrow> AList.delete k m = filter (\<lambda>p. p \<noteq> (k, v)) m"
proof -
  assume d: "distinct (map fst m)" and v: "map_of m k = Some v"
  have "(case p of (k', x) \<Rightarrow> k \<noteq> k') \<longleftrightarrow> p \<noteq> (k, v)" if "p \<in> set m" for p
  proof (cases p)
    case (Pair k' x)
    with that have "map_of m k' = Some x" using map_of_is_SomeI [OF d] by simp
    with Pair v show ?thesis by auto
  qed
  then show ?thesis unfolding AList.delete_eq by (intro filter_cong) simp_all
qed

lemma update_new: "k \<notin> fst ` set m \<Longrightarrow> AList.update k v m = m @ [(k, v)]"
  by (induction m) auto

lemma Clients_after_query:
  "distinct (map fst (Clients up)) \<Longrightarrow>
    Clients (fold (\<lambda>x up. fst (ClientsToUpdate_Accepts x up)) xs up) =
      filter (\<lambda>(mac, addr). \<not> list_ex (known_client (Server up) mac addr) xs) (Clients up)"
proof (induction xs arbitrary: up)
  case Nil
  then show ?case by simp
next
  case (Cons x xs)
  let ?up = "fst (ClientsToUpdate_Accepts x up)"
  have step: "Clients ?up = filter (\<lambda>(mac, addr). \<not> known_client (Server up) mac addr x) (Clients up)"
  proof (cases "map_of (Clients up) (text_of ''macaddress'' x)")
    case None
    then have "(text_of ''macaddress'' x, a) \<notin> set (Clients up)" for a
      by (metis map_of_eq_None_iff fst_conv imageI)
    with None show ?thesis
      by (auto simp: ClientsToUpdate_Accepts_def known_client_def intro!: filter_True [symmetric])
  next
    case (Some a)
    have only: "(text_of ''macaddress'' x, b) \<in> set (Clients up) \<Longrightarrow> b = a" for b
      using Some map_of_is_SomeI [OF Cons.prems] by fastforce
    show ?thesis
    proof (cases "a = text_of ''client'' x \<and> text_of ''source'' x = Server up")
      case True
      then have "Clients ?up = filter (\<lambda>p. p \<noteq> (text_of ''macaddress'' x, a)) (Clients up)"
        using Some by (simp add: ClientsToUpdate_Accepts_def delete_as_filter [OF Cons.prems])
      also have "\<dots> = filter (\<lambda>(mac, addr). \<not> known_client (Server up) mac addr x) (Clients up)"
        using True by (intro filter_cong) (auto simp: known_client_def)
      finally show ?thesis .
    next
      case False
      then have "Clients ?up = Clients up" using Some by (auto simp: ClientsToUpdate_Accepts_def)
      also have "\<dots> = filter (\<lambda>(mac, addr). \<not> known_client (Server up) mac addr x) (Clients up)"
        using False only by (auto simp: known_client_def intro!: filter_True [symmetric])
      finally show ?thesis .
    qed
  qed
  have same: "Server ?up = Server up"
    by (simp add: ClientsToUpdate_Accepts_def Let_def split: option.split)
  have "distinct (map fst (Clients ?up))"
    unfolding step by (rule distinct_map_filterI [OF Cons.prems])
  from Cons.IH [OF this] show ?case
    unfolding fold.simps comp_apply same unfolding step filter_filter
    by (rule trans) (auto intro!: filter_cong)
qed

lemma listed_clients_read:
  assumes "map own_text (iter_named ''client'' (kids xmlmsg)) = map (\<lambda>(mac, addr). addr @ '','' @ mac) cs"
    and "list_all (\<lambda>(mac, addr). CHR '','' \<notin> set mac \<and> CHR '','' \<notin> set addr) cs"
    and "distinct (map fst cs)"
  shows "listed_clients xmlmsg = cs"
proof -
  have split: "Split (addr @ '','' @ mac) CHR '','' = [addr, mac]"
    if "CHR '','' \<notin> set mac" "CHR '','' \<notin> set addr" for mac addr
    
  proof -
    have "Split (addr @ CHR '','' # mac) CHR '','' = [addr, mac]"
      using that by (induction addr) (auto simp: Split_no_sep)
    then show ?thesis by simp
  qed
  have "map own_text es = map (\<lambda>(mac, addr). addr @ '','' @ mac) cs \<Longrightarrow>
      list_all (\<lambda>(mac, addr). CHR '','' \<notin> set mac \<and> CHR '','' \<notin> set addr) cs \<Longrightarrow>
      distinct (map fst (m @ cs)) \<Longrightarrow> fold listed_client es m = m @ cs" for es m
  proof (induction cs arbitrary: es m)
    case (Cons c cs)
    obtain mac addr where c: "c = (mac, addr)" by (cases c)
    obtain e es' where es: "es = e # es'" "own_text e = addr @ '','' @ mac"
      "map own_text es' = map (\<lambda>(mac, addr). addr @ '','' @ mac) cs"
      using Cons.prems(1) by (cases es) (auto simp: c)
    have "listed_client e m = m @ [(mac, addr)]"
      using Cons.prems(2,3) split [of mac addr] by (simp add: listed_client_def es(2) c update_new)
    then show ?case using Cons.IH [OF es(3), of "m @ [(mac, addr)]"] Cons.prems by (simp add: es(1) c)
  qed simp
  from this [OF assms(1,2), of "[]"] assms(3) show ?thesis by (simp add: listed_clients_def)
qed

lemma foreign_client_fields:
  "Name (foreign_client_message s t c m) = ''xml''"
  "get1 ''macaddress'' (foreign_client_message s t c m) = [m]"
  "get1 ''client'' (foreign_client_message s t c m) = [c]"
  "get1 ''source'' (foreign_client_message s t c m) = [s]"
  "mac_key (foreign_client_message s t c m) = ToLower m"
  "client_key (foreign_client_message s t c m) = ToLower c"
  by (simp_all add: foreign_client_message_def Let_def mac_key_def client_key_def text_of_eq get1_eq)

definition lists_clients :: "hash \<Rightarrow> (string \<times> string) list \<Rightarrow> bool" where
  "lists_clients xmlmsg cs \<longleftrightarrow>
     map own_text (iter_named ''client'' (kids xmlmsg)) = map (\<lambda>(mac, addr). addr @ '','' @ mac) cs \<and>
     list_all (\<lambda>(mac, addr). mac \<noteq> [] \<and> addr \<noteq> [] \<and> CHR '','' \<notin> set mac \<and> CHR '','' \<notin> set addr) cs \<and>
     distinct (map (\<lambda>c. ToLower (fst c)) cs) \<and> distinct (map (\<lambda>c. ToLower (snd c)) cs)"

lemma handleClients_entries:
  assumes ok: "clients_ok (clientDB (clients w))" and cs: "lists_clients xmlmsg cs"
    and order: "\<And>m. mset (order m) = mset m"
    and w': "w' = handleClients cfg order xmlmsg w" and source: "source = text_of ''source'' xmlmsg"
  shows "clients_ok (clientDB (clients w'))"
    and "(mac, addr) \<in> set cs \<Longrightarrow> \<exists>e. ClientWithMAC mac (clients w') = Some e \<and>
      text_of ''client'' e = addr \<and> text_of ''source'' e = source"
    and "x \<in> set (children (clientDB (clients w))) \<Longrightarrow> (mac, addr) \<in> set cs \<Longrightarrow>
      known_client source mac addr x \<Longrightarrow> x \<in> set (children (clientDB (clients w')))"
    and "x \<in> set (children (clientDB (clients w))) \<Longrightarrow>
      \<forall>(mac, addr) \<in> set cs. mac_key x \<noteq> ToLower mac \<and> client_key x \<noteq> ToLower addr \<Longrightarrow>
      x \<in> set (children (clientDB (clients w')))"
proof -
  let ?old = "children (clientDB (clients w))"
  let ?msg = "\<lambda>(mac, client). foreign_client_message source (own_address cfg) client mac"
  define rest where "rest = filter (\<lambda>(mac, addr). \<not> list_ex (known_client source mac addr) ?old) cs"
  define ms where "ms = map ?msg (order rest)"
  have macs: "distinct (map (\<lambda>c. ToLower (fst c)) cs)" and addrs: "distinct (map (\<lambda>c. ToLower (snd c)) cs)"
    using cs by (simp_all add: lists_clients_def)
  have "distinct (map fst cs)" using macs unfolding distinct_map inj_on_def by metis
  moreover have "list_all (\<lambda>(mac, addr). CHR '','' \<notin> set mac \<and> CHR '','' \<notin> set addr) cs"
    using cs by (auto simp: lists_clients_def list_all_iff)
  ultimately have listed: "listed_clients xmlmsg = cs" and dist: "distinct (map fst cs)"
    using cs listed_clients_read by (auto simp: lists_clients_def)
  have "Clients (fold (\<lambda>x up. fst (ClientsToUpdate_Accepts x up)) ?old
      \<lparr>Server = source, Clients = listed_clients xmlmsg\<rparr>) = rest"
    using dist by (subst Clients_after_query) (simp_all add: listed rest_def)
  then have "w' = fold (new_foreign_client cfg) ms w"
    by (simp add: w' handleClients_def ms_def fold_map comp_def case_prod_unfold source [symmetric] Let_def)
  then have st: "clients w' = fold (update_or_keep (own_address cfg)) ms (clients w)"
    by (simp add: clients_fold_new_foreign_client)
  have perm: "set (order m) = set m" for m using order by (metis set_mset_mset)
  have keys: "map mac_key ms = map (\<lambda>c. ToLower (fst c)) (order rest)"
    "map client_key ms = map (\<lambda>c. ToLower (snd c)) (order rest)"
    by (simp_all add: ms_def case_prod_beta foreign_client_fields comp_def)
  have "distinct (map f (order rest))" if "distinct (map f cs)" for f :: "string \<times> string \<Rightarrow> string"
  proof -
    have "distinct (map f rest)" unfolding rest_def using that by (rule distinct_map_filterI)
    moreover have "mset (map f (order rest)) = mset (map f rest)" using order by simp
    ultimately show ?thesis using mset_eq_imp_distinct_iff by blast
  qed
  then have dists: "distinct (map mac_key ms)" "distinct (map client_key ms)"
    unfolding keys using macs addrs by blast+
  have in_cs: "c \<in> set rest \<Longrightarrow> c \<in> set cs" for c by (simp add: rest_def)
  have "client_message (?msg c)" if "c \<in> set cs" for c
  proof -
    have "fst c \<noteq> []" "snd c \<noteq> []" using that cs by (auto simp: lists_clients_def list_all_iff)
    then show ?thesis
      by (simp add: client_message_def case_prod_beta foreign_client_fields single_def text_of_eq)
  qed
  then have "list_all client_message ms" using in_cs perm by (auto simp: ms_def list_all_iff)
  from many_updates [OF ok this dists, of "own_address cfg"] obtain es where
    ok': "clients_ok (clientDB (clients w'))" and es: "list_all2 entry_for ms es"
    and new: "set (children (clientDB (clients w'))) = set es \<union>
      {x \<in> set ?old. mac_key x \<notin> mac_key ` set ms \<and> client_key x \<notin> client_key ` set ms}"
    unfolding st by blast
  show "clients_ok (clientDB (clients w'))" by (rule ok')
  have key_sets: "mac_key ` set ms = (\<lambda>c. ToLower (fst c)) ` set rest"
    "client_key ` set ms = (\<lambda>c. ToLower (snd c)) ` set rest"
    using arg_cong [OF keys(1), of set] arg_cong [OF keys(2), of set] by (simp_all add: perm)
  show kept: "x \<in> set (children (clientDB (clients w')))"
    if x: "x \<in> set ?old" and in_list: "(mac, addr) \<in> set cs" and known: "known_client source mac addr x"
    for x mac addr
  proof -
    have "(mac, addr) \<notin> set rest" using x known by (auto simp: rest_def list_ex_iff simp del: set_elems)
    then have none: "ToLower (fst c) \<noteq> ToLower mac \<and> ToLower (snd c) \<noteq> ToLower addr" if "c \<in> set rest" for c
      using that in_cs [OF that] in_list distinct_map_eq [OF macs, of c "(mac, addr)"]
        distinct_map_eq [OF addrs, of c "(mac, addr)"] by auto
    have "mac_key x = ToLower mac" "client_key x = ToLower addr"
      using known by (simp_all add: known_client_def mac_key_def client_key_def)
    then have "mac_key x \<notin> (\<lambda>c. ToLower (fst c)) ` set rest" "client_key x \<notin> (\<lambda>c. ToLower (snd c)) ` set rest"
      using none by (metis imageE)+
    then show ?thesis unfolding new key_sets using x by blast
  qed
  show "x \<in> set (children (clientDB (clients w')))"
    if "x \<in> set ?old" "\<forall>(mac, addr) \<in> set cs. mac_key x \<noteq> ToLower mac \<and> client_key x \<noteq> ToLower addr" for x
  proof -
    have "mac_key x \<noteq> ToLower (fst c) \<and> client_key x \<noteq> ToLower (snd c)" if "c \<in> set rest" for c
      using bspec [OF \<open>\<forall>(mac, addr) \<in> set cs. mac_key x \<noteq> ToLower mac \<and> client_key x \<noteq> ToLower addr\<close>
        in_cs [OF that]] by (simp add: case_prod_beta)
    then have "mac_key x \<notin> (\<lambda>c. ToLower (fst c)) ` set rest" "client_key x \<notin> (\<lambda>c. ToLower (snd c)) ` set rest"
      by (metis imageE)+
    then show ?thesis unfolding new key_sets using that(1) by blast
  qed
  show "\<exists>e. ClientWithMAC mac (clients w') = Some e \<and> text_of ''client'' e = addr \<and> text_of ''source'' e = source"
    if c: "(mac, addr) \<in> set cs" for mac addr
  proof (cases "(mac, addr) \<in> set rest")
    case True
    then have "?msg (mac, addr) \<in> set ms" by (auto simp: ms_def perm)
    then obtain i where "i < length ms" "ms ! i = ?msg (mac, addr)" by (auto simp only: in_set_conv_nth)
    then obtain e where e: "e \<in> set es" "entry_for (?msg (mac, addr)) e"
      using list_all2_nthD [OF es, of i] list_all2_lengthD [OF es] nth_mem [of i es] by metis
    then have "mac_key e = ToLower mac" "text_of ''client'' e = addr" "text_of ''source'' e = source"
      using entry_for_fields [OF e(2)] by (simp_all add: foreign_client_fields text_of_eq)
    moreover have "e \<in> set (children (clientDB (clients w')))" using e(1) new by blast
    ultimately show ?thesis using entry_by_mac [OF ok'] by blast
  next
    case False
    then obtain x where x: "x \<in> set ?old" "known_client source mac addr x"
      using c by (auto simp: rest_def list_ex_iff simp del: set_elems)
    then have "x \<in> set (children (clientDB (clients w')))" by (intro kept [OF _ c])
    moreover have "mac_key x = ToLower mac" using x(2) by (simp add: known_client_def mac_key_def)
    ultimately show ?thesis using entry_by_mac [OF ok'] x(2) unfolding known_client_def by blast
  qed
qed

lemma clients_of_SyncAll [simp]: "clients (fst (SyncAll cfg resolve jobs conn w)) = clients w"
  by (simp add: SyncAll_def gosasi_sync_def Let_def split: option.split prod.split)

lemma clients_of_setGoSusi: "setGoSusi cfg resolve xmlmsg w = Returns w' \<Longrightarrow> clients w' = clients w"
  by (cases "Peer resolve (own_address cfg) (text_of ''source'' xmlmsg) (peer_links w)")
    (auto simp: setGoSusi_def Let_def)

lemma clients_of_Send_new_server:
  "Send_new_server cfg resolve header target w = Returns w' \<Longrightarrow> clients w' = clients w"
  by (cases "Peer resolve (own_address (site cfg)) target (peer_links w)")
    (auto simp: Send_new_server_def split: list.splits)

lemma and_then_ReturnsE:
  assumes "and_then m f = Returns y"
  obtains x where "m = Returns x" and "f x = Returns y"
  using assms by (cases m) auto

lemma handleClients_same: "clients v = clients w \<Longrightarrow>
    clients (handleClients cfg order xmlmsg v) = clients (handleClients cfg order xmlmsg w)"
proof -
  assume "clients v = clients w"
  then have folds: "clients (fold (\<lambda>(m, c). new_foreign_client cfg (foreign_client_message s t c m)) xs v) =
      clients (fold (\<lambda>(m, c). new_foreign_client cfg (foreign_client_message s t c m)) xs w)" for xs s t
  proof -
    have "fold (\<lambda>(m, c). new_foreign_client cfg (foreign_client_message s t c m)) xs =
        fold (new_foreign_client cfg) (map (\<lambda>(m, c). foreign_client_message s t c m) xs)"
      by (simp add: fold_map comp_def case_prod_unfold)
    then show ?thesis by (simp only: clients_fold_new_foreign_client \<open>clients v = clients w\<close>)
  qed
  show ?thesis unfolding handleClients_def Let_def \<open>clients v = clients w\<close> by (rule folds)
qed

lemma new_server_clients:
  assumes "new_server cfg resolved resolve order jobs xmlmsg w = Returns (w', syncs) \<or>
      confirm_new_server cfg resolved resolve order jobs xmlmsg w = Returns (w', syncs)"
    and "resolved (text_of ''source'' xmlmsg) \<noteq> own_address (site cfg)"
  shows "clients w' = clients (handleClients (site cfg) order xmlmsg w)"
  using assms(1)
proof
  assume "new_server cfg resolved resolve order jobs xmlmsg w = Returns (w', syncs)"
  with assms(2) obtain v where v: "setGoSusi (site cfg) resolve xmlmsg w = Returns v"
    and w': "(w', syncs) = in_background (\<lambda>(w, syncs).
        and_then (Send_new_server cfg resolve ''confirm_new_server'' (resolved (text_of ''source'' xmlmsg)) w) (\<lambda>w.
        and_then (Peer resolve (own_address (site cfg)) (resolved (text_of ''source'' xmlmsg)) (peer_links w))
          (\<lambda>(ps, conn). Returns (SyncAll (site cfg) resolve jobs conn (w\<lparr>peer_links := ps\<rparr>)))))
      (handleClients (site cfg) order xmlmsg (v\<lparr>server_db := ServerUpdate xmlmsg (server_db v)\<rparr>), [])"
    by (auto simp: new_server_def Let_def elim!: and_then_ReturnsE)
  have "clients w' = clients (handleClients (site cfg) order xmlmsg (v\<lparr>server_db := ServerUpdate xmlmsg (server_db v)\<rparr>))"
    using w' by (auto simp: in_background_def dest!: clients_of_Send_new_server
        arg_cong [where f = "\<lambda>r. clients (fst r)"] elim!: and_then_ReturnsE split: outcome.splits)
  also have "\<dots> = clients (handleClients (site cfg) order xmlmsg w)"
    using clients_of_setGoSusi [OF v] by (intro handleClients_same) simp
  finally show ?thesis .
next
  assume "confirm_new_server cfg resolved resolve order jobs xmlmsg w = Returns (w', syncs)"
  with assms(2) obtain v ps conn where v: "setGoSusi (site cfg) resolve xmlmsg w = Returns v"
    and w': "(case SyncAll (site cfg) resolve jobs conn (handleClients (site cfg) order xmlmsg v\<lparr>peer_links := ps\<rparr>) of
        (u, syncs) \<Rightarrow> Returns (u\<lparr>server_db := ServerUpdate xmlmsg (server_db u)\<rparr>, syncs)) = Returns (w', syncs)"
    by (auto simp: confirm_new_server_def Let_def elim!: and_then_ReturnsE)
  have "clients w' = clients (fst (SyncAll (site cfg) resolve jobs conn
      (handleClients (site cfg) order xmlmsg v\<lparr>peer_links := ps\<rparr>)))"
    using w' by (auto simp: case_prod_beta)
  then have "clients w' = clients (handleClients (site cfg) order xmlmsg v)" by simp
  then show ?thesis using handleClients_same [OF clients_of_setGoSusi [OF v]] by simp
qed

text \<open>C33: What a server says about its clients is taken over, by new_server as well as by
  confirm_new_server, in whatever order Go visits the map: if the message lists clients with
  different MAC addresses and different client addresses, then each of them is found
  afterwards under its MAC address, with its address and that server; entries that were right
  already are kept as they are (with their keys), and so are the entries of clients whose MAC
  address and client address are not listed. The database still has one entry per client.\<close>

theorem listed_clients_are_taken_over:
  assumes "new_server cfg resolved resolve order jobs xmlmsg w = Returns (w', syncs) \<or>
      confirm_new_server cfg resolved resolve order jobs xmlmsg w = Returns (w', syncs)"
    and "resolved (text_of ''source'' xmlmsg) \<noteq> own_address (site cfg)"
    and "clients_ok (clientDB (clients w))" and "lists_clients xmlmsg cs"
    and "\<And>m. mset (order m) = mset m"
  shows "clients_ok (clientDB (clients w')) \<and>
    (\<forall>(mac, addr) \<in> set cs. \<exists>e. ClientWithMAC mac (clients w') = Some e \<and>
      text_of ''client'' e = addr \<and> text_of ''source'' e = text_of ''source'' xmlmsg) \<and>
    (\<forall>x \<in> set (children (clientDB (clients w))).
      (\<exists>(mac, addr) \<in> set cs. known_client (text_of ''source'' xmlmsg) mac addr x) \<or>
      (\<forall>(mac, addr) \<in> set cs. mac_key x \<noteq> ToLower mac \<and> client_key x \<noteq> ToLower addr) \<longrightarrow>
      x \<in> set (children (clientDB (clients w'))))"
proof -
  note same = new_server_clients [OF assms(1,2)]
  note entries = handleClients_entries [where cfg = "site cfg", OF assms(3-5) refl refl]
  show ?thesis
    unfolding same
  proof (intro conjI ballI impI, goal_cases)
    case (3 x)
    from 3(2) show ?case using entries(3,4) [OF 3(1)] by blast
  qed (use entries(1,2) in \<open>auto simp del: set_elems\<close>)
qed

lemma confirm_new_server_returns:
  assumes "\<And>qs. \<exists>ps conn. Peer resolve (own_address (site cfg)) (text_of ''source'' xmlmsg) qs = Returns (ps, conn)"
  shows "\<exists>w' syncs. confirm_new_server cfg resolved resolve order jobs xmlmsg w = Returns (w', syncs)"
proof (cases "resolved (text_of ''source'' xmlmsg) = own_address (site cfg)")
  case True
  then show ?thesis by (simp add: confirm_new_server_def)
next
  case False
  obtain v where v: "setGoSusi (site cfg) resolve xmlmsg w = Returns v"
    using assms [of "peer_links w"] by (auto simp: setGoSusi_def Let_def)
  obtain ps conn where "Peer resolve (own_address (site cfg)) (text_of ''source'' xmlmsg)
      (peer_links (handleClients (site cfg) order xmlmsg v)) = Returns (ps, conn)"
    using assms by blast
  then show ?thesis
    using False v by (simp add: confirm_new_server_def Let_def case_prod_beta)
qed

definition example_server_site :: server_site where
  "example_server_site = client_site.extend example_site \<lparr>own_mac = ''00:11:22:33:44:01'', server_packages_key = ''spk''\<rparr>"

definition example_new_server :: hash where
  "example_new_server = Hash ''xml'' [Sub (Hash ''header'' [Txt ''new_server'']), Sub (Hash ''source'' [Txt ''10.0.0.2:20081'']),
     Sub (Hash ''client'' [Txt ''10.0.0.7:20083,aa'']), Sub (Hash ''client'' [Txt ''10.0.0.8:20083,cc'']),
     Sub (Hash ''key'' [Txt ''pk'']), Sub (Hash ''loaded_modules'' [Txt ''goSusi''])]"

theorem listed_clients_are_taken_over_witness:
  "\<exists>w' syncs. confirm_new_server example_server_site id Inr rev (\<lambda>a q. None) example_new_server
      (example_world\<lparr>clients := example_clients\<rparr>) = Returns (w', syncs) \<and>
    clients_ok (clientDB (clients w')) \<and>
    (\<exists>e. ClientWithMAC ''aa'' (clients w') = Some e \<and> text_of ''client'' e = ''10.0.0.7:20083'')"
proof -
  let ?w = "example_world\<lparr>clients := example_clients\<rparr>"
  have addr: "peer_address Inr (text_of ''source'' example_new_server) = Some ''10.0.0.2:20081''"
    "''10.0.0.2:20081'' \<noteq> own_address (site example_server_site)"
    "text_of ''source'' example_new_server \<noteq> own_address (site example_server_site)"
    by code_simp+
  then have "\<exists>ps conn. Peer Inr (own_address (site example_server_site)) (text_of ''source'' example_new_server) qs =
      Returns (ps, conn)" for qs
    by (simp add: Peer_def del: client_site.truncate_def)
  then obtain w' syncs where
    r: "confirm_new_server example_server_site id Inr rev (\<lambda>a q. None) example_new_server ?w = Returns (w', syncs)"
    using confirm_new_server_returns [where cfg = example_server_site and resolve = Inr and xmlmsg = example_new_server]
    by blast
  have "resolved (text_of ''source'' example_new_server) \<noteq> own_address (site example_server_site)" if "resolved = id" for resolved
    unfolding that by code_simp
  moreover have "lists_clients example_new_server [(''aa'', ''10.0.0.7:20083''), (''cc'', ''10.0.0.8:20083'')]"
    by code_simp
  moreover have "clients_ok (clientDB (clients ?w))" by (simp add: example_clients_ok)
  ultimately show ?thesis
    using listed_clients_are_taken_over [OF disjI2 [OF r]] r by force
qed

section \<open>Keys\<close>

text \<open>A new key comes first, the one before it stays usable, older ones go.\<close>

lemma get1_drop_each:
  "(\<forall>t. t \<noteq> u \<longrightarrow> get1 t (drop_each u h) = get1 t h) \<and> get1 u (drop_each u h) = [] \<and>
   Name (drop_each u h) = Name h"
proof (induction u h rule: drop_each.induct)
  case (1 u h)
  have step: "drop_each u h = (if First u h = None then drop_first u h else drop_each u (drop_first u h))"
    by (subst drop_each.simps) (simp add: RemoveFirst_def split: option.split)
  show ?case
  proof (cases "First u h")
    case None
    then show ?thesis
      using step get1_drop_first(1) [where t = u and h = h] get1_drop_first(2) [where t = u and h = h]
      by (auto simp: First_None_iff)
  next
    case (Some c)
    then have "(Some c, drop_first u h) = RemoveFirst u h" by (simp add: RemoveFirst_def)
    from 1 [OF this refl] Some show ?thesis
      using step get1_drop_first(1) [where t = u and h = h] by simp
  qed
qed

lemma new_key_keeps_the_old_one:
  assumes "clients_ok (clientDB st)" and "ClientWithAddress (text_of ''source'' xmlmsg) st = Some c"
    and "entry_ok c" and "text_of ''macaddress'' c \<noteq> []" and "text_of ''client'' c \<noteq> []"
  shows "\<exists>e. ClientWithMAC (text_of ''macaddress'' c) (new_key server xmlmsg st) = Some e \<and>
    text_of ''client'' e = text_of ''client'' c \<and> text_of ''source'' e = text_of ''source'' c \<and>
    get1 ''key'' e = text_of ''new_key'' xmlmsg # take 1 (ClientKeys (text_of ''client'' c) st)"
proof -
  let ?m = "Add ''key'' [text_of ''new_key'' xmlmsg] (drop_each ''key'' c)"
  have fields: "t \<noteq> ''key'' \<Longrightarrow> get1 t (drop_each ''key'' h) = get1 t h"
    "get1 ''key'' (drop_each ''key'' h) = []" "Name (drop_each ''key'' h) = Name h" for t h
    using get1_drop_each [of "''key''" h] by simp_all
  have m: "client_message ?m"
    using assms(3-5) by (simp add: client_message_def entry_ok_def single_def fields text_of_eq)
  then obtain st' where upd: "ClientUpdate server ?m st = Inr st'"
    by (auto simp: client_message_def ClientUpdate_def Let_def case_prod_beta)
  have "new_key server xmlmsg st = st'" using assms(2) by (simp add: new_key_def Let_def upd)
  moreover have "Name ?m = ''xml''" "single ''macaddress'' ?m" "single ''client'' ?m"
    using m by (simp_all add: client_message_def)
  ultimately show ?thesis
    using client_update_keeps_unique [OF upd assms(1)] by (auto simp: fields text_of_eq)
qed

section \<open>A full synchronization tells the clients\<close>

fun message_of :: "telegram \<Rightarrow> hash option" where
  "message_of Ping = None"
| "message_of (Plain m) = Some m"
| "message_of (Encrypted k m) = Some m"

definition messages_of :: "telegram list \<Rightarrow> hash list" where
  "messages_of ts = List.map_filter message_of ts"

lemma map_of_change: "map_of (change a f ps) b = (if b = a then map_option f (map_of ps a) else map_of ps b)"
  by (induction ps) (auto simp: change_def)

lemma tell_clients_queue:
  "map_of ps b = Some c \<Longrightarrow> ServerKeys b serverdb \<noteq> [] \<Longrightarrow>
    \<exists>ts. map_of (tell_clients cfg b own serverdb ps) b = Some (c\<lparr>queue := queue c @ ts\<rparr>) \<and>
      messages_of ts = map (set_field ''target'' b) own"
proof (induction own arbitrary: ps c)
  case Nil
  then show ?case by (intro exI [of _ "[]"]) (simp add: tell_clients_def messages_of_def map_filter_simps)
next
  case (Cons m own)
  obtain t where t: "telegram_for (UseTLS cfg) (ServerKeys b serverdb) [] (set_field ''target'' b m) = Some t"
    "message_of t = Some (set_field ''target'' b m)"
    using Cons.prems(2)
    by (cases "ServerKeys b serverdb"; cases "UseTLS cfg \<and> hd (ServerKeys b serverdb) = []")
      (auto simp: telegram_for_def coded_def split: if_splits)
  let ?ps = "Tell (UseTLS cfg) serverdb (set_field ''target'' b m) [] (Some b) ps"
  have "map_of ?ps b = Some (push t c)" using Cons.prems(1) t(1) by (simp add: Tell_def map_of_change)
  from Cons.IH [OF this Cons.prems(2)] obtain ts where
    ts: "map_of (tell_clients cfg b own serverdb ?ps) b = Some ((push t c)\<lparr>queue := queue (push t c) @ ts\<rparr>)"
    "messages_of ts = map (set_field ''target'' b) own" by blast
  then show ?case
    using t(2) by (intro exI [of _ "t # ts"]) (simp add: tell_clients_def push_def messages_of_def map_filter_simps)
qed


definition example_peer_world :: world where
  "example_peer_world = \<lparr>clients = example_clients, hellos = Map.empty,
     server_db = Hash ''serverdb'' [Sub (Hash ''xml'' [Sub (Hash ''source'' [Txt ''h:9'']), Sub (Hash ''key'' [Txt ''pk''])])],
     job_db = example_jobdb, peer_links = [(''h:9'', new_connection\<lparr>is_gosusi := True\<rparr>)], effects = []\<rparr>"


end
