(* ===== verification/Queries.thy ===== *)
theory Queries
  imports Complex_Main AuditQuery Fai JobMessages PeerLinks
begin

text \<open>
  The queries of the administrator on jobs, releases, kernels, packages and repositories:
  go-susi/message/gosa_query_jobdb.go, gosa_query_fai_release.go, gosa_query_fai_server.go,
  gosa_query_packages_list.go, gosa_get_available_kernel.go, and \<open>LimitFilter\<close> of
  go-susi/security/util.go.

  A handler gets the configuration, the limit MaxAnswers of the connection, the message and
  the data, and returns the ans.
\<close>

section \<open>A limited number of answers\<close>

text \<open>
  A query of a database with a \<open>LimitFilter\<close>: the filter is asked for one item after the
  other, its counter is the second part of the state (theory AuditQuery).
\<close>

definition limited_query :: "int \<Rightarrow> hash_filter \<Rightarrow> hash \<Rightarrow> hash" where
  "limited_query maximum f h =
     fst (fold (\<lambda>item (result, left).
         case limitFilter maximum (accepts f item) left of
           (ok, left) \<Rightarrow> (if ok then AddClone item result else result, left))
       (children h) (NewHash (Name h) [], maximum))"

definition DB_QueryLimited :: "int \<Rightarrow> hash_filter \<Rightarrow> db \<Rightarrow> hash outcome" where
  "DB_QueryLimited maximum f d = and_then (lock d) (\<lambda>d. Returns (limited_query maximum f (data d)))"

text \<open>The filter of a query; one that cannot be parsed selects nothing.\<close>

definition where_of :: "hash \<Rightarrow> hash" where
  "where_of xmlmsg = (case First ''where'' xmlmsg of None \<Rightarrow> NewHash ''where'' [] | Some w \<Rightarrow> w)"

definition query_filter :: "hash \<Rightarrow> hash_filter" where
  "query_filter xmlmsg = (case WhereFilter (where_of xmlmsg) of Inl e \<Rightarrow> FilterNone | Inr f \<Rightarrow> f)"

definition numbered :: "nat \<Rightarrow> hash \<Rightarrow> hash" where
  "numbered num answer = Rename (''answer'' @ itoa num) answer"

definition end_of_reply :: "process_config \<Rightarrow> hash \<Rightarrow> hash \<Rightarrow> hash" where
  "end_of_reply cfg xmlmsg ans =
     Add ''session_id'' [''1''] (Add ''target'' [text_of ''source'' xmlmsg]
       (Add ''source'' [ServerSourceAddress cfg] ans))"

fun add_numbered :: "nat \<Rightarrow> hash list \<Rightarrow> hash \<Rightarrow> hash" where
  "add_numbered num [] ans = ans"
| "add_numbered num (child # rest) ans =
     add_numbered (Suc num) rest (AddWithOwnership (numbered num child) ans)"

section \<open>gosa_query_jobdb\<close>

text \<open>How long the reply waits for the effects of forwarded requests.\<close>

definition reply_delay :: "int \<Rightarrow> int \<Rightarrow> int \<Rightarrow> int" where
  "reply_delay max_delay t_forward now = max 0 (max_delay - (now - t_forward))"

text \<open>
  The order of the jobs. \<open>ins\<close> is the method \<open>InsertSorted\<close> of a deque (github.com/mbenkmann/golib):
  it puts an item into a list that is sorted by the comparison function.
\<close>

definition job_key :: "hash \<Rightarrow> string" where
  "job_key x = take 10 (text_of ''timestamp'' x @ ''00000000000000'') @
     Text [''headertag'', ''status'', ''plainname'', ''macaddress'', ''timestamp''] x"

definition job_cmp :: "hash \<Rightarrow> hash \<Rightarrow> int" where
  "job_cmp x y =
     (let c1 = job_key x; c2 = job_key y in if c1 < c2 then -1 else if c1 > c2 then 1 else 0)"

type_synonym inserter = "(hash \<Rightarrow> hash \<Rightarrow> int) \<Rightarrow> hash \<Rightarrow> hash list \<Rightarrow> hash list"

definition inserts_sorted :: "inserter \<Rightarrow> bool" where
  "inserts_sorted ins \<longleftrightarrow> (\<forall>cmp x xs.
     (\<forall>a b c. cmp a b \<le> 0 \<longrightarrow> cmp b c \<le> 0 \<longrightarrow> cmp a c \<le> 0) \<longrightarrow> (\<forall>a b. cmp a b \<le> 0 \<or> cmp b a \<le> 0) \<longrightarrow>
     sorted_wrt (\<lambda>a b. cmp a b \<le> 0) xs \<longrightarrow>
     sorted_wrt (\<lambda>a b. cmp a b \<le> 0) (ins cmp x xs) \<and> mset (ins cmp x xs) = add_mset x (mset xs))"

text \<open>
  \<open>verbalDuration\<close> of a number of seconds. The quotients are exact here; in the code they are
  rounded to the precision of float64.
\<close>

definition units :: "(string \<times> string \<times> rat) list" where
  "units = [(''second'', ''seconds'', 60), (''minute'', ''minutes'', 60), (''hour'', ''hours'', 24),
     (''day'', ''days'', 7), (''week'', ''weeks'', 4348125 / 1000000), (''month'', ''months'', 12),
     (''year'', ''years'', 10), (''decade'', ''decades'', 10), (''century'', ''centuries'', 10)]"

definition of_unit :: "rat \<Rightarrow> string \<Rightarrow> string \<Rightarrow> string" where
  "of_unit t unit_name unit_names =
     (if t < 99 / 100 then ''almost 1 '' @ unit_name
      else if t < 14 / 10 then ''more than 1 '' @ unit_name
      else if t < 16 / 10 then ''1 1/2 '' @ unit_names
      else if t < 19 / 10 then ''more than 1 1/2 '' @ unit_names
      else if t < 199 / 100 then ''almost 2 '' @ unit_names
      else (let u = nat \<lfloor>t + 1 / 10\<rfloor>; half = (if nat \<lfloor>t + 6 / 10\<rfloor> > u then '' 1/2'' else [])
            in itoa u @ half @ '' '' @ unit_names))"

fun in_units :: "rat \<Rightarrow> (string \<times> string \<times> rat) list \<Rightarrow> string" where
  "in_units t [] = ''ages''"
| "in_units t ((name1, names, divisor) # us) =
     (let p = t / divisor in if p > 90 / 100 then in_units p us else of_unit t name1 names)"

definition verbalDuration :: "int \<Rightarrow> string" where
  "verbalDuration seconds = in_units (of_int seconds) units"

text \<open>
  The loop over the sorted jobs. \<open>asked_at\<close> is the time at which the downtime of a server is asked
  for, \<open>LookupAddr\<close> is net.LookupAddr; both happen once for each server. The state are the
  known downtimes and the table of connections.
\<close>

definition server_name :: "(string \<Rightarrow> string list result) \<Rightarrow> string \<Rightarrow> string" where
  "server_name LookupAddr siserver =
     (case SplitHostPort siserver of
        Inl err \<Rightarrow> siserver
      | Inr (host, port) \<Rightarrow>
          (case LookupAddr host of Inl err \<Rightarrow> siserver | Inr [] \<Rightarrow> siserver | Inr (n # ns) \<Rightarrow> n))"

definition downtime_text :: "int \<Rightarrow> string" where
  "downtime_text dur = (if dur = 0 then [] else verbalDuration dur)"

definition ask_downtime ::
  "(string \<Rightarrow> string result) \<Rightarrow> string \<Rightarrow> (string \<Rightarrow> int) \<Rightarrow> string \<Rightarrow>
   (string \<rightharpoonup> string) \<times> peers \<Rightarrow> ((string \<rightharpoonup> string) \<times> peers) outcome" where
  "ask_downtime resolve server asked_at siserver acc =
     (case acc of (downtime, ps) \<Rightarrow>
        if downtime siserver \<noteq> None then Returns acc
        else
          and_then (Peer resolve server siserver ps) (\<lambda>(ps, conn).
            (let dur = (case conn of None \<Rightarrow> 0 | Some a \<Rightarrow>
                   (case map_of ps a of None \<Rightarrow> 0 | Some c \<Rightarrow> Downtime (asked_at siserver) c))
             in Returns (downtime(siserver \<mapsto> downtime_text dur), ps))))"

definition mark_down :: "(string \<Rightarrow> string list result) \<Rightarrow> string \<Rightarrow> hash \<Rightarrow> hash" where
  "mark_down LookupAddr dur answer =
     (if dur \<noteq> []
      then set_field ''result'' (server_name LookupAddr (text_of ''siserver'' answer) @ '' has been down for '' @ dur @ ''.'')
             (set_field ''status'' ''error'' answer)
      else answer)"

fun job_answers ::
  "(string \<Rightarrow> string result) \<Rightarrow> string \<Rightarrow> (string \<Rightarrow> int) \<Rightarrow> (string \<Rightarrow> string list result) \<Rightarrow> nat \<Rightarrow> hash list \<Rightarrow>
   (string \<rightharpoonup> string) \<times> peers \<Rightarrow> (hash list \<times> peers) outcome" where
  "job_answers resolve server asked_at LookupAddr num [] acc = Returns ([], snd acc)"
| "job_answers resolve server asked_at LookupAddr num (answer # rest) acc =
     and_then (ask_downtime resolve server asked_at (text_of ''siserver'' answer) acc) (\<lambda>acc.
       (let dur = (case fst acc (text_of ''siserver'' answer) of None \<Rightarrow> [] | Some d \<Rightarrow> d);
            answer = numbered num (mark_down LookupAddr dur answer)
        in and_then (job_answers resolve server asked_at LookupAddr (Suc num) rest acc) (\<lambda>(answers, ps).
             Returns (answer # answers, ps))))"

text \<open>\<open>jobs\<close> is the job database at the time the query is performed.\<close>

definition gosa_query_jobdb ::
  "process_config \<Rightarrow> inserter \<Rightarrow> (string \<Rightarrow> string result) \<Rightarrow> (string \<Rightarrow> int) \<Rightarrow>
   (string \<Rightarrow> string list result) \<Rightarrow> int \<Rightarrow> hash \<Rightarrow> hash \<Rightarrow> peers \<Rightarrow> (hash \<times> peers) outcome" where
  "gosa_query_jobdb cfg ins resolve asked_at LookupAddr max_answers xmlmsg jobs ps =
     (let jobdb_xml = limited_query max_answers (query_filter xmlmsg) jobs;
          answers = fold (ins job_cmp) (children jobdb_xml) []
      in and_then (job_answers resolve (ServerSourceAddress cfg) asked_at LookupAddr 1 answers
                     ([ServerSourceAddress cfg \<mapsto> []], ps)) (\<lambda>(answers, ps).
           (let ans = fold AddWithOwnership answers (Hash (Name jobdb_xml) (map Txt (TextFragments jobdb_xml)));
                ans = Add ''header'' [''query_jobdb''] ans
            in Returns (Rename ''xml'' (end_of_reply cfg xmlmsg ans), ps))))"

section \<open>Releases, repositories, kernels\<close>

definition gosa_query_fai_release ::
  "process_config \<Rightarrow> ldap_config \<Rightarrow> (string \<Rightarrow> string list \<Rightarrow> hash result) \<Rightarrow> (string list \<Rightarrow> string list) \<Rightarrow>
   int \<Rightarrow> string \<Rightarrow> string list \<Rightarrow> int \<Rightarrow> int \<Rightarrow> hash \<Rightarrow> fai_db \<Rightarrow> (hash \<times> fai_db) outcome" where
  "gosa_query_fai_release cfg ldap search order now timestamp week max_age max_answers xmlmsg st =
     and_then (FAIClassesCacheNoOlderThan ldap search order now timestamp week max_age st) (\<lambda>st.
       and_then (DB_QueryLimited max_answers (query_filter xmlmsg) (faiClassCache st)) (\<lambda>faiclassesdb.
         Returns (end_of_reply cfg xmlmsg (add_numbered 1 (children faiclassesdb)
           (NewHash ''xml'' [''header'', ''query_fai_release''])), st)))"

fun add_servers_until :: "int \<Rightarrow> nat \<Rightarrow> hash list \<Rightarrow> hash \<Rightarrow> hash" where
  "add_servers_until max_answers num [] servers = servers"
| "add_servers_until max_answers num (child # rest) servers =
     (if max_answers > 0 \<and> int num = max_answers then servers
      else add_servers_until max_answers (Suc num) rest (AddWithOwnership (numbered num child) servers))"

definition gosa_query_fai_server :: "process_config \<Rightarrow> int \<Rightarrow> hash \<Rightarrow> hash \<Rightarrow> hash" where
  "gosa_query_fai_server cfg max_answers xmlmsg serversdb =
     end_of_reply cfg xmlmsg (add_servers_until max_answers 1 (children serversdb)
       (NewHash ''xml'' [''header'', ''query_fai_server'']))"

definition kernel_answer :: "nat \<Rightarrow> hash \<Rightarrow> hash" where
  "kernel_answer num k = SetText [text_of ''cn'' k] (NewHash (''answer'' @ itoa num) [])"

definition gosa_get_available_kernel :: "process_config \<Rightarrow> int \<Rightarrow> hash \<Rightarrow> fai_db \<Rightarrow> hash outcome" where
  "gosa_get_available_kernel cfg max_answers xmlmsg st =
     (let ans = end_of_reply cfg xmlmsg (NewHash ''xml'' [''header'', ''get_available_kernel'']);
          ans = Add ''get_available_kernel'' [] ans;
          f = FilterSimple [''fai_release'', text_of ''fai_release'' xmlmsg]
      in and_then (DB_QueryLimited max_answers f (kerneldb st)) (\<lambda>kernels.
           Returns (fold (\<lambda>(num, k). AddWithOwnership (kernel_answer num k))
             (enumerate 1 (iter_named ''kernel'' (kids kernels))) ans)))"

section \<open>Packages\<close>

text \<open>
  The distribution that is asked for: a clause with one phrase without operator on that
  column; the last one counts. An empty phrase is a nil pointer.
\<close>

definition clause_distribution :: "hash \<Rightarrow> string option outcome" where
  "clause_distribution clause =
     (case iter_named ''phrase'' (kids clause) of
        [phrase] \<Rightarrow>
          if First ''operator'' phrase \<noteq> None then Returns None
          else
            (case children phrase of
               [] \<Rightarrow> outcome.Panics
             | distele # _ \<Rightarrow>
                 Returns (if Name distele = ''distribution'' then Some (own_text distele) else None))
      | _ \<Rightarrow> Returns None)"

fun find_distribution :: "hash list \<Rightarrow> string \<Rightarrow> string outcome" where
  "find_distribution [] distribution = Returns distribution"
| "find_distribution (clause # rest) distribution =
     and_then (clause_distribution clause) (\<lambda>d.
       find_distribution rest (case d of None \<Rightarrow> distribution | Some d \<Rightarrow> d))"

text \<open>\<open>cleanup\<close>: the indices it finds (None is -1) and where it is.\<close>

datatype cleanup_mode = Before | In_distribution | In_data | Behind

record cleanup_state =
  distribution_idx :: "nat option"
  last_distribution_idx :: "nat option"
  data_idx :: "string \<rightharpoonup> nat"
  package_idx :: nat
  mode :: cleanup_mode

definition data_fields :: "string list" where
  "data_fields = [''version'', ''section'', ''description'', ''template'', ''timestamp'']"

definition cleanup_element :: "string \<Rightarrow> nat \<times> hash \<Rightarrow> cleanup_state \<Rightarrow> cleanup_state" where
  "cleanup_element distribution e st =
     (case e of (i, ele) \<Rightarrow>
        let st = (if mode st = In_distribution \<and> Name ele \<noteq> ''distribution'' then st\<lparr>mode := In_data\<rparr> else st) in
        if Name ele = ''package'' then st\<lparr>package_idx := i\<rparr>
        else if Name ele = ''distribution'' then
          (let st = st\<lparr>last_distribution_idx := Some i\<rparr> in
           if mode st = Before then
             (if own_text ele = distribution then st\<lparr>distribution_idx := Some i, mode := In_distribution\<rparr> else st)
           else if mode st = In_data then st\<lparr>mode := Behind\<rparr> else st)
        else if Name ele \<in> set data_fields then
          (if data_idx st (Name ele) = None \<or> mode st \<noteq> Behind
           then st\<lparr>data_idx := (data_idx st)(Name ele \<mapsto> i)\<rparr> else st)
        else st)"

definition cleanup_scan :: "string \<Rightarrow> hash list \<Rightarrow> cleanup_state" where
  "cleanup_scan distribution eles =
     fold (cleanup_element distribution) (enumerate 0 eles)
       \<lparr>distribution_idx = None, last_distribution_idx = None, data_idx = Map.empty, package_idx = 0, mode = Before\<rparr>"

definition keeps :: "cleanup_state \<Rightarrow> nat \<Rightarrow> bool" where
  "keeps st i \<longleftrightarrow> i = package_idx st \<or>
     (if distribution_idx st \<noteq> None then distribution_idx st = Some i else last_distribution_idx st = Some i) \<or>
     list_ex (\<lambda>t. data_idx st t = Some i) data_fields"

fun keep_elements :: "(nat \<Rightarrow> bool) \<Rightarrow> nat \<Rightarrow> kid list \<Rightarrow> kid list" where
  "keep_elements keep i [] = []"
| "keep_elements keep i (Txt s # ks) = Txt s # keep_elements keep i ks"
| "keep_elements keep i (Sub x # ks) =
     (if keep i then Sub x # keep_elements keep (Suc i) ks else keep_elements keep (Suc i) ks)"

text \<open>Without any distribution, keep[-1] is a panic.\<close>

definition cleanup :: "string \<Rightarrow> hash \<Rightarrow> hash outcome" where
  "cleanup distribution x =
     (let st = cleanup_scan distribution (children x) in
      if distribution_idx st = None \<and> last_distribution_idx st = None then outcome.Panics
      else Returns (Hash (Name x) (keep_elements (keeps st) 0 (kids x))))"

fun package_answers :: "string \<Rightarrow> nat \<Rightarrow> hash list \<Rightarrow> hash \<Rightarrow> hash outcome" where
  "package_answers distribution num [] packages = Returns packages"
| "package_answers distribution num (child # rest) packages =
     and_then (cleanup distribution (numbered num child)) (\<lambda>answer.
       package_answers distribution (Suc num) rest (AddWithOwnership answer packages))"

definition gosa_query_packages_list :: "process_config \<Rightarrow> int \<Rightarrow> hash \<Rightarrow> fai_db \<Rightarrow> hash outcome" where
  "gosa_query_packages_list cfg max_answers xmlmsg st =
     and_then (find_distribution (iter_named ''clause'' (kids (where_of xmlmsg))) []) (\<lambda>distribution.
       and_then (DB_QueryLimited max_answers (query_filter xmlmsg) (packagedb st)) (\<lambda>packagesdb.
         and_then (package_answers distribution 1 (children packagesdb)
                     (NewHash ''xml'' [''header'', ''query_packages_list''])) (\<lambda>packages.
           Returns (end_of_reply cfg xmlmsg packages))))"

section \<open>The limit\<close>

lemma limited_fold:
  "maximum > 0 \<Longrightarrow> left \<ge> -1 \<Longrightarrow>
    children (fst (fold (\<lambda>item (result, left).
         case limitFilter maximum (accepts f item) left of
           (ok, left) \<Rightarrow> (if ok then AddClone item result else result, left)) xs (r, left))) =
      children r @ take (nat left) (map Clone (filter (accepts f) xs))"
proof (induction xs arbitrary: r left)
  case (Cons x xs)
  show ?case
  proof (cases "accepts f x \<and> left \<ge> 0")
    case True
    show ?thesis
    proof (cases "left = 0")
      case True
      with Cons.IH [of "-1" r] Cons.prems \<open>accepts f x \<and> left \<ge> 0\<close> show ?thesis
        by (simp add: limitFilter_def limited_def)
    next
      case False
      with True have "nat left = Suc (nat (left - 1))" by arith
      with Cons.IH [of "left - 1" "AddClone x r"] Cons.prems True False show ?thesis
        by (simp add: limitFilter_def limited_def)
    qed
  next
    case False
    with Cons.IH [of left r] Cons.prems show ?thesis
      by (auto simp: limitFilter_def limited_def)
  qed
qed simp

lemma children_limited_query:
  "children (limited_query maximum f h) =
     (let found = map Clone (filter (accepts f) (children h)) in
      if maximum \<le> 0 then found else take (nat maximum) found)"
proof (cases "maximum \<le> 0")
  case True
  then have "children (fst (fold (\<lambda>item (result, left).
         case limitFilter maximum (accepts f item) left of
           (ok, left) \<Rightarrow> (if ok then AddClone item result else result, left)) xs (r, left))) =
      children r @ map Clone (filter (accepts f) xs)" for xs r left
    by (induction xs arbitrary: r left) (auto simp: limitFilter_def)
  with True show ?thesis by (simp add: limited_query_def)
next
  case False
  with limited_fold [of maximum maximum f "children h" "NewHash (Name h) []"] show ?thesis
    by (simp add: limited_query_def)
qed

section \<open>The jobs in the answer\<close>

lemma job_cmp_le: "job_cmp a b \<le> 0 \<longleftrightarrow> job_key a \<le> job_key b"
  by (auto simp: job_cmp_def Let_def)

lemma inserts_sortedD:
  assumes "inserts_sorted ins" and "sorted (map job_key xs)"
  shows "sorted (map job_key (ins job_cmp x xs))" and "mset (ins job_cmp x xs) = add_mset x (mset xs)"
proof -
  have "sorted_wrt (\<lambda>a b. job_cmp a b \<le> 0) xs" using assms(2) by (simp add: job_cmp_le sorted_wrt_map)
  moreover have "\<forall>a b c. job_cmp a b \<le> 0 \<longrightarrow> job_cmp b c \<le> 0 \<longrightarrow> job_cmp a c \<le> 0"
    unfolding job_cmp_le by (meson order_trans)
  moreover have "\<forall>a b. job_cmp a b \<le> 0 \<or> job_cmp b a \<le> 0" unfolding job_cmp_le by (meson linear)
  ultimately have "sorted_wrt (\<lambda>a b. job_cmp a b \<le> 0) (ins job_cmp x xs) \<and>
      mset (ins job_cmp x xs) = add_mset x (mset xs)"
    using assms(1) [unfolded inserts_sorted_def, rule_format, of job_cmp xs x] by blast
  then show "sorted (map job_key (ins job_cmp x xs))" "mset (ins job_cmp x xs) = add_mset x (mset xs)"
    by (simp_all add: job_cmp_le sorted_wrt_map)
qed

lemma fold_inserts:
  "inserts_sorted ins \<Longrightarrow> sorted (map job_key ys) \<Longrightarrow>
    sorted (map job_key (fold (ins job_cmp) xs ys)) \<and> mset (fold (ins job_cmp) xs ys) = mset xs + mset ys"
  by (induction xs arbitrary: ys) (simp_all add: inserts_sortedD)

text \<open>How long a server has been down, in seconds; 0 for one that is up or not known.\<close>

definition peer_downtime :: "(string \<Rightarrow> string result) \<Rightarrow> peers \<Rightarrow> (string \<Rightarrow> int) \<Rightarrow> string \<Rightarrow> int" where
  "peer_downtime resolve ps asked_at siserver =
     (case peer_address resolve siserver of None \<Rightarrow> 0
      | Some a \<Rightarrow> (case map_of ps a of None \<Rightarrow> 0 | Some c \<Rightarrow> Downtime (asked_at siserver) c))"

lemma Peer_downtimes:
  assumes "Peer resolve server s ps = Returns (ps', conn)"
  shows "conn = peer_address resolve s" and "peer_downtime resolve ps' asked_at = peer_downtime resolve ps asked_at"
  using assms
  by (auto simp: Peer_def peer_downtime_def fun_eq_iff Downtime_def new_connection_def map_add_def map_of_append
      split: option.splits if_splits)

lemma job_answers_are:
  assumes "job_answers resolve server asked_at LookupAddr num js (downtime, ps) = Returns (rs, ps')"
    and "\<And>s d. downtime s = Some d \<Longrightarrow> d = expected s"
    and "\<And>s. downtime s = None \<Longrightarrow> downtime_text (peer_downtime resolve ps asked_at s) = expected s"
  shows "rs = map (\<lambda>(i, j). numbered i (mark_down LookupAddr (expected (text_of ''siserver'' j)) j)) (enumerate num js)"
  using assms
proof (induction js arbitrary: num downtime ps rs)
  case (Cons j js)
  let ?s = "text_of ''siserver'' j"
  from Cons.prems(1) obtain acc where acc: "ask_downtime resolve server asked_at ?s (downtime, ps) = Returns acc"
    and later: "and_then (job_answers resolve server asked_at LookupAddr (Suc num) js acc) (\<lambda>(answers, ps).
      Returns (numbered num (mark_down LookupAddr (case fst acc ?s of None \<Rightarrow> [] | Some d \<Rightarrow> d) j) # answers, ps)) =
      Returns (rs, ps')"
    unfolding job_answers.simps and_then_Returns Let_def by blast
  obtain dm qs where acc_is: "acc = (dm, qs)" by (cases acc)
  note asked = acc [unfolded acc_is]
  from later obtain rest where rest: "job_answers resolve server asked_at LookupAddr (Suc num) js (dm, qs) = Returns (rest, ps')"
    and rs: "rs = numbered num (mark_down LookupAddr (case dm ?s of None \<Rightarrow> [] | Some d \<Rightarrow> d) j) # rest"
    unfolding acc_is and_then_Returns by (auto simp: case_prod_beta)
  have new: "dm ?s = Some (expected ?s)" "\<And>s d. dm s = Some d \<Longrightarrow> d = expected s"
    "\<And>s. dm s = None \<Longrightarrow> downtime_text (peer_downtime resolve qs asked_at s) = expected s"
  proof -
    have "dm ?s = Some (expected ?s) \<and> (\<forall>s d. dm s = Some d \<longrightarrow> d = expected s) \<and>
      (\<forall>s. dm s = None \<longrightarrow> downtime_text (peer_downtime resolve qs asked_at s) = expected s)"
    proof (cases "downtime ?s")
      case (Some d)
      with asked have "dm = downtime" "qs = ps" by (simp_all add: ask_downtime_def)
      with Some Cons.prems(2,3) show ?thesis by blast
    next
      case None
      with asked obtain conn where peer: "Peer resolve server ?s ps = Returns (qs, conn)"
        and dm: "dm = downtime(?s \<mapsto> downtime_text (case conn of None \<Rightarrow> 0 | Some a \<Rightarrow>
          (case map_of qs a of None \<Rightarrow> 0 | Some c \<Rightarrow> Downtime (asked_at ?s) c)))"
        by (cases "Peer resolve server ?s ps") (auto simp: ask_downtime_def Let_def)
      have "(case conn of None \<Rightarrow> 0 | Some a \<Rightarrow>
          (case map_of qs a of None \<Rightarrow> 0 | Some c \<Rightarrow> Downtime (asked_at ?s) c)) =
          peer_downtime resolve ps asked_at ?s"
        unfolding Peer_downtimes(2) [OF peer, symmetric] unfolding Peer_downtimes(1) [OF peer] peer_downtime_def ..
      then have "dm = downtime(?s \<mapsto> expected ?s)" unfolding dm using Cons.prems(3) [OF None] by simp
      with Cons.prems(2,3) show ?thesis unfolding Peer_downtimes(2) [OF peer] by auto
    qed
    then show "dm ?s = Some (expected ?s)" "\<And>s d. dm s = Some d \<Longrightarrow> d = expected s"
      "\<And>s. dm s = None \<Longrightarrow> downtime_text (peer_downtime resolve qs asked_at s) = expected s"
      by blast+
  qed
  show ?case unfolding rs using Cons.IH [OF rest new(2,3)] new(1) by simp
qed simp

lemma kids_Rename: "kids (Rename n h) = kids h"
  by (simp add: Rename_def)

lemma verbalDuration_nonempty: "verbalDuration n \<noteq> []"
proof -
  have "of_unit t a b \<noteq> []" for t a b by (simp add: of_unit_def Let_def)
  then have "in_units t us \<noteq> []" for t us
    by (induction t us rule: in_units.induct) (auto simp: Let_def)
  then show ?thesis by (simp add: verbalDuration_def)
qed


text \<open>An inserter that keeps the documented contract.\<close>

fun insert_by :: "(hash \<Rightarrow> hash \<Rightarrow> int) \<Rightarrow> hash \<Rightarrow> hash list \<Rightarrow> hash list" where
  "insert_by cmp x [] = [x]"
| "insert_by cmp x (y # ys) = (if cmp x y \<le> 0 then x # y # ys else y # insert_by cmp x ys)"

lemma insert_by_inserts_sorted: "inserts_sorted insert_by"
  unfolding inserts_sorted_def
proof (intro allI impI)
  fix cmp :: "hash \<Rightarrow> hash \<Rightarrow> int" and x xs
  assume trans: "\<forall>a b c. cmp a b \<le> 0 \<longrightarrow> cmp b c \<le> 0 \<longrightarrow> cmp a c \<le> 0"
    and total: "\<forall>a b. cmp a b \<le> 0 \<or> cmp b a \<le> 0" and "sorted_wrt (\<lambda>a b. cmp a b \<le> 0) xs"
  then show "sorted_wrt (\<lambda>a b. cmp a b \<le> 0) (insert_by cmp x xs) \<and> mset (insert_by cmp x xs) = add_mset x (mset xs)"
  proof (induction xs)
    case (Cons y ys)
    have "set (insert_by cmp x ys) = insert x (set ys)" by (induction ys) auto
    with Cons show ?case by auto
  qed simp
qed

definition example_jobs :: hash where
  "example_jobs = Hash ''jobdb'' [Sub (Hash ''job'' [Sub (Hash ''siserver'' [Txt ''10.0.0.2:20081'']),
     Sub (Hash ''timestamp'' [Txt ''20300101000000'']), Sub (Hash ''status'' [Txt ''waiting''])])]"

lemma job_answers_return:
  "\<forall>j \<in> set js. peer_address resolve (text_of ''siserver'' j) \<noteq> Some server \<Longrightarrow>
    \<exists>r. job_answers resolve server asked_at LookupAddr num js acc = Returns r"
proof (induction js arbitrary: num acc)
  case (Cons j js)
  let ?s = "text_of ''siserver'' j"
  have "\<exists>acc'. ask_downtime resolve server asked_at ?s acc = Returns acc'"
    using Cons.prems by (cases acc) (auto simp: ask_downtime_def Peer_def Let_def split: option.split)
  then obtain acc' where "ask_downtime resolve server asked_at ?s acc = Returns acc'" ..
  moreover have "\<exists>r. job_answers resolve server asked_at LookupAddr (Suc num) js acc' = Returns r"
    using Cons.prems by (intro Cons.IH) simp
  ultimately show ?case by (auto simp: Let_def case_prod_beta)
qed simp

lemma gosa_query_jobdb_returns:
  assumes "inserts_sorted ins"
    and "\<forall>j \<in> set (children (limited_query max_answers (query_filter xmlmsg) jobs)).
      peer_address resolve (text_of ''siserver'' j) \<noteq> Some (ServerSourceAddress cfg)"
  shows "\<exists>r. gosa_query_jobdb cfg ins resolve asked_at LookupAddr max_answers xmlmsg jobs ps = Returns r"
proof -
  let ?q = "limited_query max_answers (query_filter xmlmsg) jobs"
  have "set (fold (ins job_cmp) (children ?q) []) = set (children ?q)"
    using fold_inserts [OF assms(1), of "[]" "children ?q"] by (metis mset_eq_setD add_0_right mset.simps(1) sorted0 list.map(1))
  with assms(2) obtain r where "job_answers resolve (ServerSourceAddress cfg) asked_at LookupAddr 1
      (fold (ins job_cmp) (children ?q) []) ([ServerSourceAddress cfg \<mapsto> []], ps) = Returns r"
    using job_answers_return by metis
  then show ?thesis by (auto simp: gosa_query_jobdb_def Let_def case_prod_beta)
qed


section \<open>One release of a package\<close>

lemma children_keep_elements:
  "elems (keep_elements keep n ks) = map snd (filter (\<lambda>p. keep (fst p)) (enumerate n (elems ks)))"
  by (induction keep n ks rule: keep_elements.induct) auto

text \<open>
  The elements of a package: its name, then for each release the elements distribution and
  the data. A release is complete when each kind of data occurs once.
\<close>

definition release_ok :: "hash list \<times> hash list \<Rightarrow> bool" where
  "release_ok r \<longleftrightarrow> fst r \<noteq> [] \<and> list_all (\<lambda>d. Name d = ''distribution'') (fst r) \<and>
     list_all (\<lambda>f. Name f \<noteq> ''package'' \<and> Name f \<noteq> ''distribution'') (snd r)"

definition complete :: "hash list \<Rightarrow> bool" where
  "complete fs \<longleftrightarrow> set data_fields \<subseteq> set (map Name fs) \<and>
     distinct (map Name (filter (\<lambda>f. Name f \<in> set data_fields) fs))"

abbreviation release_elements :: "(hash list \<times> hash list) list \<Rightarrow> hash list" where
  "release_elements rs \<equiv> concat (map (\<lambda>(ds, fs). ds @ fs) rs)"

abbreviation scan_on :: "string \<Rightarrow> nat \<Rightarrow> hash list \<Rightarrow> cleanup_state \<Rightarrow> cleanup_state" where
  "scan_on distribution n es \<equiv> fold (cleanup_element distribution) (enumerate n es)"

lemma data_field_names: "''package'' \<notin> set data_fields" "''distribution'' \<notin> set data_fields"
  by (simp_all add: data_fields_def)

text \<open>Before the release that is looked for.\<close>

lemma scan_before:
  "mode st = Before \<Longrightarrow> \<forall>e \<in> set es. Name e = ''distribution'' \<longrightarrow> own_text e \<noteq> distribution \<Longrightarrow>
    \<forall>e \<in> set es. Name e \<noteq> ''package'' \<Longrightarrow>
    mode (scan_on distribution n es st) = Before \<and>
    distribution_idx (scan_on distribution n es st) = distribution_idx st \<and>
    package_idx (scan_on distribution n es st) = package_idx st"
  by (induction es arbitrary: n st) (simp_all add: cleanup_element_def Let_def)

text \<open>The data of a release; nothing is known of the data before.\<close>

lemma scan_data:
  assumes "mode st \<noteq> Behind" and "\<forall>f \<in> set fs. Name f \<noteq> ''package'' \<and> Name f \<noteq> ''distribution''"
    and "distinct (map Name (filter (\<lambda>f. Name f \<in> set data_fields) fs))"
  shows "mode (scan_on distribution n fs st) =
      (if fs = [] \<or> mode st \<noteq> In_distribution then mode st else In_data) \<and>
    distribution_idx (scan_on distribution n fs st) = distribution_idx st \<and>
    last_distribution_idx (scan_on distribution n fs st) = last_distribution_idx st \<and>
    package_idx (scan_on distribution n fs st) = package_idx st \<and>
    (\<forall>k < length fs. Name (fs ! k) \<in> set data_fields \<longrightarrow>
       data_idx (scan_on distribution n fs st) (Name (fs ! k)) = Some (n + k)) \<and>
    (\<forall>t. t \<notin> Name ` set fs \<longrightarrow> data_idx (scan_on distribution n fs st) t = data_idx st t)"
  using assms
proof (induction fs arbitrary: n st)
  case Nil
  then show ?case by simp
next
  case (Cons f fs)
  define st' where "st' = cleanup_element distribution (n, f) st"
  have st': "mode st' = (if mode st = In_distribution then In_data else mode st)"
    "distribution_idx st' = distribution_idx st" "last_distribution_idx st' = last_distribution_idx st"
    "package_idx st' = package_idx st"
    "data_idx st' = (if Name f \<in> set data_fields then (data_idx st)(Name f \<mapsto> n) else data_idx st)"
    using Cons.prems(1,2) by (simp_all add: st'_def cleanup_element_def Let_def)
  have step: "scan_on distribution n (f # fs) st = scan_on distribution (Suc n) fs st'"
    by (simp add: st'_def)
  have "mode st' \<noteq> Behind" using Cons.prems(1) by (simp add: st'(1))
  note IH = Cons.IH [OF this, of "Suc n"]
  have later: "Name f \<in> set data_fields \<Longrightarrow> Name f \<notin> Name ` set fs"
    using Cons.prems(3) by force
  have "data_idx (scan_on distribution (Suc n) fs st') (Name ((f # fs) ! k)) = Some (n + k)"
    if "k < length (f # fs)" "Name ((f # fs) ! k) \<in> set data_fields" for k
  proof (cases k)
    case 0
    with that(2) have "Name f \<in> set data_fields" by simp
    with IH later Cons.prems st'(5) show ?thesis by (simp add: 0)
  next
    case (Suc l)
    with that IH Cons.prems show ?thesis by (auto split: if_splits)
  qed
  with IH Cons.prems st' show ?case unfolding step by (auto split: if_splits)
qed

text \<open>Behind the release that was looked for: nothing changes any more.\<close>

lemma scan_behind:
  assumes "mode st = Behind" and "\<forall>f \<in> set fs. Name f \<noteq> ''package''" and "\<forall>t \<in> set data_fields. data_idx st t \<noteq> None"
  shows "distribution_idx (scan_on distribution n fs st) = distribution_idx st \<and>
    package_idx (scan_on distribution n fs st) = package_idx st \<and>
    data_idx (scan_on distribution n fs st) = data_idx st"
  using assms
proof (induction fs arbitrary: n st)
  case (Cons f fs)
  define st' where "st' = cleanup_element distribution (n, f) st"
  have st': "mode st' = Behind" "distribution_idx st' = distribution_idx st" "package_idx st' = package_idx st"
    "data_idx st' = data_idx st"
    using Cons.prems by (auto simp: st'_def cleanup_element_def Let_def)
  have step: "scan_on distribution n (f # fs) st = scan_on distribution (Suc n) fs st'"
    by (simp add: st'_def)
  show ?case unfolding step using Cons.IH [of st' "Suc n"] Cons.prems st' by simp
qed simp

lemma scan_in_distribution:
  assumes "mode st = In_distribution" and "\<forall>d \<in> set ds. Name d = ''distribution''"
  shows "mode (scan_on distribution n ds st) = In_distribution \<and>
    distribution_idx (scan_on distribution n ds st) = distribution_idx st \<and>
    package_idx (scan_on distribution n ds st) = package_idx st"
  using assms
proof (induction ds arbitrary: n st)
  case (Cons d ds)
  have "mode (cleanup_element distribution (n, d) st) = In_distribution"
    "distribution_idx (cleanup_element distribution (n, d) st) = distribution_idx st"
    "package_idx (cleanup_element distribution (n, d) st) = package_idx st"
    using Cons.prems by (simp_all add: cleanup_element_def Let_def)
  with Cons.IH [of "cleanup_element distribution (n, d) st" "Suc n"] Cons.prems(2) show ?case by simp
qed simp

lemma kept_none:
  "\<forall>i. n \<le> i \<and> i < n + length xs \<longrightarrow> \<not> keep i \<Longrightarrow> filter (\<lambda>p. keep (fst p)) (enumerate n xs) = []"
  by (auto simp: filter_empty_conv in_set_enumerate_eq)

lemma kept_those:
  "\<forall>k < length xs. keep (n + k) \<longleftrightarrow> P (xs ! k) \<Longrightarrow>
    map snd (filter (\<lambda>p. keep (fst p)) (enumerate n xs)) = filter P xs"
proof (induction xs arbitrary: n)
  case (Cons x xs)
  from Cons.prems have "keep n \<longleftrightarrow> P x" by (auto dest: spec [of _ 0])
  moreover have "\<forall>k < length xs. keep (Suc n + k) \<longleftrightarrow> P (xs ! k)"
    using Cons.prems by (auto dest: spec [of _ "Suc _"])
  ultimately show ?case using Cons.IH [of "Suc n"] by simp
qed simp

lemma release_names:
  "list_all release_ok rs \<Longrightarrow> e \<in> set (release_elements rs) \<Longrightarrow> Name e \<noteq> ''package''"
  by (auto simp: list_all_iff release_ok_def)

text \<open>What the scan finds for the release of the element d, with its data fs behind ds2.\<close>

lemma cleanup_finds:
  assumes pkg: "Name pkg = ''package''" and ok: "list_all release_ok (before @ (ds1 @ d # ds2, fs) # behind)"
    and full: "complete fs"
    and before: "\<forall>e \<in> set (release_elements before @ ds1). Name e = ''distribution'' \<longrightarrow> own_text e \<noteq> distribution"
    and which: "own_text d = distribution \<or> own_text d \<noteq> distribution \<and> ds2 = [] \<and> behind = []"
    and m: "m = length (release_elements before @ ds1) + 1" and o: "start = m + 1 + length ds2"
  defines "st \<equiv> cleanup_scan distribution (pkg # release_elements before @ ds1 @ d # ds2 @ fs @ release_elements behind)"
  shows "package_idx st = 0"
    and "distribution_idx st = (if own_text d = distribution then Some m else None)"
    and "distribution_idx st = None \<Longrightarrow> last_distribution_idx st = Some m"
    and "k < length fs \<Longrightarrow> Name (fs ! k) \<in> set data_fields \<Longrightarrow> data_idx st (Name (fs ! k)) = Some (start + k)"
proof -
  have r: "release_ok (ds1 @ d # ds2, fs)" "list_all release_ok before" "list_all release_ok behind"
    using ok by simp_all
  have ds: "\<forall>e \<in> set (ds1 @ d # ds2). Name e = ''distribution''"
    and fs: "\<forall>f \<in> set fs. Name f \<noteq> ''package'' \<and> Name f \<noteq> ''distribution''"
    using r(1) by (simp_all add: release_ok_def list_all_iff)
  have "\<forall>e \<in> set (release_elements before) \<union> set ds1. Name e \<noteq> ''package''"
  proof
    fix e assume "e \<in> set (release_elements before) \<union> set ds1"
    then show "Name e \<noteq> ''package''"
    proof
      assume "e \<in> set (release_elements before)" then show ?thesis by (rule release_names [OF r(2)])
    next
      assume "e \<in> set ds1" then show ?thesis using ds by simp
    qed
  qed
  then have "\<forall>e \<in> set (release_elements before @ ds1). Name e \<noteq> ''package''" by (simp only: set_append)
  moreover have "\<forall>e \<in> set (release_elements behind). Name e \<noteq> ''package''"
    using release_names [OF r(3)] by (rule ballI)
  ultimately have names: "\<forall>e \<in> set (ds1 @ d # ds2). Name e = ''distribution''"
    "\<forall>f \<in> set fs. Name f \<noteq> ''package'' \<and> Name f \<noteq> ''distribution''"
    "\<forall>e \<in> set (release_elements before @ ds1). Name e \<noteq> ''package''"
    "\<forall>e \<in> set (release_elements behind). Name e \<noteq> ''package''"
    using ds fs by (simp_all only:)
  have "fs \<noteq> []" using full by (auto simp: complete_def data_fields_def)
  let ?init = "\<lparr>distribution_idx = None, last_distribution_idx = None, data_idx = Map.empty, package_idx = 0, mode = Before\<rparr>"
  define st1 where "st1 = scan_on distribution 1 (release_elements before @ ds1) (cleanup_element distribution (0, pkg) ?init)"
  define st2 where "st2 = cleanup_element distribution (m, d) st1"
  define st3 where "st3 = scan_on distribution (m + 1) ds2 st2"
  define st4 where "st4 = scan_on distribution start fs st3"
  have st: "st = scan_on distribution (start + length fs) (release_elements behind) st4"
    unfolding st_def cleanup_scan_def st4_def st3_def st2_def st1_def m o
    by (simp add: enumerate_append_eq fold_append add.assoc add.commute)
  have init: "cleanup_element distribution (0, pkg) ?init = ?init"
    using pkg by (simp add: cleanup_element_def)
  have st1: "mode st1 = Before" "distribution_idx st1 = None" "package_idx st1 = 0"
    using scan_before [of ?init "release_elements before @ ds1" distribution 1] before names(3)
    unfolding st1_def init by simp_all
  have d: "Name d = ''distribution''" using names(1) by simp
  have st2: "distribution_idx st2 = (if own_text d = distribution then Some m else None)" "package_idx st2 = 0"
    "last_distribution_idx st2 = Some m" "mode st2 = (if own_text d = distribution then In_distribution else Before)"
    using st1 d by (simp_all add: st2_def cleanup_element_def Let_def)
  have st3: "distribution_idx st3 = (if own_text d = distribution then Some m else None)" "package_idx st3 = 0"
    "mode st3 = (if own_text d = distribution then In_distribution else Before)"
    "own_text d \<noteq> distribution \<Longrightarrow> last_distribution_idx st3 = Some m"
    using which st2 scan_in_distribution [of st2 ds2 distribution "m + 1"] names(1) by (auto simp: st3_def)
  have dist: "distinct (map Name (filter (\<lambda>f. Name f \<in> set data_fields) fs))" using full by (simp add: complete_def)
  have "mode st3 \<noteq> Behind" using st3(3) by simp
  note data = scan_data [OF this names(2) dist, of distribution start, folded st4_def]
  have st4: "distribution_idx st4 = distribution_idx st3" "package_idx st4 = 0"
    "last_distribution_idx st4 = last_distribution_idx st3"
    "mode st4 = (if own_text d = distribution then In_data else Before)"
    "k < length fs \<Longrightarrow> Name (fs ! k) \<in> set data_fields \<Longrightarrow> data_idx st4 (Name (fs ! k)) = Some (start + k)" for k
    using data st3 \<open>fs \<noteq> []\<close> by auto
  have filled: "\<forall>t \<in> set data_fields. data_idx st4 t \<noteq> None"
  proof
    fix t assume t: "t \<in> set data_fields"
    then have "t \<in> set (map Name fs)" using full by (auto simp: complete_def)
    then obtain k where "k < length fs" "Name (fs ! k) = t" unfolding in_set_conv_nth by auto
    with st4(5) [of k] t show "data_idx st4 t \<noteq> None" by simp
  qed
  have "package_idx st = 0 \<and> distribution_idx st = distribution_idx st4 \<and> data_idx st = data_idx st4 \<and>
    (own_text d \<noteq> distribution \<longrightarrow> st = st4)"
  proof (cases "release_elements behind")
    case Nil
    show ?thesis unfolding st Nil using st4 by simp
  next
    case (Cons e es)
    then have "behind \<noteq> []" by auto
    with which have own: "own_text d = distribution" by blast
    have "Name e = ''distribution''"
    proof -
      obtain r rs where b: "behind = r # rs" using \<open>behind \<noteq> []\<close> by (cases behind) auto
      have "release_ok r" using ok by (simp add: b)
      then obtain x xs ys where "r = (x # xs, ys)" "Name x = ''distribution''"
        by (cases r; cases "fst r") (auto simp: release_ok_def)
      then show ?thesis using Cons by (simp add: b)
    qed
    then have e: "mode (cleanup_element distribution (start + length fs, e) st4) = Behind"
      "distribution_idx (cleanup_element distribution (start + length fs, e) st4) = distribution_idx st4"
      "package_idx (cleanup_element distribution (start + length fs, e) st4) = 0"
      "data_idx (cleanup_element distribution (start + length fs, e) st4) = data_idx st4"
      using st4(2,4) own by (simp_all add: cleanup_element_def Let_def)
    show ?thesis
      using scan_behind [OF e(1), of es distribution "Suc (start + length fs)"] e filled names(4) own
      unfolding st Cons by simp
  qed
  then show "package_idx st = 0" "distribution_idx st = (if own_text d = distribution then Some m else None)"
    "distribution_idx st = None \<Longrightarrow> last_distribution_idx st = Some m"
    "k < length fs \<Longrightarrow> Name (fs ! k) \<in> set data_fields \<Longrightarrow> data_idx st (Name (fs ! k)) = Some (start + k)"
    using st3 st4 by (auto split: if_splits)
qed

text \<open>A package in the answer has the data of one release. From an entry with several
  complete releases only the name of the package, one element distribution and one element of
  each kind of data are left, in this order: those of the release that was asked for, or, if
  none was or it does not occur, those of the last one.\<close>

theorem package_of_one_release:
  assumes "children x = pkg # release_elements (before @ (ds1 @ d # ds2, fs) # behind)"
    and "Name pkg = ''package''" and "list_all release_ok (before @ (ds1 @ d # ds2, fs) # behind)"
    and "complete fs"
    and "\<forall>e \<in> set (release_elements before @ ds1). Name e = ''distribution'' \<longrightarrow> own_text e \<noteq> distribution"
    and "own_text d = distribution \<or> own_text d \<noteq> distribution \<and> ds2 = [] \<and> behind = []"
  shows "\<exists>y. cleanup distribution x = Returns y \<and> Name y = Name x \<and>
    children y = pkg # d # filter (\<lambda>f. Name f \<in> set data_fields) fs"
proof -
  let ?B = "release_elements before @ ds1" and ?R = "release_elements behind"
  let ?es = "pkg # release_elements before @ ds1 @ d # ds2 @ fs @ ?R"
  define m where "m = length ?B + 1"
  define start where "start = m + 1 + length ds2"
  define st where "st = cleanup_scan distribution ?es"
  note found = cleanup_finds [OF assms(2-6) m_def start_def, folded st_def]
  have es: "children x = ?es" using assms(1) by simp
  have data: "(\<exists>t \<in> set data_fields. data_idx st t = Some i) \<longleftrightarrow>
      (\<exists>k < length fs. i = start + k \<and> Name (fs ! k) \<in> set data_fields)" for i
  proof
    assume "\<exists>t \<in> set data_fields. data_idx st t = Some i"
    then obtain t where t: "t \<in> set data_fields" "data_idx st t = Some i" by blast
    then have "t \<in> set (map Name fs)" using assms(4) by (auto simp: complete_def)
    then obtain k where "k < length fs" "Name (fs ! k) = t" unfolding in_set_conv_nth by auto
    with found(4) [of k] t show "\<exists>k < length fs. i = start + k \<and> Name (fs ! k) \<in> set data_fields" by auto
  qed (use found(4) in blast)
  have keeps: "keeps st i \<longleftrightarrow> i = 0 \<or> i = m \<or> (\<exists>k < length fs. i = start + k \<and> Name (fs ! k) \<in> set data_fields)" for i
    unfolding data [symmetric] using found(1-3) by (auto simp: keeps_def list_ex_iff)
  have parts: "enumerate 0 ?es = (0, pkg) # enumerate 1 ?B @ (m, d) # enumerate (m + 1) ds2 @
      enumerate start fs @ enumerate (start + length fs) ?R"
    by (simp add: enumerate_append_eq m_def start_def add.assoc add.commute)
  have "filter (\<lambda>p. keeps st (fst p)) (enumerate 1 ?B) = []"
    by (rule kept_none) (auto simp: keeps m_def start_def)
  moreover have "filter (\<lambda>p. keeps st (fst p)) (enumerate (m + 1) ds2) = []"
    by (rule kept_none) (auto simp: keeps start_def)
  moreover have "filter (\<lambda>p. keeps st (fst p)) (enumerate (start + length fs) ?R) = []"
    by (rule kept_none) (auto simp: keeps m_def start_def)
  moreover have "map snd (filter (\<lambda>p. keeps st (fst p)) (enumerate start fs)) =
      filter (\<lambda>f. Name f \<in> set data_fields) fs"
    by (rule kept_those) (auto simp: keeps start_def m_def)
  moreover have "keeps st 0" "keeps st m" by (simp_all add: keeps)
  ultimately have "map snd (filter (\<lambda>p. keeps st (fst p)) (enumerate 0 ?es)) =
      pkg # d # filter (\<lambda>f. Name f \<in> set data_fields) fs"
    unfolding parts by simp
  moreover have "\<not> (distribution_idx st = None \<and> last_distribution_idx st = None)" using found(3) by auto
  ultimately show ?thesis
    by (simp add: cleanup_def Let_def es st_def [symmetric] children_keep_elements del: enumerate_simps)
qed

definition leaf_element :: "string \<Rightarrow> string \<Rightarrow> hash" where
  "leaf_element t v = Hash t [Txt v]"

definition example_release :: "string \<Rightarrow> string \<Rightarrow> hash list \<times> hash list" where
  "example_release d v = ([leaf_element ''distribution'' d], leaf_element ''repository'' ''r'' #
     map (\<lambda>t. leaf_element t v) data_fields)"

definition example_package :: hash where
  "example_package = Hash ''answer1'' (map Sub (leaf_element ''package'' ''vim'' #
     release_elements [example_release ''wheezy'' ''1'', example_release ''jessie'' ''2'', example_release ''stretch'' ''3'']))"

theorem package_of_one_release_witness:
  "\<exists>y. cleanup ''jessie'' example_package = Returns y \<and>
    map own_text (children y) = [''vim'', ''jessie'', ''2'', ''2'', ''2'', ''2'', ''2'']"
proof -
  let ?fs = "snd (example_release ''jessie'' ''2'')" and ?d = "leaf_element ''distribution'' ''jessie''"
  have "\<exists>y. cleanup ''jessie'' example_package = Returns y \<and> Name y = Name example_package \<and>
    children y = leaf_element ''package'' ''vim'' # ?d # filter (\<lambda>f. Name f \<in> set data_fields) ?fs"
  proof (rule package_of_one_release)
    show "children example_package = leaf_element ''package'' ''vim'' #
        release_elements ([example_release ''wheezy'' ''1''] @ ([] @ ?d # [], ?fs) # [example_release ''stretch'' ''3''])"
      by (simp add: example_package_def example_release_def data_fields_def)
    show "list_all release_ok ([example_release ''wheezy'' ''1''] @ ([] @ ?d # [], ?fs) # [example_release ''stretch'' ''3''])"
      "complete ?fs"
      by code_simp+
  qed (simp_all add: example_release_def leaf_element_def own_text_def TextFragments_def data_fields_def)
  then obtain y where y: "cleanup ''jessie'' example_package = Returns y"
    "children y = leaf_element ''package'' ''vim'' # ?d # filter (\<lambda>f. Name f \<in> set data_fields) ?fs"
    by blast
  have "map own_text (leaf_element ''package'' ''vim'' # ?d # filter (\<lambda>f. Name f \<in> set data_fields) ?fs) =
      [''vim'', ''jessie'', ''2'', ''2'', ''2'', ''2'', ''2'']"
    by code_simp
  with y show ?thesis by auto
qed

section \<open>What goes wrong\<close>

text \<open>The query on repositories stops one answer before the limit: the counter starts at 1.\<close>

lemma fai_server_answers:
  "children (gosa_query_fai_server cfg maximum xmlmsg servers) = children (NewHash ''xml'' [''header'', ''query_fai_server'']) @
     map (\<lambda>(i, x). numbered i x) (enumerate 1 (if maximum > 0 then take (nat maximum - 1) (children servers) else children servers)) @
     map (\<lambda>(t, v). SetText [v] (NewHash t [])) [(''source'', ServerSourceAddress cfg), (''target'', text_of ''source'' xmlmsg), (''session_id'', ''1'')]"
proof -
  have "children (add_servers_until maximum k xs h) = children h @
      map (\<lambda>(i, x). numbered i x) (enumerate k (if maximum > 0 then take (nat maximum - k) xs else xs))"
    if "maximum > 0 \<longrightarrow> int k \<le> maximum" for k xs h
    using that
  proof (induction maximum k xs h rule: add_servers_until.induct)
    case (2 maximum k child rest servers)
    show ?case
    proof (cases "maximum > 0 \<and> int k = maximum")
      case True
      then show ?thesis by auto
    next
      case False
      with 2 have "children (add_servers_until maximum (Suc k) rest (AddWithOwnership (numbered k child) servers)) =
          children (AddWithOwnership (numbered k child) servers) @
          map (\<lambda>(i, x). numbered i x) (enumerate (Suc k) (if maximum > 0 then take (nat maximum - Suc k) rest else rest))"
        by auto
      moreover have "maximum > 0 \<Longrightarrow> nat maximum - k = Suc (nat maximum - Suc k)" using False 2(2) by auto
      ultimately show ?thesis using False by auto
    qed
  qed simp
  from this [of 1 "children servers"] show ?thesis
    by (auto simp: gosa_query_fai_server_def end_of_reply_def)
qed

text \<open>An empty phrase makes the query on packages panic, though WhereFilter reports it as an error.\<close>

lemma empty_phrase_panics:
  "find_distribution [Hash ''clause'' [Sub (Hash ''phrase'' [])]] [] = outcome.Panics"
  by (simp add: clause_distribution_def iter_named_eq First_eq_find)

end
