(* ===== verification/LogFiles.thy ===== *)
theory LogFiles
  imports JobMessages SystemDB
begin

text \<open>
  The log files of the clients: a client sends them (\<open>Send_clmsg_save_fai_log\<close>), the server takes
  the message apart and stores them (go-susi/message/clmsg_save_fai_log.go), the administrator
  lists and reads them (gosa_show_log_by_mac.go, gosa_show_log_files_by_date_and_mac.go,
  gosa_get_log_file_by_date_and_mac.go).

  What is done to the file system is a list of effects in order; \<open>decode\<close> and \<open>encode\<close> are the
  base64 functions of github.com/mbenkmann/golib.
\<close>

section \<open>Package path\<close>

text \<open>
  \<open>path.Clean\<close> on the parts between slashes: empty parts and . are dropped, .. takes the part
  before it, if there is one.
\<close>

fun clean_parts :: "bool \<Rightarrow> string list \<Rightarrow> string list \<Rightarrow> string list" where
  "clean_parts rooted stack [] = rev stack"
| "clean_parts rooted stack (p # ps) =
     (if p = [] \<or> p = ''.'' then clean_parts rooted stack ps
      else if p = ''..'' then
        (case stack of
           [] \<Rightarrow> clean_parts rooted (if rooted then [] else [''..'']) ps
         | q # qs \<Rightarrow> if q = ''..'' then clean_parts rooted (''..'' # stack) ps else clean_parts rooted qs ps)
      else clean_parts rooted (p # stack) ps)"

definition Clean :: "string \<Rightarrow> string" where
  "Clean s =
     (let rooted = HasPrefix s ''/'';
          r = Join (clean_parts rooted [] (Split s CHR ''/'')) ''/''
      in if rooted then CHR ''/'' # r else if r = [] then ''.'' else r)"

definition path_Join :: "string list \<Rightarrow> string" where
  "path_Join ps =
     (let ne = filter (\<lambda>e. e \<noteq> []) ps in if ne = [] then [] else Clean (Join ne ''/''))"

definition no_slash :: "string \<Rightarrow> string" where
  "no_slash s = map (\<lambda>c. if c = CHR ''/'' then CHR ''_'' else c) s"

section \<open>The server takes the message apart\<close>

datatype log_effect =
    Make_directory string
  | Remove_link string
  | Make_link string string
  | Write_file string string

text \<open>
  The first loop: the MAC address, the action, and where the files begin and end. \<open>rest\<close> is the
  buf from index i on; the index moves behind an action that was read.
\<close>

record log_tags =
  log_mac :: string
  log_action :: string
  log_start :: nat
  log_end :: nat

function scan_tags :: "nat \<Rightarrow> string \<Rightarrow> log_tags \<Rightarrow> log_tags" where
  "scan_tags i rest st =
     (if length rest \<le> 19 then st
      else if hd rest \<noteq> CHR ''<'' then scan_tags (Suc i) (tl rest) st
      else if 12 + 17 \<le> length rest \<and> HasPrefix rest ''<macaddress>''
      then scan_tags (Suc i) (tl rest) (st\<lparr>log_mac := take 17 (drop 12 rest)\<rparr>)
      else if HasPrefix rest ''<fai_action>'' then
        (case Index (drop 12 rest) CHR ''<'' of
           None \<Rightarrow> scan_tags (Suc i) (tl rest) st
         | Some n \<Rightarrow> scan_tags (Suc (i + 12 + n)) (drop (Suc (12 + n)) rest)
                       (st\<lparr>log_action := take n (drop 12 rest)\<rparr>))
      else if HasPrefix rest ''<CLMSG_save_fai_log>'' then scan_tags (Suc i) (tl rest) (st\<lparr>log_start := i + 20\<rparr>)
      else if HasPrefix rest ''</CLMSG_save_fai_log>'' then scan_tags (Suc i) (tl rest) (st\<lparr>log_end := i\<rparr>)
      else scan_tags (Suc i) (tl rest) st)"
  by pat_completeness auto
termination by (relation "measure (\<lambda>(i, rest, st). length rest)") auto

declare scan_tags.simps [simp del]

definition find_tags :: "string \<Rightarrow> log_tags" where
  "find_tags buf = scan_tags 0 buf \<lparr>log_mac = [], log_action = [], log_start = 0, log_end = 0\<rparr>"

text \<open>
  The second loop: for each file the beginning and the end of its name. None is the panic of
  \<open>match\<close> for an index before the beginning of the buf.
\<close>

definition match :: "string \<Rightarrow> nat \<Rightarrow> string \<Rightarrow> bool" where
  "match buf i s = HasPrefix (drop i buf) s"

definition next_colon :: "string \<Rightarrow> nat \<Rightarrow> nat \<Rightarrow> nat option" where
  "next_colon buf e i = map_option (\<lambda>n. i + n) (Index (drop i (take e buf)) CHR '':'')"

lemma next_colon_behind: "next_colon buf e i = Some p \<Longrightarrow> i \<le> p"
  by (auto simp: next_colon_def)

function find_files :: "string \<Rightarrow> nat \<Rightarrow> nat \<Rightarrow> nat list option" where
  "find_files buf e i =
     (if i \<ge> e then Some []
      else if buf ! i \<noteq> CHR '':'' then find_files buf e (Suc i)
      else if i < 8 then None
      else if match buf (i - 8) ''log_file'' then
        (case next_colon buf e (Suc i) of
           None \<Rightarrow> Some []
         | Some p \<Rightarrow> map_option (\<lambda>fs. (if Suc i < p then [Suc i, p] else []) @ fs) (find_files buf e (Suc p)))
      else find_files buf e (Suc i))"
  by pat_completeness auto
termination
  by (relation "measure (\<lambda>(buf, e, i). e - i)") (auto dest: next_colon_behind)

declare find_files.simps [simp del]

text \<open>The third loop: name and data of each file, as many as the limit allows.\<close>

definition log_slice :: "string \<Rightarrow> nat \<Rightarrow> nat \<Rightarrow> string option" where
  "log_slice buf a b = (if a \<le> b \<and> b \<le> length buf then Some (take (b - a) (drop a buf)) else None)"

fun file_parts :: "string \<Rightarrow> int \<Rightarrow> nat list \<Rightarrow> (string \<times> string) list option" where
  "file_parts buf fcount (a # b # c # rest) =
     (if fcount - 1 < 0 then Some []
      else if c < 8 then None
      else
        (case (log_slice buf a b, log_slice buf (Suc b) (c - 8)) of
           (Some fname, Some logdata) \<Rightarrow> map_option (\<lambda>fs. (fname, logdata) # fs) (file_parts buf (fcount - 1) (c # rest))
         | _ \<Rightarrow> None))"
| "file_parts buf fcount _ = Some []"

definition log_file_effect :: "(string \<Rightarrow> string) \<Rightarrow> string \<Rightarrow> string \<times> string \<Rightarrow> log_effect" where
  "log_file_effect decode logdir f =
     Write_file (path_Join [logdir, no_slash (fst f)]) (decode (snd f))"

text \<open>
  The link from the name of the machine to its directory. What is there already: nothing, a
  link, or something else.
\<close>

datatype link_state = No_link | Link_to string | Not_a_link

definition link_effects :: "string \<Rightarrow> string \<Rightarrow> string \<Rightarrow> (string \<Rightarrow> link_state) \<Rightarrow> log_effect list" where
  "link_effects FAILogPath macaddress plainname readlink =
     (if plainname = ''none'' then []
      else
        (let linkpath = path_Join [FAILogPath, ToLower plainname];
             make = Make_link (ToLower macaddress) linkpath
         in case readlink linkpath of
              Not_a_link \<Rightarrow> []
            | No_link \<Rightarrow> [make]
            | Link_to t \<Rightarrow> if t = ToLower macaddress then [] else [Remove_link linkpath, make]))"

text \<open>\<open>actionRegexp\<close>: \<open>^[_a-zA-Z-]+$\<close>\<close>

definition action_char :: "char \<Rightarrow> bool" where
  "action_char = in_class [(CHR ''_'', CHR ''_''), (CHR ''a'', CHR ''z''), (CHR ''A'', CHR ''Z''), (CHR ''-'', CHR ''-'')]"

definition valid_action :: "string \<Rightarrow> bool" where
  "valid_action action \<longleftrightarrow> action \<noteq> [] \<and> list_all action_char action"

definition log_directory :: "string \<Rightarrow> string \<Rightarrow> string \<Rightarrow> string \<Rightarrow> string" where
  "log_directory FAILogPath macaddress action timestamp =
     path_Join [FAILogPath, ToLower macaddress, action @ ''_'' @ take 8 timestamp @ ''_'' @ drop 8 timestamp]"

text \<open>
  The handler. \<open>mkdir\<close> says whether the directory can be made, \<open>plainname\<close> is
  SystemPlainnameForMAC (None ends the goroutine that makes the link, which runs beside the
  handler; its effects stand where it is started). The result are the
  effects and the job database; None in the first component is a panic after them.
\<close>

definition clmsg_save_fai_log ::
  "process_config \<Rightarrow> string \<Rightarrow> (string \<Rightarrow> string) \<Rightarrow> (string \<Rightarrow> bool) \<Rightarrow> (string \<Rightarrow> link_state) \<Rightarrow>
   (string \<Rightarrow> string option) \<Rightarrow> string \<Rightarrow> int \<Rightarrow> string \<Rightarrow> jobdb \<Rightarrow> log_effect list option \<times> jobdb" where
  "clmsg_save_fai_log cfg FAILogPath decode mkdir readlink plainname timestamp max_files buf st =
     (let tags = find_tags buf; macaddress = log_mac tags; action = log_action tags in
      if \<not> valid_mac macaddress \<or> \<not> valid_action action then (Some [], st)
      else
        (let st = (if action \<noteq> ''audit''
                   then clmsg_progress cfg (Add ''macaddress'' [macaddress] (NewHash ''xml'' [''CLMSG_PROGRESS'', ''100''])) st
                   else st);
             logdir = log_directory FAILogPath macaddress action timestamp
         in if \<not> mkdir logdir then (Some [], st)
            else
              (let link = (case plainname macaddress of None \<Rightarrow> []
                     | Some name \<Rightarrow> link_effects FAILogPath macaddress name readlink);
                   fcount = (if max_files \<le> 0 then 999999 else max_files);
                   files = (case find_files buf (log_end tags) (log_start tags) of
                     None \<Rightarrow> None | Some fs \<Rightarrow> file_parts buf fcount (fs @ [log_end tags + 8]))
               in (map_option (\<lambda>fs. Make_directory logdir # link @ map (log_file_effect decode logdir) fs) files, st))))"

section \<open>The client sends its log files\<close>

text \<open>
  The output of the hook, line by line: everything before the line with the action. None: the
  output ends before.
\<close>

fun read_hook :: "string list \<Rightarrow> (string \<times> string) option" where
  "read_hook [] = None"
| "read_hook (line # rest) =
     (let line = TrimSpace line in
      if line = ''install'' \<or> line = ''softupdate'' \<or> line = ''audit'' then Some ([], line)
      else map_option (\<lambda>(body, action). (line @ body, action)) (read_hook rest))"

definition Send_clmsg_save_fai_log :: "process_config \<Rightarrow> string \<Rightarrow> string \<Rightarrow> string list \<Rightarrow> string option" where
  "Send_clmsg_save_fai_log cfg mac target lines =
     map_option (\<lambda>(body, action).
       ''<xml><header>CLMSG_save_fai_log</header><source>'' @ ServerSourceAddress cfg @ ''</source>'' @
       ''<target>'' @ target @ ''</target>'' @ ''<macaddress>'' @ mac @ ''</macaddress>'' @
       ''<CLMSG_save_fai_log>'' @ body @ ''</CLMSG_save_fai_log>'' @
       ''<fai_action>'' @ action @ ''</fai_action>'' @ ''</xml>'') (read_hook lines)"

section \<open>The administrator reads them\<close>

definition illegal_mac :: "hash \<Rightarrow> string" where
  "illegal_mac xmlmsg = ''Illegal or missing <mac> element in message: '' @ String xmlmsg"

text \<open>
  The pieces in which a long text is appended; the last may be empty.
\<close>

function pieces :: "string \<Rightarrow> string list" where
  "pieces buf =
     (if MaxFragmentLength < length buf then take MaxFragmentLength buf # pieces (drop MaxFragmentLength buf)
      else [buf])"
  by pat_completeness auto
termination by (relation "measure length") (auto simp: MaxFragmentLength_def)

declare pieces.simps [simp del]

definition gosa_get_log_file_by_date_and_mac ::
  "process_config \<Rightarrow> string \<Rightarrow> (string \<Rightarrow> string) \<Rightarrow> (string \<Rightarrow> string result) \<Rightarrow> hash \<Rightarrow> hash" where
  "gosa_get_log_file_by_date_and_mac cfg FAILogPath encode read_file xmlmsg =
     (let macaddress = text_of ''mac'' xmlmsg;
          subdir = no_slash (text_of ''date'' xmlmsg);
          log_file = no_slash (text_of ''log_file'' xmlmsg);
          header = ''get_log_file_by_date_and_mac'';
          x = Add header [] (NewHash ''xml'' [''header'', header]);
          x = Add ''session_id'' [''1''] (Add ''target'' [''GOSA''] (Add ''source'' [ServerSourceAddress cfg] x))
      in if \<not> valid_mac macaddress then ErrorReplyXML cfg (illegal_mac xmlmsg)
         else if subdir = [] then
           (if log_file = ''0'' then x
            else ErrorReplyXML cfg (''Missing or empty <date> element in message: '' @ String xmlmsg))
         else if log_file = [] then ErrorReplyXML cfg (''Missing or empty <log_file> element in message: '' @ String xmlmsg)
         else
           (case read_file (path_Join [FAILogPath, ToLower macaddress, subdir, log_file]) of
              Inl err \<Rightarrow> ErrorReplyXML cfg (''gosa_get_log_file_by_date_and_mac: '' @ err)
            | Inr content \<Rightarrow> AddWithOwnership (fold AppendString (pieces (encode content)) (NewHash log_file [])) x))"

text \<open>
  A directory: the error of opening it (no_entry for a directory that does not exist), or its
  entries with their kind.
\<close>

datatype file_kind = Directory | Ordinary | Other_kind

datatype listing = No_entry | List_error string | Entries "(string \<times> file_kind) list"

definition gosa_show_log_files_by_date_and_mac ::
  "process_config \<Rightarrow> string \<Rightarrow> (string \<Rightarrow> listing) \<Rightarrow> hash \<Rightarrow> hash" where
  "gosa_show_log_files_by_date_and_mac cfg FAILogPath listdir xmlmsg =
     (let macaddress = text_of ''mac'' xmlmsg;
          subdir = no_slash (text_of ''date'' xmlmsg);
          header = ''show_log_files_by_date_and_mac'';
          x = Add header [] (NewHash ''xml'' [''header'', header])
      in if \<not> valid_mac macaddress then ErrorReplyXML cfg (illegal_mac xmlmsg)
         else if subdir = [] then ErrorReplyXML cfg (''Missing or empty <date> element in message: '' @ String xmlmsg)
         else
           (let names = (case listdir (path_Join [FAILogPath, ToLower macaddress, subdir]) of
                  Entries es \<Rightarrow> sort (map fst (filter (\<lambda>e. snd e = Ordinary) es)) | _ \<Rightarrow> []);
                x = fold (\<lambda>n. Add header [n]) names x
            in Add ''session_id'' [''1''] (Add ''target'' [''GOSA''] (Add ''source'' [ServerSourceAddress cfg] x))))"

definition gosa_show_log_by_mac ::
  "process_config \<Rightarrow> string \<Rightarrow> (string \<Rightarrow> listing) \<Rightarrow> hash \<Rightarrow> hash" where
  "gosa_show_log_by_mac cfg FAILogPath listdir xmlmsg =
     (let macaddress = text_of ''mac'' xmlmsg; lmac = ToLower macaddress;
          answer = (\<lambda>names.
            let ele = ''mac_'' @ map (\<lambda>c. if c = CHR '':'' then CHR ''_'' else c) lmac;
                x = Add ''show_log_by_mac'' [] (NewHash ''xml'' [''header'', ''show_log_by_mac'']);
                x = Add ''session_id'' [''1''] (Add ''target'' [''GOSA''] (Add ''source'' [ServerSourceAddress cfg] x))
            in fold (\<lambda>n. Add ele [n]) names x)
      in if \<not> valid_mac macaddress then ErrorReplyXML cfg (illegal_mac xmlmsg)
         else
           (case listdir (path_Join [FAILogPath, lmac]) of
              No_entry \<Rightarrow> answer []
            | List_error err \<Rightarrow> ErrorReplyXML cfg err
            | Entries es \<Rightarrow> answer (sort (map fst (filter (\<lambda>e. snd e = Directory) es)))))"

section \<open>Paths\<close>

definition plain_name :: "string \<Rightarrow> bool" where
  "plain_name p \<longleftrightarrow> p \<noteq> [] \<and> p \<noteq> ''.'' \<and> p \<noteq> ''..'' \<and> CHR ''/'' \<notin> set p"

text \<open>An absolute path by its parts.\<close>

definition abs_path :: "string list \<Rightarrow> string" where
  "abs_path ps = CHR ''/'' # Join ps ''/''"

lemma Split_append: "Split (x @ c # y) c = Split x c @ Split y c"
  by (induction x) (auto split: list.split)

lemma Join_Cons: "ps \<noteq> [] \<Longrightarrow> Join (p # ps) sep = p @ sep @ Join ps sep"
  by (cases ps) auto

lemma Split_Join: "ps \<noteq> [] \<Longrightarrow> list_all (\<lambda>p. c \<notin> set p) ps \<Longrightarrow> Split (Join ps [c]) c = ps"
proof (induction ps)
  case (Cons p ps)
  then show ?case by (cases "ps = []") (simp_all add: Split_no_sep Join_Cons Split_append)
qed simp

lemma clean_parts_plain:
  "list_all plain_name ps \<Longrightarrow> clean_parts r stack (ps @ qs) = clean_parts r (rev ps @ stack) qs"
  by (induction ps arbitrary: stack) (auto simp: plain_name_def)

lemma path_Join_abs:
  assumes "R \<noteq> []" and "list_all plain_name R" and "list_all (\<lambda>p. p \<noteq> [] \<and> CHR ''/'' \<notin> set p) ps"
  shows "path_Join (abs_path R # ps) = CHR ''/'' # Join (clean_parts True (rev R) ps) ''/''"
proof -
  have slashes: "list_all (\<lambda>p. CHR ''/'' \<notin> set p) (R @ ps)"
    using assms(2,3) by (auto simp: list_all_iff plain_name_def)
  have "filter (\<lambda>e. e \<noteq> []) (abs_path R # ps) = abs_path R # ps"
    using assms(3) by (auto simp: abs_path_def list_all_iff)
  moreover have "Join (abs_path R # ps) ''/'' = CHR ''/'' # Join (R @ ps) ''/''"
  proof -
    have "Join (Join R sep # ps) sep = Join (R @ ps) sep" if "R \<noteq> []" for R sep
      using that
    proof (induction R)
      case (Cons r R)
      then show ?case by (cases "R = []"; cases "ps = []") (auto simp: Join_Cons)
    qed simp
    from this [OF assms(1), of "''/''"] show ?thesis by (cases "ps = []") (auto simp: abs_path_def Join_Cons)
  qed
  moreover have "Split (CHR ''/'' # Join (R @ ps) ''/'') CHR ''/'' = [] # (R @ ps)"
    using Split_Join [OF _ slashes] assms(1) by simp
  ultimately show ?thesis
    using clean_parts_plain [OF assms(2), of True "[]" ps] by (simp add: path_Join_def Clean_def HasPrefix_def)
qed

lemma path_Join_plain:
  "R \<noteq> [] \<Longrightarrow> list_all plain_name R \<Longrightarrow> list_all plain_name ps \<Longrightarrow> path_Join (abs_path R # ps) = abs_path (R @ ps)"
  using path_Join_abs [of R ps] clean_parts_plain [of ps True "rev R" "[]"]
  by (auto simp: abs_path_def list_all_iff plain_name_def)

lemma no_slash_ok: "CHR ''/'' \<notin> set (no_slash s)"
  by (auto simp: no_slash_def)

lemma no_slash_id: "CHR ''/'' \<notin> set s \<Longrightarrow> no_slash s = s"
  unfolding no_slash_def by (rule map_idI) auto

text \<open>The classes of characters in an expression: every character of a match is in one.\<close>

fun classes :: "rx \<Rightarrow> (char \<times> char) list list" where
  "classes (Class rs) = [rs]"
| "classes Nothing = []"
| "classes (Cat a b) = classes a @ classes b"
| "classes (Alt a b) = classes a @ classes b"
| "classes (Maybe a) = classes a"

lemma lang_classes: "w \<in> lang r \<Longrightarrow> c \<in> set w \<Longrightarrow> list_ex (\<lambda>rs. in_class rs c) (classes r)"
  by (induction r arbitrary: w) (auto, blast+)

lemma mac_chars: "valid_mac mac \<Longrightarrow> c \<in> set mac \<Longrightarrow> list_ex (\<lambda>rs. in_class rs c) (classes macAddressRegexp)"
  unfolding valid_mac_def matches_lang by (rule lang_classes)

lemma mac_has_no:
  "valid_mac mac \<Longrightarrow> CHR ''/'' \<notin> set mac" "valid_mac mac \<Longrightarrow> CHR ''.'' \<notin> set mac" "valid_mac mac \<Longrightarrow> CHR ''<'' \<notin> set mac"
proof -
  have "\<not> list_ex (\<lambda>rs. in_class rs (CHR ''/'')) (classes macAddressRegexp)"
    "\<not> list_ex (\<lambda>rs. in_class rs (CHR ''.'')) (classes macAddressRegexp)"
    "\<not> list_ex (\<lambda>rs. in_class rs (CHR ''<'')) (classes macAddressRegexp)"
    by code_simp+
  with mac_chars show "valid_mac mac \<Longrightarrow> CHR ''/'' \<notin> set mac" "valid_mac mac \<Longrightarrow> CHR ''.'' \<notin> set mac"
    "valid_mac mac \<Longrightarrow> CHR ''<'' \<notin> set mac" by blast+
qed

lemma in_ToLower: "d \<in> set (ToLower s) \<Longrightarrow> byte d < 97 \<Longrightarrow> d \<in> set s"
proof -
  assume "d \<in> set (ToLower s)" and small: "byte d < 97"
  then obtain c where c: "c \<in> set s" "d = lower_char c" by (auto simp: ToLower_def)
  with small have "\<not> (65 \<le> byte c \<and> byte c \<le> 90)" by (simp add: byte_lower_char split: if_splits)
  then have "lower_char c = c" by (auto simp: lower_char_def)
  with c show "d \<in> set s" by simp
qed

lemma plain_mac:
  assumes "valid_mac mac"
  shows "plain_name (ToLower mac)"
proof -
  have "CHR ''/'' \<notin> set (ToLower mac)" "CHR ''.'' \<notin> set (ToLower mac)"
    using mac_has_no [OF assms] in_ToLower [of "CHR ''/''" mac] in_ToLower [of "CHR ''.''" mac]
    by (auto simp: byte_def)
  moreover have "\<not> valid_mac []" by code_simp
  then have "ToLower mac \<noteq> []" using assms by (auto simp: ToLower_def)
  ultimately show ?thesis by (auto simp: plain_name_def)
qed

lemma plain_log_name:
  assumes "valid_action action" and "CHR ''/'' \<notin> set timestamp"
  shows "plain_name (action @ ''_'' @ take 8 timestamp @ ''_'' @ drop 8 timestamp)"
proof -
  let ?x = "action @ ''_'' @ take 8 timestamp @ ''_'' @ drop 8 timestamp"
  have "\<not> action_char (CHR ''/'')" by code_simp
  then have "CHR ''/'' \<notin> set action" using assms(1) by (auto simp: valid_action_def list_all_iff)
  moreover have "CHR ''/'' \<notin> set (take 8 timestamp)" "CHR ''/'' \<notin> set (drop 8 timestamp)"
    using assms(2) by (auto dest: in_set_takeD in_set_dropD)
  moreover have "CHR ''_'' \<in> set ?x" by simp
  then have "?x \<noteq> []" "?x \<noteq> ''.''" "?x \<noteq> ''..''" by (auto simp del: set_append)
  ultimately show ?thesis unfolding plain_name_def by simp
qed

section \<open>Where files are stored\<close>

text \<open>C36: Whatever a message contains, files are only stored in the directory that is made for it,
  which lies two levels below the directory of log files: each path that is written is a plain
  name directly in the new directory, or (for the names . and ..) that directory itself or its
  parent, which cannot be written as files.\<close>

theorem log_files_stay_in_their_directory:
  assumes "clmsg_save_fai_log cfg (abs_path R) decode mkdir readlink plainname timestamp max_files buf st = (Some es, st')"
    and "R \<noteq> []" and "list_all plain_name R" and "CHR ''/'' \<notin> set timestamp" and "Write_file p c \<in> set es"
  shows "\<exists>mac logname. plain_name mac \<and> plain_name logname \<and> Make_directory (abs_path (R @ [mac, logname])) \<in> set es \<and>
    (p = abs_path (R @ [mac]) \<or> p = abs_path (R @ [mac, logname]) \<or>
     (\<exists>name. plain_name name \<and> p = abs_path (R @ [mac, logname, name])))"
proof -
  let ?tags = "find_tags buf"
  let ?mac = "ToLower (log_mac ?tags)" and ?name = "log_action ?tags @ ''_'' @ take 8 timestamp @ ''_'' @ drop 8 timestamp"
  let ?dir = "log_directory (abs_path R) (log_mac ?tags) (log_action ?tags) timestamp"
  obtain link fs where ok: "valid_mac (log_mac ?tags)" "valid_action (log_action ?tags)"
    and es: "es = Make_directory ?dir # link @ map (log_file_effect decode ?dir) fs"
    and link: "link = (case plainname (log_mac ?tags) of None \<Rightarrow> []
      | Some name \<Rightarrow> link_effects (abs_path R) (log_mac ?tags) name readlink)"
    using assms(1,5) by (auto simp: clmsg_save_fai_log_def Let_def split: if_splits)
  have "Write_file p c \<notin> set link"
    unfolding link by (auto simp: link_effects_def Let_def split: option.splits link_state.splits if_splits)
  then obtain n where p: "p = path_Join [?dir, no_slash n]"
    using assms(5) by (auto simp: es log_file_effect_def)
  have plain: "plain_name ?mac" "plain_name ?name"
    using plain_mac [OF ok(1)] plain_log_name [OF ok(2) assms(4)] by auto
  have dir: "?dir = abs_path (R @ [?mac, ?name])"
    unfolding log_directory_def using path_Join_plain [OF assms(2,3), of "[?mac, ?name]"] plain by simp
  have all: "list_all plain_name (R @ [?mac, ?name])" using assms(3) plain by simp
  have "p = abs_path (R @ [?mac]) \<or> p = abs_path (R @ [?mac, ?name]) \<or>
     (\<exists>name. plain_name name \<and> p = abs_path (R @ [?mac, ?name, name]))"
  proof (cases "plain_name (no_slash n)")
    case True
    then have "p = abs_path (R @ [?mac, ?name, no_slash n])"
      using path_Join_plain [OF _ all, of "[no_slash n]"] by (simp add: p dir)
    with True show ?thesis by blast
  next
    case False
    then consider "no_slash n = []" | "no_slash n = ''.''" | "no_slash n = ''..''"
      using no_slash_ok [of n] by (auto simp: plain_name_def)
    then show ?thesis
    proof cases
      case 1
      have "path_Join [d, []] = path_Join [d]" for d by (simp add: path_Join_def)
      with 1 show ?thesis using path_Join_plain [OF _ all, of "[]"] by (simp add: p dir)
    next
      case 2
      have "p = path_Join [abs_path (R @ [?mac, ?name]), ''.'']" unfolding p dir 2 ..
      also have "\<dots> = abs_path (R @ [?mac, ?name])"
        using path_Join_abs [OF _ all, of "[''.'']"] by (simp add: abs_path_def)
      finally show ?thesis by blast
    next
      case 3
      have "p = path_Join [abs_path (R @ [?mac, ?name]), ''..'']" unfolding p dir 3 ..
      also have "\<dots> = abs_path (R @ [?mac])"
        using path_Join_abs [OF _ all, of "[''..'']"] plain(2) by (simp add: abs_path_def plain_name_def)
      finally show ?thesis by blast
    qed
  qed
  with plain show ?thesis by (intro exI [of _ ?mac] exI [of _ ?name]) (simp add: es dir)
qed

section \<open>The tags of a message\<close>

lemma HasPrefix_simps:
  "HasPrefix (x # xs) (y # ys) \<longleftrightarrow> x = y \<and> HasPrefix xs ys" "HasPrefix s []" "\<not> HasPrefix [] (y # ys)"
  by (auto simp: HasPrefix_def)

lemma scan_short: "length rest \<le> 19 \<Longrightarrow> scan_tags i rest st = st"
  by (subst scan_tags.simps) simp

lemma scan_plain: "c \<noteq> CHR ''<'' \<Longrightarrow> scan_tags i (c # r) st = scan_tags (Suc i) r st"
  by (cases "length (c # r) \<le> 19") (simp add: scan_short, subst scan_tags.simps, simp)

lemma scan_skip: "CHR ''<'' \<notin> set u \<Longrightarrow> scan_tags i (u @ v) st = scan_tags (i + length u) v st"
  by (induction u arbitrary: i) (auto simp: scan_plain)

lemma scan_other_tag:
  assumes "\<not> HasPrefix (CHR ''<'' # r) ''<macaddress>''" and "\<not> HasPrefix (CHR ''<'' # r) ''<fai_action>''"
    and "\<not> HasPrefix (CHR ''<'' # r) ''<CLMSG_save_fai_log>''" and "\<not> HasPrefix (CHR ''<'' # r) ''</CLMSG_save_fai_log>''"
  shows "scan_tags i (CHR ''<'' # r) st = scan_tags (Suc i) r st"
  using assms by (cases "length (CHR ''<'' # r) \<le> 19") (simp add: scan_short, subst scan_tags.simps, simp)

lemma scan_mac:
  assumes "length mac = 17" and "CHR ''<'' \<notin> set mac"
  shows "scan_tags i (''<macaddress>'' @ mac @ v) st = scan_tags (i + 29) v (st\<lparr>log_mac := mac\<rparr>)"
proof -
  have "scan_tags i (''<macaddress>'' @ mac @ v) st = scan_tags (Suc i) (''macaddress>'' @ mac @ v) (st\<lparr>log_mac := mac\<rparr>)"
    using assms(1) by (subst scan_tags.simps) (simp add: HasPrefix_simps)
  also have "\<dots> = scan_tags (i + 29) v (st\<lparr>log_mac := mac\<rparr>)"
    using scan_skip [of "''macaddress>'' @ mac" "Suc i" v] assms by (simp add: add.commute)
  finally show ?thesis .
qed

lemma scan_action:
  assumes "CHR ''<'' \<notin> set action" and "length v \<ge> 7"
  shows "scan_tags i (''<fai_action>'' @ action @ CHR ''<'' # v) st =
    scan_tags (Suc (i + 12 + length action)) v (st\<lparr>log_action := action\<rparr>)"
proof -
  have "Index (action @ CHR ''<'' # v) CHR ''<'' = Some (length action)"
    using assms(1) by (induction action) auto
  then have "scan_tags i (''<fai_action>'' @ action @ CHR ''<'' # v) st =
      scan_tags (Suc (i + 12 + length action)) (drop (Suc (12 + length action)) (''<fai_action>'' @ action @ CHR ''<'' # v))
        (st\<lparr>log_action := action\<rparr>)"
    using assms(2) by (subst scan_tags.simps) (simp add: HasPrefix_simps)
  also have "drop (Suc (12 + length action)) (''<fai_action>'' @ action @ CHR ''<'' # v) = v"
    by (simp add: eval_nat_numeral)
  finally show ?thesis .
qed

lemma scan_begin:
  "scan_tags i (''<CLMSG_save_fai_log>'' @ v) st = scan_tags (i + 20) v (st\<lparr>log_start := i + 20\<rparr>)"
proof -
  have "scan_tags i (''<CLMSG_save_fai_log>'' @ v) st =
      scan_tags (Suc i) (''CLMSG_save_fai_log>'' @ v) (st\<lparr>log_start := i + 20\<rparr>)"
    by (subst scan_tags.simps) (simp add: HasPrefix_simps)
  also have "\<dots> = scan_tags (i + 20) v (st\<lparr>log_start := i + 20\<rparr>)"
    using scan_skip [of "''CLMSG_save_fai_log>''" "Suc i" v] by (simp add: eval_nat_numeral)
  finally show ?thesis .
qed

lemma scan_end:
  "scan_tags i (''</CLMSG_save_fai_log>'' @ v) st = scan_tags (i + 21) v (st\<lparr>log_end := i\<rparr>)"
proof -
  have "scan_tags i (''</CLMSG_save_fai_log>'' @ v) st =
      scan_tags (Suc i) (''/CLMSG_save_fai_log>'' @ v) (st\<lparr>log_end := i\<rparr>)"
    by (subst scan_tags.simps) (simp add: HasPrefix_simps)
  also have "\<dots> = scan_tags (i + 21) v (st\<lparr>log_end := i\<rparr>)"
    using scan_skip [of "''/CLMSG_save_fai_log>''" "Suc i" v] by (simp add: eval_nat_numeral)
  finally show ?thesis .
qed

definition log_head :: "string \<Rightarrow> string \<Rightarrow> string \<Rightarrow> string" where
  "log_head source target mac = ''<xml><header>CLMSG_save_fai_log</header><source>'' @ source @
     ''</source><target>'' @ target @ ''</target><macaddress>'' @ mac @ ''</macaddress><CLMSG_save_fai_log>''"

definition log_tail :: "string \<Rightarrow> string" where
  "log_tail action = ''</CLMSG_save_fai_log><fai_action>'' @ action @ ''</fai_action></xml>''"

lemma find_tags_message:
  assumes "CHR ''<'' \<notin> set source" and "CHR ''<'' \<notin> set target" and "CHR ''<'' \<notin> set mac" and "length mac = 17"
    and "CHR ''<'' \<notin> set body" and "CHR ''<'' \<notin> set action"
  shows "find_tags (log_head source target mac @ body @ log_tail action) =
    \<lparr>log_mac = mac, log_action = action, log_start = length (log_head source target mac),
     log_end = length (log_head source target mac) + length body\<rparr>"
proof -
  let ?st = "\<lparr>log_mac = [], log_action = [], log_start = 0, log_end = 0\<rparr>"
  have 1: "scan_tags i (''<xml><header>CLMSG_save_fai_log</header><source>'' @ v) st = scan_tags (i + 48) v st" for i v st
    by (simp add: scan_plain scan_other_tag HasPrefix_simps eval_nat_numeral)
  have 2: "scan_tags i (''</source><target>'' @ v) st = scan_tags (i + 17) v st" for i v st
    by (simp add: scan_plain scan_other_tag HasPrefix_simps eval_nat_numeral)
  have 3: "scan_tags i (''</target>'' @ v) st = scan_tags (i + 9) v st" for i v st
    by (simp add: scan_plain scan_other_tag HasPrefix_simps eval_nat_numeral)
  have 4: "scan_tags i (''</macaddress>'' @ v) st = scan_tags (i + 13) v st" for i v st
    by (simp add: scan_plain scan_other_tag HasPrefix_simps eval_nat_numeral)
  have 5: "scan_tags i (''<fai_action>'' @ action @ ''</fai_action></xml>'') st = st\<lparr>log_action := action\<rparr>" for i st
    using scan_action [OF assms(6), of "''/fai_action></xml>''" i st] by (simp add: scan_short)
  have msg: "log_head source target mac @ body @ log_tail action =
      ''<xml><header>CLMSG_save_fai_log</header><source>'' @ source @ ''</source><target>'' @ target @ ''</target>'' @
      ''<macaddress>'' @ mac @ ''</macaddress>'' @ ''<CLMSG_save_fai_log>'' @ body @ ''</CLMSG_save_fai_log>'' @
      ''<fai_action>'' @ action @ ''</fai_action></xml>''"
    by (simp add: log_head_def log_tail_def)
  show ?thesis
    unfolding find_tags_def msg
    unfolding 1 scan_skip [OF assms(1)] 2 scan_skip [OF assms(2)] 3 scan_mac [OF assms(4,3)] 4 scan_begin
      scan_skip [OF assms(5)] scan_end 5
    using assms(4) by (simp add: log_head_def)
qed

section \<open>The files of a message\<close>

definition file_text :: "string \<times> string \<Rightarrow> string" where
  "file_text f = ''log_file:'' @ fst f @ '':'' @ snd f"

abbreviation files_text :: "(string \<times> string) list \<Rightarrow> string" where
  "files_text fs \<equiv> concat (map file_text fs)"

definition file_ok :: "string \<times> string \<Rightarrow> bool" where
  "file_ok f \<longleftrightarrow> fst f \<noteq> [] \<and> CHR '':'' \<notin> set (fst f) \<and> CHR ''<'' \<notin> set (fst f) \<and>
     CHR '':'' \<notin> set (snd f) \<and> CHR ''<'' \<notin> set (snd f)"

fun positions :: "nat \<Rightarrow> (string \<times> string) list \<Rightarrow> nat list" where
  "positions k [] = []"
| "positions k (f # fs) = [k + 9, k + 9 + length (fst f)] @
     positions (k + 10 + length (fst f) + length (snd f)) fs"

lemma length_file_text: "length (file_text f) = 10 + length (fst f) + length (snd f)"
  by (simp add: file_text_def)

lemma find_files_end: "e \<le> i \<Longrightarrow> find_files buf e i = Some []"
  by (subst find_files.simps) simp

lemma find_files_skip:
  assumes "take e buf = u @ w @ v" and "CHR '':'' \<notin> set w"
  shows "find_files buf e (length u) = find_files buf e (length u + length w)"
  using assms
proof (induction w arbitrary: u)
  case (Cons c w)
  have "length (u @ (c # w) @ v) \<le> e" using arg_cong [OF Cons.prems(1), of length] by simp
  then have i: "length u < e" by simp
  have "buf ! length u = take e buf ! length u" using i by simp
  then have "buf ! length u = c" by (simp add: Cons.prems(1) nth_append)
  then have "find_files buf e (length u) = find_files buf e (length (u @ [c]))"
    using i Cons.prems(2) by (subst find_files.simps) auto
  also have "\<dots> = find_files buf e (length (u @ [c]) + length w)"
    using Cons.prems by (intro Cons.IH) auto
  finally show ?case by simp
qed simp

lemma Index_first: "c \<notin> set u \<Longrightarrow> Index (u @ c # v) c = Some (length u)"
  by (induction u) auto

lemma find_files_file:
  assumes "take e buf = u @ file_text f @ v" and "file_ok f"
  shows "find_files buf e (length u) =
    map_option (\<lambda>fs. [length u + 9, length u + 9 + length (fst f)] @ fs)
      (find_files buf e (length u + 10 + length (fst f)))"
proof -
  let ?i = "length u + 8" and ?n = "fst f"
  have all: "take e buf = (u @ ''log_file'') @ [CHR '':''] @ ?n @ CHR '':'' # snd f @ v"
    using assms(1) by (simp add: file_text_def)
  have "length (take e buf) \<le> e" "length (take e buf) \<le> length buf" by simp_all
  then have i: "?i < e" "?i < length buf" unfolding all by simp_all
  have "buf ! ?i = take e buf ! ?i" using i by simp
  also have "\<dots> = CHR '':''" unfolding all by (simp add: nth_append)
  finally have colon: "buf ! ?i = CHR '':''" .
  have "take 8 (drop (length u) buf) = take 8 (drop (length u) (take e buf))"
    using i by (simp add: drop_take min_def)
  also have "\<dots> = ''log_file''" unfolding all by simp
  finally have word: "match buf (?i - 8) ''log_file''" by (simp add: match_def HasPrefix_def eval_nat_numeral)
  have "drop (Suc ?i) (take e buf) = ?n @ CHR '':'' # snd f @ v"
    unfolding all by (simp add: eval_nat_numeral)
  then have nxt: "next_colon buf e (Suc ?i) = Some (Suc ?i + length ?n)"
    using assms(2) by (simp add: next_colon_def Index_first file_ok_def)
  have "find_files buf e (length u) = find_files buf e ?i"
    using find_files_skip [of e buf u "''log_file''" "CHR '':'' # ?n @ CHR '':'' # snd f @ v"] all
    by (simp add: eval_nat_numeral)
  also have "\<dots> = map_option (\<lambda>fs. [Suc ?i, Suc ?i + length ?n] @ fs) (find_files buf e (Suc (Suc ?i + length ?n)))"
    using i colon word nxt assms(2) by (subst find_files.simps) (simp add: file_ok_def)
  finally show ?thesis by (simp add: eval_nat_numeral)
qed

lemma find_files_positions:
  assumes "take e buf = u @ files_text fs" and "list_all file_ok fs" and "e \<le> length buf"
  shows "find_files buf e (length u) = Some (positions (length u) fs)"
  using assms(1,2)
proof (induction fs arbitrary: u)
  case Nil
  have "length u = length (take e buf)" using Nil(1) by simp
  then have "length u = e" using assms(3) by simp
  then show ?case by (simp add: find_files_end)
next
  case (Cons f fs)
  have ok: "file_ok f" using Cons.prems(2) by simp
  let ?w = "u @ ''log_file:'' @ fst f @ '':''"
  have ft: "file_text f = ''log_file:'' @ fst f @ '':'' @ snd f" by (simp add: file_text_def)
  have parts: "take e buf = ?w @ snd f @ files_text fs" "take e buf = u @ file_text f @ files_text fs"
    using Cons.prems(1) by (simp_all add: ft)
  have len: "length ?w = length u + 10 + length (fst f)"
    "length (?w @ snd f) = length u + 10 + length (fst f) + length (snd f)" by simp_all
  have "find_files buf e (length ?w) = find_files buf e (length ?w + length (snd f))"
    using find_files_skip [OF parts(1)] ok by (simp add: file_ok_def)
  also have "\<dots> = find_files buf e (length (?w @ snd f))" by (simp add: add.assoc)
  also have "\<dots> = Some (positions (length (?w @ snd f)) fs)"
    using Cons.prems parts(1) by (intro Cons.IH) simp_all
  finally have rest: "find_files buf e (length u + 10 + length (fst f)) =
      Some (positions (length u + 10 + length (fst f) + length (snd f)) fs)"
    unfolding len .
  show ?case unfolding find_files_file [OF parts(2) ok] rest by simp
qed

text \<open>
  The data of a file ends one byte behind its end, at the l of the next log_file, unless it is
  the last one.
\<close>

fun with_next_l :: "(string \<times> string) list \<Rightarrow> (string \<times> string) list" where
  "with_next_l [] = []"
| "with_next_l [f] = [f]"
| "with_next_l (f # g # fs) = (fst f, snd f @ ''l'') # with_next_l (g # fs)"

lemma log_slice_middle: "buf = u @ w @ v \<Longrightarrow> a = length u \<Longrightarrow> b = length u + length w \<Longrightarrow> log_slice buf a b = Some w"
  by (simp add: log_slice_def)

lemma file_parts_positions:
  assumes "buf = u @ files_text fs @ v" and "e = length u + length (files_text fs)" and "int (length fs) \<le> fcount"
  shows "file_parts buf fcount (positions (length u) fs @ [e + 8]) = Some (with_next_l fs)"
  using assms
proof (induction fs arbitrary: u fcount)
  case (Cons f fs)
  let ?k = "length u + 10 + length (fst f)"
  have ft: "file_text f = ''log_file:'' @ fst f @ '':'' @ snd f" by (simp add: file_text_def)
  have one: "buf = (u @ ''log_file:'') @ fst f @ ('':'' @ snd f @ files_text fs @ v)"
    "buf = (u @ ''log_file:'' @ fst f @ '':'') @ snd f @ (files_text fs @ v)"
    using Cons.prems(1) by (simp_all add: ft)
  have name: "log_slice buf (length u + 9) (length u + 9 + length (fst f)) = Some (fst f)"
    by (rule log_slice_middle [OF one(1)]) simp_all
  show ?case
  proof (cases fs)
    case Nil
    have "log_slice buf (Suc (length u + 9 + length (fst f))) e = Some (snd f)"
      using Cons.prems(2) by (intro log_slice_middle [OF one(2)]) (simp_all add: Nil ft)
    with name Cons.prems(3) show ?thesis by (simp add: Nil)
  next
    case (Cons g gs)
    let ?u = "u @ file_text f"
    have len: "length ?u = ?k + length (snd f)" by (simp add: length_file_text)
    obtain r where r: "files_text fs = CHR ''l'' # r" by (simp add: Cons file_text_def)
    have "buf = (u @ ''log_file:'' @ fst f @ '':'') @ (snd f @ ''l'') @ (r @ v)"
      using one(2) by (simp add: r)
    then have logdata: "log_slice buf (Suc (length u + 9 + length (fst f))) (length ?u + 9 - 8) = Some (snd f @ ''l'')"
      by (rule log_slice_middle) (simp_all add: length_file_text)
    have "file_parts buf (fcount - 1) (positions (length ?u) fs @ [e + 8]) = Some (with_next_l fs)"
      using Cons.prems by (intro Cons.IH) (simp_all add: length_file_text)
    then have rest: "file_parts buf (fcount - 1) ((length ?u + 9) # (length ?u + 9 + length (fst g)) #
        positions (length ?u + 10 + length (fst g) + length (snd g)) gs @ [e + 8]) = Some (with_next_l fs)"
      by (simp add: Cons)
    have "positions (length u) (f # fs) = [length u + 9, length u + 9 + length (fst f)] @ positions (length ?u) fs"
      by (simp add: length_file_text add.assoc)
    then show ?thesis
      using name logdata rest Cons.prems(3)
      by (simp add: Cons length_file_text add.assoc add.commute add.left_commute)
  qed
qed simp

section \<open>From the client to the administrator\<close>

lemma read_hook_action: "read_hook lines = Some (body, action) \<Longrightarrow> action \<in> {''install'', ''softupdate'', ''audit''}"
  by (induction lines arbitrary: body) (auto simp: Let_def split: if_splits)

lemma hook_actions: "CHR ''<'' \<notin> set action \<and> valid_action action" if "action \<in> {''install'', ''softupdate'', ''audit''}"
proof -
  have "list_all (\<lambda>a. CHR ''<'' \<notin> set a \<and> valid_action a) [''install'', ''softupdate'', ''audit'']" by code_simp
  with that show ?thesis by auto
qed

lemma mac_length: "valid_mac mac \<Longrightarrow> length mac = 17"
proof -
  have ex: "w \<in> lang (exactly n r) \<Longrightarrow> (\<And>u. u \<in> lang r \<Longrightarrow> length u = k) \<Longrightarrow> length w = n * k" for w n r k
    by (induction n arbitrary: w) auto
  have hex: "u \<in> lang hex_digit \<Longrightarrow> length u = 1" for u by (auto simp: hex_digit_def)
  have two: "u \<in> lang (exactly 2 hex_digit) \<Longrightarrow> length u = 2" for u using ex [OF _ hex, of u 2] by simp
  have three: "u \<in> lang (Cat (the_char CHR '':'') (exactly 2 hex_digit)) \<Longrightarrow> length u = 3" for u
    using two by (auto simp: char_class_def)
  assume "valid_mac mac"
  then obtain u v where uv: "mac = u @ v" "u \<in> lang (exactly 2 hex_digit)"
    and v: "v \<in> lang (exactly 5 (Cat (the_char CHR '':'') (exactly 2 hex_digit)))"
    by (auto simp: valid_mac_def matches_lang macAddressRegexp_def)
  have "length v = 5 * 3" using v three by (rule ex)
  with two uv show ?thesis by simp
qed

lemma files_of_message:
  assumes "list_all file_ok fs" and "valid_mac mac" and "CHR ''<'' \<notin> set source" and "CHR ''<'' \<notin> set target"
    and "action \<in> {''install'', ''softupdate'', ''audit''}"
    and "int (length fs) \<le> (if max_files \<le> 0 then 999999 else max_files)"
    and "mkdir (log_directory FAILogPath mac action timestamp)"
  shows "fst (clmsg_save_fai_log cfg FAILogPath decode mkdir readlink plainname timestamp max_files
      (log_head source target mac @ files_text fs @ log_tail action) st) =
    Some (Make_directory (log_directory FAILogPath mac action timestamp) #
      (case plainname mac of None \<Rightarrow> [] | Some name \<Rightarrow> link_effects FAILogPath mac name readlink) @
      map (log_file_effect decode (log_directory FAILogPath mac action timestamp)) (with_next_l fs))"
proof -
  let ?hd = "log_head source target mac"
  define msg where "msg = ?hd @ files_text fs @ log_tail action"
  have a: "CHR ''<'' \<notin> set action" "valid_action action"
    using assms(5) hook_actions by auto
  have body: "CHR ''<'' \<notin> set (files_text fs)"
    using assms(1) by (auto simp: list_all_iff file_ok_def file_text_def)
  have tags: "find_tags msg = \<lparr>log_mac = mac, log_action = action, log_start = length ?hd,
      log_end = length ?hd + length (files_text fs)\<rparr>"
    unfolding msg_def
    by (rule find_tags_message [OF assms(3,4) mac_has_no(3) [OF assms(2)] mac_length [OF assms(2)] body a(1)])
  let ?e = "length ?hd + length (files_text fs)"
  have "find_files msg ?e (length ?hd) = Some (positions (length ?hd) fs)"
    by (rule find_files_positions [OF _ assms(1)]) (simp_all add: msg_def)
  moreover have "file_parts msg (if max_files \<le> 0 then 999999 else max_files) (positions (length ?hd) fs @ [?e + 8]) =
      Some (with_next_l fs)"
    by (rule file_parts_positions [OF msg_def refl assms(6)])
  ultimately show ?thesis
    unfolding msg_def [symmetric] using assms(2,7) a(2)
    by (cases "plainname mac") (simp_all add: clmsg_save_fai_log_def Let_def tags)
qed

text \<open>C37: Log files get from the client to the server. If the output of the hook on the client
  lists files, in the form log_file:NAME:DATA, and ends with an action, then the server that
  handles the message the client sends for it makes the directory for this machine and action
  and stores exactly these files there, in order, under their names (slashes replaced) with
  their decoded data; the data of each but the last has an l behind it when it is decoded.\<close>

theorem log_files_arrive:
  assumes "Send_clmsg_save_fai_log client mac target lines = Some msg"
    and "read_hook lines = Some (files_text fs, action)" and "list_all file_ok fs"
    and "valid_mac mac" and "CHR ''<'' \<notin> set (ServerSourceAddress client)" and "CHR ''<'' \<notin> set target"
    and "int (length fs) \<le> (if max_files \<le> 0 then 999999 else max_files)"
    and "mkdir (log_directory FAILogPath mac action timestamp)"
  shows "\<exists>link. fst (clmsg_save_fai_log cfg FAILogPath decode mkdir readlink plainname timestamp max_files msg st) =
    Some (Make_directory (log_directory FAILogPath mac action timestamp) # link @
      map (\<lambda>(n, d). Write_file (path_Join [log_directory FAILogPath mac action timestamp, no_slash n]) (decode d))
        (with_next_l fs))"
proof -
  have msg: "msg = log_head (ServerSourceAddress client) target mac @ files_text fs @ log_tail action"
    using assms(1,2) by (simp add: Send_clmsg_save_fai_log_def log_head_def log_tail_def)
  have "log_file_effect decode d = (\<lambda>(n, t). Write_file (path_Join [d, no_slash n]) (decode t))" for d
    by (auto simp: log_file_effect_def)
  with files_of_message [where mkdir = mkdir and max_files = max_files and timestamp = timestamp, OF assms(3-6)
      read_hook_action [OF assms(2)] assms(7,8)]
  show ?thesis unfolding msg by auto
qed

definition example_hook_output :: "string list" where
  "example_hook_output = ['' log_file:fai.log:YWJj'', ''ZGVm'', ''log_file:dmesg:Zw=='', ''install'']"

theorem log_files_arrive_witness:
  "\<exists>msg link. Send_clmsg_save_fai_log example_cfg ''00:11:22:33:44:5a'' ''10.0.0.2:20081'' example_hook_output = Some msg \<and>
    fst (clmsg_save_fai_log example_cfg ''/var/log/fai'' id (\<lambda>d. True) (\<lambda>l. No_link) (\<lambda>m. Some ''none'') ''20300101120000'' 0
      msg example_jobdb) =
    Some (Make_directory ''/var/log/fai/00:11:22:33:44:5a/install_20300101_120000'' # link @
      [Write_file ''/var/log/fai/00:11:22:33:44:5a/install_20300101_120000/fai.log'' ''YWJjZGVml'',
       Write_file ''/var/log/fai/00:11:22:33:44:5a/install_20300101_120000/dmesg'' ''Zw==''])"
proof -
  let ?fs = "[(''fai.log'', ''YWJjZGVm''), (''dmesg'', ''Zw=='')]" and ?mac = "''00:11:22:33:44:5a''"
  have hook: "read_hook example_hook_output = Some (files_text ?fs, ''install'')" by code_simp
  then obtain msg where msg: "Send_clmsg_save_fai_log example_cfg ?mac ''10.0.0.2:20081'' example_hook_output = Some msg"
    by (simp add: Send_clmsg_save_fai_log_def)
  have ok: "list_all file_ok ?fs" "valid_mac ?mac" "CHR ''<'' \<notin> set (ServerSourceAddress example_cfg)"
    "CHR ''<'' \<notin> set ''10.0.0.2:20081''"
    by code_simp+
  have dir: "log_directory ''/var/log/fai'' ?mac ''install'' ''20300101120000'' =
      ''/var/log/fai/00:11:22:33:44:5a/install_20300101_120000''"
    by code_simp
  have paths: "path_Join [''/var/log/fai/00:11:22:33:44:5a/install_20300101_120000'', no_slash ''fai.log''] =
      ''/var/log/fai/00:11:22:33:44:5a/install_20300101_120000/fai.log''"
    "path_Join [''/var/log/fai/00:11:22:33:44:5a/install_20300101_120000'', no_slash ''dmesg''] =
      ''/var/log/fai/00:11:22:33:44:5a/install_20300101_120000/dmesg''"
    by code_simp+
  have "int (length ?fs) \<le> (if (0::int) \<le> 0 then 999999 else 0)" by simp
  from log_files_arrive [OF msg hook ok this, of "\<lambda>d. True" "''/var/log/fai''" "''20300101120000''" example_cfg id
      "\<lambda>l. No_link" "\<lambda>m. Some ''none''" example_jobdb]
  show ?thesis using msg by (auto simp: dir paths)
qed

text \<open>The administrator reads what was stored: when the request names the machine, the
  directory as it is listed and the file, the path that is read is the one that was written,
  and the answer has the encoded content of the file under its name, in pieces of limited
  length.\<close>

lemma stored_log_file_is_found:
  assumes "list_all plain_name R" and "R \<noteq> []" and "valid_mac mac" and "valid_action action" and "CHR ''/'' \<notin> set timestamp"
    and "plain_name (no_slash n)" and "n \<noteq> []"
    and "log_file_effect decode (log_directory (abs_path R) mac action timestamp) (n, d) = Write_file p content"
    and "read_file p = Inr content"
    and "text_of ''mac'' xmlmsg = mac" and "text_of ''log_file'' xmlmsg = n"
    and "text_of ''date'' xmlmsg = action @ ''_'' @ take 8 timestamp @ ''_'' @ drop 8 timestamp"
  shows "\<exists>x. last (children (gosa_get_log_file_by_date_and_mac cfg (abs_path R) encode read_file xmlmsg)) = x \<and>
    Name x = no_slash n \<and> own_text x = encode content \<and> list_all (\<lambda>s. length s \<le> MaxFragmentLength) (TextFragments x)"
proof -
  let ?name = "action @ ''_'' @ take 8 timestamp @ ''_'' @ drop 8 timestamp"
  have plain: "plain_name (ToLower mac)" "plain_name ?name"
    using plain_mac [OF assms(3)] plain_log_name [OF assms(4,5)] by auto
  then have date: "no_slash ?name = ?name" "?name \<noteq> []" by (auto simp: plain_name_def intro!: no_slash_id)
  have dir: "log_directory (abs_path R) mac action timestamp = abs_path (R @ [ToLower mac, ?name])"
    unfolding log_directory_def using path_Join_plain [OF assms(2,1), of "[ToLower mac, ?name]"] plain by simp
  have "p = path_Join [abs_path (R @ [ToLower mac, ?name]), no_slash n]"
    using assms(8) by (simp add: log_file_effect_def dir)
  also have "\<dots> = abs_path (R @ [ToLower mac, ?name, no_slash n])"
    using path_Join_plain [of "R @ [ToLower mac, ?name]" "[no_slash n]"] assms(1,6) plain by simp
  finally have p: "path_Join [abs_path R, ToLower mac, ?name, no_slash n] = p"
    using path_Join_plain [OF assms(2,1), of "[ToLower mac, ?name, no_slash n]"] assms(6) plain by simp
  have "no_slash n \<noteq> []" using assms(7) by (simp add: no_slash_def)
  then have last: "last (children (gosa_get_log_file_by_date_and_mac cfg (abs_path R) encode read_file xmlmsg)) =
      fold AppendString (pieces (encode content)) (NewHash (no_slash n) [])"
    using assms(3,9) date p by (simp add: gosa_get_log_file_by_date_and_mac_def Let_def assms(10-12))
  have frags: "Name (fold AppendString ss h) = Name h \<and>
      TextFragments (fold AppendString ss h) = TextFragments h @ filter (\<lambda>s. s \<noteq> []) ss" for ss h
    by (induction ss arbitrary: h) (auto simp: AppendString_def TextFragments_def)
  have "concat (pieces s) = s \<and> list_all (\<lambda>t. length t \<le> MaxFragmentLength) (pieces s)" for s
    by (induction s rule: pieces.induct) (subst (1 2) pieces.simps, auto)
  moreover have nonempty: "concat (filter (\<lambda>s. s \<noteq> []) ss) = concat ss" for ss :: "string list"
    by (induction ss) auto
  ultimately show ?thesis
    unfolding last using frags [of "pieces (encode content)" "NewHash (no_slash n) []"]
    by (auto simp: own_text_def TextFragments_def list_all_iff nonempty)
qed

theorem log_files_stay_in_their_directory_witness:
  "\<exists>mac logname. plain_name mac \<and> plain_name logname \<and>
    (abs_path [''var'', ''log'', ''00:11:22:33:44:5a'', ''audit_20300101_120000'', ''.._.._x''] = abs_path ([''var'', ''log''] @ [mac]) \<or>
     abs_path [''var'', ''log'', ''00:11:22:33:44:5a'', ''audit_20300101_120000'', ''.._.._x''] = abs_path ([''var'', ''log''] @ [mac, logname]) \<or>
     (\<exists>name. plain_name name \<and> abs_path [''var'', ''log'', ''00:11:22:33:44:5a'', ''audit_20300101_120000'', ''.._.._x''] =
        abs_path ([''var'', ''log''] @ [mac, logname, name])))"
proof -
  let ?msg = "log_head ''10.0.0.66:20083'' ''10.0.0.1:20081'' ''00:11:22:33:44:5a'' @ files_text [(''../../x'', ''Zw=='')] @ log_tail ''audit''"
  let ?r = "clmsg_save_fai_log example_cfg (abs_path [''var'', ''log'']) id (\<lambda>d. True) (\<lambda>l. No_link) (\<lambda>m. None)
    ''20300101120000'' 0 ?msg example_jobdb"
  let ?dir = "log_directory (abs_path [''var'', ''log'']) ''00:11:22:33:44:5a'' ''audit'' ''20300101120000''"
  let ?p = "abs_path [''var'', ''log'', ''00:11:22:33:44:5a'', ''audit_20300101_120000'', ''.._.._x'']"
  have ok: "list_all file_ok [(''../../x'', ''Zw=='')]" "valid_mac ''00:11:22:33:44:5a''"
    "CHR ''<'' \<notin> set ''10.0.0.66:20083''" "CHR ''<'' \<notin> set ''10.0.0.1:20081''"
    by code_simp+
  have "fst ?r = Some (Make_directory ?dir # [log_file_effect id ?dir (''../../x'', ''Zw=='')])"
    by (subst files_of_message [OF ok]) simp_all
  then have r: "?r = (Some (Make_directory ?dir # [log_file_effect id ?dir (''../../x'', ''Zw=='')]), snd ?r)"
    by (metis prod.collapse)
  have eff: "log_file_effect id ?dir (''../../x'', ''Zw=='') = Write_file ?p ''Zw==''" by code_simp
  have "list_all plain_name [''var'', ''log'']" by code_simp
  from log_files_stay_in_their_directory [OF r _ this, of ?p "''Zw==''"] show ?thesis
    unfolding eff by fastforce
qed

end
