(* ===== verification/Activation.thy ===== *)
theory Activation
  imports ClientMessages
begin

text \<open>
  The administrator activates a machine that may be new: its entry in LDAP is made or moved,
  from a template if there is one, and it gets an install job
  (go-susi/message/job_trigger_activate_new.go). The detection of the hardware of a machine
  (detect_hardware.go) and the hooks that get messages as their environment
  (new_foo_config.go, trigger_action_foo.go) are here, too, and the ping of a machine
  (gosa_ping.go).
\<close>

section \<open>Activation\<close>

text \<open>The MAC address: mac takes precedence over macaddress, and both over target.\<close>

definition activation_mac :: "hash \<Rightarrow> string" where
  "activation_mac xmlmsg =
     (let macaddress = text_of ''mac'' xmlmsg;
          macaddress = (if macaddress = [] then text_of ''macaddress'' xmlmsg else macaddress)
      in if macaddress = [] then text_of ''target'' xmlmsg else macaddress)"

text \<open>
  The template: the system with this name, or the first known member of the object group with
  this name. A member whose name cannot be cut out panics.
\<close>

definition member_name :: "string \<Rightarrow> string outcome" where
  "member_name member =
     (case SplitN2 (hd (SplitN2 member CHR '','')) CHR ''='' of
        [_, n] \<Rightarrow> Returns n | _ \<Rightarrow> outcome.Panics)"

fun first_member :: "system_config \<Rightarrow> directory \<Rightarrow> string list \<Rightarrow> string outcome" where
  "first_member cfg env [] = Returns ''none''"
| "first_member cfg env (m # ms) =
     and_then (member_name m) (\<lambda>n.
       let template_mac = SystemMACForName cfg env n
       in if template_mac \<noteq> ''none'' then Returns template_mac else first_member cfg env ms)"

definition activation_error :: "string \<Rightarrow> string" where
  "activation_error msg = ''job_trigger_activate_new(): '' @ msg"

definition template_mac :: "system_config \<Rightarrow> directory \<Rightarrow> hash \<Rightarrow> string result outcome" where
  "template_mac cfg env ogroup =
     (let mac = SystemMACForName cfg env (own_text ogroup) in
      if mac \<noteq> ''none'' then Returns (Inr mac)
      else
        (case iter_named ''xml'' (kids (SystemGetGroupsWithName cfg env (own_text ogroup))) of
           [] \<Rightarrow> Returns (Inl (activation_error (''Could not find '' @ String ogroup)))
         | [g] \<Rightarrow>
             and_then (first_member cfg env (sort (get1 ''member'' g))) (\<lambda>mac.
               Returns (if mac = ''none''
                 then Inl (activation_error (''Could not get template system from '' @ String ogroup)) else Inr mac))
         | _ \<Rightarrow> Returns (Inl (activation_error (''Multiple groups match '' @ String ogroup)))))"

definition activation_template :: "system_config \<Rightarrow> directory \<Rightarrow> hash \<Rightarrow> (hash option) result outcome" where
  "activation_template cfg env xmlmsg =
     (case First ''ogroup'' xmlmsg of
        None \<Rightarrow> Returns (Inr None)
      | Some ogroup \<Rightarrow>
          if own_text ogroup = [] then Returns (Inr None)
          else
            and_then (template_mac cfg env ogroup) (\<lambda>r.
              Returns (case r of
                Inl err \<Rightarrow> Inl err
              | Inr mac \<Rightarrow>
                  (case SystemGetAllDataForMAC cfg env mac False of
                     Inl err \<Rightarrow> Inl (''job_trigger_activate_new could not extract data for template system '' @ mac @
                       '' (from '' @ String ogroup @ '')'')
                   | Inr template \<Rightarrow> Inr (Some template)))))"

text \<open>Where the entry is put. An entry whose dn has no comma panics.\<close>

definition parent_dn :: "hash \<Rightarrow> string outcome" where
  "parent_dn system =
     (case SplitN2 (text_of ''dn'' system) CHR '','' of [_, parent] \<Rightarrow> Returns parent | _ \<Rightarrow> outcome.Panics)"

definition class_ou :: "string \<Rightarrow> string \<Rightarrow> string option" where
  "class_ou base ocls =
     (if ocls = ''gotoWorkstation'' then Some (''ou=workstations,ou=systems,'' @ base)
      else if ocls = ''goServer'' then Some (''ou=servers,ou=systems,'' @ base) else None)"

definition target_ou :: "client_site \<Rightarrow> hash option \<Rightarrow> hash option \<Rightarrow> string \<Rightarrow> string outcome" where
  "target_ou cfg existing_sys template base =
     (if base = [] then
        (case (template, existing_sys) of
           (Some t, _) \<Rightarrow> parent_dn t
         | (None, Some e) \<Rightarrow> parent_dn e
         | (None, None) \<Rightarrow> Returns (IncomingOU cfg))
      else
        (let classes = (\<lambda>s. case s of None \<Rightarrow> [] | Some x \<Rightarrow> get1 ''objectclass'' x)
         in Returns (case List.map_filter (class_ou base) (classes existing_sys @ classes template) of
              [] \<Rightarrow> IncomingOU cfg | ou # _ \<Rightarrow> ou)))"

text \<open>The name that is looked up is the text of the whole message.\<close>

definition activation_ip :: "system_config \<Rightarrow> directory \<Rightarrow> hash \<Rightarrow> string" where
  "activation_ip cfg env xmlmsg =
     (let ip = text_of ''ip'' xmlmsg in
      if ip \<noteq> [] \<or> text_of ''fqdn'' xmlmsg = [] then ip
      else
        (let ip = SystemIPAddressForName cfg env (own_text xmlmsg) in if ip = ''none'' then [] else ip))"

text \<open>The entry, and the commands that put it into the groups of the template.\<close>

definition replace_colons :: "string \<Rightarrow> string" where
  "replace_colons s = map (\<lambda>c. if c = CHR '':'' then CHR ''-'' else c) s"

definition activation_fallbacks :: "client_site \<Rightarrow> hash \<Rightarrow> hash" where
  "activation_fallbacks cfg system =
     (let system = (if First ''objectclass'' system = None then
            (let system = Add ''objectclass'' [''FAIobject''] (Add ''objectclass'' [''GOhard''] system)
             in if UnitTag (own_ldap cfg) \<noteq> []
                then Add ''gosaunittag'' [UnitTag (own_ldap cfg)]
                       (Add ''objectclass'' [''gosaAdministrativeUnitTag''] system)
                else system)
            else system);
          system = (if First ''faistate'' system = None then Add ''faistate'' [''install''] system else system)
      in set_field ''gotomode'' ''active'' system)"

definition activated_system ::
  "client_site \<Rightarrow> directory \<Rightarrow> string \<Rightarrow> string \<Rightarrow> string \<Rightarrow> hash option \<Rightarrow> hash option \<Rightarrow>
   hash \<times> (string list \<times> string) list" where
  "activated_system cfg env macaddress ou ip existing_sys template =
     (let system = (case existing_sys of
            None \<Rightarrow> Add ''cn'' [CNAutoPrefix cfg @ replace_colons macaddress @ CNAutoSuffix cfg]
                      (Add ''macaddress'' [macaddress] (NewHash ''xml'' []))
          | Some e \<Rightarrow> Clone e);
          system = set_field ''dn'' (''cn='' @ text_of ''cn'' system @ '','' @ ou) system;
          (system, groups) = (case (existing_sys, template) of
            (None, Some t) \<Rightarrow>
              (let system = SystemFillInMissingData system t
               in (system, SystemAddToGroups (Systems cfg) (text_of ''dn'' system)
                             (SystemGetGroupsWithMember (Systems cfg) env (text_of ''dn'' t))))
          | _ \<Rightarrow> (system, []));
          system = (if existing_sys = None then drop_first ''iphostnumber'' system else system);
          system = (if ip \<noteq> [] then set_field ''iphostnumber'' ip system else system)
      in (activation_fallbacks cfg system, groups))"

definition install_job :: "process_config \<Rightarrow> string \<Rightarrow> string \<Rightarrow> hash" where
  "install_job cfg macaddress timestamp =
     (let job = NewHash ''job'' [];
          job = Add ''progress'' [''none''] job;
          job = Add ''status'' [''waiting''] job;
          job = Add ''siserver'' [ServerSourceAddress cfg] job;
          job = Add ''modified'' [''1''] job;
          job = Add ''targettag'' [macaddress] job;
          job = Add ''macaddress'' [macaddress] job;
          job = Add ''plainname'' [''none''] job;
          job = Add ''timestamp'' [timestamp] job;
          job = Add ''headertag'' [''trigger_action_reinstall''] job
      in Add ''result'' [''none''] job)"

text \<open>
  The handler. \<open>env\<close> is the directory before the changes, \<open>env'\<close> afterwards; \<open>now\<close> is the
  timestamp of the current time. An error of the lookup of the machine itself is thrown away,
  so that it is taken for a new one then.
\<close>

definition tell_activated :: "client_site \<Rightarrow> directory \<Rightarrow> string \<Rightarrow> world \<Rightarrow> effect list" where
  "tell_activated cfg env' macaddress w =
     (case ClientWithMAC macaddress (clients w) of
        None \<Rightarrow> []
      | Some client \<Rightarrow>
          (case SystemGetAllDataForMAC (Systems cfg) env' macaddress True of
             Inl err \<Rightarrow> []
           | Inr system \<Rightarrow> Send_set_activated_for_installation cfg (text_of ''client'' client) system))"

definition activate_system ::
  "client_site \<Rightarrow> directory \<Rightarrow> directory \<Rightarrow> (nat \<Rightarrow> nat) \<Rightarrow> string \<Rightarrow> hash \<Rightarrow> string \<Rightarrow> hash option \<Rightarrow> hash option \<Rightarrow>
   string \<Rightarrow> world \<Rightarrow> world \<times> hash" where
  "activate_system cfg env env' ids now xmlmsg macaddress existing_sys template ou w =
     (let ip = activation_ip (Systems cfg) env xmlmsg;
          timestamp = text_of ''timestamp'' xmlmsg;
          timestamp = (if timestamp = [] then now else timestamp);
          (system, groups) = activated_system cfg env macaddress ou ip existing_sys template;
          (err, cmds) = SystemReplace (Systems cfg) env existing_sys (Some system);
          w = does (map Run_ldapmodify (groups @ cmds)) w
      in case err of
           Some e \<Rightarrow>
             if existing_sys = None
             then (w, ErrorReplyXML (Process cfg)
                    (''Could not create/update LDAP object '' @ text_of ''dn'' system @ '': '' @ e))
             else (does (tell_activated cfg env' macaddress w)
                     (w\<lparr>job_db := fst (JobAddLocal ids (install_job (Process cfg) macaddress timestamp) (job_db w))\<rparr>),
                   ok_answer (Process cfg) xmlmsg)
         | None \<Rightarrow>
             (does (tell_activated cfg env' macaddress w)
                (w\<lparr>job_db := fst (JobAddLocal ids (install_job (Process cfg) macaddress timestamp) (job_db w))\<rparr>),
              ok_answer (Process cfg) xmlmsg))"

definition job_trigger_activate_new ::
  "client_site \<Rightarrow> directory \<Rightarrow> directory \<Rightarrow> (nat \<Rightarrow> nat) \<Rightarrow> string \<Rightarrow> hash \<Rightarrow> world \<Rightarrow> (world \<times> hash) outcome" where
  "job_trigger_activate_new cfg env env' ids now xmlmsg w =
     (let macaddress = activation_mac xmlmsg;
          refuse = (\<lambda>msg. Returns (w, ErrorReplyXML (Process cfg) msg))
      in if \<not> valid_mac macaddress then refuse (activation_error (''Not a valid MAC address: '' @ macaddress))
         else
           and_then (activation_template (Systems cfg) env xmlmsg) (\<lambda>r.
             case r of
               Inl err \<Rightarrow> refuse err
             | Inr template \<Rightarrow>
                 (let existing_sys = client_data (SystemGetAllDataForMAC (Systems cfg) env macaddress False) in
                  and_then (target_ou cfg existing_sys template (text_of ''base'' xmlmsg)) (\<lambda>ou.
                    if \<not> HasSuffix ou (LDAPBase (own_ldap cfg))
                    then refuse (activation_error (''Cannot put '' @ macaddress @ '' into '' @ ou @ '' (not under '' @
                           LDAPBase (own_ldap cfg) @ '')''))
                    else Returns (activate_system cfg env env' ids now xmlmsg macaddress existing_sys template ou w)))))"

section \<open>Hooks on the client\<close>

text \<open>
  A hook gets each element of the message as a variable, the texts of elements of one name
  joined by line breaks. \<open>environment\<close> is config.HookEnvironment. The result is the
  environment with which the hook is run.
\<close>

definition hook_variable :: "hash \<Rightarrow> string \<Rightarrow> string" where
  "hook_variable xmlmsg tag = tag @ ''='' @ Join (get1 tag xmlmsg) [CHR 0x0A]"

definition new_foo_config :: "process_config \<Rightarrow> string list \<Rightarrow> hash \<Rightarrow> string list option" where
  "new_foo_config cfg environment xmlmsg =
     (let target = text_of ''target'' xmlmsg; header = text_of ''header'' xmlmsg in
      if target \<noteq> [] \<and> target \<noteq> ServerSourceAddress cfg then None
      else Some (environment @ map (hook_variable xmlmsg) (filter (\<lambda>tag. tag \<noteq> header) (Subtags xmlmsg)) @
             [header @ ''=1'']))"

definition trigger_action_foo :: "string list \<Rightarrow> hash \<Rightarrow> string list" where
  "trigger_action_foo environment xmlmsg =
     environment @ map (hook_variable xmlmsg) (Subtags xmlmsg) @ [''xml='' @ String xmlmsg]"

text \<open>
  The hook that detects the hardware, with the same environment. Its result is sent if it
  comes before the timeout, a default otherwise; nothing but the timeout ends the waiting for
  a hook that fails. \<open>hook\<close> is when the hook ends (in seconds) and what it returns.
\<close>

function remove_all :: "string \<Rightarrow> hash \<Rightarrow> hash" where
  "remove_all tag h = (if First tag h = None then h else remove_all tag (drop_first tag h))"
  by pat_completeness auto
termination
  by (relation "measure (\<lambda>(tag, h). length (get1 tag h))") (auto simp: First_None_iff)

declare remove_all.simps [simp del]

definition detected_message :: "process_config \<Rightarrow> string \<Rightarrow> hash \<Rightarrow> hash" where
  "detected_message cfg server hwlist =
     Add ''target'' [server] (Add ''source'' [ServerSourceAddress cfg] (Add ''header'' [''detected_hardware''] hwlist))"

definition detect_hardware :: "process_config \<Rightarrow> nat \<Rightarrow> nat \<times> hash result \<Rightarrow> hash \<Rightarrow> (string \<times> string) option" where
  "detect_hardware cfg timeout hook xmlmsg =
     (let server = text_of ''source'' xmlmsg in
      if server = [] then None
      else Some (server, String (detected_message cfg server
        (case hook of
           (t, Inr hwlist) \<Rightarrow>
             if t < timeout then remove_all ''dn'' hwlist
             else NewHash ''xml'' [''detected_hardware'', ''ghCpuType'', ''Z80/4Mhz'']
         | (t, Inl err) \<Rightarrow> NewHash ''xml'' [''detected_hardware'', ''ghCpuType'', ''Z80/4Mhz'']))))"

section \<open>Is a machine on\<close>

text \<open>
  The address to try: that of the client or server with this MAC address, or else the ports of
  clients at the address of its name. \<open>dial\<close> says after how many milliseconds a connection is
  made, if it is; an answer that takes 100 milliseconds is too late.
\<close>

definition ping_targets :: "system_config \<Rightarrow> directory \<Rightarrow> clientdb \<Rightarrow> hash \<Rightarrow> string \<Rightarrow> string list" where
  "ping_targets cfg env clientsdb serverdb macaddress =
     (case ClientWithMAC macaddress clientsdb of
        Some client \<Rightarrow> if text_of ''client'' client = [] then [] else [text_of ''client'' client]
      | None \<Rightarrow>
          (case ServerWithMAC macaddress serverdb of
             Some s \<Rightarrow> if text_of ''source'' s = [] then [] else [text_of ''source'' s]
           | None \<Rightarrow>
               (let name = SystemFullyQualifiedNameForMAC cfg env macaddress in
                if name = ''none'' then []
                else (case Resolve env name of
                        Inl err \<Rightarrow> []
                      | Inr addr \<Rightarrow> if addr = [] then [] else map (\<lambda>port. addr @ '':'' @ port) (ClientPorts cfg)))))"

definition GosaPing :: "(string \<Rightarrow> nat option) \<Rightarrow> string list \<Rightarrow> bool" where
  "GosaPing dial targets \<longleftrightarrow> list_ex (\<lambda>a. case dial a of None \<Rightarrow> False | Some ms \<Rightarrow> ms < 100) targets"

definition gosa_ping :: "(string \<Rightarrow> nat option) \<Rightarrow> system_config \<Rightarrow> directory \<Rightarrow> clientdb \<Rightarrow> hash \<Rightarrow> hash \<Rightarrow> string" where
  "gosa_ping dial cfg env clientsdb serverdb xmlmsg =
     (let macaddress = text_of ''target'' xmlmsg in
      if GosaPing dial (ping_targets cfg env clientsdb serverdb macaddress)
      then ''<xml><header>got_new_ping</header><got_new_ping></got_new_ping></xml>'' else [])"

section \<open>What an activation does\<close>

lemma get1_FirstOrAdd_set: "get1 t (FirstOrAdd t (SetText [v]) h) = v # tl (get1 t h)"
  using get1_set_field_same [of t v h] by (simp add: set_field_def)

lemma fallbacks_fields:
  "get1 ''dn'' (activation_fallbacks cfg s) = get1 ''dn'' s"
  "get1 ''macaddress'' (activation_fallbacks cfg s) = get1 ''macaddress'' s"
  "First ''gotomode'' (activation_fallbacks cfg s) \<noteq> None \<and> hd (get1 ''gotomode'' (activation_fallbacks cfg s)) = ''active''"
  "First ''faistate'' (activation_fallbacks cfg s) \<noteq> None"
  "First ''objectclass'' (activation_fallbacks cfg s) \<noteq> None"
  by (auto simp: activation_fallbacks_def Let_def get1_Add First_None_iff)

lemma activated_system_shape:
  assumes "activated_system cfg env macaddress ou ip existing_sys template = (system, groups)"
  shows "\<exists>s. system = activation_fallbacks cfg s \<and>
    (case existing_sys of
       None \<Rightarrow> get1 ''dn'' s = [''cn='' @ CNAutoPrefix cfg @ replace_colons macaddress @ CNAutoSuffix cfg @ '','' @ ou] \<and>
         get1 ''macaddress'' s = [macaddress]
     | Some e \<Rightarrow> get1 ''dn'' s = (''cn='' @ text_of ''cn'' e @ '','' @ ou) # tl (get1 ''dn'' e))"
proof (cases existing_sys)
  case None
  let ?s0 = "Add ''cn'' [CNAutoPrefix cfg @ replace_colons macaddress @ CNAutoSuffix cfg]
      (Add ''macaddress'' [macaddress] (NewHash ''xml'' []))"
  let ?s1 = "set_field ''dn'' (''cn='' @ text_of ''cn'' ?s0 @ '','' @ ou) ?s0"
  let ?dn = "''cn='' @ CNAutoPrefix cfg @ replace_colons macaddress @ CNAutoSuffix cfg @ '','' @ ou"
  have "text_of ''cn'' ?s0 = CNAutoPrefix cfg @ replace_colons macaddress @ CNAutoSuffix cfg"
    by (simp add: text_of_eq get1_Add get1_New)
  then have s1: "get1 ''dn'' ?s1 = [?dn]" "get1 ''macaddress'' ?s1 = [macaddress]"
    by (simp_all add: get1_Add get1_New)
  define s2 where "s2 = (case template of None \<Rightarrow> ?s1 | Some t \<Rightarrow> SystemFillInMissingData ?s1 t)"
  have s2: "get1 ''dn'' s2 = [?dn]" "get1 ''macaddress'' s2 = [macaddress]"
    using s1 filled_attribute(1,3) [where system = ?s1]
    by (simp_all add: s2_def del: get1_set_field_same get1_set_field_other split: option.split)
  define s3 where "s3 = (if ip \<noteq> [] then set_field ''iphostnumber'' ip (drop_first ''iphostnumber'' s2)
    else drop_first ''iphostnumber'' s2)"
  have "system = activation_fallbacks cfg s3"
    using assms by (auto simp: None activated_system_def s3_def s2_def Let_def split: option.splits if_splits)
  then show ?thesis
    using s2 by (intro exI [of _ s3]) (simp add: None s3_def)
next
  case (Some e)
  let ?s1 = "set_field ''dn'' (''cn='' @ text_of ''cn'' (Clone e) @ '','' @ ou) (Clone e)"
  define s3 where "s3 = (if ip \<noteq> [] then set_field ''iphostnumber'' ip ?s1 else ?s1)"
  have "system = activation_fallbacks cfg s3"
    using assms by (auto simp: Some activated_system_def s3_def Let_def split: if_splits)
  then show ?thesis by (intro exI [of _ s3]) (simp add: Some s3_def)
qed

lemma activated_system_fields:
  assumes "activated_system cfg env macaddress ou ip existing_sys template = (system, groups)"
    and "\<And>e. existing_sys = Some e \<Longrightarrow> length (get1 ''dn'' e) = 1"
  shows "\<exists>cn. text_of ''dn'' system = ''cn='' @ cn @ '','' @ ou"
    and "hd (get1 ''gotomode'' system) = ''active''" and "First ''faistate'' system \<noteq> None"
    and "First ''objectclass'' system \<noteq> None"
    and "existing_sys = None \<Longrightarrow> get1 ''macaddress'' system = [macaddress]"
proof -
  obtain s where s: "system = activation_fallbacks cfg s"
    and dn: "case existing_sys of
       None \<Rightarrow> get1 ''dn'' s = [''cn='' @ CNAutoPrefix cfg @ replace_colons macaddress @ CNAutoSuffix cfg @ '','' @ ou] \<and>
         get1 ''macaddress'' s = [macaddress]
     | Some e \<Rightarrow> get1 ''dn'' s = (''cn='' @ text_of ''cn'' e @ '','' @ ou) # tl (get1 ''dn'' e)"
    using activated_system_shape [OF assms(1)] by blast
  have one: "tl (get1 ''dn'' e) = []" if "existing_sys = Some e" for e
    using assms(2) [OF that] by (cases "get1 ''dn'' e") auto
  have "\<exists>cn. get1 ''dn'' system = [''cn='' @ cn @ '','' @ ou]"
  proof (cases existing_sys)
    case None
    with dn show ?thesis
      by (intro exI [of _ "CNAutoPrefix cfg @ replace_colons macaddress @ CNAutoSuffix cfg"]) (simp add: s fallbacks_fields)
  next
    case (Some e)
    with dn one show ?thesis by (auto simp: s fallbacks_fields)
  qed
  then show "\<exists>cn. text_of ''dn'' system = ''cn='' @ cn @ '','' @ ou" by (auto simp: text_of_eq)
  show "hd (get1 ''gotomode'' system) = ''active''" "First ''faistate'' system \<noteq> None" "First ''objectclass'' system \<noteq> None"
    unfolding s by (simp_all add: fallbacks_fields)
  show "get1 ''macaddress'' system = [macaddress]" if "existing_sys = None"
    using that dn by (simp add: s fallbacks_fields)
qed

text \<open>Whether an answer says that the request was refused.\<close>

definition refused :: "hash \<Rightarrow> bool" where
  "refused reply \<longleftrightarrow> First ''error_string'' reply \<noteq> None"

lemma refused_replies: "refused (ErrorReplyXML cfg msg)" "\<not> refused (ok_answer cfg xmlmsg)"
proof -
  have "get1 ''error_string'' (NewHash ''xml'' [''header'', ''answer'']) = []" by code_simp
  then show "refused (ErrorReplyXML cfg msg)" "\<not> refused (ok_answer cfg xmlmsg)"
    by (simp_all add: refused_def ErrorReplyXML_def ok_answer_def First_None_iff get1_Add del: NewHash.simps)
qed

lemma existing_has_one_dn:
  "client_data (SystemGetAllDataForMAC cfg env macaddress False) = Some e \<Longrightarrow> length (get1 ''dn'' e) = 1"
  by (auto simp: client_data_def SystemGetAllDataForMAC_def split: sum.splits list.splits)

lemma activate_system_effects:
  assumes "activate_system cfg env env' ids now xmlmsg macaddress existing_sys template ou w = (w', reply)"
    and "activated_system cfg env macaddress ou (activation_ip (Systems cfg) env xmlmsg) existing_sys template = (system, groups)"
  shows "if refused reply
    then job_db w' = job_db w \<and> existing_sys = None \<and>
      fst (SystemReplace (Systems cfg) env existing_sys (Some system)) \<noteq> None
    else job_db w' = fst (JobAddLocal ids (install_job (Process cfg) macaddress
        (if text_of ''timestamp'' xmlmsg = [] then now else text_of ''timestamp'' xmlmsg)) (job_db w)) \<and>
      (\<exists>told. effects w' = effects w @
        map Run_ldapmodify (groups @ snd (SystemReplace (Systems cfg) env existing_sys (Some system))) @ told)"
proof -
  obtain err cmds where r: "SystemReplace (Systems cfg) env existing_sys (Some system) = (err, cmds)"
    by (cases "SystemReplace (Systems cfg) env existing_sys (Some system)")
  show ?thesis
    using assms(1) unfolding activate_system_def Let_def assms(2) r
    by (auto simp: r does_def refused_replies split: option.splits if_splits)
qed

lemma HasSuffix_append: "HasSuffix (s @ p) p"
  by (simp add: HasSuffix_def)


definition example_activation :: hash where
  "example_activation = Hash ''xml'' [Sub (Hash ''header'' [Txt ''job_trigger_activate_new'']),
     Sub (Hash ''macaddress'' [Txt ''00:11:22:33:44:5a'']), Sub (Hash ''ip'' [Txt ''10.0.0.7''])]"


text \<open>
  What goes wrong: the name in fqdn is never looked up; a machine whose lookup fails counts as
  a new one; a member of an object group whose dn has no = panics.
\<close>

lemma fqdn_is_not_looked_up:
  "text_of ''ip'' m = [] \<Longrightarrow> text_of ''fqdn'' m \<noteq> [] \<Longrightarrow> own_text m = [] \<Longrightarrow>
    activation_ip cfg env m = (if SystemIPAddressForName cfg env [] = ''none'' then [] else SystemIPAddressForName cfg env [])"
  by (simp add: activation_ip_def Let_def)

lemma failed_lookup_is_a_new_machine:
  "client_data (SystemGetAllDataForMAC cfg (example_directory (\<lambda>a. Inl err)) macaddress False) = None"
  by (simp add: client_data_def no_directory)

lemma bad_member_panics: "first_member cfg env [''member''] = outcome.Panics"
proof -
  have "member_name ''member'' = outcome.Panics" by code_simp
  then show ?thesis by simp
qed

text \<open>The hardware that is reported has no dn, whatever the hook says.\<close>

lemma remove_all_removes: "get1 tag (remove_all tag h) = []"
proof (induction tag h rule: remove_all.induct)
  case (1 tag h)
  then show ?case by (subst remove_all.simps) (auto simp: First_None_iff)
qed

lemma reported_hardware_has_no_dn:
  "get1 ''dn'' (detected_message cfg server (remove_all ''dn'' hwlist)) = []"
  by (simp add: detected_message_def get1_Add remove_all_removes)

end
