(* ===== verification/Settings.thy ===== *)
theory Settings
  imports GoRegexp Addresses "HOL-Library.AList"
begin

text \<open>
  The settings of the program, go-susi/config/config.go: the command line, the configuration
  files, the rules by which the network interface is chosen that the program stands for, and
  the broadcast address.

  What the operating system and the name service answer are arguments; so are
  \<open>regexp.Compile\<close> and \<open>MatchString\<close> for patterns of the user.
\<close>

section \<open>The command line\<close>

record program_args =
  LogLevel :: nat
  FreshDatabase :: bool
  LogFilePath :: string
  FAILogPath :: string
  PackageCacheDir :: string
  ServerConfigPath :: string
  ClientConfigPath :: string
  ServersOUConfigPath :: string
  JobDBPath :: string
  ServerDBPath :: string
  ClientDBPath :: string
  CACertPath :: "string list"
  CertPath :: string
  CertKeyPath :: string
  PrintHelp :: bool
  PrintVersion :: bool
  PrintStats :: bool

definition default_args :: program_args where
  "default_args = \<lparr>LogLevel = 0, FreshDatabase = False, LogFilePath = ''/var/log/go-susi.log'',
     FAILogPath = ''/var/log/fai'', PackageCacheDir = ''/var/lib/go-susi'',
     ServerConfigPath = ''/etc/gosa-si/server.conf'', ClientConfigPath = ''/etc/gosa-si/client.conf'',
     ServersOUConfigPath = ''/etc/gosa/ou=servers.conf'', JobDBPath = ''/var/lib/go-susi/jobdb.xml'',
     ServerDBPath = ''/var/lib/go-susi/serverdb.xml'', ClientDBPath = ''/var/lib/go-susi/clientdb.xml'',
     CACertPath = [''/etc/gosa-si/ca.cert''], CertPath = ''/etc/gosa-si/si.cert'',
     CertKeyPath = ''/etc/gosa-si/si.key'', PrintHelp = False, PrintVersion = False, PrintStats = False\<rparr>"

definition test_paths :: "string \<Rightarrow> program_args \<Rightarrow> program_args" where
  "test_paths testdir st =
     st\<lparr>LogFilePath := testdir @ ''/go-susi.log'', ServerConfigPath := testdir @ ''/server.conf'',
        ServersOUConfigPath := testdir @ ''/ou=servers.conf'', ClientConfigPath := testdir @ ''/client.conf'',
        JobDBPath := testdir @ ''/jobdb.xml'', ServerDBPath := testdir @ ''/serverdb.xml'',
        ClientDBPath := testdir @ ''/clientdb.xml'', CACertPath := [testdir @ ''/ca.cert''],
        CertPath := testdir @ ''/si.cert'', CertKeyPath := testdir @ ''/si.key'',
        PackageCacheDir := testdir, FAILogPath := testdir\<rparr>"

fun read_args :: "string list \<Rightarrow> program_args \<Rightarrow> program_args" where
  "read_args [] st = st"
| "read_args (arg # args) st =
     (if arg \<in> set (map (\<lambda>n. CHR ''-'' # replicate n CHR ''v'') [1, 2, 3, 4, 5, 6, 7])
      then read_args args (st\<lparr>LogLevel := length arg - 1\<rparr>)
      else if arg = ''-f'' then read_args args (st\<lparr>FreshDatabase := True\<rparr>)
      else if HasPrefix arg ''--test='' then read_args args (test_paths (drop 7 arg) st)
      else if arg = ''-c'' then
        (case args of
           [] \<Rightarrow> st
         | path # args \<Rightarrow> read_args args (st\<lparr>ServerConfigPath := path, ClientConfigPath := []\<rparr>))
      else if arg = ''--help'' then read_args args (st\<lparr>PrintHelp := True\<rparr>)
      else if arg = ''--version'' then read_args args (st\<lparr>PrintVersion := True\<rparr>)
      else if arg = ''--stats'' then read_args args (st\<lparr>PrintStats := True\<rparr>)
      else read_args args st)"

definition ReadArgs :: "string list \<Rightarrow> program_args \<Rightarrow> program_args" where
  "ReadArgs args st = read_args args (st\<lparr>LogLevel := 0\<rparr>)"

section \<open>The configuration files\<close>

text \<open>
  A section is a map from keys to values; conf has the sections seen so far. The mappings of
  section [tftp] are kept apart, in their order.
\<close>

type_synonym conf = "string \<Rightarrow> (string \<Rightarrow> string option) option"

record config_reader =
  current_section :: string
  sections :: conf
  tftp_mappings :: "(string \<times> string) list"

definition uncomment :: "string \<Rightarrow> string" where
  "uncomment line = TrimSpace (takeWhile (\<lambda>c. c \<noteq> CHR ''#'') line)"

definition is_section :: "string \<Rightarrow> bool" where
  "is_section line \<longleftrightarrow> length line > 2 \<and> hd line = CHR ''['' \<and> last line = CHR '']''"

definition enter_section :: "string \<Rightarrow> config_reader \<Rightarrow> config_reader" where
  "enter_section line st =
     st\<lparr>current_section := line,
        sections := (if sections st line = None then (sections st)(line := Some (\<lambda>k. None)) else sections st)\<rparr>"

definition set_key :: "string \<Rightarrow> string \<Rightarrow> config_reader \<Rightarrow> config_reader" where
  "set_key key v st =
     (if key = [] then st
      else if current_section st = ''[tftp]'' \<and> hd key = CHR ''/'' \<and> length key \<ge> 2
      then st\<lparr>tftp_mappings := tftp_mappings st @ [(tl key, v)]\<rparr>
      else st\<lparr>sections := (sections st)(current_section st :=
             map_option (\<lambda>m. m(key := Some v)) (sections st (current_section st)))\<rparr>)"

definition read_line :: "string \<Rightarrow> config_reader \<Rightarrow> config_reader" where
  "read_line line st =
     (let line = uncomment line;
          st = (if is_section line then enter_section line st else st)
      in case Index line CHR ''='' of
           None \<Rightarrow> st
         | Some i \<Rightarrow> set_key (TrimSpace (take i line)) (TrimSpace (drop (Suc i) line)) st)"

text \<open>
  The lines that \<open>ReadString\<close> returns without an error: a last line that does not end in a
  line break is not among them. Each file starts outside any section; a file that does not
  exist is None.
\<close>

definition full_lines :: "string \<Rightarrow> string list" where
  "full_lines content = butlast (Split content CHR 0x0A)"

definition read_config_file :: "string option \<Rightarrow> config_reader \<Rightarrow> config_reader" where
  "read_config_file file st =
     (case file of None \<Rightarrow> st
      | Some content \<Rightarrow> fold read_line (full_lines content) (st\<lparr>current_section := []\<rparr>))"

definition read_config_files :: "(string \<Rightarrow> string option) \<Rightarrow> program_args \<Rightarrow> config_reader" where
  "read_config_files fs args =
     fold (\<lambda>path st. if path = [] then st else read_config_file (fs path) st)
       [ClientConfigPath args, ServerConfigPath args]
       \<lparr>current_section = [], sections = (\<lambda>s. if s = [] then Some (\<lambda>k. None) else None), tftp_mappings = []\<rparr>"

text \<open>\<open>if v, ok := section[key]; ok { ... }\<close>\<close>

definition on_key :: "(string \<Rightarrow> string option) \<Rightarrow> string \<Rightarrow> (string \<Rightarrow> 'a \<Rightarrow> 'a) \<Rightarrow> 'a \<Rightarrow> 'a" where
  "on_key sect key f x = (case sect key of None \<Rightarrow> x | Some v \<Rightarrow> f v x)"

definition on_section :: "conf \<Rightarrow> string \<Rightarrow> ((string \<Rightarrow> string option) \<Rightarrow> 'a \<Rightarrow> 'a) \<Rightarrow> 'a \<Rightarrow> 'a" where
  "on_section conf name f x = (case conf name of None \<Rightarrow> x | Some sect \<Rightarrow> f sect x)"

subsection \<open>Hooks\<close>

record hook_paths =
  KernelListHookPath :: string
  PackageListHookPath :: string
  UserMessageHookPath :: string
  pxeLinuxCfgHookPath :: string
  NewConfigHookPath :: string
  TriggerActionHookPath :: string
  RegisteredHookPath :: string
  ActivatedHookPath :: string
  DetectHardwareHookPath :: string
  FAIProgressHookPath :: string
  FAISavelogHookPath :: string
  FAIAuditHookPath :: string

definition default_hooks :: hook_paths where
  "default_hooks = \<lparr>KernelListHookPath = ''/usr/lib/go-susi/generate_kernel_list'',
     PackageListHookPath = ''/usr/lib/go-susi/generate_package_list'',
     UserMessageHookPath = ''/usr/lib/go-susi/send_user_msg'',
     pxeLinuxCfgHookPath = ''/usr/lib/go-susi/generate_pxelinux_cfg'',
     NewConfigHookPath = ''/usr/lib/go-susi/update_config_files'',
     TriggerActionHookPath = ''/usr/lib/go-susi/trigger_action'',
     RegisteredHookPath = ''/usr/lib/go-susi/registered'',
     ActivatedHookPath = ''/usr/lib/go-susi/activated'',
     DetectHardwareHookPath = ''/usr/lib/go-susi/detect_hardware'',
     FAIProgressHookPath = ''/usr/lib/go-susi/fai_progress'',
     FAISavelogHookPath = ''/usr/lib/go-susi/fai_savelog'',
     FAIAuditHookPath = ''/usr/lib/go-susi/fai_audit''\<rparr>"

definition general_hooks :: "(string \<Rightarrow> string option) \<Rightarrow> hook_paths \<Rightarrow> hook_paths" where
  "general_hooks g =
     on_key g ''fai-audit-hook'' (\<lambda>v. FAIAuditHookPath_update (\<lambda>_. v)) \<circ>
     on_key g ''fai-savelog-hook'' (\<lambda>v. FAISavelogHookPath_update (\<lambda>_. v)) \<circ>
     on_key g ''fai-progress-hook'' (\<lambda>v. FAIProgressHookPath_update (\<lambda>_. v)) \<circ>
     on_key g ''detect-hardware-hook'' (\<lambda>v. DetectHardwareHookPath_update (\<lambda>_. v)) \<circ>
     on_key g ''activated-hook'' (\<lambda>v. ActivatedHookPath_update (\<lambda>_. v)) \<circ>
     on_key g ''registered-hook'' (\<lambda>v. RegisteredHookPath_update (\<lambda>_. v)) \<circ>
     on_key g ''trigger-action-hook'' (\<lambda>v. TriggerActionHookPath_update (\<lambda>_. v)) \<circ>
     on_key g ''new-config-hook'' (\<lambda>v. NewConfigHookPath_update (\<lambda>_. v)) \<circ>
     on_key g ''pxelinux-cfg-hook'' (\<lambda>v. pxeLinuxCfgHookPath_update (\<lambda>_. v)) \<circ>
     on_key g ''user-msg-hook'' (\<lambda>v. UserMessageHookPath_update (\<lambda>_. v)) \<circ>
     on_key g ''package-list-hook'' (\<lambda>v. PackageListHookPath_update (\<lambda>_. v)) \<circ>
     on_key g ''kernel-list-hook'' (\<lambda>v. KernelListHookPath_update (\<lambda>_. v))"

section \<open>Which network interface\<close>

text \<open>
  A rule [WEIGHT:]PROPERTY~REGEX or with !~. \<open>'re\<close> is a compiled expression. \<open>Auto\<close> says that
  the rule had no weight; its number is in the list \<open>autoweight\<close> of the code then.
\<close>

record 're net_rule =
  Weight :: int
  Propname :: string
  Regex :: 're
  InvertMatch :: bool
  Auto :: bool

text \<open>
  \<open>ndrRegexp\<close>, \<open>(?:([-+]?[1-9][0-9]*):)?([a-z]+)(!?~)(.*)\<close>: the four groups of the leftmost
  match, in a word without white space. The letters end before the ~, so from a given position
  there is one way to match with the weight and one without it.
\<close>

definition is_lower :: "char \<Rightarrow> bool" where
  "is_lower = in_class [(CHR ''a'', CHR ''z'')]"

definition rule_body :: "string \<Rightarrow> (string \<times> bool \<times> string) option" where
  "rule_body s =
     (let prop = takeWhile is_lower s; r = dropWhile is_lower s
      in if prop = [] then None
         else if HasPrefix r [CHR 0x21, CHR ''~''] then Some (prop, True, drop 2 r)
         else if HasPrefix r ''~'' then Some (prop, False, drop 1 r)
         else None)"

definition rule_weight :: "string \<Rightarrow> (string \<times> string) option" where
  "rule_weight s =
     (let sign = (if HasPrefix s ''-'' \<or> HasPrefix s ''+'' then take 1 s else []);
          digits = takeWhile is_digit (drop (length sign) s);
          r = drop (length sign + length digits) s
      in if digits \<noteq> [] \<and> hd digits \<noteq> CHR ''0'' \<and> HasPrefix r '':'' then Some (sign @ digits, tl r) else None)"

definition rule_at :: "string \<Rightarrow> (string \<times> string \<times> bool \<times> string) option" where
  "rule_at s =
     (case rule_weight s of
        None \<Rightarrow> map_option (Pair []) (rule_body s)
      | Some (weight, r) \<Rightarrow>
          (case rule_body r of
             None \<Rightarrow> map_option (Pair []) (rule_body s)
           | Some m \<Rightarrow> Some (weight, m)))"

fun find_rule :: "string \<Rightarrow> (string \<times> string \<times> bool \<times> string) option" where
  "find_rule [] = None"
| "find_rule (c # s) = (case rule_at (c # s) of None \<Rightarrow> find_rule s | Some m \<Rightarrow> Some m)"

definition net_properties :: "string list" where
  "net_properties = [''mac'', ''ifname'', ''ip'', ''hostname'', ''domain'', ''srv'', ''loopback'', ''up'']"

text \<open>
  One word of a ruleset. A rule without a weight gets the weight 1 and doubles those before it
  that had none either; this happens before the rest of the word is looked at.
\<close>

definition doubled :: "'re net_rule \<Rightarrow> 're net_rule" where
  "doubled r = (if Auto r then r\<lparr>Weight := signed_take_bit 63 (2 * Weight r)\<rparr> else r)"

definition parse_rule ::
  "(string \<Rightarrow> 're option) \<Rightarrow> string \<Rightarrow> 're net_rule list \<Rightarrow> 're net_rule list option" where
  "parse_rule compile w rs =
     (case find_rule w of
        None \<Rightarrow> None
      | Some (weight, prop, invert, pattern) \<Rightarrow>
          (case (if weight = [] then Some 1 else ParseInt weight) of
             None \<Rightarrow> None
           | Some n \<Rightarrow>
               if prop \<notin> set net_properties then None
               else map_option (\<lambda>re.
                 (if weight = [] then map doubled rs else rs) @
                 [\<lparr>Weight = n, Propname = prop, Regex = re, InvertMatch = invert, Auto = (weight = [])\<rparr>])
                 (compile pattern)))"

fun parse_rules ::
  "(string \<Rightarrow> 're option) \<Rightarrow> string list \<Rightarrow> 're net_rule list \<Rightarrow> 're net_rule list option" where
  "parse_rules compile [] rs = Some rs"
| "parse_rules compile (w # ws) rs =
     (case parse_rule compile w rs of None \<Rightarrow> None | Some rs \<Rightarrow> parse_rules compile ws rs)"

text \<open>None is nil: the ruleset is not valid.\<close>

definition parseNetworkDetectRuleset :: "(string \<Rightarrow> 're option) \<Rightarrow> string \<Rightarrow> 're net_rule list option" where
  "parseNetworkDetectRuleset compile ruleset = parse_rules compile (Fields ruleset) []"

text \<open>
  An interface is a map from properties to values; what is missing is the empty string.
\<close>

type_synonym net_interface = "string \<Rightarrow> string"

definition rule_holds :: "('re \<Rightarrow> string \<Rightarrow> bool) \<Rightarrow> net_interface \<Rightarrow> 're net_rule \<Rightarrow> bool" where
  "rule_holds match iface r \<longleftrightarrow> match (Regex r) (iface (Propname r)) \<noteq> InvertMatch r"

definition interface_weight :: "('re \<Rightarrow> string \<Rightarrow> bool) \<Rightarrow> 're net_rule list \<Rightarrow> net_interface \<Rightarrow> int" where
  "interface_weight match ruleset iface =
     fold (\<lambda>r weight. if rule_holds match iface r then signed_take_bit 63 (weight + Weight r) else weight) ruleset 0"

fun best_of :: "(net_interface \<Rightarrow> int) \<Rightarrow> net_interface list \<Rightarrow> int \<Rightarrow> net_interface \<Rightarrow> net_interface" where
  "best_of weight [] bestweight bestiface = bestiface"
| "best_of weight (i # is) bestweight bestiface =
     (if weight i > bestweight then best_of weight is (weight i) i else best_of weight is bestweight bestiface)"

definition bestInterface :: "('re \<Rightarrow> string \<Rightarrow> bool) \<Rightarrow> net_interface list \<Rightarrow> 're net_rule list \<Rightarrow> net_interface" where
  "bestInterface match ifaces ruleset =
     (case ifaces of
        [] \<Rightarrow> (\<lambda>p. [])
      | i # is \<Rightarrow> best_of (interface_weight match ruleset) ifaces 0 i)"

definition determineNetworkID ::
  "('re \<Rightarrow> string \<Rightarrow> bool) \<Rightarrow> net_interface list \<Rightarrow> string \<Rightarrow> string \<Rightarrow> 're net_rule list option \<Rightarrow> string" where
  "determineNetworkID match ifaces propname hardwired ruleset =
     (if hardwired \<noteq> [] then hardwired
      else bestInterface match ifaces (case ruleset of None \<Rightarrow> [] | Some rs \<Rightarrow> rs) propname)"

subsection \<open>What the settings say of it\<close>

record 're network =
  MAC :: string
  MACDetect :: "'re net_rule list option"
  IP :: string
  IPDetect :: "'re net_rule list option"
  Hostname :: string
  HostnameDetect :: "'re net_rule list option"
  DomainName :: string
  DomainDetect :: "'re net_rule list option"

definition unset_network :: "'re network" where
  "unset_network = \<lparr>MAC = [], MACDetect = None, IP = [], IPDetect = None, Hostname = [],
     HostnameDetect = None, DomainName = [], DomainDetect = None\<rparr>"

definition ipRegexp :: rx where
  "ipRegexp = Cat ip_part (exactly 3 (Cat (the_char (CHR ''.'')) ip_part))"

text \<open>\<open>hostnameRegexp\<close> and \<open>domainRegexp\<close>: a label, and labels with dots between them.\<close>

definition is_alnum :: "char \<Rightarrow> bool" where
  "is_alnum = in_class [(CHR ''A'', CHR ''Z''), (CHR ''a'', CHR ''z''), (CHR ''0'', CHR ''9'')]"

definition valid_hostname :: "string \<Rightarrow> bool" where
  "valid_hostname s \<longleftrightarrow> s \<noteq> [] \<and> is_alnum (hd s) \<and> is_alnum (last s) \<and>
     list_all (\<lambda>c. is_alnum c \<or> c = CHR ''-'') s"

definition valid_domain :: "string \<Rightarrow> bool" where
  "valid_domain s \<longleftrightarrow> list_all valid_hostname (Split s CHR ''.'')"

text \<open>A setting is the value itself or, if it does not look like one, a ruleset.\<close>

definition literal_or_rules ::
  "(string \<Rightarrow> 're option) \<Rightarrow> (string \<Rightarrow> bool) \<Rightarrow> string \<Rightarrow> string \<times> 're net_rule list option" where
  "literal_or_rules compile literal v =
     (let v = ToLower v in if literal v then (v, None) else ([], parseNetworkDetectRuleset compile v))"

definition network_settings :: "(string \<Rightarrow> 're option) \<Rightarrow> (string \<Rightarrow> string option) \<Rightarrow> 're network \<Rightarrow> 're network" where
  "network_settings compile sect =
     on_key sect ''my-domain'' (\<lambda>v n. case literal_or_rules compile valid_domain v of
       (d, rs) \<Rightarrow> n\<lparr>DomainName := d, DomainDetect := rs\<rparr>) \<circ>
     on_key sect ''my-hostname'' (\<lambda>v n. case literal_or_rules compile valid_hostname v of
       (h, rs) \<Rightarrow> n\<lparr>Hostname := h, HostnameDetect := rs\<rparr>) \<circ>
     on_key sect ''my-ip'' (\<lambda>v n. case literal_or_rules compile (matches_whole ipRegexp) v of
       (ip, rs) \<Rightarrow> n\<lparr>IP := ip, IPDetect := rs\<rparr>) \<circ>
     on_key sect ''my-mac'' (\<lambda>v n. case literal_or_rules compile (matches_whole macAddressRegexp) v of
       (mac, rs) \<Rightarrow> n\<lparr>MAC := mac, MACDetect := rs\<rparr>)"

text \<open>The first ruleset of a list that is not nil.\<close>

definition first_rules :: "'re net_rule list option list \<Rightarrow> 're net_rule list option" where
  "first_rules rss = (case find (\<lambda>rs. rs \<noteq> None) rss of None \<Rightarrow> None | Some rs \<Rightarrow> rs)"

definition FillInNetworkDetectionDefaults :: "'re net_rule list option \<Rightarrow> 're network \<Rightarrow> 're network" where
  "FillInNetworkDetectionDefaults InterfaceDetect n =
     (let n = (if MAC n = [] \<and> MACDetect n = None then n\<lparr>MACDetect := InterfaceDetect\<rparr> else n);
          n = (if IP n = [] \<and> IPDetect n = None
               then n\<lparr>IPDetect := if MACDetect n \<noteq> None then MACDetect n else InterfaceDetect\<rparr> else n);
          n = (if DomainName n = [] \<and> DomainDetect n = None
               then n\<lparr>DomainDetect := first_rules [HostnameDetect n, IPDetect n, MACDetect n, InterfaceDetect]\<rparr> else n)
      in if Hostname n = [] \<and> HostnameDetect n = None
         then n\<lparr>HostnameDetect := first_rules [DomainDetect n, IPDetect n, MACDetect n, InterfaceDetect]\<rparr> else n)"

definition interface_rules :: string where
  "interface_rules = ''up~yes loopback~no srv~yes domain'' @ [CHR 0x21] @ ''~^$ ip'' @ [CHR 0x21] @ ''~^0.0.0.0$''"

section \<open>The settings\<close>

record 're settings =
  Args :: program_args
  Hooks :: hook_paths
  ModuleKeys :: "string list"
  ModuleKey :: "(string \<times> string) list"
  TLSRequired :: bool
  DNSLookup :: bool
  RunServer :: bool
  ServerSourceAddress :: string
  ServerListenAddress :: string
  PreferredServer :: string
  LDAPURI :: string
  LDAPBase :: string
  IncomingOU :: string
  LDAPAdmin :: string
  LDAPUser :: string
  LDAPAdminPassword :: string
  LDAPUserPassword :: string
  LDAPServerOUs :: "string list"
  ClientPorts :: "string list"
  ExtraInfoFilePath :: string
  FAIMonPort :: string
  TFTPPort :: string
  TFTPRules :: "('re \<times> string) list"
  PeerServers :: "string list"
  LookupDomains :: "string list"
  Network :: "'re network"
  ServerIPsFromConfigFile :: "string list"
  ServerNamesFromConfigFile :: "string list"

definition default_settings :: "program_args \<Rightarrow> 're settings" where
  "default_settings args = \<lparr>Args = args, Hooks = default_hooks, ModuleKeys = [''dummy-key''],
     ModuleKey = [], TLSRequired = True, DNSLookup = True, RunServer = True,
     ServerSourceAddress = ''127.0.0.1:20081'', ServerListenAddress = '':20081'', PreferredServer = [],
     LDAPURI = ''ldap://localhost:389'', LDAPBase = ''c=de'', IncomingOU = ''ou=incoming,'',
     LDAPAdmin = [], LDAPUser = [], LDAPAdminPassword = [], LDAPUserPassword = [], LDAPServerOUs = [],
     ClientPorts = [''20083''], ExtraInfoFilePath = [], FAIMonPort = ''disabled'', TFTPPort = ''69'',
     TFTPRules = [], PeerServers = [], LookupDomains = [], Network = unset_network,
     ServerIPsFromConfigFile = [], ServerNamesFromConfigFile = []\<rparr>"

text \<open>
  The keys of the modules. Go visits the sections in an order of its own, \<open>visit\<close>.
\<close>

fun module_keys :: "conf \<Rightarrow> string list \<Rightarrow> 're settings \<Rightarrow> 're settings" where
  "module_keys conf [] st = st"
| "module_keys conf (name # visit) st =
     module_keys conf visit
       (on_section conf name (\<lambda>sect. on_key sect ''key'' (\<lambda>key st.
          st\<lparr>ModuleKeys := ModuleKeys st @ [key], ModuleKey := AList.update name key (ModuleKey st)\<rparr>)) st)"

definition general_section :: "(string \<Rightarrow> string option) \<Rightarrow> 're settings \<Rightarrow> 're settings" where
  "general_section g st =
     st\<lparr>Args := on_key g ''fai-log-dir'' (\<lambda>v a. a\<lparr>FAILogPath := v\<rparr>)
          (on_key g ''log-file'' (\<lambda>v a. a\<lparr>LogFilePath := v\<rparr>) (Args st)),
        Hooks := general_hooks g (Hooks st)\<rparr>"

definition dns_lookup :: "string \<Rightarrow> 're settings \<Rightarrow> 're settings" where
  "dns_lookup v st = st\<lparr>DNSLookup := (TrimSpace v = ''true'')\<rparr>"

definition with_port :: "string \<Rightarrow> string \<Rightarrow> string" where
  "with_port port address =
     (case Index address CHR '':'' of None \<Rightarrow> port | Some i \<Rightarrow> take (Suc i) address @ port)"

text \<open>None is the panic for an empty new-systems-base.\<close>

definition server_section :: "(string \<Rightarrow> string option) \<Rightarrow> 're settings \<Rightarrow> 're settings option" where
  "server_section sect st =
     (let st = on_key sect ''dns-lookup'' dns_lookup st;
          st = on_key sect ''port'' (\<lambda>v st. st\<lparr>ServerSourceAddress := with_port (TrimSpace v) (ServerSourceAddress st),
                 ServerListenAddress := with_port (TrimSpace v) (ServerListenAddress st)\<rparr>) st;
          st = on_key sect ''ip'' (\<lambda>v st. st\<lparr>PreferredServer := v\<rparr>) st;
          st = on_key sect ''ldap-uri'' (\<lambda>v st. st\<lparr>LDAPURI := v\<rparr>) st;
          st = on_key sect ''ldap-base'' (\<lambda>v st. st\<lparr>LDAPBase := v\<rparr>) st;
          st = on_key sect ''new-systems-base'' (\<lambda>v st. st\<lparr>IncomingOU := v\<rparr>) st
      in if IncomingOU st = [] then None
         else
           (let st = (if last (IncomingOU st) = CHR '','' then st\<lparr>IncomingOU := IncomingOU st @ LDAPBase st\<rparr> else st);
                st = on_key sect ''ldap-admin-dn'' (\<lambda>v st. st\<lparr>LDAPAdmin := v\<rparr>) st;
                st = on_key sect ''ldap-admin-password'' (\<lambda>v st. st\<lparr>LDAPAdminPassword := v\<rparr>) st;
                st = on_key sect ''ldap-user-dn'' (\<lambda>v st. st\<lparr>LDAPUser := v\<rparr>) st
            in Some (on_key sect ''ldap-user-password'' (\<lambda>v st. st\<lparr>LDAPUserPassword := v\<rparr>) st)))"

definition comma_fields :: "string \<Rightarrow> string list" where
  "comma_fields s = Fields (map (\<lambda>c. if c = CHR '','' then CHR '' '' else c) s)"

definition client_section :: "(string \<Rightarrow> string option) \<Rightarrow> 're settings \<Rightarrow> 're settings" where
  "client_section sect st =
     on_key sect ''extra-info-file'' (\<lambda>v st. st\<lparr>ExtraInfoFilePath := v\<rparr>)
       (on_key sect ''port'' (\<lambda>v st. st\<lparr>ClientPorts := comma_fields v\<rparr>) st)"

definition tls_section :: "(string \<Rightarrow> string option) \<Rightarrow> 're settings \<Rightarrow> 're settings" where
  "tls_section sect st =
     st\<lparr>Args := on_key sect ''keyfile'' (\<lambda>v a. a\<lparr>CertKeyPath := v\<rparr>)
          (on_key sect ''certificate'' (\<lambda>v a. a\<lparr>CertPath := v\<rparr>)
          (on_key sect ''ca-certificate'' (\<lambda>v a. a\<lparr>CACertPath := [v]\<rparr>) (Args st)))\<rparr>"

text \<open>
  The mappings of the TFTP server: those of the deprecated setting stand at the bottom of the
  stack, the last one of the files on top of it.
\<close>

definition mac_pattern :: string where
  "mac_pattern = ''^pxelinux.cfg/01-(?P<macaddress>[0-9a-f]{2}(-[0-9a-f]{2}){5})$''"

definition uuid_pattern :: string where
  "uuid_pattern = ''/^pxelinux.cfg/[0-9a-f]{8}(-[0-9a-f]{4}){3}-[0-9a-f]{12}$''"

definition all_mappings :: "string \<Rightarrow> (string \<times> string) list \<Rightarrow> (string \<times> string) list" where
  "all_mappings hook mappings =
     (if hook \<noteq> [] then [(uuid_pattern, []), (mac_pattern, CHR ''|'' # hook)] else []) @ mappings"

definition tftp_pattern :: "string \<Rightarrow> string" where
  "tftp_pattern p = (if hd p \<noteq> CHR ''^'' then CHR ''^'' # QuoteMeta p @ ''$'' else p)"

definition tftp_reply :: "string \<Rightarrow> string \<Rightarrow> string" where
  "tftp_reply p file =
     (if hd p \<noteq> CHR ''^'' then concat (map (\<lambda>c. if c = CHR ''$'' then ''$$'' else [c]) file) else file)"

definition tftp_rules :: "(string \<Rightarrow> 're option) \<Rightarrow> (string \<times> string) list \<Rightarrow> ('re \<times> string) list" where
  "tftp_rules compile mappings =
     List.map_filter (\<lambda>(p, file). map_option (\<lambda>re. (re, tftp_reply p file)) (compile (tftp_pattern p)))
       (rev mappings)"

definition packages_section :: "(string \<Rightarrow> string option) \<Rightarrow> 're settings \<Rightarrow> 're settings" where
  "packages_section sect st =
     (let st = on_key sect ''address'' (\<lambda>v st. if v \<noteq> [] then st\<lparr>PeerServers := PeerServers st @ comma_fields v\<rparr> else st) st;
          st = on_key sect ''dns-lookup'' dns_lookup st
      in on_key sect ''domains'' (\<lambda>v st. st\<lparr>LookupDomains := LookupDomains st @
           map (\<lambda>dom. if hd dom \<noteq> CHR ''.'' then CHR ''.'' # dom else dom) (comma_fields v)\<rparr>) st)"

text \<open>\<open>net.SplitHostPort\<close>, the host only.\<close>

definition SplitHost :: "string \<Rightarrow> string option" where
  "SplitHost s =
     (case LastIndex s CHR '':'' of
        None \<Rightarrow> None
      | Some i \<Rightarrow>
          if HasPrefix s ''['' then
            (case Index s CHR '']'' of
               None \<Rightarrow> None
             | Some e \<Rightarrow>
                 if Suc e \<noteq> i \<or> CHR ''['' \<in> set (drop 1 s) \<or> CHR '']'' \<in> set (drop (Suc e) s) then None
                 else Some (take (e - 1) (drop 1 s)))
          else if CHR '':'' \<in> set (take i s) \<or> CHR ''['' \<in> set s \<or> CHR '']'' \<in> set s then None
          else Some (take i s))"

definition configured_server :: "(string \<Rightarrow> string option) \<Rightarrow> string \<Rightarrow> 're settings \<Rightarrow> 're settings" where
  "configured_server ParseIP srv st =
     (case SplitHost srv of
        None \<Rightarrow> st
      | Some prefhost \<Rightarrow>
          (case ParseIP prefhost of
             Some ip \<Rightarrow> st\<lparr>ServerIPsFromConfigFile := ServerIPsFromConfigFile st @ [ip]\<rparr>
           | None \<Rightarrow> st\<lparr>ServerNamesFromConfigFile := ServerNamesFromConfigFile st @ [prefhost]\<rparr>))"

text \<open>What is in an address from its first colon on; ServerListenAddress always has one.\<close>

definition from_colon :: "string \<Rightarrow> string" where
  "from_colon address = dropWhile (\<lambda>c. c \<noteq> CHR '':'') address"

definition server_addresses :: "(string \<Rightarrow> string option) \<Rightarrow> 're settings \<Rightarrow> 're settings" where
  "server_addresses ParseIP st =
     (let st = (if LDAPAdmin st = [] then st\<lparr>RunServer := False\<rparr> else st);
          st = st\<lparr>ClientPorts := ClientPorts st @ [tl (from_colon (ServerListenAddress st))]\<rparr>;
          st = (if PreferredServer st \<noteq> [] \<and> CHR '':'' \<notin> set (PreferredServer st)
                then st\<lparr>PreferredServer := PreferredServer st @ from_colon (ServerListenAddress st)\<rparr> else st)
      in fold (configured_server ParseIP)
           (PeerServers st @ (if PreferredServer st \<noteq> [] then [PreferredServer st] else [])) st)"

definition server_ous :: "string option \<Rightarrow> string list" where
  "server_ous file =
     (case file of None \<Rightarrow> [] | Some content \<Rightarrow> filter (\<lambda>l. l \<noteq> []) (map TrimSpace (full_lines content)))"

definition ReadConfig ::
  "(string \<Rightarrow> 're option) \<Rightarrow> (string \<Rightarrow> string option) \<Rightarrow> (string \<Rightarrow> string option) \<Rightarrow> string list \<Rightarrow>
   're settings \<Rightarrow> 're settings option" where
  "ReadConfig compile ParseIP fs visit st =
     (let r = read_config_files fs (Args st); conf = sections r;
          st = module_keys conf visit st;
          st = st\<lparr>TLSRequired := (ModuleKey st = [])\<rparr>;
          st = on_section conf ''[general]'' general_section st
      in map_option (\<lambda>st.
        (let st = on_section conf ''[client]'' client_section st;
             st = on_section conf ''[faimon]'' (\<lambda>s. on_key s ''port'' (\<lambda>v st. st\<lparr>FAIMonPort := v\<rparr>)) st;
             st = on_section conf ''[tftp]'' (\<lambda>s. on_key s ''port'' (\<lambda>v st. st\<lparr>TFTPPort := v\<rparr>)) st;
             st = on_section conf ''[tls]'' tls_section st;
             st = st\<lparr>TFTPRules := TFTPRules st @
                    tftp_rules compile (all_mappings (pxeLinuxCfgHookPath (Hooks st)) (tftp_mappings r))\<rparr>;
             st = on_section conf ''[ServerPackages]'' packages_section st;
             st = on_section conf ''[network]'' (\<lambda>s st. st\<lparr>Network := network_settings compile s (Network st)\<rparr>) st;
             st = st\<lparr>Network := FillInNetworkDetectionDefaults
                    (parseNetworkDetectRuleset compile interface_rules) (Network st)\<rparr>;
             st = server_addresses ParseIP st
         in st\<lparr>LDAPServerOUs := LDAPServerOUs st @ server_ous (fs (ServersOUConfigPath (Args st)))\<rparr>))
        (case conf ''[server]'' of None \<Rightarrow> Some st | Some s \<Rightarrow> server_section s st))"

section \<open>The network of this machine\<close>

text \<open>
  IP addresses and masks are lists of bytes, 4 or 16 of them.
\<close>

type_synonym ip = "8 word list"

definition To4 :: "ip \<Rightarrow> ip option" where
  "To4 ip =
     (if length ip = 4 then Some ip
      else if length ip = 16 \<and> take 10 ip = replicate 10 0 \<and> ip ! 10 = 0xff \<and> ip ! 11 = 0xff then Some (drop 12 ip)
      else None)"

definition IsLoopback :: "ip \<Rightarrow> bool" where
  "IsLoopback ip =
     (case To4 ip of Some ip4 \<Rightarrow> hd ip4 = 127 | None \<Rightarrow> ip = replicate 15 0 @ [1])"

text \<open>None is the panic for an empty address or mask.\<close>

definition MakeBroadcast :: "ip \<Rightarrow> ip \<Rightarrow> ip option" where
  "MakeBroadcast ip m =
     (if ip = [] \<or> m = [] then None
      else
        (let m = (if length m = 16 \<and> length ip = 4 then drop 12 m else m);
             ip = (if length m = 4 \<and> length ip = 16 then drop 12 ip else ip)
         in Some (if length ip \<noteq> length m then ip[length ip - 1 := 255]
                  else map2 (\<lambda>a b. or a (not b)) ip m)))"

text \<open>
  A device as the operating system describes it. Its addresses with their masks are the
  results of ParseCIDR that are no errors; \<open>Addrs\<close> may fail as a whole.
\<close>

record net_device =
  HardwareAddr :: string
  DeviceName :: string
  FlagLoopback :: bool
  FlagUp :: bool
  Addrs :: "(ip \<times> ip) list option"

definition better_ip :: "ip \<times> ip \<Rightarrow> (ip \<times> ip) option \<Rightarrow> (ip \<times> ip) option" where
  "better_ip a b =
     (case b of
        None \<Rightarrow> Some a
      | Some (ip, _) \<Rightarrow>
          if IsLoopback ip \<and> \<not> IsLoopback (fst a) \<or> To4 ip = None \<and> To4 (fst a) \<noteq> None then Some a else b)"

text \<open>Name and domain: the last name without a dot before the first one with a dot.\<close>

definition trim_dots :: "string \<Rightarrow> string" where
  "trim_dots s = rev (dropWhile (\<lambda>c. c = CHR ''.'') (rev (dropWhile (\<lambda>c. c = CHR ''.'') s)))"

fun name_and_domain :: "string list \<Rightarrow> string \<Rightarrow> string \<times> string" where
  "name_and_domain [] hostname = (hostname, [])"
| "name_and_domain (n # ns) hostname =
     (let name = trim_dots n in
      if name = [] then name_and_domain ns hostname
      else
        (case Index name CHR ''.'' of
           Some i \<Rightarrow> if i > 0 then (take i name, drop (Suc i) name) else name_and_domain ns name
         | None \<Rightarrow> name_and_domain ns name))"

text \<open>
  \<open>show_ip\<close> is the method String of net.IP, \<open>LookupAddr\<close> and \<open>LookupSRV\<close> the functions of
  package net (None for an error), \<open>hostname\<close> what os.Hostname says.
\<close>

record name_service =
  LookupAddr :: "string \<Rightarrow> string list option"
  LookupSRV :: "string \<Rightarrow> string list option"

definition interface_of ::
  "(ip \<Rightarrow> string) \<Rightarrow> name_service \<Rightarrow> string \<Rightarrow> net_device \<Rightarrow> (net_interface \<times> string list) option" where
  "interface_of show_ip dns hostname dev =
     (let best = (case Addrs dev of None \<Rightarrow> None | Some as \<Rightarrow> fold better_ip as None) in
      case (case best of None \<Rightarrow> Some (''0.0.0.0'', ''255.255.255.255'')
            | Some (ip, m) \<Rightarrow> map_option (\<lambda>b. (show_ip ip, show_ip b)) (MakeBroadcast ip m)) of
        None \<Rightarrow> None
      | Some (ip, broadcast) \<Rightarrow>
          (let names = (if best = None then None else LookupAddr dns ip);
               (hostname, domain) = (case names of None \<Rightarrow> (hostname, []) | Some ns \<Rightarrow> name_and_domain ns hostname);
               targets = (if domain = [] then [] else case LookupSRV dns domain of None \<Rightarrow> [] | Some ts \<Rightarrow> ts)
           in Some ((\<lambda>p. []) (''mac'' := HardwareAddr dev, ''ifname'' := DeviceName dev, ''ip'' := ip,
                  ''broadcast'' := broadcast, ''hostname'' := hostname, ''domain'' := domain,
                  ''srv'' := (if targets \<noteq> [] then ''yes'' else ''no''),
                  ''loopback'' := (if FlagLoopback dev then ''yes'' else ''no''),
                  ''up'' := (if FlagUp dev then ''yes'' else ''no'')), targets)))"

fun interfaces_of ::
  "(ip \<Rightarrow> string) \<Rightarrow> name_service \<Rightarrow> string \<Rightarrow> net_device list \<Rightarrow> (net_interface list \<times> string list) option" where
  "interfaces_of show_ip dns hostname [] = Some ([], [])"
| "interfaces_of show_ip dns hostname (d # ds) =
     (case (interface_of show_ip dns hostname d, interfaces_of show_ip dns hostname ds) of
        (Some (i, ts), Some (is, us)) \<Rightarrow> Some (i # is, ts @ us)
      | _ \<Rightarrow> None)"

record identity =
  OwnMAC :: string
  OwnHostname :: string
  OwnDomain :: string
  OwnIP :: string
  Broadcast :: string
  SourceAddress :: string
  Preferred :: string
  ServerNamesFromSRVRecords :: "string list"

text \<open>
  What this machine calls itself. \<open>resolve\<close> is util.Resolve; no devices are known if
  net.Interfaces fails.
\<close>

definition ReadNetwork ::
  "('re \<Rightarrow> string \<Rightarrow> bool) \<Rightarrow> (ip \<Rightarrow> string) \<Rightarrow> name_service \<Rightarrow> (string \<Rightarrow> string \<Rightarrow> string option) \<Rightarrow>
   string option \<Rightarrow> net_device list \<Rightarrow> 're settings \<Rightarrow> identity option" where
  "ReadNetwork match show_ip dns resolve hostname devices st =
     map_option (\<lambda>(ifaces, targets).
       (let n = Network st; ip = determineNetworkID match ifaces ''ip'' (IP n) (IPDetect n) in
        \<lparr>OwnMAC = determineNetworkID match ifaces ''mac'' (MAC n) (MACDetect n),
         OwnHostname = determineNetworkID match ifaces ''hostname'' (Hostname n) (HostnameDetect n),
         OwnDomain = determineNetworkID match ifaces ''domain'' (DomainName n) (DomainDetect n),
         OwnIP = ip,
         Broadcast = determineNetworkID match ifaces ''broadcast'' [] (IPDetect n),
         SourceAddress = ip @ from_colon (ServerListenAddress st),
         Preferred = (if PreferredServer st = [] then []
           else case resolve (PreferredServer st) ip of None \<Rightarrow> [] | Some a \<Rightarrow> a),
         ServerNamesFromSRVRecords = targets\<rparr>))
       (interfaces_of show_ip dns (case hostname of None \<Rightarrow> ''localhost'' | Some h \<Rightarrow> h) devices)"

text \<open>The servers in the DNS: names without the dots at their end, with their ports.\<close>

definition ServersFromDNS :: "(string \<Rightarrow> (string \<times> nat) list option) \<Rightarrow> string \<Rightarrow> string list" where
  "ServersFromDNS lookup domain =
     (case lookup domain of
        None \<Rightarrow> []
      | Some srvs \<Rightarrow> map (\<lambda>(target, port).
          rev (dropWhile (\<lambda>c. c = CHR ''.'') (rev target)) @ '':'' @ itoa port) srvs)"

definition HookEnvironment :: "'re settings \<Rightarrow> identity \<Rightarrow> string list" where
  "HookEnvironment st own =
     [''MAC='' @ OwnMAC own, ''IPADDRESS='' @ OwnIP own, ''SERVERPORT='' @ tl (from_colon (ServerListenAddress st)),
      ''HOSTNAME='' @ OwnHostname own, ''FQDN='' @ OwnHostname own @ ''.'' @ OwnDomain own]"

section \<open>The configuration is read as it is written\<close>

definition trimmed :: "string \<Rightarrow> bool" where
  "trimmed s \<longleftrightarrow> s = [] \<or> \<not> is_space (hd s) \<and> \<not> is_space (last s)"

lemma space_chars: "is_space CHR '' ''" "\<not> is_space CHR ''=''"
  by code_simp+

lemma TrimSpace_trimmed: "trimmed s \<Longrightarrow> TrimSpace s = s"
proof -
  assume s: "trimmed s"
  then have "dropWhile is_space s = s" "dropWhile is_space (rev s) = rev s"
    by (auto simp: trimmed_def dropWhile_eq_self_iff hd_rev)
  then show ?thesis by (simp add: TrimSpace_def)
qed

lemma TrimSpace_front: "TrimSpace (CHR '' '' # s) = TrimSpace s"
  by (simp add: TrimSpace_def space_chars)

lemma TrimSpace_back: "trimmed s \<Longrightarrow> s \<noteq> [] \<Longrightarrow> TrimSpace (s @ '' '') = s"
proof -
  assume s: "trimmed s" "s \<noteq> []"
  then have "dropWhile is_space (s @ '' '') = s @ '' ''" by (auto simp: trimmed_def dropWhile_eq_self_iff hd_append)
  moreover have "dropWhile is_space (rev s) = rev s" using s by (auto simp: trimmed_def dropWhile_eq_self_iff hd_rev)
  ultimately show ?thesis by (simp add: TrimSpace_def space_chars)
qed

text \<open>A file: sections, each with its settings in order.\<close>

definition setting_line :: "string \<times> string \<Rightarrow> string" where
  "setting_line kv = fst kv @ '' = '' @ snd kv"

definition section_lines :: "string \<times> (string \<times> string) list \<Rightarrow> string list" where
  "section_lines s = fst s # map setting_line (snd s)"

definition config_text :: "(string \<times> (string \<times> string) list) list \<Rightarrow> string" where
  "config_text ss = concat (map (\<lambda>l. l @ [CHR 0x0A]) (concat (map section_lines ss)))"

definition one_line :: "string \<Rightarrow> bool" where
  "one_line s \<longleftrightarrow> CHR ''#'' \<notin> set s \<and> CHR 0x0A \<notin> set s \<and> trimmed s"

definition setting_ok :: "string \<times> string \<Rightarrow> bool" where
  "setting_ok kv \<longleftrightarrow> one_line (fst kv) \<and> one_line (snd kv) \<and> fst kv \<noteq> [] \<and>
     CHR ''='' \<notin> set (fst kv) \<and> hd (fst kv) \<noteq> CHR ''[''"

definition section_ok :: "string \<times> (string \<times> string) list \<Rightarrow> bool" where
  "section_ok s \<longleftrightarrow> one_line (fst s) \<and> is_section (fst s) \<and> CHR ''='' \<notin> set (fst s) \<and>
     list_all setting_ok (snd s)"

lemma Split_line: "c \<notin> set s \<Longrightarrow> Split (s @ c # t) c = s # Split t c"
  by (induction s) auto

lemma full_lines_text:
  "list_all (\<lambda>l. CHR 0x0A \<notin> set l) ls \<Longrightarrow> full_lines (concat (map (\<lambda>l. l @ [CHR 0x0A]) ls)) = ls"
  by (induction ls) (simp_all add: full_lines_def Split_line)

lemma uncomment_line: "CHR ''#'' \<notin> set s \<Longrightarrow> trimmed s \<Longrightarrow> uncomment s = s"
proof -
  assume "CHR ''#'' \<notin> set s" "trimmed s"
  then have all: "takeWhile (\<lambda>c. c \<noteq> CHR ''#'') s = s" by (auto simp: takeWhile_eq_all_conv)
  show ?thesis unfolding uncomment_def all by (rule TrimSpace_trimmed) fact
qed

lemma read_section_line:
  "one_line s \<Longrightarrow> is_section s \<Longrightarrow> CHR ''='' \<notin> set s \<Longrightarrow> read_line s st = enter_section s st"
  using iffD2 [OF Index_None_iff, of "CHR ''=''" s] by (simp add: read_line_def one_line_def uncomment_line)

lemma setting_text:
  assumes "setting_ok (k, v)"
  shows "\<exists>r. uncomment (setting_line (k, v)) = (k @ '' '') @ CHR ''='' # r \<and> TrimSpace r = v"
proof -
  have k: "trimmed k" "k \<noteq> []" "CHR ''#'' \<notin> set k" and v: "trimmed v" "CHR ''#'' \<notin> set v"
    using assms by (auto simp: setting_ok_def one_line_def)
  have all: "takeWhile (\<lambda>c. c \<noteq> CHR ''#'') (setting_line (k, v)) = setting_line (k, v)"
    using k v by (auto simp: takeWhile_eq_all_conv setting_line_def)
  show ?thesis
  proof (cases "v = []")
    case True
    have "trimmed (k @ '' ='')" using k by (auto simp: trimmed_def space_chars)
    then have "TrimSpace ((k @ '' ='') @ '' '') = k @ '' =''" by (rule TrimSpace_back) simp
    then have "uncomment (setting_line (k, v)) = (k @ '' '') @ CHR ''='' # []"
      unfolding uncomment_def all by (simp add: setting_line_def True)
    with True show ?thesis by (simp add: TrimSpace_def)
  next
    case False
    have "trimmed (setting_line (k, v))" using k v False by (auto simp: trimmed_def setting_line_def)
    then have "uncomment (setting_line (k, v)) = (k @ '' '') @ CHR ''='' # CHR '' '' # v"
      unfolding uncomment_def all by (simp add: TrimSpace_trimmed setting_line_def)
    with v show ?thesis by (auto simp: TrimSpace_front TrimSpace_trimmed)
  qed
qed

lemma read_setting_line:
  assumes "setting_ok (k, v)"
  shows "read_line (setting_line (k, v)) st = set_key k v st"
proof -
  obtain r where r: "uncomment (setting_line (k, v)) = (k @ '' '') @ CHR ''='' # r" "TrimSpace r = v"
    using setting_text [OF assms] by blast
  have k: "trimmed k" "k \<noteq> []" "CHR ''='' \<notin> set (k @ '' '')" "hd k \<noteq> CHR ''[''"
    using assms by (auto simp: setting_ok_def one_line_def)
  then have "\<not> is_section ((k @ '' '') @ CHR ''='' # r)" by (auto simp: is_section_def hd_append)
  moreover have "Index ((k @ '' '') @ CHR ''='' # r) CHR ''='' = Some (length (k @ '' ''))"
    using k(3) by (rule Index_append)
  ultimately show ?thesis
    using k r by (simp add: read_line_def Let_def TrimSpace_back)
qed

text \<open>
  What the settings of one section do, and then those of a whole file. In section [tftp] those
  that begin with a slash are mappings of the TFTP server.
\<close>

definition is_mapping :: "string \<Rightarrow> string \<times> string \<Rightarrow> bool" where
  "is_mapping name kv \<longleftrightarrow> name = ''[tftp]'' \<and> hd (fst kv) = CHR ''/'' \<and> length (fst kv) \<ge> 2"

definition values_of :: "string \<times> (string \<times> string) list \<Rightarrow> (string \<times> string) list" where
  "values_of s = filter (\<lambda>kv. \<not> is_mapping (fst s) kv) (snd s)"

definition mappings_of :: "string \<times> (string \<times> string) list \<Rightarrow> (string \<times> string) list" where
  "mappings_of s = map (\<lambda>kv. (tl (fst kv), snd kv)) (filter (is_mapping (fst s)) (snd s))"

definition assignments :: "(string \<times> (string \<times> string) list) list \<Rightarrow> string \<Rightarrow> (string \<times> string) list" where
  "assignments ss name = concat (map values_of (filter (\<lambda>s. fst s = name) ss))"

lemma set_keys:
  assumes "list_all setting_ok kvs" and "current_section st = name" and "sections st name = Some m"
  shows "fold read_line (map setting_line kvs) st =
    st\<lparr>sections := (sections st)(name \<mapsto> m ++ map_of (rev (values_of (name, kvs)))),
       tftp_mappings := tftp_mappings st @ mappings_of (name, kvs)\<rparr>"
  using assms
proof (induction kvs arbitrary: st m)
  case Nil
  have "(sections st)(name \<mapsto> m) = sections st" using Nil.prems(3) by auto
  then show ?case by (simp add: values_of_def mappings_of_def)
next
  case (Cons kv kvs)
  obtain k v where kv: "kv = (k, v)" by (cases kv)
  have line: "fold read_line (map setting_line (kv # kvs)) st = fold read_line (map setting_line kvs) (set_key k v st)"
    using Cons.prems by (simp add: kv read_setting_line)
  have k: "k \<noteq> []" using Cons.prems by (simp add: kv setting_ok_def)
  show ?case
  proof (cases "is_mapping name (k, v)")
    case True
    define st' where "st' = st\<lparr>tftp_mappings := tftp_mappings st @ [(tl k, v)]\<rparr>"
    have st': "set_key k v st = st'"
      using True Cons.prems k by (simp add: st'_def set_key_def is_mapping_def)
    show ?thesis
      unfolding line st' by (subst Cons.IH [where m = m])
        (use Cons.prems True in \<open>auto simp: st'_def kv values_of_def mappings_of_def\<close>)
  next
    case False
    define st' where "st' = st\<lparr>sections := (sections st)(name \<mapsto> m(k \<mapsto> v))\<rparr>"
    have st': "set_key k v st = st'"
      using False Cons.prems k by (auto simp: st'_def set_key_def is_mapping_def)
    have m: "m(k \<mapsto> v) ++ map_of (rev (values_of (name, kvs))) = m ++ map_of (rev (values_of (name, kv # kvs)))"
      using False by (simp add: kv values_of_def map_add_assoc)
    have "fold read_line (map setting_line kvs) st' =
        st'\<lparr>sections := (sections st')(name \<mapsto> m(k \<mapsto> v) ++ map_of (rev (values_of (name, kvs)))),
            tftp_mappings := tftp_mappings st' @ mappings_of (name, kvs)\<rparr>"
      by (rule Cons.IH) (use Cons.prems in \<open>auto simp: st'_def\<close>)
    moreover have "(sections st')(name \<mapsto> x) = (sections st)(name \<mapsto> x)" "tftp_mappings st' = tftp_mappings st"
      "mappings_of (name, kvs) = mappings_of (name, kv # kvs)" for x
      using False by (simp_all add: st'_def kv mappings_of_def)
    moreover have "st'\<lparr>sections := a, tftp_mappings := b\<rparr> = st\<lparr>sections := a, tftp_mappings := b\<rparr>" for a b
      by (simp add: st'_def)
    ultimately show ?thesis by (simp only: line st' m)
  qed
qed

definition section_map :: "config_reader \<Rightarrow> string \<Rightarrow> string \<Rightarrow> string option" where
  "section_map st name = (case sections st name of None \<Rightarrow> (\<lambda>k. None) | Some m \<Rightarrow> m)"

lemma read_section:
  assumes "section_ok s"
  shows "sections (fold read_line (section_lines s) st) name =
      (if fst s = name then Some (section_map st name ++ map_of (rev (values_of s))) else sections st name) \<and>
    tftp_mappings (fold read_line (section_lines s) st) = tftp_mappings st @ mappings_of s"
proof -
  obtain n kvs where s: "s = (n, kvs)" by (cases s)
  have "fold read_line (section_lines s) st = fold read_line (map setting_line kvs) (enter_section n st)"
    using assms by (simp add: s section_ok_def section_lines_def read_section_line)
  also have "\<dots> = (enter_section n st)\<lparr>
      sections := (sections (enter_section n st))(n \<mapsto> section_map st n ++ map_of (rev (values_of (n, kvs)))),
      tftp_mappings := tftp_mappings (enter_section n st) @ mappings_of (n, kvs)\<rparr>"
    by (rule set_keys)
      (use assms in \<open>auto simp: s section_ok_def enter_section_def section_map_def split: option.splits\<close>)
  finally show ?thesis by (auto simp: s enter_section_def)
qed

lemma assignments_Cons:
  "assignments (s # ss) name = (if fst s = name then values_of s else []) @ assignments ss name"
  by (simp add: assignments_def)

lemma read_sections:
  assumes "list_all section_ok ss"
  shows "sections (fold read_line (concat (map section_lines ss)) st) name =
      (if name \<in> fst ` set ss then Some (section_map st name ++ map_of (rev (assignments ss name)))
       else sections st name) \<and>
    tftp_mappings (fold read_line (concat (map section_lines ss)) st) =
      tftp_mappings st @ concat (map mappings_of ss)"
  using assms
proof (induction ss arbitrary: st)
  case Nil
  show ?case by simp
next
  case (Cons s ss)
  have s: "section_ok s" using Cons.prems by simp
  have "assignments ss name = []" if "name \<notin> fst ` set ss"
    using that by (force simp: assignments_def filter_empty_conv)
  with read_section [OF s, of st name] Cons show ?case
    by (auto simp: assignments_Cons section_map_def)
qed

lemma config_lines:
  assumes "list_all section_ok ss"
  shows "full_lines (config_text ss) = concat (map section_lines ss)"
proof -
  have "CHR 0x0A \<notin> set l" if "l \<in> set (section_lines s)" "section_ok s" for l s
    using that by (force simp: section_lines_def section_ok_def one_line_def setting_ok_def setting_line_def list_all_iff)
  with assms show ?thesis
    unfolding config_text_def by (intro full_lines_text) (auto simp: list_all_iff)
qed

lemma files_read:
  assumes ok: "list_all section_ok cs" "list_all section_ok ss"
    and fs: "fs (ClientConfigPath args) = Some (config_text cs)" "fs (ServerConfigPath args) = Some (config_text ss)"
      "ClientConfigPath args \<noteq> []" "ServerConfigPath args \<noteq> []"
  shows "sections (read_config_files fs args) name =
      (if name = [] then Some Map.empty
       else if name \<in> fst ` set (cs @ ss) then Some (map_of (rev (assignments (cs @ ss) name))) else None)"
    and "tftp_mappings (read_config_files fs args) = concat (map mappings_of (cs @ ss))"
proof -
  have none: "[] \<notin> fst ` set xs" if "list_all section_ok xs" for xs
    using that by (auto simp: list_all_iff section_ok_def is_section_def)
  have empty: "assignments xs name = []" if "name \<notin> fst ` set xs" for xs
    using that by (force simp: assignments_def filter_empty_conv)
  have split: "assignments (cs @ ss) name = assignments cs name @ assignments ss name"
    by (simp add: assignments_def)
  show "sections (read_config_files fs args) name =
      (if name = [] then Some Map.empty
       else if name \<in> fst ` set (cs @ ss) then Some (map_of (rev (assignments (cs @ ss) name))) else None)"
    using fs none [OF ok(1)] none [OF ok(2)] empty [of cs] empty [of ss]
    by (auto simp: read_config_files_def read_config_file_def config_lines ok read_sections [OF ok(1)]
        read_sections [OF ok(2)] section_map_def split)
  show "tftp_mappings (read_config_files fs args) = concat (map mappings_of (cs @ ss))"
    using fs by (simp add: read_config_files_def read_config_file_def config_lines ok read_sections [OF ok(1)]
        read_sections [OF ok(2)])
qed

subsection \<open>What the program makes of it\<close>

lemma on_key_keeps: "(\<And>v x. g (f v x) = g x) \<Longrightarrow> g (on_key s k f x) = g x"
  by (simp add: on_key_def split: option.split)

lemma on_section_keeps: "(\<And>s x. g (f s x) = g x) \<Longrightarrow> g (on_section conf n f x) = g x"
  by (simp add: on_section_def split: option.split)

lemmas kept_fields =
  on_key_keeps [where g = LDAPURI] on_key_keeps [where g = LDAPAdmin] on_key_keeps [where g = RunServer]
  on_key_keeps [where g = TLSRequired] on_section_keeps [where g = LDAPURI] on_section_keeps [where g = LDAPAdmin]
  on_section_keeps [where g = RunServer] on_section_keeps [where g = TLSRequired]

lemma on_key_sets:
  "LDAPURI (on_key s k (\<lambda>v st. st\<lparr>LDAPURI := v\<rparr>) st) = (case s k of None \<Rightarrow> LDAPURI st | Some v \<Rightarrow> v)"
  "LDAPAdmin (on_key s k (\<lambda>v st. st\<lparr>LDAPAdmin := v\<rparr>) st) = (case s k of None \<Rightarrow> LDAPAdmin st | Some v \<Rightarrow> v)"
  by (simp_all add: on_key_def split: option.split)

lemma kept_by_sections:
  "LDAPURI (client_section s st) = LDAPURI st" "LDAPAdmin (client_section s st) = LDAPAdmin st"
  "RunServer (client_section s st) = RunServer st" "TLSRequired (client_section s st) = TLSRequired st"
  "LDAPURI (packages_section s st) = LDAPURI st" "LDAPAdmin (packages_section s st) = LDAPAdmin st"
  "RunServer (packages_section s st) = RunServer st" "TLSRequired (packages_section s st) = TLSRequired st"
  "LDAPURI (dns_lookup v st) = LDAPURI st" "LDAPAdmin (dns_lookup v st) = LDAPAdmin st"
  "RunServer (dns_lookup v st) = RunServer st" "TLSRequired (dns_lookup v st) = TLSRequired st"
  "LDAPURI (tls_section s st) = LDAPURI st" "LDAPAdmin (tls_section s st) = LDAPAdmin st"
  "RunServer (tls_section s st) = RunServer st" "TLSRequired (tls_section s st) = TLSRequired st"
  by (simp_all add: client_section_def packages_section_def tls_section_def dns_lookup_def kept_fields Let_def)

lemma server_section_fields:
  assumes "server_section s st = Some st'"
  shows "LDAPURI st' = (case s ''ldap-uri'' of None \<Rightarrow> LDAPURI st | Some v \<Rightarrow> v)"
    and "LDAPAdmin st' = (case s ''ldap-admin-dn'' of None \<Rightarrow> LDAPAdmin st | Some v \<Rightarrow> v)"
    and "RunServer st' = RunServer st" and "TLSRequired st' = TLSRequired st"
  using assms
  by (auto simp: server_section_def Let_def kept_fields kept_by_sections on_key_sets cong: option.case_cong split: if_splits)

lemma configured_servers_keep:
  "LDAPURI (fold (configured_server P) srvs st) = LDAPURI st"
  "RunServer (fold (configured_server P) srvs st) = RunServer st"
  "TLSRequired (fold (configured_server P) srvs st) = TLSRequired st"
  by (induction srvs arbitrary: st) (simp_all add: configured_server_def split: option.split)

lemma server_addresses_fields:
  "LDAPURI (server_addresses P st) = LDAPURI st"
  "TLSRequired (server_addresses P st) = TLSRequired st"
  "RunServer (server_addresses P st) \<longleftrightarrow> RunServer st \<and> LDAPAdmin st \<noteq> []"
  by (simp_all add: server_addresses_def Let_def configured_servers_keep)

lemma module_keys_fields:
  "LDAPURI (module_keys conf visit st) = LDAPURI st" "LDAPAdmin (module_keys conf visit st) = LDAPAdmin st"
  "RunServer (module_keys conf visit st) = RunServer st"
  "ModuleKey (module_keys conf visit st) = [] \<longleftrightarrow>
    ModuleKey st = [] \<and> (\<forall>n \<in> set visit. case conf n of None \<Rightarrow> True | Some s \<Rightarrow> s ''key'' = None)"
  by (induction conf visit st rule: module_keys.induct)
    (auto simp: on_section_def on_key_def split: option.splits)

text \<open>The value of a setting in files with these sections, with its default.\<close>

definition setting :: "(string \<times> (string \<times> string) list) list \<Rightarrow> string \<Rightarrow> string \<Rightarrow> string option" where
  "setting ss name = map_of (rev (assignments ss name))"

lemma config_result:
  fixes st :: "'re settings"
  assumes "ReadConfig compile ParseIP fs visit st = Some st'" and "ModuleKey st = []" and "RunServer st" 
  defines "conf \<equiv> sections (read_config_files fs (Args st))"
  shows "LDAPURI st' = (case conf ''[server]'' of None \<Rightarrow> LDAPURI st
      | Some s \<Rightarrow> (case s ''ldap-uri'' of None \<Rightarrow> LDAPURI st | Some v \<Rightarrow> v))"
    and "RunServer st' \<longleftrightarrow> (case conf ''[server]'' of None \<Rightarrow> LDAPAdmin st
      | Some s \<Rightarrow> (case s ''ldap-admin-dn'' of None \<Rightarrow> LDAPAdmin st | Some v \<Rightarrow> v)) \<noteq> []"
    and "TLSRequired st' \<longleftrightarrow> (\<forall>n \<in> set visit. case conf n of None \<Rightarrow> True | Some s \<Rightarrow> s ''key'' = None)"
proof -
  let ?st1 = "(module_keys conf visit st)\<lparr>TLSRequired := (ModuleKey (module_keys conf visit st) = [])\<rparr>"
  let ?st2 = "on_section conf ''[general]'' general_section ?st1"
  obtain st3 where st3: "(case conf ''[server]'' of None \<Rightarrow> Some ?st2 | Some s \<Rightarrow> server_section s ?st2) = Some st3"
    and rest: "LDAPURI st' = LDAPURI st3" "TLSRequired st' = TLSRequired st3"
      "RunServer st' \<longleftrightarrow> RunServer st3 \<and> LDAPAdmin st3 \<noteq> []"
    using assms(1) unfolding conf_def
    by (auto simp: ReadConfig_def Let_def server_addresses_fields kept_fields kept_by_sections)
  have st2: "LDAPURI ?st2 = LDAPURI st" "LDAPAdmin ?st2 = LDAPAdmin st" "RunServer ?st2 = RunServer st"
    "TLSRequired ?st2 \<longleftrightarrow> (\<forall>n \<in> set visit. case conf n of None \<Rightarrow> True | Some s \<Rightarrow> s ''key'' = None)"
    using assms(2) by (simp_all add: kept_fields general_section_def module_keys_fields)
  show "LDAPURI st' = (case conf ''[server]'' of None \<Rightarrow> LDAPURI st
      | Some s \<Rightarrow> (case s ''ldap-uri'' of None \<Rightarrow> LDAPURI st | Some v \<Rightarrow> v))"
    "RunServer st' \<longleftrightarrow> (case conf ''[server]'' of None \<Rightarrow> LDAPAdmin st
      | Some s \<Rightarrow> (case s ''ldap-admin-dn'' of None \<Rightarrow> LDAPAdmin st | Some v \<Rightarrow> v)) \<noteq> []"
    "TLSRequired st' \<longleftrightarrow> (\<forall>n \<in> set visit. case conf n of None \<Rightarrow> True | Some s \<Rightarrow> s ''key'' = None)"
    using st3 rest st2 server_section_fields [of _ ?st2 st3] assms(3) by (auto split: option.splits)
qed


lemma server_section_total:
  assumes "s ''new-systems-base'' \<noteq> Some []" and "IncomingOU st \<noteq> []"
  shows "server_section s st \<noteq> None"
proof -
  have set: "IncomingOU (on_key s k (\<lambda>v st. st\<lparr>IncomingOU := v\<rparr>) x) = (case s k of None \<Rightarrow> IncomingOU x | Some v \<Rightarrow> v)"
    for k and x :: "'a settings"
    by (simp add: on_key_def split: option.split)
  show ?thesis
    using assms
    by (auto simp: server_section_def Let_def set on_key_keeps [where g = IncomingOU] dns_lookup_def split: option.splits)
qed

lemma config_total:
  assumes "IncomingOU st \<noteq> []" and "section_map (read_config_files fs (Args st)) ''[server]'' ''new-systems-base'' \<noteq> Some []"
  shows "ReadConfig compile ParseIP fs visit st \<noteq> None"
proof -
  let ?conf = "sections (read_config_files fs (Args st))"
  let ?st = "on_section ?conf ''[general]'' general_section ((module_keys ?conf visit st)\<lparr>TLSRequired :=
      (ModuleKey (module_keys ?conf visit st) = [])\<rparr>)"
  have "IncomingOU (module_keys ?conf visit st) = IncomingOU st"
    by (induction ?conf visit st rule: module_keys.induct) (auto simp: on_section_def on_key_def split: option.splits)
  then have "IncomingOU ?st \<noteq> []"
    using assms(1) by (simp add: on_section_keeps [where g = IncomingOU] general_section_def)
  then have "(case ?conf ''[server]'' of None \<Rightarrow> Some ?st | Some s \<Rightarrow> server_section s ?st) \<noteq> None"
    using assms(2) server_section_total [of _ ?st] by (auto simp: section_map_def split: option.splits)
  then show ?thesis by (auto simp: ReadConfig_def Let_def)
qed

definition example_sections :: "(string \<times> (string \<times> string) list) list" where
  "example_sections =
     [(''[server]'', [(''ldap-uri'', ''ldap://ldap.local:389''), (''ldap-admin-dn'', ''cn=admin,c=de'')]),
      (''[GOsaPackages]'', [(''key'', ''secret'')])]"


text \<open>An empty new-systems-base ends the program, and a last line without a line break is not read.\<close>

lemma empty_base_panics: "s ''new-systems-base'' = Some [] \<Longrightarrow> server_section s st = None"
proof -
  assume "s ''new-systems-base'' = Some []"
  then have "IncomingOU (on_key s ''new-systems-base'' (\<lambda>v st. st\<lparr>IncomingOU := v\<rparr>) x) = []" for x :: "'a settings"
    by (simp add: on_key_def)
  then show ?thesis by (simp add: server_section_def Let_def)
qed

lemma last_line_is_lost:
  "full_lines (''[server]'' @ [CHR 0x0A] @ ''ldap-uri = ldap://ldap.local:389'') = [''[server]'']"
  by code_simp

section \<open>The mappings of the TFTP server\<close>

lemma MatchString_quoted: "MatchString (CHR ''^'' # QuoteMeta v @ ''$'') s \<longleftrightarrow> s = v"
proof -
  have "parse_re (QuoteMeta v @ ''$'') = Some (map (One \<circ> ALit) v @ [ReEnd])"
    by (subst parse_quoted) (auto simp: no_rep_def)
  moreover have "prefix_match False st (map (One \<circ> ALit) v @ [ReEnd]) s \<longleftrightarrow> s = v" for st s
    by (induction v arbitrary: s st) (auto split: list.splits)
  ultimately show ?thesis by (auto simp: MatchString_def match_tails_anchored)
qed

lemma map_filter_append: "List.map_filter f (xs @ ys) = List.map_filter f xs @ List.map_filter f ys"
  by (simp add: List.map_filter_def)

text \<open>In section [tftp] the last mapping of a path decides. A request for a path that the
  files map to something, as a literal path, is answered by the rule of the last line for that
  path, whatever the built-in rules are and whatever other literal paths are mapped. (For
  quoted literals regexp.Compile has to do what the expression says.)\<close>

theorem last_mapping_decides:
  assumes "list_all (\<lambda>(p, f). p \<noteq> [] \<and> hd p \<noteq> CHR ''^'') ms"
    and "\<forall>(p, f) \<in> set ms. \<exists>re. compile (tftp_pattern p) = Some re \<and>
      (\<forall>s. match re s \<longleftrightarrow> MatchString (tftp_pattern p) s)"
    and "map_of (rev ms) path = Some file"
  shows "\<exists>re. find (\<lambda>r. match (fst r) path) (tftp_rules compile (all_mappings hook ms)) = Some (re, tftp_reply path file)"
proof -
  have "\<exists>re. find (\<lambda>r. match (fst r) path) (List.map_filter (\<lambda>(p, file).
      map_option (\<lambda>re. (re, tftp_reply p file)) (compile (tftp_pattern p))) (xs @ ys)) = Some (re, tftp_reply path file)"
    if "map_of xs path = Some file" and "set xs \<subseteq> set ms" for xs ys
    using that
  proof (induction xs)
    case Nil
    then show ?case by simp
  next
    case (Cons x xs)
    obtain p f where x: "x = (p, f)" by (cases x)
    with Cons.prems assms(1,2) obtain re where re: "compile (tftp_pattern p) = Some re"
      "match re path \<longleftrightarrow> MatchString (tftp_pattern p) path" "hd p \<noteq> CHR ''^''"
      by (fastforce simp: list_all_iff)
    then have "match re path \<longleftrightarrow> path = p" by (simp add: tftp_pattern_def MatchString_quoted)
    with Cons re show ?case by (auto simp: x List.map_filter_simps split: if_splits)
  qed
  from this [of "rev ms" "rev (all_mappings hook [])"] assms(3) show ?thesis
    by (auto simp: tftp_rules_def all_mappings_def)
qed

theorem last_mapping_decides_witness:
  "\<exists>re. find (\<lambda>r. MatchString (fst r) ''a.cfg'') (tftp_rules Some (all_mappings ''/hook''
      [(''a.cfg'', ''/srv/old''), (''b'', ''/srv/b''), (''a.cfg'', ''/srv/$new'')])) = Some (re, ''/srv/$$new'')"
proof -
  have "tftp_reply ''a.cfg'' ''/srv/$new'' = ''/srv/$$new''" by code_simp
  then show ?thesis
    using last_mapping_decides [of "[(''a.cfg'', ''/srv/old''), (''b'', ''/srv/b''), (''a.cfg'', ''/srv/$new'')]"
        Some MatchString "''a.cfg''" "''/srv/$new''" "''/hook''"]
    by simp
qed

text \<open>
  The built-in rule for requests with a UUID begins with the slash of the key in the file, so
  it is a literal and matches no such request.
\<close>

lemma uuid_rule_is_literal: "MatchString (tftp_pattern uuid_pattern) s \<longleftrightarrow> s = uuid_pattern"
  by (simp add: tftp_pattern_def uuid_pattern_def MatchString_quoted)

section \<open>Earlier rules outweigh all later ones\<close>

definition powers :: "nat \<Rightarrow> int list" where
  "powers n = rev (map (\<lambda>i. 2 ^ i) [0..<n])"

lemma powers_Suc: "powers (Suc n) = 2 ^ n # powers n"
  by (simp add: powers_def)

lemma powers_doubled: "map (\<lambda>w. 2 * w) (powers n) @ [1] = powers (Suc n)"
  by (induction n) (simp_all add: powers_def)

lemma powers_bound: "w \<in> set (powers n) \<Longrightarrow> 0 < w \<and> w < 2 ^ n"
  by (auto simp: powers_def)

lemma stb_small: "0 \<le> x \<Longrightarrow> x < 2 ^ 63 \<Longrightarrow> signed_take_bit 63 (x::int) = x"
  by (rule signed_take_bit_int_eq_self) auto

lemma Auto_doubled [simp]: "Auto (doubled r) = Auto r"
  by (simp add: doubled_def)

lemma parse_rule_result:
  assumes "parse_rule compile w rs = Some rs'"
  shows "\<exists>r. rs' = (if Auto r then map doubled rs else rs) @ [r] \<and> (Auto r \<longrightarrow> Weight r = 1)"
proof (cases "find_rule w")
  case None
  with assms show ?thesis by (simp add: parse_rule_def)
next
  case (Some m)
  obtain weight p invert pat where m: "m = (weight, p, invert, pat)" by (cases m)
  obtain n re where n: "(if weight = [] then Some 1 else ParseInt weight) = Some n" "compile pat = Some re"
    "p \<in> set net_properties"
    using assms by (cases "compile pat") (auto simp: parse_rule_def Some m split: option.splits if_splits)
  let ?r = "\<lparr>Weight = n, Propname = p, Regex = re, InvertMatch = invert, Auto = (weight = [])\<rparr>"
  have "rs' = (if weight = [] then map doubled rs else rs) @ [?r]"
    using assms n by (simp add: parse_rule_def Some m)
  moreover have "weight = [] \<longrightarrow> n = 1" using n(1) by auto
  ultimately show ?thesis by (intro exI [of _ ?r]) simp
qed

lemma parse_rule_auto: "parse_rule compile w rs = Some rs' \<Longrightarrow> list_all Auto rs' \<Longrightarrow> list_all Auto rs"
  using parse_rule_result [of compile w rs rs'] by (auto simp: list_all_iff split: if_splits)

lemma parse_rule_weights:
  assumes "parse_rule compile w rs = Some rs'" and "list_all Auto rs'" and "length rs < 62"
    and "map Weight rs = powers (length rs)"
  shows "map Weight rs' = powers (Suc (length rs))"
proof -
  obtain r where rs': "rs' = map doubled rs @ [r]" "Weight r = 1"
    using parse_rule_result [OF assms(1)] assms(2) by (auto split: if_splits)
  have auto: "list_all Auto rs" using assms(1,2) by (rule parse_rule_auto)
  have "Weight (doubled q) = 2 * Weight q" if "q \<in> set rs" for q
  proof -
    have "Weight q \<in> set (powers (length rs))" using that assms(4) by (metis image_eqI list.set_map)
    then have "0 < Weight q" "Weight q < 2 ^ length rs" using powers_bound by blast+
    moreover have "(2::int) ^ length rs \<le> 2 ^ 62" using assms(3) by (intro power_increasing) auto
    moreover have "(2::int) ^ 63 = 2 * 2 ^ 62" by simp
    ultimately have "signed_take_bit 63 (2 * Weight q) = 2 * Weight q" by (intro stb_small) linarith+
    then show ?thesis using that auto by (simp add: doubled_def list_all_iff)
  qed
  then have "map Weight (map doubled rs) = map (\<lambda>w. 2 * w) (map Weight rs)" by simp
  then show ?thesis using rs' powers_doubled [of "length rs"] assms(4) by simp
qed

lemma parse_rule_grows: "parse_rule compile w rs = Some rs' \<Longrightarrow> length rs' = Suc (length rs)"
  using parse_rule_result [of compile w rs rs'] by auto

lemma parse_rules_grow: "parse_rules compile ws rs = Some rs' \<Longrightarrow> length rs' = length rs + length ws"
  by (induction ws arbitrary: rs) (auto dest: parse_rule_grows split: option.splits)

lemma parse_rules_auto: "parse_rules compile ws rs = Some rs' \<Longrightarrow> list_all Auto rs' \<Longrightarrow> list_all Auto rs"
  by (induction ws arbitrary: rs) (auto dest: parse_rule_auto split: option.splits)

lemma auto_weights:
  assumes "parse_rules compile ws rs = Some rules" and "list_all Auto rules" and "length rules < 63"
    and "map Weight rs = powers (length rs)"
  shows "map Weight rules = powers (length rules)"
  using assms
proof (induction ws arbitrary: rs)
  case Nil
  then show ?case by simp
next
  case (Cons w ws)
  then obtain rs1 where rs1: "parse_rule compile w rs = Some rs1" "parse_rules compile ws rs1 = Some rules"
    by (auto split: option.splits)
  have "length rs < 62"
    using parse_rules_grow [OF rs1(2)] parse_rule_grows [OF rs1(1)] Cons.prems(3) by simp
  with parse_rule_weights [OF rs1(1) parse_rules_auto [OF rs1(2) Cons.prems(2)]] Cons.prems(4) parse_rule_grows [OF rs1(1)]
  have "map Weight rs1 = powers (length rs1)" by simp
  with Cons.IH [OF rs1(2)] Cons.prems show ?case by blast
qed

text \<open>The number that the rules that hold make up, and its order.\<close>

fun vote :: "bool list \<Rightarrow> int" where
  "vote [] = 0"
| "vote (b # bs) = (if b then 2 ^ length bs else 0) + vote bs"

lemma vote_bounds: "0 \<le> vote bs \<and> vote bs < 2 ^ length bs"
  by (induction bs) auto

lemma vote_less: "length bs = length cs \<Longrightarrow> vote bs < vote cs \<longleftrightarrow> bs < cs"
proof (induction bs arbitrary: cs)
  case Nil
  then show ?case by simp
next
  case (Cons b bs)
  then obtain c cs' where cs: "cs = c # cs'" "length bs = length cs'" by (cases cs) auto
  then show ?case
    using Cons.IH [of cs'] vote_bounds [of bs] vote_bounds [of cs'] by (cases b; cases c) auto
qed

lemma weight_is_vote:
  assumes "map Weight rs = powers (length rs)" and "length rs < 63" and "0 \<le> a" and "a + 2 ^ length rs \<le> 2 ^ 63"
  shows "fold (\<lambda>r weight. if rule_holds match i r then signed_take_bit 63 (weight + Weight r) else weight) rs a =
    a + vote (map (rule_holds match i) rs)"
  using assms
proof (induction rs arbitrary: a)
  case Nil
  then show ?case by simp
next
  case (Cons r rs)
  have r: "Weight r = 2 ^ length rs" "map Weight rs = powers (length rs)"
    using Cons.prems(1) by (auto simp: powers_Suc)
  have two: "(2::int) ^ length (r # rs) = 2 ^ length rs + 2 ^ length rs" by simp
  have pos: "(0::int) < 2 ^ length rs" by simp
  then have bounds: "a + 2 ^ length rs < 2 ^ 63" "a + 2 ^ length rs + 2 ^ length rs \<le> 2 ^ 63"
    using Cons.prems(4) unfolding two by linarith+
  then have "signed_take_bit 63 (a + Weight r) = a + 2 ^ length rs"
    using Cons.prems(3) r by (simp add: stb_small)
  moreover have "length rs < 63" using Cons.prems(2) by simp
  ultimately show ?case
    using Cons.IH [of a] Cons.IH [of "a + 2 ^ length rs"] Cons.prems(3) r bounds by simp
qed

lemma best_of_first:
  assumes "bestiface \<in> set prev" and "weight bestiface = bestweight"
    and "find (\<lambda>i. list_all (\<lambda>j. weight j \<le> weight i) prev) prev = Some bestiface"
  shows "find (\<lambda>i. list_all (\<lambda>j. weight j \<le> weight i) (prev @ is)) (prev @ is) = Some (best_of weight is bestweight bestiface)"
  using assms
proof (induction "is" arbitrary: prev bestweight bestiface)
  case Nil
  then show ?case by simp
next
  case (Cons i "is")
  have max: "list_all (\<lambda>j. weight j \<le> weight bestiface) prev"
    using Cons.prems(3) find_SomeD by fastforce
  show ?case
  proof (cases "weight i > bestweight")
    case True
    have "find (\<lambda>k. list_all (\<lambda>j. weight j \<le> weight k) (prev @ [i])) prev = None"
      using max True Cons.prems(2) by (fastforce simp: find_None_iff list_all_iff)
    then have "find (\<lambda>k. list_all (\<lambda>j. weight j \<le> weight k) (prev @ [i])) (prev @ [i]) = Some i"
      using max True Cons.prems(2) by (fastforce simp: find_append list_all_iff)
    with Cons.IH [of i "prev @ [i]" "weight i"] True show ?thesis by simp
  next
    case False
    have "list_all (\<lambda>j. weight j \<le> weight k) (prev @ [i]) \<longleftrightarrow> list_all (\<lambda>j. weight j \<le> weight k) prev"
      if "k \<in> set prev" for k
      using that False Cons.prems(1,2) max by (force simp: list_all_iff)
    then have "find (\<lambda>k. list_all (\<lambda>j. weight j \<le> weight k) (prev @ [i])) prev = Some bestiface"
      using Cons.prems(3) by (metis (no_types, lifting) find_cong)
    then have "find (\<lambda>k. list_all (\<lambda>j. weight j \<le> weight k) (prev @ [i])) (prev @ [i]) = Some bestiface"
      by (simp add: find_append)
    with Cons.IH [of bestiface "prev @ [i]" bestweight] Cons.prems False show ?thesis by simp
  qed
qed

text \<open>C39: Among rules without weights the earlier ones decide. With fewer than 63 of them, the
  interface that is chosen is the first one for which the answers to the rules, in their
  order, are greatest lexicographically: no interface satisfies an earlier rule that it does
  not satisfy, unless it satisfies a still earlier one that the other does not.\<close>

theorem earlier_rules_decide:
  assumes "parseNetworkDetectRuleset compile ruleset = Some rules"
    and "list_all Auto rules" and "length rules < 63" and "ifaces \<noteq> []"
  shows "find (\<lambda>i. list_all (\<lambda>j. map (rule_holds match j) rules \<le> map (rule_holds match i) rules) ifaces) ifaces =
    Some (bestInterface match ifaces rules)"
proof -
  let ?w = "interface_weight match rules"
  have "map Weight rules = powers (length rules)"
    using auto_weights [of compile "Fields ruleset" "[]" rules] assms(1-3)
    by (simp add: parseNetworkDetectRuleset_def powers_def)
  moreover have "(2::int) ^ length rules \<le> 2 ^ 63" using assms(3) by (intro power_increasing) auto
  ultimately have w: "?w i = vote (map (rule_holds match i) rules)" for i
    using weight_is_vote [of rules 0 match i] assms(3) by (simp add: interface_weight_def)
  obtain i "is" where ifaces: "ifaces = i # is" using assms(4) by (cases ifaces) auto
  have "?w i \<ge> 0" using vote_bounds by (simp add: w)
  then have best: "bestInterface match ifaces rules = best_of ?w is (?w i) i"
    by (auto simp: bestInterface_def ifaces)
  have "?w j \<le> ?w k \<longleftrightarrow> map (rule_holds match j) rules \<le> map (rule_holds match k) rules" for j k
    unfolding w using vote_less [of "map (rule_holds match k) rules" "map (rule_holds match j) rules"]
    by (simp add: not_less [symmetric])
  then show ?thesis
    unfolding best using best_of_first [of i "[i]" ?w "?w i" "is"] by (simp add: ifaces)
qed

definition example_interface :: "string \<Rightarrow> string \<Rightarrow> string \<Rightarrow> net_interface" where
  "example_interface name up ip = (\<lambda>p. [])(''ifname'' := name, ''up'' := up, ''ip'' := ip)"

theorem earlier_rules_decide_witness:
  "\<exists>rules. parseNetworkDetectRuleset Some ''up~yes ip~^10.'' = Some rules \<and>
    bestInterface MatchString [example_interface ''lo'' ''no'' ''10.0.0.1'', example_interface ''eth0'' ''yes'' ''192.168.0.1'',
      example_interface ''eth1'' ''yes'' ''192.168.0.2''] rules ''ifname'' = ''eth0''"
proof -
  let ?is = "[example_interface ''lo'' ''no'' ''10.0.0.1'', example_interface ''eth0'' ''yes'' ''192.168.0.1'',
      example_interface ''eth1'' ''yes'' ''192.168.0.2'']"
  let ?rules = "[\<lparr>Weight = 2, Propname = ''up'', Regex = ''yes'', InvertMatch = False, Auto = True\<rparr>,
      \<lparr>Weight = 1, Propname = ''ip'', Regex = ''^10.'', InvertMatch = False, Auto = True\<rparr>]"
  have rules: "parseNetworkDetectRuleset Some ''up~yes ip~^10.'' = Some ?rules" by code_simp
  have holds: "map (\<lambda>i. map (rule_holds MatchString i) ?rules) ?is = [[False, True], [True, False], [True, False]]"
    by code_simp
  have "Some (bestInterface MatchString ?is ?rules) = Some (?is ! 1)"
    using earlier_rules_decide [OF rules, of ?is MatchString] holds by simp
  then have "bestInterface MatchString ?is ?rules ''ifname'' = ''eth0''" by (simp add: example_interface_def)
  with rules show ?thesis by blast
qed

text \<open>
  Weights may be negative, but the search starts with the weight 0 and the first interface:
  when all weights are negative, the first interface is chosen whatever its weight is.
\<close>

lemma negative_weights_choose_the_first:
  assumes "\<forall>i \<in> set (i0 # is). interface_weight match rules i \<le> 0"
  shows "bestInterface match (i0 # is) rules = i0"
proof -
  have "best_of w xs 0 b = b" if "\<forall>i \<in> set xs. w i \<le> 0" for w xs b
    using that by (induction xs) auto
  with assms show ?thesis unfolding bestInterface_def by simp
qed

text \<open>
  A setting that is there but empty is an empty ruleset, not a missing one: the default rules
  are not used, and the first interface is chosen.
\<close>

lemma empty_setting_is_a_ruleset:
  "MACDetect (FillInNetworkDetectionDefaults rs (network_settings compile (Map.empty(''my-mac'' \<mapsto> [])) unset_network)) = Some []"
proof -
  have "\<not> matches_whole macAddressRegexp []" by code_simp
  then show ?thesis
    by (simp add: network_settings_def on_key_def literal_or_rules_def parseNetworkDetectRuleset_def unset_network_def
        FillInNetworkDetectionDefaults_def Let_def)
qed

text \<open>A rule with the weight 0 is taken for one without a weight: the expression is not anchored.\<close>

lemma zero_weight_is_no_weight: "find_rule ''0:up~yes'' = Some ([], ''up'', False, ''yes'')"
  by code_simp

section \<open>The broadcast address\<close>

text \<open>
  The broadcast address is in the network of the address, and it is the greatest one there:
  each byte of an address of the network is at most that of the broadcast address.
\<close>

lemma broadcast_is_greatest:
  assumes "MakeBroadcast ip m = Some b" and "length ip = length m"
    and "length other = length m" and "map2 and other m = map2 and ip m"
  shows "map2 and b m = map2 and ip m \<and> list_all2 (\<lambda>x y. x \<le> y) other b"
proof -
  have b: "b = map2 (\<lambda>a b. or a (not b)) ip m"
    using assms(1,2) by (auto simp: MakeBroadcast_def Let_def split: if_splits)
  have same: "and (or x (not y)) y = and x y" for x y :: "8 word"
    by (rule bit_word_eqI) (auto simp: bit_simps)
  have le: "z \<le> or x (not y)" if "and z y = and x y" for x y z :: "8 word"
  proof -
    have "bit z n \<and> bit y n \<longleftrightarrow> bit x n \<and> bit y n" for n using that by (metis bit_and_iff)
    then have "and z (or x (not y)) = z" by (intro bit_word_eqI) (auto simp: bit_simps)
    then show ?thesis by (metis word_and_le2 and.commute)
  qed
  show ?thesis
    using assms(2-4) le same unfolding b
    by (auto simp: list_all2_conv_all_nth list_eq_iff_nth_eq)
qed

end
