(* ===== verification/Spec2Isabelle.thy ===== *)
theory Spec2Isabelle
  imports HashText HashFilter HashDB Base64 ClientDB ServerDB JobDB JobInvariants JobActions
    Addresses PeerLinks ForeignUpdates JobMirror Tftp Access Crypt Dispatch
    ConnLimits HashString Ldif Registration JobMessages Fai SystemDB ClientMessages AuditFiles AuditQuery
    ServerMessages Queries LogFiles Activation Settings
begin

text \<open>
  This library models the server go-susi (directory go-susi of the repository), which runs
  the jobs of an administration system for machines (GOsa): it keeps jobs for installing,
  waking, locking or updating machines, shares them with the other servers, talks to the
  machines themselves and reads and writes their entries in LDAP.

  \<^bold>\<open>The parts of the program and how they interact.\<close> Every message and every database is an
  XML element (xml/xml_hash.go). A database is an element whose children are the entries,
  with a file to which background jobs save it (xml/xml_db.go), queried by filters
  (xml/xml_filter.go). A message arrives over TLS or encrypted with a key, gets a context
  with the rights of the sender (security/context.go, security/connectionlimits.go,
  security/gosacrypt.go), is checked and dispatched (message/process_msg.go) to the handler
  of its kind (message/*.go). The handlers read and change the databases of jobs, clients and
  servers (db/jobdb.go, db/clientdb.go, db/serverdb.go) and the systems in LDAP
  (db/systemdb.go, db/ldap.go). The job database is owned by one goroutine that performs
  requests in the order of its queue; what it changes is told to the other servers
  (message/peer_connection.go), which keep copies (message/foreign_job_updates.go), and jobs
  that are due go to the consumer in action/. Beside that stand the registration of this
  program at another server (message/registered.go), a TFTP server for booting
  (tftp/server.go), the releases, classes, kernels and packages of FAI (db/faidb.go,
  db/hooks.go) and the stored audit data with its queries (db/audit.go,
  message/gosa_query_audit*.go).

  \<^bold>\<open>Theories.\<close> Each opens with what it holds; definitions have the names of the code.
  \<^item> Prelude, GoStrings, GoRegexp: collections of rewrite rules, lists; the functions of Go's
    packages strings, strconv, bytes and regexp that the code calls, with their laws.
  \<^item> HashTree, HashText, HashString, Ldif, Base64 (xml/xml_hash.go): elements as the datatype
    of a name and an ordered list of texts and elements; \<open>First\<close>, \<open>Get\<close>, \<open>Text\<close>, \<open>Add\<close>, \<open>Clone\<close>,
    \<open>Query\<close>, \<open>Remove\<close> ...; the writer and the reader of text; the canonical \<open>String()\<close> with its
    sorting by quicksort and insertion sort; the reader of LDIF data.
  \<^item> HashFilter (xml/xml_filter.go): the filters as a datatype with \<open>Accepts\<close>, and the
    translation of where expressions.
  \<^item> HashDB (xml/xml_db.go): the database as a record, its operations, the file behind it on a
    file system that may fail at any step, and the background jobs as a step relation.
  \<^item> ClientDB, ServerDB (db/clientdb.go, db/serverdb.go): their entries, their uniqueness, the
    throttling of clients.
  \<^item> JobDB, JobInvariants (db/jobdb.go): the requests as functions on a record (queue of
    requests, database, ids, pending actions, updates for the peers), the loop
    \<open>handleJobDBRequests\<close> with its timer events, and the runs of all that.
  \<^item> JobActions (action/*.go): what the consumer does for each job, and periodic jobs.
  \<^item> Addresses, ForeignUpdates, JobMirror, PeerLinks (message/foreign_job_updates.go,
    message/peer_connection.go): copies of jobs between servers and the queues between them.
  \<^item> Dispatch, Access, Crypt, ConnLimits (message/process_msg.go, security/*.go): who may do
    what.
  \<^item> JobMessages, Registration, ClientMessages (message/*.go): the handlers of messages about
    jobs, of the registration, of clients.
  \<^item> ServerMessages (message/new_server.go, new_foreign_client.go, new_key.go,
    information_sharing.go, trigger_wake.go, peer_connection.go): what servers tell each other
    about themselves and their clients, and the full synchronization with a peer.
  \<^item> Queries (message/gosa_query_jobdb.go, gosa_query_fai_*.go, gosa_query_packages_list.go,
    gosa_get_available_kernel.go, security/util.go): the queries of the administrator.
  \<^item> LogFiles (message/clmsg_save_fai_log.go, gosa_get_log_file_*.go, gosa_show_log*.go): log
    files on their way from a client to the disk of the server and to the administrator.
  \<^item> Activation (message/job_trigger_activate_new.go, detect_hardware.go, new_foo_config.go,
    trigger_action_foo.go, gosa_ping.go): new machines, the hooks of the client, pings.
  \<^item> Settings (config/config.go): the command line, the configuration files, the choice of the
    network interface and what the machine calls itself.
  \<^item> Fai, SystemDB (db/faidb.go, db/hooks.go, db/ldap.go, db/systemdb.go): the data in LDAP.
  \<^item> Tftp (tftp/server.go, tftp/get.go): the server with its cache, and the client.
  \<^item> AuditFiles, AuditQuery (db/audit.go, message/gosa_query_audit.go,
    message/gosa_query_audit_aggregate.go): the reader of audit files down to the bytes of its
    buffer, and the queries.
  This theory joins them: what one run of the server saves is what the next one reads.

  \<^bold>\<open>How the code corresponds to the model.\<close> A function that changes state takes the record of
  its component and returns it; a handler also returns its reply and, in order, what it does
  to the outside (messages sent, commands for ldapmodify, actions). A Go function with an
  error is a sum (\<open>Inl\<close> the text of the error); a panic is a value of its own,
  \<open>Panics\<close> or \<open>None\<close>. Mutexes are not modelled: the operations they protect are atomic steps.
  Goroutines that matter to a property are steps of an inductive relation (HashDB,
  JobInvariants, PeerLinks, Registration, Tftp). Strings are byte strings. Integers are \<open>int\<close> or
  \<open>nat\<close>, with the arithmetic of 64 bits written out where the code can overflow (JobActions,
  ConnLimits, Dispatch, Access, ClientMessages); the bit sets of the FAI classes are words of
  64 bits (Fai). Durations that the code prints after a division in float64 are exact
  quotients (Queries).

  \<^bold>\<open>Interfaces.\<close> \<open>item_filter\<close> (HashFilter) is what the filters on elements and those on the
  rows of an audit (AuditQuery) have in common; \<open>item_store\<close> and \<open>reliable_storer\<close> (HashDB) are
  what the database needs of its items and of its file. Each is interpreted on the code's own
  definitions.

  \<^bold>\<open>What the lemmas show.\<close> Round trips: elements, LDIF data, the encryption, filters for LDAP,
  audit files, log files, configuration files and the job database itself are read back as
  written.
  Invariants of all runs: ids of jobs are unique, one install job per machine, data of the
  TFTP cache in use is kept, no change of a database is lost. Refinement: the copies of jobs
  at another server follow the jobs of their owner. Safety: saving is atomic, jobs need a
  certificate, rights come from the certificate, third servers' jobs are untouched, log
  files stay in their directory, a machine whose job is due is not only woken. Equivalence with a reference: where expressions, audit
  filters, template rules, the inheritance of FAI classes, the search tree of columns, the
  canonical text, the choice of the network interface. Bounds and termination: connections, the data stored for clients,
  rescheduling of periodic jobs, the attempts to send a message. Lemmas whose name
  says that something goes wrong (for example \<open>empty_tag_hides_entries\<close>) record a defect of
  the code on a concrete input.

  \<^bold>\<open>Arguments of the model.\<close> Code outside the repository is an argument, with its documented
  behaviour as a hypothesis where a theorem needs it: AES, MD5 and base64 of golib
  (\<open>crypto_ok\<close>), regexp.Compile of a user's pattern, the answers of LDAP and of the name service,
  the file system (which operations fail), the network (what each read and write meets), the
  output of the hook programs, the order in which Go visits a map, random numbers, the
  clock, and AddDate in a time zone.

  \<^bold>\<open>Loops and bounds.\<close> There is no fuel: a loop of the code is a recursion over its list or has
  a measure, and each definition is total; a loop that may not end (the search for
  the next instance of a periodic job) is a \<open>partial_function\<close>, so that not returning is a
  value. Channels and queues have no capacity here: where the code
  would wait for room, the model goes on.

  \<^bold>\<open>Not modelled.\<close> Programs and files that only do input and output: main/go-susi.go (start-up,
  signals, sockets), db/loggingfilestorer.go, message/sistats.go (statistics of the Go runtime),
  the log texts. message/clmsg_login_logout.go does nothing, its code is a comment. In
  xml/xml_hash.go the nodes in memory behind the tree; in security/context.go the TLS
  handshake; in db/ldap.go the wait for the LDAP server; in config/config.go the certificates,
  which crypto/tls reads, and the temporary files; message/usr_msg.go. The settings that
  theory Settings reads are arguments of the other theories, each with those it needs.
  Separate programs: main/sibridge.go, a client on the command line, and
  fai-helpers/debdb.go, which reads lists of Debian packages. The programs in attic/ are
  generators of load and tools that are not part of the server; tests/ are tests. gosa-core,
  gosa-plugins and gosa-quickstart are PHP, the other FAI helpers are shell and PHP scripts.
\<close>

section \<open>From one run of the server to the next\<close>

text \<open>What the reader builds is tidy, so it can be used as a database.\<close>

lemma tidy_reread:
  "tidy (reread h)"
  "tidy x \<Longrightarrow> tidy (reread_kids acc ks x)"
  by (induction h and acc ks x rule: reread_reread_kids.induct)
    (simp_all add: flush_text_def)

lemma reread_fields: "get1 t (reread h) = get1 t h" "Name (reread h) = Name h"
  using canon_reads [OF canon_reread [of h]] by auto

lemma children_reread: "children (reread h) = map reread (children h)"
  by (cases h) (simp add: reread_parts)

lemma job_ok_reread: "job_ok j \<Longrightarrow> job_ok (reread j)"
  by (simp add: job_ok_def reread_fields tidy_reread)

lemma db_ok_reread: "db_ok d \<Longrightarrow> db_ok (reread d)"
proof -
  assume d: "db_ok d"
  have ids: "map id_of (children (reread d)) = map id_of (children d)"
    by (simp add: children_reread text_of_eq reread_fields o_def)
  from d have "list_all job_ok (children (reread d))"
    by (auto simp: db_ok_def children_reread list_all_iff job_ok_reread simp del: set_elems)
  with d ids show "db_ok (reread d)" by (simp add: db_ok_def)
qed



end
